(* ===== verification/Prelude.thy ===== *)
theory Prelude
  imports Main "HOL-Library.Code_Target_Nat"
begin

text \<open>
  The vocabulary every component shares. A Go \<^verbatim>\<open>string\<close> is a sequence of bytes, here a
  \<^typ>\<open>string\<close> whose characters are the bytes. The functions of the \<^verbatim>\<open>strings\<close> package the
  program calls are written out on bytes; \<open>trim_space\<close> and \<open>go_fields\<close> know the UTF-8
  encodings of every rune for which \<^verbatim>\<open>unicode.IsSpace\<close> holds. A fallible Go function returns
  \<^typ>\<open>'e + 'a\<close>, \<^const>\<open>Inl\<close> being the error.
\<close>

named_theorems go_strings \<open>definitions of the modelled functions of the Go package strings\<close>

type_synonym bytes = string
type_synonym ('e, 'a) result = "'e + 'a"

section \<open>Results\<close>

definition is_ok :: "('e, 'a) result \<Rightarrow> bool" where
  "is_ok r \<longleftrightarrow> (case r of Inl _ \<Rightarrow> False | Inr _ \<Rightarrow> True)"

lemma is_ok_simps [simp]: "is_ok (Inr x)" "\<not> is_ok (Inl e)"
  by (simp_all add: is_ok_def)

lemma is_ok_iff: "is_ok r \<longleftrightarrow> (\<exists>x. r = Inr x)"
  by (cases r) simp_all

text \<open>The sequencing every Go function writes with \<^verbatim>\<open>if err != nil { return err }\<close>.\<close>

definition and_then :: "('e, 'a) result \<Rightarrow> ('a \<Rightarrow> ('e, 'b) result) \<Rightarrow> ('e, 'b) result" where
  "and_then r f = (case r of Inl e \<Rightarrow> Inl e | Inr x \<Rightarrow> f x)"

definition guard :: "bool \<Rightarrow> 'e \<Rightarrow> ('e, unit) result" where
  "guard ok e = (if ok then Inr () else Inl e)"

lemma and_then_simps [simp]: "and_then (Inl e) f = Inl e" "and_then (Inr x) f = f x"
  by (simp_all add: and_then_def)

lemma and_then_ok [simp]: "and_then r f = Inr y \<longleftrightarrow> (\<exists>x. r = Inr x \<and> f x = Inr y)"
  by (cases r) simp_all

lemma guard_ok [simp]: "guard ok e = Inr u \<longleftrightarrow> ok"
  by (simp add: guard_def)

lemma guard_simps [simp]: "guard True e = Inr ()" "guard False e = Inl e"
  by (simp_all add: guard_def)

lemma find_Some_in: "find P xs = Some x \<Longrightarrow> x \<in> set xs \<and> P x"
  by (induction xs) (auto split: if_splits)

section \<open>Prefixes, suffixes, substrings\<close>

definition has_prefix :: "bytes \<Rightarrow> bytes \<Rightarrow> bool" where
  "has_prefix s p \<longleftrightarrow> take (length p) s = p"

definition has_suffix :: "bytes \<Rightarrow> bytes \<Rightarrow> bool" where
  "has_suffix s p \<longleftrightarrow> length p \<le> length s \<and> drop (length s - length p) s = p"

definition trim_prefix :: "bytes \<Rightarrow> bytes \<Rightarrow> bytes" where
  "trim_prefix s p = (if has_prefix s p then drop (length p) s else s)"

definition trim_suffix :: "bytes \<Rightarrow> bytes \<Rightarrow> bytes" where
  "trim_suffix s p = (if has_suffix s p then take (length s - length p) s else s)"

text \<open>The Go slice expression \<^verbatim>\<open>s[from:to]\<close>, for \<open>from \<le> to \<le> length s\<close>.\<close>

definition slice :: "nat \<Rightarrow> nat \<Rightarrow> 'a list \<Rightarrow> 'a list" where
  "slice i j s = take (j - i) (drop i s)"

fun contains_sub :: "bytes \<Rightarrow> bytes \<Rightarrow> bool" where
  "contains_sub [] p \<longleftrightarrow> p = []"
| "contains_sub (c # s) p \<longleftrightarrow> has_prefix (c # s) p \<or> contains_sub s p"

definition contains_any :: "bytes \<Rightarrow> char list \<Rightarrow> bool" where
  "contains_any s chars \<longleftrightarrow> list_ex (\<lambda>c. c \<in> set chars) s"

text \<open>\<^verbatim>\<open>strings.Join\<close>.\<close>

fun join :: "bytes list \<Rightarrow> bytes \<Rightarrow> bytes" where
  "join [] sep = []"
| "join [x] sep = x"
| "join (x # y # xs) sep = x @ sep @ join (y # xs) sep"

lemma has_prefix_append [simp]: "has_prefix (p @ s) p"
  by (simp add: has_prefix_def)

lemma has_prefix_iff: "has_prefix s p \<longleftrightarrow> (\<exists>r. s = p @ r)"
  by (metis append_eq_conv_conj append_take_drop_id has_prefix_def)

lemma has_suffix_iff: "has_suffix s p \<longleftrightarrow> (\<exists>r. s = r @ p)"
proof
  assume "has_suffix s p"
  then show "\<exists>r. s = r @ p"
    by (metis append_take_drop_id has_suffix_def)
next
  assume "\<exists>r. s = r @ p"
  then show "has_suffix s p" by (auto simp: has_suffix_def)
qed

lemma contains_sub_iff: "contains_sub s p \<longleftrightarrow> (\<exists>a b. s = a @ p @ b)"
proof (induction s)
  case Nil
  then show ?case by simp
next
  case (Cons c s)
  have "(\<exists>a b. c # s = a @ p @ b) \<longleftrightarrow> (\<exists>b. c # s = p @ b) \<or> (\<exists>a b. s = a @ p @ b)"
    by (metis append_Cons append_Nil append_eq_Cons_conv)
  then show ?case using Cons by (simp add: has_prefix_iff)
qed

lemma contains_any_iff: "contains_any s cs \<longleftrightarrow> (\<exists>c \<in> set s. c \<in> set cs)"
  by (simp add: contains_any_def list_ex_iff)

lemma slice_append:
  assumes "i \<le> j" "j \<le> k"
  shows "slice i j s @ slice j k s = slice i k s"
proof -
  from assms have k: "k - i = (j - i) + (k - j)" and j: "drop j s = drop (j - i) (drop i s)"
    by simp_all
  show ?thesis unfolding slice_def k j by (rule take_add [symmetric])
qed

lemma take_slice: "i \<le> j \<Longrightarrow> take i s @ slice i j s = take j s"
  by (metis add.commute le_add_diff_inverse2 slice_def take_add)

lemma length_slice: "j \<le> length s \<Longrightarrow> length (slice i j s) = j - i"
  by (simp add: slice_def)

lemma slice_same [simp]: "slice i i s = []"
  by (simp add: slice_def)

lemma slice_Suc: "i < length s \<Longrightarrow> slice i (Suc i) s = [s ! i]"
  by (simp add: slice_def take_Suc_conv_app_nth)

section \<open>White space\<close>

text \<open>The UTF-8 encodings of the runes of \<^verbatim>\<open>unicode.White_Space\<close>.\<close>

definition space_encodings :: "bytes list" where
  "space_encodings =
     [[CHR 0x09], [CHR 0x0A], [CHR 0x0B], [CHR 0x0C], [CHR 0x0D], [CHR 0x20],
      [CHR 0xC2, CHR 0x85], [CHR 0xC2, CHR 0xA0], [CHR 0xE1, CHR 0x9A, CHR 0x80],
      [CHR 0xE2, CHR 0x80, CHR 0x80], [CHR 0xE2, CHR 0x80, CHR 0x81],
      [CHR 0xE2, CHR 0x80, CHR 0x82], [CHR 0xE2, CHR 0x80, CHR 0x83],
      [CHR 0xE2, CHR 0x80, CHR 0x84], [CHR 0xE2, CHR 0x80, CHR 0x85],
      [CHR 0xE2, CHR 0x80, CHR 0x86], [CHR 0xE2, CHR 0x80, CHR 0x87],
      [CHR 0xE2, CHR 0x80, CHR 0x88], [CHR 0xE2, CHR 0x80, CHR 0x89],
      [CHR 0xE2, CHR 0x80, CHR 0x8A], [CHR 0xE2, CHR 0x80, CHR 0xA8],
      [CHR 0xE2, CHR 0x80, CHR 0xA9], [CHR 0xE2, CHR 0x80, CHR 0xAF],
      [CHR 0xE2, CHR 0x81, CHR 0x9F], [CHR 0xE3, CHR 0x80, CHR 0x80]]"

text \<open>The length of the encoding of the list that starts the text, 0 when none does.\<close>

definition lead_len :: "bytes list \<Rightarrow> bytes \<Rightarrow> nat" where
  "lead_len encs s = (case find (has_prefix s) encs of None \<Rightarrow> 0 | Some e \<Rightarrow> length e)"

lemma lead_len_Nil [simp]: "lead_len encs [] = 0"
  by (induction encs) (auto simp: lead_len_def has_prefix_def)

function trim_lead :: "bytes list \<Rightarrow> bytes \<Rightarrow> bytes" where
  "trim_lead encs s = (if lead_len encs s = 0 then s else trim_lead encs (drop (lead_len encs s) s))"
  by pat_completeness auto
termination
proof (relation "measure (\<lambda>(encs, s). length s)")
  fix encs :: "bytes list" and s :: bytes
  assume "lead_len encs s \<noteq> 0"
  moreover from this have "s \<noteq> []" by auto
  ultimately show "((encs, drop (lead_len encs s) s), encs, s) \<in> measure (\<lambda>(encs, s). length s)"
    by simp
qed simp

declare trim_lead.simps [simp del]

definition trim_left :: "bytes \<Rightarrow> bytes" where
  "trim_left s = trim_lead space_encodings s"

definition trim_right :: "bytes \<Rightarrow> bytes" where
  "trim_right s = rev (trim_lead (map rev space_encodings) (rev s))"

text \<open>\<^verbatim>\<open>strings.TrimSpace\<close>.\<close>

definition trim_space :: "bytes \<Rightarrow> bytes" where
  "trim_space s = trim_right (trim_left s)"

definition blank :: "bytes \<Rightarrow> bool" where
  "blank s \<longleftrightarrow> trim_space s = []"

lemma trim_lead_suffix: "\<exists>p. s = p @ trim_lead encs s"
proof (induction encs s rule: trim_lead.induct)
  case (1 encs s)
  then show ?case
    by (metis append_Nil append_assoc append_take_drop_id trim_lead.simps)
qed

lemma trim_lead_Nil [simp]: "trim_lead encs [] = []"
  by (simp add: trim_lead.simps)

lemma trim_space_sub: "\<exists>a b. s = a @ trim_space s @ b"
proof -
  obtain p where "s = p @ trim_left s" using trim_lead_suffix trim_left_def by metis
  moreover obtain q where "rev (trim_left s) = q @ trim_lead (map rev space_encodings) (rev (trim_left s))"
    using trim_lead_suffix by metis
  then have "trim_left s = trim_space s @ rev q"
    by (metis rev_append rev_rev_ident trim_right_def trim_space_def)
  ultimately show ?thesis by metis
qed

lemma set_trim_space: "set (trim_space s) \<subseteq> set s"
  using trim_space_sub [of s] by (metis Un_iff set_append subsetI)

lemma trim_space_Nil [simp]: "trim_space [] = []"
  by (simp add: trim_space_def trim_left_def trim_right_def)

lemma blank_Nil [simp]: "blank []"
  by (simp add: blank_def)

text \<open>A text that begins and ends with a byte of no white space rune is trimmed already.\<close>

lemma lead_len_plain: "c \<notin> set (concat encs) \<Longrightarrow> lead_len encs (c # s) = 0"
proof -
  assume "c \<notin> set (concat encs)"
  then have "has_prefix (c # s) e \<Longrightarrow> e = []" if "e \<in> set encs" for e
    using that by (cases e) (auto simp: has_prefix_def)
  then show ?thesis by (auto simp: lead_len_def dest!: find_Some_in split: option.splits)
qed

lemma trim_lead_plain: "set s \<inter> set (concat encs) = {} \<Longrightarrow> trim_lead encs s = s"
  by (cases s) (simp_all add: trim_lead.simps lead_len_plain)

lemma concat_map_rev: "set (concat (map rev encs)) = set (concat encs)"
  by (induction encs) auto

lemma trim_space_plain: "set s \<inter> set (concat space_encodings) = {} \<Longrightarrow> trim_space s = s"
  by (simp only: trim_space_def trim_left_def trim_right_def trim_lead_plain set_rev concat_map_rev
      rev_rev_ident)

text \<open>Trimming only removes bytes of white space.\<close>

lemma trim_lead_keeps: "c \<in> set s \<Longrightarrow> c \<notin> set (concat encs) \<Longrightarrow> c \<in> set (trim_lead encs s)"
proof (induction encs s rule: trim_lead.induct)
  case (1 encs s)
  show ?case
  proof (cases "find (has_prefix s) encs")
    case None
    then show ?thesis using 1 by (simp add: trim_lead.simps [of encs s] lead_len_def)
  next
    case (Some e)
    then have e: "e \<in> set encs" "take (length e) s = e" using find_Some_in [OF Some] by (simp_all add: has_prefix_def)
    then have "c \<notin> set (take (length e) s)" using 1(3) by auto
    then have "c \<in> set (drop (lead_len encs s) s)"
      using 1(2) Some by (metis Un_iff append_take_drop_id lead_len_def option.simps(5) set_append)
    then show ?thesis using 1 by (simp add: trim_lead.simps [of encs s])
  qed
qed

lemma trim_space_keeps: "c \<in> set s \<Longrightarrow> c \<notin> set (concat space_encodings) \<Longrightarrow> c \<in> set (trim_space s)"
  by (simp only: trim_space_def trim_left_def trim_right_def trim_lead_keeps set_rev concat_map_rev not_False_eq_True)

text \<open>\<^verbatim>\<open>strings.Fields\<close>: the maximal runs free of white space.\<close>

function go_fields_from :: "bytes \<Rightarrow> bytes \<Rightarrow> bytes list" where
  "go_fields_from cur [] = (if cur = [] then [] else [cur])"
| "go_fields_from cur (c # s) =
     (if lead_len space_encodings (c # s) = 0 then go_fields_from (cur @ [c]) s
      else if cur = [] then go_fields_from [] (drop (lead_len space_encodings (c # s)) (c # s))
      else cur # go_fields_from [] (drop (lead_len space_encodings (c # s)) (c # s)))"
  by pat_completeness auto
termination
  by (relation "measure (\<lambda>(cur, s). length s)") auto

definition go_fields :: "bytes \<Rightarrow> bytes list" where
  "go_fields s = go_fields_from [] s"

section \<open>Lower case\<close>

text \<open>
  \<^verbatim>\<open>strings.ToLower\<close> for the comparisons with ASCII literals the program makes: ASCII capitals
  are lowered, and so are the only two other runes whose lower case is ASCII, U+0130 (to \<open>i\<close>)
  and U+212A (to \<open>k\<close>). Every other rune is left as it is: its lower case in Go is not ASCII
  either, so no comparison with an ASCII literal can tell the two apart.
\<close>

definition lower_char :: "char \<Rightarrow> char" where
  "lower_char c = (if 65 \<le> (of_char c :: nat) \<and> (of_char c :: nat) \<le> 90
                   then char_of ((of_char c :: nat) + 32) else c)"

fun to_lower :: "bytes \<Rightarrow> bytes" where
  "to_lower [] = []"
| "to_lower (c # s) =
     (if has_prefix (c # s) [CHR 0xC4, CHR 0xB0] then CHR ''i'' # to_lower (drop 1 s)
      else if has_prefix (c # s) [CHR 0xE2, CHR 0x84, CHR 0xAA] then CHR ''k'' # to_lower (drop 2 s)
      else lower_char c # to_lower s)"

section \<open>Decimal numbers\<close>

definition digit_char :: "nat \<Rightarrow> char" where
  "digit_char d = char_of (48 + d)"

definition digit_val :: "char \<Rightarrow> nat option" where
  "digit_val c = (let n = (of_char c :: nat) in if 48 \<le> n \<and> n \<le> 57 then Some (n - 48) else None)"

lemma digit_val_char [simp]: "d < 10 \<Longrightarrow> digit_val (digit_char d) = Some d"
  by (simp add: digit_val_def digit_char_def Let_def)

text \<open>\<^verbatim>\<open>strconv.Itoa\<close> on a number that is not negative.\<close>

fun show_nat :: "nat \<Rightarrow> bytes" where
  "show_nat n = (if n < 10 then [digit_char n] else show_nat (n div 10) @ [digit_char (n mod 10)])"

declare show_nat.simps [simp del]

fun read_digits :: "nat \<Rightarrow> bytes \<Rightarrow> nat option" where
  "read_digits acc [] = Some acc"
| "read_digits acc (c # s) =
     (case digit_val c of None \<Rightarrow> None | Some d \<Rightarrow> read_digits (10 * acc + d) s)"

text \<open>\<^verbatim>\<open>strconv.Atoi\<close> with 64-bit integers: an optional sign, at least one digit, nothing else,
  and a value in range.\<close>

definition atoi :: "bytes \<Rightarrow> int option" where
  "atoi s =
     (let (neg, body) = (case s of
            [] \<Rightarrow> (False, [])
          | c # r \<Rightarrow> if c = CHR ''-'' then (True, r) else if c = CHR ''+'' then (False, r) else (False, s))
      in if body = [] then None
         else case read_digits 0 body of
                None \<Rightarrow> None
              | Some n \<Rightarrow>
                  let v = (if neg then - int n else int n) in
                  if - (2 ^ 63) \<le> v \<and> v < 2 ^ 63 then Some v else None)"

lemma read_digits_append:
  "read_digits acc (s @ t) = (case read_digits acc s of None \<Rightarrow> None | Some a \<Rightarrow> read_digits a t)"
  by (induction s arbitrary: acc) (auto split: option.splits)

lemma read_digits_show: "read_digits 0 (show_nat n) = Some n"
proof (induction n rule: show_nat.induct)
  case (1 n)
  then show ?case
    by (cases "n < 10") (simp_all add: show_nat.simps [of n] read_digits_append)
qed

lemma show_nat_nonempty [simp]: "show_nat n \<noteq> []"
  by (subst show_nat.simps) simp

lemma show_nat_digits: "c \<in> set (show_nat n) \<Longrightarrow> digit_val c \<noteq> None"
proof (induction n rule: show_nat.induct)
  case (1 n)
  then show ?case
    by (cases "n < 10") (auto simp: show_nat.simps [of n])
qed

lemma digit_val_sign [simp]: "digit_val (CHR ''-'') = None" "digit_val (CHR ''+'') = None"
  by (simp_all add: digit_val_def)

lemma digits_no_space: "set (show_nat n) \<inter> set (concat space_encodings) = {}"
proof -
  have "\<forall>c \<in> set (concat space_encodings). digit_val c = None"
    unfolding list_all_iff [symmetric] by code_simp
  note space = bspec [OF this]
  show ?thesis unfolding disjoint_iff
  proof (intro allI impI notI)
    fix c
    assume "c \<in> set (show_nat n)" "c \<in> set (concat space_encodings)"
    from show_nat_digits [OF this(1)] space [OF this(2)] show False by contradiction
  qed
qed

lemma trim_show_nat [simp]: "trim_space (show_nat n) = show_nat n"
  by (rule trim_space_plain [OF digits_no_space])

lemma atoi_show_nat: "n < 2 ^ 63 \<Longrightarrow> atoi (show_nat n) = Some (int n)"
proof -
  assume n: "n < 2 ^ 63"
  obtain c r where s: "show_nat n = c # r" using show_nat_nonempty by (cases "show_nat n") auto
  then have "digit_val c \<noteq> None" using show_nat_digits [of c n] by simp
  then have "c \<noteq> CHR ''-''" "c \<noteq> CHR ''+''" using digit_val_sign by metis+
  moreover have "read_digits 0 (c # r) = Some n" using read_digits_show [of n] s by simp
  moreover have "int n < 2 ^ 63" using n by (metis of_nat_less_iff of_nat_numeral of_nat_power)
  ultimately show ?thesis using s by (simp add: atoi_def del: read_digits.simps)
qed

text \<open>A number as \<^verbatim>\<open>encoding/json\<close> writes it. The code equation divides in binary.\<close>

definition show_int :: "int \<Rightarrow> bytes" where
  "show_int n = (if n < 0 then ''-'' @ show_nat (nat (- n)) else show_nat (nat n))"

function show_digits :: "int \<Rightarrow> bytes" where
  "show_digits n = (if n < 10 then [digit_char (nat n)] else show_digits (n div 10) @ [digit_char (nat (n mod 10))])"
  by pat_completeness auto
termination
  by (relation "measure nat") auto

declare show_digits.simps [simp del]

lemma show_digits_nat: "0 \<le> n \<Longrightarrow> show_digits n = show_nat (nat n)"
proof (induction n rule: show_digits.induct)
  case (1 n)
  then show ?case
    by (cases "n < 10") (simp_all add: show_digits.simps [of n] show_nat.simps [of "nat n"] nat_div_distrib nat_mod_distrib nat_less_iff)
qed

lemma show_int_code [code]: "show_int n = (if n < 0 then CHR ''-'' # show_digits (- n) else show_digits n)"
  by (simp add: show_int_def show_digits_nat)

text \<open>The value of a 64-bit computation with the mathematical result \<open>n\<close>.\<close>

definition wrap64 :: "int \<Rightarrow> int" where
  "wrap64 n = (n + 2 ^ 63) mod 2 ^ 64 - 2 ^ 63"

section \<open>Time\<close>

text \<open>A \<^verbatim>\<open>time.Time\<close> is its nanosecond, a column of the database its millisecond.\<close>

definition unix_milli :: "int \<Rightarrow> int" where
  "unix_milli t = t div 1000000"

definition of_milli :: "int \<Rightarrow> int" where
  "of_milli m = m * 1000000"

lemma unix_milli_of_milli [simp]: "unix_milli (of_milli m) = m"
  by (simp add: unix_milli_def of_milli_def)

lemma of_milli_le: "of_milli (unix_milli t) \<le> t"
  using minus_mod_eq_div_mult [of t 1000000] pos_mod_sign [of 1000000 t]
  by (simp add: unix_milli_def of_milli_def)

section \<open>Lists as Go slices and maps\<close>

text \<open>Removing repetitions, keeping the first occurrence of every element.\<close>

fun dedup_from :: "'a list \<Rightarrow> 'a list \<Rightarrow> 'a list" where
  "dedup_from seen [] = []"
| "dedup_from seen (x # xs) =
     (if x \<in> set seen then dedup_from seen xs else x # dedup_from (x # seen) xs)"

lemma set_dedup_from: "set (dedup_from seen xs) = set xs - set seen"
  by (induction xs arbitrary: seen) auto

lemma distinct_dedup_from: "distinct (dedup_from seen xs)"
  by (induction xs arbitrary: seen) (auto simp: set_dedup_from)

lemmas dedup_facts = set_dedup_from distinct_dedup_from

lemma foldl_invariant: "P a \<Longrightarrow> (\<And>b x. x \<in> set xs \<Longrightarrow> P b \<Longrightarrow> P (g b x)) \<Longrightarrow> P (foldl g a xs)"
  by (induction xs arbitrary: a) auto

lemma find_None_all: "find P xs = None \<longleftrightarrow> (\<forall>x \<in> set xs. \<not> P x)"
  by (induction xs) auto

lemmas [go_strings] = has_prefix_def has_suffix_def trim_prefix_def trim_suffix_def slice_def
  contains_any_def space_encodings_def lead_len_def trim_left_def trim_right_def trim_space_def
  blank_def go_fields_def lower_char_def trim_lead.simps

end
