(* ===== verification/Dep_Graph.thy ===== *)
theory Dep_Graph
  imports Prelude
begin

text \<open>
  The depth-first check of dependency graphs. \<^verbatim>\<open>validateSpec\<close> of \<^verbatim>\<open>internal/operation/service.go\<close>
  and \<^verbatim>\<open>validateTaskGraph\<close> of \<^verbatim>\<open>internal/plan/service.go\<close> hold the same recursive closure
  \<^verbatim>\<open>visit\<close> up to the two tests on its way: \<open>enter\<close> on the visited node, \<open>edge\<close> on every
  dependency before it is visited. \<open>dfs_visit\<close> is that closure with the tests as arguments; the
  two programs instantiate it. The maps \<^verbatim>\<open>visiting\<close>/\<^verbatim>\<open>visited\<close> (and \<^verbatim>\<open>state\<close>) are the
  colour of a node. The recursion runs on fuel, its nesting depth; the locale \<open>dfs_contract\<close>
  shows that as many units as there are nodes, plus one, are enough, and that the check
  accepts exactly the closed acyclic graphs.
\<close>

datatype colour = White | Grey | Black

text \<open>\<^const>\<open>None\<close> is running out of fuel.\<close>

function (sequential) dfs_visit :: "('n \<Rightarrow> 'n list) \<Rightarrow> ('n \<Rightarrow> 'e option) \<Rightarrow> ('n \<Rightarrow> 'n \<Rightarrow> 'e option) \<Rightarrow> ('n \<Rightarrow> 'e) \<Rightarrow>
    nat \<Rightarrow> 'n \<Rightarrow> ('n \<Rightarrow> colour) \<Rightarrow> ('e, 'n \<Rightarrow> colour) result option"
and dfs_deps :: "('n \<Rightarrow> 'n list) \<Rightarrow> ('n \<Rightarrow> 'e option) \<Rightarrow> ('n \<Rightarrow> 'n \<Rightarrow> 'e option) \<Rightarrow> ('n \<Rightarrow> 'e) \<Rightarrow>
    nat \<Rightarrow> 'n \<Rightarrow> 'n list \<Rightarrow> ('n \<Rightarrow> colour) \<Rightarrow> ('e, 'n \<Rightarrow> colour) result option" where
  "dfs_visit deps enter edge cycle 0 n col = None"
| "dfs_visit deps enter edge cycle (Suc fuel) n col =
     (if col n = Grey then Some (Inl (cycle n))
      else if col n = Black then Some (Inr col)
      else case enter n of
             Some e \<Rightarrow> Some (Inl e)
           | None \<Rightarrow>
               (case dfs_deps deps enter edge cycle fuel n (deps n) (col(n := Grey)) of
                  Some (Inr col') \<Rightarrow> Some (Inr (col'(n := Black)))
                | r \<Rightarrow> r))"
| "dfs_deps deps enter edge cycle fuel n [] col = Some (Inr col)"
| "dfs_deps deps enter edge cycle fuel n (d # ds) col =
     (case edge n d of
        Some e \<Rightarrow> Some (Inl e)
      | None \<Rightarrow>
          (case dfs_visit deps enter edge cycle fuel d col of
             Some (Inr col') \<Rightarrow> dfs_deps deps enter edge cycle fuel n ds col'
           | r \<Rightarrow> r))"
  by pat_completeness auto
termination
  by (relation "measures [case_sum (\<lambda>(_, _, _, _, fuel, _). fuel) (\<lambda>(_, _, _, _, fuel, _). fuel),
        case_sum (\<lambda>_. 0) (\<lambda>(_, _, _, _, _, _, ds, _). Suc (length ds))]") auto

text \<open>The loop over the roots.\<close>

fun dfs_all :: "('n \<Rightarrow> 'n list) \<Rightarrow> ('n \<Rightarrow> 'e option) \<Rightarrow> ('n \<Rightarrow> 'n \<Rightarrow> 'e option) \<Rightarrow> ('n \<Rightarrow> 'e) \<Rightarrow>
    nat \<Rightarrow> 'n list \<Rightarrow> ('n \<Rightarrow> colour) \<Rightarrow> ('e, unit) result option" where
  "dfs_all deps enter edge cycle fuel [] col = Some (Inr ())"
| "dfs_all deps enter edge cycle fuel (n # ns) col =
     (case dfs_visit deps enter edge cycle fuel n col of
        None \<Rightarrow> None
      | Some (Inl e) \<Rightarrow> Some (Inl e)
      | Some (Inr col') \<Rightarrow> dfs_all deps enter edge cycle fuel ns col')"

section \<open>Graphs\<close>

definition dep_edges :: "'n set \<Rightarrow> ('n \<Rightarrow> 'n list) \<Rightarrow> ('n \<times> 'n) set" where
  "dep_edges N deps = {(a, b). a \<in> N \<and> b \<in> set (deps a)}"

definition closed_deps :: "'n set \<Rightarrow> ('n \<Rightarrow> 'n list) \<Rightarrow> bool" where
  "closed_deps N deps \<longleftrightarrow> (\<forall>n \<in> N. set (deps n) \<subseteq> N)"

definition valid_graph :: "'n set \<Rightarrow> ('n \<Rightarrow> 'n list) \<Rightarrow> bool" where
  "valid_graph N deps \<longleftrightarrow> closed_deps N deps \<and> acyclic (dep_edges N deps)"

text \<open>A finished list: every node is new and comes after all its dependencies.\<close>

inductive finished :: "'n set \<Rightarrow> ('n \<Rightarrow> 'n list) \<Rightarrow> 'n list \<Rightarrow> bool" for N deps where
  finished_Nil: "finished N deps []"
| finished_snoc: "finished N deps bs \<Longrightarrow> b \<in> N \<Longrightarrow> b \<notin> set bs \<Longrightarrow> set (deps b) \<subseteq> set bs \<Longrightarrow>
    finished N deps (bs @ [b])"

lemma finished_closed: "finished N deps bs \<Longrightarrow> b \<in> set bs \<Longrightarrow> set (deps b) \<subseteq> set bs"
  by (induction rule: finished.induct) auto

lemma finished_subset: "finished N deps bs \<Longrightarrow> set bs \<subseteq> N"
  by (induction rule: finished.induct) auto

lemma trancl_escapes:
  "(a, b) \<in> r\<^sup>+ \<Longrightarrow> a \<in> S \<Longrightarrow> (\<And>x y. x \<in> S \<Longrightarrow> (x, y) \<in> r \<Longrightarrow> y \<in> S) \<Longrightarrow> b \<in> S"
  by (induction rule: trancl_induct) auto

lemma finished_acyclic: "finished N deps bs \<Longrightarrow> acyclic (dep_edges (set bs) deps)"
proof (induction rule: finished.induct)
  case finished_Nil
  then show ?case by (simp add: acyclic_def dep_edges_def)
next
  case (finished_snoc bs b)
  let ?r = "dep_edges (set (bs @ [b])) deps"
  have stay: "(x, y) \<in> dep_edges (set bs) deps \<and> y \<in> set bs" if "x \<in> set bs" "(x, y) \<in> ?r" for x y
    using finished_closed [OF finished_snoc.hyps(1)] that by (auto simp: dep_edges_def)
  have first: "y \<in> set bs" if "(b, y) \<in> ?r" for y
    using finished_snoc.hyps(4) that by (auto simp: dep_edges_def)
  have old: "(x, y) \<in> (dep_edges (set bs) deps)\<^sup>+ \<and> y \<in> set bs"
    if "(x, y) \<in> ?r\<^sup>+" "x \<in> set bs" for x y
    using that(1)
  proof (induction rule: trancl_induct)
    case (base y)
    then show ?case using stay that(2) by blast
  next
    case (step y z)
    then show ?case using stay by (meson trancl.trancl_into_trancl)
  qed
  have "(x, x) \<notin> ?r\<^sup>+" for x
  proof
    assume loop: "(x, x) \<in> ?r\<^sup>+"
    then obtain y where y: "(x, y) \<in> ?r" by (meson tranclD)
    then have "x \<in> set bs \<or> x = b" by (auto simp: dep_edges_def)
    then show False
    proof
      assume "x \<in> set bs"
      then show False using old [OF loop] finished_snoc.IH by (auto simp: acyclic_def)
    next
      assume b: "x = b"
      from loop obtain z where "(b, z) \<in> ?r" "z = b \<or> (z, b) \<in> ?r\<^sup>+"
        unfolding b by (meson converse_tranclE)
      then have "b \<in> set bs" using first old by blast
      then show False using finished_snoc.hyps(3) by simp
    qed
  qed
  then show ?case by (simp add: acyclic_def)
qed

text \<open>In a valid graph, as long as a node is missing from a set, some missing node has all its
  dependencies in it. This is what makes a scheduler over the graph move.\<close>

lemma valid_graph_progress:
  assumes "valid_graph N deps" "finite N" "x \<in> N" "x \<notin> D"
  shows "\<exists>n \<in> N. n \<notin> D \<and> set (deps n) \<subseteq> D"
proof -
  have "dep_edges N deps \<subseteq> N \<times> N"
    using assms(1) by (auto simp: valid_graph_def closed_deps_def dep_edges_def)
  then have "finite (dep_edges N deps)"
    using assms(2) by (meson finite_SigmaI finite_subset)
  then have "wf ((dep_edges N deps)\<inverse>)"
    using assms(1) by (simp add: valid_graph_def finite_acyclic_wf_converse)
  then obtain n where n: "n \<in> N - D" "\<And>y. (y, n) \<in> (dep_edges N deps)\<inverse> \<Longrightarrow> y \<notin> N - D"
    using assms(3,4) by (meson DiffI wfE_min)
  have "set (deps n) \<subseteq> D"
    using n assms(1) by (auto simp: dep_edges_def valid_graph_def closed_deps_def)
  with n(1) show ?thesis by blast
qed

lemma valid_graph_cong: "(\<And>n. n \<in> N \<Longrightarrow> set (deps n) = set (deps' n)) \<Longrightarrow> valid_graph N deps \<longleftrightarrow> valid_graph N deps'"
proof -
  assume deps: "\<And>n. n \<in> N \<Longrightarrow> set (deps n) = set (deps' n)"
  then have "dep_edges N deps = dep_edges N deps'" by (auto simp: dep_edges_def)
  then show ?thesis using deps by (simp add: valid_graph_def closed_deps_def)
qed

text \<open>Renaming the nodes keeps a graph valid.\<close>

lemma acyclic_map: "acyclic r' \<Longrightarrow> (\<And>a b. (a, b) \<in> r \<Longrightarrow> (h a, h b) \<in> r') \<Longrightarrow> acyclic r"
proof -
  assume r': "acyclic r'" and edge: "\<And>a b. (a, b) \<in> r \<Longrightarrow> (h a, h b) \<in> r'"
  have "(h a, h b) \<in> r'\<^sup>+" if "(a, b) \<in> r\<^sup>+" for a b
    using that by (induction rule: trancl_induct) (auto intro: edge trancl_into_trancl)
  then show "acyclic r" using r' by (auto simp: acyclic_def)
qed

lemma valid_graph_rename:
  assumes inj: "inj_on f N" and deps: "\<And>n. n \<in> N \<Longrightarrow> set (deps' (f n)) = f ` set (deps n)"
    and closed: "closed_deps N deps"
  shows "valid_graph (f ` N) deps' \<longleftrightarrow> valid_graph N deps"
proof -
  have "closed_deps (f ` N) deps'" using closed deps by (auto simp: closed_deps_def)
  moreover have "acyclic (dep_edges N deps)" if "acyclic (dep_edges (f ` N) deps')"
    using that by (rule acyclic_map [where h = f]) (auto simp: dep_edges_def deps)
  moreover have "acyclic (dep_edges (f ` N) deps')" if "acyclic (dep_edges N deps)"
    using that
  proof (rule acyclic_map [where h = "inv_into N f"])
    fix a b
    assume "(a, b) \<in> dep_edges (f ` N) deps'"
    then obtain m n where "a = f m" "m \<in> N" "b = f n" "n \<in> set (deps m)"
      using deps by (auto simp: dep_edges_def)
    moreover from this have "n \<in> N" using closed by (auto simp: closed_deps_def)
    ultimately show "(inv_into N f a, inv_into N f b) \<in> dep_edges N deps"
      using inj by (simp add: dep_edges_def)
  qed
  ultimately show ?thesis using closed by (auto simp: valid_graph_def)
qed

section \<open>The contract of the two checks\<close>

locale dfs_contract =
  fixes nodes :: "'n list"
    and deps :: "'n \<Rightarrow> 'n list"
    and enter :: "'n \<Rightarrow> 'e option"
    and edge :: "'n \<Rightarrow> 'n \<Rightarrow> 'e option"
    and cycle :: "'n \<Rightarrow> 'e"
  assumes known: "a \<in> set nodes \<Longrightarrow> edge a b = None \<Longrightarrow> enter b = None \<Longrightarrow> b \<in> set nodes"
    and enter_known: "a \<in> set nodes \<Longrightarrow> enter a = None"
    and edge_bad: "edge a b \<noteq> None \<Longrightarrow> b \<notin> set nodes \<or> a = b"
begin

abbreviation visit where "visit \<equiv> dfs_visit deps enter edge cycle"
abbreviation visit_deps where "visit_deps \<equiv> dfs_deps deps enter edge cycle"
abbreviation edges where "edges \<equiv> dep_edges (set nodes) deps"

definition black :: "('n \<Rightarrow> colour) \<Rightarrow> 'n list \<Rightarrow> bool" where
  "black col bs \<longleftrightarrow> finished (set nodes) deps bs \<and> (\<forall>n. col n = Black \<longleftrightarrow> n \<in> set bs)"

lemma black_iff: "black col bs \<Longrightarrow> col n = Black \<longleftrightarrow> n \<in> set bs"
  by (simp add: black_def)

lemma black_mark: "black col bs \<Longrightarrow> col n \<noteq> Black \<Longrightarrow> black (col(n := Grey)) bs"
  unfolding black_def by (metis colour.distinct(5) fun_upd_apply)

text \<open>What a successful visit leaves: more finished nodes, the same grey ones.\<close>

definition grows :: "('n \<Rightarrow> colour) \<Rightarrow> 'n list \<Rightarrow> ('n \<Rightarrow> colour) \<Rightarrow> bool" where
  "grows col bs col' \<longleftrightarrow>
     (\<exists>bs'. black col' bs' \<and> set bs \<subseteq> set bs') \<and> (\<forall>x. col' x = Grey \<longleftrightarrow> col x = Grey)"

lemma grows_refl: "black col bs \<Longrightarrow> grows col bs col"
  by (auto simp: grows_def)

lemma deps_sound:
  assumes visit: "\<And>d col col' bs. visit fuel d col = Some (Inr col') \<Longrightarrow> black col bs \<Longrightarrow>
      (enter d = None \<Longrightarrow> d \<in> set nodes) \<Longrightarrow> grows col bs col' \<and> col' d = Black"
    and n: "n \<in> set nodes"
  shows "visit_deps fuel n ds col = Some (Inr col') \<Longrightarrow> black col bs \<Longrightarrow>
     grows col bs col' \<and> (\<forall>d \<in> set ds. col' d = Black)"
proof (induction ds arbitrary: col bs)
  case Nil
  then show ?case by (simp add: grows_refl)
next
  case (Cons d ds)
  then obtain c1 where edge: "edge n d = None" and c1: "visit fuel d col = Some (Inr c1)"
    and rest: "visit_deps fuel n ds c1 = Some (Inr col')"
    by (auto split: option.splits sum.splits)
  from visit [OF c1 Cons.prems(2)] known [OF n edge] have g1: "grows col bs c1" and d: "c1 d = Black"
    by auto
  from g1 obtain bs1 where bs1: "black c1 bs1" "set bs \<subseteq> set bs1" by (auto simp: grows_def)
  from Cons.IH [OF rest bs1(1)] have g2: "grows c1 bs1 col'" and ds: "\<forall>d \<in> set ds. col' d = Black"
    by auto
  have "d \<in> set bs1" using d bs1(1) by (simp add: black_def)
  then have "col' d = Black" using g2 by (auto simp: grows_def black_def)
  moreover have "grows col bs col'" using g1 g2 bs1(2) by (fastforce simp: grows_def)
  ultimately show ?case using ds by simp
qed

lemma visit_sound:
  "visit fuel n col = Some (Inr col') \<Longrightarrow> black col bs \<Longrightarrow> (enter n = None \<Longrightarrow> n \<in> set nodes) \<Longrightarrow>
   grows col bs col' \<and> col' n = Black"
proof (induction fuel arbitrary: n col col' bs)
  case 0
  then show ?case by simp
next
  case (Suc fuel)
  show ?case
  proof (cases "col n = Black")
    case True
    with Suc.prems show ?thesis by (simp add: grows_refl)
  next
    case white: False
    with Suc.prems(1) obtain c2 where enter: "enter n = None" and grey: "col n \<noteq> Grey"
      and c2: "visit_deps fuel n (deps n) (col(n := Grey)) = Some (Inr c2)" and col': "col' = c2(n := Black)"
      by (auto split: if_splits option.splits sum.splits)
    from enter Suc.prems(3) have n: "n \<in> set nodes" by simp
    from Suc.prems(2) white have "black (col(n := Grey)) bs" by (rule black_mark)
    from deps_sound [OF Suc.IH n c2 this] have g: "grows (col(n := Grey)) bs c2"
      and deps: "\<forall>d \<in> set (deps n). c2 d = Black" by auto
    from g obtain bs2 where bs2: "black c2 bs2" "set bs \<subseteq> set bs2" by (auto simp: grows_def)
    have "c2 n = Grey" using g by (simp add: grows_def)
    then have "n \<notin> set bs2" using black_iff [OF bs2(1), of n] by simp
    moreover have "set (deps n) \<subseteq> set bs2" using deps bs2(1) by (auto simp: black_def)
    ultimately have "black col' (bs2 @ [n])"
      using bs2(1) n col' by (auto simp: black_def intro: finished_snoc)
    moreover have "\<forall>x. col' x = Grey \<longleftrightarrow> col x = Grey"
      using g grey col' by (simp add: grows_def)
    moreover have "set bs \<subseteq> set (bs2 @ [n])" using bs2(2) by auto
    ultimately have "grows col bs col'" unfolding grows_def by blast
    moreover have "col' n = Black" using col' by simp
    ultimately show ?thesis by blast
  qed
qed

text \<open>An error is only reported for a graph that is not valid.\<close>

lemma deps_error:
  assumes visit: "\<And>d col e bs. visit fuel d col = Some (Inl e) \<Longrightarrow> black col bs \<Longrightarrow> d \<in> set nodes \<Longrightarrow>
      \<forall>g. col g = Grey \<longrightarrow> (g, d) \<in> edges\<^sup>+ \<Longrightarrow> \<not> valid_graph (set nodes) deps"
    and n: "n \<in> set nodes"
  shows "visit_deps fuel n ds col = Some (Inl e) \<Longrightarrow> black col bs \<Longrightarrow> set ds \<subseteq> set (deps n) \<Longrightarrow>
     \<forall>g. col g = Grey \<longrightarrow> (g, n) \<in> edges\<^sup>* \<Longrightarrow> \<not> valid_graph (set nodes) deps"
proof (induction ds arbitrary: col bs)
  case Nil
  then show ?case by simp
next
  case (Cons d ds)
  have nd: "(n, d) \<in> edges" using n Cons.prems(3) by (simp add: dep_edges_def)
  show ?case
  proof (cases "edge n d = None \<and> d \<in> set nodes")
    case False
    then have "d \<notin> set nodes \<or> n = d" using edge_bad by auto
    then show ?thesis
      using nd by (auto simp: valid_graph_def closed_deps_def acyclic_def dep_edges_def)
  next
    case True
    show ?thesis
    proof (cases "visit fuel d col")
      case None
      with Cons.prems True show ?thesis by simp
    next
      case (Some r)
      show ?thesis
      proof (cases r)
        case (Inl e')
        moreover have "\<forall>g. col g = Grey \<longrightarrow> (g, d) \<in> edges\<^sup>+"
          using Cons.prems(4) nd by (meson rtrancl_into_trancl1)
        ultimately show ?thesis using visit Some Cons.prems(2) True by blast
      next
        case (Inr c1)
        with visit_sound [of fuel d col c1 bs] Some Cons.prems(2) True
        have g: "grows col bs c1" by simp
        then obtain bs1 where "black c1 bs1" by (auto simp: grows_def)
        moreover have "visit_deps fuel n ds c1 = Some (Inl e)" using Cons.prems(1) True Some Inr by simp
        moreover have "\<forall>g. c1 g = Grey \<longrightarrow> (g, n) \<in> edges\<^sup>*" using g Cons.prems(4) by (simp add: grows_def)
        ultimately show ?thesis using Cons.IH Cons.prems(3) by auto
      qed
    qed
  qed
qed

lemma visit_error:
  "visit fuel n col = Some (Inl e) \<Longrightarrow> black col bs \<Longrightarrow> n \<in> set nodes \<Longrightarrow>
   \<forall>g. col g = Grey \<longrightarrow> (g, n) \<in> edges\<^sup>+ \<Longrightarrow> \<not> valid_graph (set nodes) deps"
proof (induction fuel arbitrary: n col e bs)
  case 0
  then show ?case by simp
next
  case (Suc fuel)
  show ?case
  proof (cases "col n = Grey")
    case True
    with Suc.prems(4) show ?thesis by (auto simp: valid_graph_def acyclic_def)
  next
    case False
    with Suc.prems enter_known [OF Suc.prems(3)]
    have err: "visit_deps fuel n (deps n) (col(n := Grey)) = Some (Inl e)"
      and white: "col n \<noteq> Black"
      by (auto split: if_splits option.splits sum.splits)
    have black: "black (col(n := Grey)) bs" using Suc.prems(2) white by (rule black_mark)
    have "\<forall>g. (col(n := Grey)) g = Grey \<longrightarrow> (g, n) \<in> edges\<^sup>*"
      using Suc.prems(4) by (auto dest: trancl_into_rtrancl)
    from deps_error [OF _ Suc.prems(3) err black subset_refl this] Suc.IH
    show ?thesis by blast
  qed
qed

text \<open>Enough fuel.\<close>

definition ungrey :: "('n \<Rightarrow> colour) \<Rightarrow> nat" where
  "ungrey col = card {x \<in> set nodes. col x \<noteq> Grey}"

lemma ungrey_cong: "(\<forall>x. col' x = Grey \<longleftrightarrow> col x = Grey) \<Longrightarrow> ungrey col' = ungrey col"
  by (simp add: ungrey_def)

lemma ungrey_mark:
  assumes "n \<in> set nodes" "col n \<noteq> Grey"
  shows "ungrey col = Suc (ungrey (col(n := Grey)))"
proof -
  have "{x \<in> set nodes. (col(n := Grey)) x \<noteq> Grey} = {x \<in> set nodes. col x \<noteq> Grey} - {n}" by auto
  moreover have "finite {x \<in> set nodes. col x \<noteq> Grey}" by simp
  moreover have "n \<in> {x \<in> set nodes. col x \<noteq> Grey}" using assms by simp
  ultimately show ?thesis unfolding ungrey_def by (simp only: card_Suc_Diff1)
qed

lemma deps_total:
  assumes visit: "\<And>d col bs. black col bs \<Longrightarrow> d \<in> set nodes \<or> enter d \<noteq> None \<Longrightarrow> ungrey col < fuel \<Longrightarrow> visit fuel d col \<noteq> None"
    and n: "n \<in> set nodes"
  shows "black col bs \<Longrightarrow> ungrey col < fuel \<Longrightarrow> visit_deps fuel n ds col \<noteq> None"
proof (induction ds arbitrary: col bs)
  case Nil
  then show ?case by simp
next
  case (Cons d ds)
  show ?case
  proof (cases "edge n d")
    case None
    then have d: "d \<in> set nodes \<or> enter d \<noteq> None" using known [OF n] by blast
    obtain r where r: "visit fuel d col = Some r" using visit [OF Cons.prems(1) d Cons.prems(2)] by auto
    show ?thesis
    proof (cases r)
      case (Inl e)
      with None r show ?thesis by simp
    next
      case (Inr c1)
      with visit_sound [of fuel d col c1 bs] r Cons.prems(1) d have g: "grows col bs c1" by auto
      then obtain bs1 where "black c1 bs1" by (auto simp: grows_def)
      moreover have "ungrey c1 < fuel" using g ungrey_cong [of c1 col] Cons.prems(2) by (simp add: grows_def)
      ultimately have "visit_deps fuel n ds c1 \<noteq> None" by (rule Cons.IH)
      with None r Inr show ?thesis by simp
    qed
  qed simp
qed

lemma visit_total:
  "black col bs \<Longrightarrow> n \<in> set nodes \<or> enter n \<noteq> None \<Longrightarrow> ungrey col < fuel \<Longrightarrow> visit fuel n col \<noteq> None"
proof (induction fuel arbitrary: n col bs)
  case 0
  then show ?case by simp
next
  case (Suc fuel)
  show ?case
  proof (cases "col n = White \<and> enter n = None")
    case True
    then have n: "n \<in> set nodes" using Suc.prems(2) by blast
    have "black (col(n := Grey)) bs" using Suc.prems(1) True by (auto intro: black_mark)
    moreover have "ungrey (col(n := Grey)) < fuel" using ungrey_mark [OF n, of col] True Suc.prems(3) by simp
    ultimately have "visit_deps fuel n (deps n) (col(n := Grey)) \<noteq> None"
      using deps_total [OF _ n, of fuel "col(n := Grey)" bs] Suc.IH by blast
    then show ?thesis by (auto split: option.splits sum.splits)
  next
    case False
    then show ?thesis by (cases "col n") auto
  qed
qed

lemma dfs_all_correct_from:
  assumes "set roots \<subseteq> set nodes" "black col bs" "\<forall>x. col x \<noteq> Grey"
  shows "(dfs_all deps enter edge cycle (Suc (length nodes)) roots col = Some (Inr ()) \<and>
           (\<exists>bs'. finished (set nodes) deps bs' \<and> set roots \<union> set bs \<subseteq> set bs'))
       \<or> (\<exists>e. dfs_all deps enter edge cycle (Suc (length nodes)) roots col = Some (Inl e) \<and>
           \<not> valid_graph (set nodes) deps)"
  using assms
proof (induction roots arbitrary: col bs)
  case Nil
  then show ?case by (auto simp: black_def)
next
  case (Cons n roots)
  let ?fuel = "Suc (length nodes)"
  have n: "n \<in> set nodes" using Cons.prems(1) by simp
  have "ungrey col \<le> card (set nodes)" unfolding ungrey_def by (rule card_mono) auto
  then have "ungrey col < ?fuel" using card_length [of nodes] by simp
  then obtain r where r: "visit ?fuel n col = Some r"
    using visit_total [OF Cons.prems(2), of n ?fuel] n by auto
  show ?case
  proof (cases r)
    case (Inl e)
    then have "\<not> valid_graph (set nodes) deps"
      using visit_error [of ?fuel n col e bs] r Cons.prems(2,3) n by blast
    then show ?thesis using r Inl by simp
  next
    case (Inr c1)
    with visit_sound [of ?fuel n col c1 bs] r Cons.prems(2) n
    have g: "grows col bs c1" and black: "c1 n = Black" by auto
    then obtain bs1 where bs1: "black c1 bs1" "set bs \<subseteq> set bs1" by (auto simp: grows_def)
    have "\<forall>x. c1 x \<noteq> Grey" using g Cons.prems(3) by (simp add: grows_def)
    from Cons.IH [OF _ bs1(1) this] Cons.prems(1) have
      "(dfs_all deps enter edge cycle ?fuel roots c1 = Some (Inr ()) \<and>
           (\<exists>bs'. finished (set nodes) deps bs' \<and> set roots \<union> set bs1 \<subseteq> set bs'))
       \<or> (\<exists>e. dfs_all deps enter edge cycle ?fuel roots c1 = Some (Inl e) \<and> \<not> valid_graph (set nodes) deps)"
      by simp
    moreover have "n \<in> set bs1" using black bs1(1) by (simp add: black_def)
    ultimately show ?thesis using r Inr bs1(2) by (auto simp del: dfs_visit.simps)
  qed
qed

lemma dfs_all_correct:
  assumes "set roots = set nodes"
  shows "dfs_all deps enter edge cycle (Suc (length nodes)) roots (\<lambda>_. White) =
      (if valid_graph (set nodes) deps then Some (Inr ())
       else dfs_all deps enter edge cycle (Suc (length nodes)) roots (\<lambda>_. White))"
    and "\<not> valid_graph (set nodes) deps \<Longrightarrow>
      \<exists>e. dfs_all deps enter edge cycle (Suc (length nodes)) roots (\<lambda>_. White) = Some (Inl e)"
proof -
  have start: "black (\<lambda>_. White) []" by (simp add: black_def finished_Nil)
  have valid: "valid_graph (set nodes) deps" if "finished (set nodes) deps bs'" "set roots \<subseteq> set bs'" for bs'
  proof -
    have "set bs' = set nodes" using that finished_subset assms by blast
    then show ?thesis using finished_acyclic [OF that(1)] finished_closed [OF that(1)]
      by (auto simp: valid_graph_def closed_deps_def)
  qed
  note cases = dfs_all_correct_from [OF _ start, of roots]
  show "dfs_all deps enter edge cycle (Suc (length nodes)) roots (\<lambda>_. White) =
      (if valid_graph (set nodes) deps then Some (Inr ())
       else dfs_all deps enter edge cycle (Suc (length nodes)) roots (\<lambda>_. White))"
    using cases assms by auto
  show "\<exists>e. dfs_all deps enter edge cycle (Suc (length nodes)) roots (\<lambda>_. White) = Some (Inl e)"
    if "\<not> valid_graph (set nodes) deps"
    using cases assms valid that by auto
qed

text \<open>The check always answers, and accepts exactly the valid graphs.\<close>

lemma dfs_accepts_iff:
  assumes "set roots = set nodes"
  shows "dfs_all deps enter edge cycle (Suc (length nodes)) roots (\<lambda>_. White) = Some (Inr ()) \<longleftrightarrow>
    valid_graph (set nodes) deps"
  using dfs_all_correct [OF assms] by (metis Inl_Inr_False option.inject)

lemma dfs_answers:
  assumes "set roots = set nodes"
  shows "dfs_all deps enter edge cycle (Suc (length nodes)) roots (\<lambda>_. White) \<noteq> None"
  using dfs_all_correct [OF assms] by (metis option.distinct(1))

end

end
