(* ===== verification/Operation_Spec.thy ===== *)
theory Operation_Spec
  imports Dep_Graph
begin

text \<open>
  The data of \<^verbatim>\<open>internal/operation\<close> (\<^verbatim>\<open>types.go\<close>) and the functions of \<^verbatim>\<open>service.go\<close> that do not
  touch the service's state: \<open>validate_spec\<close> (the gate every submission passes), \<open>aggregate_state\<close>
  (an operation's state from the states of its steps), \<open>aggregate_result\<close> and the paging of results
  by cursors. A JSON value is a \<open>json\<close>; the encoder and the decoder of \<^verbatim>\<open>encoding/json\<close> are arguments
  where bytes of JSON text matter. A Go map's iteration order is the argument \<open>order\<close>.
\<close>

section \<open>Data\<close>

datatype json = JNull | JBool bool | JNum bytes | JStr bytes | JArr "json list" | JObj "(bytes \<times> json) list"

datatype op_state = Queued | Running | Succeeded | Failed | Waiting_Confirmation | Interrupted
  | Cancelled | Skipped

fun terminal :: "op_state \<Rightarrow> bool" where
  "terminal s \<longleftrightarrow> s = Succeeded \<or> s = Failed \<or> s = Interrupted \<or> s = Cancelled"

text \<open>\<^const>\<open>None\<close> is Go's nil map.\<close>

type_synonym arguments = "(bytes \<times> json) list option"

record step_spec =
  ss_id :: bytes
  ss_tool :: bytes
  ss_arguments :: arguments
  ss_depends_on :: "bytes list"
  ss_exclusive :: bool

record submit_spec =
  sub_run_id :: bytes
  sub_id :: bytes
  sub_session :: bytes
  sub_workspace :: bytes
  sub_request_id :: bytes
  sub_purpose :: bytes
  sub_steps :: "step_spec list"

text \<open>A row of \<^verbatim>\<open>operation_steps\<close>; the columns holding JSON text of arguments and dependencies are
  the values \<^verbatim>\<open>Get\<close> decodes from them.\<close>

record step_row =
  sr_operation :: bytes
  sr_id :: bytes
  sr_tool :: bytes
  sr_arguments :: arguments
  sr_request_id :: bytes
  sr_depends_on :: "bytes list"
  sr_exclusive :: bool
  sr_state :: op_state
  sr_result :: bytes
  sr_error :: bytes
  sr_token :: bytes
  sr_created :: int
  sr_started :: "int option"
  sr_completed :: "int option"

text \<open>A row of \<^verbatim>\<open>operations\<close>.\<close>

record op_row =
  or_run_id :: bytes
  or_sequence :: nat
  or_event_id :: bytes
  or_id :: bytes
  or_session :: bytes
  or_workspace :: bytes
  or_request_id :: bytes
  or_purpose :: bytes
  or_state :: op_state
  or_result :: bytes
  or_error :: bytes
  or_created :: int
  or_started :: "int option"
  or_completed :: "int option"
  or_expires :: int
  or_submission :: bytes

text \<open>What \<^verbatim>\<open>Get\<close> assembles.\<close>

record op_record =
  rec_op :: op_row
  rec_steps :: "step_row list"

text \<open>The errors of an executor the service tells apart: \<^verbatim>\<open>ErrEffectsUnconfirmed\<close>,
  \<^verbatim>\<open>context.Canceled\<close> and every other one (a panic included) with its message.\<close>

datatype run_error = Effects_Unconfirmed bytes | Context_Canceled bytes | Other_Error bytes

record execute_result =
  er_result :: bytes
  er_waiting :: bool
  er_token :: bytes
  er_err :: "run_error option"

section \<open>Validation\<close>

datatype spec_problem = Missing_Session | Step_Count | Step_Fields | Duplicate_Step bytes
  | Dependency_Cycle bytes | Unknown_Step bytes bytes

definition max_steps :: nat where
  "max_steps = 32"

fun index_steps :: "step_spec list \<Rightarrow> (bytes \<times> step_spec) list \<Rightarrow>
    (spec_problem, (bytes \<times> step_spec) list) result" where
  "index_steps [] by_id = Inr by_id"
| "index_steps (s # steps) by_id =
     (let id = trim_space (ss_id s) in
      if id = [] \<or> trim_space (ss_tool s) = [] then Inl Step_Fields
      else if map_of by_id id \<noteq> None then Inl (Duplicate_Step id)
      else index_steps steps (by_id @ [(id, s)]))"

definition step_deps :: "(bytes \<times> step_spec) list \<Rightarrow> bytes \<Rightarrow> bytes list" where
  "step_deps by_id i = (case map_of by_id i of None \<Rightarrow> [] | Some s \<Rightarrow> ss_depends_on s)"

definition unknown_dependency :: "(bytes \<times> step_spec) list \<Rightarrow> bytes \<Rightarrow> bytes \<Rightarrow> spec_problem option" where
  "unknown_dependency by_id i d = (if map_of by_id d = None then Some (Unknown_Step i d) else None)"

text \<open>The outer \<^const>\<open>None\<close> is running out of fuel, which \<open>validate_spec_answers\<close> excludes.\<close>

definition validate_spec :: "(bytes list \<Rightarrow> bytes list) \<Rightarrow> submit_spec \<Rightarrow> (spec_problem, unit) result option" where
  "validate_spec order spec =
     (if trim_space (sub_session spec) = [] \<or> trim_space (sub_workspace spec) = []
      then Some (Inl Missing_Session)
      else if sub_steps spec = [] \<or> length (sub_steps spec) > max_steps then Some (Inl Step_Count)
      else case index_steps (sub_steps spec) [] of
             Inl e \<Rightarrow> Some (Inl e)
           | Inr by_id \<Rightarrow>
               dfs_all (step_deps by_id) (\<lambda>_. None) (unknown_dependency by_id) Dependency_Cycle
                 (Suc (length by_id)) (order (map fst by_id)) (\<lambda>_. White))"

section \<open>Aggregation\<close>

record agg_flags =
  all_terminal :: bool
  any_running :: bool
  any_waiting :: bool
  any_failed :: bool
  any_interrupted :: bool

fun agg_step :: "agg_flags \<Rightarrow> op_state \<Rightarrow> agg_flags" where
  "agg_step f Queued = f\<lparr>all_terminal := False\<rparr>"
| "agg_step f Running = f\<lparr>all_terminal := False, any_running := True\<rparr>"
| "agg_step f Waiting_Confirmation = f\<lparr>all_terminal := False, any_waiting := True\<rparr>"
| "agg_step f Failed = f\<lparr>any_failed := True\<rparr>"
| "agg_step f Cancelled = f\<lparr>any_failed := True\<rparr>"
| "agg_step f Interrupted = f\<lparr>any_interrupted := True\<rparr>"
| "agg_step f Succeeded = f"
| "agg_step f Skipped = f"

definition agg_init :: agg_flags where
  "agg_init = \<lparr>all_terminal = True, any_running = False, any_waiting = False, any_failed = False,
     any_interrupted = False\<rparr>"

definition aggregate_state :: "step_row list \<Rightarrow> op_state" where
  "aggregate_state steps =
     (if steps = [] then Failed
      else let f = foldl agg_step agg_init (map sr_state steps) in
        if any_interrupted f \<and> all_terminal f then Interrupted
        else if any_failed f \<and> \<not> any_running f \<and> \<not> any_waiting f \<and> all_terminal f then Failed
        else if any_running f \<or> \<not> all_terminal f \<and> \<not> any_waiting f then Running
        else if any_waiting f then Waiting_Confirmation
        else if all_terminal f then Succeeded
        else Queued)"

definition empty_object :: bytes where
  "empty_object = ''{}''"

definition ensure_json :: "(bytes \<Rightarrow> json option) \<Rightarrow> bytes \<Rightarrow> bytes" where
  "ensure_json decode raw = (if raw = [] \<or> decode raw = None then empty_object else raw)"

definition decode_json :: "(bytes \<Rightarrow> json option) \<Rightarrow> bytes \<Rightarrow> json" where
  "decode_json decode raw = (case decode (ensure_json decode raw) of None \<Rightarrow> JObj [] | Some v \<Rightarrow> v)"

fun state_name :: "op_state \<Rightarrow> bytes" where
  "state_name Queued = ''queued''"
| "state_name Running = ''running''"
| "state_name Succeeded = ''succeeded''"
| "state_name Failed = ''failed''"
| "state_name Waiting_Confirmation = ''waiting_confirmation''"
| "state_name Interrupted = ''interrupted''"
| "state_name Cancelled = ''cancelled''"
| "state_name Skipped = ''skipped''"

definition step_error_entry :: "(bytes \<Rightarrow> json option) \<Rightarrow> step_row \<Rightarrow> bytes \<times> json" where
  "step_error_entry decode s =
     (sr_id s, JObj [(''state'', JStr (state_name (sr_state s))), (''error'', decode_json decode (sr_error s))])"

definition aggregate_result :: "(json \<Rightarrow> bytes) \<Rightarrow> (bytes \<Rightarrow> json option) \<Rightarrow> step_row list \<Rightarrow> bytes \<times> bytes" where
  "aggregate_result encode decode steps =
     (case steps of
        [s] \<Rightarrow> (ensure_json decode (sr_result s), ensure_json decode (sr_error s))
      | _ \<Rightarrow>
        (encode (JObj (map (\<lambda>s. (sr_id s, decode_json decode (sr_result s))) steps)),
         encode (JObj (map (step_error_entry decode)
           (filter (\<lambda>s. sr_state s \<noteq> Succeeded \<and> sr_state s \<noteq> Skipped) steps)))))"

section \<open>Paging\<close>

text \<open>The well-formed UTF-8 sequence at the head, 0 if there is none.\<close>

definition byte_of :: "char \<Rightarrow> nat" where
  "byte_of c = of_char c"

definition continuation :: "char \<Rightarrow> bool" where
  "continuation c \<longleftrightarrow> 0x80 \<le> byte_of c \<and> byte_of c \<le> 0xBF"

definition second_ok :: "nat \<Rightarrow> char \<Rightarrow> bool" where
  "second_ok a c \<longleftrightarrow> (let b = byte_of c in
     (if a = 0xE0 then 0xA0 else if a = 0xF0 then 0x90 else 0x80) \<le> b \<and>
     b \<le> (if a = 0xED then 0x9F else if a = 0xF4 then 0x8F else 0xBF))"

definition rune_length :: "bytes \<Rightarrow> nat" where
  "rune_length s =
     (case s of
        [] \<Rightarrow> 0
      | c # r \<Rightarrow>
          let a = byte_of c in
          if a < 0x80 then 1
          else if 0xC2 \<le> a \<and> a \<le> 0xDF then (if r \<noteq> [] \<and> continuation (hd r) then 2 else 0)
          else if 0xE0 \<le> a \<and> a \<le> 0xEF then
            (if 2 \<le> length r \<and> second_ok a (hd r) \<and> continuation (r ! 1) then 3 else 0)
          else if 0xF0 \<le> a \<and> a \<le> 0xF4 then
            (if 3 \<le> length r \<and> second_ok a (hd r) \<and> continuation (r ! 1) \<and> continuation (r ! 2) then 4 else 0)
          else 0)"

definition replacement_rune :: bytes where
  "replacement_rune = [CHR 0xEF, CHR 0xBF, CHR 0xBD]"

text \<open>What a Go string becomes in JSON text: every byte outside a well-formed sequence is replaced
  by U+FFFD.\<close>

function coerce_utf8 :: "bytes \<Rightarrow> bytes" where
  "coerce_utf8 s =
     (if s = [] then []
      else if rune_length s = 0 then replacement_rune @ coerce_utf8 (tl s)
      else take (rune_length s) s @ coerce_utf8 (drop (rune_length s) s))"
  by pat_completeness auto
termination by (relation "measure length") auto

declare coerce_utf8.simps [simp del]

definition default_result_bytes :: int where
  "default_result_bytes = 65536"

definition max_result_bytes :: int where
  "max_result_bytes = 262144"

definition page_limit :: "int \<Rightarrow> nat" where
  "page_limit limit =
     (let l = (if limit \<le> 0 then default_result_bytes else limit) in
      nat (if l > max_result_bytes then max_result_bytes else l))"

definition parse_cursor :: "bytes \<Rightarrow> nat option" where
  "parse_cursor cursor =
     (if trim_space cursor = [] then Some 0
      else case atoi cursor of None \<Rightarrow> None | Some v \<Rightarrow> if v < 0 then None else Some (nat v))"

text \<open>A page is the raw result, or a chunk of it as a JSON object.\<close>

datatype page_body = Whole bytes | Chunk (chunk: bytes) (offset: nat) (next_offset: nat) (truncated: bool)

record result_page =
  page_body :: page_body
  next_cursor :: bytes

definition result_page_of :: "bytes \<Rightarrow> bytes \<Rightarrow> int \<Rightarrow> result_page option" where
  "result_page_of raw cursor limit =
     (let lim = page_limit limit in
      if length raw \<le> lim then Some \<lparr>page_body = Whole raw, next_cursor = []\<rparr>
      else case parse_cursor cursor of
             None \<Rightarrow> None
           | Some off \<Rightarrow>
               let off' = min off (length raw); last = min (off' + lim) (length raw) in
               Some \<lparr>page_body = Chunk (coerce_utf8 (slice off' last raw)) off' last (last < length raw),
                     next_cursor = (if last < length raw then show_nat last else [])\<rparr>)"

text \<open>A client that follows the cursors and joins the chunks.\<close>

fun follow_cursors :: "nat \<Rightarrow> bytes \<Rightarrow> int \<Rightarrow> bytes \<Rightarrow> bytes option" where
  "follow_cursors 0 raw limit cursor = None"
| "follow_cursors (Suc fuel) raw limit cursor =
     (case result_page_of raw cursor limit of
        None \<Rightarrow> None
      | Some p \<Rightarrow>
          let text = (case page_body p of Whole b \<Rightarrow> b | Chunk c _ _ _ \<Rightarrow> c) in
          if next_cursor p = [] then Some text
          else map_option (\<lambda>rest. text @ rest) (follow_cursors fuel raw limit (next_cursor p)))"

section \<open>What validation accepts\<close>

definition step_key :: "step_spec \<Rightarrow> bytes" where
  "step_key s = trim_space (ss_id s)"

definition indexed :: "step_spec list \<Rightarrow> (bytes \<times> step_spec) list" where
  "indexed steps = map (\<lambda>s. (step_key s, s)) steps"

definition well_formed_spec :: "submit_spec \<Rightarrow> bool" where
  "well_formed_spec spec \<longleftrightarrow>
     trim_space (sub_session spec) \<noteq> [] \<and> trim_space (sub_workspace spec) \<noteq> [] \<and>
     1 \<le> length (sub_steps spec) \<and> length (sub_steps spec) \<le> max_steps \<and>
     (\<forall>s \<in> set (sub_steps spec). step_key s \<noteq> [] \<and> trim_space (ss_tool s) \<noteq> []) \<and>
     distinct (map step_key (sub_steps spec)) \<and>
     valid_graph (set (map step_key (sub_steps spec))) (step_deps (indexed (sub_steps spec)))"

lemma map_fst_indexed [simp]: "map fst (indexed steps) = map step_key steps"
  by (simp add: indexed_def)

lemma index_steps_iff:
  "index_steps steps acc = Inr idx \<longleftrightarrow>
     (\<forall>s \<in> set steps. step_key s \<noteq> [] \<and> trim_space (ss_tool s) \<noteq> []) \<and>
     distinct (map step_key steps) \<and> set (map step_key steps) \<inter> set (map fst acc) = {} \<and>
     idx = acc @ indexed steps"
proof (induction steps arbitrary: acc)
  case Nil
  then show ?case by (auto simp: indexed_def)
next
  case (Cons s steps)
  show ?case
  proof (cases "step_key s = [] \<or> trim_space (ss_tool s) = [] \<or> map_of acc (step_key s) \<noteq> None")
    case True
    then have "is_ok (index_steps (s # steps) acc) = False" by (auto simp: step_key_def Let_def)
    then have "index_steps (s # steps) acc \<noteq> Inr idx" by (metis is_ok_simps(1))
    moreover have "step_key s = [] \<or> trim_space (ss_tool s) = [] \<or> step_key s \<in> set (map fst acc)"
      using True by (simp add: map_of_eq_None_iff)
    ultimately show ?thesis by auto
  next
    case False
    then have "index_steps (s # steps) acc = index_steps steps (acc @ [(step_key s, s)])"
      by (simp add: step_key_def Let_def)
    moreover have "step_key s \<notin> set (map fst acc)"
      using False by (simp add: map_of_eq_None_iff)
    ultimately show ?thesis using False Cons.IH [of "acc @ [(step_key s, s)]"]
      by (auto simp: indexed_def)
  qed
qed

lemma unknown_dependency_known: "unknown_dependency by_id a b = None \<longleftrightarrow> b \<in> set (map fst by_id)"
  by (auto simp: unknown_dependency_def map_of_eq_None_iff)

interpretation step_graph: dfs_contract "map fst by_id" "step_deps by_id" "\<lambda>_. None"
    "unknown_dependency by_id" Dependency_Cycle for by_id
proof unfold_locales
  fix a b :: bytes
  show "b \<in> set (map fst by_id)" if "unknown_dependency by_id a b = None"
    using that by (simp only: unknown_dependency_known)
  show "b \<notin> set (map fst by_id) \<or> a = b" if "unknown_dependency by_id a b \<noteq> None"
    using that by (simp only: unknown_dependency_known) simp
qed simp

definition iterates_keys :: "(bytes list \<Rightarrow> bytes list) \<Rightarrow> bool" where
  "iterates_keys order \<longleftrightarrow> (\<forall>ks. set (order ks) = set ks)"

lemma validate_spec_cases:
  assumes "iterates_keys order"
  shows "validate_spec order spec \<noteq> None \<and>
    (validate_spec order spec = Some (Inr ()) \<longleftrightarrow> well_formed_spec spec)"
proof (cases "trim_space (sub_session spec) = [] \<or> trim_space (sub_workspace spec) = [] \<or>
    sub_steps spec = [] \<or> length (sub_steps spec) > max_steps")
  case True
  then show ?thesis by (auto simp: validate_spec_def well_formed_spec_def)
next
  case False
  note basic = this
  show ?thesis
  proof (cases "index_steps (sub_steps spec) []")
    case (Inl e)
    then have "\<not> well_formed_spec spec"
      using index_steps_iff [of "sub_steps spec" "[]" "indexed (sub_steps spec)"]
      by (auto simp: well_formed_spec_def)
    with Inl basic show ?thesis by (simp add: validate_spec_def)
  next
    case (Inr by_id)
    then have ok: "\<forall>s \<in> set (sub_steps spec). step_key s \<noteq> [] \<and> trim_space (ss_tool s) \<noteq> []"
        "distinct (map step_key (sub_steps spec))" and by_id: "by_id = indexed (sub_steps spec)"
      using index_steps_iff [of "sub_steps spec" "[]" by_id] by auto
    have roots: "set (order (map fst by_id)) = set (map fst by_id)"
      using assms by (simp add: iterates_keys_def)
    have len: "Suc (length by_id) = Suc (length (map fst by_id))" by simp
    have run: "validate_spec order spec = dfs_all (step_deps by_id) (\<lambda>_. None) (unknown_dependency by_id)
        Dependency_Cycle (Suc (length (map fst by_id))) (order (map fst by_id)) (\<lambda>_. White)"
      using Inr basic by (simp add: validate_spec_def)
    have "1 \<le> length (sub_steps spec)" using basic by (cases "sub_steps spec") auto
    then have "well_formed_spec spec \<longleftrightarrow> valid_graph (set (map fst by_id)) (step_deps by_id)"
      using basic ok by (auto simp: well_formed_spec_def by_id)
    then show ?thesis unfolding run
      using step_graph.dfs_accepts_iff [OF roots] step_graph.dfs_answers [OF roots] by blast
  qed
qed

definition three_steps :: submit_spec where
  "three_steps = \<lparr>sub_run_id = [], sub_id = [], sub_session = ''s'', sub_workspace = ''w'',
     sub_request_id = [], sub_purpose = [],
     sub_steps = map (\<lambda>(i, ds). \<lparr>ss_id = i, ss_tool = ''read'', ss_arguments = None, ss_depends_on = ds,
       ss_exclusive = False\<rparr>) [(''c'', [''a'', ''b'']), (''a'', []), (''b'', [''a''])]\<rparr>"

text \<open>C15: \<^verbatim>\<open>validateSpec\<close> answers on every submission, and accepts exactly the well-formed ones: session
  and workspace given, 1 to 32 steps with identifiers that differ after trimming and with tools, every
  dependency an identifier of the batch, and no dependency cycle; whatever order Go iterates the
  step map in.\<close>

theorem validate_spec_accepts:
  assumes "iterates_keys order"
  shows "validate_spec order spec \<noteq> None \<and>
    (validate_spec order spec = Some (Inr ()) \<longleftrightarrow> well_formed_spec spec)"
  by (rule validate_spec_cases [OF assms])

lemma validate_spec_accepts_witness:
  "iterates_keys rev \<and> validate_spec rev three_steps = Some (Inr ()) \<and> well_formed_spec three_steps"
proof -
  have "iterates_keys rev" by (simp add: iterates_keys_def)
  moreover have "validate_spec rev three_steps = Some (Inr ())" by code_simp
  ultimately show ?thesis using validate_spec_accepts [of rev three_steps] by simp
qed

section \<open>What aggregation returns\<close>

definition has_state :: "op_state \<Rightarrow> step_row list \<Rightarrow> bool" where
  "has_state st steps \<longleftrightarrow> st \<in> set (map sr_state steps)"

definition step_done :: "op_state \<Rightarrow> bool" where
  "step_done st \<longleftrightarrow> st \<noteq> Queued \<and> st \<noteq> Running \<and> st \<noteq> Waiting_Confirmation"

lemma agg_fold:
  "foldl agg_step f sts = \<lparr>all_terminal = (all_terminal f \<and> list_all step_done sts),
     any_running = (any_running f \<or> Running \<in> set sts),
     any_waiting = (any_waiting f \<or> Waiting_Confirmation \<in> set sts),
     any_failed = (any_failed f \<or> Failed \<in> set sts \<or> Cancelled \<in> set sts),
     any_interrupted = (any_interrupted f \<or> Interrupted \<in> set sts)\<rparr>"
proof (induction sts arbitrary: f)
  case (Cons s sts)
  show ?case by (cases s) (simp_all add: Cons.IH step_done_def)
qed simp

lemma aggregate_state_cases:
  "aggregate_state steps =
     (if steps = [] then Failed
      else if list_ex (\<lambda>s. \<not> step_done (sr_state s)) steps then
        (if has_state Waiting_Confirmation steps \<and> \<not> has_state Running steps then Waiting_Confirmation
         else Running)
      else if has_state Interrupted steps then Interrupted
      else if has_state Failed steps \<or> has_state Cancelled steps then Failed
      else Succeeded)"
proof -
  have fin: "list_all step_done (map sr_state steps) \<longleftrightarrow> \<not> list_ex (\<lambda>s. \<not> step_done (sr_state s)) steps"
    by (simp add: list_all_iff list_ex_iff)
  have "has_state Running steps \<or> has_state Waiting_Confirmation steps \<Longrightarrow>
      list_ex (\<lambda>s. \<not> step_done (sr_state s)) steps"
    by (force simp: has_state_def list_ex_iff step_done_def)
  then show ?thesis
    unfolding aggregate_state_def Let_def agg_fold fin
    by (auto simp: agg_init_def has_state_def)
qed

text \<open>An operation's aggregate state: unfinished exactly as long as a step is unfinished (running
  while a step runs or nothing waits for the user, else waiting), then interrupted, failed or
  succeeded by the worst step; an operation without steps has failed. It is never queued, cancelled
  or skipped.\<close>

theorem aggregate_state_meaning:
  "aggregate_state steps =
     (if steps = [] then Failed
      else if list_ex (\<lambda>s. \<not> step_done (sr_state s)) steps then
        (if has_state Waiting_Confirmation steps \<and> \<not> has_state Running steps then Waiting_Confirmation
         else Running)
      else if has_state Interrupted steps then Interrupted
      else if has_state Failed steps \<or> has_state Cancelled steps then Failed
      else Succeeded)"
  by (rule aggregate_state_cases)

section \<open>Pages reassemble\<close>

definition ascii :: "bytes \<Rightarrow> bool" where
  "ascii s \<longleftrightarrow> list_all (\<lambda>c. byte_of c < 0x80) s"

lemma coerce_ascii: "ascii s \<Longrightarrow> coerce_utf8 s = s"
proof (induction s)
  case Nil
  then show ?case by (simp add: coerce_utf8.simps)
next
  case (Cons c s)
  then have "rune_length (c # s) = 1" by (simp add: ascii_def rune_length_def)
  with Cons show ?case by (subst coerce_utf8.simps) (simp add: ascii_def)
qed

lemma ascii_slice: "ascii s \<Longrightarrow> ascii (slice i j s)"
  by (auto simp: ascii_def slice_def list_all_iff dest!: in_set_takeD in_set_dropD)

lemma page_limit_pos [simp]: "0 < page_limit limit"
  by (simp add: page_limit_def Let_def default_result_bytes_def max_result_bytes_def)

lemma parse_show_nat: "n < 2 ^ 63 \<Longrightarrow> parse_cursor (show_nat n) = Some n"
  by (simp add: parse_cursor_def atoi_show_nat)

lemma follow_from:
  "length raw < 2 ^ 63 \<Longrightarrow> page_limit limit < length raw \<Longrightarrow> ascii raw \<Longrightarrow> k \<le> length raw \<Longrightarrow>
   parse_cursor cursor = Some k \<Longrightarrow> length raw - k < fuel \<Longrightarrow>
   follow_cursors fuel raw limit cursor = Some (drop k raw)"
proof (induction fuel arbitrary: k cursor)
  case 0
  then show ?case by simp
next
  case (Suc fuel)
  let ?last = "min (k + page_limit limit) (length raw)"
  have page: "result_page_of raw cursor limit =
      Some \<lparr>page_body = Chunk (slice k ?last raw) k ?last (?last < length raw),
            next_cursor = (if ?last < length raw then show_nat ?last else [])\<rparr>"
    using Suc.prems by (simp add: result_page_of_def Let_def coerce_ascii ascii_slice min_absorb1)
  show ?case
  proof (cases "?last < length raw")
    case True
    have "follow_cursors fuel raw limit (show_nat ?last) = Some (drop ?last raw)"
    proof (rule Suc.IH)
      show "parse_cursor (show_nat ?last) = Some ?last" using Suc.prems(1) by (intro parse_show_nat) simp
      show "length raw - ?last < fuel" using Suc.prems(4,6) True page_limit_pos [of limit] by linarith
    qed (use Suc.prems in auto)
    moreover have "slice k ?last raw @ drop ?last raw = drop k raw"
      using True by (simp add: slice_def min_def) (metis append_take_drop_id drop_drop add.commute)
    moreover have "show_nat ?last \<noteq> []" by simp
    ultimately show ?thesis unfolding follow_cursors.simps page using True
      by (simp only: option.case result_page.simps page_body.case Let_def if_True if_False option.map)
  next
    case False
    then have "slice k ?last raw = drop k raw" by (simp add: slice_def)
    then show ?thesis using page False by simp
  qed
qed

text \<open>A client that follows the cursors of an operation's result and joins the chunks has the whole
  result again, for every page size, when the result is ASCII text.\<close>

theorem pages_reassemble:
  assumes "ascii raw" "length raw < 2 ^ 63"
  shows "follow_cursors (Suc (length raw)) raw limit [] = Some raw"
proof (cases "page_limit limit < length raw")
  case True
  then show ?thesis using follow_from [OF assms(2) True assms(1), of 0 "[]"]
    by (simp add: parse_cursor_def del: follow_cursors.simps)
next
  case False
  then show ?thesis by (simp add: result_page_of_def)
qed

lemma pages_reassemble_witness:
  "follow_cursors (Suc (length ''abcdefg'')) ''abcdefg'' 3 [] = Some ''abcdefg''"
  by (rule pages_reassemble) (code_simp, simp)

text \<open>A rune cut by a page boundary is lost: both halves are replaced, and the joined chunks are
  not the result.\<close>

theorem pages_cut_runes:
  "follow_cursors 4 (''ab'' @ [CHR 0xC3, CHR 0xA9]) 3 [] = Some (''ab'' @ replacement_rune @ replacement_rune)"
  by code_simp

end
