(* ===== verification/Operation_Db.thy ===== *)
theory Operation_Db
  imports Operation_Spec "HOL-Library.List_Lexorder" "HOL-Library.Char_ord"
begin

text \<open>
  The tables of the operation service with the constraints and triggers of
  \<^verbatim>\<open>internal/state/migrations.go\<close>: \<^verbatim>\<open>operations\<close>, \<^verbatim>\<open>operation_steps\<close>, \<^verbatim>\<open>operation_submissions\<close> and
  the part of \<^verbatim>\<open>remote_sessions\<close> they refer to, each a list of rows. A statement is a function on
  the tables: \<open>update_ops\<close> and \<open>update_steps\<close> are the two shapes of \<^verbatim>\<open>UPDATE\<close>, the triggers included;
  \<^const>\<open>None\<close> is an aborted statement. The statements themselves stand in \<^verbatim>\<open>service.go\<close> and
  \<^verbatim>\<open>retention.go\<close>. The order of step identifiers is the byte order of SQLite's BINARY collation.
  Input/output errors of the database are not modelled.
\<close>

record op_db =
  db_ops :: "op_row list"
  db_steps :: "step_row list"
  db_submissions :: "(bytes \<times> bytes) list"
  db_sessions :: "(bytes \<times> bytes) list"

definition find_op :: "bytes \<Rightarrow> op_db \<Rightarrow> op_row option" where
  "find_op i d = find (\<lambda>r. or_id r = i) (db_ops d)"

definition steps_of :: "bytes \<Rightarrow> op_db \<Rightarrow> step_row list" where
  "steps_of i d = sort_key sr_id (filter (\<lambda>r. sr_operation r = i) (db_steps d))"

definition get_op :: "bytes \<Rightarrow> op_db \<Rightarrow> op_record option" where
  "get_op i d =
     (if trim_space i = [] then None
      else case find_op i d of
             None \<Rightarrow> None
           | Some r \<Rightarrow> Some \<lparr>rec_op = r, rec_steps = steps_of i d\<rparr>)"

section \<open>Versions\<close>

definition hex_digit :: "nat \<Rightarrow> char" where
  "hex_digit n = (if n < 10 then char_of (48 + n) else char_of (55 + n))"

definition sql_hex :: "bytes \<Rightarrow> bytes" where
  "sql_hex s = concat (map (\<lambda>c. [hex_digit (byte_of c div 16), hex_digit (byte_of c mod 16)]) s)"

definition state_event :: "bytes \<Rightarrow> nat \<Rightarrow> bytes" where
  "state_event i n = ''operation:'' @ sql_hex i @ '':'' @ show_nat n"

text \<open>\<open>n\<close> firings of a trigger that moves an operation to its next version.\<close>

definition bump :: "nat \<Rightarrow> op_row \<Rightarrow> op_row" where
  "bump n r =
     (if n = 0 then r
      else r\<lparr>or_sequence := or_sequence r + n, or_event_id := state_event (or_id r) (or_sequence r + n)\<rparr>)"

text \<open>The columns whose change the trigger \<^verbatim>\<open>operation_steps_changed_version\<close> sees.\<close>

definition tracked :: "step_row \<Rightarrow> op_state \<times> bytes \<times> bytes \<times> bytes" where
  "tracked r = (sr_state r, sr_result r, sr_error r, sr_token r)"

definition bump_for :: "step_row list \<Rightarrow> op_row \<Rightarrow> op_row" where
  "bump_for changed r =
     (if terminal (or_state r) then r
      else bump (length (filter (\<lambda>s. sr_operation s = or_id r) changed)) r)"

section \<open>Updates\<close>

text \<open>\<^verbatim>\<open>operations_terminal_immutable\<close> and the CHECK on the state column.\<close>

definition op_update_aborts :: "(op_row \<Rightarrow> op_row) \<Rightarrow> op_row \<Rightarrow> bool" where
  "op_update_aborts f r \<longleftrightarrow>
     terminal (or_state r) \<and> or_state (f r) \<noteq> or_state r \<or> or_state (f r) = Skipped"

text \<open>\<^verbatim>\<open>operations_state_event\<close>.\<close>

definition op_updated :: "(op_row \<Rightarrow> op_row) \<Rightarrow> op_row \<Rightarrow> op_row" where
  "op_updated f r = (if or_state (f r) \<noteq> or_state r then bump 1 (f r) else f r)"

definition update_ops :: "(op_row \<Rightarrow> bool) \<Rightarrow> (op_row \<Rightarrow> op_row) \<Rightarrow> op_db \<Rightarrow> op_db option" where
  "update_ops cond f d =
     (if list_ex (\<lambda>r. cond r \<and> op_update_aborts f r) (db_ops d) then None
      else Some (d\<lparr>db_ops := map (\<lambda>r. if cond r then op_updated f r else r) (db_ops d)\<rparr>))"

definition update_steps :: "(step_row \<Rightarrow> bool) \<Rightarrow> (step_row \<Rightarrow> step_row) \<Rightarrow> op_db \<Rightarrow> op_db" where
  "update_steps cond f d =
     (let changed = filter (\<lambda>r. cond r \<and> tracked (f r) \<noteq> tracked r) (db_steps d) in
      d\<lparr>db_steps := map (\<lambda>r. if cond r then f r else r) (db_steps d),
        db_ops := map (bump_for changed) (db_ops d)\<rparr>)"

definition rows_affected :: "(step_row \<Rightarrow> bool) \<Rightarrow> op_db \<Rightarrow> nat" where
  "rows_affected cond d = length (filter cond (db_steps d))"

section \<open>Inserts\<close>

text \<open>The initial version of \<^verbatim>\<open>operations_initial_state_event\<close>.\<close>

definition insert_op :: "op_row \<Rightarrow> op_db \<Rightarrow> op_db option" where
  "insert_op r d =
     (if find_op (or_id r) d \<noteq> None \<or> or_session r \<notin> fst ` set (db_sessions d) \<or> or_state r = Skipped then None
      else Some (d\<lparr>db_ops := db_ops d @ [r\<lparr>or_sequence := 1, or_event_id := state_event (or_id r) 1\<rparr>]\<rparr>))"

definition insert_step :: "step_row \<Rightarrow> op_db \<Rightarrow> op_db option" where
  "insert_step r d =
     (if find_op (sr_operation r) d = None \<or>
         list_ex (\<lambda>q. sr_operation q = sr_operation r \<and> sr_id q = sr_id r) (db_steps d) then None
      else Some (d\<lparr>db_steps := db_steps d @ [r], db_ops := map (bump_for [r]) (db_ops d)\<rparr>))"

fun insert_steps :: "step_row list \<Rightarrow> op_db \<Rightarrow> op_db option" where
  "insert_steps [] d = Some d"
| "insert_steps (r # rs) d = (case insert_step r d of None \<Rightarrow> None | Some d' \<Rightarrow> insert_steps rs d')"

definition insert_submission :: "bytes \<Rightarrow> bytes \<Rightarrow> bytes \<Rightarrow> op_db \<Rightarrow> op_db option" where
  "insert_submission i session sha d =
     (if map_of (db_submissions d) i \<noteq> None \<or> session \<notin> fst ` set (db_sessions d) then None
      else Some (d\<lparr>db_submissions := db_submissions d @ [(i, sha)]\<rparr>))"

section \<open>Housekeeping\<close>

definition retention_batch_size :: nat where
  "retention_batch_size = 500"

definition session_gone :: "op_db \<Rightarrow> bytes \<Rightarrow> bool" where
  "session_gone d i \<longleftrightarrow>
     (case map_of (db_sessions d) i of None \<Rightarrow> True | Some st \<Rightarrow> st = ''closed'' \<or> st = ''archived'')"

definition expired_ops :: "int \<Rightarrow> op_db \<Rightarrow> op_row list" where
  "expired_ops now d =
     take retention_batch_size
       (sort_key or_expires (sort_key or_id
         (filter (\<lambda>r. terminal (or_state r) \<and> or_expires r \<le> now \<and> session_gone d (or_session r)) (db_ops d))))"

text \<open>\<^verbatim>\<open>deleteExpiredOperations\<close>; the steps go with their operation (ON DELETE CASCADE), the
  submission stays.\<close>

definition delete_expired_operations :: "int \<Rightarrow> op_db \<Rightarrow> op_db" where
  "delete_expired_operations now d =
     (let gone = map or_id (expired_ops now d) in
      d\<lparr>db_ops := filter (\<lambda>r. or_id r \<notin> set gone) (db_ops d),
        db_steps := filter (\<lambda>r. sr_operation r \<notin> set gone) (db_steps d)\<rparr>)"

end
