(* ===== verification/Operation_Service.thy ===== *)
theory Operation_Service
  imports Operation_Db
begin

text \<open>
  The operation service of \<^verbatim>\<open>internal/operation/service.go\<close>: the state of \<^verbatim>\<open>Service\<close> and one definition
  per method, cut where the code gives up its locks. \<open>sv_active\<close> is the map of live operations;
  a job travels from \<open>sv_pending\<close> through the bounded channel \<open>sv_jobs\<close> to a worker (\<open>sv_held\<close>) and,
  while its executor runs, is in \<open>sv_running\<close>. The executor is external: its result is the argument
  of \<open>finish_run\<close>. Random identifiers, the digest of a submission, the JSON encoder and decoder
  and the clock are arguments. The workspace locks, contexts and wake-up channels carry no data and
  are left out; \<open>Operation_Safety\<close> lets the pieces interleave freely.
\<close>

section \<open>State\<close>

type_synonym step_job = "bytes \<times> bytes"

record active_op =
  ao_specs :: "bytes \<Rightarrow> step_spec option"
  ao_enqueued :: "bytes \<Rightarrow> bool"
  ao_step_cancel :: "bytes list"
  ao_cancel_requested :: bool

datatype event_type = Operation_Started | Step_Started | Step_Completed | Operation_Completed

record op_event =
  ev_run_id :: bytes
  ev_sequence :: nat
  ev_event_id :: bytes
  ev_operation :: bytes
  ev_step :: bytes
  ev_session :: bytes
  ev_workspace :: bytes
  ev_request_id :: bytes
  ev_tool :: bytes
  ev_type :: event_type
  ev_state :: op_state
  ev_summary :: bytes
  ev_created :: int

record service =
  sv_db :: op_db
  sv_active :: "bytes \<Rightarrow> active_op option"
  sv_pending :: "step_job list"
  sv_jobs :: "step_job list"
  sv_held :: "step_job list"
  sv_running :: "step_job list"
  sv_events :: "op_event list"

datatype op_error = Invalid_Spec spec_problem | Invalid_Ids | Other_Submission | Result_Expired
  | Not_Found | Already_Completed | Not_Active | Bad_Confirmation | Db_Error

section \<open>Events\<close>

definition emit :: "op_event \<Rightarrow> service \<Rightarrow> service" where
  "emit ev s =
     (if ev_type ev = Operation_Started \<or> ev_type ev = Operation_Completed then
        (case get_op (ev_operation ev) (sv_db s) of
           None \<Rightarrow> s
         | Some r \<Rightarrow>
             if or_state (rec_op r) \<noteq> ev_state ev then s
             else s\<lparr>sv_events := sv_events s @
               [ev\<lparr>ev_sequence := or_sequence (rec_op r), ev_event_id := or_event_id (rec_op r),
                   ev_run_id := or_run_id (rec_op r)\<rparr>]\<rparr>)
      else s\<lparr>sv_events := sv_events s @ [ev]\<rparr>)"

definition completed_event :: "op_row \<Rightarrow> op_state \<Rightarrow> int \<Rightarrow> op_event" where
  "completed_event r st now =
     \<lparr>ev_run_id = [], ev_sequence = 0, ev_event_id = [], ev_operation = or_id r, ev_step = [],
      ev_session = or_session r, ev_workspace = or_workspace r, ev_request_id = or_request_id r,
      ev_tool = [], ev_type = Operation_Completed, ev_state = st,
      ev_summary = ''operation '' @ state_name st, ev_created = now\<rparr>"

definition step_event :: "op_db \<Rightarrow> step_job \<Rightarrow> bytes \<Rightarrow> event_type \<Rightarrow> op_state \<Rightarrow> bytes \<Rightarrow> int \<Rightarrow> op_event" where
  "step_event d job tool ty st summary now =
     (let r = map_option rec_op (get_op (fst job) d) in
     \<lparr>ev_run_id = [], ev_sequence = 0, ev_event_id = [], ev_operation = fst job, ev_step = snd job,
      ev_session = (case r of None \<Rightarrow> [] | Some o' \<Rightarrow> or_session o'),
      ev_workspace = (case r of None \<Rightarrow> [] | Some o' \<Rightarrow> or_workspace o'), ev_request_id = [],
      ev_tool = tool, ev_type = ty, ev_state = st, ev_summary = summary, ev_created = now\<rparr>)"

section \<open>Scheduling\<close>

definition state_of :: "step_row list \<Rightarrow> bytes \<Rightarrow> op_state option" where
  "state_of rows i = map_option sr_state (find (\<lambda>r. sr_id r = i) rows)"

definition ready :: "step_row list \<Rightarrow> step_row \<Rightarrow> bool" where
  "ready rows r \<longleftrightarrow> list_all (\<lambda>x. state_of rows x = Some Succeeded) (sr_depends_on r)"

definition startable :: "step_row list \<Rightarrow> (bytes \<Rightarrow> bool) \<Rightarrow> step_row list" where
  "startable rows enqueued = filter (\<lambda>r. sr_state r = Queued \<and> \<not> enqueued (sr_id r) \<and> ready rows r) rows"

definition enqueue_ready :: "bytes \<Rightarrow> service \<Rightarrow> service" where
  "enqueue_ready i s =
     (case get_op i (sv_db s) of
        None \<Rightarrow> s
      | Some r \<Rightarrow>
          (case sv_active s i of
             None \<Rightarrow> s
           | Some a \<Rightarrow>
               if ao_cancel_requested a then s
               else
                 let new = map sr_id (startable (rec_steps r) (ao_enqueued a)) in
                 s\<lparr>sv_active := (sv_active s)(i \<mapsto>
                     a\<lparr>ao_enqueued := (\<lambda>x. ao_enqueued a x \<or> x \<in> set new)\<rparr>),
                   sv_pending := sv_pending s @ map (Pair i) new\<rparr>))"

text \<open>The two hand-overs of \<^verbatim>\<open>dispatch\<close> and \<^verbatim>\<open>worker\<close>; the channel holds \<open>capacity\<close> jobs.\<close>

definition dispatch :: "nat \<Rightarrow> service \<Rightarrow> service" where
  "dispatch capacity s =
     (case sv_pending s of
        [] \<Rightarrow> s
      | job # rest \<Rightarrow>
          if length (sv_jobs s) < capacity then s\<lparr>sv_jobs := sv_jobs s @ [job], sv_pending := rest\<rparr> else s)"

definition receive :: "service \<Rightarrow> service" where
  "receive s = (case sv_jobs s of [] \<Rightarrow> s | job # rest \<Rightarrow> s\<lparr>sv_jobs := rest, sv_held := job # sv_held s\<rparr>)"

section \<open>Running a step\<close>

definition is_step :: "step_job \<Rightarrow> step_row \<Rightarrow> bool" where
  "is_step job r \<longleftrightarrow> sr_operation r = fst job \<and> sr_id r = snd job"

definition mark_step_running :: "int \<Rightarrow> step_job \<Rightarrow> op_db \<Rightarrow> op_db option" where
  "mark_step_running now job d =
     (let cond = (\<lambda>r. is_step job r \<and> sr_state r = Queued) in
      if rows_affected cond d = 0 then None
      else
        let d1 = update_steps cond (\<lambda>r. r\<lparr>sr_state := Running, sr_started := Some now\<rparr>) d in
        Some (case update_ops
            (\<lambda>r. or_id r = fst job \<and> (or_state r = Queued \<or> or_state r = Waiting_Confirmation))
            (\<lambda>r. r\<lparr>or_state := Running,
                   or_started := (case or_started r of None \<Rightarrow> Some now | Some t \<Rightarrow> Some t)\<rparr>) d1 of
          None \<Rightarrow> d1 | Some d2 \<Rightarrow> d2))"

text \<open>The first half of \<^verbatim>\<open>runStep\<close>, up to the call of the executor, for a job a worker holds.\<close>

definition start_run :: "int \<Rightarrow> step_job \<Rightarrow> service \<Rightarrow> service" where
  "start_run now job s =
     (let s0 = s\<lparr>sv_held := remove1 job (sv_held s)\<rparr> in
      case sv_active s (fst job) of
        None \<Rightarrow> s0
      | Some a \<Rightarrow>
          if ao_cancel_requested a then s0
          else case ao_specs a (snd job) of
                 None \<Rightarrow> s0
               | Some spec \<Rightarrow>
                   (case mark_step_running now job (sv_db s) of
                      None \<Rightarrow> s0
                    | Some d \<Rightarrow>
                        emit (step_event d job (ss_tool spec) Step_Started Running
                                ''operation step started'' now)
                          (s0\<lparr>sv_db := d,
                              sv_active := (sv_active s)(fst job \<mapsto>
                                a\<lparr>ao_step_cancel := List.insert (snd job) (ao_step_cancel a)\<rparr>),
                              sv_running := job # sv_running s\<rparr>)))"

definition outcome_state :: "bool \<Rightarrow> execute_result \<Rightarrow> op_state" where
  "outcome_state cancelled res =
     (case er_err res of
        Some (Effects_Unconfirmed _) \<Rightarrow> Interrupted
      | err \<Rightarrow>
          if cancelled \<or> (case err of Some (Context_Canceled _) \<Rightarrow> True | _ \<Rightarrow> False) then Cancelled
          else if er_waiting res then Waiting_Confirmation
          else if err \<noteq> None then Failed
          else Succeeded)"

fun error_text :: "run_error \<Rightarrow> bytes" where
  "error_text (Effects_Unconfirmed m) = m"
| "error_text (Context_Canceled m) = m"
| "error_text (Other_Error m) = m"

definition error_value :: "(json \<Rightarrow> bytes) \<Rightarrow> run_error \<Rightarrow> bytes" where
  "error_value encode e = encode (JObj [(''message'', JStr (error_text e))])"

definition or_empty :: "bytes \<Rightarrow> bytes" where
  "or_empty b = (if b = [] then empty_object else b)"

definition finish_step :: "int \<Rightarrow> step_job \<Rightarrow> op_state \<Rightarrow> bytes \<Rightarrow> bytes \<Rightarrow> bytes \<Rightarrow> op_db \<Rightarrow> op_db" where
  "finish_step now job st result err token d =
     update_steps (is_step job)
       (\<lambda>r. r\<lparr>sr_state := st, sr_result := or_empty result, sr_error := or_empty err, sr_token := token,
             sr_completed := Some now\<rparr>) d"

text \<open>The second half of \<^verbatim>\<open>runStep\<close>, up to the call of \<^verbatim>\<open>reconcile\<close>.\<close>

definition finish_run :: "(json \<Rightarrow> bytes) \<Rightarrow> bytes \<Rightarrow> int \<Rightarrow> step_job \<Rightarrow> execute_result \<Rightarrow> service \<Rightarrow> service" where
  "finish_run encode new_token now job res s =
     (let a = sv_active s (fst job);
          cancelled = (case a of None \<Rightarrow> False | Some a' \<Rightarrow> ao_cancel_requested a');
          st = outcome_state cancelled res;
          err = (case er_err res of None \<Rightarrow> empty_object | Some e \<Rightarrow> error_value encode e);
          token = (if st = Waiting_Confirmation \<and> er_token res = [] then new_token else er_token res);
          s1 = s\<lparr>sv_running := remove1 job (sv_running s)\<rparr>
      in if rows_affected (is_step job) (sv_db s) \<noteq> 1 then
           s1\<lparr>sv_db := finish_step now job st (er_result res) err token (sv_db s)\<rparr>
         else
           let d = finish_step now job st (er_result res) err token (sv_db s);
               tool = (case a of None \<Rightarrow> [] | Some a' \<Rightarrow>
                        (case ao_specs a' (snd job) of None \<Rightarrow> [] | Some spec \<Rightarrow> ss_tool spec))
           in emit (step_event d job tool Step_Completed st (''operation step '' @ state_name st) now)
                (s1\<lparr>sv_db := d,
                    sv_active := (case a of
                        None \<Rightarrow> sv_active s
                      | Some a' \<Rightarrow> (sv_active s)(fst job \<mapsto>
                          a'\<lparr>ao_step_cancel := removeAll (snd job) (ao_step_cancel a')\<rparr>))\<rparr>))"

section \<open>Reconciling\<close>

definition started_states :: "op_state list" where
  "started_states = [Running, Succeeded, Failed, Waiting_Confirmation]"

definition persist_state :: "(json \<Rightarrow> bytes) \<Rightarrow> (bytes \<Rightarrow> json option) \<Rightarrow> int \<Rightarrow> op_record \<Rightarrow> op_state \<Rightarrow>
    op_db \<Rightarrow> op_db option" where
  "persist_state encode decode now r st d =
     (let (result, err) = aggregate_result encode decode (rec_steps r) in
      update_ops (\<lambda>o'. or_id o' = or_id (rec_op r) \<and> \<not> terminal (or_state o'))
        (\<lambda>o'. o'\<lparr>or_state := st, or_result := result, or_error := err,
              or_started := (if or_started o' = None \<and> st \<in> set started_states then Some now else or_started o'),
              or_completed := (if terminal st then Some now else or_completed o')\<rparr>) d)"

definition finish_active :: "bytes \<Rightarrow> service \<Rightarrow> service \<times> bool" where
  "finish_active i s =
     (case sv_active s i of
        None \<Rightarrow> (s, False)
      | Some _ \<Rightarrow> (s\<lparr>sv_active := (sv_active s)(i := None)\<rparr>, True))"

definition blocks_dependents :: "op_state \<Rightarrow> bool" where
  "blocks_dependents st \<longleftrightarrow> st = Failed \<or> st = Cancelled \<or> st = Interrupted \<or> st = Skipped"

text \<open>The steps the loop of \<^verbatim>\<open>reconcile\<close> skips: it looks only at the states read before the loop.\<close>

definition doomed :: "step_row list \<Rightarrow> step_row \<Rightarrow> bool" where
  "doomed rows r \<longleftrightarrow> sr_state r = Queued \<and>
     list_ex (\<lambda>x. case state_of rows x of None \<Rightarrow> False | Some st \<Rightarrow> blocks_dependents st) (sr_depends_on r)"

definition skip_steps :: "int \<Rightarrow> bytes \<Rightarrow> step_row list \<Rightarrow> op_db \<Rightarrow> op_db" where
  "skip_steps now i rows d =
     foldl (\<lambda>d r. if doomed rows r
                  then update_steps (\<lambda>q. is_step (i, sr_id r) q \<and> sr_state q = Queued)
                    (\<lambda>q. q\<lparr>sr_state := Skipped, sr_completed := Some now\<rparr>) d
                  else d) d rows"

definition close_operation :: "(json \<Rightarrow> bytes) \<Rightarrow> (bytes \<Rightarrow> json option) \<Rightarrow> int \<Rightarrow> op_record \<Rightarrow> op_state \<Rightarrow>
    service \<Rightarrow> service" where
  "close_operation encode decode now r st s =
     (case persist_state encode decode now r st (sv_db s) of
        None \<Rightarrow> s
      | Some d \<Rightarrow>
          let (s1, live) = finish_active (or_id (rec_op r)) (s\<lparr>sv_db := d\<rparr>) in
          if live then emit (completed_event (rec_op r) st now) s1 else s1)"

text \<open>\<^verbatim>\<open>reconcile\<close> with its deferred \<^verbatim>\<open>enqueueReady\<close> told by the second component.\<close>

definition reconcile :: "(json \<Rightarrow> bytes) \<Rightarrow> (bytes \<Rightarrow> json option) \<Rightarrow> int \<Rightarrow> bytes \<Rightarrow> service \<Rightarrow>
    service \<times> bool" where
  "reconcile encode decode now i s =
     (case get_op i (sv_db s) of
        None \<Rightarrow> (s, False)
      | Some r \<Rightarrow>
          if (case sv_active s i of None \<Rightarrow> False | Some a \<Rightarrow> ao_cancel_requested a) then
            if (case sv_active s i of None \<Rightarrow> False | Some a \<Rightarrow> ao_step_cancel a = []) then
              (close_operation encode decode now r
                 (if list_ex (\<lambda>q. sr_state q = Interrupted) (rec_steps r) then Interrupted else Cancelled) s, False)
            else (s, False)
          else
            let d = skip_steps now i (rec_steps r) (sv_db s) in
            case get_op i d of
              None \<Rightarrow> (s\<lparr>sv_db := d\<rparr>, False)
            | Some r1 \<Rightarrow>
                let st = aggregate_state (rec_steps r1) in
                if terminal st then (close_operation encode decode now r1 st (s\<lparr>sv_db := d\<rparr>), False)
                else case persist_state encode decode now r1 st d of
                       None \<Rightarrow> (s\<lparr>sv_db := d\<rparr>, False)
                     | Some d1 \<Rightarrow> (s\<lparr>sv_db := d1\<rparr>, True))"

section \<open>Submitting\<close>

definition operation_retention :: int where
  "operation_retention = 24 * 60 * 60 * 1000"

definition named_spec :: "bytes \<Rightarrow> submit_spec \<Rightarrow> submit_spec" where
  "named_spec fresh spec =
     (let s1 = (if sub_id spec = [] then spec\<lparr>sub_id := fresh\<rparr> else spec) in
      if sub_run_id s1 = [] then s1\<lparr>sub_run_id := sub_id s1\<rparr> else s1)"

definition valid_ids :: "submit_spec \<Rightarrow> bool" where
  "valid_ids spec \<longleftrightarrow>
     trim_space (sub_run_id spec) = sub_run_id spec \<and> trim_space (sub_id spec) = sub_id spec \<and>
     length (sub_run_id spec) \<le> 200 \<and> length (sub_id spec) \<le> 200"

definition canonical_spec :: "submit_spec \<Rightarrow> submit_spec" where
  "canonical_spec spec = spec\<lparr>sub_request_id := []\<rparr>"

definition new_op_row :: "int \<Rightarrow> bytes \<Rightarrow> submit_spec \<Rightarrow> op_row" where
  "new_op_row now sha spec =
     \<lparr>or_run_id = sub_run_id spec, or_sequence = 1, or_event_id = [], or_id = sub_id spec,
      or_session = sub_session spec, or_workspace = sub_workspace spec, or_request_id = sub_request_id spec,
      or_purpose = sub_purpose spec, or_state = Queued, or_result = empty_object, or_error = empty_object,
      or_created = now, or_started = None, or_completed = None, or_expires = now + operation_retention,
      or_submission = sha\<rparr>"

definition arguments_or_empty :: "arguments \<Rightarrow> arguments" where
  "arguments_or_empty a = (case a of None \<Rightarrow> Some [] | Some m \<Rightarrow> Some m)"

definition new_step_row :: "int \<Rightarrow> bytes \<Rightarrow> bytes \<times> step_spec \<Rightarrow> step_row" where
  "new_step_row now i p =
     (let (request, st) = p in
      \<lparr>sr_operation = i, sr_id = ss_id st, sr_tool = ss_tool st,
       sr_arguments = arguments_or_empty (ss_arguments st), sr_request_id = request,
       sr_depends_on = ss_depends_on st, sr_exclusive = ss_exclusive st, sr_state = Queued,
       sr_result = empty_object, sr_error = empty_object, sr_token = [], sr_created = now,
       sr_started = None, sr_completed = None\<rparr>)"

text \<open>The new tables, or the answer for a submission that is known already.\<close>

datatype submission = Accepted op_db | Known op_record

text \<open>The transaction of \<^verbatim>\<open>Submit\<close>; \<open>new_id\<close> gives the random identifiers in the order they are drawn.
  The outer \<^const>\<open>None\<close> is that of \<^const>\<open>validate_spec\<close>.\<close>

definition submit_tx :: "(bytes list \<Rightarrow> bytes list) \<Rightarrow> (submit_spec \<Rightarrow> bytes) \<Rightarrow> (nat \<Rightarrow> bytes) \<Rightarrow> int \<Rightarrow>
    submit_spec \<Rightarrow> op_db \<Rightarrow> (op_error, submission) result option" where
  "submit_tx order digest new_id now spec0 d =
     (case validate_spec order spec0 of
        None \<Rightarrow> None
      | Some (Inl e) \<Rightarrow> Some (Inl (Invalid_Spec e))
      | Some (Inr _) \<Rightarrow>
          let spec = named_spec (''op_'' @ new_id 0) spec0 in
          if \<not> valid_ids spec then Some (Inl Invalid_Ids)
          else
            let sha = digest (canonical_spec spec) in
            Some (case map_of (db_submissions d) (sub_id spec) of
                Some old \<Rightarrow>
                  if old \<noteq> sha then Inl Other_Submission
                  else (case get_op (sub_id spec) d of None \<Rightarrow> Inl Result_Expired | Some r \<Rightarrow> Inr (Known r))
              | None \<Rightarrow>
                  (case insert_submission (sub_id spec) (sub_session spec) sha d of
                     None \<Rightarrow> Inl Db_Error
                   | Some d1 \<Rightarrow>
                       (case insert_op (new_op_row now sha spec) d1 of
                          None \<Rightarrow> Inl Db_Error
                        | Some d2 \<Rightarrow>
                            (case insert_steps (map (new_step_row now (sub_id spec))
                                (zip (map (\<lambda>k. ''req_'' @ new_id (Suc k)) [0..<length (sub_steps spec)])
                                  (sub_steps spec))) d2 of
                               None \<Rightarrow> Inl Db_Error
                             | Some d3 \<Rightarrow> Inr (Accepted d3))))))"

definition spec_map :: "step_spec list \<Rightarrow> bytes \<Rightarrow> step_spec option" where
  "spec_map steps i = find (\<lambda>st. ss_id st = i) (rev steps)"

definition started_event :: "int \<Rightarrow> submit_spec \<Rightarrow> op_event" where
  "started_event now spec =
     \<lparr>ev_run_id = [], ev_sequence = 0, ev_event_id = [], ev_operation = sub_id spec, ev_step = [],
      ev_session = sub_session spec, ev_workspace = sub_workspace spec, ev_request_id = sub_request_id spec,
      ev_tool = [], ev_type = Operation_Started, ev_state = Queued, ev_summary = ''operation queued'',
      ev_created = now\<rparr>"

text \<open>What \<^verbatim>\<open>Submit\<close> does after its transaction has been committed, up to \<^verbatim>\<open>enqueueReady\<close>.\<close>

definition activate :: "int \<Rightarrow> submit_spec \<Rightarrow> service \<Rightarrow> service" where
  "activate now spec s =
     emit (started_event now spec)
       (s\<lparr>sv_active := (sv_active s)(sub_id spec \<mapsto>
           \<lparr>ao_specs = spec_map (sub_steps spec), ao_enqueued = (\<lambda>_. False), ao_step_cancel = [],
            ao_cancel_requested = False\<rparr>)\<rparr>)"

section \<open>Cancelling and resuming\<close>

definition cancel_steps :: "int \<Rightarrow> bytes \<Rightarrow> op_db \<Rightarrow> op_db" where
  "cancel_steps now i d =
     update_steps (\<lambda>r. sr_operation r = i)
       (\<lambda>r. if sr_state r = Queued \<or> sr_state r = Waiting_Confirmation
            then r\<lparr>sr_state := Cancelled, sr_completed := Some now\<rparr> else r) d"

text \<open>The critical section of \<^verbatim>\<open>Cancel\<close>; the deferred \<^verbatim>\<open>reconcile\<close> follows it on every path.\<close>

definition cancel_op :: "(json \<Rightarrow> bytes) \<Rightarrow> (bytes \<Rightarrow> json option) \<Rightarrow> int \<Rightarrow> bytes \<Rightarrow> service \<Rightarrow>
    service \<times> (op_error, op_record) result" where
  "cancel_op encode decode now i s =
     (case get_op i (sv_db s) of
        None \<Rightarrow> (s, Inl Not_Found)
      | Some r \<Rightarrow>
          if terminal (or_state (rec_op r)) then (s, Inl Already_Completed)
          else
            let d = cancel_steps now i (sv_db s);
                reply = (\<lambda>s'. case get_op i (sv_db s') of None \<Rightarrow> Inl Not_Found | Some r' \<Rightarrow> Inr r') in
            (case sv_active s i of
               Some a \<Rightarrow>
                 let s1 = s\<lparr>sv_db := d, sv_active := (sv_active s)(i \<mapsto> a\<lparr>ao_cancel_requested := True\<rparr>)\<rparr>
                 in (s1, reply s1)
             | None \<Rightarrow>
                 (case get_op i d of
                    None \<Rightarrow> (s\<lparr>sv_db := d\<rparr>, Inl Not_Found)
                  | Some cur \<Rightarrow>
                      (case persist_state encode decode now cur Cancelled d of
                         None \<Rightarrow> (s\<lparr>sv_db := d\<rparr>, Inl Db_Error)
                       | Some d1 \<Rightarrow> let s1 = s\<lparr>sv_db := d1\<rparr> in (s1, reply s1)))))"

definition restored_spec :: "step_row \<Rightarrow> step_spec" where
  "restored_spec r =
     \<lparr>ss_id = sr_id r, ss_tool = sr_tool r, ss_arguments = sr_arguments r, ss_depends_on = sr_depends_on r,
      ss_exclusive = sr_exclusive r\<rparr>"

definition restore_active :: "op_record \<Rightarrow> active_op" where
  "restore_active r =
     \<lparr>ao_specs = spec_map (map restored_spec (rec_steps r)), ao_enqueued = (\<lambda>_. False),
      ao_step_cancel = [], ao_cancel_requested = False\<rparr>"

text \<open>\<^verbatim>\<open>m[k] = v\<close> on a map given as a list of entries.\<close>

definition put_arg :: "bytes \<Rightarrow> json \<Rightarrow> (bytes \<times> json) list \<Rightarrow> (bytes \<times> json) list" where
  "put_arg k v m = (k, v) # filter (\<lambda>e. fst e \<noteq> k) m"

definition zero_spec :: step_spec where
  "zero_spec = \<lparr>ss_id = [], ss_tool = [], ss_arguments = None, ss_depends_on = [], ss_exclusive = False\<rparr>"

definition confirmed_spec :: "bytes \<Rightarrow> step_spec option \<Rightarrow> step_spec" where
  "confirmed_spec token spec =
     (let st = (case spec of None \<Rightarrow> zero_spec | Some st \<Rightarrow> st);
          args = (case ss_arguments st of None \<Rightarrow> [] | Some m \<Rightarrow> m)
      in st\<lparr>ss_arguments := Some (put_arg ''user_confirmed'' (JBool True)
            (put_arg ''confirmation_token'' (JStr token) args))\<rparr>)"

definition resume_tx :: "step_job \<Rightarrow> bytes \<Rightarrow> op_db \<Rightarrow> op_db option" where
  "resume_tx job token d =
     (let cond = (\<lambda>r. is_step job r \<and> sr_state r = Waiting_Confirmation \<and> sr_token r = token \<and>
            list_ex (\<lambda>o'. or_id o' = fst job \<and> \<not> terminal (or_state o')) (db_ops d)) in
      if rows_affected cond d \<noteq> 1 then None
      else update_ops (\<lambda>o'. or_id o' = fst job \<and> \<not> terminal (or_state o'))
             (\<lambda>o'. o'\<lparr>or_state := Queued, or_completed := None\<rparr>)
             (update_steps cond
               (\<lambda>r. r\<lparr>sr_state := Queued, sr_token := [], sr_error := empty_object, sr_completed := None\<rparr>) d))"

text \<open>\<^verbatim>\<open>Resume\<close> up to \<^verbatim>\<open>enqueueReady\<close>; \<open>has_executor\<close> tells whether the caller passes one.\<close>

definition resume_op :: "bool \<Rightarrow> bytes \<Rightarrow> bytes \<Rightarrow> bytes \<Rightarrow> service \<Rightarrow> (op_error, service) result" where
  "resume_op has_executor i step token s =
     (if trim_space step = [] \<or> trim_space token = [] then Inl Bad_Confirmation
      else case get_op i (sv_db s) of
        None \<Rightarrow> Inl Not_Found
      | Some r \<Rightarrow>
          if terminal (or_state (rec_op r)) then Inl Already_Completed
          else case find (\<lambda>q. sr_id q = step) (rec_steps r) of
            None \<Rightarrow> Inl Bad_Confirmation
          | Some q \<Rightarrow>
              if sr_state q \<noteq> Waiting_Confirmation \<or> sr_token q \<noteq> token then Inl Bad_Confirmation
              else if (case sv_active s i of None \<Rightarrow> False | Some a \<Rightarrow> ao_cancel_requested a)
              then Inl Already_Completed
              else if sv_active s i = None \<and> \<not> has_executor then Inl Not_Active
              else (case resume_tx (i, step) token (sv_db s) of
                  None \<Rightarrow> Inl Bad_Confirmation
                | Some d \<Rightarrow>
                    let a = (case sv_active s i of None \<Rightarrow> restore_active r | Some a' \<Rightarrow> a') in
                    Inr (s\<lparr>sv_db := d, sv_active := (sv_active s)(i \<mapsto>
                        a\<lparr>ao_cancel_requested := False,
                          ao_specs := (ao_specs a)(step \<mapsto> confirmed_spec token (ao_specs a step)),
                          ao_enqueued := (ao_enqueued a)(step := False)\<rparr>)\<rparr>)))"

section \<open>Restarting\<close>

definition recover_interrupted :: "int \<Rightarrow> op_db \<Rightarrow> op_db option" where
  "recover_interrupted now d =
     (case update_ops
        (\<lambda>o'. or_state o' = Queued \<or> or_state o' = Running \<or>
             or_state o' = Waiting_Confirmation \<and>
             list_ex (\<lambda>r. sr_operation r = or_id o' \<and> sr_state r = Running) (db_steps d))
        (\<lambda>o'. o'\<lparr>or_state := Interrupted, or_completed := Some now\<rparr>) d of
       None \<Rightarrow> None
     | Some d1 \<Rightarrow>
         Some (update_steps
           (\<lambda>r. (sr_state r = Queued \<or> sr_state r = Running \<or> sr_state r = Waiting_Confirmation) \<and>
              list_ex (\<lambda>o'. or_id o' = sr_operation r \<and> or_state o' = Interrupted) (db_ops d1))
           (\<lambda>r. r\<lparr>sr_state := Interrupted, sr_completed := Some now\<rparr>) d1))"

text \<open>\<^verbatim>\<open>New\<close> on the tables an earlier process left.\<close>

definition start_service :: "int \<Rightarrow> op_db \<Rightarrow> service option" where
  "start_service now d =
     map_option (\<lambda>d1. \<lparr>sv_db = d1, sv_active = (\<lambda>_. None), sv_pending = [], sv_jobs = [], sv_held = [],
       sv_running = [], sv_events = []\<rparr>) (recover_interrupted now d)"

definition workers_of :: "int \<Rightarrow> int" where
  "workers_of w = (let v = (if w \<le> 0 then 4 else w) in if v > 32 then 32 else v)"

definition waits :: "op_state \<Rightarrow> bool" where
  "waits st \<longleftrightarrow> terminal st \<or> st = Waiting_Confirmation"

datatype wait_reply = Answer op_record bool | Unknown_Operation | Wait_For_Done

text \<open>The part of \<^verbatim>\<open>Wait\<close> that decides without blocking: \<open>before\<close> is the table of the first read,
  \<open>after\<close> that of the second; the bool reports a timeout.\<close>

definition wait_op :: "bytes \<Rightarrow> int \<Rightarrow> op_db \<Rightarrow> (bytes \<Rightarrow> active_op option) \<Rightarrow> op_db \<Rightarrow> wait_reply" where
  "wait_op i timeout before active after =
     (case get_op i before of
        None \<Rightarrow> Unknown_Operation
      | Some r \<Rightarrow>
          if waits (or_state (rec_op r)) then Answer r False
          else if active i = None then
            (case get_op i after of
               None \<Rightarrow> Unknown_Operation
             | Some r' \<Rightarrow> Answer r' (\<not> waits (or_state (rec_op r'))))
          else if timeout \<le> 0 then Answer r True
          else Wait_For_Done)"

end
