(* ===== verification/Operation_System.thy ===== *)
theory Operation_System
  imports Operation_Service
begin

text \<open>
  The operation service as a transition system: \<open>act\<close> is one atomic piece of a request, of a worker
  or of housekeeping, \<open>reachable\<close> closes the empty service under every interleaving of the pieces,
  whatever the executors return. The lemmas on \<open>keeps\<close> say that no piece but housekeeping touches a
  terminal operation. The invariants are in \<open>Operation_Invariant\<close>, the properties in
  \<open>Operation_Safety\<close>.
\<close>

section \<open>The transition system\<close>

record op_env =
  en_order :: "bytes list \<Rightarrow> bytes list"
  en_digest :: "submit_spec \<Rightarrow> bytes"
  en_encode :: "json \<Rightarrow> bytes"
  en_decode :: "bytes \<Rightarrow> json option"
  en_capacity :: nat

text \<open>\<open>Submit_Tx\<close> leaves its specification in the second component of the world until \<open>Activate\<close>
  takes it: between the two \<^verbatim>\<open>Submit\<close> holds no lock.\<close>

datatype action = Submit_Tx int "nat \<Rightarrow> bytes" submit_spec | Activate int submit_spec | Enqueue bytes
  | Dispatch | Receive | Start int step_job | Finish int step_job bytes execute_result
  | Reconcile int bytes | Cancel int bytes | Resume bool bytes bytes bytes | Expire int
  | Sessions "(bytes \<times> bytes) list" | Restart int

type_synonym world = "service \<times> submit_spec list"

fun act :: "op_env \<Rightarrow> action \<Rightarrow> world \<Rightarrow> world option" where
  "act e (Submit_Tx now new_id spec) (s, cs) =
     (case submit_tx (en_order e) (en_digest e) new_id now spec (sv_db s) of
        Some (Inr (Accepted d)) \<Rightarrow> Some (s\<lparr>sv_db := d\<rparr>, named_spec (''op_'' @ new_id 0) spec # cs)
      | _ \<Rightarrow> Some (s, cs))"
| "act e (Activate now spec) (s, cs) =
     (if spec \<in> set cs then Some (activate now spec s, remove1 spec cs) else None)"
| "act e (Enqueue i) (s, cs) = Some (enqueue_ready i s, cs)"
| "act e Dispatch (s, cs) = Some (dispatch (en_capacity e) s, cs)"
| "act e Receive (s, cs) = Some (receive s, cs)"
| "act e (Start now job) (s, cs) = (if job \<in> set (sv_held s) then Some (start_run now job s, cs) else None)"
| "act e (Finish now job token res) (s, cs) =
     (if job \<in> set (sv_running s) then Some (finish_run (en_encode e) token now job res s, cs) else None)"
| "act e (Reconcile now i) (s, cs) = Some (fst (reconcile (en_encode e) (en_decode e) now i s), cs)"
| "act e (Cancel now i) (s, cs) = Some (fst (cancel_op (en_encode e) (en_decode e) now i s), cs)"
| "act e (Resume ex i step token) (s, cs) =
     (case resume_op ex i step token s of Inl _ \<Rightarrow> Some (s, cs) | Inr s' \<Rightarrow> Some (s', cs))"
| "act e (Expire now) (s, cs) = Some (s\<lparr>sv_db := delete_expired_operations now (sv_db s)\<rparr>, cs)"
| "act e (Sessions ss) (s, cs) = Some (s\<lparr>sv_db := (sv_db s)\<lparr>db_sessions := ss\<rparr>\<rparr>, cs)"
| "act e (Restart now) (s, cs) = map_option (\<lambda>s'. (s', [])) (start_service now (sv_db s))"

definition empty_db :: op_db where
  "empty_db = \<lparr>db_ops = [], db_steps = [], db_submissions = [], db_sessions = []\<rparr>"

definition empty_service :: service where
  "empty_service = \<lparr>sv_db = empty_db, sv_active = (\<lambda>_. None), sv_pending = [], sv_jobs = [], sv_held = [],
     sv_running = [], sv_events = []\<rparr>"

inductive reachable :: "op_env \<Rightarrow> world \<Rightarrow> bool" for e where
  reachable_start: "reachable e (empty_service, [])"
| reachable_act: "reachable e w \<Longrightarrow> act e a w = Some w' \<Longrightarrow> reachable e w'"

section \<open>The two updates\<close>

declare terminal.simps [simp del]

lemma terminal_states [simp]:
  "terminal Succeeded" "terminal Failed" "terminal Interrupted" "terminal Cancelled"
  "\<not> terminal Queued" "\<not> terminal Running" "\<not> terminal Waiting_Confirmation" "\<not> terminal Skipped"
  by (simp_all add: terminal.simps)

lemma bump_fields [simp]:
  "or_id (bump n r) = or_id r" "or_state (bump n r) = or_state r" "or_session (bump n r) = or_session r"
  by (simp_all add: bump_def)

lemma bump_for_fields [simp]:
  "or_id (bump_for ch r) = or_id r" "or_state (bump_for ch r) = or_state r"
  by (simp_all add: bump_for_def)

lemma bump_for_terminal [simp]: "terminal (or_state r) \<Longrightarrow> bump_for ch r = r"
  by (simp add: bump_for_def)

lemma update_steps_db [simp]:
  "db_steps (update_steps c f d) = map (\<lambda>r. if c r then f r else r) (db_steps d)"
  "db_submissions (update_steps c f d) = db_submissions d"
  "db_sessions (update_steps c f d) = db_sessions d"
  by (simp_all add: update_steps_def Let_def)

lemma update_steps_ops:
  "db_ops (update_steps c f d) = map (bump_for (filter (\<lambda>r. c r \<and> tracked (f r) \<noteq> tracked r) (db_steps d))) (db_ops d)"
  by (simp add: update_steps_def Let_def)

lemma update_ops_db:
  "update_ops c f d = Some d' \<Longrightarrow>
     db_steps d' = db_steps d \<and> db_submissions d' = db_submissions d \<and> db_sessions d' = db_sessions d \<and>
     db_ops d' = map (\<lambda>r. if c r then op_updated f r else r) (db_ops d) \<and>
     (\<forall>r \<in> set (db_ops d). c r \<longrightarrow> \<not> op_update_aborts f r)"
  by (auto simp: update_ops_def list_ex_iff split: if_splits)

lemma op_updated_fields [simp]: "or_state (op_updated f r) = or_state (f r)"
  by (simp add: op_updated_def)

lemma set_steps_of [simp]: "set (steps_of i d) = {r \<in> set (db_steps d). sr_operation r = i}"
  by (auto simp: steps_of_def)

lemma find_op_Some: "find_op i d = Some r \<Longrightarrow> r \<in> set (db_ops d) \<and> or_id r = i"
  by (auto simp: find_op_def dest: find_Some_in)

lemma find_op_None: "find_op i d = None \<longleftrightarrow> i \<notin> or_id ` set (db_ops d)"
  by (auto simp: find_op_def find_None_all)

lemma get_op_Some:
  "get_op i d = Some r \<Longrightarrow> rec_op r \<in> set (db_ops d) \<and> or_id (rec_op r) = i \<and> rec_steps r = steps_of i d"
  by (auto simp: get_op_def dest: find_op_Some split: if_splits option.splits)

section \<open>A terminal operation is frozen\<close>

definition version :: "op_row \<Rightarrow> op_state \<times> nat \<times> bytes" where
  "version r = (or_state r, or_sequence r, or_event_id r)"

definition keeps :: "op_db \<Rightarrow> op_db \<Rightarrow> bool" where
  "keeps d d' \<longleftrightarrow> (\<forall>i r. find_op i d = Some r \<longrightarrow> terminal (or_state r) \<longrightarrow>
     (\<exists>r'. find_op i d' = Some r' \<and> version r' = version r))"

lemma keeps_refl [simp]: "keeps d d"
  by (simp add: keeps_def)

lemma keeps_trans: "keeps d d1 \<Longrightarrow> keeps d1 d2 \<Longrightarrow> keeps d d2"
  unfolding keeps_def version_def by (metis prod.inject)

lemma find_map_id: "(\<And>r. r \<in> set rs \<Longrightarrow> or_id (g r) = or_id r) \<Longrightarrow>
    find (\<lambda>r. or_id r = i) (map g rs) = map_option g (find (\<lambda>r. or_id r = i) rs)"
  by (induction rs) auto

lemma keeps_map:
  assumes "db_ops d' = map g (db_ops d)" "\<And>r. or_id (g r) = or_id r"
    "\<And>r. r \<in> set (db_ops d) \<Longrightarrow> terminal (or_state r) \<Longrightarrow> version (g r) = version r"
  shows "keeps d d'"
  unfolding keeps_def
proof (intro allI impI)
  fix i r
  assume r: "find_op i d = Some r" "terminal (or_state r)"
  then have "find_op i d' = Some (g r)" using assms(1,2) by (simp add: find_op_def find_map_id)
  moreover have "version (g r) = version r" using r find_op_Some [OF r(1)] by (intro assms(3)) auto
  ultimately show "\<exists>r'. find_op i d' = Some r' \<and> version r' = version r" by blast
qed

lemma keeps_same_ops: "db_ops d' = db_ops d \<Longrightarrow> keeps d d'"
  by (rule keeps_map [where g = "\<lambda>r. r"]) auto

lemma keeps_update_steps: "keeps d (update_steps c f d)"
  by (rule keeps_map [OF update_steps_ops]) simp_all

definition keeps_row :: "(op_row \<Rightarrow> op_row) \<Rightarrow> bool" where
  "keeps_row f \<longleftrightarrow> (\<forall>r. or_id (f r) = or_id r \<and> or_sequence (f r) = or_sequence r \<and>
     or_event_id (f r) = or_event_id r)"

lemma op_updated_id: "keeps_row f \<Longrightarrow> or_id (op_updated f r) = or_id r"
  by (simp add: keeps_row_def op_updated_def)

lemma keeps_update_ops:
  assumes "update_ops c f d = Some d'" "keeps_row f"
  shows "keeps d d'"
proof (rule keeps_map)
  show "db_ops d' = map (\<lambda>r. if c r then op_updated f r else r) (db_ops d)"
    using update_ops_db [OF assms(1)] by simp
  show "or_id (if c r then op_updated f r else r) = or_id r" for r
    using assms(2) by (simp add: op_updated_id)
  show "version (if c r then op_updated f r else r) = version r"
    if "r \<in> set (db_ops d)" "terminal (or_state r)" for r
  proof (cases "c r")
    case True
    then have "or_state (f r) = or_state r"
      using update_ops_db [OF assms(1)] that by (auto simp: op_update_aborts_def)
    then show ?thesis using assms(2) by (simp add: op_updated_def version_def keeps_row_def)
  qed simp
qed

lemma emit_fields [simp]:
  "sv_db (emit ev s) = sv_db s" "sv_active (emit ev s) = sv_active s" "sv_pending (emit ev s) = sv_pending s"
  "sv_jobs (emit ev s) = sv_jobs s" "sv_held (emit ev s) = sv_held s" "sv_running (emit ev s) = sv_running s"
  by (simp_all add: emit_def split: option.splits)

lemma finish_active_db [simp]: "sv_db (fst (finish_active i s)) = sv_db s"
  by (simp add: finish_active_def split: option.splits)

lemma close_operation_db:
  "sv_db (close_operation encode decode now r st s) =
     (case persist_state encode decode now r st (sv_db s) of None \<Rightarrow> sv_db s | Some d \<Rightarrow> d)"
  by (auto simp: close_operation_def Let_def finish_active_def split: option.splits)

lemma keeps_persist: "persist_state encode decode now r st d = Some d' \<Longrightarrow> keeps d d'"
  unfolding persist_state_def by (auto intro!: keeps_update_ops simp: keeps_row_def split: prod.splits)

lemma keeps_close: "keeps (sv_db s) (sv_db (close_operation encode decode now r st s))"
  by (auto simp: close_operation_db dest: keeps_persist split: option.splits)

lemma keeps_skip: "keeps d (skip_steps now i rows d)"
  unfolding skip_steps_def
  by (rule foldl_invariant) (auto intro: keeps_trans keeps_update_steps)

lemma keeps_mark: "mark_step_running now job d = Some d' \<Longrightarrow> keeps d d'"
  by (auto simp: mark_step_running_def Let_def keeps_row_def split: if_splits option.splits
      intro: keeps_update_steps keeps_trans [OF keeps_update_steps keeps_update_ops])

lemma keeps_start_run: "keeps (sv_db s) (sv_db (start_run now job s))"
  by (auto simp: start_run_def Let_def dest: keeps_mark split: option.splits)

lemma keeps_finish_run: "keeps (sv_db s) (sv_db (finish_run encode token now job res s))"
  by (simp add: finish_run_def Let_def finish_step_def keeps_update_steps)

lemma keeps_reconcile: "keeps (sv_db s) (sv_db (fst (reconcile encode decode now i s)))"
  unfolding reconcile_def Let_def
  by (auto split: option.splits dest!: keeps_persist
      intro: keeps_close keeps_skip keeps_trans [OF keeps_skip] keeps_trans [OF keeps_skip keeps_close [of "s\<lparr>sv_db := _\<rparr>", simplified]])

lemma keeps_cancel_op: "keeps (sv_db s) (sv_db (fst (cancel_op encode decode now i s)))"
  unfolding cancel_op_def Let_def cancel_steps_def
  by (auto split: option.splits dest!: keeps_persist intro: keeps_update_steps keeps_trans [OF keeps_update_steps])

lemma keeps_resume_tx: "resume_tx job token d = Some d' \<Longrightarrow> keeps d d'"
  unfolding resume_tx_def Let_def
  by (auto split: if_splits simp: keeps_row_def intro: keeps_trans [OF keeps_update_steps keeps_update_ops])

lemma resume_op_db:
  "resume_op ex i step token s = Inr s' \<Longrightarrow> resume_tx (i, step) token (sv_db s) = Some (sv_db s')"
  by (auto simp: resume_op_def Let_def split: if_splits option.splits)

lemma keeps_recover: "recover_interrupted now d = Some d' \<Longrightarrow> keeps d d'"
  unfolding recover_interrupted_def
  by (auto split: option.splits simp: keeps_row_def intro: keeps_trans [OF keeps_update_ops keeps_update_steps])

lemma find_append_Some: "find P xs = Some x \<Longrightarrow> find P (xs @ ys) = Some x"
  by (induction xs) auto

lemma keeps_insert_op: "insert_op r d = Some d' \<Longrightarrow> keeps d d'"
  by (auto simp: insert_op_def keeps_def find_op_def find_append_Some split: if_splits)

lemma keeps_insert_step: "insert_step r d = Some d' \<Longrightarrow> keeps d d'"
  by (auto simp: insert_step_def split: if_splits intro!: keeps_map [where g = "bump_for [r]"])

lemma keeps_insert_steps: "insert_steps rs d = Some d' \<Longrightarrow> keeps d d'"
  by (induction rs arbitrary: d) (auto split: option.splits dest: keeps_insert_step intro: keeps_trans)

lemma insert_submission_ops: "insert_submission i ses sha d = Some d' \<Longrightarrow> db_ops d' = db_ops d"
  by (auto simp: insert_submission_def split: if_splits)

lemma submit_tx_accepted:
  assumes "submit_tx order digest new_id now spec0 d = Some (Inr (Accepted d3))"
  obtains spec d1 d2 where
    "spec = named_spec (''op_'' @ new_id 0) spec0" "valid_ids spec"
    "validate_spec order spec0 = Some (Inr ())"
    "map_of (db_submissions d) (sub_id spec) = None"
    "insert_submission (sub_id spec) (sub_session spec) (digest (canonical_spec spec)) d = Some d1"
    "insert_op (new_op_row now (digest (canonical_spec spec)) spec) d1 = Some d2"
    "insert_steps (map (new_step_row now (sub_id spec))
       (zip (map (\<lambda>k. ''req_'' @ new_id (Suc k)) [0..<length (sub_steps spec)]) (sub_steps spec))) d2 = Some d3"
  using assms unfolding submit_tx_def Let_def
  by (auto split: option.split_asm sum.split_asm if_split_asm)

lemma keeps_submit: "submit_tx order digest new_id now spec d = Some (Inr (Accepted d')) \<Longrightarrow> keeps d d'"
  by (erule submit_tx_accepted) (meson insert_submission_ops keeps_insert_op keeps_insert_steps
      keeps_same_ops keeps_trans)

lemma act_keeps:
  assumes "act e a (s, cs) = Some (s', cs')" "\<forall>now. a \<noteq> Expire now"
  shows "keeps (sv_db s) (sv_db s')"
proof (cases a)
  case (Submit_Tx now new_id spec)
  with assms show ?thesis by (auto split: option.splits sum.splits submission.splits intro: keeps_submit)
next
  case (Activate now spec)
  with assms show ?thesis by (auto simp: activate_def split: if_splits)
next
  case (Enqueue i)
  with assms show ?thesis by (auto simp: enqueue_ready_def Let_def split: option.splits)
next
  case Dispatch
  with assms show ?thesis by (auto simp: dispatch_def split: list.splits)
next
  case Receive
  with assms show ?thesis by (auto simp: receive_def split: list.splits)
next
  case (Start now job)
  with assms show ?thesis by (auto intro: keeps_start_run split: if_splits)
next
  case (Finish now job token res)
  with assms show ?thesis by (auto intro: keeps_finish_run split: if_splits)
next
  case (Reconcile now i)
  with assms show ?thesis by (auto intro: keeps_reconcile)
next
  case (Cancel now i)
  with assms show ?thesis by (auto intro: keeps_cancel_op)
next
  case (Resume ex i step token)
  with assms show ?thesis by (auto split: sum.splits dest: resume_op_db keeps_resume_tx)
next
  case (Sessions ss)
  with assms show ?thesis by (auto intro: keeps_same_ops)
next
  case (Restart now)
  with assms show ?thesis by (auto simp: start_service_def intro: keeps_recover)
qed (use assms in auto)

end
