(* ===== verification/Operation_Invariant.thy ===== *)
theory Operation_Invariant
  imports Operation_System
begin

text \<open>
  The invariants of the operation service and their preservation: those of the tables (\<open>db_ok\<close>: keys,
  legal states, dependencies before dependents, closed operations) and those relating the tables to
  the live operations and the jobs on their way (\<open>service_ok\<close>). One lemma per operation;
  \<open>act_service_ok\<close> puts them together and \<open>reachable_service_ok\<close> is the induction.
\<close>

section \<open>Invariants of the tables\<close>

definition row_key :: "step_row \<Rightarrow> step_job" where
  "row_key r = (sr_operation r, sr_id r)"

lemma is_step_key: "is_step job r \<longleftrightarrow> row_key r = job"
  by (cases job) (auto simp: is_step_def row_key_def)

text \<open>All dependencies of a step have succeeded.\<close>

definition deps_ok :: "step_row set \<Rightarrow> step_row \<Rightarrow> bool" where
  "deps_ok S r \<longleftrightarrow> (\<forall>x \<in> set (sr_depends_on r). \<exists>q \<in> S. row_key q = (sr_operation r, x) \<and> sr_state q = Succeeded)"

text \<open>The step has been handed to an executor at least once.\<close>

definition begun :: "step_row \<Rightarrow> bool" where
  "begun r \<longleftrightarrow> sr_started r \<noteq> None \<or> sr_state r \<in> {Running, Succeeded, Failed, Waiting_Confirmation}"

definition keys_ok :: "op_db \<Rightarrow> bool" where
  "keys_ok d \<longleftrightarrow> distinct (map or_id (db_ops d)) \<and> distinct (map row_key (db_steps d)) \<and>
     fst ` set (map row_key (db_steps d)) \<subseteq> set (map or_id (db_ops d)) \<and>
     set (map or_id (db_ops d)) \<subseteq> fst ` set (db_submissions d)"

definition order_ok :: "op_db \<Rightarrow> bool" where
  "order_ok d \<longleftrightarrow> (\<forall>r \<in> set (db_steps d). begun r \<longrightarrow> deps_ok (set (db_steps d)) r)"

definition closed_ok :: "op_db \<Rightarrow> bool" where
  "closed_ok d \<longleftrightarrow> (\<forall>o' \<in> set (db_ops d). terminal (or_state o') \<longrightarrow>
     (\<forall>r \<in> set (db_steps d). sr_operation r = or_id o' \<longrightarrow> step_done (sr_state r)))"

definition states_ok :: "op_db \<Rightarrow> bool" where
  "states_ok d \<longleftrightarrow> (\<forall>o' \<in> set (db_ops d). or_state o' \<noteq> Skipped)"

definition db_ok :: "op_db \<Rightarrow> bool" where
  "db_ok d \<longleftrightarrow> keys_ok d \<and> states_ok d \<and> order_ok d \<and> closed_ok d"

text \<open>A change of one row that no invariant minds.\<close>

definition good_change :: "step_row set \<Rightarrow> (step_row \<Rightarrow> step_row) \<Rightarrow> step_row \<Rightarrow> bool" where
  "good_change S f r \<longleftrightarrow>
     row_key (f r) = row_key r \<and> sr_depends_on (f r) = sr_depends_on r \<and>
     (sr_state r = Succeeded \<longrightarrow> sr_state (f r) = Succeeded) \<and>
     (step_done (sr_state r) \<longrightarrow> step_done (sr_state (f r))) \<and>
     (begun (f r) \<longrightarrow> begun r \<or> deps_ok S r)"

definition good_update :: "(step_row \<Rightarrow> bool) \<Rightarrow> (step_row \<Rightarrow> step_row) \<Rightarrow> op_db \<Rightarrow> bool" where
  "good_update c f d \<longleftrightarrow> (\<forall>r \<in> set (db_steps d). c r \<longrightarrow> good_change (set (db_steps d)) f r)"

lemma good_updateD: "good_update c f d \<Longrightarrow> r \<in> set (db_steps d) \<Longrightarrow> c r \<Longrightarrow> good_change (set (db_steps d)) f r"
  by (simp add: good_update_def)

lemma good_change_key: "good_change S f r \<Longrightarrow> row_key (f r) = row_key r"
  and good_change_deps: "good_change S f r \<Longrightarrow> sr_depends_on (f r) = sr_depends_on r"
  and good_change_succeeded: "good_change S f r \<Longrightarrow> sr_state r = Succeeded \<Longrightarrow> sr_state (f r) = Succeeded"
  and good_change_done: "good_change S f r \<Longrightarrow> step_done (sr_state r) \<Longrightarrow> step_done (sr_state (f r))"
  and good_change_begun: "good_change S f r \<Longrightarrow> begun (f r) \<Longrightarrow> begun r \<or> deps_ok S r"
  by (simp_all add: good_change_def)

lemma row_key_eq: "row_key a = row_key b \<longleftrightarrow> sr_operation a = sr_operation b \<and> sr_id a = sr_id b"
  by (simp add: row_key_def)

lemma deps_ok_cong: "row_key r' = row_key r \<Longrightarrow> sr_depends_on r' = sr_depends_on r \<Longrightarrow> deps_ok S r' = deps_ok S r"
  by (simp add: deps_ok_def row_key_def)

lemma deps_ok_mono:
  "deps_ok S r \<Longrightarrow> (\<And>q. q \<in> S \<Longrightarrow> sr_operation q = sr_operation r \<Longrightarrow> sr_state q = Succeeded \<Longrightarrow>
     \<exists>q' \<in> S'. row_key q' = row_key q \<and> sr_state q' = Succeeded) \<Longrightarrow> deps_ok S' r"
  unfolding deps_ok_def by (metis row_key_def prod.inject)

lemma good_update_deps:
  assumes "good_update c f d" "deps_ok (set (db_steps d)) r"
  shows "deps_ok (set (db_steps (update_steps c f d))) r"
  using assms(2)
proof (rule deps_ok_mono)
  fix q
  assume q: "q \<in> set (db_steps d)" "sr_state q = Succeeded"
  let ?q = "if c q then f q else q"
  have "?q \<in> set (db_steps (update_steps c f d))"
    unfolding update_steps_db set_map by (rule imageI [OF q(1)])
  moreover have "row_key ?q = row_key q \<and> sr_state ?q = Succeeded"
    using q(2) good_change_key [OF good_updateD [OF assms(1) q(1)]]
      good_change_succeeded [OF good_updateD [OF assms(1) q(1)]] by (cases "c q") simp_all
  ultimately show "\<exists>q' \<in> set (db_steps (update_steps c f d)). row_key q' = row_key q \<and> sr_state q' = Succeeded"
    by blast
qed

lemma map_key_cong: "(\<And>r. r \<in> set rs \<Longrightarrow> row_key (g r) = row_key r) \<Longrightarrow> map row_key (map g rs) = map row_key rs"
  by simp

lemma keys_ok_cong:
  assumes "keys_ok d" "map or_id (db_ops d') = map or_id (db_ops d)"
    "map row_key (db_steps d') = map row_key (db_steps d)" "db_submissions d' = db_submissions d"
  shows "keys_ok d'"
  using assms(1) unfolding keys_ok_def by (simp only: assms(2-4))

lemma keys_update_steps:
  assumes "good_update c f d" "keys_ok d"
  shows "keys_ok (update_steps c f d)"
proof (rule keys_ok_cong [OF assms(2)])
  show "map row_key (db_steps (update_steps c f d)) = map row_key (db_steps d)"
    unfolding update_steps_db
    by (rule map_key_cong) (simp add: good_change_key [OF good_updateD [OF assms(1)]])
qed (simp_all add: update_steps_ops)

lemma order_update_steps:
  assumes "good_update c f d" "order_ok d"
  shows "order_ok (update_steps c f d)"
  unfolding order_ok_def
proof (intro ballI impI)
  fix r'
  assume "r' \<in> set (db_steps (update_steps c f d))" and begun: "begun r'"
  then obtain r where r: "r \<in> set (db_steps d)" "r' = (if c r then f r else r)" by auto
  have old: "deps_ok (set (db_steps d)) r"
    using assms(2) r begun good_change_begun [OF good_updateD [OF assms(1) r(1)]]
    by (cases "c r") (auto simp: order_ok_def)
  have "deps_ok (set (db_steps d)) r'"
  proof (cases "c r")
    case True
    note g = good_updateD [OF assms(1) r(1) this]
    show ?thesis using old True r(2) deps_ok_cong [OF good_change_key [OF g] good_change_deps [OF g]] by simp
  qed (use old r(2) in simp)
  then show "deps_ok (set (db_steps (update_steps c f d))) r'"
    by (rule good_update_deps [OF assms(1)])
qed

lemma closed_update_steps:
  assumes "good_update c f d" "closed_ok d"
  shows "closed_ok (update_steps c f d)"
  unfolding closed_ok_def
proof (intro ballI impI)
  fix o' r'
  assume o': "o' \<in> set (db_ops (update_steps c f d))" "terminal (or_state o')"
    and r': "r' \<in> set (db_steps (update_steps c f d))" "sr_operation r' = or_id o'"
  from o' obtain p where p: "p \<in> set (db_ops d)" "or_id p = or_id o'" "terminal (or_state p)"
    by (auto simp: update_steps_ops)
  from r' obtain r where r: "r \<in> set (db_steps d)" "r' = (if c r then f r else r)" by auto
  then have "sr_operation r = or_id p"
    using r'(2) p(2) good_change_key [OF good_updateD [OF assms(1) r(1)]]
    by (cases "c r") (simp_all add: row_key_def)
  then have "step_done (sr_state r)" using assms(2) p r(1) by (auto simp: closed_ok_def)
  then show "step_done (sr_state r')"
    using r(2) good_change_done [OF good_updateD [OF assms(1) r(1)]] by (cases "c r") simp_all
qed

lemma states_update_steps: "states_ok d \<Longrightarrow> states_ok (update_steps c f d)"
  by (auto simp: states_ok_def update_steps_ops)

lemma states_update_ops: "update_ops c f d = Some d' \<Longrightarrow> states_ok d \<Longrightarrow> states_ok d'"
  using update_ops_db [of c f d d'] by (auto simp: states_ok_def op_update_aborts_def)

lemma db_ok_update_steps: "good_update c f d \<Longrightarrow> db_ok d \<Longrightarrow> db_ok (update_steps c f d)"
  by (simp add: db_ok_def keys_update_steps states_update_steps order_update_steps closed_update_steps)

lemma db_ok_update_ops:
  assumes "update_ops c f d = Some d'" "keeps_row f" "db_ok d"
    "\<And>o' r. o' \<in> set (db_ops d) \<Longrightarrow> c o' \<Longrightarrow> terminal (or_state (f o')) \<Longrightarrow> r \<in> set (db_steps d) \<Longrightarrow>
       sr_operation r = or_id o' \<Longrightarrow> step_done (sr_state r)"
  shows "db_ok d'"
proof -
  note d' = update_ops_db [OF assms(1)]
  have ids: "map or_id (db_ops d') = map or_id (db_ops d)"
    using d' assms(2) by (auto simp: op_updated_id)
  have "keys_ok d'"
    by (rule keys_ok_cong [of d]) (use assms(3) d' ids in \<open>simp_all add: db_ok_def\<close>)
  moreover have "order_ok d'" using assms(3) d' by (simp add: db_ok_def order_ok_def)
  moreover have "closed_ok d'"
    unfolding closed_ok_def
  proof (intro ballI impI)
    fix o' r
    assume o': "o' \<in> set (db_ops d')" "terminal (or_state o')" and r: "r \<in> set (db_steps d')" "sr_operation r = or_id o'"
    from o'(1) d' obtain p where p: "p \<in> set (db_ops d)" "o' = (if c p then op_updated f p else p)" by auto
    then have id: "sr_operation r = or_id p" using r(2) assms(2) by (auto simp: op_updated_id)
    show "step_done (sr_state r)"
    proof (cases "c p")
      case True
      then show ?thesis using assms(4) [of p r] p o' id r d' by simp
    next
      case False
      then show ?thesis using assms(3) p o' id r d' by (simp add: db_ok_def closed_ok_def)
    qed
  qed
  moreover have "states_ok d'" using states_update_ops [OF assms(1)] assms(3) by (simp add: db_ok_def)
  ultimately show ?thesis by (simp add: db_ok_def)
qed

section \<open>Invariants of the service\<close>

definition running_ok :: "op_db \<Rightarrow> step_job list \<Rightarrow> bool" where
  "running_ok d running \<longleftrightarrow> distinct running \<and>
     (\<forall>job. job \<in> set running \<longleftrightarrow> (\<exists>r \<in> set (db_steps d). row_key r = job \<and> sr_state r = Running))"

definition handles_ok :: "(bytes \<Rightarrow> active_op option) \<Rightarrow> step_job list \<Rightarrow> bool" where
  "handles_ok live running \<longleftrightarrow> (\<forall>job \<in> set running. \<exists>a. live (fst job) = Some a \<and> snd job \<in> set (ao_step_cancel a))"

definition cancelled_ok :: "op_db \<Rightarrow> (bytes \<Rightarrow> active_op option) \<Rightarrow> bool" where
  "cancelled_ok d live \<longleftrightarrow> (\<forall>i a. live i = Some a \<longrightarrow> ao_cancel_requested a \<longrightarrow>
     (\<forall>r \<in> set (db_steps d). sr_operation r = i \<longrightarrow> sr_state r \<noteq> Queued \<and> sr_state r \<noteq> Waiting_Confirmation))"

definition queue_ok :: "op_db \<Rightarrow> step_job set \<Rightarrow> bool" where
  "queue_ok d queue \<longleftrightarrow> (\<forall>job \<in> queue. fst job \<in> fst ` set (db_submissions d) \<and>
     (\<forall>r \<in> set (db_steps d). row_key r = job \<longrightarrow> deps_ok (set (db_steps d)) r))"

definition known_ok :: "op_db \<Rightarrow> (bytes \<Rightarrow> active_op option) \<Rightarrow> bool" where
  "known_ok d live \<longleftrightarrow> (\<forall>i. live i \<noteq> None \<longrightarrow> i \<in> fst ` set (db_submissions d))"

definition fresh_ok :: "op_db \<Rightarrow> (bytes \<Rightarrow> active_op option) \<Rightarrow> submit_spec list \<Rightarrow> bool" where
  "fresh_ok d live cs \<longleftrightarrow> distinct (map sub_id cs) \<and>
     (\<forall>c \<in> set cs. sub_id c \<in> fst ` set (db_submissions d) \<and> live (sub_id c) = None \<and>
       (\<forall>r \<in> set (db_steps d). sr_operation r = sub_id c \<longrightarrow> sr_state r \<in> {Queued, Cancelled, Skipped}))"

definition svc_inv :: "op_db \<Rightarrow> (bytes \<Rightarrow> active_op option) \<Rightarrow> step_job set \<Rightarrow> step_job list \<Rightarrow>
    submit_spec list \<Rightarrow> bool" where
  "svc_inv d live queue running cs \<longleftrightarrow> db_ok d \<and> running_ok d running \<and> handles_ok live running \<and>
     cancelled_ok d live \<and> queue_ok d queue \<and> known_ok d live \<and> fresh_ok d live cs"

definition queued_jobs :: "service \<Rightarrow> step_job set" where
  "queued_jobs s = set (sv_pending s) \<union> set (sv_jobs s) \<union> set (sv_held s)"

definition service_ok :: "service \<Rightarrow> submit_spec list \<Rightarrow> bool" where
  "service_ok s cs \<longleftrightarrow> svc_inv (sv_db s) (sv_active s) (queued_jobs s) (sv_running s) cs"

lemma service_ok_emit [simp]: "service_ok (emit ev s) cs \<longleftrightarrow> service_ok s cs"
  by (simp add: service_ok_def queued_jobs_def)

lemma key_unique:
  "keys_ok d \<Longrightarrow> r \<in> set (db_steps d) \<Longrightarrow> q \<in> set (db_steps d) \<Longrightarrow> row_key r = row_key q \<Longrightarrow> r = q"
  unfolding keys_ok_def by (metis distinct_map inj_on_def)

lemma op_unique: "keys_ok d \<Longrightarrow> p \<in> set (db_ops d) \<Longrightarrow> q \<in> set (db_ops d) \<Longrightarrow> or_id p = or_id q \<Longrightarrow> p = q"
  unfolding keys_ok_def by (metis distinct_map inj_on_def)

text \<open>An update of \<^verbatim>\<open>operations\<close> alone.\<close>

lemma inv_update_ops:
  assumes "svc_inv d live queue running cs" "update_ops c f d = Some d'" "keeps_row f"
    "\<And>o' r. o' \<in> set (db_ops d) \<Longrightarrow> c o' \<Longrightarrow> terminal (or_state (f o')) \<Longrightarrow> r \<in> set (db_steps d) \<Longrightarrow>
       sr_operation r = or_id o' \<Longrightarrow> step_done (sr_state r)"
  shows "svc_inv d' live queue running cs"
proof -
  have same: "db_steps d' = db_steps d" "db_submissions d' = db_submissions d"
    using update_ops_db [OF assms(2)] by simp_all
  have "db_ok d'" by (rule db_ok_update_ops [OF assms(2,3)]) (use assms(1,4) in \<open>simp_all add: svc_inv_def\<close>)
  then show ?thesis using assms(1)
    unfolding svc_inv_def running_ok_def cancelled_ok_def queue_ok_def known_ok_def fresh_ok_def same by blast
qed

text \<open>An update that only puts aside steps that wait: nothing is begun and nothing that runs changes.\<close>

definition calm_change :: "(step_row \<Rightarrow> step_row) \<Rightarrow> step_row \<Rightarrow> bool" where
  "calm_change f r \<longleftrightarrow>
     row_key (f r) = row_key r \<and> sr_depends_on (f r) = sr_depends_on r \<and> sr_started (f r) = sr_started r \<and>
     (sr_state (f r) = sr_state r \<or>
      sr_state r \<in> {Queued, Waiting_Confirmation} \<and> sr_state (f r) \<in> {Skipped, Cancelled})"

lemma calm_good: "calm_change f r \<Longrightarrow> good_change S f r"
  by (auto simp: calm_change_def good_change_def step_done_def begun_def)

lemma calm_state: "calm_change f r \<Longrightarrow> sr_state (f r) \<in> X \<Longrightarrow> Skipped \<notin> X \<Longrightarrow> Cancelled \<notin> X \<Longrightarrow> sr_state r \<in> X"
  unfolding calm_change_def by (metis insertE singletonD)

lemma calm_keeps: "calm_change f r \<Longrightarrow> sr_state r \<in> X \<Longrightarrow> Skipped \<in> X \<Longrightarrow> Cancelled \<in> X \<Longrightarrow> sr_state (f r) \<in> X"
  unfolding calm_change_def by (metis insertE singletonD)

lemma inv_calm_update:
  assumes "svc_inv d live queue running cs" "\<And>r. r \<in> set (db_steps d) \<Longrightarrow> c r \<Longrightarrow> calm_change f r"
  shows "svc_inv (update_steps c f d) live queue running cs"
proof -
  let ?g = "\<lambda>r. if c r then f r else r"
  have good: "good_update c f d" using assms(2) calm_good by (simp add: good_update_def)
  have calm: "calm_change ?g r" if "r \<in> set (db_steps d)" for r
    using assms(2) [OF that] by (cases "c r") (simp_all add: calm_change_def)
  then have key: "row_key (?g r) = row_key r" and op: "sr_operation (?g r) = sr_operation r"
    and deps: "sr_depends_on (?g r) = sr_depends_on r"
    if "r \<in> set (db_steps d)" for r using that by (auto simp: calm_change_def row_key_def)
  have running: "sr_state (?g r) = Running \<longleftrightarrow> sr_state r = Running" if "r \<in> set (db_steps d)" for r
    using calm [OF that] by (auto simp: calm_change_def)
  have rows: "set (db_steps (update_steps c f d)) = ?g ` set (db_steps d)" by simp
  have "running_ok (update_steps c f d) running"
    using assms(1) key running unfolding svc_inv_def running_ok_def rows by (simp del: if_image_distrib)
  moreover have "cancelled_ok (update_steps c f d) live"
    unfolding cancelled_ok_def rows
  proof (intro allI impI ballI)
    fix i a r'
    assume a: "live i = Some a" "ao_cancel_requested a" and r': "r' \<in> ?g ` set (db_steps d)" "sr_operation r' = i"
    from r'(1) obtain r where r: "r \<in> set (db_steps d)" "r' = ?g r" by blast
    then have "sr_state r \<notin> {Queued, Waiting_Confirmation}"
      using assms(1) a r'(2) op unfolding svc_inv_def cancelled_ok_def by auto
    then have "sr_state r' \<notin> {Queued, Waiting_Confirmation}"
      using calm_state [OF calm [OF r(1)], of "{Queued, Waiting_Confirmation}"] r(2) by auto
    then show "sr_state r' \<noteq> Queued \<and> sr_state r' \<noteq> Waiting_Confirmation" by simp
  qed
  moreover have "queue_ok (update_steps c f d) queue"
    unfolding queue_ok_def
  proof (intro ballI conjI impI)
    fix job
    assume job: "job \<in> queue"
    then show "fst job \<in> fst ` set (db_submissions (update_steps c f d))"
      using assms(1) by (auto simp: svc_inv_def queue_ok_def)
    fix r'
    assume "r' \<in> set (db_steps (update_steps c f d))" "row_key r' = job"
    then obtain r where r: "r \<in> set (db_steps d)" "r' = ?g r" "row_key r = job" using key rows by auto
    then have "deps_ok (set (db_steps d)) r'"
      using assms(1) job deps_ok_cong [OF key [OF r(1)] deps [OF r(1)]] by (simp add: svc_inv_def queue_ok_def)
    then show "deps_ok (set (db_steps (update_steps c f d))) r'" by (rule good_update_deps [OF good])
  qed
  moreover have "fresh_ok (update_steps c f d) live cs"
  proof -
    have "sr_state r' \<in> {Queued, Cancelled, Skipped}"
      if "x \<in> set cs" and r': "r' \<in> ?g ` set (db_steps d)" "sr_operation r' = sub_id x" for x r'
    proof -
      from r'(1) obtain r where r: "r \<in> set (db_steps d)" "r' = ?g r" by blast
      then have "sr_state r \<in> {Queued, Cancelled, Skipped}"
        using assms(1) that op unfolding svc_inv_def fresh_ok_def by auto
      then show ?thesis using calm_keeps [OF calm [OF r(1)], of "{Queued, Cancelled, Skipped}"] r(2) by blast
    qed
    then show ?thesis using assms(1) unfolding svc_inv_def fresh_ok_def rows update_steps_db(2) by blast
  qed
  moreover have "db_ok (update_steps c f d)" using assms(1) good by (simp add: svc_inv_def db_ok_update_steps)
  ultimately show ?thesis using assms(1) by (simp add: svc_inv_def known_ok_def)
qed

section \<open>Starting and finishing a step\<close>

lemma in_updated:
  "r' \<in> set (db_steps (update_steps c f d)) \<Longrightarrow> \<exists>r \<in> set (db_steps d). r' = (if c r then f r else r)"
  by auto

text \<open>An update of the one row of a job: what it needs to keep the invariants, apart from those on
  the running jobs.\<close>

definition job_change :: "(step_row \<Rightarrow> step_row) \<Rightarrow> bool" where
  "job_change f \<longleftrightarrow> (\<forall>r. row_key (f r) = row_key r \<and> sr_depends_on (f r) = sr_depends_on r)"

lemma job_changeD:
  "job_change f \<Longrightarrow> row_key (f r) = row_key r"
  "job_change f \<Longrightarrow> sr_depends_on (f r) = sr_depends_on r"
  "job_change f \<Longrightarrow> sr_operation (f r) = sr_operation r"
  by (simp_all add: job_change_def row_key_eq)

lemma queue_ok_update:
  assumes "good_update c f d" "queue_ok d queue"
  shows "queue_ok (update_steps c f d) queue"
  unfolding queue_ok_def
proof (intro ballI conjI impI)
  fix job
  assume job: "job \<in> queue"
  then show "fst job \<in> fst ` set (db_submissions (update_steps c f d))"
    using assms(2) by (auto simp: queue_ok_def)
  fix r'
  assume r': "r' \<in> set (db_steps (update_steps c f d))" "row_key r' = job"
  from in_updated [OF r'(1)] obtain r where r: "r \<in> set (db_steps d)" "r' = (if c r then f r else r)" by blast
  have eq: "row_key r' = row_key r \<and> sr_depends_on r' = sr_depends_on r"
    using good_updateD [OF assms(1) r(1)] r(2) by (cases "c r") (simp_all add: good_change_def)
  then have "deps_ok (set (db_steps d)) r" using assms(2) job r(1) r'(2) by (simp add: queue_ok_def)
  then have "deps_ok (set (db_steps d)) r'" using eq deps_ok_cong by blast
  then show "deps_ok (set (db_steps (update_steps c f d))) r'" by (rule good_update_deps [OF assms(1)])
qed

lemma fresh_ok_update:
  assumes "fresh_ok d live cs" "job_change f"
    "\<And>r. r \<in> set (db_steps d) \<Longrightarrow> c r \<Longrightarrow> sr_operation r \<notin> sub_id ` set cs"
  shows "fresh_ok (update_steps c f d) live cs"
proof -
  have "sr_state r' \<in> {Queued, Cancelled, Skipped}"
    if x: "x \<in> set cs" and r': "r' \<in> set (db_steps (update_steps c f d))" "sr_operation r' = sub_id x" for x r'
  proof -
    from in_updated [OF r'(1)] obtain r where r: "r \<in> set (db_steps d)" "r' = (if c r then f r else r)" by blast
    have "sr_operation r = sub_id x" using r(2) r'(2) job_changeD(3) [OF assms(2)] by (cases "c r") simp_all
    then have "\<not> c r" using assms(3) [OF r(1)] x by auto
    then show ?thesis using assms(1) x r r'(2) by (simp add: fresh_ok_def)
  qed
  then show ?thesis using assms(1) unfolding fresh_ok_def update_steps_db(2) by blast
qed

lemma cancelled_ok_update:
  assumes "cancelled_ok d live" "job_change f"
    "\<And>r a. r \<in> set (db_steps d) \<Longrightarrow> c r \<Longrightarrow> live (sr_operation r) = Some a \<Longrightarrow> ao_cancel_requested a \<Longrightarrow>
       sr_state (f r) \<noteq> Queued \<and> sr_state (f r) \<noteq> Waiting_Confirmation"
  shows "cancelled_ok (update_steps c f d) live"
  unfolding cancelled_ok_def
proof (intro allI impI ballI)
  fix i a r'
  assume a: "live i = Some a" "ao_cancel_requested a"
    and r': "r' \<in> set (db_steps (update_steps c f d))" "sr_operation r' = i"
  from in_updated [OF r'(1)] obtain r where r: "r \<in> set (db_steps d)" "r' = (if c r then f r else r)" by blast
  have op: "sr_operation r = i" using r(2) r'(2) job_changeD(3) [OF assms(2)] by (cases "c r") simp_all
  show "sr_state r' \<noteq> Queued \<and> sr_state r' \<noteq> Waiting_Confirmation"
  proof (cases "c r")
    case True
    then show ?thesis using assms(3) [OF r(1)] a op r(2) by simp
  next
    case False
    then show ?thesis using assms(1) a op r by (auto simp: cancelled_ok_def)
  qed
qed

lemma running_iff: "running_ok d running \<Longrightarrow>
    job \<in> set running \<longleftrightarrow> (\<exists>r \<in> set (db_steps d). row_key r = job \<and> sr_state r = Running)"
  unfolding running_ok_def by blast

lemma running_ok_update:
  assumes "keys_ok d" "running_ok d running" "job_change f"
  shows "(\<exists>r' \<in> set (db_steps (update_steps (\<lambda>r. row_key r = job \<and> p r) f d)). row_key r' = k \<and> sr_state r' = Running) \<longleftrightarrow>
    (\<exists>r \<in> set (db_steps d). row_key r = k \<and>
       (if k = job \<and> p r then sr_state (f r) = Running else sr_state r = Running))"
  using job_changeD(1) [OF assms(3)] by auto

lemma handles_update:
  assumes "handles_ok live running" "live i = Some a"
    "\<And>x. (i, x) \<in> set running' \<Longrightarrow> x \<in> set (ao_step_cancel a')"
    "\<And>j x. j \<noteq> i \<Longrightarrow> (j, x) \<in> set running' \<Longrightarrow> (j, x) \<in> set running"
  shows "handles_ok (live(i \<mapsto> a')) running'"
  unfolding handles_ok_def
proof
  fix job
  assume job: "job \<in> set running'"
  obtain j x where jx: "job = (j, x)" by (cases job)
  show "\<exists>b. (live(i \<mapsto> a')) (fst job) = Some b \<and> snd job \<in> set (ao_step_cancel b)"
    using assms(1,3) assms(4) [of j x] job jx by (cases "j = i") (auto simp: handles_ok_def)
qed

lemma live_update:
  assumes "live i = Some a" "ao_cancel_requested a' \<longrightarrow> ao_cancel_requested a"
  shows "cancelled_ok d live \<Longrightarrow> cancelled_ok d (live(i \<mapsto> a'))"
    and "known_ok d live \<Longrightarrow> known_ok d (live(i \<mapsto> a'))"
    and "fresh_ok d live cs \<Longrightarrow> fresh_ok d (live(i \<mapsto> a')) cs"
  using assms by (auto simp: cancelled_ok_def known_ok_def fresh_ok_def)

lemma keys_of_inv: "svc_inv d live queue running cs \<Longrightarrow> keys_ok d"
  by (simp add: svc_inv_def db_ok_def)

lemma not_fresh: "svc_inv d live queue running cs \<Longrightarrow> live i \<noteq> None \<Longrightarrow> i \<notin> sub_id ` set cs"
  by (auto simp: svc_inv_def fresh_ok_def)

lemma inv_start:
  assumes svc_inv: "svc_inv d live queue running cs" and a: "live (fst job) = Some a" "\<not> ao_cancel_requested a"
    and job: "job \<in> queue" and mark: "mark_step_running now job d = Some d'"
  shows "svc_inv d' (live(fst job \<mapsto> a\<lparr>ao_step_cancel := List.insert (snd job) (ao_step_cancel a)\<rparr>)) queue
    (job # running) cs"
proof -
  let ?c = "\<lambda>r. row_key r = job \<and> sr_state r = Queued"
  let ?f = "\<lambda>r. r\<lparr>sr_state := Running, sr_started := Some now\<rparr>"
  let ?a = "a\<lparr>ao_step_cancel := List.insert (snd job) (ao_step_cancel a)\<rparr>"
  let ?d = "update_steps ?c ?f d"
  let ?live = "live(fst job \<mapsto> ?a)"
  note parts = svc_inv [unfolded svc_inv_def]
  have keys: "keys_ok d" by (rule keys_of_inv [OF svc_inv])
  have change: "job_change ?f" by (simp add: job_change_def row_key_def)
  have deps: "deps_ok (set (db_steps d)) r" if "r \<in> set (db_steps d)" "row_key r = job" for r
    using parts job that by (simp add: queue_ok_def)
  then have good: "good_update ?c ?f d"
    by (auto simp: good_update_def good_change_def row_key_def step_done_def)
  from mark obtain q where q: "q \<in> set (db_steps d)" "row_key q = job" "sr_state q = Queued"
    by (auto simp: mark_step_running_def rows_affected_def is_step_key filter_empty_conv Let_def split: if_splits)
  have "running_ok ?d (job # running)"
    unfolding running_ok_def
  proof (intro conjI allI)
    have run: "running_ok d running" using parts by blast
    have "sr_state r \<noteq> Running" if "r \<in> set (db_steps d)" "row_key r = job" for r
      using key_unique [OF keys that(1) q(1)] that(2) q(2,3) by simp
    then have "job \<notin> set running" using run unfolding running_ok_def by blast
    then show "distinct (job # running)" using run by (simp add: running_ok_def)
    show "k \<in> set (job # running) \<longleftrightarrow> (\<exists>r \<in> set (db_steps ?d). row_key r = k \<and> sr_state r = Running)" for k
    proof (cases "k = job")
      case True
      have "\<exists>r \<in> set (db_steps d). row_key r = k \<and>
          (if k = job \<and> sr_state r = Queued then sr_state (?f r) = Running else sr_state r = Running)"
        by (rule bexI [OF _ q(1)]) (simp add: q True)
      then show ?thesis unfolding running_ok_update [OF keys run change] using True by simp
    next
      case False
      then show ?thesis unfolding running_ok_update [OF keys run change] by (simp add: running_iff [OF run, of k])
    qed
  qed
  moreover have "db_ok ?d" using parts good by (simp add: db_ok_update_steps)
  moreover have "handles_ok ?live (job # running)"
  proof (rule handles_update [of live running])
    show handles: "handles_ok live running" using parts by simp
    show "x \<in> set (ao_step_cancel ?a)" if x: "(fst job, x) \<in> set (job # running)" for x
    proof (cases "(fst job, x) = job")
      case False
      then have "(fst job, x) \<in> set running" using x by simp
      with handles a(1) show ?thesis unfolding handles_ok_def by fastforce
    qed (metis List.set_insert active_op.select_convs(3) active_op.surjective active_op.update_convs(3) insertI1 snd_conv)
    show "(j, x) \<in> set running" if "j \<noteq> fst job" "(j, x) \<in> set (job # running)" for j x
      using that by auto
  qed (rule a(1))
  moreover have "cancelled_ok ?d ?live"
  proof (rule live_update(1) [where live = live and i = "fst job", OF a(1)])
    show "cancelled_ok ?d live"
      using parts a by (intro cancelled_ok_update [OF _ change]) (auto simp: row_key_def)
  qed simp
  moreover have "queue_ok ?d queue" using parts by (intro queue_ok_update [OF good]) simp
  moreover have "known_ok ?d ?live"
    using parts a(1) by (auto simp: known_ok_def)
  moreover have "fresh_ok ?d ?live cs"
  proof (rule live_update(3) [where live = live and i = "fst job", OF a(1)])
    show "fresh_ok ?d live cs"
      using parts not_fresh [OF svc_inv, of "fst job"] a(1)
      by (intro fresh_ok_update [OF _ change]) (auto simp: row_key_def)
  qed simp
  ultimately have inv1: "svc_inv ?d ?live queue (job # running) cs" by (simp add: svc_inv_def)
  from mark consider "d' = ?d"
    | "update_ops (\<lambda>r. or_id r = fst job \<and> (or_state r = Queued \<or> or_state r = Waiting_Confirmation))
        (\<lambda>r. r\<lparr>or_state := Running,
               or_started := (case or_started r of None \<Rightarrow> Some now | Some t \<Rightarrow> Some t)\<rparr>) ?d = Some d'"
    by (auto simp: mark_step_running_def is_step_key Let_def split: if_splits option.splits)
  then show ?thesis
  proof cases
    case 1
    then show ?thesis using inv1 by simp
  next
    case 2
    then show ?thesis by (rule inv_update_ops [OF inv1]) (simp_all add: keeps_row_def)
  qed
qed

lemma outcome_states:
  "outcome_state cancelled res \<noteq> Queued" "outcome_state cancelled res \<noteq> Running"
  "outcome_state cancelled res \<noteq> Skipped" "cancelled \<Longrightarrow> outcome_state cancelled res \<noteq> Waiting_Confirmation"
  by (auto simp: outcome_state_def split: option.splits run_error.splits)

lemma inv_finish:
  assumes svc_inv: "svc_inv d live queue running cs" and job: "job \<in> set running"
    and a: "live (fst job) = Some a" and st: "st \<notin> {Queued, Running}"
    "ao_cancel_requested a \<Longrightarrow> st \<noteq> Waiting_Confirmation"
  shows "svc_inv (finish_step now job st result err token d)
    (live(fst job \<mapsto> a\<lparr>ao_step_cancel := removeAll (snd job) (ao_step_cancel a)\<rparr>)) queue (remove1 job running) cs"
proof -
  let ?f = "\<lambda>r. r\<lparr>sr_state := st, sr_result := or_empty result, sr_error := or_empty err, sr_token := token,
             sr_completed := Some now\<rparr>"
  let ?c = "\<lambda>r. row_key r = job \<and> True"
  let ?a = "a\<lparr>ao_step_cancel := removeAll (snd job) (ao_step_cancel a)\<rparr>"
  let ?live = "live(fst job \<mapsto> ?a)"
  have d': "finish_step now job st result err token d = update_steps ?c ?f d"
    by (simp add: finish_step_def is_step_key [abs_def])
  note parts = svc_inv [unfolded svc_inv_def]
  have keys: "keys_ok d" by (rule keys_of_inv [OF svc_inv])
  have run: "running_ok d running" using parts by blast
  have change: "job_change ?f" by (simp add: job_change_def row_key_def)
  have row: "sr_state r = Running" if "r \<in> set (db_steps d)" "row_key r = job" for r
  proof -
    from job running_iff [OF run, of job] obtain q
      where q: "q \<in> set (db_steps d)" "row_key q = job" "sr_state q = Running" by blast
    then have "r = q" using key_unique [OF keys that(1)] that(2) by simp
    then show ?thesis using q(3) by simp
  qed
  then have good: "good_update ?c ?f d"
    by (auto simp: good_update_def good_change_def row_key_def step_done_def begun_def)
  have "running_ok (update_steps ?c ?f d) (remove1 job running)"
    unfolding running_ok_def
  proof (intro conjI allI)
    show distinct: "distinct (remove1 job running)" using run by (simp add: running_ok_def)
    have mem: "k \<in> set (remove1 job running) \<longleftrightarrow> k \<noteq> job \<and> k \<in> set running" for k
      using run by (auto simp: running_ok_def set_remove1_eq)
    show "k \<in> set (remove1 job running) \<longleftrightarrow>
        (\<exists>r \<in> set (db_steps (update_steps ?c ?f d)). row_key r = k \<and> sr_state r = Running)" for k
      unfolding running_ok_update [OF keys run change] mem running_iff [OF run] using st(1) by auto
  qed
  moreover have "db_ok (update_steps ?c ?f d)" using parts good by (simp add: db_ok_update_steps)
  moreover have "handles_ok ?live (remove1 job running)"
  proof (rule handles_update [of live running])
    show handles: "handles_ok live running" using parts by simp
    have mem: "k \<in> set (remove1 job running) \<Longrightarrow> k \<noteq> job \<and> k \<in> set running" for k
      using run by (simp add: running_ok_def set_remove1_eq)
    show "x \<in> set (ao_step_cancel ?a)" if x: "(fst job, x) \<in> set (remove1 job running)" for x
    proof -
      have "x \<noteq> snd job" "(fst job, x) \<in> set running" using mem [OF x] by auto
      moreover from this(2) handles a have "x \<in> set (ao_step_cancel a)"
        unfolding handles_ok_def by fastforce
      ultimately show ?thesis by simp
    qed
    show "(j, x) \<in> set running" if "(j, x) \<in> set (remove1 job running)" for j x
      using mem [OF that] by blast
  qed (rule a)
  moreover have "cancelled_ok (update_steps ?c ?f d) ?live"
  proof (rule live_update(1) [where live = live and i = "fst job", OF a])
    show "cancelled_ok (update_steps ?c ?f d) live"
      using parts a st by (intro cancelled_ok_update [OF _ change]) (auto simp: row_key_def)
  qed simp
  moreover have "queue_ok (update_steps ?c ?f d) queue" using parts by (intro queue_ok_update [OF good]) simp
  moreover have "known_ok (update_steps ?c ?f d) ?live" using parts a by (auto simp: known_ok_def)
  moreover have "fresh_ok (update_steps ?c ?f d) ?live cs"
  proof (rule live_update(3) [where live = live and i = "fst job", OF a])
    show "fresh_ok (update_steps ?c ?f d) live cs"
      using parts not_fresh [OF svc_inv, of "fst job"] a
      by (intro fresh_ok_update [OF _ change]) (auto simp: row_key_def)
  qed simp
  ultimately show ?thesis unfolding d' by (simp add: svc_inv_def)
qed

lemma one_row:
  assumes "keys_ok d" "r \<in> set (db_steps d)" "row_key r = job"
  shows "rows_affected (is_step job) d = 1"
proof -
  have "distinct (db_steps d)" using assms(1) by (simp add: keys_ok_def distinct_map)
  moreover have "{q \<in> set (db_steps d). is_step job q} = {r}"
    using key_unique [OF assms(1)] assms(2,3) by (auto simp: is_step_key)
  ultimately show ?thesis
    unfolding rows_affected_def by (metis distinct_card distinct_filter set_filter is_singletonI is_singleton_altdef)
qed

lemma service_ok_finish:
  assumes "service_ok s cs" "job \<in> set (sv_running s)"
  shows "service_ok (finish_run encode token now job res s) cs"
proof -
  note svc_inv = assms(1) [unfolded service_ok_def]
  obtain a where a: "sv_active s (fst job) = Some a"
    using svc_inv assms(2) by (auto simp: svc_inv_def handles_ok_def)
  have keys: "keys_ok (sv_db s)" by (rule keys_of_inv [OF svc_inv])
  have "running_ok (sv_db s) (sv_running s)" using svc_inv by (simp add: svc_inv_def)
  then obtain r where r: "r \<in> set (db_steps (sv_db s))" "row_key r = job"
    using assms(2) running_iff by blast
  have "rows_affected (is_step job) (sv_db s) = 1" by (rule one_row [OF keys r])
  then show ?thesis
    using inv_finish [OF svc_inv assms(2) a] outcome_states
    by (simp add: finish_run_def Let_def a service_ok_def queued_jobs_def)
qed

lemma service_ok_start:
  assumes "service_ok s cs" "job \<in> set (sv_held s)"
  shows "service_ok (start_run now job s) cs"
proof -
  let ?s = "s\<lparr>sv_held := remove1 job (sv_held s)\<rparr>"
  have less: "svc_inv d live queue running cs \<Longrightarrow> queue' \<subseteq> queue \<Longrightarrow> svc_inv d live queue' running cs"
    for d live queue queue' running cs by (auto simp: svc_inv_def queue_ok_def)
  have sub: "queued_jobs ?s \<subseteq> queued_jobs s"
    using set_remove1_subset by (fastforce simp: queued_jobs_def)
  have "service_ok ?s cs"
    using less [OF assms(1) [unfolded service_ok_def] sub] by (simp add: service_ok_def)
  moreover have "service_ok (?s\<lparr>sv_db := d,
      sv_active := (sv_active s)(fst job \<mapsto> a\<lparr>ao_step_cancel := List.insert (snd job) (ao_step_cancel a)\<rparr>),
      sv_running := job # sv_running s\<rparr>) cs"
    if "sv_active s (fst job) = Some a" "\<not> ao_cancel_requested a" "mark_step_running now job (sv_db s) = Some d" for a d
  proof -
    have "job \<in> queued_jobs s" using assms(2) by (simp add: queued_jobs_def)
    from less [OF inv_start [OF assms(1) [unfolded service_ok_def] that(1,2) this that(3)] sub]
    show ?thesis by (simp add: service_ok_def queued_jobs_def)
  qed
  ultimately show ?thesis
    unfolding start_run_def Let_def by (auto split: option.splits)
qed

section \<open>The other operations\<close>

lemma inv_live:
  assumes "svc_inv d live queue running cs" "live i = Some a" "ao_step_cancel a' = ao_step_cancel a"
    "ao_cancel_requested a' \<longrightarrow> ao_cancel_requested a"
  shows "svc_inv d (live(i \<mapsto> a')) queue running cs"
proof -
  note parts = assms(1) [unfolded svc_inv_def]
  have "handles_ok (live(i \<mapsto> a')) running"
  proof (rule handles_update [of live running i a])
    show handles: "handles_ok live running" using parts by simp
    show "x \<in> set (ao_step_cancel a')" if "(i, x) \<in> set running" for x
      using that handles assms(2,3) unfolding handles_ok_def by fastforce
  qed (simp_all add: assms(2))
  then show ?thesis using parts live_update [where live = live and i = i, OF assms(2,4)]
    unfolding svc_inv_def by blast
qed

lemma inv_more_jobs:
  assumes "svc_inv d live queue running cs" "live i \<noteq> None" "finite new"
    "\<And>x r. x \<in> new \<Longrightarrow> r \<in> set (db_steps d) \<Longrightarrow> row_key r = (i, x) \<Longrightarrow> deps_ok (set (db_steps d)) r"
  shows "svc_inv d live (queue \<union> Pair i ` new) running cs"
proof -
  have "i \<in> fst ` set (db_submissions d)" using assms(1,2) by (auto simp: svc_inv_def known_ok_def)
  then have "queue_ok d (queue \<union> Pair i ` new)"
    using assms(1) assms(4) unfolding svc_inv_def queue_ok_def by (metis UnE fst_conv imageE)
  then show ?thesis using assms(1) by (simp add: svc_inv_def)
qed

lemma find_steps_of: "find (\<lambda>r. sr_id r = x) (steps_of i d) = Some q \<Longrightarrow> q \<in> set (db_steps d) \<and> row_key q = (i, x)"
  using find_Some_in [of "\<lambda>r. sr_id r = x" "steps_of i d" q] by (auto simp: row_key_def)

lemma ready_deps:
  assumes "ready (steps_of i d) r" "sr_operation r = i"
  shows "deps_ok (set (db_steps d)) r"
  unfolding deps_ok_def
proof
  fix x
  assume "x \<in> set (sr_depends_on r)"
  then have "state_of (steps_of i d) x = Some Succeeded" using assms(1) by (simp add: ready_def list_all_iff)
  then obtain q where "find (\<lambda>r. sr_id r = x) (steps_of i d) = Some q" "sr_state q = Succeeded"
    by (auto simp: state_of_def)
  then show "\<exists>q \<in> set (db_steps d). row_key q = (sr_operation r, x) \<and> sr_state q = Succeeded"
    using find_steps_of [of x i d q] assms(2) by blast
qed

lemma service_ok_enqueue:
  assumes "service_ok s cs"
  shows "service_ok (enqueue_ready i s) cs"
proof (cases "get_op i (sv_db s)")
  case None
  then show ?thesis using assms by (simp add: enqueue_ready_def)
next
  case (Some r)
  show ?thesis
  proof (cases "sv_active s i")
    case None
    then show ?thesis using assms Some by (simp add: enqueue_ready_def)
  next
    case a: (Some a)
    let ?new = "map sr_id (startable (rec_steps r) (ao_enqueued a))"
    note svc_inv = assms [unfolded service_ok_def]
    have keys: "keys_ok (sv_db s)" by (rule keys_of_inv [OF svc_inv])
    have rows: "rec_steps r = steps_of i (sv_db s)" using get_op_Some [OF Some] by simp
    have "deps_ok (set (db_steps (sv_db s))) q"
      if "x \<in> set ?new" "q \<in> set (db_steps (sv_db s))" "row_key q = (i, x)" for x q
    proof -
      from that(1) obtain p where p: "p \<in> set (steps_of i (sv_db s))" "ready (steps_of i (sv_db s)) p" "x = sr_id p"
        by (auto simp: startable_def rows)
      then have "row_key p = row_key q" using that(3) by (simp add: row_key_def)
      then have "p = q" using key_unique [OF keys, of p q] p(1) that(2) by simp
      then show ?thesis using ready_deps [OF p(2)] p(1) by simp
    qed
    then have "svc_inv (sv_db s) (sv_active s) (queued_jobs s \<union> Pair i ` set ?new) (sv_running s) cs"
      using a by (intro inv_more_jobs [OF svc_inv]) auto
    then have "svc_inv (sv_db s) ((sv_active s)(i \<mapsto> a\<lparr>ao_enqueued := \<lambda>x. ao_enqueued a x \<or> x \<in> set ?new\<rparr>))
        (queued_jobs s \<union> Pair i ` set ?new) (sv_running s) cs"
      by (rule inv_live [where live = "sv_active s" and i = i and a = a]) (simp_all add: a)
    then have moved: "service_ok (s\<lparr>sv_active := (sv_active s)(i \<mapsto>
          a\<lparr>ao_enqueued := \<lambda>x. ao_enqueued a x \<or> x \<in> set ?new\<rparr>),
        sv_pending := sv_pending s @ map (Pair i) ?new\<rparr>) cs"
      by (simp add: service_ok_def queued_jobs_def Un_ac image_image)
    show ?thesis
    proof (cases "ao_cancel_requested a")
      case True
      then show ?thesis using assms a Some by (simp add: enqueue_ready_def)
    next
      case False
      then have "enqueue_ready i s = s\<lparr>sv_active := (sv_active s)(i \<mapsto>
          a\<lparr>ao_enqueued := \<lambda>x. ao_enqueued a x \<or> x \<in> set ?new\<rparr>),
        sv_pending := sv_pending s @ map (Pair i) ?new\<rparr>"
        using a Some by (simp add: enqueue_ready_def Let_def)
      then show ?thesis using moved by simp
    qed
  qed
qed

lemma service_ok_moves:
  assumes "service_ok s cs"
  shows "service_ok (dispatch capacity s) cs" "service_ok (receive s) cs"
proof -
  have "queued_jobs (dispatch capacity s) = queued_jobs s" "queued_jobs (receive s) = queued_jobs s"
    by (auto simp: queued_jobs_def dispatch_def receive_def split: list.splits)
  then show "service_ok (dispatch capacity s) cs" "service_ok (receive s) cs"
    using assms by (simp_all add: service_ok_def dispatch_def receive_def split: list.splits)
qed

lemma service_ok_activate:
  assumes "service_ok s cs" "spec \<in> set cs"
  shows "service_ok (activate now spec s) (remove1 spec cs)"
proof -
  note svc_inv = assms(1) [unfolded service_ok_def]
  note parts = svc_inv [unfolded svc_inv_def]
  let ?i = "sub_id spec"
  let ?a = "\<lparr>ao_specs = spec_map (sub_steps spec), ao_enqueued = (\<lambda>_. False), ao_step_cancel = [],
            ao_cancel_requested = False\<rparr>"
  let ?live = "(sv_active s)(?i \<mapsto> ?a)"
  have none: "sv_active s ?i = None" using parts assms(2) by (simp add: fresh_ok_def)
  have "handles_ok ?live (sv_running s)"
    using parts none unfolding handles_ok_def by (metis fun_upd_other option.distinct(1))
  moreover have "cancelled_ok (sv_db s) ?live" using parts by (auto simp: cancelled_ok_def)
  moreover have "known_ok (sv_db s) ?live" using parts assms(2) by (auto simp: known_ok_def fresh_ok_def)
  moreover have "fresh_ok (sv_db s) ?live (remove1 spec cs)"
  proof -
    have fresh: "fresh_ok (sv_db s) (sv_active s) cs" using parts by simp
    then have "sub_id c \<noteq> ?i" "c \<in> set cs" if "c \<in> set (remove1 spec cs)" for c
      using that assms(2) by (auto simp: fresh_ok_def distinct_map set_remove1_eq inj_on_def)
    moreover have "distinct (map sub_id (remove1 spec cs))"
      using fresh distinct_remove1 [of "map sub_id cs"] by (auto simp: fresh_ok_def distinct_map inj_on_def)
    ultimately show ?thesis using fresh unfolding fresh_ok_def by (metis fun_upd_other)
  qed
  ultimately show ?thesis using parts
    by (simp add: activate_def service_ok_def queued_jobs_def svc_inv_def)
qed

text \<open>Reconciling.\<close>

lemma inv_skip:
  assumes "svc_inv d live queue running cs"
  shows "svc_inv (skip_steps now i rows d) live queue running cs"
  unfolding skip_steps_def
proof (rule foldl_invariant [where P = "\<lambda>d. svc_inv d live queue running cs", OF assms])
  fix d' and r :: step_row
  assume "svc_inv d' live queue running cs"
  then have "svc_inv (update_steps (\<lambda>q. is_step (i, sr_id r) q \<and> sr_state q = Queued)
      (\<lambda>q. q\<lparr>sr_state := Skipped, sr_completed := Some now\<rparr>) d') live queue running cs"
    by (rule inv_calm_update) (simp add: calm_change_def row_key_def)
  with \<open>svc_inv d' live queue running cs\<close>
  show "svc_inv (if doomed rows r then update_steps (\<lambda>q. is_step (i, sr_id r) q \<and> sr_state q = Queued)
      (\<lambda>q. q\<lparr>sr_state := Skipped, sr_completed := Some now\<rparr>) d' else d') live queue running cs" by simp
qed

lemma inv_persist:
  assumes "svc_inv d live queue running cs" "persist_state encode decode now r st d = Some d'"
    "terminal st \<Longrightarrow> \<forall>q \<in> set (db_steps d). sr_operation q = or_id (rec_op r) \<longrightarrow> step_done (sr_state q)"
  shows "svc_inv d' live queue running cs"
proof -
  obtain result err where agg: "aggregate_result encode decode (rec_steps r) = (result, err)" by fastforce
  show ?thesis
    by (rule inv_update_ops [OF assms(1) assms(2) [unfolded persist_state_def agg Let_def prod.case]])
      (use assms(3) in \<open>auto simp: keeps_row_def\<close>)
qed

lemma inv_finish_active:
  assumes "svc_inv d live queue running cs" "\<forall>job \<in> set running. fst job \<noteq> i"
  shows "svc_inv d (live(i := None)) queue running cs"
  using assms by (auto simp: svc_inv_def handles_ok_def cancelled_ok_def known_ok_def fresh_ok_def)

lemma done_not_running:
  assumes "svc_inv d live queue running cs" "\<forall>q \<in> set (db_steps d). sr_operation q = i \<longrightarrow> step_done (sr_state q)"
  shows "\<forall>job \<in> set running. fst job \<noteq> i"
proof
  fix job
  assume "job \<in> set running"
  moreover have "running_ok d running" using assms(1) by (simp add: svc_inv_def)
  ultimately obtain r where "r \<in> set (db_steps d)" "row_key r = job" "sr_state r = Running"
    using running_iff by blast
  then show "fst job \<noteq> i" using assms(2) by (auto simp: row_key_def step_done_def)
qed

lemma service_ok_close:
  assumes "service_ok s cs" "\<forall>q \<in> set (db_steps (sv_db s)). sr_operation q = or_id (rec_op r) \<longrightarrow> step_done (sr_state q)"
  shows "service_ok (close_operation encode decode now r st s) cs"
proof (cases "persist_state encode decode now r st (sv_db s)")
  case None
  then show ?thesis using assms(1) by (simp add: close_operation_def)
next
  case (Some d)
  note svc_inv = assms(1) [unfolded service_ok_def]
  have inv1: "svc_inv d (sv_active s) (queued_jobs s) (sv_running s) cs"
    by (rule inv_persist [OF svc_inv Some]) (use assms(2) in blast)
  have "\<forall>job \<in> set (sv_running s). fst job \<noteq> or_id (rec_op r)" by (rule done_not_running [OF svc_inv assms(2)])
  from inv_finish_active [OF inv1 this] inv1 show ?thesis
    using Some by (auto simp: close_operation_def finish_active_def service_ok_def queued_jobs_def
        split: option.splits)
qed

lemma aggregate_terminal_done:
  assumes "terminal (aggregate_state rows)"
  shows "\<forall>q \<in> set rows. step_done (sr_state q)"
proof -
  have "\<not> list_ex (\<lambda>q. \<not> step_done (sr_state q)) rows"
  proof
    assume "list_ex (\<lambda>q. \<not> step_done (sr_state q)) rows"
    then have "aggregate_state rows \<in> {Running, Waiting_Confirmation}"
      by (auto simp: aggregate_state_cases)
    then show False using assms(1) by auto
  qed
  then show ?thesis by (simp add: list_ex_iff)
qed

lemma idle_done:
  assumes "svc_inv d live queue running cs" "\<And>x. (i, x) \<notin> set running"
    "\<And>r. r \<in> set (db_steps d) \<Longrightarrow> sr_operation r = i \<Longrightarrow> sr_state r \<noteq> Queued \<and> sr_state r \<noteq> Waiting_Confirmation"
  shows "\<forall>r \<in> set (db_steps d). sr_operation r = i \<longrightarrow> step_done (sr_state r)"
proof (intro ballI impI)
  fix r
  assume r: "r \<in> set (db_steps d)" "sr_operation r = i"
  have run: "running_ok d running" using assms(1) by (simp add: svc_inv_def)
  have "sr_state r \<noteq> Running"
    using assms(2) [of "sr_id r"] running_iff [OF run, of "(i, sr_id r)"] r by (auto simp: row_key_def)
  then show "step_done (sr_state r)" using assms(3) [OF r] by (simp add: step_done_def)
qed

lemma service_ok_reconcile:
  assumes "service_ok s cs"
  shows "service_ok (fst (reconcile encode decode now i s)) cs"
proof (cases "get_op i (sv_db s)")
  case None
  then show ?thesis using assms by (simp add: reconcile_def)
next
  case r: (Some r)
  note svc_inv = assms [unfolded service_ok_def]
  note parts = svc_inv [unfolded svc_inv_def]
  show ?thesis
  proof (cases "\<exists>a. sv_active s i = Some a \<and> ao_cancel_requested a")
    case True
    then obtain a where a: "sv_active s i = Some a" "ao_cancel_requested a" by blast
    show ?thesis
    proof (cases "ao_step_cancel a = []")
      case True
      have "\<forall>q \<in> set (db_steps (sv_db s)). sr_operation q = or_id (rec_op r) \<longrightarrow> step_done (sr_state q)"
      proof (rule idle_done [OF svc_inv])
        show "(or_id (rec_op r), x) \<notin> set (sv_running s)" for x
          using parts a True get_op_Some [OF r] by (fastforce simp: handles_ok_def)
        show "sr_state q \<noteq> Queued \<and> sr_state q \<noteq> Waiting_Confirmation"
          if "q \<in> set (db_steps (sv_db s))" "sr_operation q = or_id (rec_op r)" for q
          using parts a that get_op_Some [OF r] by (auto simp: cancelled_ok_def)
      qed
      from service_ok_close [OF assms this] show ?thesis using a True r by (simp add: reconcile_def)
    next
      case False
      then show ?thesis using assms a r by (simp add: reconcile_def)
    qed
  next
    case False
    then have not_cancelled: "(case sv_active s i of None \<Rightarrow> False | Some a \<Rightarrow> ao_cancel_requested a) = False"
      by (auto split: option.splits)
    let ?d = "skip_steps now i (rec_steps r) (sv_db s)"
    have inv1: "svc_inv ?d (sv_active s) (queued_jobs s) (sv_running s) cs" by (rule inv_skip [OF svc_inv])
    then have ok1: "service_ok (s\<lparr>sv_db := ?d\<rparr>) cs" by (simp add: service_ok_def queued_jobs_def)
    show ?thesis
    proof (cases "get_op i ?d")
      case None
      then show ?thesis using ok1 r not_cancelled by (simp add: reconcile_def Let_def)
    next
      case r1: (Some r1)
      let ?st = "aggregate_state (rec_steps r1)"
      show ?thesis
      proof (cases "terminal ?st")
        case True
        then have "\<forall>q \<in> set (db_steps ?d). sr_operation q = or_id (rec_op r1) \<longrightarrow> step_done (sr_state q)"
          using aggregate_terminal_done [OF True] get_op_Some [OF r1] by auto
        then have "service_ok (close_operation encode decode now r1 ?st (s\<lparr>sv_db := ?d\<rparr>)) cs"
          by (intro service_ok_close [OF ok1]) simp
        then show ?thesis using r r1 not_cancelled True by (simp add: reconcile_def Let_def)
      next
        case False
        have "service_ok (s\<lparr>sv_db := d1\<rparr>) cs" if "persist_state encode decode now r1 ?st ?d = Some d1" for d1
          using inv_persist [OF inv1 that] False by (simp add: service_ok_def queued_jobs_def)
        then show ?thesis using r r1 not_cancelled False ok1
          by (auto simp: reconcile_def Let_def split: option.splits)
      qed
    qed
  qed
qed

lemma cancel_steps_rows:
  assumes "r \<in> set (db_steps (cancel_steps now i d))" "sr_operation r = i"
  shows "sr_state r \<noteq> Queued \<and> sr_state r \<noteq> Waiting_Confirmation"
proof -
  obtain q where "q \<in> set (db_steps d)" "r = (if sr_operation q = i then
      (if sr_state q = Queued \<or> sr_state q = Waiting_Confirmation
       then q\<lparr>sr_state := Cancelled, sr_completed := Some now\<rparr> else q) else q)"
    using in_updated [OF assms(1) [unfolded cancel_steps_def]] by blast
  then show ?thesis using assms(2) by (auto split: if_splits)
qed

lemma service_ok_cancel:
  assumes "service_ok s cs"
  shows "service_ok (fst (cancel_op encode decode now i s)) cs"
proof (cases "get_op i (sv_db s)")
  case None
  then show ?thesis using assms by (simp add: cancel_op_def)
next
  case r: (Some r)
  note svc_inv = assms [unfolded service_ok_def]
  let ?d = "cancel_steps now i (sv_db s)"
  have inv1: "svc_inv ?d (sv_active s) (queued_jobs s) (sv_running s) cs"
    unfolding cancel_steps_def by (rule inv_calm_update [OF svc_inv]) (simp add: calm_change_def row_key_def)
  have ok1: "service_ok (s\<lparr>sv_db := ?d\<rparr>) cs" using inv1 by (simp add: service_ok_def queued_jobs_def)
  show ?thesis
  proof (cases "sv_active s i")
    case a: (Some a)
    let ?live = "(sv_active s)(i \<mapsto> a\<lparr>ao_cancel_requested := True\<rparr>)"
    note parts = inv1 [unfolded svc_inv_def]
    have "handles_ok ?live (sv_running s)"
    proof (rule handles_update [of "sv_active s" "sv_running s" i a])
      show handles: "handles_ok (sv_active s) (sv_running s)" using parts by simp
      show "x \<in> set (ao_step_cancel (a\<lparr>ao_cancel_requested := True\<rparr>))" if "(i, x) \<in> set (sv_running s)" for x
        using that handles a unfolding handles_ok_def by fastforce
    qed (simp_all add: a)
    moreover have "cancelled_ok ?d ?live"
      using parts cancel_steps_rows [of _ now i "sv_db s"] by (auto simp: cancelled_ok_def)
    moreover have "known_ok ?d ?live" "fresh_ok ?d ?live cs" using parts a by (auto simp: known_ok_def fresh_ok_def)
    ultimately have "svc_inv ?d ?live (queued_jobs s) (sv_running s) cs" using parts by (simp add: svc_inv_def)
    then show ?thesis using assms r a by (simp add: cancel_op_def Let_def service_ok_def queued_jobs_def)
  next
    case None
    have "service_ok (s\<lparr>sv_db := d1\<rparr>) cs"
      if cur: "get_op i ?d = Some cur" and "persist_state encode decode now cur Cancelled ?d = Some d1" for cur d1
    proof -
      have "\<forall>q \<in> set (db_steps ?d). sr_operation q = or_id (rec_op cur) \<longrightarrow> step_done (sr_state q)"
      proof (rule idle_done [OF inv1])
        show "(or_id (rec_op cur), x) \<notin> set (sv_running s)" for x
          using inv1 None get_op_Some [OF cur] by (fastforce simp: svc_inv_def handles_ok_def)
      qed (use cancel_steps_rows get_op_Some [OF cur] in blast)
      then have "svc_inv d1 (sv_active s) (queued_jobs s) (sv_running s) cs" by (intro inv_persist [OF inv1 that(2)])
      then show ?thesis by (simp add: service_ok_def queued_jobs_def)
    qed
    then show ?thesis using assms ok1 r None
      by (auto simp: cancel_op_def Let_def split: option.splits)
  qed
qed

lemma service_ok_resume:
  assumes "service_ok s cs" "resume_op ex i step token s = Inr s'"
  shows "service_ok s' cs"
proof -
  note svc_inv = assms(1) [unfolded service_ok_def]
  from assms(2) obtain r d where r: "get_op i (sv_db s) = Some r" "\<not> terminal (or_state (rec_op r))"
    and live: "\<And>a. sv_active s i = Some a \<Longrightarrow> \<not> ao_cancel_requested a"
    and d: "resume_tx (i, step) token (sv_db s) = Some d"
    and s': "s' = s\<lparr>sv_db := d, sv_active := (sv_active s)(i \<mapsto>
        (case sv_active s i of None \<Rightarrow> restore_active r | Some a \<Rightarrow> a)
          \<lparr>ao_cancel_requested := False,
           ao_specs := (ao_specs (case sv_active s i of None \<Rightarrow> restore_active r | Some a \<Rightarrow> a))
             (step \<mapsto> confirmed_spec token (ao_specs (case sv_active s i of None \<Rightarrow> restore_active r | Some a \<Rightarrow> a) step)),
           ao_enqueued := (ao_enqueued (case sv_active s i of None \<Rightarrow> restore_active r | Some a \<Rightarrow> a))(step := False)\<rparr>)\<rparr>"
    by (auto simp: resume_op_def Let_def split: if_split_asm option.split_asm)
  let ?a = "case sv_active s i of None \<Rightarrow> restore_active r | Some a \<Rightarrow> a"
  let ?a' = "?a\<lparr>ao_cancel_requested := False, ao_specs := (ao_specs ?a)(step \<mapsto> confirmed_spec token (ao_specs ?a step)),
           ao_enqueued := (ao_enqueued ?a)(step := False)\<rparr>"
  let ?live = "(sv_active s)(i \<mapsto> ?a')"
  let ?c = "\<lambda>r. is_step (i, step) r \<and> sr_state r = Waiting_Confirmation \<and> sr_token r = token \<and>
            list_ex (\<lambda>o'. or_id o' = i \<and> \<not> terminal (or_state o')) (db_ops (sv_db s))"
  let ?f = "\<lambda>r. r\<lparr>sr_state := Queued, sr_token := [], sr_error := empty_object, sr_completed := None\<rparr>"
  let ?d = "update_steps ?c ?f (sv_db s)"
  from d have one: "rows_affected ?c (sv_db s) = 1"
    and d1: "update_ops (\<lambda>o'. or_id o' = i \<and> \<not> terminal (or_state o'))
             (\<lambda>o'. o'\<lparr>or_state := Queued, or_completed := None\<rparr>) ?d = Some d"
    by (auto simp: resume_tx_def Let_def split: if_split_asm)
  from one obtain q where q: "q \<in> set (db_steps (sv_db s))" "row_key q = (i, step)" "sr_state q = Waiting_Confirmation"
  proof -
    from one have "filter ?c (db_steps (sv_db s)) \<noteq> []" by (auto simp: rows_affected_def)
    then obtain q where "q \<in> set (db_steps (sv_db s))" "?c q" by (auto simp: filter_empty_conv)
    then show ?thesis using that by (simp add: is_step_key)
  qed
  note parts = svc_inv [unfolded svc_inv_def]
  have keys: "keys_ok (sv_db s)" by (rule keys_of_inv [OF svc_inv])
  have change: "job_change ?f" by (simp add: job_change_def row_key_def)
  have good: "good_update ?c ?f (sv_db s)"
    by (auto simp: good_update_def good_change_def row_key_def step_done_def begun_def)
  have not_fresh: "i \<notin> sub_id ` set cs"
    using parts q by (fastforce simp: fresh_ok_def row_key_def)
  have known: "i \<in> fst ` set (db_submissions (sv_db s))"
  proof -
    have "i \<in> fst ` set (map row_key (db_steps (sv_db s)))" using q by force
    then show ?thesis using keys unfolding keys_ok_def by blast
  qed
  have run: "running_ok (sv_db s) (sv_running s)" using parts by blast
  have "running_ok ?d (sv_running s)"
    unfolding running_ok_def
  proof (intro conjI allI)
    show "distinct (sv_running s)" using run by (simp add: running_ok_def)
    show "k \<in> set (sv_running s) \<longleftrightarrow> (\<exists>r \<in> set (db_steps ?d). row_key r = k \<and> sr_state r = Running)" for k
      unfolding is_step_key running_ok_update [OF keys run change] running_iff [OF run]
      by (rule bex_cong [OF refl]) auto
  qed
  moreover have "handles_ok ?live (sv_running s)"
    unfolding handles_ok_def
  proof
    fix job
    assume "job \<in> set (sv_running s)"
    then obtain a where "sv_active s (fst job) = Some a" "snd job \<in> set (ao_step_cancel a)"
      using parts by (auto simp: handles_ok_def)
    then show "\<exists>b. ?live (fst job) = Some b \<and> snd job \<in> set (ao_step_cancel b)" by auto
  qed
  moreover have "cancelled_ok ?d ?live"
  proof (rule cancelled_ok_update [OF _ change])
    show "cancelled_ok (sv_db s) ?live" using parts by (auto simp: cancelled_ok_def)
  qed (auto simp: is_step_def split: if_splits)
  moreover have "queue_ok ?d (queued_jobs s)" using parts by (intro queue_ok_update [OF good]) simp
  moreover have "known_ok ?d ?live" using parts known by (auto simp: known_ok_def)
  moreover have "fresh_ok ?d ?live cs"
  proof (rule fresh_ok_update [OF _ change])
    show "fresh_ok (sv_db s) ?live cs" using parts not_fresh by (auto simp: fresh_ok_def)
  qed (use not_fresh in \<open>auto simp: is_step_def\<close>)
  moreover have "db_ok ?d" using parts good by (simp add: db_ok_update_steps)
  ultimately have "svc_inv ?d ?live (queued_jobs s) (sv_running s) cs" by (simp add: svc_inv_def)
  then have "svc_inv d ?live (queued_jobs s) (sv_running s) cs"
    by (rule inv_update_ops [OF _ d1]) (simp_all add: keeps_row_def)
  then show ?thesis unfolding s' by (simp add: service_ok_def queued_jobs_def)
qed

lemma step_op_known:
  assumes "keys_ok d" "r \<in> set (db_steps d)"
  obtains o' where "o' \<in> set (db_ops d)" "or_id o' = sr_operation r"
proof -
  have "fst (row_key r) \<in> fst ` set (map row_key (db_steps d))" using assms(2) by auto
  then have "sr_operation r \<in> set (map or_id (db_ops d))"
    using assms(1) unfolding keys_ok_def row_key_def by auto
  then show ?thesis using that by auto
qed

lemma inv_delete:
  assumes svc_inv: "svc_inv d live queue running cs"
    and terminal: "\<And>o'. o' \<in> set (db_ops d) \<Longrightarrow> or_id o' \<in> gone \<Longrightarrow> terminal (or_state o')"
  shows "svc_inv (d\<lparr>db_ops := filter (\<lambda>r. or_id r \<notin> gone) (db_ops d),
      db_steps := filter (\<lambda>r. sr_operation r \<notin> gone) (db_steps d)\<rparr>) live queue running cs" (is "svc_inv ?d _ _ _ _")
proof -
  note parts = svc_inv [unfolded svc_inv_def]
  have keys: "keys_ok d" by (rule keys_of_inv [OF svc_inv])
  have closed: "closed_ok d" using parts by (simp add: db_ok_def)
  have deps: "deps_ok (set (db_steps ?d)) r" if "deps_ok (set (db_steps d)) r" "sr_operation r \<notin> gone" for r
    using that(1)
  proof (rule deps_ok_mono)
    fix q
    assume "q \<in> set (db_steps d)" "sr_operation q = sr_operation r" "sr_state q = Succeeded"
    then show "\<exists>q' \<in> set (db_steps ?d). row_key q' = row_key q \<and> sr_state q' = Succeeded"
      using that(2) by auto
  qed
  have "keys_ok ?d"
    unfolding keys_ok_def
  proof (intro conjI)
    show "fst ` set (map row_key (db_steps ?d)) \<subseteq> set (map or_id (db_ops ?d))"
    proof
      fix i
      assume "i \<in> fst ` set (map row_key (db_steps ?d))"
      then have "i \<in> fst ` set (map row_key (db_steps d))" and keep: "i \<notin> gone" by (auto simp: row_key_def)
      then have "i \<in> set (map or_id (db_ops d))" using keys unfolding keys_ok_def by blast
      then show "i \<in> set (map or_id (db_ops ?d))" using keep by auto
    qed
  qed (use keys in \<open>auto simp: keys_ok_def distinct_map_filter\<close>)
  moreover have "states_ok ?d" using parts by (auto simp: db_ok_def states_ok_def)
  moreover have "order_ok ?d" using parts deps by (auto simp: db_ok_def order_ok_def)
  moreover have "closed_ok ?d" using closed by (auto simp: closed_ok_def)
  moreover have "running_ok ?d running"
  proof -
    have run: "running_ok d running" using parts by blast
    have "sr_operation r \<notin> gone" if r: "r \<in> set (db_steps d)" "sr_state r = Running" for r
    proof
      assume gone: "sr_operation r \<in> gone"
      obtain o' where o': "o' \<in> set (db_ops d)" "or_id o' = sr_operation r"
        by (rule step_op_known [OF keys r(1)])
      then have "step_done (sr_state r)" using closed terminal [OF o'(1)] gone r(1) by (auto simp: closed_ok_def)
      then show False using r(2) by (simp add: step_done_def)
    qed
    then have "(\<exists>r \<in> set (db_steps ?d). row_key r = k \<and> sr_state r = Running) \<longleftrightarrow>
        (\<exists>r \<in> set (db_steps d). row_key r = k \<and> sr_state r = Running)" for k by auto
    then show ?thesis using run unfolding running_ok_def by blast
  qed
  moreover have "cancelled_ok ?d live" using parts by (auto simp: cancelled_ok_def)
  moreover have "queue_ok ?d queue" using parts deps by (auto simp: queue_ok_def)
  moreover have "known_ok ?d live" using parts by (auto simp: known_ok_def)
  moreover have "fresh_ok ?d live cs" using parts by (auto simp: fresh_ok_def)
  moreover have "handles_ok live running" using parts by blast
  ultimately show ?thesis by (simp add: svc_inv_def db_ok_def)
qed

lemma service_ok_expire:
  assumes "service_ok s cs"
  shows "service_ok (s\<lparr>sv_db := delete_expired_operations now (sv_db s)\<rparr>) cs"
proof -
  note svc_inv = assms [unfolded service_ok_def]
  have keys: "keys_ok (sv_db s)" by (rule keys_of_inv [OF svc_inv])
  have "terminal (or_state p)" if "p \<in> set (db_ops (sv_db s))" "or_id p \<in> set (map or_id (expired_ops now (sv_db s)))" for p
  proof -
    from that(2) obtain q where "q \<in> set (expired_ops now (sv_db s))" "or_id q = or_id p" by auto
    then have "q \<in> set (db_ops (sv_db s))" "terminal (or_state q)" "or_id q = or_id p"
      by (auto simp: expired_ops_def dest!: in_set_takeD)
    then show ?thesis using op_unique [OF keys that(1)] by metis
  qed
  from inv_delete [OF svc_inv this] show ?thesis
    by (simp add: delete_expired_operations_def Let_def service_ok_def queued_jobs_def)
qed

lemma service_ok_sessions:
  assumes "service_ok s cs"
  shows "service_ok (s\<lparr>sv_db := (sv_db s)\<lparr>db_sessions := ss\<rparr>\<rparr>) cs"
  using assms unfolding service_ok_def svc_inv_def db_ok_def keys_ok_def states_ok_def order_ok_def closed_ok_def running_ok_def
    cancelled_ok_def queue_ok_def known_ok_def fresh_ok_def queued_jobs_def by simp

lemma db_ok_recover:
  assumes "db_ok d" "recover_interrupted now d = Some d'"
  shows "db_ok d' \<and> (\<forall>r \<in> set (db_steps d'). sr_state r \<noteq> Running)"
proof -
  let ?c = "\<lambda>o'. or_state o' = Queued \<or> or_state o' = Running \<or> or_state o' = Waiting_Confirmation \<and>
             list_ex (\<lambda>r. sr_operation r = or_id o' \<and> sr_state r = Running) (db_steps d)"
  let ?f = "\<lambda>o'. o'\<lparr>or_state := Interrupted, or_completed := Some now\<rparr>"
  from assms(2) obtain d1 where d1: "update_ops ?c ?f d = Some d1"
    and d': "d' = update_steps (\<lambda>r. (sr_state r = Queued \<or> sr_state r = Running \<or> sr_state r = Waiting_Confirmation) \<and>
              list_ex (\<lambda>o'. or_id o' = sr_operation r \<and> or_state o' = Interrupted) (db_ops d1))
           (\<lambda>r. r\<lparr>sr_state := Interrupted, sr_completed := Some now\<rparr>) d1" (is "_ = update_steps ?c1 ?f1 d1")
    by (auto simp: recover_interrupted_def split: option.splits)
  note ops = update_ops_db [OF d1]
  have parts: "keys_ok d" "order_ok d" "closed_ok d" "states_ok d" using assms(1) by (simp_all add: db_ok_def)
  have keeps: "keeps_row ?f" by (simp add: keeps_row_def)
  have good: "good_update ?c1 ?f1 d1"
    by (auto simp: good_update_def good_change_def row_key_def step_done_def begun_def)
  have ids: "map or_id (db_ops d1) = map or_id (db_ops d)" using ops by (auto simp: op_updated_id [OF keeps])
  have keys1: "keys_ok d1" by (rule keys_ok_cong [OF parts(1) ids]) (use ops in simp_all)
  have order1: "order_ok d1" using parts(2) ops by (simp add: order_ok_def)
  have covered: "sr_state r' = Interrupted \<or> step_done (sr_state r)"
    if o1: "o1 \<in> set (db_ops d1)" "terminal (or_state o1) \<or> sr_state r = Running"
      and r: "r \<in> set (db_steps d1)" "sr_operation r = or_id o1" "r' = (if ?c1 r then ?f1 r else r)" for o1 r r'
  proof -
    from o1(1) ops obtain p where p: "p \<in> set (db_ops d)" "o1 = (if ?c p then op_updated ?f p else p)" by auto
    have id: "or_id o1 = or_id p" using p(2) op_updated_id [OF keeps] by auto
    show ?thesis
    proof (cases "or_state o1 = Interrupted")
      case True
      then have "list_ex (\<lambda>o'. or_id o' = sr_operation r \<and> or_state o' = Interrupted) (db_ops d1)"
        using o1(1) r(2) by (auto simp: list_ex_iff)
      then show ?thesis using r(3) by (auto simp: step_done_def)
    next
      case False
      then have untouched: "\<not> ?c p" "o1 = p" using p(2) by (auto split: if_splits)
      show ?thesis
      proof (cases "terminal (or_state p)")
        case True
        then show ?thesis using parts(3) p(1) r(1,2) id ops by (simp add: closed_ok_def)
      next
        case False
        then have run: "sr_state r = Running" using o1(2) untouched(2) by simp
        then have "list_ex (\<lambda>r. sr_operation r = or_id p \<and> sr_state r = Running) (db_steps d)"
          using r(1,2) id ops by (auto simp: list_ex_iff)
        then have "or_state p = Skipped" using untouched(1) False by (cases "or_state p") auto
        moreover have "or_state p \<noteq> Skipped" using parts(4) p(1) by (simp add: states_ok_def)
        ultimately show ?thesis by contradiction
      qed
    qed
  qed
  have "closed_ok d'"
    unfolding closed_ok_def
  proof (intro ballI impI)
    fix o' r'
    assume o': "o' \<in> set (db_ops d')" "terminal (or_state o')"
      and r': "r' \<in> set (db_steps d')" "sr_operation r' = or_id o'"
    from o' obtain o1 where o1: "o1 \<in> set (db_ops d1)" "or_id o1 = or_id o'" "terminal (or_state o1)"
      by (auto simp: d' update_steps_ops)
    from in_updated [OF r'(1) [unfolded d']] obtain r
      where r: "r \<in> set (db_steps d1)" "r' = (if ?c1 r then ?f1 r else r)" by blast
    have "sr_operation r = or_id o1" using r(2) r'(2) o1(2) by (auto split: if_splits)
    from covered [OF o1(1) _ r(1) this r(2)] o1(3) have "sr_state r' = Interrupted \<or> step_done (sr_state r)" by blast
    then show "step_done (sr_state r')" using r(2) by (auto simp: step_done_def split: if_splits)
  qed
  moreover have "sr_state r' \<noteq> Running" if r': "r' \<in> set (db_steps d')" for r'
  proof
    assume run': "sr_state r' = Running"
    from in_updated [OF r' [unfolded d']] obtain r
      where r: "r \<in> set (db_steps d1)" "r' = (if ?c1 r then ?f1 r else r)" by blast
    then have run: "sr_state r = Running" "r' = r" using run' by (auto split: if_splits)
    obtain o1 where o1: "o1 \<in> set (db_ops d1)" "or_id o1 = sr_operation r"
      by (rule step_op_known [OF keys1 r(1)])
    from covered [OF o1(1) _ r(1) o1(2) [symmetric] r(2)] run show False by (auto simp: step_done_def)
  qed
  moreover have "keys_ok d'" unfolding d' by (rule keys_update_steps [OF good keys1])
  moreover have "states_ok d'" unfolding d' by (rule states_update_steps [OF states_update_ops [OF d1 parts(4)]])
  moreover have "order_ok d'" unfolding d' by (rule order_update_steps [OF good order1])
  ultimately show ?thesis by (simp add: db_ok_def)
qed

lemma inv_insert_submission:
  assumes svc_inv: "svc_inv d live queue running cs" and ins: "insert_submission i ses sha d = Some d'"
  shows "svc_inv d' live queue running cs"
proof -
  from ins have d': "d' = d\<lparr>db_submissions := db_submissions d @ [(i, sha)]\<rparr>"
    by (auto simp: insert_submission_def split: if_splits)
  show ?thesis
    using svc_inv unfolding d' svc_inv_def db_ok_def keys_ok_def states_ok_def order_ok_def closed_ok_def running_ok_def
      cancelled_ok_def queue_ok_def known_ok_def fresh_ok_def by (simp add: subset_insertI2)
qed

lemma inv_insert_op:
  assumes svc_inv: "svc_inv d live queue running cs" and ins: "insert_op r d = Some d'"
    and r: "or_id r \<in> fst ` set (db_submissions d)" "or_state r = Queued"
  shows "svc_inv d' live queue running cs"
proof -
  let ?r = "r\<lparr>or_sequence := 1, or_event_id := state_event (or_id r) 1\<rparr>"
  from ins have d': "d' = d\<lparr>db_ops := db_ops d @ [?r]\<rparr>" and new: "or_id r \<notin> or_id ` set (db_ops d)"
    by (auto simp: insert_op_def find_op_None split: if_splits)
  note parts = svc_inv [unfolded svc_inv_def db_ok_def]
  have "keys_ok d'" using parts new r(1) unfolding d' keys_ok_def by (simp add: subset_insertI2)
  moreover have "states_ok d'" using parts r(2) unfolding d' by (auto simp: states_ok_def)
  moreover have "closed_ok d'" using parts r(2) unfolding d' by (auto simp: closed_ok_def)
  moreover have "order_ok d'" using parts unfolding d' by (simp add: order_ok_def)
  ultimately show ?thesis using parts
    unfolding d' svc_inv_def db_ok_def running_ok_def cancelled_ok_def queue_ok_def known_ok_def fresh_ok_def by simp
qed

text \<open>The state of an operation whose steps are being inserted.\<close>

definition op_opening :: "bytes \<Rightarrow> op_db \<Rightarrow> bool" where
  "op_opening i d \<longleftrightarrow> (\<forall>o' \<in> set (db_ops d). or_id o' = i \<longrightarrow> or_state o' = Queued) \<and>
     (\<forall>r \<in> set (db_steps d). sr_operation r = i \<longrightarrow> sr_state r = Queued)"

lemma inv_insert_step:
  assumes svc_inv: "svc_inv d live queue running cs" and ins: "insert_step r d = Some d'"
    and r: "sr_state r = Queued" "sr_started r = None" and op: "op_opening (sr_operation r) d"
    and new: "sr_operation r \<notin> fst ` queue" "live (sr_operation r) = None"
  shows "svc_inv d' live queue running cs \<and> op_opening (sr_operation r) d' \<and> db_submissions d' = db_submissions d"
proof -
  from ins have d': "d' = d\<lparr>db_steps := db_steps d @ [r], db_ops := map (bump_for [r]) (db_ops d)\<rparr>"
    and known: "sr_operation r \<in> or_id ` set (db_ops d)"
    and unique: "row_key r \<notin> set (map row_key (db_steps d))"
    by (auto simp: insert_step_def find_op_None list_ex_iff row_key_def image_iff split: if_splits)
  note parts = svc_inv [unfolded svc_inv_def db_ok_def]
  have ids: "map or_id (db_ops d') = map or_id (db_ops d)" by (simp add: d' o_def)
  have steps: "db_steps d' = db_steps d @ [r]" "db_submissions d' = db_submissions d" by (simp_all add: d')
  have deps: "deps_ok (set (db_steps d')) q" if "deps_ok (set (db_steps d)) q" for q
    using that by (rule deps_ok_mono) (auto simp: steps)
  have "keys_ok d'"
    using parts known unique unfolding keys_ok_def ids steps by (auto simp: row_key_def)
  moreover have "states_ok d'" using parts by (auto simp: d' states_ok_def)
  moreover have "order_ok d'"
    using parts deps r by (auto simp: order_ok_def steps begun_def)
  moreover have "closed_ok d'"
    using parts op r by (auto simp: d' closed_ok_def op_opening_def)
  moreover have "running_ok d' running" using parts r unfolding running_ok_def steps by simp
  moreover have "cancelled_ok d' live" using parts new by (auto simp: cancelled_ok_def steps)
  moreover have "queue_ok d' queue"
  proof -
    have "row_key r \<notin> queue" using new(1) by (force simp: row_key_def)
    then show ?thesis using parts deps unfolding queue_ok_def steps(2) by (auto simp: steps(1))
  qed
  moreover have "known_ok d' live" using parts by (simp add: known_ok_def steps)
  moreover have "fresh_ok d' live cs" using parts r by (auto simp: fresh_ok_def steps)
  moreover have "op_opening (sr_operation r) d'" using op r by (auto simp: d' op_opening_def)
  ultimately show ?thesis using parts steps by (simp add: svc_inv_def db_ok_def)
qed

lemma inv_insert_steps:
  assumes "svc_inv d live queue running cs" "insert_steps rs d = Some d'"
    "\<And>r. r \<in> set rs \<Longrightarrow> sr_state r = Queued \<and> sr_started r = None \<and> sr_operation r = i"
    "op_opening i d" "i \<notin> fst ` queue" "live i = None"
  shows "svc_inv d' live queue running cs \<and> op_opening i d' \<and> db_submissions d' = db_submissions d"
  using assms
proof (induction rs arbitrary: d)
  case (Cons r rs)
  then obtain d1 where d1: "insert_step r d = Some d1" "insert_steps rs d1 = Some d'"
    by (auto split: option.splits)
  have r: "sr_operation r = i" "sr_state r = Queued" "sr_started r = None" using Cons.prems(3) by auto
  from inv_insert_step [OF Cons.prems(1) d1(1) r(2,3)] Cons.prems(4-6) r(1)
  have "svc_inv d1 live queue running cs" "op_opening i d1" "db_submissions d1 = db_submissions d" by simp_all
  then show ?case using Cons.IH [OF _ d1(2)] Cons.prems(3,5,6) by simp
qed simp

lemma queue_known: "queue_ok d queue \<Longrightarrow> fst ` queue \<subseteq> fst ` set (db_submissions d)"
  unfolding queue_ok_def by blast

lemma service_ok_submit:
  assumes ok: "service_ok s cs" and tx: "submit_tx order digest new_id now spec0 (sv_db s) = Some (Inr (Accepted d))"
  shows "service_ok (s\<lparr>sv_db := d\<rparr>) (named_spec (''op_'' @ new_id 0) spec0 # cs)"
proof -
  note svc_inv = ok [unfolded service_ok_def]
  from tx obtain spec d1 d2 where spec: "spec = named_spec (''op_'' @ new_id 0) spec0"
    and unknown: "map_of (db_submissions (sv_db s)) (sub_id spec) = None"
    and d1: "insert_submission (sub_id spec) (sub_session spec) (digest (canonical_spec spec)) (sv_db s) = Some d1"
    and d2: "insert_op (new_op_row now (digest (canonical_spec spec)) spec) d1 = Some d2"
    and d: "insert_steps (map (new_step_row now (sub_id spec))
       (zip (map (\<lambda>k. ''req_'' @ new_id (Suc k)) [0..<length (sub_steps spec)]) (sub_steps spec))) d2 = Some d"
    by (rule submit_tx_accepted) blast
  let ?i = "sub_id spec"
  have new: "?i \<notin> fst ` set (db_submissions (sv_db s))" using unknown by (simp add: map_of_eq_None_iff)
  note parts = svc_inv [unfolded svc_inv_def db_ok_def]
  have subs: "fst ` set (db_submissions d1) = insert ?i (fst ` set (db_submissions (sv_db s)))"
    and steps1: "db_steps d1 = db_steps (sv_db s)" "db_ops d1 = db_ops (sv_db s)"
    using d1 by (auto simp: insert_submission_def split: if_splits)
  have inv1: "svc_inv d1 (sv_active s) (queued_jobs s) (sv_running s) cs" by (rule inv_insert_submission [OF svc_inv d1])
  have inv2: "svc_inv d2 (sv_active s) (queued_jobs s) (sv_running s) cs"
    by (rule inv_insert_op [OF inv1 d2]) (simp_all add: new_op_row_def subs)
  have fresh_op: "?i \<notin> set (map or_id (db_ops (sv_db s)))" using parts new unfolding keys_ok_def by blast
  have "sr_operation r \<noteq> ?i" if "r \<in> set (db_steps (sv_db s))" for r
    using step_op_known [of "sv_db s" r] parts that fresh_op by (metis in_set_conv_nth length_map nth_map)
  moreover have "or_id o' \<noteq> ?i" if "o' \<in> set (db_ops (sv_db s))" for o' using fresh_op that by force
  ultimately have op_opening: "op_opening ?i d2"
    using d2 by (auto simp: op_opening_def insert_op_def new_op_row_def steps1 split: if_splits)
  have "svc_inv d (sv_active s) (queued_jobs s) (sv_running s) cs \<and> op_opening ?i d \<and> db_submissions d = db_submissions d2"
  proof (rule inv_insert_steps [OF inv2 d _ op_opening])
    show "?i \<notin> fst ` queued_jobs s" 
      using queue_known [of "sv_db s" "queued_jobs s"] parts new by blast
    show "sv_active s ?i = None" using parts new unfolding known_ok_def by blast
  qed (auto simp: new_step_row_def Let_def)
  moreover have "db_submissions d2 = db_submissions d1"
    using d2 by (auto simp: insert_op_def split: if_splits)
  moreover have "?i \<notin> sub_id ` set cs" using parts new by (auto simp: fresh_ok_def)
  moreover have "sv_active s ?i = None" using parts new unfolding known_ok_def by blast
  ultimately have "svc_inv d (sv_active s) (queued_jobs s) (sv_running s) (spec # cs)"
    using subs by (auto simp: svc_inv_def fresh_ok_def op_opening_def)
  then show ?thesis by (simp add: service_ok_def queued_jobs_def spec)
qed

section \<open>The invariant holds\<close>

lemma service_ok_restart:
  assumes "service_ok s cs" "start_service now (sv_db s) = Some s'"
  shows "service_ok s' []"
proof -
  from assms(2) obtain d where d: "recover_interrupted now (sv_db s) = Some d"
    and s': "s' = \<lparr>sv_db = d, sv_active = (\<lambda>_. None), sv_pending = [], sv_jobs = [], sv_held = [],
       sv_running = [], sv_events = []\<rparr>" by (auto simp: start_service_def)
  have "db_ok (sv_db s)" using assms(1) by (simp add: service_ok_def svc_inv_def)
  from db_ok_recover [OF this d] show ?thesis
    unfolding s' by (auto simp: service_ok_def svc_inv_def queued_jobs_def running_ok_def handles_ok_def
        cancelled_ok_def queue_ok_def known_ok_def fresh_ok_def)
qed

lemma act_service_ok:
  assumes "service_ok s cs" "act e a (s, cs) = Some (s', cs')"
  shows "service_ok s' cs'"
proof (cases a)
  case (Submit_Tx now new_id spec)
  with assms show ?thesis using service_ok_submit [OF assms(1)]
    by (auto simp del: append.simps split: option.splits sum.splits submission.splits)
next
  case (Activate now spec)
  with assms show ?thesis by (auto intro: service_ok_activate split: if_splits)
next
  case (Enqueue i)
  with assms show ?thesis by (auto intro: service_ok_enqueue)
next
  case Dispatch
  with assms show ?thesis by (auto intro: service_ok_moves)
next
  case Receive
  with assms show ?thesis by (auto intro: service_ok_moves)
next
  case (Start now job)
  with assms show ?thesis by (auto intro: service_ok_start split: if_splits)
next
  case (Finish now job token res)
  with assms show ?thesis by (auto intro: service_ok_finish split: if_splits)
next
  case (Reconcile now i)
  with assms show ?thesis by (auto intro: service_ok_reconcile)
next
  case (Cancel now i)
  with assms show ?thesis by (auto intro: service_ok_cancel)
next
  case (Resume ex i step token)
  with assms show ?thesis by (auto intro: service_ok_resume split: sum.splits)
next
  case (Expire now)
  with assms show ?thesis by (auto intro: service_ok_expire)
next
  case (Sessions ss)
  with assms show ?thesis by (auto intro: service_ok_sessions)
next
  case (Restart now)
  with assms show ?thesis by (auto intro: service_ok_restart)
qed

lemma reachable_service_ok: "reachable e w \<Longrightarrow> service_ok (fst w) (snd w)"
proof (induction rule: reachable.induct)
  case reachable_start
  show ?case
    by (simp add: service_ok_def svc_inv_def empty_service_def empty_db_def queued_jobs_def db_ok_def keys_ok_def
        states_ok_def order_ok_def closed_ok_def running_ok_def handles_ok_def cancelled_ok_def queue_ok_def
        known_ok_def fresh_ok_def)
next
  case (reachable_act w a w')
  then show ?case by (cases w; cases w') (auto dest: act_service_ok)
qed

fun run_actions :: "op_env \<Rightarrow> action list \<Rightarrow> world \<Rightarrow> world option" where
  "run_actions e [] w = Some w"
| "run_actions e (a # acts) w = (case act e a w of None \<Rightarrow> None | Some w' \<Rightarrow> run_actions e acts w')"

lemma run_actions_reachable: "run_actions e acts w = Some w' \<Longrightarrow> reachable e w \<Longrightarrow> reachable e w'"
  by (induction acts arbitrary: w) (auto split: option.splits intro: reachable_act)

end
