(* ===== verification/Operation_Safety.thy ===== *)
theory Operation_Safety
  imports Operation_Invariant
begin

text \<open>
  What the invariants of the operation service give its clients, in every reachable state, and two
  runs, computed piece by piece, in which the service comes to a standstill.
\<close>

lemma find_filter_id:
  "find (\<lambda>r. or_id r = i) (filter (\<lambda>r. or_id r \<notin> G) rs) = (if i \<in> G then None else find (\<lambda>r. or_id r = i) rs)"
  by (induction rs) auto

section \<open>Properties\<close>

definition sample_env :: op_env where
  "sample_env = \<lparr>en_order = (\<lambda>ks. ks), en_digest = (\<lambda>spec. sub_purpose spec), en_encode = (\<lambda>_. ''{}''),
     en_decode = (\<lambda>_. Some JNull), en_capacity = 8\<rparr>"

definition sample_step :: "bytes \<Rightarrow> bytes list \<Rightarrow> step_spec" where
  "sample_step i ds = \<lparr>ss_id = i, ss_tool = ''read'', ss_arguments = None, ss_depends_on = ds, ss_exclusive = False\<rparr>"

definition sample_spec :: "step_spec list \<Rightarrow> submit_spec" where
  "sample_spec steps = \<lparr>sub_run_id = ''op'', sub_id = ''op'', sub_session = ''s'', sub_workspace = ''w'',
     sub_request_id = [], sub_purpose = [], sub_steps = steps\<rparr>"

definition outcome :: "bool \<Rightarrow> run_error option \<Rightarrow> execute_result" where
  "outcome waiting err = \<lparr>er_result = [], er_waiting = waiting, er_token = ''t'', er_err = err\<rparr>"

text \<open>The pieces of one submission, and those of one run of a step, in the order the code runs them.\<close>

definition submit_actions :: "step_spec list \<Rightarrow> action list" where
  "submit_actions steps = [Sessions [(''s'', ''active'')], Submit_Tx 1 (\<lambda>_. []) (sample_spec steps),
     Activate 1 (sample_spec steps), Enqueue ''op'']"

definition run_step_actions :: "bytes \<Rightarrow> execute_result \<Rightarrow> action list" where
  "run_step_actions x res = [Dispatch, Receive, Start 2 (''op'', x), Finish 3 (''op'', x) ''n'' res,
     Reconcile 3 ''op'', Enqueue ''op'']"

definition chain :: "step_spec list" where
  "chain = [sample_step ''a'' [], sample_step ''b'' [''a''], sample_step ''c'' [''b'']]"

definition sample_world :: "action list \<Rightarrow> world" where
  "sample_world acts = (case run_actions sample_env acts (empty_service, []) of
     None \<Rightarrow> (empty_service, []) | Some w \<Rightarrow> w)"

lemma sample_reachable: "reachable sample_env (sample_world acts)"
  by (auto simp: sample_world_def reachable_start split: option.splits intro: run_actions_reachable)

definition step_states :: "world \<Rightarrow> (bytes \<times> op_state) list" where
  "step_states w = map (\<lambda>r. (sr_id r, sr_state r)) (steps_of ''op'' (sv_db (fst w)))"

definition op_state_of :: "world \<Rightarrow> op_state option" where
  "op_state_of w = map_option or_state (find_op ''op'' (sv_db (fst w)))"

text \<open>C23: A terminal operation never changes again: whatever the service, its workers, its clients or
  a restart do next, its state and its version stay, until housekeeping deletes it.\<close>

theorem terminal_operations_are_frozen:
  assumes "act e a (s, cs) = Some (s', cs')" "find_op i (sv_db s) = Some r" "terminal (or_state r)"
  shows "(\<exists>now. a = Expire now) \<and> find_op i (sv_db s') = None \<or>
    (\<exists>r'. find_op i (sv_db s') = Some r' \<and> version r' = version r)"
proof (cases "\<exists>now. a = Expire now")
  case False
  then show ?thesis using act_keeps [OF assms(1)] assms(2,3) unfolding keeps_def by blast
next
  case True
  then obtain now where now: "a = Expire now" by blast
  then have "find_op i (sv_db s') = None \<or> find_op i (sv_db s') = Some r"
    using assms(1,2) by (auto simp: delete_expired_operations_def Let_def find_op_def find_filter_id split: if_splits)
  then show ?thesis using now by auto
qed

lemma terminal_operations_are_frozen_witness:
  "\<exists>s s' r r'. act sample_env (Cancel 9 ''op'') (s, []) = Some (s', []) \<and> find_op ''op'' (sv_db s) = Some r \<and>
     or_state r = Succeeded \<and> find_op ''op'' (sv_db s') = Some r' \<and> version r' = version r"
proof -
  let ?w = "sample_world (submit_actions [sample_step ''a'' []] @ run_step_actions ''a'' (outcome False None))"
  have "op_state_of ?w = Some Succeeded" by code_simp
  then obtain r where r: "find_op ''op'' (sv_db (fst ?w)) = Some r" "or_state r = Succeeded"
    by (auto simp: op_state_of_def)
  have cs: "?w = (fst ?w, [])" by (rule prod_eqI) (simp, code_simp)
  obtain s' where s': "act sample_env (Cancel 9 ''op'') (fst ?w, []) = Some (s', [])" by simp
  from terminal_operations_are_frozen [OF s' r(1)] r s' show ?thesis by auto
qed

text \<open>C3: In every reachable state, whatever interleaving led there, a step that has been handed to an
  executor (or has gone any further) only has dependencies that succeeded.\<close>

theorem steps_start_after_their_dependencies:
  assumes "reachable e (s, cs)" "r \<in> set (db_steps (sv_db s))" "begun r"
  shows "\<forall>x \<in> set (sr_depends_on r). \<exists>q \<in> set (db_steps (sv_db s)).
    sr_operation q = sr_operation r \<and> sr_id q = x \<and> sr_state q = Succeeded"
proof -
  have "order_ok (sv_db s)"
    using reachable_service_ok [OF assms(1)] by (simp add: service_ok_def svc_inv_def db_ok_def)
  then have "deps_ok (set (db_steps (sv_db s))) r" using assms(2,3) by (simp add: order_ok_def)
  then show ?thesis unfolding deps_ok_def row_key_def by blast
qed

lemma steps_start_after_their_dependencies_witness:
  "\<exists>s r. reachable sample_env (s, []) \<and> r \<in> set (db_steps (sv_db s)) \<and> sr_state r = Running \<and>
     sr_depends_on r = [''a''] \<and> (\<exists>q \<in> set (db_steps (sv_db s)). sr_id q = ''a'' \<and> sr_state q = Succeeded)"
proof -
  let ?w = "sample_world (submit_actions chain @ run_step_actions ''a'' (outcome False None) @
     [Dispatch, Receive, Start 4 (''op'', ''b'')])"
  have cs: "?w = (fst ?w, [])" by (rule prod_eqI) (simp, code_simp)
  have reach: "reachable sample_env (fst ?w, [])" using sample_reachable cs by metis
  have "list_ex (\<lambda>r. sr_state r = Running \<and> sr_depends_on r = [''a'']) (db_steps (sv_db (fst ?w)))" by code_simp
  then obtain r where r: "r \<in> set (db_steps (sv_db (fst ?w)))" "sr_state r = Running" "sr_depends_on r = [''a'']"
    by (auto simp: list_ex_iff)
  from steps_start_after_their_dependencies [OF reach r(1)] r reach show ?thesis by (auto simp: begun_def)
qed

text \<open>In every reachable state no step of a terminal operation is still queued, running or waiting
  for the user.\<close>

theorem terminal_operations_have_no_open_step:
  assumes "reachable e (s, cs)" "find_op i (sv_db s) = Some r" "terminal (or_state r)"
  shows "\<forall>q \<in> set (steps_of i (sv_db s)). sr_state q \<noteq> Queued \<and> sr_state q \<noteq> Running \<and>
    sr_state q \<noteq> Waiting_Confirmation"
proof -
  have "closed_ok (sv_db s)"
    using reachable_service_ok [OF assms(1)] by (simp add: service_ok_def svc_inv_def db_ok_def)
  then show ?thesis using assms(2,3) find_op_Some [OF assms(2)] by (auto simp: closed_ok_def step_done_def)
qed

lemma terminal_operations_have_no_open_step_witness:
  "\<exists>s. reachable sample_env (s, []) \<and> map sr_state (steps_of ''op'' (sv_db s)) = [Cancelled, Cancelled, Cancelled] \<and>
     (\<forall>q \<in> set (steps_of ''op'' (sv_db s)). sr_state q \<noteq> Queued \<and> sr_state q \<noteq> Running \<and>
       sr_state q \<noteq> Waiting_Confirmation)"
proof -
  let ?w = "sample_world (submit_actions chain @ [Cancel 5 ''op'', Reconcile 5 ''op''])"
  have cs: "?w = (fst ?w, [])" by (rule prod_eqI) (simp, code_simp)
  have reach: "reachable sample_env (fst ?w, [])" using sample_reachable cs by metis
  have "op_state_of ?w = Some Cancelled" by code_simp
  then obtain r where r: "find_op ''op'' (sv_db (fst ?w)) = Some r" "or_state r = Cancelled"
    by (auto simp: op_state_of_def)
  moreover have "map sr_state (steps_of ''op'' (sv_db (fst ?w))) = [Cancelled, Cancelled, Cancelled]" by code_simp
  ultimately show ?thesis using terminal_operations_have_no_open_step [OF reach r(1)] reach by auto
qed

text \<open>In every reachable state the jobs in the hands of executors are pairwise different and are
  exactly the steps recorded as running, and the live operation of each has a handle to cancel it.\<close>

theorem one_worker_per_step:
  assumes "reachable e (s, cs)"
  shows "distinct (sv_running s) \<and>
    (\<forall>i x. (i, x) \<in> set (sv_running s) \<longleftrightarrow>
       (\<exists>r \<in> set (db_steps (sv_db s)). sr_operation r = i \<and> sr_id r = x \<and> sr_state r = Running)) \<and>
    (\<forall>(i, x) \<in> set (sv_running s). \<exists>a. sv_active s i = Some a \<and> x \<in> set (ao_step_cancel a))"
proof -
  have run: "running_ok (sv_db s) (sv_running s)" and handles: "handles_ok (sv_active s) (sv_running s)"
    using reachable_service_ok [OF assms] by (simp_all add: service_ok_def svc_inv_def)
  have "(i, x) \<in> set (sv_running s) \<longleftrightarrow>
      (\<exists>r \<in> set (db_steps (sv_db s)). sr_operation r = i \<and> sr_id r = x \<and> sr_state r = Running)" for i x
    unfolding running_iff [OF run] by (auto simp: row_key_def)
  then show ?thesis using run handles by (fastforce simp: running_ok_def handles_ok_def)
qed

lemma one_worker_per_step_witness:
  "\<exists>s. reachable sample_env (s, []) \<and> sv_running s = [(''op'', ''b''), (''op'', ''a'')] \<and> distinct (sv_running s)"
proof -
  let ?w = "sample_world (submit_actions [sample_step ''a'' [], sample_step ''b'' []] @
     [Dispatch, Receive, Start 4 (''op'', ''a''), Dispatch, Receive, Start 4 (''op'', ''b'')])"
  have cs: "?w = (fst ?w, [])" by (rule prod_eqI) (simp, code_simp)
  have reach: "reachable sample_env (fst ?w, [])" using sample_reachable cs by metis
  have "sv_running (fst ?w) = [(''op'', ''b''), (''op'', ''a'')]" by code_simp
  then show ?thesis using one_worker_per_step [OF reach] reach by blast
qed

text \<open>\<^verbatim>\<open>Resume\<close> only succeeds for a waiting step of an operation that is not terminal, with the token
  stored for that step, which is not blank; the step is queued again and the token is spent.\<close>

theorem resume_needs_the_token:
  assumes "resume_op ex i step token s = Inr s'"
  shows "trim_space token \<noteq> [] \<and>
    (\<exists>q \<in> set (db_steps (sv_db s)). sr_operation q = i \<and> sr_id q = step \<and>
      sr_state q = Waiting_Confirmation \<and> sr_token q = token) \<and>
    (\<exists>p \<in> set (db_ops (sv_db s)). or_id p = i \<and> \<not> terminal (or_state p)) \<and>
    (\<forall>q \<in> set (db_steps (sv_db s')). sr_operation q = i \<longrightarrow> sr_id q = step \<longrightarrow>
      sr_state q = Waiting_Confirmation \<longrightarrow> sr_token q \<noteq> token)"
proof -
  from assms obtain r q where nonblank: "trim_space token \<noteq> []"
    and r: "get_op i (sv_db s) = Some r" "\<not> terminal (or_state (rec_op r))"
    and q: "find (\<lambda>q. sr_id q = step) (rec_steps r) = Some q"
      "sr_state q = Waiting_Confirmation" "sr_token q = token"
    by (auto simp: resume_op_def Let_def split: if_split_asm option.split_asm)
  have op: "rec_op r \<in> set (db_ops (sv_db s))" "or_id (rec_op r) = i" "rec_steps r = steps_of i (sv_db s)"
    using get_op_Some [OF r(1)] by auto
  then have row: "q \<in> set (db_steps (sv_db s))" "sr_operation q = i" "sr_id q = step"
    using find_steps_of [of step i "sv_db s" q] q(1) by (simp_all add: row_key_def)
  let ?c = "\<lambda>r. is_step (i, step) r \<and> sr_state r = Waiting_Confirmation \<and> sr_token r = token \<and>
            list_ex (\<lambda>o'. or_id o' = i \<and> \<not> terminal (or_state o')) (db_ops (sv_db s))"
  from resume_op_db [OF assms] have steps: "db_steps (sv_db s') = db_steps (update_steps ?c
      (\<lambda>r. r\<lparr>sr_state := Queued, sr_token := [], sr_error := empty_object, sr_completed := None\<rparr>) (sv_db s))"
    by (auto simp: resume_tx_def Let_def dest: update_ops_db split: if_splits)
  have live: "list_ex (\<lambda>o'. or_id o' = i \<and> \<not> terminal (or_state o')) (db_ops (sv_db s))"
    using op r(2) by (auto simp: list_ex_iff)
  have "sr_state q' \<noteq> Waiting_Confirmation \<or> sr_token q' \<noteq> token"
    if "q' \<in> set (db_steps (sv_db s'))" "sr_operation q' = i" "sr_id q' = step" for q'
  proof -
    from in_updated [OF that(1) [unfolded steps]] obtain q0
      where q0: "q' = (if ?c q0 then q0\<lparr>sr_state := Queued, sr_token := [], sr_error := empty_object,
        sr_completed := None\<rparr> else q0)" by blast
    show ?thesis
    proof (cases "?c q0")
      case True
      then show ?thesis using q0 by simp
    next
      case False
      with q0 have "q' = q0" by (rule trans [OF _ if_not_P])
      then show ?thesis using False live that(2,3) by (simp add: is_step_def)
    qed
  qed
  then show ?thesis using nonblank row q op r(2) by blast
qed

lemma resume_needs_the_token_witness:
  "\<exists>s s'. resume_op False ''op'' ''a'' ''t'' s = Inr s' \<and> trim_space ''t'' \<noteq> [] \<and>
     map sr_state (steps_of ''op'' (sv_db s)) = [Waiting_Confirmation]"
proof -
  let ?w = "sample_world (submit_actions [sample_step ''a'' []] @ run_step_actions ''a'' (outcome True None))"
  have "is_ok (resume_op False ''op'' ''a'' ''t'' (fst ?w))" by code_simp
  then obtain s' where s': "resume_op False ''op'' ''a'' ''t'' (fst ?w) = Inr s'" by (auto simp: is_ok_iff)
  moreover have "map sr_state (steps_of ''op'' (sv_db (fst ?w))) = [Waiting_Confirmation]" by code_simp
  moreover have "trim_space ''t'' \<noteq> []" using resume_needs_the_token [OF s'] by (rule conjunct1)
  ultimately show ?thesis by (intro exI conjI)
qed

text \<open>The dependencies of the recorded steps of an operation.\<close>

definition row_deps :: "step_row list \<Rightarrow> bytes \<Rightarrow> bytes list" where
  "row_deps rows i = (case find (\<lambda>r. sr_id r = i) rows of None \<Rightarrow> [] | Some r \<Rightarrow> sr_depends_on r)"

lemma find_by_id:
  "distinct (map sr_id rows) \<Longrightarrow> r \<in> set rows \<Longrightarrow> find (\<lambda>q. sr_id q = sr_id r) rows = Some r"
  by (induction rows) auto

text \<open>As long as steps of an acyclic operation are queued and every other one has succeeded, some
  queued step is ready: the scheduler cannot come to a standstill before a step fails.\<close>

theorem some_step_is_ready:
  assumes "distinct (map sr_id rows)" "valid_graph (set (map sr_id rows)) (row_deps rows)"
    "\<forall>q \<in> set rows. sr_state q = Queued \<or> sr_state q = Succeeded" "\<exists>q \<in> set rows. sr_state q = Queued"
  shows "\<exists>r \<in> set rows. sr_state r = Queued \<and> ready rows r"
proof -
  let ?D = "sr_id ` {r \<in> set rows. sr_state r = Succeeded}"
  from assms(4) obtain q where q: "q \<in> set rows" "sr_state q = Queued" by blast
  have key: "r = r'" if "r \<in> set rows" "r' \<in> set rows" "sr_id r = sr_id r'" for r r'
    using assms(1) that by (auto simp: distinct_map inj_on_def)
  have "sr_id q \<notin> ?D" using q key by fastforce
  moreover have "sr_id q \<in> set (map sr_id rows)" using q by simp
  ultimately obtain n where n: "n \<in> set (map sr_id rows)" "n \<notin> ?D" "set (row_deps rows n) \<subseteq> ?D"
    using valid_graph_progress [OF assms(2)] by blast
  from n(1) obtain r where r: "r \<in> set rows" "n = sr_id r" by auto
  have queued: "sr_state r = Queued" using assms(3) n(2) r by auto
  have "state_of rows x = Some Succeeded" if "x \<in> set (sr_depends_on r)" for x
  proof -
    have "x \<in> ?D" using n(3) that find_by_id [OF assms(1) r(1)] by (auto simp: row_deps_def r(2))
    then obtain p where "p \<in> set rows" "sr_state p = Succeeded" "x = sr_id p" by blast
    then show ?thesis using find_by_id [OF assms(1)] by (simp add: state_of_def)
  qed
  then have "ready rows r" by (simp add: ready_def list_all_iff)
  then show ?thesis using r(1) queued by blast
qed

lemma some_step_is_ready_witness:
  "\<exists>r \<in> set (steps_of ''op'' (sv_db (fst (sample_world (submit_actions chain))))).
     sr_state r = Queued \<and> ready (steps_of ''op'' (sv_db (fst (sample_world (submit_actions chain))))) r"
proof -
  let ?rows = "steps_of ''op'' (sv_db (fst (sample_world (submit_actions chain))))"
  have ids: "map sr_id ?rows = [''a'', ''b'', ''c'']" by code_simp
  have deps: "map (row_deps ?rows) [''a'', ''b'', ''c''] = [[], [''a''], [''b'']]" by code_simp
  have states: "map sr_state ?rows = [Queued, Queued, Queued]" by code_simp
  have "finished {''a'', ''b'', ''c''} (row_deps ?rows) (([] @ [''a'']) @ [''b''])"
    by (intro finished.intros) (use deps in auto)
  then have "finished {''a'', ''b'', ''c''} (row_deps ?rows) ((([] @ [''a'']) @ [''b'']) @ [''c''])"
    by (rule finished.intros) (use deps in auto)
  then have "acyclic (dep_edges {''a'', ''b'', ''c''} (row_deps ?rows))"
    by (auto dest!: finished_acyclic simp: insert_commute)
  then have graph: "valid_graph (set (map sr_id ?rows)) (row_deps ?rows)"
    using deps unfolding ids by (auto simp: valid_graph_def closed_deps_def insert_commute)
  have "set (map sr_state ?rows) = {Queued}" unfolding states by simp
  then have queued: "sr_state q = Queued" if "q \<in> set ?rows" for q
    using that by (metis image_eqI list.set_map singletonD)
  have "?rows \<noteq> []" using ids by auto
  then have "\<exists>q \<in> set ?rows. sr_state q = Queued" using queued by (meson list.set_sel(1))
  moreover have "distinct (map sr_id ?rows)" unfolding ids by simp
  ultimately show ?thesis using some_step_is_ready [OF _ graph] queued by blast
qed

text \<open>The whole work of a service that has nothing left to do.\<close>

definition idle :: "world \<Rightarrow> bool" where
  "idle w \<longleftrightarrow> sv_pending (fst w) = [] \<and> sv_jobs (fst w) = [] \<and> sv_held (fst w) = [] \<and> sv_running (fst w) = []"

text \<open>A failed step only takes its direct dependents with it: of a chain a, b, c whose first step
  fails, b is skipped but c stays queued, nothing is left for any worker to do, and the operation
  stays running.\<close>

theorem failed_chain_never_finishes:
  "let w = sample_world (submit_actions chain @ run_step_actions ''a'' (outcome False (Some (Other_Error ''e'')))) in
   step_states w = [(''a'', Failed), (''b'', Skipped), (''c'', Queued)] \<and>
   op_state_of w = Some Running \<and> idle w"
  by code_simp

text \<open>Step identifiers are checked after trimming but stored as given: a dependency on the trimmed
  identifier of a step is accepted, and never satisfied.\<close>

theorem untrimmed_identifier_blocks_dependents:
  "let steps = [sample_step '' a'' [], sample_step ''b'' [''a'']];
       w = sample_world (submit_actions steps @ run_step_actions '' a'' (outcome False None)) in
   validate_spec (\<lambda>ks. ks) (sample_spec steps) = Some (Inr ()) \<and>
   step_states w = [('' a'', Succeeded), (''b'', Queued)] \<and> op_state_of w = Some Running \<and> idle w"
  by code_simp

end
