(* ===== verification/Shell_Scanner.thy ===== *)
theory Shell_Scanner
  imports Prelude
begin

text \<open>
  The byte scanner of \<^verbatim>\<open>internal/security/commands.go\<close> that splits a compound shell command into
  independently reviewed segments: \<^verbatim>\<open>commandSegments\<close> and \<^verbatim>\<open>quotedHeredocCommandEnd\<close>.
  The scanner's local variables are the record \<open>scan\<close>; one turn of its loop is \<open>scan_step\<close>,
  which says whether the scanner rejects, returns or goes on at which index.
  The lemmas below it say what the scanner follows: its quotes and escapes are those of the automaton
  \<open>quote_mode\<close>, no substitution that is active there is accepted, and the segments cover the whole
  command. What the shell itself reads is the matter of \<open>Shell_Reading\<close>.
\<close>

section \<open>The scanner\<close>

record command_segment =
  seg_command :: bytes
  seg_operator :: bytes

record scan =
  sc_segments :: "command_segment list"
  sc_start :: nat
  sc_quote :: "char option"
  sc_escaped :: bool
  sc_last :: bytes

datatype step_result =
    Reject
  | Return "command_segment list"
  | Continue nat scan

text \<open>\<^verbatim>\<open>segments, start, quote, escaped, lastOperator\<close> before the loop.\<close>

definition scan_init :: scan where
  "scan_init = \<lparr>sc_segments = [], sc_start = 0, sc_quote = None, sc_escaped = False, sc_last = []\<rparr>"

text \<open>The closure \<^verbatim>\<open>appendSegment\<close>; \<^const>\<open>None\<close> is its result \<^verbatim>\<open>false\<close>.\<close>

definition append_segment :: "bytes \<Rightarrow> nat \<Rightarrow> bytes \<Rightarrow> scan \<Rightarrow> scan option" where
  "append_segment command end operator st =
     (let segment = trim_space (slice (sc_start st) end command) in
      if segment = [] then None
      else Some (st\<lparr>sc_segments := sc_segments st @ [\<lparr>seg_command = segment, seg_operator = operator\<rparr>],
                    sc_last := operator\<rparr>))"

text \<open>\<^verbatim>\<open>index+1 < len(command) && command[index+1] == c\<close>.\<close>

definition next_is :: "bytes \<Rightarrow> nat \<Rightarrow> char \<Rightarrow> bool" where
  "next_is command index c \<longleftrightarrow> index + 1 < length command \<and> command ! (index + 1) = c"

section \<open>Quoted here-documents\<close>

text \<open>The loop over the delimiter: the offset of the closing quote, \<^const>\<open>None\<close> when a line
  end or the end of the command comes first.\<close>

fun delimiter_length :: "char \<Rightarrow> bytes \<Rightarrow> nat option" where
  "delimiter_length q [] = None"
| "delimiter_length q (c # s) =
     (if c = q then Some 0
      else if c = CHR 0x0A \<or> c = CHR 0x0D then None
      else map_option Suc (delimiter_length q s))"

text \<open>The loop over the lines of the body, on the text from the cursor on: whether a line
  equal to the delimiter comes with nothing but white space after it.\<close>

function body_closes :: "bytes \<Rightarrow> bytes \<Rightarrow> bool" where
  "body_closes delimiter rest =
     (let line_text = takeWhile (\<lambda>c. c \<noteq> CHR 0x0A) rest;
          has_newline = (CHR 0x0A \<in> set rest);
          next = (if has_newline then drop (length line_text + 1) rest else []);
          line = trim_suffix line_text [CHR 0x0D]
      in if line = delimiter then blank next
         else if has_newline then body_closes delimiter next
         else False)"
  by pat_completeness auto
termination
  by (relation "measure (\<lambda>(delimiter, rest). length rest)") (auto dest: length_pos_if_in_set)

declare body_closes.simps [simp del]

definition heredoc_end :: "bytes \<Rightarrow> nat \<Rightarrow> nat option" where
  "heredoc_end command operator_index =
     (if operator_index + 3 \<ge> length command \<or> command ! operator_index \<noteq> CHR ''<''
         \<or> command ! (operator_index + 1) \<noteq> CHR ''<'' then None
      else let quote = command ! (operator_index + 2) in
        if quote \<noteq> CHR 0x27 \<and> quote \<noteq> CHR 0x22 then None
        else let delimiter_start = operator_index + 3 in
          case delimiter_length quote (drop delimiter_start command) of
            None \<Rightarrow> None
          | Some n \<Rightarrow>
              if n = 0 then None
              else let delimiter = slice delimiter_start (delimiter_start + n) command;
                       after = dropWhile (\<lambda>c. c = CHR '' '' \<or> c = CHR 0x09)
                                 (drop (delimiter_start + n + 1) command)
                   in case after of
                        [] \<Rightarrow> None
                      | c # rest \<Rightarrow>
                          if c = CHR 0x0A then
                            (if body_closes delimiter rest then Some (length command) else None)
                          else if c = CHR 0x0D then
                            (case rest of
                               [] \<Rightarrow> None
                             | d # rest' \<Rightarrow>
                                 if d \<noteq> CHR 0x0A then None
                                 else if body_closes delimiter rest' then Some (length command) else None)
                          else None)"

section \<open>One turn of the loop\<close>

text \<open>The bytes outside quotes: the second \<^verbatim>\<open>switch current\<close>. In the cases that store a
  segment, \<^const>\<open>None\<close> from \<^const>\<open>append_segment\<close> is the \<^verbatim>\<open>return nil, true\<close>.\<close>

definition cut :: "bytes \<Rightarrow> nat \<Rightarrow> bytes \<Rightarrow> nat \<Rightarrow> scan \<Rightarrow> step_result" where
  "cut command index operator next st =
     (case append_segment command index operator st of
        None \<Rightarrow> Reject
      | Some st' \<Rightarrow> Continue next (st'\<lparr>sc_start := next\<rparr>))"

definition scan_plain :: "bytes \<Rightarrow> nat \<Rightarrow> scan \<Rightarrow> step_result" where
  "scan_plain command index st =
     (let current = command ! index in
      if current = CHR 0x5C then Continue (index + 1) (st\<lparr>sc_escaped := True\<rparr>)
      else if current = CHR 0x27 \<or> current = CHR 0x22 then Continue (index + 1) (st\<lparr>sc_quote := Some current\<rparr>)
      else if current = CHR ''|'' then
        (if next_is command index (CHR ''|'') then cut command index ''||'' (index + 2) st
         else cut command index ''|'' (index + 1) st)
      else if current = CHR ''<'' then
        (case heredoc_end command index of
           Some end \<Rightarrow>
             (case append_segment command end [] st of
                None \<Rightarrow> Reject
              | Some st' \<Rightarrow> Return (sc_segments st'))
         | None \<Rightarrow>
             if next_is command index (CHR ''<'') then Reject else Continue (index + 1) st)
      else if current = CHR 0x60 then Reject
      else if current = CHR 0x0A then
        (if blank (slice (sc_start st) index command)
         then Continue (index + 1) (st\<lparr>sc_start := index + 1\<rparr>)
         else cut command index [CHR 0x0A] (index + 1) st)
      else if current = CHR 0x0D then
        (let next = (if next_is command index (CHR 0x0A) then index + 2 else index + 1) in
         if blank (slice (sc_start st) index command)
         then Continue next (st\<lparr>sc_start := next\<rparr>)
         else cut command index [CHR 0x0A] next st)
      else if current = CHR ''$'' then
        (if next_is command index (CHR ''('') then Reject else Continue (index + 1) st)
      else if current = CHR ''&'' then
        (if next_is command index (CHR ''&'') then cut command index ''&&'' (index + 2) st else Reject)
      else if current = CHR '';'' then cut command index '';'' (index + 1) st
      else Continue (index + 1) st)"

text \<open>The bytes inside double quotes.\<close>

definition scan_double :: "bytes \<Rightarrow> nat \<Rightarrow> scan \<Rightarrow> step_result" where
  "scan_double command index st =
     (let current = command ! index in
      if current = CHR 0x5C then Continue (index + 1) (st\<lparr>sc_escaped := True\<rparr>)
      else if current = CHR 0x22 then Continue (index + 1) (st\<lparr>sc_quote := None\<rparr>)
      else if current = CHR 0x60 then Reject
      else if current = CHR ''$'' \<and> next_is command index (CHR ''('') then Reject
      else Continue (index + 1) st)"

definition scan_step :: "bytes \<Rightarrow> nat \<Rightarrow> scan \<Rightarrow> step_result" where
  "scan_step command index st =
     (if sc_escaped st then Continue (index + 1) (st\<lparr>sc_escaped := False\<rparr>)
      else if sc_quote st = Some (CHR 0x27) then
        Continue (index + 1) (if command ! index = CHR 0x27 then st\<lparr>sc_quote := None\<rparr> else st)
      else if sc_quote st = Some (CHR 0x22) then scan_double command index st
      else scan_plain command index st)"

lemmas scan_defs = scan_step_def scan_double_def scan_plain_def cut_def append_segment_def Let_def

lemma scan_step_progress: "scan_step command index st = Continue j st' \<Longrightarrow> index < j"
  by (auto simp: scan_defs split: if_splits option.splits)

section \<open>The loop and its end\<close>

text \<open>The code after the loop.\<close>

definition scan_finish :: "bytes \<Rightarrow> scan \<Rightarrow> command_segment list option" where
  "scan_finish command st =
     (if sc_quote st \<noteq> None \<or> sc_escaped st then None
      else let tail = trim_space (drop (sc_start st) command) in
        if tail \<noteq> [] then Some (sc_segments st @ [\<lparr>seg_command = tail, seg_operator = []\<rparr>])
        else if sc_last st \<in> {''|'', ''&&'', ''||'', '';''} then None
        else if sc_segments st = [] then None
        else Some (sc_segments st))"

function scan_loop :: "bytes \<Rightarrow> nat \<Rightarrow> scan \<Rightarrow> command_segment list option" where
  "scan_loop command index st =
     (if index < length command then
        (case scan_step command index st of
           Reject \<Rightarrow> None
         | Return segments \<Rightarrow> Some segments
         | Continue j st' \<Rightarrow> scan_loop command j st')
      else scan_finish command st)"
  by pat_completeness auto
termination
  by (relation "measure (\<lambda>(command, index, st). length command - index)")
    (auto dest: scan_step_progress)

declare scan_loop.simps [simp del]

text \<open>\<^verbatim>\<open>commandSegments\<close>: \<^const>\<open>None\<close> is the pair \<^verbatim>\<open>nil, true\<close> (unsafe), \<open>Some segments\<close> the
  pair \<^verbatim>\<open>segments, false\<close>.\<close>

definition command_segments :: "bytes \<Rightarrow> command_segment list option" where
  "command_segments command = scan_loop command 0 scan_init"

definition has_unsafe_shell_operator :: "bytes \<Rightarrow> bool" where
  "has_unsafe_shell_operator command \<longleftrightarrow> command_segments command = None"

section \<open>The quoting the scanner follows\<close>

text \<open>What the scanner takes the byte for that follows a prefix of the command.\<close>

datatype quote_mode = Plain | Single | Double | PlainEsc | DoubleEsc

fun quote_step :: "quote_mode \<Rightarrow> char \<Rightarrow> quote_mode" where
  "quote_step Plain c =
     (if c = CHR 0x5C then PlainEsc else if c = CHR 0x27 then Single
      else if c = CHR 0x22 then Double else Plain)"
| "quote_step Single c = (if c = CHR 0x27 then Plain else Single)"
| "quote_step Double c = (if c = CHR 0x5C then DoubleEsc else if c = CHR 0x22 then Plain else Double)"
| "quote_step PlainEsc c = Plain"
| "quote_step DoubleEsc c = Double"

definition mode_at :: "bytes \<Rightarrow> nat \<Rightarrow> quote_mode" where
  "mode_at command i = foldl quote_step Plain (take i command)"

lemma mode_at_0 [simp]: "mode_at command 0 = Plain"
  by (simp add: mode_at_def)

lemma mode_at_Suc: "i < length command \<Longrightarrow> mode_at command (Suc i) = quote_step (mode_at command i) (command ! i)"
  by (simp add: mode_at_def take_Suc_conv_app_nth)

text \<open>A substitution starts here, as far as these quotes go.\<close>

definition substitution_at :: "bytes \<Rightarrow> nat \<Rightarrow> bool" where
  "substitution_at command i \<longleftrightarrow>
     mode_at command i \<in> {Plain, Double} \<and>
     (command ! i = CHR 0x60 \<or> command ! i = CHR ''$'' \<and> next_is command i (CHR ''(''))"

definition heredoc_at :: "bytes \<Rightarrow> nat \<Rightarrow> bool" where
  "heredoc_at command i \<longleftrightarrow> mode_at command i = Plain \<and> heredoc_end command i \<noteq> None"

text \<open>The mode the scanner's variables stand for.\<close>

definition scan_mode :: "scan \<Rightarrow> quote_mode" where
  "scan_mode st =
     (if sc_quote st = Some (CHR 0x22) then (if sc_escaped st then DoubleEsc else Double)
      else if sc_quote st = None then (if sc_escaped st then PlainEsc else Plain)
      else Single)"

definition scan_quotes :: "bytes \<Rightarrow> nat \<Rightarrow> scan \<Rightarrow> bool" where
  "scan_quotes command i st \<longleftrightarrow>
     sc_quote st \<in> {None, Some (CHR 0x27), Some (CHR 0x22)} \<and>
     (sc_quote st = Some (CHR 0x27) \<longrightarrow> \<not> sc_escaped st) \<and>
     mode_at command i = scan_mode st"

lemma scan_quotes_init: "scan_quotes command 0 scan_init"
  by (simp add: scan_quotes_def scan_init_def scan_mode_def)

lemma append_segment_quotes:
  "append_segment command end operator st = Some st' \<Longrightarrow>
   sc_quote st' = sc_quote st \<and> sc_escaped st' = sc_escaped st \<and> sc_start st' = sc_start st"
  by (auto simp: append_segment_def Let_def split: if_splits)

lemma next_is_nth: "next_is command i c \<Longrightarrow> Suc i < length command \<and> command ! Suc i = c"
  by (simp add: next_is_def)

lemma cut_Continue:
  "cut command i operator next st = Continue j st' \<Longrightarrow>
   j = next \<and> sc_quote st' = sc_quote st \<and> sc_escaped st' = sc_escaped st"
  by (auto simp: cut_def dest!: append_segment_quotes split: option.splits)

text \<open>What a turn outside quotes that goes on may have read, and what it did to the quoting.\<close>

definition plain_turn :: "bytes \<Rightarrow> nat \<Rightarrow> scan \<Rightarrow> nat \<Rightarrow> scan \<Rightarrow> bool" where
  "plain_turn command i st j st' \<longleftrightarrow>
     (command ! i = CHR 0x5C \<and> j = Suc i \<and> sc_quote st' = sc_quote st \<and> sc_escaped st') \<or>
     (command ! i \<in> {CHR 0x27, CHR 0x22} \<and> j = Suc i \<and> sc_quote st' = Some (command ! i)
       \<and> sc_escaped st' = sc_escaped st) \<or>
     (command ! i \<notin> {CHR 0x5C, CHR 0x27, CHR 0x22, CHR 0x60} \<and>
       (command ! i = CHR ''$'' \<longrightarrow> \<not> next_is command i (CHR ''('')) \<and>
       sc_quote st' = sc_quote st \<and> sc_escaped st' = sc_escaped st \<and>
       (j = Suc i \<or> j = Suc (Suc i) \<and> Suc i < length command \<and>
          command ! Suc i \<in> {CHR ''|'', CHR ''&'', CHR 0x0A}))"

lemma scan_plain_turn:
  "scan_plain command i st = Continue j st' \<Longrightarrow> plain_turn command i st j st'"
  unfolding scan_plain_def Let_def plain_turn_def
  by (simp split: if_splits option.splits) (auto dest!: cut_Continue next_is_nth)

lemma scan_plain_quotes:
  assumes inv: "scan_quotes command i st" and plain: "sc_quote st = None" "\<not> sc_escaped st"
    and i: "i < length command" and step: "scan_plain command i st = Continue j st'"
  shows "scan_quotes command j st' \<and> (\<forall>k. i \<le> k \<and> k < j \<longrightarrow> \<not> substitution_at command k)"
proof -
  from inv plain have m: "mode_at command i = Plain"
    by (simp add: scan_quotes_def scan_mode_def)
  from scan_plain_turn [OF step] consider
      (esc) "command ! i = CHR 0x5C" "j = Suc i" "sc_quote st' = None" "sc_escaped st'"
    | (quote) "command ! i \<in> {CHR 0x27, CHR 0x22}" "j = Suc i" "sc_quote st' = Some (command ! i)"
        "\<not> sc_escaped st'"
    | (other) "command ! i \<notin> {CHR 0x5C, CHR 0x27, CHR 0x22, CHR 0x60}"
        "command ! i = CHR ''$'' \<longrightarrow> \<not> next_is command i (CHR ''('')"
        "sc_quote st' = None" "\<not> sc_escaped st'"
        "j = Suc i \<or> j = Suc (Suc i) \<and> Suc i < length command \<and>
          command ! Suc i \<in> {CHR ''|'', CHR ''&'', CHR 0x0A}"
    using plain by (auto simp: plain_turn_def)
  then show ?thesis
  proof cases
    case esc
    then have "\<not> substitution_at command i" by (simp add: substitution_at_def)
    moreover have "scan_quotes command j st'"
      using esc m i by (simp add: scan_quotes_def scan_mode_def mode_at_Suc)
    ultimately show ?thesis using esc(2) by (metis less_Suc_eq_le le_antisym)
  next
    case quote
    then have "\<not> substitution_at command i" by (auto simp: substitution_at_def)
    moreover have "scan_quotes command j st'"
      using quote m i by (auto simp: scan_quotes_def scan_mode_def mode_at_Suc)
    ultimately show ?thesis using quote(2) by (metis less_Suc_eq_le le_antisym)
  next
    case other
    have no_i: "\<not> substitution_at command i" using other(1,2) by (auto simp: substitution_at_def)
    have m1: "mode_at command (Suc i) = Plain" using other(1) m i by (simp add: mode_at_Suc)
    from other(5) show ?thesis
    proof
      assume "j = Suc i"
      moreover from this have "scan_quotes command j st'"
        using m1 other(3,4) by (simp add: scan_quotes_def scan_mode_def)
      ultimately show ?thesis using no_i by (metis less_Suc_eq_le le_antisym)
    next
      assume j: "j = Suc (Suc i) \<and> Suc i < length command \<and>
        command ! Suc i \<in> {CHR ''|'', CHR ''&'', CHR 0x0A}"
      then have "mode_at command j = Plain" using m1 by (auto simp: mode_at_Suc)
      then have "scan_quotes command j st'" using other(3,4) by (simp add: scan_quotes_def scan_mode_def)
      moreover have "\<not> substitution_at command (Suc i)" using j by (auto simp: substitution_at_def)
      ultimately show ?thesis using no_i j by (metis less_Suc_eq le_antisym less_Suc_eq_le)
    qed
  qed
qed

lemma scan_double_quotes:
  assumes inv: "scan_quotes command i st" and double: "sc_quote st = Some (CHR 0x22)" "\<not> sc_escaped st"
    and i: "i < length command" and step: "scan_double command i st = Continue j st'"
  shows "j = Suc i \<and> scan_quotes command j st' \<and> \<not> substitution_at command i"
proof -
  from inv double have m: "mode_at command i = Double"
    by (simp add: scan_quotes_def scan_mode_def)
  show ?thesis using step double i m
    by (auto simp: scan_double_def Let_def scan_quotes_def scan_mode_def mode_at_Suc substitution_at_def
        split: if_splits)
qed

lemma scan_quotes_unescape:
  assumes "scan_quotes command i st" "sc_escaped st" "i < length command"
  shows "scan_quotes command (Suc i) (st\<lparr>sc_escaped := False\<rparr>) \<and> \<not> substitution_at command i"
proof -
  from assms(1,2) have "sc_quote st = None \<or> sc_quote st = Some (CHR 0x22)"
    by (auto simp: scan_quotes_def)
  then show ?thesis
    by (elim disjE) (use assms in \<open>simp_all add: scan_quotes_def scan_mode_def mode_at_Suc substitution_at_def\<close>)
qed

lemma scan_quotes_single:
  assumes "scan_quotes command i st" "sc_quote st = Some (CHR 0x27)" "i < length command"
  shows "scan_quotes command (Suc i) (if command ! i = CHR 0x27 then st\<lparr>sc_quote := None\<rparr> else st) \<and>
    \<not> substitution_at command i"
  using assms by (simp add: scan_quotes_def scan_mode_def mode_at_Suc substitution_at_def)

lemma scan_step_quotes:
  assumes inv: "scan_quotes command i st" and i: "i < length command"
    and step: "scan_step command i st = Continue j st'"
  shows "scan_quotes command j st' \<and> (\<forall>k. i \<le> k \<and> k < j \<longrightarrow> \<not> substitution_at command k)"
proof -
  consider (esc) "sc_escaped st" | (single) "\<not> sc_escaped st" "sc_quote st = Some (CHR 0x27)"
    | (double) "\<not> sc_escaped st" "sc_quote st = Some (CHR 0x22)" | (plain) "\<not> sc_escaped st" "sc_quote st = None"
    using inv by (auto simp: scan_quotes_def)
  then show ?thesis
  proof cases
    case esc
    then have "j = Suc i \<and> st' = st\<lparr>sc_escaped := False\<rparr>"
      using step by (simp add: scan_step_def)
    with scan_quotes_unescape [OF inv esc i] show ?thesis by (auto simp: less_Suc_eq)
  next
    case single
    then have "j = Suc i \<and> st' = (if command ! i = CHR 0x27 then st\<lparr>sc_quote := None\<rparr> else st)"
      using step by (simp add: scan_step_def)
    with scan_quotes_single [OF inv single(2) i] show ?thesis by (metis le_antisym less_Suc_eq_le)
  next
    case double
    then have "scan_double command i st = Continue j st'" using step by (simp add: scan_step_def)
    from scan_double_quotes [OF inv double(2,1) i this] show ?thesis by (auto simp: less_Suc_eq)
  next
    case plain
    then have "scan_plain command i st = Continue j st'" using step by (simp add: scan_step_def)
    from scan_plain_quotes [OF inv plain(2,1) i this] show ?thesis .
  qed
qed

lemma scan_step_Return:
  assumes "scan_step command i st = Return segments" and "scan_quotes command i st"
  shows "heredoc_at command i"
  using assms
  by (auto simp: scan_step_def scan_double_def scan_plain_def cut_def Let_def heredoc_at_def
      scan_quotes_def scan_mode_def split: if_splits option.splits)

lemma scan_loop_no_substitution:
  "scan_loop command i st = Some segments \<Longrightarrow> scan_quotes command i st \<Longrightarrow> i \<le> k \<Longrightarrow> k < length command \<Longrightarrow>
   \<forall>h \<le> k. \<not> heredoc_at command h \<Longrightarrow> \<not> substitution_at command k"
proof (induction command i st rule: scan_loop.induct)
  case (1 command i st)
  from "1.prems" have i: "i < length command" by simp
  show ?case
  proof (cases "scan_step command i st")
    case Reject
    with "1.prems" i show ?thesis by (simp add: scan_loop.simps [of command i st])
  next
    case (Return segs)
    then have "heredoc_at command i" using "1.prems" scan_step_Return by blast
    with "1.prems" show ?thesis by blast
  next
    case (Continue j st')
    from scan_step_quotes [OF "1.prems"(2) i Continue]
    have st': "scan_quotes command j st'" and upto: "k < j \<Longrightarrow> \<not> substitution_at command k"
      using "1.prems"(3) by auto
    have "scan_loop command j st' = Some segments"
      using "1.prems"(1) i Continue by (simp add: scan_loop.simps [of command i st])
    then show ?thesis
      using "1.IH" [OF i Continue _ st' _ "1.prems"(4,5)] upto by (cases "k < j") auto
  qed
qed

lemma command_segments_no_substitution:
  assumes "command_segments command = Some segments" and "k < length command"
    and "\<forall>h \<le> k. \<not> heredoc_at command h"
  shows "\<not> substitution_at command k"
  using scan_loop_no_substitution [OF _ scan_quotes_init, of command segments k] assms
  by (simp add: command_segments_def)

section \<open>The segments cover the command\<close>

text \<open>\<open>covers p segments\<close>: the text \<open>p\<close> is a row of pieces, each the raw text of one segment with
  its operator, or a blank line. Nothing else stands between two segments.\<close>

definition line_ends :: "bytes list" where
  "line_ends = [[CHR 0x0A], [CHR 0x0D], [CHR 0x0D, CHR 0x0A]]"

definition operator_texts :: "bytes \<Rightarrow> bytes list" where
  "operator_texts operator = (if operator = [CHR 0x0A] then line_ends else [operator])"

inductive covers :: "bytes \<Rightarrow> command_segment list \<Rightarrow> bool" where
  covers_start: "covers [] []"
| covers_cut: "covers p segments \<Longrightarrow> trim_space raw \<noteq> [] \<Longrightarrow> text \<in> set (operator_texts operator) \<Longrightarrow>
    covers (p @ raw @ text) (segments @ [\<lparr>seg_command = trim_space raw, seg_operator = operator\<rparr>])"
| covers_skip: "covers p segments \<Longrightarrow> blank raw \<Longrightarrow> text \<in> set line_ends \<Longrightarrow>
    covers (p @ raw @ text) segments"

definition covers_all :: "bytes \<Rightarrow> command_segment list \<Rightarrow> bool" where
  "covers_all command segments \<longleftrightarrow>
     (\<exists>p raw done. command = p @ raw \<and> covers p done \<and>
        (if blank raw then segments = done
         else segments = done @ [\<lparr>seg_command = trim_space raw, seg_operator = []\<rparr>]))"

definition scan_covers :: "bytes \<Rightarrow> nat \<Rightarrow> scan \<Rightarrow> bool" where
  "scan_covers command i st \<longleftrightarrow>
     sc_start st \<le> i \<and> i \<le> length command \<and> covers (take (sc_start st) command) (sc_segments st)"

lemma take_two_slices: "a \<le> b \<Longrightarrow> b \<le> c \<Longrightarrow> take c xs = take a xs @ slice a b xs @ slice b c xs"
  by (simp add: slice_append take_slice)

lemma append_segment_Some:
  "append_segment command end operator st = Some st' \<longleftrightarrow>
   trim_space (slice (sc_start st) end command) \<noteq> [] \<and>
   st' = st\<lparr>sc_segments := sc_segments st @
      [\<lparr>seg_command = trim_space (slice (sc_start st) end command), seg_operator = operator\<rparr>],
      sc_last := operator\<rparr>"
  by (auto simp: append_segment_def Let_def)

lemma cut_covers:
  assumes "scan_covers command i st" and "cut command i operator next st = Continue j st'"
    and "i \<le> next" "next \<le> length command" and "slice i next command \<in> set (operator_texts operator)"
  shows "scan_covers command j st'"
proof -
  let ?raw = "slice (sc_start st) i command"
  from assms have j: "j = next" and st': "st' = st\<lparr>sc_segments := sc_segments st @
      [\<lparr>seg_command = trim_space ?raw, seg_operator = operator\<rparr>], sc_last := operator, sc_start := next\<rparr>"
    and raw: "trim_space ?raw \<noteq> []"
    by (auto simp: cut_def append_segment_Some split: option.splits)
  have "take next command = take (sc_start st) command @ ?raw @ slice i next command"
    using assms by (intro take_two_slices) (auto simp: scan_covers_def)
  then show ?thesis
    using covers_cut [OF _ raw assms(5), of "take (sc_start st) command" "sc_segments st"] assms j st'
    by (simp add: scan_covers_def)
qed

lemma skip_covers:
  assumes "scan_covers command i st" and "blank (slice (sc_start st) i command)"
    and "i \<le> next" "next \<le> length command" and "slice i next command \<in> set line_ends"
  shows "scan_covers command next (st\<lparr>sc_start := next\<rparr>)"
proof -
  have "take next command = take (sc_start st) command @ slice (sc_start st) i command @ slice i next command"
    using assms by (intro take_two_slices) (auto simp: scan_covers_def)
  then show ?thesis
    using covers_skip [OF _ assms(2,5), of "take (sc_start st) command" "sc_segments st"] assms
    by (simp add: scan_covers_def)
qed

lemma slice_pair: "Suc i < length s \<Longrightarrow> slice i (Suc (Suc i)) s = [s ! i, s ! Suc i]"
  using slice_append [of i "Suc i" "Suc (Suc i)" s] by (simp add: slice_Suc)

lemma scan_covers_go_on:
  "scan_covers command i st \<Longrightarrow> i < length command \<Longrightarrow> sc_start st' = sc_start st \<Longrightarrow>
   sc_segments st' = sc_segments st \<Longrightarrow> scan_covers command (Suc i) st'"
  by (simp add: scan_covers_def)

lemma scan_plain_covers:
  assumes inv: "scan_covers command i st" and i: "i < length command"
    and step: "scan_plain command i st = Continue j st'"
  shows "scan_covers command j st'"
proof -
  note cc = cut_covers [OF inv] and sk = skip_covers [OF inv] and go = scan_covers_go_on [OF inv i]
  note texts = operator_texts_def line_ends_def slice_Suc slice_pair i
  show ?thesis
    using step unfolding scan_plain_def Let_def
    by (simp split: if_splits option.splits)
      (auto dest!: next_is_nth intro: go cc sk simp: texts Suc_le_eq)
qed

lemma scan_step_covers:
  assumes inv: "scan_covers command i st" and i: "i < length command"
    and step: "scan_step command i st = Continue j st'"
  shows "scan_covers command j st'"
  using step scan_plain_covers [OF inv i] scan_covers_go_on [OF inv i]
  by (auto simp: scan_step_def scan_double_def Let_def split: if_splits)

lemma heredoc_end_Some: "heredoc_end command i = Some e \<Longrightarrow> e = length command"
  unfolding heredoc_end_def Let_def
  by (simp split: if_splits option.splits list.splits)

lemma cut_not_Return [simp]: "cut command i operator next st \<noteq> Return segments"
  by (simp add: cut_def split: option.splits)

lemma scan_step_ReturnD:
  assumes "scan_step command i st = Return segments"
  shows "\<exists>st'. append_segment command (length command) [] st = Some st' \<and> segments = sc_segments st'"
proof -
  have "scan_plain command i st = Return segments"
    using assms by (simp add: scan_step_def scan_double_def Let_def split: if_splits)
  then show ?thesis
    unfolding scan_plain_def Let_def by (simp split: if_splits option.splits) (auto dest: heredoc_end_Some)
qed

lemma scan_step_Return_covers:
  assumes inv: "scan_covers command i st" and step: "scan_step command i st = Return segments"
  shows "covers_all command segments"
proof -
  from scan_step_ReturnD [OF step] have "trim_space (drop (sc_start st) command) \<noteq> []"
    and "segments = sc_segments st @ [\<lparr>seg_command = trim_space (drop (sc_start st) command), seg_operator = []\<rparr>]"
    by (auto simp: append_segment_Some slice_def)
  moreover have "command = take (sc_start st) command @ drop (sc_start st) command" by simp
  ultimately show ?thesis
    using inv unfolding covers_all_def scan_covers_def blank_def by metis
qed

lemma scan_finish_covers:
  assumes "scan_covers command i st" and "scan_finish command st = Some segments"
  shows "covers_all command segments"
proof -
  have "command = take (sc_start st) command @ drop (sc_start st) command" by simp
  moreover have "if blank (drop (sc_start st) command) then segments = sc_segments st
    else segments = sc_segments st @ [\<lparr>seg_command = trim_space (drop (sc_start st) command), seg_operator = []\<rparr>]"
    using assms(2) by (auto simp: scan_finish_def Let_def blank_def split: if_splits)
  ultimately show ?thesis
    using assms(1) unfolding covers_all_def scan_covers_def by metis
qed

lemma scan_loop_covers:
  "scan_loop command i st = Some segments \<Longrightarrow> scan_covers command i st \<Longrightarrow> covers_all command segments"
proof (induction command i st rule: scan_loop.induct)
  case (1 command i st)
  show ?case
  proof (cases "i < length command")
    case i: True
    show ?thesis
    proof (cases "scan_step command i st")
      case Reject
      with "1.prems" i show ?thesis by (simp add: scan_loop.simps [of command i st])
    next
      case (Return segs)
      with "1.prems" i show ?thesis
        using scan_step_Return_covers by (simp add: scan_loop.simps [of command i st])
    next
      case (Continue j st')
      with "1.prems" i show ?thesis
        using "1.IH" [OF i Continue _ scan_step_covers [OF "1.prems"(2) i Continue]]
        by (simp add: scan_loop.simps [of command i st])
    qed
  next
    case False
    with "1.prems" show ?thesis
      using scan_finish_covers by (simp add: scan_loop.simps [of command i st])
  qed
qed

lemma command_segments_covers: "command_segments command = Some segments \<Longrightarrow> covers_all command segments"
  using scan_loop_covers [of command 0 scan_init segments]
  by (simp add: command_segments_def scan_covers_def scan_init_def covers_start)

text \<open>No segment is empty, and the empty command is not accepted.\<close>

lemma covers_nonblank: "covers p segments \<Longrightarrow> s \<in> set segments \<Longrightarrow> seg_command s \<noteq> []"
  by (induction rule: covers.induct) auto

lemma covers_all_nonblank: "covers_all command segments \<Longrightarrow> s \<in> set segments \<Longrightarrow> seg_command s \<noteq> []"
  by (auto simp: covers_all_def blank_def dest: covers_nonblank split: if_splits)

lemma scan_loop_nonempty: "scan_loop command i st = Some segments \<Longrightarrow> segments \<noteq> []"
proof (induction command i st rule: scan_loop.induct)
  case (1 command i st)
  show ?case
  proof (cases "i < length command")
    case i: True
    then show ?thesis
      using "1.prems" "1.IH" [OF i]
      by (auto simp: scan_loop.simps [of command i st] append_segment_Some
          dest: scan_step_ReturnD split: step_result.splits)
  next
    case False
    with "1.prems" show ?thesis
      by (auto simp: scan_loop.simps [of command i st] scan_finish_def Let_def split: if_splits)
  qed
qed

lemma command_segments_nonempty: "command_segments command = Some segments \<Longrightarrow> segments \<noteq> []"
  by (simp add: command_segments_def scan_loop_nonempty)

end
