(* ===== verification/Shell_Reading.thy ===== *)
theory Shell_Reading
  imports Shell_Scanner
begin

text \<open>
  How Bash, the shell that runs an accepted command (\<^verbatim>\<open>ExecutionShell\<close> of \<^verbatim>\<open>internal/terminal/shell.go\<close>), reads
  its text, as far as quoting goes: words and the blanks and operators between them, comments, escapes and line
  continuations, the three kinds of quotes and parameters in braces. It is written after the manual of the shell and
  knows nothing of the scanner. Where the two read the same (\<open>scanner_follows\<close>), a command the scanner accepts runs
  no command substitution; where they do not, there are commands it should have refused.
\<close>

section \<open>The reading of the shell\<close>

text \<open>Where the reader is: between words, in a word, behind a dollar sign that is not quoted, in single or double
  quotes, behind a dollar sign in double quotes, in a string \<^verbatim>\<open>$'...'\<close>, in a comment, in a parameter in
  braces (within double quotes or not, and so many other parameters deep) and behind a dollar sign in it, or behind a
  backslash.\<close>

datatype shell_context =
    Between | In_Word | After_Dollar | In_Single | In_Double | In_Double_Dollar | In_Ansi | In_Comment
  | In_Brace bool nat | In_Brace_Dollar bool nat | Escaped shell_context

definition metacharacters :: "char list" where
  "metacharacters = [CHR '' '', CHR 0x09, CHR 0x0A, CHR ''|'', CHR ''&'', CHR '';'', CHR ''<'', CHR ''>'', CHR ''('', CHR '')'']"

definition outside_quotes :: "shell_context \<Rightarrow> char \<Rightarrow> shell_context" where
  "outside_quotes here c =
     (if c = CHR 0x5C then Escaped here else if c = CHR 0x27 then In_Single else if c = CHR 0x22 then In_Double
      else if c = CHR ''$'' then After_Dollar else if c \<in> set metacharacters then Between else In_Word)"

definition after_brace :: "bool \<Rightarrow> nat \<Rightarrow> shell_context" where
  "after_brace quoted deep =
     (case deep of 0 \<Rightarrow> if quoted then In_Double else In_Word | Suc outer \<Rightarrow> In_Brace quoted outer)"

text \<open>A comment begins with a hash sign at the beginning of a word. A backslash and a line feed are taken out of the
  text before anything else is read, except in single quotes, \<^verbatim>\<open>$'...'\<close> and comments. What quotes and backslashes mean
  within braces is left open.\<close>

fun shell_step :: "shell_context \<Rightarrow> char \<Rightarrow> shell_context" where
  "shell_step Between c = (if c = CHR ''#'' then In_Comment else outside_quotes Between c)"
| "shell_step In_Word c = outside_quotes In_Word c"
| "shell_step After_Dollar c =
     (if c = CHR 0x27 then In_Ansi else if c = CHR ''{'' then In_Brace False 0 else if c = CHR ''$'' then In_Word
      else outside_quotes After_Dollar c)"
| "shell_step In_Single c = (if c = CHR 0x27 then In_Word else In_Single)"
| "shell_step In_Double c =
     (if c = CHR 0x5C then Escaped In_Double else if c = CHR 0x22 then In_Word
      else if c = CHR ''$'' then In_Double_Dollar else In_Double)"
| "shell_step In_Double_Dollar c =
     (if c = CHR 0x5C then Escaped In_Double_Dollar else if c = CHR 0x22 then In_Word
      else if c = CHR ''{'' then In_Brace True 0 else In_Double)"
| "shell_step In_Ansi c =
     (if c = CHR 0x5C then Escaped In_Ansi else if c = CHR 0x27 then In_Word else In_Ansi)"
| "shell_step In_Comment c = (if c = CHR 0x0A then Between else In_Comment)"
| "shell_step (In_Brace quoted deep) c =
     (if c = CHR ''}'' then after_brace quoted deep
      else if c = CHR ''$'' then In_Brace_Dollar quoted deep else In_Brace quoted deep)"
| "shell_step (In_Brace_Dollar quoted deep) c =
     (if c = CHR ''}'' then after_brace quoted deep
      else if c = CHR ''{'' then In_Brace quoted (Suc deep) else In_Brace quoted deep)"
| "shell_step (Escaped here) c =
     (if here = In_Ansi then In_Ansi else if c = CHR 0x0A then here
      else if here \<in> {In_Double, In_Double_Dollar} then In_Double else In_Word)"

definition shell_at :: "bytes \<Rightarrow> nat \<Rightarrow> shell_context" where
  "shell_at command i = foldl shell_step Between (take i command)"

lemma shell_at_0 [simp]: "shell_at command 0 = Between"
  by (simp add: shell_at_def)

lemma shell_at_Suc: "i < length command \<Longrightarrow> shell_at command (Suc i) = shell_step (shell_at command i) (command ! i)"
  by (simp add: shell_at_def take_Suc_conv_app_nth)

text \<open>A quoted here-document that takes up the rest of the command; the shell expands nothing in its body. Behind an
  opening parenthesis or bracket the same text may be a shift in an arithmetic expression, and a backslash in the
  delimiter may itself be quoted away: there it is not taken for one.\<close>

definition doubtful :: "bytes \<Rightarrow> nat \<Rightarrow> bool" where
  "doubtful command i \<longleftrightarrow>
     list_ex (\<lambda>c. c = CHR ''('' \<or> c = CHR ''['') (take i command) \<or>
     CHR 0x5C \<in> set (takeWhile (\<lambda>c. c \<noteq> CHR 0x0A) (drop i command))"

definition heredoc_begins :: "bytes \<Rightarrow> nat \<Rightarrow> bool" where
  "heredoc_begins command i \<longleftrightarrow>
     shell_at command i \<in> {Between, In_Word, After_Dollar} \<and> heredoc_end command i \<noteq> None"

definition heredoc_operator :: "bytes \<Rightarrow> nat \<Rightarrow> bool" where
  "heredoc_operator command i \<longleftrightarrow> heredoc_begins command i \<and> \<not> doubtful command i"

definition behind_heredoc :: "bytes \<Rightarrow> nat \<Rightarrow> bool" where
  "behind_heredoc command i \<longleftrightarrow> list_ex (heredoc_operator command) [0..<i]"

text \<open>The byte opens a command substitution: a back quote that is not quoted, or a parenthesis behind a dollar
  sign. (Bash 5.3 knows a third form, with a blank behind \<^verbatim>\<open>${\<close>, which is not looked for.)\<close>

definition substitution_opens :: "bytes \<Rightarrow> nat \<Rightarrow> bool" where
  "substitution_opens command i \<longleftrightarrow> \<not> behind_heredoc command i \<and>
     (case shell_at command i of
        Between \<Rightarrow> command ! i = CHR 0x60
      | In_Word \<Rightarrow> command ! i = CHR 0x60
      | In_Double \<Rightarrow> command ! i = CHR 0x60
      | In_Brace quoted deep \<Rightarrow> command ! i = CHR 0x60
      | After_Dollar \<Rightarrow> command ! i = CHR 0x60 \<or> command ! i = CHR ''(''
      | In_Double_Dollar \<Rightarrow> command ! i = CHR 0x60 \<or> command ! i = CHR ''(''
      | In_Brace_Dollar quoted deep \<Rightarrow> command ! i = CHR 0x60 \<or> command ! i = CHR ''(''
      | _ \<Rightarrow> False)"

section \<open>Where the scanner reads the same\<close>

text \<open>Comments without quotes, backslashes and redirections, parameters in braces without them, no string \<^verbatim>\<open>$'...'\<close>
  no line continuation right behind a dollar sign, no doubtful here-document, and no single quote behind brackets that
  may open arithmetic, a subscript or \<^verbatim>\<open>$[\<close> (single quotes do not quote there).\<close>

definition quoting_chars :: "char list" where
  "quoting_chars = [CHR 0x27, CHR 0x22, CHR 0x5C, CHR ''<'']"

definition may_be_arithmetic :: "bytes \<Rightarrow> nat \<Rightarrow> bool" where
  "may_be_arithmetic command i \<longleftrightarrow>
     list_ex (\<lambda>j. command ! j = CHR ''['' \<or>
       command ! j = CHR ''('' \<and> (next_is command j (CHR ''('') \<or> next_is command j (CHR 0x5C))) [0..<i]"

definition quote_in_arithmetic :: "bytes \<Rightarrow> nat \<Rightarrow> bool" where
  "quote_in_arithmetic command i \<longleftrightarrow>
     command ! i = CHR 0x27 \<and> shell_at command i \<in> {Between, In_Word, After_Dollar} \<and> may_be_arithmetic command i"

fun follows_at :: "shell_context \<Rightarrow> char \<Rightarrow> bool" where
  "follows_at In_Comment c \<longleftrightarrow> c \<notin> set quoting_chars"
| "follows_at (In_Brace quoted deep) c \<longleftrightarrow> c \<notin> set quoting_chars"
| "follows_at (In_Brace_Dollar quoted deep) c \<longleftrightarrow> c \<notin> set quoting_chars"
| "follows_at After_Dollar c \<longleftrightarrow> c \<noteq> CHR 0x27"
| "follows_at (Escaped here) c \<longleftrightarrow> \<not> (here \<in> {After_Dollar, In_Double_Dollar} \<and> c = CHR 0x0A)"
| "follows_at _ c \<longleftrightarrow> True"

definition scanner_follows :: "bytes \<Rightarrow> bool" where
  "scanner_follows command \<longleftrightarrow>
     list_all (\<lambda>i. behind_heredoc command i \<or>
       follows_at (shell_at command i) (command ! i) \<and> \<not> (heredoc_begins command i \<and> doubtful command i) \<and>
       \<not> quote_in_arithmetic command i)
     [0..<length command]"

text \<open>The quotes the scanner sees there.\<close>

fun seen_mode :: "shell_context \<Rightarrow> quote_mode" where
  "seen_mode In_Single = Single"
| "seen_mode In_Double = Double"
| "seen_mode In_Double_Dollar = Double"
| "seen_mode (In_Brace quoted deep) = (if quoted then Double else Plain)"
| "seen_mode (In_Brace_Dollar quoted deep) = (if quoted then Double else Plain)"
| "seen_mode (Escaped here) = (if here \<in> {In_Double, In_Double_Dollar} then DoubleEsc else PlainEsc)"
| "seen_mode _ = Plain"

fun common :: "shell_context \<Rightarrow> bool" where
  "common In_Ansi \<longleftrightarrow> False"
| "common (Escaped here) \<longleftrightarrow> here \<in> {Between, In_Word, After_Dollar, In_Double, In_Double_Dollar}"
| "common _ \<longleftrightarrow> True"

lemma after_brace_seen [simp]:
  "common (after_brace quoted deep)" "seen_mode (after_brace quoted deep) = (if quoted then Double else Plain)"
  "after_brace quoted deep \<noteq> After_Dollar" "after_brace quoted deep \<noteq> In_Double_Dollar"
  "after_brace quoted deep \<noteq> In_Brace_Dollar other outer"
  by (auto simp: after_brace_def split: nat.split)

lemma shell_step_seen:
  assumes "common here" "follows_at here c"
  shows "common (shell_step here c) \<and> seen_mode (shell_step here c) = quote_step (seen_mode here) c"
  using assms
  by (cases here)
    (auto simp: outside_quotes_def quoting_chars_def metacharacters_def)

lemma behind_heredoc_mono: "i \<le> j \<Longrightarrow> behind_heredoc command i \<Longrightarrow> behind_heredoc command j"
  by (auto simp: behind_heredoc_def list_ex_iff)

lemma scanner_follows_at:
  assumes "scanner_follows command" "i < length command" "\<not> behind_heredoc command i"
  shows "follows_at (shell_at command i) (command ! i)"
    and "heredoc_begins command i \<Longrightarrow> heredoc_operator command i"
  using assms by (auto simp: scanner_follows_def heredoc_operator_def list_all_iff)

lemma shell_at_seen:
  assumes "scanner_follows command"
  shows "i \<le> length command \<Longrightarrow> \<not> behind_heredoc command i \<Longrightarrow>
    common (shell_at command i) \<and> mode_at command i = seen_mode (shell_at command i)"
proof (induction i)
  case 0
  then show ?case by simp
next
  case (Suc i)
  then have i: "i < length command" "\<not> behind_heredoc command i" using behind_heredoc_mono [of i "Suc i" command] by auto
  then have "follows_at (shell_at command i) (command ! i)" using scanner_follows_at(1) [OF assms] by simp
  then show ?case using Suc.IH i shell_step_seen by (simp add: shell_at_Suc mode_at_Suc)
qed

text \<open>The dollar sign is the byte before.\<close>

lemma dollar_before:
  assumes "common here" "follows_at here c" "shell_step here c \<in> {After_Dollar, In_Double_Dollar} \<or> (\<exists>quoted deep. shell_step here c = In_Brace_Dollar quoted deep)"
  shows "c = CHR ''$'' \<and> seen_mode here \<in> {Plain, Double}"
  using assms
  by (cases here) (auto simp: outside_quotes_def split: if_splits)

lemma heredoc_seen:
  assumes "scanner_follows command" "\<not> behind_heredoc command k" "h < k" "h < length command"
  shows "\<not> heredoc_at command h"
proof
  assume "heredoc_at command h"
  then have here: "mode_at command h = Plain" "heredoc_end command h \<noteq> None" by (simp_all add: heredoc_at_def)
  then have angle: "command ! h = CHR ''<''" by (auto simp: heredoc_end_def split: if_splits)
  have free: "\<not> behind_heredoc command h" using assms(2,3) behind_heredoc_mono [of h k command] by auto
  have "follows_at (shell_at command h) (command ! h)" using scanner_follows_at(1) [OF assms(1,4) free] .
  moreover have "common (shell_at command h)" "seen_mode (shell_at command h) = Plain"
    using shell_at_seen [OF assms(1), of h] assms(4) free here(1) by simp_all
  ultimately have "shell_at command h \<in> {Between, In_Word, After_Dollar}"
    using angle by (cases "shell_at command h") (auto simp: quoting_chars_def split: if_splits)
  then have "heredoc_begins command h" using here(2) by (simp add: heredoc_begins_def)
  then have "heredoc_operator command h" using scanner_follows_at(2) [OF assms(1,4) free] by simp
  then show False using assms(2,3) by (auto simp: behind_heredoc_def list_ex_iff)
qed

lemma scanner_substitution:
  assumes "command_segments command = Some segments" "scanner_follows command" "k < length command"
    and "\<not> behind_heredoc command k" "command ! k \<noteq> CHR ''<''"
  shows "\<not> substitution_at command k"
proof (rule command_segments_no_substitution [OF assms(1,3)])
  have "heredoc_end command k = None" using assms(5) by (simp add: heredoc_end_def)
  then show "\<forall>h \<le> k. \<not> heredoc_at command h"
    using heredoc_seen [OF assms(2,4)] assms(3) by (auto simp: heredoc_at_def le_less)
qed

lemma accepted_runs_no_substitution:
  assumes accepted: "command_segments command = Some segments" and follows: "scanner_follows command"
    and k: "k < length command"
  shows "\<not> substitution_opens command k"
proof
  assume opens: "substitution_opens command k"
  then have free: "\<not> behind_heredoc command k" by (simp add: substitution_opens_def)
  have seen: "common (shell_at command k)" "mode_at command k = seen_mode (shell_at command k)"
    using shell_at_seen [OF follows, of k] k free by simp_all
  show False
  proof (cases "command ! k = CHR 0x60")
    case True
    then have "mode_at command k \<in> {Plain, Double}"
      using opens seen(2) by (auto simp: substitution_opens_def split: shell_context.splits)
    then have "substitution_at command k" using True by (simp add: substitution_at_def)
    then show False using scanner_substitution [OF accepted follows k free] True by simp
  next
    case False
    then have paren: "command ! k = CHR ''(''"
      and dollar: "shell_at command k \<in> {After_Dollar, In_Double_Dollar} \<or> (\<exists>quoted deep. shell_at command k = In_Brace_Dollar quoted deep)"
      using opens by (auto simp: substitution_opens_def split: shell_context.splits)
    then obtain i where i: "k = Suc i" by (cases k) auto
    have free_i: "\<not> behind_heredoc command i" using free behind_heredoc_mono [of i k command] i by auto
    have seen_i: "common (shell_at command i)" "mode_at command i = seen_mode (shell_at command i)"
      using shell_at_seen [OF follows, of i] k i free_i by simp_all
    have "follows_at (shell_at command i) (command ! i)" using scanner_follows_at(1) [OF follows _ free_i] k i by simp
    from dollar_before [OF seen_i(1) this] dollar have "command ! i = CHR ''$''" "mode_at command i \<in> {Plain, Double}"
      using k i seen_i(2) by (simp_all add: shell_at_Suc)
    then have "substitution_at command i" using paren i k by (simp add: substitution_at_def next_is_def)
    then show False using scanner_substitution [OF accepted follows _ free_i] \<open>command ! i = CHR ''$''\<close> i k by simp
  qed
qed

section \<open>Words\<close>

text \<open>Text without quotes and backslashes is split into words at blanks, tabs and line feeds, and at nothing else.\<close>

definition shell_blanks :: "char list" where
  "shell_blanks = [CHR '' '', CHR 0x09, CHR 0x0A]"

fun shell_words_from :: "bytes \<Rightarrow> bytes \<Rightarrow> bytes list" where
  "shell_words_from word [] = (if word = [] then [] else [word])"
| "shell_words_from word (c # s) =
     (if c \<in> set shell_blanks then (if word = [] then [] else [word]) @ shell_words_from [] s
      else shell_words_from (word @ [c]) s)"

definition shell_words :: "bytes \<Rightarrow> bytes list" where
  "shell_words s = shell_words_from [] s"

text \<open>The other white space of Go separates fields and is part of a word of the shell.\<close>

definition odd_spaces :: "bytes list" where
  "odd_spaces = filter (\<lambda>e. e \<notin> set (map (\<lambda>c. [c]) shell_blanks)) space_encodings"

definition blanks_only :: "bytes \<Rightarrow> bool" where
  "blanks_only s \<longleftrightarrow> \<not> list_ex (contains_sub s) odd_spaces"

lemma blanks_only_sub: "blanks_only (a @ s @ b) \<Longrightarrow> blanks_only s"
  unfolding blanks_only_def list_ex_iff contains_sub_iff by (metis append_assoc)

lemma blanks_only_Cons: "blanks_only (c # s) \<Longrightarrow> blanks_only s"
  using blanks_only_sub [of "[c]" s "[]"] by simp

lemma lead_len_blanks:
  assumes "blanks_only (c # s)"
  shows "lead_len space_encodings (c # s) = (if c \<in> set shell_blanks then 1 else 0)"
proof (cases "find (has_prefix (c # s)) space_encodings")
  case None
  have "\<forall>b \<in> set shell_blanks. [b] \<in> set space_encodings" by code_simp
  with None have "c \<notin> set shell_blanks" by (fastforce simp: find_None_iff has_prefix_iff)
  with None show ?thesis by (simp add: lead_len_def)
next
  case (Some e)
  then have e: "e \<in> set space_encodings" "has_prefix (c # s) e" by (auto dest: find_Some_in simp: find_Some_iff)
  then have "contains_sub (c # s) e" by simp
  then have "e \<notin> set odd_spaces" using assms by (auto simp: blanks_only_def list_ex_iff)
  then obtain b where "b \<in> set shell_blanks" "e = [b]" using e(1) by (auto simp: odd_spaces_def)
  with Some e(2) show ?thesis by (simp add: lead_len_def has_prefix_iff)
qed

lemma go_fields_words: "blanks_only s \<Longrightarrow> go_fields s = shell_words s"
proof -
  have "go_fields_from word s = shell_words_from word s" if "blanks_only s" for word
    using that
  proof (induction s arbitrary: word)
    case (Cons c s)
    then show ?case using blanks_only_Cons [OF Cons.prems] by (simp add: lead_len_blanks)
  qed simp
  then show "blanks_only s \<Longrightarrow> go_fields s = shell_words s" by (simp add: go_fields_def shell_words_def)
qed

section \<open>Where it does not\<close>

definition line_feed :: bytes where
  "line_feed = [CHR 0x0A]"

text \<open>The scanner knows no comments: a quote or a here-document in one hides what stands on the lines behind it. Nor does
  it know strings \<^verbatim>\<open>$'...'\<close>, in which a quote can be escaped, line continuations, arithmetic, where single quotes do not quote
  and a shift looks like a here-document, or a backslash in the delimiter of one.\<close>

definition hidden_substitution :: "bytes \<Rightarrow> bool" where
  "hidden_substitution command \<longleftrightarrow>
     command_segments command \<noteq> None \<and> list_ex (substitution_opens command) [0..<length command]"

lemma comment_hides_substitution:
  "hidden_substitution (''ls # '' @ [CHR 0x27] @ line_feed @ ''$(rm x) #'' @ [CHR 0x27])"
  "hidden_substitution (''ls # <<'' @ [CHR 0x27] @ ''A'' @ [CHR 0x27] @ line_feed @ ''$(rm x)'' @ line_feed @ ''A'')"
  by code_simp+

lemma ansi_string_hides_substitution:
  "hidden_substitution (''ls $'' @ [CHR 0x27] @ ''a'' @ [CHR 0x5C, CHR 0x27] @ [CHR 0x27] @ ''$(rm x) #'' @ [CHR 0x27])"
  "hidden_substitution (''ls $'' @ [CHR 0x5C] @ line_feed @ ''(rm x)'')"
  by code_simp+

lemma delimiter_hides_substitution:
  "hidden_substitution (''cat <<'' @ [CHR 0x22] @ ''A'' @ [CHR 0x5C, CHR 0x5C] @ [CHR 0x22] @ line_feed @ ''A'' @ [CHR 0x5C] @
     line_feed @ ''$(rm x)'' @ line_feed @ ''A'' @ [CHR 0x5C, CHR 0x5C])"
  by code_simp

lemma arithmetic_quotes_nothing:
  "command_segments (''((1+'' @ [CHR 0x27] @ ''$(rm x)'' @ [CHR 0x27] @ ''))'') \<noteq> None \<and>
   \<not> scanner_follows (''((1+'' @ [CHR 0x27] @ ''$(rm x)'' @ [CHR 0x27] @ ''))'')"
  by code_simp

lemma arithmetic_hides_substitution:
  "hidden_substitution (''((1<<'' @ [CHR 0x22] @ ''2'' @ [CHR 0x22] @ line_feed @ '')); ls $(rm x)'' @ line_feed @ ''2'')"
  by code_simp

end
