(* ===== verification/Command_Policy.thy ===== *)
theory Command_Policy
  imports Shell_Reading
begin

text \<open>
  The command and file policy of \<^verbatim>\<open>internal/security/commands.go\<close> on top of the scanner: one
  decision per segment from the configured rules and the built-in read-only list, and their
  aggregate. The regular expressions of the rules are Go's \<^verbatim>\<open>regexp\<close> engine, here the parameter
  \<open>compile\<close>: \<^const>\<open>None\<close> for a pattern that does not compile, else the match predicate.
\<close>

type_synonym regexp_engine = "bytes \<Rightarrow> (bytes \<Rightarrow> bool) option"

section \<open>Decisions\<close>

datatype decision = Allow | Confirm | Deny

text \<open>The order of the \<^verbatim>\<open>iota\<close> constants.\<close>

fun decision_rank :: "decision \<Rightarrow> nat" where
  "decision_rank Allow = 0"
| "decision_rank Confirm = 1"
| "decision_rank Deny = 2"

instantiation decision :: linorder
begin

definition less_eq_decision :: "decision \<Rightarrow> decision \<Rightarrow> bool" where
  "less_eq_decision a b \<longleftrightarrow> decision_rank a \<le> decision_rank b"

definition less_decision :: "decision \<Rightarrow> decision \<Rightarrow> bool" where
  "less_decision a b \<longleftrightarrow> decision_rank a < decision_rank b"

instance
proof
  fix a b c :: decision
  show "a < b \<longleftrightarrow> a \<le> b \<and> \<not> b \<le> a" by (auto simp: less_eq_decision_def less_decision_def)
  show "a \<le> a" by (simp add: less_eq_decision_def)
  show "a \<le> b \<Longrightarrow> b \<le> c \<Longrightarrow> a \<le> c" by (simp add: less_eq_decision_def)
  show "a \<le> b \<Longrightarrow> b \<le> a \<Longrightarrow> a = b" by (cases a; cases b) (simp_all add: less_eq_decision_def)
  show "a \<le> b \<or> b \<le> a" by (auto simp: less_eq_decision_def)
qed

end

lemma decision_extremes [simp]: "Allow \<le> d" "d \<le> Deny" "d \<le> Allow \<longleftrightarrow> d = Allow" "Deny \<le> d \<longleftrightarrow> d = Deny"
  by (cases d; simp add: less_eq_decision_def)+

definition decision_string :: "decision \<Rightarrow> bytes" where
  "decision_string d = (case d of Allow \<Rightarrow> ''allow'' | Confirm \<Rightarrow> ''confirm'' | Deny \<Rightarrow> ''deny'')"

definition parse_default :: "bytes \<Rightarrow> decision" where
  "parse_default s =
     (let v = to_lower (trim_space s) in
      if v = ''allow'' then Allow else if v = ''deny'' then Deny
      else if v = ''confirm'' \<or> v = [] then Confirm else Confirm)"

section \<open>Rules\<close>

record command_rules =
  cr_default :: bytes
  cr_allow :: "bytes list"
  cr_confirm :: "bytes list"
  cr_deny :: "bytes list"
  cr_auto_allow_readonly :: "bool option"

fun match_any :: "regexp_engine \<Rightarrow> bytes list \<Rightarrow> bytes \<Rightarrow> bool" where
  "match_any compile [] command = False"
| "match_any compile (p # ps) command =
     (if p = [] then match_any compile ps command
      else case compile p of
             None \<Rightarrow> match_any compile ps command
           | Some re \<Rightarrow> if re command then True else match_any compile ps command)"

lemma match_any_iff:
  "match_any compile ps command \<longleftrightarrow> (\<exists>p \<in> set ps. p \<noteq> [] \<and> (\<exists>re. compile p = Some re \<and> re command))"
  by (induction ps) (auto split: option.splits)

definition auto_allow_readonly_enabled :: "command_rules \<Rightarrow> bool" where
  "auto_allow_readonly_enabled rules \<longleftrightarrow>
     (case cr_auto_allow_readonly rules of None \<Rightarrow> True | Some b \<Rightarrow> b)"

section \<open>The built-in read-only commands\<close>

definition expansion_chars :: "char list" where
  "expansion_chars = [CHR ''$'', CHR ''~'', CHR ''{'', CHR ''}'', CHR 0x5C, CHR ''*'',
     CHR ''?'', CHR ''['', CHR '']'', CHR 0x27, CHR 0x22]"

definition safe_readonly_argument :: "bytes \<Rightarrow> bool" where
  "safe_readonly_argument arg \<longleftrightarrow>
     (if arg = [] \<or> has_prefix arg ''/'' \<or> contains_sub arg ''..'' then False
      else \<not> contains_any arg expansion_chars)"

fun all_readonly_arguments :: "bytes list \<Rightarrow> bool" where
  "all_readonly_arguments [] = True"
| "all_readonly_arguments (arg # args) =
     (if \<not> safe_readonly_argument arg then False else all_readonly_arguments args)"

definition readonly_git_options :: "bytes list" where
  "readonly_git_options =
     [''--short'', ''-s'', ''--branch'', ''-b'', ''--porcelain'', ''--porcelain=v1'', ''--porcelain=v2'',
      ''--oneline'', ''--stat'', ''--shortstat'', ''--numstat'', ''--name-only'', ''--name-status'',
      ''--summary'', ''--check'', ''--cached'', ''--staged'', ''--no-ext-diff'', ''--no-textconv'',
      ''--no-color'', ''--color=never'', ''--patch'', ''-p'', ''--no-patch'', ''--raw'', ''--abbrev-commit'',
      ''--graph'', ''--decorate'', ''--no-decorate'', ''--all'', ''--reverse'', ''--date-order'', ''--topo-order'']"

fun readonly_git_loop :: "bool \<Rightarrow> bytes list \<Rightarrow> bool" where
  "readonly_git_loop paths [] = True"
| "readonly_git_loop paths (arg # args) =
     (if \<not> safe_readonly_argument arg then False
      else if arg = ''--'' then readonly_git_loop True args
      else if paths \<or> \<not> has_prefix arg ''-'' then readonly_git_loop paths args
      else if arg \<in> set readonly_git_options then readonly_git_loop paths args
      else False)"

definition readonly_git_arguments :: "bytes list \<Rightarrow> bool" where
  "readonly_git_arguments args = readonly_git_loop False args"

text \<open>The loop that looks for the two flags up to the argument \<^verbatim>\<open>--\<close>.\<close>

fun scan_git_flags :: "bool \<times> bool \<Rightarrow> bytes list \<Rightarrow> bool \<times> bool" where
  "scan_git_flags (no_external, no_textconv) [] = (no_external, no_textconv)"
| "scan_git_flags (no_external, no_textconv) (arg # args) =
     (if arg = ''--'' then (no_external, no_textconv)
      else scan_git_flags (no_external \<or> arg = ''--no-ext-diff'', no_textconv \<or> arg = ''--no-textconv'') args)"

text \<open>The loop over leading \<^verbatim>\<open>-C path\<close> pairs; \<^const>\<open>None\<close> is its \<^verbatim>\<open>return false\<close>.\<close>

fun strip_git_dirs :: "bytes list \<Rightarrow> bytes list option" where
  "strip_git_dirs [] = Some []"
| "strip_git_dirs [arg] = (if arg \<noteq> ''-C'' then Some [arg] else None)"
| "strip_git_dirs (arg # dir # args) =
     (if arg \<noteq> ''-C'' then Some (arg # dir # args)
      else if \<not> safe_readonly_argument dir then None
      else strip_git_dirs args)"

definition is_readonly_git :: "bytes list \<Rightarrow> bool" where
  "is_readonly_git args =
     (case strip_git_dirs args of
        None \<Rightarrow> False
      | Some [] \<Rightarrow> False
      | Some (verb # rest) \<Rightarrow>
          if verb = ''status'' then readonly_git_arguments rest
          else if verb = ''diff'' \<or> verb = ''log'' \<or> verb = ''show'' then
            (let (no_external, no_textconv) = scan_git_flags (False, False) rest in
             no_external \<and> no_textconv \<and> readonly_git_arguments rest)
          else False)"

definition redirection_chars :: "char list" where
  "redirection_chars = [CHR ''|'', CHR ''&'', CHR ''>'', CHR ''<'', CHR 0x60, CHR 0x0A]"

definition is_readonly_segment :: "bytes \<Rightarrow> bool" where
  "is_readonly_segment segment =
     (let trimmed = trim_space segment in
      if trimmed = [] then False
      else if contains_any trimmed redirection_chars \<or> contains_sub trimmed ''$('' then False
      else case go_fields trimmed of
             [] \<Rightarrow> False
           | verb # args \<Rightarrow>
               if verb = ''ls'' then all_readonly_arguments args
               else if verb = ''pwd'' then args = []
               else if verb \<in> {''cat'', ''head'', ''tail''} then all_readonly_arguments args
               else if verb = ''git'' then is_readonly_git args
               else False)"

definition is_readonly_command :: "bytes \<Rightarrow> bool" where
  "is_readonly_command command =
     (case command_segments command of
        None \<Rightarrow> False
      | Some segments \<Rightarrow>
          if segments = [] then False
          else list_all (\<lambda>s. is_readonly_segment (seg_command s)) segments)"

section \<open>Decisions for segments, commands and files\<close>

definition match_segment :: "regexp_engine \<Rightarrow> command_rules \<Rightarrow> bytes \<Rightarrow> decision" where
  "match_segment compile rules segment =
     (if match_any compile (cr_deny rules) segment then Deny
      else if match_any compile (cr_confirm rules) segment then Confirm
      else if match_any compile (cr_allow rules) segment then Allow
      else if auto_allow_readonly_enabled rules \<and> is_readonly_command segment then Allow
      else parse_default (cr_default rules))"

record segment_decision =
  sd_command :: bytes
  sd_operator :: bytes
  sd_decision :: decision

record command_analysis =
  an_decision :: decision
  an_segments :: "segment_decision list"
  an_unsafe :: bool

fun analyze_segments ::
  "regexp_engine \<Rightarrow> command_rules \<Rightarrow> command_segment list \<Rightarrow> command_analysis \<Rightarrow> command_analysis" where
  "analyze_segments compile rules [] analysis = analysis"
| "analyze_segments compile rules (s # ss) analysis =
     (let d = match_segment compile rules (seg_command s);
          analysis1 = analysis\<lparr>an_segments := an_segments analysis @
             [\<lparr>sd_command = seg_command s, sd_operator = seg_operator s, sd_decision = d\<rparr>]\<rparr>
      in if d = Deny then analyze_segments compile rules ss (analysis1\<lparr>an_decision := Deny\<rparr>)
         else if d = Confirm \<and> an_decision analysis1 = Allow
           then analyze_segments compile rules ss (analysis1\<lparr>an_decision := Confirm\<rparr>)
         else analyze_segments compile rules ss analysis1)"

definition analyze_command :: "regexp_engine \<Rightarrow> command_rules \<Rightarrow> bytes \<Rightarrow> command_analysis" where
  "analyze_command compile rules command =
     (case command_segments command of
        None \<Rightarrow> \<lparr>an_decision = Deny, an_segments = [], an_unsafe = True\<rparr>
      | Some parsed \<Rightarrow>
          if parsed = [] then \<lparr>an_decision = Deny, an_segments = [], an_unsafe = False\<rparr>
          else analyze_segments compile rules parsed \<lparr>an_decision = Allow, an_segments = [], an_unsafe = False\<rparr>)"

definition match_command :: "regexp_engine \<Rightarrow> command_rules \<Rightarrow> bytes \<Rightarrow> decision" where
  "match_command compile rules command = an_decision (analyze_command compile rules command)"

record file_rules =
  fr_allow :: "bytes list"
  fr_confirm :: "bytes list"
  fr_deny :: "bytes list"

definition match_file :: "regexp_engine \<Rightarrow> file_rules \<Rightarrow> bytes \<Rightarrow> decision" where
  "match_file compile rules path =
     (if match_any compile (fr_deny rules) path then Deny
      else if match_any compile (fr_confirm rules) path then Confirm
      else if match_any compile (fr_allow rules) path then Allow
      else if length (fr_allow rules) + length (fr_confirm rules) + length (fr_deny rules) > 0 then Confirm
      else Allow)"

section \<open>The aggregate decision\<close>

lemma analyze_segments_decision:
  "an_decision (analyze_segments compile rules ss a) =
   fold max (map (\<lambda>s. match_segment compile rules (seg_command s)) ss) (an_decision a)"
proof (induction ss arbitrary: a)
  case Nil
  then show ?case by simp
next
  case (Cons s ss)
  then show ?case
    by (cases "match_segment compile rules (seg_command s)"; cases "an_decision a")
      (simp_all add: Let_def max_def less_eq_decision_def)
qed

lemma analyze_segments_segments:
  "an_segments (analyze_segments compile rules ss a) = an_segments a @
   map (\<lambda>s. \<lparr>sd_command = seg_command s, sd_operator = seg_operator s,
              sd_decision = match_segment compile rules (seg_command s)\<rparr>) ss"
  by (induction ss arbitrary: a) (simp_all add: Let_def)

lemma fold_max_ge: "d \<le> fold max ds (d :: 'a :: linorder)" "x \<in> set ds \<Longrightarrow> x \<le> fold max ds d"
proof -
  show 1: "d \<le> fold max ds d" for ds and d :: 'a
    by (induction ds arbitrary: d) (auto intro: order_trans [OF max.cobounded2])
  show "x \<in> set ds \<Longrightarrow> x \<le> fold max ds d"
    by (induction ds arbitrary: d) (auto intro: order_trans [OF max.cobounded1 1])
qed

lemma fold_max_mono:
  "list_all2 (\<le>) xs ys \<Longrightarrow> a \<le> b \<Longrightarrow> fold max xs a \<le> fold max ys (b :: 'a :: linorder)"
  by (induction xs ys arbitrary: a b rule: list_all2_induct) (auto intro: max.mono)

lemma match_command_eq:
  "match_command compile rules command =
   (case command_segments command of
      None \<Rightarrow> Deny
    | Some ss \<Rightarrow> fold max (map (\<lambda>s. match_segment compile rules (seg_command s)) ss) Allow)"
  by (auto simp: match_command_def analyze_command_def analyze_segments_decision
      dest: command_segments_nonempty split: option.splits)

lemma match_segment_mono:
  assumes "cr_deny rules' = cr_deny rules @ extra" "cr_confirm rules' = cr_confirm rules"
    "cr_allow rules' = cr_allow rules" "cr_default rules' = cr_default rules"
    "cr_auto_allow_readonly rules' = cr_auto_allow_readonly rules"
  shows "match_segment compile rules s \<le> match_segment compile rules' s"
  using assms by (auto simp: match_segment_def match_any_iff auto_allow_readonly_enabled_def)

section \<open>What the read-only list lets through\<close>

text \<open>Declaratively: an argument that stays below the workspace and that no shell expands.\<close>

definition confined_argument :: "bytes \<Rightarrow> bool" where
  "confined_argument a \<longleftrightarrow>
     a \<noteq> [] \<and> \<not> (\<exists>r. a = CHR ''/'' # r) \<and> \<not> (\<exists>p r. a = p @ ''..'' @ r) \<and>
     set a \<inter> set expansion_chars = {}"

text \<open>A git invocation that reads and starts no external program: nothing but \<^verbatim>\<open>-C\<close> with a directory in front of the
  verb, both programs switched off by an option (behind the argument \<^verbatim>\<open>--\<close> there are only paths), and no option
  that is not on the list.\<close>

definition git_options :: "bytes list \<Rightarrow> bytes list" where
  "git_options rest = filter (\<lambda>a. has_prefix a ''-'') (takeWhile (\<lambda>a. a \<noteq> ''--'') rest)"

definition git_reads :: "bytes list \<Rightarrow> bool" where
  "git_reads args \<longleftrightarrow>
     (\<exists>dirs verb rest. args = concat (map (\<lambda>d. [''-C'', d]) dirs) @ verb # rest \<and>
        verb \<in> {''status'', ''diff'', ''log'', ''show''} \<and>
        (verb \<noteq> ''status'' \<longrightarrow> {''--no-ext-diff'', ''--no-textconv''} \<subseteq> set (git_options rest)) \<and>
        set (git_options rest) \<subseteq> set readonly_git_options)"

text \<open>The words are those of the shell, not the fields of Go.\<close>

definition reads_only :: "bytes \<Rightarrow> bool" where
  "reads_only segment \<longleftrightarrow>
     set (trim_space segment) \<inter> set redirection_chars = {} \<and>
     (\<exists>verb args. shell_words (trim_space segment) = verb # args \<and>
        verb \<in> {''ls'', ''pwd'', ''cat'', ''head'', ''tail'', ''git''} \<and>
        (\<forall>a \<in> set args. confined_argument a) \<and>
        (verb = ''pwd'' \<longrightarrow> args = []) \<and> (verb = ''git'' \<longrightarrow> git_reads args))"

lemma contains_any_disjoint: "\<not> contains_any s cs \<longleftrightarrow> set s \<inter> set cs = {}"
  by (auto simp: contains_any_iff)

lemma safe_argument_confined: "safe_readonly_argument a \<longleftrightarrow> confined_argument a"
  by (simp add: safe_readonly_argument_def confined_argument_def has_prefix_iff contains_sub_iff
      contains_any_disjoint)

lemma confined_literals:
  "confined_argument ''-C'' \<and> (\<forall>verb \<in> {''status'', ''diff'', ''log'', ''show''}. confined_argument verb)"
  unfolding safe_argument_confined [symmetric] by code_simp

lemma all_readonly_arguments_iff: "all_readonly_arguments args \<longleftrightarrow> (\<forall>a \<in> set args. safe_readonly_argument a)"
  by (induction args) auto

lemma readonly_git_loop_safe: "readonly_git_loop paths args \<Longrightarrow> a \<in> set args \<Longrightarrow> safe_readonly_argument a"
  by (induction paths args rule: readonly_git_loop.induct) (auto split: if_splits)

lemma readonly_git_loop_options:
  "readonly_git_loop False args \<Longrightarrow> a \<in> set (takeWhile (\<lambda>a. a \<noteq> ''--'') args) \<Longrightarrow> has_prefix a ''-'' \<Longrightarrow>
   a \<in> set readonly_git_options"
  by (induction args) (auto split: if_splits)

lemma scan_git_flags_set:
  "scan_git_flags (e, t) args = (e', t') \<Longrightarrow>
   (e' \<longrightarrow> e \<or> ''--no-ext-diff'' \<in> set (git_options args)) \<and>
   (t' \<longrightarrow> t \<or> ''--no-textconv'' \<in> set (git_options args))"
proof (induction args arbitrary: e t)
  case (Cons arg args)
  have dash: "has_prefix ''--no-ext-diff'' ''-''" "has_prefix ''--no-textconv'' ''-''" by code_simp+
  show ?case
  proof (cases "arg = ''--''")
    case False
    then have "scan_git_flags (e \<or> arg = ''--no-ext-diff'', t \<or> arg = ''--no-textconv'') args = (e', t')"
      using Cons.prems by simp
    from Cons.IH [OF this] show ?thesis using dash False by (auto simp: git_options_def)
  qed (use Cons in \<open>simp\<close>)
qed simp

lemma strip_git_dirs_Some:
  "strip_git_dirs args = Some rest \<Longrightarrow>
   \<exists>dirs. args = concat (map (\<lambda>d. [''-C'', d]) dirs) @ rest \<and> (\<forall>d \<in> set dirs. confined_argument d)"
proof (induction args arbitrary: rest rule: strip_git_dirs.induct)
  case (3 arg dir args)
  show ?case
  proof (cases "arg = ''-C''")
    case True
    with 3 have "confined_argument dir" and "strip_git_dirs args = Some rest"
      by (auto simp: safe_argument_confined split: if_splits)
    with 3 True obtain dirs where "args = concat (map (\<lambda>d. [''-C'', d]) dirs) @ rest" "\<forall>d \<in> set dirs. confined_argument d"
      by (auto simp: safe_argument_confined)
    with True \<open>confined_argument dir\<close> show ?thesis
      by (intro exI [of _ "dir # dirs"]) simp
  qed (use 3 in simp)
qed (simp_all split: if_splits)

lemma is_readonly_git_cases:
  assumes "is_readonly_git args"
  shows "\<exists>verb rest. strip_git_dirs args = Some (verb # rest) \<and>
    verb \<in> {''status'', ''diff'', ''log'', ''show''} \<and> readonly_git_loop False rest \<and>
    (verb \<noteq> ''status'' \<longrightarrow> scan_git_flags (False, False) rest = (True, True))"
proof -
  from assms obtain verb rest where strip: "strip_git_dirs args = Some (verb # rest)"
    by (simp add: is_readonly_git_def split: option.splits list.splits)
  with assms have "(if verb = ''status'' then readonly_git_loop False rest
      else if verb = ''diff'' \<or> verb = ''log'' \<or> verb = ''show'' then
        (let (no_external, no_textconv) = scan_git_flags (False, False) rest in
         no_external \<and> no_textconv \<and> readonly_git_loop False rest) else False)"
    by (simp only: is_readonly_git_def readonly_git_arguments_def option.case list.case)
  then have "verb \<in> {''status'', ''diff'', ''log'', ''show''} \<and> readonly_git_loop False rest \<and>
    (verb \<noteq> ''status'' \<longrightarrow> scan_git_flags (False, False) rest = (True, True))"
    by (simp only: Let_def split: if_split_asm prod.splits) auto
  with strip show ?thesis by blast
qed

lemma is_readonly_segment_cases:
  assumes "is_readonly_segment segment"
  shows "\<exists>verb args. go_fields (trim_space segment) = verb # args \<and>
    \<not> contains_any (trim_space segment) redirection_chars \<and>
    (verb \<in> {''ls'', ''cat'', ''head'', ''tail''} \<and> all_readonly_arguments args \<or>
     verb = ''pwd'' \<and> args = [] \<or> verb = ''git'' \<and> is_readonly_git args)"
proof -
  from assms have plain: "\<not> contains_any (trim_space segment) redirection_chars"
    unfolding is_readonly_segment_def Let_def by presburger
  from assms have "(case go_fields (trim_space segment) of
             [] \<Rightarrow> False
           | verb # args \<Rightarrow>
               if verb = ''ls'' then all_readonly_arguments args
               else if verb = ''pwd'' then args = []
               else if verb \<in> {''cat'', ''head'', ''tail''} then all_readonly_arguments args
               else if verb = ''git'' then is_readonly_git args
               else False)"
    unfolding is_readonly_segment_def Let_def by presburger
  then obtain verb args where f: "go_fields (trim_space segment) = verb # args"
    and "if verb = ''ls'' then all_readonly_arguments args
               else if verb = ''pwd'' then args = []
               else if verb \<in> {''cat'', ''head'', ''tail''} then all_readonly_arguments args
               else if verb = ''git'' then is_readonly_git args
               else False"
    by (cases "go_fields (trim_space segment)") (simp_all only: list.case)
  then have "verb \<in> {''ls'', ''cat'', ''head'', ''tail''} \<and> all_readonly_arguments args \<or>
     verb = ''pwd'' \<and> args = [] \<or> verb = ''git'' \<and> is_readonly_git args"
    by (simp only: split: if_split_asm) blast+
  with f plain show ?thesis by blast
qed

lemma is_readonly_git_reads:
  assumes "is_readonly_git args"
  shows "git_reads args \<and> (\<forall>a \<in> set args. confined_argument a)"
proof -
  from is_readonly_git_cases [OF assms] obtain verb rest where strip: "strip_git_dirs args = Some (verb # rest)"
    and verb: "verb \<in> {''status'', ''diff'', ''log'', ''show''}" and loop: "readonly_git_loop False rest"
    and flags: "verb \<noteq> ''status'' \<longrightarrow> scan_git_flags (False, False) rest = (True, True)"
    by blast
  from strip_git_dirs_Some [OF strip] obtain dirs where args: "args = concat (map (\<lambda>d. [''-C'', d]) dirs) @ verb # rest"
    and dirs: "\<forall>d \<in> set dirs. confined_argument d" by blast
  have "\<forall>a \<in> set rest. confined_argument a"
    using loop readonly_git_loop_safe safe_argument_confined by blast
  moreover have "confined_argument verb" using verb confined_literals by blast
  moreover have "\<forall>a \<in> set (concat (map (\<lambda>d. [''-C'', d]) dirs)). confined_argument a"
    using dirs confined_literals by auto
  ultimately have "\<forall>a \<in> set args. confined_argument a" unfolding args by (simp only: set_append list.set ball_Un ball_simps)
  moreover have "verb \<noteq> ''status'' \<longrightarrow> {''--no-ext-diff'', ''--no-textconv''} \<subseteq> set (git_options rest)"
    using flags scan_git_flags_set by blast
  moreover have "set (git_options rest) \<subseteq> set readonly_git_options"
    using readonly_git_loop_options [OF loop] by (auto simp: git_options_def)
  ultimately show ?thesis unfolding git_reads_def using args verb by blast
qed

lemma is_readonly_segment_reads:
  assumes "is_readonly_segment segment" "blanks_only segment"
  shows "reads_only segment"
proof -
  from is_readonly_segment_cases [OF assms(1)] obtain verb args
    where fields: "go_fields (trim_space segment) = verb # args"
    and free: "\<not> contains_any (trim_space segment) redirection_chars"
    and cases: "verb \<in> {''ls'', ''cat'', ''head'', ''tail''} \<and> all_readonly_arguments args \<or>
     verb = ''pwd'' \<and> args = [] \<or> verb = ''git'' \<and> is_readonly_git args"
    by (elim exE conjE) (rule that)
  have "blanks_only (trim_space segment)" using assms(2) trim_space_sub [of segment] blanks_only_sub by metis
  then have f: "shell_words (trim_space segment) = verb # args" using fields go_fields_words by simp
  from free have plain: "set (trim_space segment) \<inter> set redirection_chars = {}"
    by (simp only: contains_any_disjoint)
  have "(\<forall>a \<in> set args. confined_argument a) \<and> (verb = ''pwd'' \<longrightarrow> args = []) \<and> (verb = ''git'' \<longrightarrow> git_reads args)"
  proof (cases "verb = ''git''")
    case True
    then have "is_readonly_git args" using cases by simp
    then show ?thesis using is_readonly_git_reads True by simp
  next
    case False
    then have "all_readonly_arguments args \<and> (verb = ''pwd'' \<longrightarrow> args = [])" using cases by auto
    with False show ?thesis by (simp add: all_readonly_arguments_iff safe_argument_confined)
  qed
  moreover have "verb \<in> {''ls'', ''pwd'', ''cat'', ''head'', ''tail'', ''git''}" using cases by auto
  ultimately show ?thesis unfolding reads_only_def using f plain by (intro conjI exI [of _ verb] exI [of _ args]) simp_all
qed

lemma covers_sub: "covers p segments \<Longrightarrow> s \<in> set segments \<Longrightarrow> \<exists>a b. p = a @ seg_command s @ b"
proof (induction rule: covers.induct)
  case (covers_cut p segments raw ended operator)
  obtain a b where raw: "raw = a @ trim_space raw @ b" using trim_space_sub by blast
  show ?case
  proof (cases "s \<in> set segments")
    case True
    with covers_cut obtain c d where "p = c @ seg_command s @ d" by blast
    then have "p @ raw @ ended = c @ seg_command s @ (d @ raw @ ended)" by simp
    then show ?thesis by blast
  next
    case False
    with covers_cut have "seg_command s = trim_space raw" by auto
    with raw have "p @ raw @ ended = (p @ a) @ seg_command s @ (b @ ended)" by (metis append_assoc)
    then show ?thesis by blast
  qed
next
  case (covers_skip p segments raw ended)
  then obtain a b where "p = a @ seg_command s @ b" by blast
  then have "p @ raw @ ended = a @ seg_command s @ (b @ raw @ ended)" by simp
  then show ?case by blast
qed simp

lemma segment_blanks_only:
  assumes "command_segments command = Some segments" "s \<in> set segments" "blanks_only command"
  shows "blanks_only (seg_command s)"
proof -
  from command_segments_covers [OF assms(1)] obtain p raw before where command: "command = p @ raw" "covers p before"
    and segments: "if blank raw then segments = before
      else segments = before @ [\<lparr>seg_command = trim_space raw, seg_operator = []\<rparr>]"
    unfolding covers_all_def by blast
  have "\<exists>a b. command = a @ seg_command s @ b"
  proof (cases "s \<in> set before")
    case True
    with covers_sub [OF command(2)] obtain a b where "p = a @ seg_command s @ b" by blast
    with command(1) have "command = a @ seg_command s @ (b @ raw)" by simp
    then show ?thesis by blast
  next
    case False
    with assms(2) segments have "seg_command s = trim_space raw" by (auto split: if_splits)
    moreover obtain a b where "raw = a @ trim_space raw @ b" using trim_space_sub by blast
    ultimately have "command = (p @ a) @ seg_command s @ b" using command(1) by (metis append_assoc)
    then show ?thesis by blast
  qed
  with assms(3) blanks_only_sub show ?thesis by metis
qed

lemma is_readonly_command_reads:
  assumes "is_readonly_command command" "blanks_only command"
  shows "\<exists>ts. command_segments command = Some ts \<and> (\<forall>t \<in> set ts. reads_only (seg_command t))"
proof (cases "command_segments command")
  case (Some ts)
  with assms have "\<forall>t \<in> set ts. is_readonly_segment (seg_command t)"
    by (simp add: is_readonly_command_def list_all_iff split: if_splits)
  moreover have "\<forall>t \<in> set ts. blanks_only (seg_command t)" using segment_blanks_only [OF Some _ assms(2)] by blast
  ultimately show ?thesis using Some by (blast intro: is_readonly_segment_reads)
qed (use assms(1) in \<open>simp add: is_readonly_command_def\<close>)

section \<open>Properties\<close>


definition quoted_command :: bytes where
  "quoted_command = ''a \"$x\" '' @ [CHR 0x27, CHR 0x60, CHR 0x27] @ '' #b'' @ line_feed @
     ''c<<'' @ [CHR 0x27] @ ''A'' @ [CHR 0x27] @ line_feed @ ''$('' @ line_feed @ ''A''"


text \<open>C27: the segments of an accepted command cover all of it: the command is a row of pieces, each
  the raw text of one segment (white space trimmed) followed by its operator, or a blank line,
  so that no text of the command escapes the review of the segments.\<close>

theorem segments_cover_the_command:
  assumes "command_segments command = Some segments"
  shows "covers_all command segments \<and> segments \<noteq> [] \<and> (\<forall>s \<in> set segments. seg_command s \<noteq> [])"
proof -
  from assms have "covers_all command segments" by (rule command_segments_covers)
  with command_segments_nonempty [OF assms] show ?thesis
    by (auto dest: covers_all_nonblank)
qed

theorem segments_cover_the_command_witness:
  "covers_all ''a | b;c'' [\<lparr>seg_command = ''a'', seg_operator = ''|''\<rparr>,
     \<lparr>seg_command = ''b'', seg_operator = '';''\<rparr>, \<lparr>seg_command = ''c'', seg_operator = ''''\<rparr>]"
proof -
  have "command_segments ''a | b;c'' = Some [\<lparr>seg_command = ''a'', seg_operator = ''|''\<rparr>,
     \<lparr>seg_command = ''b'', seg_operator = '';''\<rparr>, \<lparr>seg_command = ''c'', seg_operator = ''''\<rparr>]"
    by code_simp
  from segments_cover_the_command [OF this] show ?thesis by simp
qed

text \<open>Pipes, line breaks and redirections are accepted, and a process substitution stays
  unsplit inside its segment. The guide of the project lists pipes, redirections and newlines as
  rejected, and the comment of the scanner says that unsupported shell features fail closed.\<close>

theorem accepted_shell_forms:
  "map_option (map seg_command) (command_segments ''ls | wc'') = Some [''ls'', ''wc''] \<and>
   map_option (map seg_command) (command_segments (''ls'' @ [CHR 0x0A] @ ''pwd'')) = Some [''ls'', ''pwd''] \<and>
   map_option (map seg_command) (command_segments ''ls > out'') = Some [''ls > out''] \<and>
   map_option (map seg_command) (command_segments ''cat <(rm x)'') = Some [''cat <(rm x)'']"
  by (intro conjI; code_simp)

text \<open>The decision for a command is the strictest of the decisions for its segments (Deny when
  the scanner rejects it), and the analysis lists every segment with its own decision.\<close>

theorem analysis_is_the_strictest_segment:
  "analyze_command compile rules command =
   (case command_segments command of
      None \<Rightarrow> \<lparr>an_decision = Deny, an_segments = [], an_unsafe = True\<rparr>
    | Some ss \<Rightarrow>
        \<lparr>an_decision = fold max (map (\<lambda>s. match_segment compile rules (seg_command s)) ss) Allow,
         an_segments = map (\<lambda>s. \<lparr>sd_command = seg_command s, sd_operator = seg_operator s,
            sd_decision = match_segment compile rules (seg_command s)\<rparr>) ss,
         an_unsafe = False\<rparr>)"
proof -
  have "an_unsafe (analyze_segments compile rules ss a) = an_unsafe a" for ss a
    by (induction ss arbitrary: a) (simp_all add: Let_def)
  then show ?thesis
    by (auto simp: analyze_command_def analyze_segments_decision analyze_segments_segments
        intro!: command_analysis.equality dest: command_segments_nonempty split: option.splits)
qed

text \<open>Adding patterns to the deny list never makes the decision for any command milder.\<close>

theorem more_deny_rules_never_relax:
  "match_command compile rules command
     \<le> match_command compile (rules\<lparr>cr_deny := cr_deny rules @ extra\<rparr>) command"
proof (cases "command_segments command")
  case None
  then show ?thesis by (simp add: match_command_eq)
next
  case (Some ss)
  have "list_all2 (\<le>) (map (\<lambda>s. match_segment compile rules (seg_command s)) ss)
      (map (\<lambda>s. match_segment compile (rules\<lparr>cr_deny := cr_deny rules @ extra\<rparr>) (seg_command s)) ss)"
    by (auto simp: list_all2_conv_all_nth intro: match_segment_mono)
  with Some show ?thesis by (simp add: match_command_eq fold_max_mono)
qed


definition confirm_rules :: command_rules where
  "confirm_rules = \<lparr>cr_default = ''confirm'', cr_allow = [], cr_confirm = [], cr_deny = [],
     cr_auto_allow_readonly = None\<rparr>"


text \<open>What the hypothesis leaves out: a vertical tab is white space to Go and part of a word to the shell. The command
  is allowed as a listing, and the shell runs the file it names, which the workspace may hold.\<close>

lemma odd_space_is_read_only:
  "match_command (\<lambda>_. None) confirm_rules (''ls'' @ [CHR 0x0B] @ ''a/b'') = Allow \<and>
   go_fields (''ls'' @ [CHR 0x0B] @ ''a/b'') = [''ls'', ''a/b''] \<and>
   shell_words (''ls'' @ [CHR 0x0B] @ ''a/b'') = [''ls'' @ [CHR 0x0B] @ ''a/b'']"
  by (intro conjI; code_simp)

end
