(* ===== verification/Idempotency.thy ===== *)
theory Idempotency
  imports Prelude
begin

text \<open>
  The request replay records of \<^verbatim>\<open>internal/idempotency/store.go\<close>. The state is the part of the
  database all processes share (\<open>id_rows\<close>, keyed by the four columns of the primary key) and the
  two maps of one process: \<open>id_flights\<close> (the executions it owns) and \<open>id_uncertain\<close> (effects it could
  not settle). \<^verbatim>\<open>Claim\<close> releases its lock between its accesses: \<open>env k\<close> is what the rest of the
  program (this process and others) does to the state before the \<open>k\<close>-th access, \<open>io k\<close> tells
  whether the \<open>k\<close>-th statement reaches the database. Times are nanoseconds; the table stores
  milliseconds.
\<close>

section \<open>Data\<close>

datatype idem_state = Idem_Pending | Idem_Succeeded | Idem_Failed | Idem_In_Doubt

record idem_key =
  ik_session :: bytes
  ik_principal :: bytes
  ik_operation :: bytes
  ik_value :: bytes

definition key_valid :: "idem_key \<Rightarrow> bool" where
  "key_valid k \<longleftrightarrow> trim_space (ik_session k) \<noteq> [] \<and> trim_space (ik_principal k) \<noteq> [] \<and>
     trim_space (ik_operation k) \<noteq> [] \<and> trim_space (ik_value k) \<noteq> []"

definition identity :: "idem_key \<Rightarrow> bytes" where
  "identity k = join [ik_session k, ik_principal k, ik_operation k, ik_value k] [CHR 0x00]"

text \<open>A row, with times in milliseconds.\<close>

record idem_row =
  ir_fingerprint :: bytes
  ir_state :: idem_state
  ir_response :: bytes
  ir_metadata :: bytes
  ir_created :: int
  ir_updated :: int
  ir_expires :: int

record idem_store =
  id_rows :: "idem_key \<Rightarrow> idem_row option"
  id_flights :: "bytes \<Rightarrow> bytes option"
  id_uncertain :: "bytes \<Rightarrow> bytes option"

datatype claim = Owner idem_row | Replay idem_row | Wait_Flight | Pending_Elsewhere idem_row
  | In_Doubt idem_row | Conflict "idem_row option"

datatype idem_error = Invalid_Request | Database_Error | No_Rows | Disappeared | Invalid_State

definition milli :: "int \<Rightarrow> int" where
  "milli t = t div 1000000"

definition pending_lease :: int where
  "pending_lease = 30 * 1000000000"

definition empty_json :: bytes where
  "empty_json = ''{}''"

section \<open>Claiming\<close>

definition new_row :: "bytes \<Rightarrow> int \<Rightarrow> int \<Rightarrow> idem_row" where
  "new_row fp ttl now =
     \<lparr>ir_fingerprint = fp, ir_state = Idem_Pending, ir_response = empty_json, ir_metadata = empty_json,
      ir_created = milli now, ir_updated = milli now,
      ir_expires = milli (now + (if ttl \<le> 0 then 24 * 60 * 60 * 1000000000 else ttl))\<rparr>"

definition set_flight :: "idem_key \<Rightarrow> bytes \<Rightarrow> idem_store \<Rightarrow> idem_store" where
  "set_flight k fp s = s\<lparr>id_flights := (id_flights s)(identity k \<mapsto> fp)\<rparr>"

fun claim_terminal :: "idem_row \<Rightarrow> claim" where
  "claim_terminal r =
     (if ir_state r = Idem_Succeeded \<or> ir_state r = Idem_Failed then Replay r
      else if ir_state r = Idem_In_Doubt then In_Doubt r
      else Pending_Elsewhere r)"

text \<open>The conditional UPDATE that takes over a pending row whose lease has run out.\<close>

definition take_lease :: "idem_key \<Rightarrow> bytes \<Rightarrow> idem_row \<Rightarrow> int \<Rightarrow> idem_store \<Rightarrow> idem_store option" where
  "take_lease k fp seen now s =
     (case id_rows s k of
        None \<Rightarrow> None
      | Some r \<Rightarrow>
          if ir_fingerprint r = fp \<and> ir_state r = Idem_Pending \<and> ir_updated r = ir_updated seen
          then Some (s\<lparr>id_rows := (id_rows s)(k \<mapsto> r\<lparr>ir_updated := milli now\<rparr>)\<rparr>)
          else None)"

text \<open>From the fingerprint check on; \<open>r\<close> is the record read.\<close>

definition claim_record :: "(nat \<Rightarrow> idem_store \<Rightarrow> idem_store) \<Rightarrow> (nat \<Rightarrow> bool) \<Rightarrow> idem_key \<Rightarrow> bytes \<Rightarrow> int \<Rightarrow>
    idem_row \<Rightarrow> idem_store \<Rightarrow> idem_store \<times> (idem_error, claim) result" where
  "claim_record env io k fp now r s =
     (if ir_fingerprint r \<noteq> fp then (s, Inr (Conflict (Some r)))
      else if ir_state r \<noteq> Idem_Pending then (s, Inr (claim_terminal r))
      else
        let s = env 4 s in
        if id_flights s (identity k) = Some fp then (s, Inr Wait_Flight)
        else if now - ir_updated r * 1000000 \<ge> pending_lease then
          let s = env 5 s in
          if \<not> io 5 then (s, Inl Database_Error)
          else case take_lease k fp r now s of
            Some s' \<Rightarrow> (set_flight k fp s', Inr (Owner (r\<lparr>ir_updated := milli now\<rparr>)))
          | None \<Rightarrow>
              let s = env 6 s in
              if \<not> io 6 then (s, Inl Database_Error)
              else case id_rows s k of
                None \<Rightarrow> (s, Inl No_Rows)
              | Some r' \<Rightarrow>
                  if ir_fingerprint r' \<noteq> fp then (s, Inr (Conflict (Some r')))
                  else if ir_state r' \<noteq> Idem_Pending then (s, Inr (claim_terminal r'))
                  else (s, Inr (Pending_Elsewhere r'))
        else (s, Inr (Pending_Elsewhere r)))"

definition claim_uncertain :: "(nat \<Rightarrow> idem_store \<Rightarrow> idem_store) \<Rightarrow> (nat \<Rightarrow> bool) \<Rightarrow> idem_key \<Rightarrow> bytes \<Rightarrow> bytes \<Rightarrow>
    idem_store \<Rightarrow> idem_store \<times> (idem_error, claim) result" where
  "claim_uncertain env io k fp u s =
     (if u \<noteq> fp then (s, Inr (Conflict None))
      else
        let s = env 1 s in
        if \<not> io 1 then (s, Inl Database_Error)
        else case id_rows s k of
          None \<Rightarrow> (s, Inl No_Rows)
        | Some r \<Rightarrow>
            if ir_fingerprint r \<noteq> fp then (s, Inr (Conflict (Some r)))
            else if ir_state r = Idem_Succeeded \<or> ir_state r = Idem_Failed then (s, Inr (Replay r))
            else (s, Inr (In_Doubt (r\<lparr>ir_state := Idem_In_Doubt\<rparr>))))"

definition claim_request :: "(nat \<Rightarrow> idem_store \<Rightarrow> idem_store) \<Rightarrow> (nat \<Rightarrow> bool) \<Rightarrow> idem_key \<Rightarrow> bytes \<Rightarrow> int \<Rightarrow>
    int \<Rightarrow> idem_store \<Rightarrow> idem_store \<times> (idem_error, claim) result" where
  "claim_request env io k fp ttl now s =
     (if \<not> key_valid k \<or> trim_space fp = [] then (s, Inl Invalid_Request)
      else
        let s = env 0 s in
        case id_flights s (identity k) of
          Some active \<Rightarrow> (s, Inr (if active \<noteq> fp then Conflict None else Wait_Flight))
        | None \<Rightarrow>
            (case id_uncertain s (identity k) of
               Some u \<Rightarrow> claim_uncertain env io k fp u s
             | None \<Rightarrow>
                 let s = env 1 s in
                 if \<not> io 1 then (s, Inl Database_Error)
                 else case id_rows s k of
                   Some r \<Rightarrow> claim_record env io k fp now r s
                 | None \<Rightarrow>
                     let s = env 2 s in
                     if io 2 \<and> id_rows s k = None then
                       (set_flight k fp (s\<lparr>id_rows := (id_rows s)(k \<mapsto> new_row fp ttl now)\<rparr>),
                        Inr (Owner (new_row fp ttl now)))
                     else
                       let s = env 3 s in
                       if \<not> io 3 then (s, Inl Database_Error)
                       else case id_rows s k of
                         None \<Rightarrow> (s, Inl No_Rows)
                       | Some r \<Rightarrow> claim_record env io k fp now r s))"

section \<open>Finishing\<close>

definition finish_flight :: "idem_key \<Rightarrow> idem_store \<Rightarrow> idem_store" where
  "finish_flight k s = s\<lparr>id_flights := (id_flights s)(identity k := None)\<rparr>"

definition or_default :: "bytes option \<Rightarrow> bytes" where
  "or_default b = (case b of None \<Rightarrow> empty_json | Some x \<Rightarrow> x)"

text \<open>The UPDATE of the row with this key and fingerprint, if there is one.\<close>

definition update_row :: "idem_key \<Rightarrow> bytes \<Rightarrow> (idem_row \<Rightarrow> idem_row) \<Rightarrow> idem_store \<Rightarrow> idem_store option" where
  "update_row k fp f s =
     (case id_rows s k of
        None \<Rightarrow> None
      | Some r \<Rightarrow> if ir_fingerprint r = fp then Some (s\<lparr>id_rows := (id_rows s)(k \<mapsto> f r)\<rparr>) else None)"

definition complete_request :: "bool \<Rightarrow> idem_key \<Rightarrow> bytes \<Rightarrow> idem_state \<Rightarrow> bytes option \<Rightarrow> bytes option \<Rightarrow> int \<Rightarrow>
    idem_store \<Rightarrow> idem_store \<times> (idem_error, unit) result" where
  "complete_request io k fp st response metadata now s =
     (if \<not> key_valid k \<or> trim_space fp = [] then (s, Inl Invalid_Request)
      else if st = Idem_Pending then (s, Inl Invalid_State)
      else if \<not> io then (s, Inl Database_Error)
      else case update_row k fp (\<lambda>r. r\<lparr>ir_state := st, ir_response := or_default response,
                 ir_metadata := or_default metadata, ir_updated := milli now\<rparr>) s of
             None \<Rightarrow> (s, Inl Disappeared)
           | Some s' \<Rightarrow> (finish_flight k s', Inr ()))"

definition update_pending :: "bool \<Rightarrow> idem_key \<Rightarrow> bytes \<Rightarrow> bytes option \<Rightarrow> bytes option \<Rightarrow> int \<Rightarrow>
    idem_store \<Rightarrow> idem_store \<times> (idem_error, unit) result" where
  "update_pending io k fp response metadata now s =
     (if \<not> key_valid k \<or> trim_space fp = [] then (s, Inl Invalid_Request)
      else if \<not> io then (s, Inl Database_Error)
      else (case update_row k fp (\<lambda>r. if ir_state r = Idem_Pending
                then r\<lparr>ir_response := or_default response, ir_metadata := or_default metadata,
                      ir_updated := milli now\<rparr> else r) s of
              None \<Rightarrow> (s, Inr ()) | Some s' \<Rightarrow> (s', Inr ())))"

definition abandon_request :: "bool \<Rightarrow> idem_key \<Rightarrow> bytes \<Rightarrow> idem_store \<Rightarrow> idem_store \<times> (idem_error, unit) result" where
  "abandon_request io k fp s =
     (if \<not> key_valid k \<or> trim_space fp = [] then (s, Inl Invalid_Request)
      else if \<not> io then (s, Inl Database_Error)
      else case id_rows s k of
             None \<Rightarrow> (s, Inr ())
           | Some r \<Rightarrow>
               if ir_fingerprint r = fp \<and> ir_state r = Idem_Pending
               then (finish_flight k (s\<lparr>id_rows := (id_rows s)(k := None)\<rparr>), Inr ())
               else (s, Inr ()))"

text \<open>The deferred function of \<^verbatim>\<open>MarkInDoubt\<close>.\<close>

definition leave_in_doubt :: "idem_key \<Rightarrow> bytes \<Rightarrow> idem_store \<Rightarrow> idem_store" where
  "leave_in_doubt k fp s =
     (if id_flights s (identity k) = Some fp
      then s\<lparr>id_uncertain := (id_uncertain s)(identity k \<mapsto> fp),
             id_flights := (id_flights s)(identity k := None)\<rparr>
      else s)"

definition mark_in_doubt :: "bool \<Rightarrow> idem_key \<Rightarrow> bytes \<Rightarrow> bytes option \<Rightarrow> int \<Rightarrow>
    idem_store \<Rightarrow> idem_store \<times> (idem_error, unit) result" where
  "mark_in_doubt io k fp metadata now s =
     (if \<not> key_valid k \<or> trim_space fp = [] then (s, Inl Invalid_Request)
      else if \<not> io then (leave_in_doubt k fp s, Inl Database_Error)
      else case update_row k fp (\<lambda>r. r\<lparr>ir_state := Idem_In_Doubt,
                 ir_metadata := (case metadata of None \<Rightarrow> ir_metadata r | Some m' \<Rightarrow> m'),
                 ir_updated := milli now\<rparr>) s of
             None \<Rightarrow> (leave_in_doubt k fp s, Inl Disappeared)
           | Some s' \<Rightarrow> (leave_in_doubt k fp (finish_flight k s'), Inr ()))"

definition lookup_request :: "bool \<Rightarrow> idem_key \<Rightarrow> idem_store \<Rightarrow> (idem_error, idem_row option) result" where
  "lookup_request io k s =
     (if \<not> key_valid k then Inl Invalid_Request
      else if \<not> io then Inl Database_Error
      else Inr (id_rows s k))"

text \<open>\<^verbatim>\<open>Wait\<close> once the flight is done; \<^const>\<open>None\<close> is its error for a claim it cannot wait for.\<close>

definition wait_request :: "bool \<Rightarrow> claim \<Rightarrow> idem_key \<Rightarrow> idem_store \<Rightarrow> (idem_error, idem_row \<times> bool) result option" where
  "wait_request io c k s =
     (if c \<noteq> Wait_Flight then None
      else Some (if \<not> io then Inl Database_Error
        else case id_rows s k of
               None \<Rightarrow> Inl No_Rows
             | Some r \<Rightarrow> Inr (r, ir_state r \<noteq> Idem_Succeeded \<and> ir_state r \<noteq> Idem_Failed)))"

section \<open>Ownership\<close>

text \<open>The rest of the program leaves this request alone: its row, or also what the process knows of it.\<close>

definition spares_row :: "idem_key \<Rightarrow> (nat \<Rightarrow> idem_store \<Rightarrow> idem_store) \<Rightarrow> bool" where
  "spares_row k env \<longleftrightarrow> (\<forall>n s. id_rows (env n s) k = id_rows s k)"

definition spares :: "idem_key \<Rightarrow> (nat \<Rightarrow> idem_store \<Rightarrow> idem_store) \<Rightarrow> bool" where
  "spares k env \<longleftrightarrow> (\<forall>n s. id_rows (env n s) k = id_rows s k \<and>
     id_flights (env n s) (identity k) = id_flights s (identity k) \<and>
     id_uncertain (env n s) (identity k) = id_uncertain s (identity k))"

fun is_owner :: "(idem_error, claim) result \<Rightarrow> bool" where
  "is_owner (Inr (Owner r)) \<longleftrightarrow> True"
| "is_owner _ \<longleftrightarrow> False"

lemma is_owner_iff: "is_owner x \<longleftrightarrow> (\<exists>r. x = Inr (Owner r))"
  by (cases x rule: is_owner.cases) auto

lemma claim_terminal_no_owner [simp]: "claim_terminal r \<noteq> Owner r'"
  by simp

lemma spares_row_id [simp]: "spares_row k env \<Longrightarrow> id_rows (env n s) k = id_rows s k"
  by (simp add: spares_row_def)

lemma take_lease_row: "take_lease k fp seen now s = Some s' \<Longrightarrow>
    \<exists>r. id_rows s k = Some r \<and> ir_fingerprint r = fp \<and> ir_state r = Idem_Pending \<and>
      ir_updated r = ir_updated seen \<and> id_rows s' k = Some (r\<lparr>ir_updated := milli now\<rparr>)"
  by (auto simp: take_lease_def split: option.splits if_splits)

lemma set_flight_rows [simp]: "id_rows (set_flight k fp s) = id_rows s"
  by (simp add: set_flight_def)

text \<open>The row an owner leaves.\<close>

definition owned_row :: "bytes \<Rightarrow> int \<Rightarrow> idem_row option \<Rightarrow> bool" where
  "owned_row fp now row \<longleftrightarrow>
     (\<exists>r. row = Some r \<and> ir_fingerprint r = fp \<and> ir_state r = Idem_Pending \<and> ir_updated r = milli now)"

lemma claim_record_owner:
  assumes "claim_record env io k fp now r s = (s1, Inr (Owner q))"
  shows "owned_row fp now (id_rows s1 k) \<and> now - ir_updated r * 1000000 \<ge> pending_lease \<and>
    ir_state r = Idem_Pending \<and> id_flights s1 (identity k) = Some fp"
  using assms unfolding claim_record_def Let_def
  by (auto simp: owned_row_def set_flight_def dest!: take_lease_row split: if_splits option.splits)

lemma claim_owner:
  assumes "claim_request env io k fp ttl now s = (s1, Inr (Owner q))"
  shows "owned_row fp now (id_rows s1 k) \<and> id_flights s1 (identity k) = Some fp"
proof -
  have new: "owned_row fp now (Some (new_row fp ttl now))" by (simp add: owned_row_def new_row_def)
  show ?thesis
    using assms unfolding claim_request_def Let_def claim_uncertain_def
    by (auto simp: set_flight_def new dest: claim_record_owner split: if_splits option.splits)
qed

lemma claim_record_keeps:
  assumes "spares_row k env" "id_rows s k = Some r"
    "ir_state r \<noteq> Idem_Pending \<or> now - ir_updated r * 1000000 < pending_lease"
  shows "\<not> is_owner (snd (claim_record env io k fp now r s))"
  using assms unfolding claim_record_def Let_def by (auto split: option.splits)

lemma claim_no_owner:
  assumes "spares_row k env" "id_rows s k = Some r"
    "ir_state r \<noteq> Idem_Pending \<or> now - ir_updated r * 1000000 < pending_lease"
  shows "\<not> is_owner (snd (claim_request env io k fp ttl now s))"
  using assms claim_record_keeps [OF assms(1) _ assms(3)]
  unfolding claim_request_def Let_def claim_uncertain_def
  by (auto simp del: claim_terminal.simps split: option.splits if_splits)

definition sample_key :: idem_key where
  "sample_key = \<lparr>ik_session = ''s'', ik_principal = ''p'', ik_operation = ''edit'', ik_value = ''1''\<rparr>"

definition empty_idem :: idem_store where
  "empty_idem = \<lparr>id_rows = (\<lambda>_. None), id_flights = (\<lambda>_. None), id_uncertain = (\<lambda>_. None)\<rparr>"

text \<open>A settled request is never executed again: a claim on a record that is not pending makes nobody
  an owner, leaves the record, and a replay is a replay of exactly that record, for the same
  fingerprint only.\<close>

theorem settled_requests_are_replayed:
  assumes "id_rows s k = Some r" "ir_state r \<noteq> Idem_Pending" "spares_row k env"
  shows "\<not> is_owner (snd (claim_request env io k fp ttl now s)) \<and>
    id_rows (fst (claim_request env io k fp ttl now s)) k = Some r \<and>
    (\<forall>q. snd (claim_request env io k fp ttl now s) = Inr (Replay q) \<longrightarrow> q = r \<and> fp = ir_fingerprint r)"
proof -
  have settled: "fst (claim_record env io k fp now r s') = s' \<and>
      (\<forall>q. snd (claim_record env io k fp now r s') = Inr (Replay q) \<longrightarrow> q = r \<and> fp = ir_fingerprint r)" for s'
    using assms(2) by (auto simp: claim_record_def split: if_splits)
  show ?thesis
    using claim_no_owner [OF assms(3,1), of now io fp ttl] assms settled
    unfolding claim_request_def Let_def claim_uncertain_def
    by (auto split: option.splits if_splits)
qed

lemma settled_requests_are_replayed_witness:
  "let r = (new_row ''f'' 0 0)\<lparr>ir_state := Idem_Succeeded, ir_response := ''ok''\<rparr>;
       s = empty_idem\<lparr>id_rows := [sample_key \<mapsto> r]\<rparr> in
   snd (claim_request (\<lambda>_ s. s) (\<lambda>_. True) sample_key ''f'' 0 (90 * 1000000000) s) = Inr (Replay r) \<and>
   \<not> is_owner (snd (claim_request (\<lambda>_ s. s) (\<lambda>_. True) sample_key ''f'' 0 (90 * 1000000000) s))"
proof -
  let ?r = "(new_row ''f'' 0 0)\<lparr>ir_state := Idem_Succeeded, ir_response := ''ok''\<rparr>"
  let ?s = "empty_idem\<lparr>id_rows := [sample_key \<mapsto> ?r]\<rparr>"
  have row: "id_rows ?s sample_key = Some ?r" "ir_state ?r \<noteq> Idem_Pending" by simp_all
  have "spares_row sample_key (\<lambda>_ s. s)" by (simp add: spares_row_def)
  note replay = settled_requests_are_replayed [OF row this, of "\<lambda>_. True" "''f''" 0 "90 * 1000000000"]
  have "snd (claim_request (\<lambda>_ s. s) (\<lambda>_. True) sample_key ''f'' 0 (90 * 1000000000) ?s) = Inr (Replay ?r)"
    by code_simp
  then show ?thesis using replay unfolding Let_def by blast
qed

text \<open>After the owner has marked its request in doubt, nobody in the process becomes its owner again,
  whether or not the database could be told.\<close>

theorem doubtful_requests_are_not_repeated:
  assumes "id_flights s (identity k) = Some fp" "key_valid k" "trim_space fp \<noteq> []"
    "spares k env" "fst (mark_in_doubt io k fp metadata now s) = s'"
  shows "id_flights s' (identity k) = None \<and> \<not> is_owner (snd (claim_request env io2 k fp2 ttl now2 s'))"
proof -
  have spare: "spares_row k env" using assms(4) by (simp add: spares_def spares_row_def)
  have uncertain: "\<not> is_owner (snd (claim_request env io2 k fp2 ttl now2 t))"
    if "id_uncertain t (identity k) = Some u" for t u
    using that assms(4) unfolding claim_request_def Let_def claim_uncertain_def spares_def
    by (auto split: option.splits if_splits)
  show ?thesis
  proof (cases "io \<and> (\<exists>r. id_rows s k = Some r \<and> ir_fingerprint r = fp)")
    case True
    then obtain r where r: "id_rows s' k = Some r" "ir_state r = Idem_In_Doubt" "id_flights s' (identity k) = None"
      using assms by (auto simp: mark_in_doubt_def update_row_def leave_in_doubt_def finish_flight_def)
    then show ?thesis using claim_no_owner [OF spare r(1)] by simp
  next
    case False
    then have "s' = leave_in_doubt k fp s"
      using assms by (auto simp: mark_in_doubt_def update_row_def split: option.splits)
    then have "id_uncertain s' (identity k) = Some fp" "id_flights s' (identity k) = None"
      using assms(1) by (simp_all add: leave_in_doubt_def)
    then show ?thesis using uncertain by simp
  qed
qed

lemma doubtful_requests_are_not_repeated_witness:
  "let s = empty_idem\<lparr>id_flights := [identity sample_key \<mapsto> ''f'']\<rparr>;
       s' = fst (mark_in_doubt False sample_key ''f'' None 7 s) in
   \<not> is_owner (snd (claim_request (\<lambda>_ s. s) (\<lambda>_. True) sample_key ''f'' 0 8 s'))"
proof -
  let ?s = "empty_idem\<lparr>id_flights := [identity sample_key \<mapsto> ''f'']\<rparr>"
  have flight: "id_flights ?s (identity sample_key) = Some ''f''" by simp
  have valid: "key_valid sample_key" "trim_space ''f'' \<noteq> []" by code_simp+
  have "spares sample_key (\<lambda>_ s. s)" by (simp add: spares_def)
  from doubtful_requests_are_not_repeated [OF flight valid this refl] show ?thesis by (simp add: Let_def)
qed

text \<open>What an owner stores with \<^verbatim>\<open>Complete\<close> is what every later claim with the same fingerprint
  replays, in this process or another, at any time while the record lasts.\<close>

theorem completed_response_is_replayed:
  assumes "complete_request True k fp st (Some response) metadata now s = (s', Inr ())"
    "st = Idem_Succeeded \<or> st = Idem_Failed" "id_uncertain s (identity k) \<in> {None, Some fp}"
  shows "\<exists>r. id_rows s' k = Some r \<and> ir_response r = response \<and>
    claim_request (\<lambda>_ x. x) (\<lambda>_. True) k fp ttl now2 s' = (s', Inr (Replay r))"
proof -
  from assms(1) obtain r0 where "id_rows s k = Some r0" "ir_fingerprint r0 = fp"
    and valid: "key_valid k" "trim_space fp \<noteq> []"
    and s': "s' = finish_flight k (s\<lparr>id_rows := (id_rows s)(k \<mapsto> r0\<lparr>ir_state := st, ir_response := response,
        ir_metadata := or_default metadata, ir_updated := milli now\<rparr>)\<rparr>)"
    by (auto simp: complete_request_def update_row_def or_default_def split: if_splits option.splits)
  then show ?thesis using assms(2,3)
    by (auto simp: claim_request_def claim_uncertain_def claim_record_def finish_flight_def)
qed

lemma completed_response_is_replayed_witness:
  "\<exists>s'. complete_request True sample_key ''f'' Idem_Succeeded (Some ''ok'') None 9
      (fst (claim_request (\<lambda>_ s. s) (\<lambda>_. True) sample_key ''f'' 0 5 empty_idem)) = (s', Inr ()) \<and>
    (\<exists>r. ir_response r = ''ok'' \<and>
      claim_request (\<lambda>_ x. x) (\<lambda>_. True) sample_key ''f'' 0 99 s' = (s', Inr (Replay r)))"
proof -
  let ?s = "fst (claim_request (\<lambda>_ s. s) (\<lambda>_. True) sample_key ''f'' 0 5 empty_idem)"
  have "snd (complete_request True sample_key ''f'' Idem_Succeeded (Some ''ok'') None 9 ?s) = Inr ()" by code_simp
  then obtain s' where s': "complete_request True sample_key ''f'' Idem_Succeeded (Some ''ok'') None 9 ?s = (s', Inr ())"
    by (metis prod.collapse)
  have "id_uncertain ?s (identity sample_key) = None" by code_simp
  then show ?thesis using completed_response_is_replayed [OF s'] s' by blast
qed

end
