(* ===== verification/Idempotency_Race.thy ===== *)
theory Idempotency_Race
  imports Idempotency
begin

text \<open>
  Any number of claims racing for the records of \<^verbatim>\<open>internal/idempotency/store.go\<close>, in any number of processes.
  \<open>claim_access\<close> is \<^verbatim>\<open>Claim\<close> cut into its accesses to the maps of its process and to the shared table
  (\<open>claim_pieces\<close>: put together with interference between them they are \<^const>\<open>claim_request\<close>). In the world
  every access of every claim is a step of its own, and so are \<^verbatim>\<open>Complete\<close>, \<^verbatim>\<open>UpdatePending\<close>, \<^verbatim>\<open>MarkInDoubt\<close>,
  \<^verbatim>\<open>Abandon\<close> and the loss of a process; they come in any order.
\<close>

section \<open>A claim in pieces\<close>

record claim_call =
  cc_key :: idem_key
  cc_fingerprint :: bytes
  cc_ttl :: int
  cc_now :: int

text \<open>The access that comes next, with the record read before; \<open>At_Set\<close> is \<^verbatim>\<open>setFlight\<close> of a new owner.\<close>

datatype claim_pc = At_Flights | At_Uncertain | At_Read | At_Insert | At_Reread | At_Flight idem_row
  | At_Update idem_row | At_Last | At_Set idem_row | Returned "(idem_error, claim) result"

definition claim_start :: "claim_call \<Rightarrow> claim_pc" where
  "claim_start c =
     (if \<not> key_valid (cc_key c) \<or> trim_space (cc_fingerprint c) = [] then Returned (Inl Invalid_Request)
      else At_Flights)"

text \<open>From the fingerprint check to the next access.\<close>

definition after_read :: "claim_call \<Rightarrow> idem_row \<Rightarrow> claim_pc" where
  "after_read c r =
     (if ir_fingerprint r \<noteq> cc_fingerprint c then Returned (Inr (Conflict (Some r)))
      else if ir_state r \<noteq> Idem_Pending then Returned (Inr (claim_terminal r))
      else At_Flight r)"

fun claim_access :: "bool \<Rightarrow> claim_call \<Rightarrow> claim_pc \<Rightarrow> idem_store \<Rightarrow> idem_store \<times> claim_pc" where
  "claim_access io c At_Flights s =
     (s, case id_flights s (identity (cc_key c)) of
           Some active \<Rightarrow> Returned (Inr (if active \<noteq> cc_fingerprint c then Conflict None else Wait_Flight))
         | None \<Rightarrow>
             (case id_uncertain s (identity (cc_key c)) of
                Some u \<Rightarrow> if u \<noteq> cc_fingerprint c then Returned (Inr (Conflict None)) else At_Uncertain
              | None \<Rightarrow> At_Read))"
| "claim_access io c At_Uncertain s =
     (s, if \<not> io then Returned (Inl Database_Error)
         else case id_rows s (cc_key c) of
           None \<Rightarrow> Returned (Inl No_Rows)
         | Some r \<Rightarrow>
             if ir_fingerprint r \<noteq> cc_fingerprint c then Returned (Inr (Conflict (Some r)))
             else if ir_state r = Idem_Succeeded \<or> ir_state r = Idem_Failed then Returned (Inr (Replay r))
             else Returned (Inr (In_Doubt (r\<lparr>ir_state := Idem_In_Doubt\<rparr>))))"
| "claim_access io c At_Read s =
     (s, if \<not> io then Returned (Inl Database_Error)
         else case id_rows s (cc_key c) of None \<Rightarrow> At_Insert | Some r \<Rightarrow> after_read c r)"
| "claim_access io c At_Insert s =
     (if io \<and> id_rows s (cc_key c) = None
      then (s\<lparr>id_rows := (id_rows s)(cc_key c \<mapsto> new_row (cc_fingerprint c) (cc_ttl c) (cc_now c))\<rparr>,
            At_Set (new_row (cc_fingerprint c) (cc_ttl c) (cc_now c)))
      else (s, At_Reread))"
| "claim_access io c At_Reread s =
     (s, if \<not> io then Returned (Inl Database_Error)
         else case id_rows s (cc_key c) of None \<Rightarrow> Returned (Inl No_Rows) | Some r \<Rightarrow> after_read c r)"
| "claim_access io c (At_Flight r) s =
     (s, if id_flights s (identity (cc_key c)) = Some (cc_fingerprint c) then Returned (Inr Wait_Flight)
         else if cc_now c - ir_updated r * 1000000 \<ge> pending_lease then At_Update r
         else Returned (Inr (Pending_Elsewhere r)))"
| "claim_access io c (At_Update r) s =
     (if \<not> io then (s, Returned (Inl Database_Error))
      else case take_lease (cc_key c) (cc_fingerprint c) r (cc_now c) s of
             Some s' \<Rightarrow> (s', At_Set (r\<lparr>ir_updated := milli (cc_now c)\<rparr>))
           | None \<Rightarrow> (s, At_Last))"
| "claim_access io c At_Last s =
     (s, if \<not> io then Returned (Inl Database_Error)
         else case id_rows s (cc_key c) of
           None \<Rightarrow> Returned (Inl No_Rows)
         | Some r \<Rightarrow>
             if ir_fingerprint r \<noteq> cc_fingerprint c then Returned (Inr (Conflict (Some r)))
             else if ir_state r \<noteq> Idem_Pending then Returned (Inr (claim_terminal r))
             else Returned (Inr (Pending_Elsewhere r)))"
| "claim_access io c (At_Set r) s = (set_flight (cc_key c) (cc_fingerprint c) s, Returned (Inr (Owner r)))"
| "claim_access io c (Returned x) s = (s, Returned x)"

text \<open>The pieces in a row, with the interference of \<^const>\<open>claim_request\<close> before each access.\<close>

fun access_number :: "claim_pc \<Rightarrow> nat" where
  "access_number At_Flights = 0"
| "access_number At_Uncertain = 1"
| "access_number At_Read = 1"
| "access_number At_Insert = 2"
| "access_number At_Reread = 3"
| "access_number (At_Flight r) = 4"
| "access_number (At_Update r) = 5"
| "access_number At_Last = 6"
| "access_number _ = 7"

definition interfere :: "(nat \<Rightarrow> idem_store \<Rightarrow> idem_store) \<Rightarrow> claim_pc \<Rightarrow> idem_store \<Rightarrow> idem_store" where
  "interfere env pc s = (if access_number pc < 7 then env (access_number pc) s else s)"

fun claim_steps :: "(nat \<Rightarrow> idem_store \<Rightarrow> idem_store) \<Rightarrow> (nat \<Rightarrow> bool) \<Rightarrow> claim_call \<Rightarrow> nat \<Rightarrow>
    idem_store \<times> claim_pc \<Rightarrow> idem_store \<times> claim_pc" where
  "claim_steps env io c 0 x = x"
| "claim_steps env io c (Suc n) (s, pc) =
     claim_steps env io c n (claim_access (io (access_number pc)) c pc (interfere env pc s))"

lemma claim_steps_Returned [simp]: "claim_steps env io c n (s, Returned x) = (s, Returned x)"
  by (induction n) (simp_all add: interfere_def)

lemma claim_record_pieces:
  "claim_steps env io c (Suc (Suc (Suc n))) (s, after_read c r) =
   map_prod id Returned (claim_record env io (cc_key c) (cc_fingerprint c) (cc_now c) r s)"
  by (simp add: after_read_def claim_record_def interfere_def Let_def split: option.split)

lemma claim_reread_pieces:
  "claim_steps env io c (Suc (Suc (Suc (Suc n)))) (s, At_Reread) =
   map_prod id Returned
     (let s = env 3 s in
      if \<not> io 3 then (s, Inl Database_Error)
      else case id_rows s (cc_key c) of
        None \<Rightarrow> (s, Inl No_Rows)
      | Some r \<Rightarrow> claim_record env io (cc_key c) (cc_fingerprint c) (cc_now c) r s)"
proof (cases "io 3")
  case True
  then show ?thesis
    by (cases "id_rows (env 3 s) (cc_key c)")
      (simp_all add: claim_record_pieces interfere_def Let_def del: claim_steps.simps
        add: claim_steps.simps(2) [of env io c "Suc (Suc (Suc n))"])
qed (simp add: interfere_def Let_def)

lemma claim_read_pieces:
  "claim_steps env io c (Suc (Suc (Suc (Suc (Suc (Suc n)))))) (s, At_Read) =
   map_prod id Returned
     (let s = env 1 s in
      if \<not> io 1 then (s, Inl Database_Error)
      else case id_rows s (cc_key c) of
        Some r \<Rightarrow> claim_record env io (cc_key c) (cc_fingerprint c) (cc_now c) r s
      | None \<Rightarrow>
          let s = env 2 s; row = new_row (cc_fingerprint c) (cc_ttl c) (cc_now c) in
          if io 2 \<and> id_rows s (cc_key c) = None then
            (set_flight (cc_key c) (cc_fingerprint c) (s\<lparr>id_rows := (id_rows s)(cc_key c \<mapsto> row)\<rparr>), Inr (Owner row))
          else
            let s = env 3 s in
            if \<not> io 3 then (s, Inl Database_Error)
            else case id_rows s (cc_key c) of
              None \<Rightarrow> (s, Inl No_Rows)
            | Some r \<Rightarrow> claim_record env io (cc_key c) (cc_fingerprint c) (cc_now c) r s)"
proof (cases "io 1")
  case io: True
  note more = claim_record_pieces claim_reread_pieces interfere_def Let_def
  note step = claim_steps.simps(2) [of env io c "Suc (Suc (Suc (Suc (Suc n))))"]
    claim_steps.simps(2) [of env io c "Suc (Suc (Suc (Suc n)))"]
  show ?thesis
  proof (cases "id_rows (env 1 s) (cc_key c)")
    case None
    show ?thesis
    proof (cases "io 2 \<and> id_rows (env 2 (env 1 s)) (cc_key c) = None")
      case True
      then show ?thesis using io None by (simp add: interfere_def Let_def)
    next
      case False
      then show ?thesis using io None by (auto simp: more step simp del: claim_steps.simps)
    qed
  next
    case (Some r)
    with io show ?thesis by (simp add: more step del: claim_steps.simps)
  qed
qed (simp add: interfere_def Let_def)

lemma claim_uncertain_pieces:
  "claim_steps env io c (Suc n) (s, if u \<noteq> cc_fingerprint c then Returned (Inr (Conflict None)) else At_Uncertain) =
   map_prod id Returned (claim_uncertain env io (cc_key c) (cc_fingerprint c) u s)"
  by (simp add: claim_uncertain_def interfere_def Let_def split: option.split)

text \<open>Seven accesses are enough.\<close>

lemma claim_pieces:
  "claim_steps env io c 7 (s, claim_start c) =
   map_prod id Returned (claim_request env io (cc_key c) (cc_fingerprint c) (cc_ttl c) (cc_now c) s)"
proof (cases "key_valid (cc_key c) \<and> trim_space (cc_fingerprint c) \<noteq> []")
  case valid: True
  have seven: "7 = Suc (Suc (Suc (Suc (Suc (Suc (Suc 0))))))" by simp
  note first = claim_steps.simps(2) [of env io c "Suc (Suc (Suc (Suc (Suc (Suc 0)))))"]
  note start = first claim_start_def claim_request_def interfere_def Let_def
  show ?thesis
  proof (cases "id_flights (env 0 s) (identity (cc_key c))")
    case None
    then show ?thesis
    proof (cases "id_uncertain (env 0 s) (identity (cc_key c))")
      case None
      with \<open>id_flights (env 0 s) (identity (cc_key c)) = None\<close> have
        "claim_steps env io c 7 (s, claim_start c) = claim_steps env io c (Suc (Suc (Suc (Suc (Suc (Suc 0)))))) (env 0 s, At_Read)"
        using valid unfolding seven by (simp add: start del: claim_steps.simps)
      then show ?thesis
        using \<open>id_flights (env 0 s) (identity (cc_key c)) = None\<close> None valid
        by (simp only: claim_read_pieces claim_request_def option.case Let_def if_False simp_thms)
    next
      case (Some u)
      with \<open>id_flights (env 0 s) (identity (cc_key c)) = None\<close> show ?thesis
        using valid claim_uncertain_pieces [of env io c "Suc (Suc (Suc (Suc (Suc 0))))" "env 0 s" u] unfolding seven
        by (simp add: start del: claim_steps.simps)
    qed
  next
    case (Some active)
    then show ?thesis using valid unfolding seven by (simp add: start)
  qed
qed (simp add: claim_start_def claim_request_def)

section \<open>The world\<close>

record idem_running =
  rn_process :: nat
  rn_call :: claim_call
  rn_at :: claim_pc

record idem_world =
  iw_rows :: "idem_key \<Rightarrow> idem_row option"
  iw_flights :: "nat \<Rightarrow> bytes \<Rightarrow> bytes option"
  iw_uncertain :: "nat \<Rightarrow> bytes \<Rightarrow> bytes option"
  iw_claims :: "idem_running list"

text \<open>The state as a process sees it.\<close>

definition process_view :: "nat \<Rightarrow> idem_world \<Rightarrow> idem_store" where
  "process_view p w = \<lparr>id_rows = iw_rows w, id_flights = iw_flights w p, id_uncertain = iw_uncertain w p\<rparr>"

definition process_put :: "nat \<Rightarrow> idem_store \<Rightarrow> idem_world \<Rightarrow> idem_world" where
  "process_put p s w = w\<lparr>iw_rows := id_rows s, iw_flights := (iw_flights w)(p := id_flights s),
     iw_uncertain := (iw_uncertain w)(p := id_uncertain s)\<rparr>"

datatype idem_action =
    Begin nat claim_call
  | Access nat bool
  | Finish nat bool idem_key bytes idem_state "bytes option" "bytes option" int
  | Prepare nat bool idem_key bytes "bytes option" "bytes option" int
  | Doubt nat bool idem_key bytes "bytes option" int
  | Give_Up nat bool idem_key bytes
  | Lose nat

text \<open>\<open>Access i io\<close> is the next access of the \<open>i\<close>-th claim. A process that is lost comes back with empty maps; that its
  claims may still go on only adds runs.\<close>

fun idem_act :: "idem_action \<Rightarrow> idem_world \<Rightarrow> idem_world" where
  "idem_act (Begin p c) w =
     w\<lparr>iw_claims := iw_claims w @ [\<lparr>rn_process = p, rn_call = c, rn_at = claim_start c\<rparr>]\<rparr>"
| "idem_act (Access i io) w =
     (if i < length (iw_claims w) then
        let running = iw_claims w ! i;
            (s, pc) = claim_access io (rn_call running) (rn_at running) (process_view (rn_process running) w)
        in (process_put (rn_process running) s w)\<lparr>iw_claims := (iw_claims w)[i := running\<lparr>rn_at := pc\<rparr>]\<rparr>
      else w)"
| "idem_act (Finish p io k fp st response metadata now) w =
     process_put p (fst (complete_request io k fp st response metadata now (process_view p w))) w"
| "idem_act (Prepare p io k fp response metadata now) w =
     process_put p (fst (update_pending io k fp response metadata now (process_view p w))) w"
| "idem_act (Doubt p io k fp metadata now) w =
     process_put p (fst (mark_in_doubt io k fp metadata now (process_view p w))) w"
| "idem_act (Give_Up p io k fp) w = process_put p (fst (abandon_request io k fp (process_view p w))) w"
| "idem_act (Lose p) w =
     w\<lparr>iw_flights := (iw_flights w)(p := \<lambda>_. None), iw_uncertain := (iw_uncertain w)(p := \<lambda>_. None)\<rparr>"

definition idem_run :: "idem_action list \<Rightarrow> idem_world \<Rightarrow> idem_world" where
  "idem_run acts w = fold idem_act acts w"

text \<open>The record of the request stays, and \<^verbatim>\<open>UpdatePending\<close>, which writes its own time to the record, does not
  set it back. No other clock is asked for anything.\<close>

fun keeps_record :: "idem_key \<Rightarrow> idem_world \<Rightarrow> idem_action \<Rightarrow> bool" where
  "keeps_record k w (Give_Up p io k' fp) \<longleftrightarrow> k' \<noteq> k"
| "keeps_record k w (Prepare p io k' fp response metadata now) \<longleftrightarrow>
     k' = k \<longrightarrow> (case iw_rows w k of None \<Rightarrow> True | Some r \<Rightarrow> ir_updated r \<le> milli now)"
| "keeps_record k w _ \<longleftrightarrow> True"

fun record_stays :: "idem_key \<Rightarrow> idem_action list \<Rightarrow> idem_world \<Rightarrow> bool" where
  "record_stays k [] w \<longleftrightarrow> True"
| "record_stays k (a # acts) w \<longleftrightarrow> keeps_record k w a \<and> record_stays k acts (idem_act a w)"

section \<open>Owners\<close>

text \<open>The claim has won the record; it may not have told its caller yet.\<close>

fun holds :: "claim_pc \<Rightarrow> bool" where
  "holds (At_Set r) \<longleftrightarrow> True"
| "holds (Returned x) \<longleftrightarrow> is_owner x"
| "holds _ \<longleftrightarrow> False"

definition holder :: "idem_key \<Rightarrow> idem_running \<Rightarrow> bool" where
  "holder k running \<longleftrightarrow> cc_key (rn_call running) = k \<and> holds (rn_at running)"

definition lease_apart :: "int \<Rightarrow> int \<Rightarrow> bool" where
  "lease_apart a b \<longleftrightarrow>
     milli a * 1000000 + pending_lease \<le> b \<or> milli b * 1000000 + pending_lease \<le> a"

lemma lease_apart_sym: "lease_apart a b \<longleftrightarrow> lease_apart b a"
  by (auto simp: lease_apart_def)

text \<open>What happens to a record that stays: it never becomes pending again, and its time only grows.\<close>

definition row_follows :: "idem_row option \<Rightarrow> idem_row option \<Rightarrow> bool" where
  "row_follows row row' \<longleftrightarrow>
     (\<forall>r. row = Some r \<longrightarrow> (\<exists>r'. row' = Some r' \<and>
        (ir_state r' = Idem_Pending \<longrightarrow> ir_state r = Idem_Pending \<and> ir_updated r \<le> ir_updated r')))"

lemma row_follows_same [simp]: "row_follows row row"
  by (simp add: row_follows_def)

lemma flights_only [simp]:
  "id_rows (finish_flight k s) = id_rows s" "id_rows (leave_in_doubt k fp s) = id_rows s"
  by (simp_all add: finish_flight_def leave_in_doubt_def)

lemma update_row_rows: "update_row k fp f s = Some s' \<Longrightarrow>
    \<exists>r. id_rows s k = Some r \<and> id_rows s' = (id_rows s)(k \<mapsto> f r)"
  by (auto simp: update_row_def split: option.splits if_splits)

lemma idem_act_follows:
  assumes "keeps_record k w a" "\<And>i io. a \<noteq> Access i io"
  shows "row_follows (iw_rows w k) (iw_rows (idem_act a w) k)"
  using assms
  by (cases a)
    (auto simp: process_put_def process_view_def row_follows_def complete_request_def update_pending_def
      mark_in_doubt_def abandon_request_def dest!: update_row_rows split: option.splits if_splits)

lemma idem_act_claims:
  "(\<And>i io. a \<noteq> Access i io) \<Longrightarrow>
   iw_claims (idem_act a w) = iw_claims w \<or> (\<exists>p c. iw_claims (idem_act a w) = iw_claims w @
      [\<lparr>rn_process = p, rn_call = c, rn_at = claim_start c\<rparr>])"
  by (cases a) (auto simp: process_put_def)

section \<open>Owners are a lease apart\<close>

text \<open>Every claim that won the record is remembered in it, any two of them are a lease apart, and whoever is about to
  take the record over has found the lease run out.\<close>

definition lease_inv :: "idem_key \<Rightarrow> idem_row option \<Rightarrow> idem_running list \<Rightarrow> bool" where
  "lease_inv k row claims \<longleftrightarrow>
     (\<forall>c \<in> set claims. holder k c \<longrightarrow> (\<exists>r. row = Some r \<and>
        (ir_state r = Idem_Pending \<longrightarrow> milli (cc_now (rn_call c)) \<le> ir_updated r))) \<and>
     (\<forall>i < length claims. \<forall>j < length claims. i \<noteq> j \<longrightarrow> holder k (claims ! i) \<longrightarrow> holder k (claims ! j) \<longrightarrow>
        lease_apart (cc_now (rn_call (claims ! i))) (cc_now (rn_call (claims ! j)))) \<and>
     (\<forall>c \<in> set claims. \<forall>r. rn_at c = At_Update r \<longrightarrow> cc_now (rn_call c) - ir_updated r * 1000000 \<ge> pending_lease)"

lemma lease_inv_row: "lease_inv k row claims \<Longrightarrow> row_follows row row' \<Longrightarrow> lease_inv k row' claims"
  unfolding lease_inv_def row_follows_def by (fastforce elim: order_trans)

lemma claim_start_cases: "claim_start c = At_Flights \<or> (\<exists>e. claim_start c = Returned (Inl e))"
  by (simp add: claim_start_def)

lemma lease_inv_begin:
  assumes "lease_inv k row claims"
  shows "lease_inv k row (claims @ [\<lparr>rn_process = p, rn_call = c, rn_at = claim_start c\<rparr>])"
proof -
  have "\<not> holder k \<lparr>rn_process = p, rn_call = c, rn_at = claim_start c\<rparr>" "claim_start c \<noteq> At_Update r" for r
    using claim_start_cases [of c] by (auto simp: holder_def)
  then show ?thesis using assms by (auto simp: lease_inv_def nth_append less_Suc_eq)
qed

text \<open>What one access of a claim does to the table: nothing, the INSERT, or the takeover.\<close>

lemma after_read_at: "\<not> holds (after_read c r)" "after_read c r \<noteq> At_Update r'"
  by (auto simp: after_read_def)

lemma claim_access_reads:
  assumes "claim_access io c pc s = (s', pc')" "pc \<noteq> At_Insert" "\<forall>r. pc \<noteq> At_Update r"
  shows "id_rows s' = id_rows s" "holds pc' \<longrightarrow> holds pc"
    "\<forall>r. pc' = At_Update r \<longrightarrow> cc_now c - ir_updated r * 1000000 \<ge> pending_lease"
proof (atomize (full), cases pc)
  case (Returned x)
  with assms(1) show "id_rows s' = id_rows s \<and> (holds pc' \<longrightarrow> holds pc) \<and>
    (\<forall>r. pc' = At_Update r \<longrightarrow> cc_now c - ir_updated r * 1000000 \<ge> pending_lease)" by auto
qed (use assms in \<open>auto simp: after_read_at split: if_split_asm option.split_asm\<close>)

lemma claim_access_cases:
  assumes "claim_access io c pc s = (s', pc')"
  obtains (nothing) "id_rows s' = id_rows s" "holds pc' \<longrightarrow> holds pc"
      "\<forall>r. pc' = At_Update r \<longrightarrow> cc_now c - ir_updated r * 1000000 \<ge> pending_lease"
    | (inserted) "id_rows s (cc_key c) = None"
      "id_rows s' = (id_rows s)(cc_key c \<mapsto> new_row (cc_fingerprint c) (cc_ttl c) (cc_now c))" "\<exists>r. pc' = At_Set r"
    | (taken) r seen where "pc = At_Update seen" "id_rows s (cc_key c) = Some r" "ir_state r = Idem_Pending"
      "ir_updated r = ir_updated seen"
      "id_rows s' = (id_rows s)(cc_key c \<mapsto> r\<lparr>ir_updated := milli (cc_now c)\<rparr>)" "\<exists>r. pc' = At_Set r"
proof (cases pc)
  case At_Insert
  show ?thesis
  proof (cases "io \<and> id_rows s (cc_key c) = None")
    case True
    then show ?thesis using assms At_Insert by (intro that(2)) auto
  next
    case False
    then show ?thesis using assms At_Insert by (intro that(1)) auto
  qed
next
  case (At_Update seen)
  show ?thesis
  proof (cases "io \<and> take_lease (cc_key c) (cc_fingerprint c) seen (cc_now c) s \<noteq> None")
    case True
    then obtain s1 where s1: "take_lease (cc_key c) (cc_fingerprint c) seen (cc_now c) s = Some s1" by auto
    then have "s' = s1" "\<exists>r. pc' = At_Set r" using assms At_Update True by auto
    moreover have "\<exists>r. id_rows s (cc_key c) = Some r \<and> ir_state r = Idem_Pending \<and> ir_updated r = ir_updated seen \<and>
        id_rows s1 = (id_rows s)(cc_key c \<mapsto> r\<lparr>ir_updated := milli (cc_now c)\<rparr>)"
      using s1 by (auto simp: take_lease_def split: option.splits if_splits)
    ultimately show ?thesis using At_Update that(3) by blast
  next
    case False
    then have "id_rows s' = id_rows s" "\<not> holds pc'" "\<forall>r. pc' \<noteq> At_Update r"
      using assms At_Update by (auto split: if_splits option.splits)
    then show ?thesis using that(1) by simp
  qed
next
qed (use claim_access_reads [OF assms] that(1) in \<open>simp_all\<close>)

lemma lease_inv_update:
  assumes inv: "lease_inv k row claims" and i: "i < length claims"
    and pc: "holds pc \<longrightarrow> holds (rn_at (claims ! i))"
    and at: "\<forall>r. pc = At_Update r \<longrightarrow> cc_now (rn_call (claims ! i)) - ir_updated r * 1000000 \<ge> pending_lease"
  shows "lease_inv k row (claims[i := (claims ! i)\<lparr>rn_at := pc\<rparr>])"
proof -
  have weaker: "holder k ((claims ! i)\<lparr>rn_at := pc\<rparr>) \<longrightarrow> holder k (claims ! i)" using pc by (simp add: holder_def)
  have each: "c \<in> set claims \<or> c = (claims ! i)\<lparr>rn_at := pc\<rparr>" if "c \<in> set (claims[i := (claims ! i)\<lparr>rn_at := pc\<rparr>])" for c
    using set_update_subset_insert that by fastforce
  have here: "claims ! i \<in> set claims" using i by simp
  show ?thesis
    unfolding lease_inv_def
  proof (intro conjI ballI allI impI)
    fix c
    assume "c \<in> set (claims[i := (claims ! i)\<lparr>rn_at := pc\<rparr>])" "holder k c"
    then show "\<exists>r. row = Some r \<and> (ir_state r = Idem_Pending \<longrightarrow> milli (cc_now (rn_call c)) \<le> ir_updated r)"
      using each [of c] weaker here inv by (auto simp: lease_inv_def)
  next
    fix c r
    assume "c \<in> set (claims[i := (claims ! i)\<lparr>rn_at := pc\<rparr>])" "rn_at c = At_Update r"
    then show "pending_lease \<le> cc_now (rn_call c) - ir_updated r * 1000000"
      using each [of c] at inv by (auto simp: lease_inv_def)
  next
    fix m n
    let ?claims = "claims[i := (claims ! i)\<lparr>rn_at := pc\<rparr>]"
    assume "m < length ?claims" "n < length ?claims" "m \<noteq> n" "holder k (?claims ! m)" "holder k (?claims ! n)"
    moreover have "holder k (?claims ! x) \<Longrightarrow> holder k (claims ! x)" "rn_call (?claims ! x) = rn_call (claims ! x)"
      if "x < length claims" for x
      using weaker that i by (cases "i = x"; simp)+
    ultimately show "lease_apart (cc_now (rn_call (?claims ! m))) (cc_now (rn_call (?claims ! n)))"
      using inv by (simp add: lease_inv_def)
  qed
qed

text \<open>A claim of another request may move as it likes.\<close>

lemma lease_inv_other:
  assumes "lease_inv k row claims" "i < length claims" "cc_key (rn_call (claims ! i)) \<noteq> k"
  shows "lease_inv k row (claims[i := (claims ! i)\<lparr>rn_at := At_Set q\<rparr>])"
proof -
  have gone: "\<not> holder k ((claims ! i)\<lparr>rn_at := At_Set q\<rparr>)" using assms(3) by (simp add: holder_def)
  have "set (claims[i := (claims ! i)\<lparr>rn_at := At_Set q\<rparr>]) \<subseteq> insert ((claims ! i)\<lparr>rn_at := At_Set q\<rparr>) (set claims)"
    by (rule set_update_subset_insert)
  then have each: "c \<in> set claims" if "c \<in> set (claims[i := (claims ! i)\<lparr>rn_at := At_Set q\<rparr>])" "holder k c \<or> rn_at c = At_Update r" for c r
    using that gone by auto
  show ?thesis
    unfolding lease_inv_def
  proof (intro conjI ballI allI impI)
    fix c
    assume "c \<in> set (claims[i := (claims ! i)\<lparr>rn_at := At_Set q\<rparr>])" "holder k c"
    then show "\<exists>r. row = Some r \<and> (ir_state r = Idem_Pending \<longrightarrow> milli (cc_now (rn_call c)) \<le> ir_updated r)"
      using each [of c] assms(1) by (simp add: lease_inv_def)
  next
    fix c r
    assume "c \<in> set (claims[i := (claims ! i)\<lparr>rn_at := At_Set q\<rparr>])" "rn_at c = At_Update r"
    then show "pending_lease \<le> cc_now (rn_call c) - ir_updated r * 1000000"
      using each [of c r] assms(1) by (simp add: lease_inv_def)
  next
    fix m n
    let ?claims = "claims[i := (claims ! i)\<lparr>rn_at := At_Set q\<rparr>]"
    assume "m < length ?claims" "n < length ?claims" "m \<noteq> n" "holder k (?claims ! m)" "holder k (?claims ! n)"
    moreover from this gone have "m \<noteq> i" "n \<noteq> i" using assms(2) by auto
    ultimately show "lease_apart (cc_now (rn_call (?claims ! m))) (cc_now (rn_call (?claims ! n)))"
      using assms(1) by (simp add: lease_inv_def)
  qed
qed

text \<open>A new holder is a lease later than everyone before.\<close>

lemma lease_inv_won:
  assumes inv: "lease_inv k row claims" and i: "i < length claims"
    and later: "\<forall>c \<in> set claims. holder k c \<longrightarrow>
      milli (cc_now (rn_call c)) * 1000000 + pending_lease \<le> cc_now (rn_call (claims ! i))"
    and fresh: "ir_updated r' = milli (cc_now (rn_call (claims ! i)))"
  shows "lease_inv k (Some r') (claims[i := (claims ! i)\<lparr>rn_at := At_Set q\<rparr>])"
proof -
  let ?now = "cc_now (rn_call (claims ! i))"
  let ?claims = "claims[i := (claims ! i)\<lparr>rn_at := At_Set q\<rparr>]"
  have grows: "milli (cc_now (rn_call c)) \<le> milli ?now" if "c \<in> set claims" "holder k c" for c
    using later that by (fastforce simp: milli_def pending_lease_def)
  have others: "m \<noteq> i \<Longrightarrow> ?claims ! m = claims ! m" for m by simp
  have apart: "lease_apart (cc_now (rn_call (claims ! m))) ?now" if "m < length claims" "holder k (claims ! m)" for m
    using later that by (simp add: lease_apart_def)
  show ?thesis
    unfolding lease_inv_def
  proof (intro conjI ballI allI impI)
    fix c
    assume "c \<in> set ?claims" "holder k c"
    then have "c \<in> set claims \<or> rn_call c = rn_call (claims ! i)" using set_update_subset_insert by fastforce
    then have "milli (cc_now (rn_call c)) \<le> ir_updated r'" using grows \<open>holder k c\<close> fresh by auto
    then show "\<exists>r. Some r' = Some r \<and> (ir_state r = Idem_Pending \<longrightarrow> milli (cc_now (rn_call c)) \<le> ir_updated r)" by simp
  next
    fix c r
    assume "c \<in> set ?claims" "rn_at c = At_Update r"
    moreover have "set ?claims \<subseteq> insert ((claims ! i)\<lparr>rn_at := At_Set q\<rparr>) (set claims)" by (rule set_update_subset_insert)
    ultimately have "c \<in> set claims" by auto
    then show "pending_lease \<le> cc_now (rn_call c) - ir_updated r * 1000000"
      using inv \<open>rn_at c = At_Update r\<close> by (simp add: lease_inv_def)
  next
    fix m n
    assume mn: "m < length ?claims" "n < length ?claims" "m \<noteq> n" and hold: "holder k (?claims ! m)" "holder k (?claims ! n)"
    show "lease_apart (cc_now (rn_call (?claims ! m))) (cc_now (rn_call (?claims ! n)))"
    proof (cases "m = i \<or> n = i")
      case True
      then show ?thesis using mn hold apart [of m] apart [of n] lease_apart_sym by (auto simp: others)
    next
      case False
      then show ?thesis using mn hold inv by (simp add: lease_inv_def)
    qed
  qed
qed

lemma lease_inv_access:
  assumes inv: "lease_inv k (iw_rows w k) (iw_claims w)"
  shows "lease_inv k (iw_rows (idem_act (Access i io) w) k) (iw_claims (idem_act (Access i io) w))"
proof (cases "i < length (iw_claims w)")
  case i: True
  let ?rn = "iw_claims w ! i"
  obtain s' pc' where step: "claim_access io (rn_call ?rn) (rn_at ?rn) (process_view (rn_process ?rn) w) = (s', pc')"
    by fastforce
  have after: "iw_rows (idem_act (Access i io) w) = id_rows s'"
    "iw_claims (idem_act (Access i io) w) = (iw_claims w)[i := ?rn\<lparr>rn_at := pc'\<rparr>]"
    using step i by (simp_all add: Let_def process_put_def)
  have view: "id_rows (process_view p w) = iw_rows w" for p by (simp add: process_view_def)
  have there: "?rn \<in> set (iw_claims w)" using i by simp
  show ?thesis
    using step
  proof (cases rule: claim_access_cases)
    case nothing
    then show ?thesis using lease_inv_update [OF inv i] by (simp add: after view del: idem_act.simps)
  next
    case inserted
    show ?thesis
    proof (cases "cc_key (rn_call ?rn) = k")
      case True
      then have none: "\<forall>c \<in> set (iw_claims w). \<not> holder k c" using inv inserted(1) by (auto simp: lease_inv_def view)
      obtain q where q: "pc' = At_Set q" using inserted(3) by blast
      have "lease_inv k (Some (new_row (cc_fingerprint (rn_call ?rn)) (cc_ttl (rn_call ?rn)) (cc_now (rn_call ?rn))))
          ((iw_claims w)[i := ?rn\<lparr>rn_at := At_Set q\<rparr>])"
        by (rule lease_inv_won [OF inv i]) (use none in \<open>simp_all add: new_row_def\<close>)
      then show ?thesis using True inserted(2) q by (simp add: after view del: idem_act.simps)
    next
      case False
      show ?thesis using lease_inv_other [OF inv i False] inserted by (auto simp: after view False [symmetric] simp del: idem_act.simps)
    qed
  next
    case (taken r seen)
    show ?thesis
    proof (cases "cc_key (rn_call ?rn) = k")
      case True
      have run_out: "cc_now (rn_call ?rn) - ir_updated r * 1000000 \<ge> pending_lease"
        using inv there taken(1,4) by (fastforce simp: lease_inv_def)
      have "milli (cc_now (rn_call c)) \<le> ir_updated r" if "c \<in> set (iw_claims w)" "holder k c" for c
        using inv that taken(2,3) True by (auto simp: lease_inv_def view)
      then have "\<forall>c \<in> set (iw_claims w). holder k c \<longrightarrow>
          milli (cc_now (rn_call c)) * 1000000 + pending_lease \<le> cc_now (rn_call ?rn)"
        using run_out by fastforce
      moreover obtain q where q: "pc' = At_Set q" using taken(6) by blast
      ultimately have "lease_inv k (Some (r\<lparr>ir_updated := milli (cc_now (rn_call ?rn))\<rparr>))
          ((iw_claims w)[i := ?rn\<lparr>rn_at := At_Set q\<rparr>])"
        by (intro lease_inv_won [OF inv i]) simp_all
      then show ?thesis using True taken(5) q by (simp add: after view del: idem_act.simps)
    next
      case False
      show ?thesis using lease_inv_other [OF inv i False] taken by (auto simp: after view False [symmetric] simp del: idem_act.simps)
    qed
  qed
qed (use inv in simp)

lemma lease_inv_act:
  assumes "lease_inv k (iw_rows w k) (iw_claims w)" "keeps_record k w a"
  shows "lease_inv k (iw_rows (idem_act a w) k) (iw_claims (idem_act a w))"
proof (cases "\<exists>i io. a = Access i io")
  case True
  then show ?thesis using lease_inv_access [OF assms(1)] by blast
next
  case False
  then have "row_follows (iw_rows w k) (iw_rows (idem_act a w) k)" using idem_act_follows [OF assms(2)] by blast
  with assms(1) have "lease_inv k (iw_rows (idem_act a w) k) (iw_claims w)" by (rule lease_inv_row)
  moreover from False have "iw_claims (idem_act a w) = iw_claims w \<or> (\<exists>p c. iw_claims (idem_act a w) = iw_claims w @
      [\<lparr>rn_process = p, rn_call = c, rn_at = claim_start c\<rparr>])" using idem_act_claims by blast
  ultimately show ?thesis using lease_inv_begin by auto
qed

lemma lease_inv_run:
  "record_stays k acts w \<Longrightarrow> lease_inv k (iw_rows w k) (iw_claims w) \<Longrightarrow>
   lease_inv k (iw_rows (idem_run acts w) k) (iw_claims (idem_run acts w))"
  by (induction acts arbitrary: w) (simp_all add: idem_run_def lease_inv_act)

text \<open>C39: any number of claims, in any number of processes, race for a request: their accesses to the maps and the
  table come in any order, statements fail, owners finish, prepare or give up in doubt and processes are lost. Any two
  claims of the same request that became its owner carry times at least the lease of 30 seconds apart, whatever
  their clocks are and however their accesses are interleaved, so within a lease there is at most one owner. The record has to
  stay (nobody abandons it in between) and \<^verbatim>\<open>UpdatePending\<close> may not set its time back.\<close>

theorem owners_are_a_lease_apart:
  assumes "iw_claims w = []" and "record_stays k acts w" and "claims = iw_claims (idem_run acts w)"
    and "i < length claims" "j < length claims" "i \<noteq> j" and "holder k (claims ! i)" "holder k (claims ! j)"
  shows "milli (cc_now (rn_call (claims ! i))) * 1000000 + 30 * 1000000000 \<le> cc_now (rn_call (claims ! j)) \<or>
    milli (cc_now (rn_call (claims ! j))) * 1000000 + 30 * 1000000000 \<le> cc_now (rn_call (claims ! i))"
proof -
  have "lease_inv k (iw_rows w k) (iw_claims w)" using assms(1) by (simp add: lease_inv_def)
  from lease_inv_run [OF assms(2) this] have "lease_apart (cc_now (rn_call (claims ! i))) (cc_now (rn_call (claims ! j)))"
    using assms(3-8) by (simp add: lease_inv_def)
  then show ?thesis by (simp add: lease_apart_def pending_lease_def)
qed

text \<open>Two claims race for a new record, and two more for the lease when it has run out: the INSERT and the UPDATE let
  one through each time, and the other finds the request pending elsewhere.\<close>

definition race_call :: "int \<Rightarrow> claim_call" where
  "race_call now = \<lparr>cc_key = sample_key, cc_fingerprint = ''f'', cc_ttl = 0, cc_now = now\<rparr>"

definition race_world :: idem_world where
  "race_world = \<lparr>iw_rows = (\<lambda>_. None), iw_flights = (\<lambda>_ _. None), iw_uncertain = (\<lambda>_ _. None), iw_claims = []\<rparr>"

definition race :: "idem_action list" where
  "race = [Begin 0 (race_call 5000000), Begin 1 (race_call 6000000)]
     @ map (\<lambda>i. Access i True) [0, 1, 0, 1, 0, 1, 1, 1, 0]
     @ [Begin 1 (race_call 40000000000), Begin 2 (race_call 40000000000)]
     @ map (\<lambda>i. Access i True) [2, 3, 2, 3, 2, 3, 2, 3, 3, 2]"

lemma race_holders: "map (holder sample_key) (iw_claims (idem_run race race_world)) = [True, False, True, False]"
  by code_simp

theorem owners_are_a_lease_apart_witness:
  "let claims = iw_claims (idem_run race race_world) in
     holder sample_key (claims ! 0) \<and> holder sample_key (claims ! 2) \<and>
     (milli (cc_now (rn_call (claims ! 0))) * 1000000 + 30 * 1000000000 \<le> cc_now (rn_call (claims ! 2)) \<or>
      milli (cc_now (rn_call (claims ! 2))) * 1000000 + 30 * 1000000000 \<le> cc_now (rn_call (claims ! 0)))"
proof -
  let ?claims = "iw_claims (idem_run race race_world)"
  have count: "length ?claims = 4" using race_holders [THEN arg_cong, of length] by simp
  have "holder sample_key (?claims ! 0)" "holder sample_key (?claims ! 2)"
    using arg_cong [OF race_holders, of "\<lambda>xs. xs ! 0"] arg_cong [OF race_holders, of "\<lambda>xs. xs ! 2"] count by simp_all
  moreover have "iw_claims race_world = []" by (simp add: race_world_def)
  moreover have "record_stays sample_key race race_world" by code_simp
  ultimately show ?thesis
    using owners_are_a_lease_apart [of race_world sample_key race ?claims 0 2] count unfolding Let_def by simp
qed

end
