(* ===== verification/Pending_Contract.thy ===== *)
theory Pending_Contract
  imports Prelude
begin

text \<open>
  The interface the pending approvals and the pending secret requests share: a store of items a user
  has still to answer, from which an item can be taken once. \<open>take_item\<close> removes an item (its second
  argument is what the removal depends on besides: clock readings, the caller's session), \<open>live\<close>
  says that an item could still be taken, \<open>other\<close> are the store's other operations, \<open>opens\<close> the
  items such an operation may register and \<open>spawns\<close> those a removal registers in its place; \<open>ok\<close> is the store's invariant. The lemma \<open>taken_once\<close>
  holds for every store with these laws.
\<close>

datatype ('t, 'o) pending_call = Take bytes 't | Other 'o

locale one_shot =
  fixes ok :: "'s \<Rightarrow> bool"
    and take_item :: "bytes \<Rightarrow> 't \<Rightarrow> 's \<Rightarrow> 's \<times> 'p option"
    and live :: "bytes \<Rightarrow> 's \<Rightarrow> bool"
    and other :: "'o \<Rightarrow> 's \<Rightarrow> 's"
    and opens :: "'o \<Rightarrow> bytes \<Rightarrow> bool"
    and spawns :: "'t \<Rightarrow> bytes \<Rightarrow> bool"
  assumes take_needs_live: "ok s \<Longrightarrow> snd (take_item i t s) \<noteq> None \<Longrightarrow> live i s"
    and take_spends: "ok s \<Longrightarrow> snd (take_item i t s) \<noteq> None \<Longrightarrow> \<not> spawns t i \<Longrightarrow> \<not> live i (fst (take_item i t s))"
    and take_opens: "ok s \<Longrightarrow> live i (fst (take_item j t s)) \<Longrightarrow> live i s \<or> spawns t i"
    and other_opens: "ok s \<Longrightarrow> live i (other x s) \<Longrightarrow> live i s \<or> opens x i"
    and ok_take: "ok s \<Longrightarrow> ok (fst (take_item i t s))"
    and ok_other: "ok s \<Longrightarrow> ok (other x s)"
begin

fun call :: "('t, 'o) pending_call \<Rightarrow> 's \<Rightarrow> 's" where
  "call (Take i t) s = fst (take_item i t s)"
| "call (Other x) s = other x s"

fun taken :: "bytes \<Rightarrow> ('t, 'o) pending_call list \<Rightarrow> 's \<Rightarrow> nat" where
  "taken i [] s = 0"
| "taken i (c # cs) s =
     (case c of Take j t \<Rightarrow> if j = i \<and> snd (take_item j t s) \<noteq> None then 1 else 0 | Other x \<Rightarrow> 0) +
     taken i cs (call c s)"

fun registers :: "bytes \<Rightarrow> ('t, 'o) pending_call \<Rightarrow> bool" where
  "registers i (Take j t) \<longleftrightarrow> spawns t i"
| "registers i (Other x) \<longleftrightarrow> opens x i"

lemma call_ok: "ok s \<Longrightarrow> ok (call c s)"
  by (cases c) (simp_all add: ok_take ok_other)

lemma call_dead: "ok s \<Longrightarrow> \<not> live i s \<Longrightarrow> \<not> registers i c \<Longrightarrow> \<not> live i (call c s)"
  using take_opens other_opens by (cases c) fastforce+

lemma dead_never_taken:
  "ok s \<Longrightarrow> \<not> live i s \<Longrightarrow> list_all (\<lambda>c. \<not> registers i c) cs \<Longrightarrow> taken i cs s = 0"
proof (induction cs arbitrary: s)
  case (Cons c cs)
  then have "taken i cs (call c s) = 0" using call_ok call_dead by simp
  then show ?case using Cons.prems(1,2) take_needs_live by (auto split: pending_call.splits)
qed simp

text \<open>Whatever else happens, an item that is not registered again is taken at most once.\<close>

lemma taken_once: "ok s \<Longrightarrow> list_all (\<lambda>c. \<not> registers i c) cs \<Longrightarrow> taken i cs s \<le> 1"
proof (induction cs arbitrary: s)
  case (Cons c cs)
  show ?case
  proof (cases "\<exists>t. c = Take i t \<and> snd (take_item i t s) \<noteq> None")
    case True
    then have "\<not> live i (call c s)" using take_spends [OF Cons.prems(1)] Cons.prems(2) by auto
    then have "taken i cs (call c s) = 0" using Cons.prems call_ok by (intro dead_never_taken) auto
    then show ?thesis by (auto split: pending_call.splits)
  next
    case False
    have "taken i cs (call c s) \<le> 1" using Cons.prems call_ok by (intro Cons.IH) auto
    then show ?thesis using False by (auto split: pending_call.splits)
  qed
qed simp

end

end
