(* ===== verification/Approval_Store.thy ===== *)
theory Approval_Store
  imports Pending_Contract
begin

text \<open>
  The pending approvals of \<^verbatim>\<open>internal/approval/store.go\<close>: the map \<^verbatim>\<open>byID\<close> of one process and, in a
  persistent store, the rows of the table \<^verbatim>\<open>approvals\<close> (\<open>as_rows = None\<close> is a store without a
  database). Times are nanoseconds, the table's columns milliseconds. Each method reads the clock
  several times; \<open>t k\<close> is its \<open>k\<close>-th reading. The order in which Go iterates over \<^verbatim>\<open>byID\<close> is the argument
  \<open>order\<close>; the random identifiers are arguments. The payload column is the item itself: encoding it
  as JSON and back is the standard library's. Writes of the store to its own rows succeed, except
  that the session of a row must exist.
\<close>

section \<open>Data\<close>

record delete_file =
  df_path :: bytes
  df_sha256 :: bytes
  df_size :: int

record approval =
  ap_id :: bytes
  ap_tool :: bytes
  ap_summary :: bytes
  ap_command :: bytes
  ap_yield_ms :: int
  ap_purpose :: bytes
  ap_scope :: bytes
  ap_digest :: bytes
  ap_work_dir :: bytes
  ap_request_id :: bytes
  ap_workspace :: bytes
  ap_session :: bytes
  ap_principal :: bytes
  ap_token :: bytes
  ap_content_key :: bytes
  ap_delete_files :: "delete_file list"
  ap_created :: "int option"

datatype row_status = Row_Pending | Row_Consumed | Row_Expired

record approval_row =
  ar_id :: bytes
  ar_session :: bytes
  ar_payload :: approval
  ar_content_key :: bytes
  ar_status :: row_status
  ar_created :: int
  ar_expires :: int
  ar_consumed :: "int option"

record approval_store =
  as_items :: "(bytes \<times> approval) list"
  as_rows :: "approval_row list option"
  as_sessions :: "bytes list"

definition pending_ttl :: int where
  "pending_ttl = 30 * 60 * 1000000000"

definition content_key :: "approval \<Rightarrow> bytes" where
  "content_key p =
     (if ap_tool p = ''command_execute'' then join [ap_principal p, ap_command p, ap_scope p] [CHR 0x00]
      else if ap_tool p = ''edit_delete'' then ap_content_key p
      else [])"

section \<open>Operations\<close>

definition stale :: "int \<Rightarrow> approval \<Rightarrow> bool" where
  "stale now p \<longleftrightarrow> (case ap_created p of None \<Rightarrow> False | Some c \<Rightarrow> now - c \<ge> pending_ttl)"

definition expire_row :: "int \<Rightarrow> approval_row \<Rightarrow> approval_row" where
  "expire_row now r =
     (if ar_status r = Row_Pending \<and> ar_expires r \<le> unix_milli now then r\<lparr>ar_status := Row_Expired\<rparr> else r)"

definition prune :: "int \<Rightarrow> approval_store \<Rightarrow> approval_store" where
  "prune now s =
     s\<lparr>as_items := filter (\<lambda>e. \<not> stale now (snd e)) (as_items s),
       as_rows := map_option (map (expire_row now)) (as_rows s)\<rparr>"

definition row_live :: "int \<Rightarrow> approval_row \<Rightarrow> bool" where
  "row_live now r \<longleftrightarrow> ar_status r = Row_Pending \<and> ar_expires r > unix_milli now"

text \<open>\<^verbatim>\<open>ORDER BY created_at\<close> with the insertion order among equals.\<close>

definition query_rows :: "(approval_row \<Rightarrow> bool) \<Rightarrow> approval_store \<Rightarrow> approval_row list" where
  "query_rows cond s =
     (case as_rows s of None \<Rightarrow> [] | Some rows \<Rightarrow> sort_key ar_created (filter cond rows))"

definition first_payload :: "approval_row list \<Rightarrow> approval option" where
  "first_payload rows = (case rows of [] \<Rightarrow> None | r # _ \<Rightarrow> Some (ar_payload r))"

definition find_pending :: "(approval list \<Rightarrow> approval list) \<Rightarrow> bytes \<Rightarrow> bytes \<Rightarrow> int \<Rightarrow> approval_store \<Rightarrow>
    approval option" where
  "find_pending order session key now s =
     (case find (\<lambda>p. ap_session p = session \<and> ap_content_key p = key) (order (map snd (as_items s))) of
        Some p \<Rightarrow> Some p
      | None \<Rightarrow> first_payload (query_rows
          (\<lambda>r. ar_session r = session \<and> ar_content_key r = key \<and> row_live now r) s))"

definition get_pending :: "bytes \<Rightarrow> int \<Rightarrow> approval_store \<Rightarrow> approval option" where
  "get_pending i now s =
     (case map_of (as_items s) i of
        Some p \<Rightarrow> Some p
      | None \<Rightarrow> first_payload (query_rows (\<lambda>r. ar_id r = i \<and> row_live now r) s))"

definition created_at :: "approval \<Rightarrow> int" where
  "created_at p = (case ap_created p of None \<Rightarrow> 0 | Some c \<Rightarrow> c)"

definition fill_pending :: "bytes \<Rightarrow> bytes \<Rightarrow> int \<Rightarrow> approval \<Rightarrow> approval" where
  "fill_pending new_id new_token now p0 =
     (let p1 = (if ap_id p0 = [] then p0\<lparr>ap_id := new_id\<rparr> else p0);
          p2 = (if ap_created p1 = None then p1\<lparr>ap_created := Some now\<rparr> else p1);
          p3 = (if ap_content_key p2 = [] then p2\<lparr>ap_content_key := content_key p2\<rparr> else p2)
      in if ap_token p3 = [] then p3\<lparr>ap_token := new_token\<rparr> else p3)"

definition approval_row_of :: "approval \<Rightarrow> approval_row" where
  "approval_row_of p =
     \<lparr>ar_id = ap_id p, ar_session = ap_session p, ar_payload = p, ar_content_key = ap_content_key p,
      ar_status = Row_Pending, ar_created = unix_milli (created_at p),
      ar_expires = unix_milli (created_at p + pending_ttl), ar_consumed = None\<rparr>"

text \<open>The rows \<^verbatim>\<open>INSERT OR REPLACE\<close> removes: the one with the same key, and the one in the way of the unique
  index on pending content keys.\<close>

definition replaced :: "approval \<Rightarrow> approval_row \<Rightarrow> bool" where
  "replaced p r \<longleftrightarrow> ar_id r = ap_id p \<or>
     ar_status r = Row_Pending \<and> ap_content_key p \<noteq> [] \<and> ar_content_key r = ap_content_key p \<and>
     ar_session r = ap_session p"

definition put_item :: "bytes \<Rightarrow> 'v \<Rightarrow> (bytes \<times> 'v) list \<Rightarrow> (bytes \<times> 'v) list" where
  "put_item i v m = filter (\<lambda>e. fst e \<noteq> i) m @ [(i, v)]"

text \<open>\<^verbatim>\<open>PutPending\<close>; \<^const>\<open>None\<close> is its error.\<close>

definition put_pending :: "(approval list \<Rightarrow> approval list) \<Rightarrow> bytes \<Rightarrow> bytes \<Rightarrow> (nat \<Rightarrow> int) \<Rightarrow> approval \<Rightarrow>
    approval_store \<Rightarrow> approval_store \<times> approval option" where
  "put_pending order new_id new_token t p0 s0 =
     (let s = prune (t 0) s0;
          p = fill_pending new_id new_token (t 0) p0
      in case (if ap_content_key p \<noteq> [] \<and> t 0 - created_at p < pending_ttl
               then find_pending order (ap_session p) (ap_content_key p) (t 1) s else None) of
           Some q \<Rightarrow> (s, Some q)
         | None \<Rightarrow>
             (case as_rows s of
                None \<Rightarrow> (s\<lparr>as_items := put_item (ap_id p) p (as_items s)\<rparr>, Some p)
              | Some rows \<Rightarrow>
                  if ap_session p \<notin> set (as_sessions s) then (s, None)
                  else (s\<lparr>as_rows := Some (filter (\<lambda>r. \<not> replaced p r) rows @ [approval_row_of p]),
                          as_items := put_item (ap_id p) p (as_items s)\<rparr>, Some p)))"

definition consume :: "bytes \<Rightarrow> (nat \<Rightarrow> int) \<Rightarrow> approval_store \<Rightarrow> approval_store \<times> approval option" where
  "consume i t s0 =
     (let s = prune (t 0) s0 in
      case get_pending i (t 1) s of
        None \<Rightarrow> (s, None)
      | Some p \<Rightarrow>
          (case as_rows s of
             None \<Rightarrow> (s\<lparr>as_items := filter (\<lambda>e. fst e \<noteq> i) (as_items s)\<rparr>, Some p)
           | Some rows \<Rightarrow>
               let hit = (\<lambda>r. ar_id r = i \<and> row_live (t 3) r) in
               if length (filter hit rows) \<noteq> 1
               then (s\<lparr>as_rows := Some (map (\<lambda>r. if hit r
                        then r\<lparr>ar_status := Row_Consumed, ar_consumed := Some (unix_milli (t 2))\<rparr> else r) rows)\<rparr>, None)
               else (s\<lparr>as_rows := Some (map (\<lambda>r. if hit r
                        then r\<lparr>ar_status := Row_Consumed, ar_consumed := Some (unix_milli (t 2))\<rparr> else r) rows),
                       as_items := filter (\<lambda>e. fst e \<noteq> i) (as_items s)\<rparr>, Some p)))"

definition get_approval :: "bytes \<Rightarrow> (nat \<Rightarrow> int) \<Rightarrow> approval_store \<Rightarrow> approval_store \<times> approval option" where
  "get_approval i t s = (prune (t 0) s, get_pending i (t 1) (prune (t 0) s))"

definition list_session :: "(approval list \<Rightarrow> approval list) \<Rightarrow> bytes \<Rightarrow> (nat \<Rightarrow> int) \<Rightarrow> approval_store \<Rightarrow>
    approval_store \<times> approval list" where
  "list_session order session t s0 =
     (let s = prune (t 0) s0 in
      (s, case as_rows s of
            Some _ \<Rightarrow> map ar_payload (query_rows (\<lambda>r. ar_session r = session \<and> row_live (t 1) r) s)
          | None \<Rightarrow> filter (\<lambda>p. ap_session p = session) (order (map snd (as_items s)))))"

section \<open>An approval is used once\<close>

datatype approval_call = Put_Approval "approval list \<Rightarrow> approval list" bytes bytes "nat \<Rightarrow> int" approval
  | Get_Approval bytes "nat \<Rightarrow> int" | List_Approvals bytes "nat \<Rightarrow> int"

fun approval_other :: "approval_call \<Rightarrow> approval_store \<Rightarrow> approval_store" where
  "approval_other (Put_Approval order new_id new_token t p) s = fst (put_pending order new_id new_token t p s)"
| "approval_other (Get_Approval i t) s = fst (get_approval i t s)"
| "approval_other (List_Approvals session t) s = fst (list_session (\<lambda>ps. ps) session t s)"

fun approval_opens :: "approval_call \<Rightarrow> bytes option" where
  "approval_opens (Put_Approval order new_id new_token t p) = Some (if ap_id p = [] then new_id else ap_id p)"
| "approval_opens _ = None"

definition approvals_ok :: "approval_store \<Rightarrow> bool" where
  "approvals_ok s \<longleftrightarrow> (case as_rows s of None \<Rightarrow> True | Some rows \<Rightarrow> distinct (map ar_id rows))"

definition approval_live :: "bytes \<Rightarrow> approval_store \<Rightarrow> bool" where
  "approval_live i s \<longleftrightarrow> i \<in> fst ` set (as_items s) \<or>
     (\<exists>rows. as_rows s = Some rows \<and> (\<exists>r \<in> set rows. ar_id r = i \<and> ar_status r = Row_Pending))"

lemma approval_live_prune: "approval_live i (prune now s) \<Longrightarrow> approval_live i s"
  by (auto simp: approval_live_def prune_def expire_row_def split: if_splits)

lemma approvals_ok_prune: "approvals_ok s \<Longrightarrow> approvals_ok (prune now s)"
  by (auto simp: approvals_ok_def prune_def expire_row_def o_def if_distrib cong: if_cong split: option.splits)

lemma first_payload_query:
  "first_payload (query_rows cond s) = Some p \<Longrightarrow>
     \<exists>rows r. as_rows s = Some rows \<and> r \<in> set rows \<and> cond r \<and> ar_payload r = p"
proof -
  assume q: "first_payload (query_rows cond s) = Some p"
  then obtain r where r: "r \<in> set (query_rows cond s)" "ar_payload r = p"
    by (auto simp: first_payload_def split: list.splits)
  then show ?thesis by (cases "as_rows s") (auto simp: query_rows_def)
qed

lemma get_pending_live: "get_pending i now s = Some p \<Longrightarrow> approval_live i s"
  by (force simp: get_pending_def approval_live_def row_live_def
      split: option.splits dest: map_of_SomeD first_payload_query)

lemma fill_pending_id: "ap_id (fill_pending new_id new_token now p) = (if ap_id p = [] then new_id else ap_id p)"
  by (simp add: fill_pending_def Let_def)

lemma consume_cases:
  obtains (Nothing) "consume i t s = (prune (t 0) s, None)"
  | (Lost) rows f where "as_rows (prune (t 0) s) = Some rows"
      "consume i t s = ((prune (t 0) s)\<lparr>as_rows := Some (map f rows)\<rparr>, None)"
      "\<And>r. ar_id (f r) = ar_id r \<and> (ar_status (f r) = Row_Pending \<longrightarrow> ar_status r = Row_Pending)"
  | (Memory) p where "as_rows (prune (t 0) s) = None" "approval_live i (prune (t 0) s)"
      "consume i t s = ((prune (t 0) s)\<lparr>as_items := filter (\<lambda>e. fst e \<noteq> i) (as_items (prune (t 0) s))\<rparr>, Some p)"
  | (Row) p rows f where "as_rows (prune (t 0) s) = Some rows" "approval_live i (prune (t 0) s)"
      "consume i t s = ((prune (t 0) s)\<lparr>as_rows := Some (map f rows),
         as_items := filter (\<lambda>e. fst e \<noteq> i) (as_items (prune (t 0) s))\<rparr>, Some p)"
      "\<And>r. ar_id (f r) = ar_id r \<and> (ar_status (f r) = Row_Pending \<longrightarrow> ar_status r = Row_Pending)"
      "\<exists>r \<in> set rows. ar_id r = i \<and> ar_status (f r) = Row_Consumed"
proof -
  let ?s = "prune (t 0) s"
  let ?hit = "\<lambda>r. ar_id r = i \<and> row_live (t 3) r"
  let ?f = "\<lambda>r. if ?hit r then r\<lparr>ar_status := Row_Consumed, ar_consumed := Some (unix_milli (t 2))\<rparr> else r"
  show ?thesis
  proof (cases "get_pending i (t 1) ?s")
    case None
    then show ?thesis by (intro Nothing) (simp add: consume_def Let_def)
  next
    case (Some p)
    note live = get_pending_live [OF Some]
    show ?thesis
    proof (cases "as_rows ?s")
      case None
      then show ?thesis using Some live by (intro Memory) (simp_all add: consume_def Let_def)
    next
      case rows: (Some rows)
      have f: "ar_id (?f r) = ar_id r \<and> (ar_status (?f r) = Row_Pending \<longrightarrow> ar_status r = Row_Pending)" for r by simp
      show ?thesis
      proof (cases "length (filter ?hit rows) = 1")
        case True
        then have "filter ?hit rows \<noteq> []" by auto
        then obtain r where "r \<in> set rows" "?hit r" by (auto simp: filter_empty_conv)
        then have "\<exists>r \<in> set rows. ar_id r = i \<and> ar_status (?f r) = Row_Consumed" by (intro bexI [of _ r]) simp_all
        moreover have "consume i t s = (?s\<lparr>as_rows := Some (map ?f rows),
            as_items := filter (\<lambda>e. fst e \<noteq> i) (as_items ?s)\<rparr>, Some p)"
          using Some rows True by (simp add: consume_def Let_def)
        ultimately show ?thesis using Row [OF rows live _ f] by blast
      next
        case False
        then have "consume i t s = (?s\<lparr>as_rows := Some (map ?f rows)\<rparr>, None)"
          using Some rows by (simp add: consume_def Let_def)
        then show ?thesis by (rule Lost [OF rows _ f])
      qed
    qed
  qed
qed

lemma approvals_ok_consume: "approvals_ok s \<Longrightarrow> approvals_ok (fst (consume i t s))"
proof -
  assume "approvals_ok s"
  then have ok: "approvals_ok (prune (t 0) s)" by (rule approvals_ok_prune)
  show ?thesis
    by (cases rule: consume_cases [of i t s]) (use ok in \<open>simp_all add: approvals_ok_def o_def\<close>)
qed

lemma consume_shrinks: "approval_live j (fst (consume i t s)) \<Longrightarrow> approval_live j s"
proof -
  assume live: "approval_live j (fst (consume i t s))"
  have "approval_live j (prune (t 0) s)"
    by (cases rule: consume_cases [of i t s]) (use live in \<open>auto simp: approval_live_def\<close>)
  then show ?thesis by (rule approval_live_prune)
qed

lemma consume_spends:
  assumes "approvals_ok s" "snd (consume i t s) \<noteq> None"
  shows "approval_live i s \<and> \<not> approval_live i (fst (consume i t s))"
proof (cases rule: consume_cases [of i t s])
  case (Memory p)
  then have "\<not> approval_live i (fst (consume i t s))" by (auto simp: approval_live_def)
  then show ?thesis using approval_live_prune [OF Memory(2)] by blast
next
  case (Row p rows f)
  have "distinct (map ar_id rows)"
    using approvals_ok_prune [OF assms(1), of "t 0"] Row(1) by (simp add: approvals_ok_def)
  then have only: "r = q" if "r \<in> set rows" "q \<in> set rows" "ar_id r = ar_id q" for r q
    using that by (auto simp: distinct_map inj_on_def)
  obtain r where r: "r \<in> set rows" "ar_id r = i" "ar_status (f r) = Row_Consumed" using Row(5) by blast
  have "ar_status (f q) \<noteq> Row_Pending" if "q \<in> set rows" "ar_id (f q) = i" for q
    using only [OF r(1) that(1)] r Row(4) [of q] that(2) by simp
  then have "\<not> approval_live i (fst (consume i t s))"
    using Row(3) by (auto simp: approval_live_def)
  then show ?thesis using approval_live_prune [OF Row(2)] by blast
qed (use assms(2) in simp_all)

lemma put_pending_cases:
  obtains (Same) p where "put_pending order new_id new_token t p0 s = (prune (t 0) s, p)"
  | (New) p where "ap_id p = (if ap_id p0 = [] then new_id else ap_id p0)"
      "put_pending order new_id new_token t p0 s =
        ((prune (t 0) s)\<lparr>as_items := put_item (ap_id p) p (as_items (prune (t 0) s)),
           as_rows := map_option (\<lambda>rows. filter (\<lambda>r. \<not> replaced p r) rows @ [approval_row_of p])
             (as_rows (prune (t 0) s))\<rparr>, Some p)"
proof -
  let ?p = "fill_pending new_id new_token (t 0) p0"
  let ?s = "prune (t 0) s"
  note put = put_pending_def [of order new_id new_token t p0 s, unfolded Let_def]
  show ?thesis
  proof (cases "if ap_content_key ?p \<noteq> [] \<and> t 0 - created_at ?p < pending_ttl
               then find_pending order (ap_session ?p) (ap_content_key ?p) (t 1) ?s else None")
    case (Some q)
    then show ?thesis using Same [of "Some q"] by (simp only: put option.case)
  next
    case None
    show ?thesis
    proof (cases "as_rows ?s")
      case rows: None
      then have "?s\<lparr>as_items := put_item (ap_id ?p) ?p (as_items ?s)\<rparr> =
          ?s\<lparr>as_items := put_item (ap_id ?p) ?p (as_items ?s),
            as_rows := map_option (\<lambda>rows. filter (\<lambda>r. \<not> replaced ?p r) rows @ [approval_row_of ?p]) (as_rows ?s)\<rparr>"
        by (intro approval_store.equality) simp_all
      then show ?thesis using New [of ?p, OF fill_pending_id] by (simp only: put None rows option.case)
    next
      case rows: (Some rows)
      show ?thesis
      proof (cases "ap_session ?p \<in> set (as_sessions ?s)")
        case True
        then have "put_pending order new_id new_token t p0 s =
            (?s\<lparr>as_items := put_item (ap_id ?p) ?p (as_items ?s),
              as_rows := map_option (\<lambda>rows. filter (\<lambda>r. \<not> replaced ?p r) rows @ [approval_row_of ?p]) (as_rows ?s)\<rparr>,
             Some ?p)"
          by (simp only: put None rows option.case) simp
        then show ?thesis by (rule New [of ?p, OF fill_pending_id])
      next
        case False
        then show ?thesis using Same [of None] by (simp only: put None rows option.case) simp
      qed
    qed
  qed
qed

lemma put_shrinks:
  "approval_live i (fst (put_pending order new_id new_token t p s)) \<Longrightarrow>
   approval_live i s \<or> approval_opens (Put_Approval order new_id new_token t p) = Some i"
proof (cases rule: put_pending_cases [of order new_id new_token t p s])
  case (New q)
  assume live: "approval_live i (fst (put_pending order new_id new_token t p s))"
  have "approval_live i (prune (t 0) s) \<or> ap_id q = i"
    using live New(2) by (auto simp: approval_live_def put_item_def approval_row_of_def)
  then show ?thesis using approval_live_prune New(1) by auto
qed (auto dest: approval_live_prune)

lemma approvals_ok_put: "approvals_ok s \<Longrightarrow> approvals_ok (fst (put_pending order new_id new_token t p s))"
proof (cases rule: put_pending_cases [of order new_id new_token t p s])
  case (New q)
  assume "approvals_ok s"
  then have "approvals_ok (prune (t 0) s)" by (rule approvals_ok_prune)
  then show ?thesis using New(2)
    by (auto simp: approvals_ok_def approval_row_of_def replaced_def distinct_map_filter split: option.splits)
qed (auto dest: approvals_ok_prune)

interpretation approvals: one_shot approvals_ok consume approval_live approval_other
  "\<lambda>x i. approval_opens x = Some i" "\<lambda>t i. False"
proof unfold_locales
  fix s i j t x
  assume ok: "approvals_ok s"
  show "snd (consume i t s) \<noteq> None \<Longrightarrow> approval_live i s"
    and "snd (consume i t s) \<noteq> None \<Longrightarrow> \<not> approval_live i (fst (consume i t s))"
    using consume_spends [OF ok] by simp_all
  show "approval_live i (fst (consume j t s)) \<Longrightarrow> approval_live i s \<or> False" using consume_shrinks by blast
  show "approval_live i (approval_other x s) \<Longrightarrow> approval_live i s \<or> approval_opens x = Some i"
    using put_shrinks by (cases x) (auto simp: get_approval_def list_session_def Let_def dest: approval_live_prune)
  show "approvals_ok (fst (consume i t s))" by (rule approvals_ok_consume [OF ok])
  show "approvals_ok (approval_other x s)"
    using approvals_ok_put [OF ok] approvals_ok_prune [OF ok]
    by (cases x) (simp_all add: get_approval_def list_session_def Let_def)
qed

text \<open>How often an approval is consumed in a sequence of calls.\<close>

fun times_consumed :: "bytes \<Rightarrow> (nat \<Rightarrow> int, approval_call) pending_call list \<Rightarrow> approval_store \<Rightarrow> nat" where
  "times_consumed i [] s = 0"
| "times_consumed i (Take j t # cs) s =
     (if j = i \<and> snd (consume j t s) \<noteq> None then 1 else 0) + times_consumed i cs (fst (consume j t s))"
| "times_consumed i (Other x # cs) s = times_consumed i cs (approval_other x s)"

fun reopens :: "bytes \<Rightarrow> (nat \<Rightarrow> int, approval_call) pending_call \<Rightarrow> bool" where
  "reopens i (Take j t) \<longleftrightarrow> False"
| "reopens i (Other x) \<longleftrightarrow> approval_opens x = Some i"

lemma times_consumed_taken: "times_consumed i cs s = approvals.taken i cs s"
  by (induction i cs s rule: times_consumed.induct) simp_all

lemma reopens_registers: "reopens i c = approvals.registers i c"
  by (cases c) simp_all

definition sample_approval :: approval where
  "sample_approval = \<lparr>ap_id = [], ap_tool = ''command_execute'', ap_summary = [], ap_command = ''make'',
     ap_yield_ms = 0, ap_purpose = [], ap_scope = [], ap_digest = [], ap_work_dir = [], ap_request_id = [],
     ap_workspace = [], ap_session = ''s'', ap_principal = ''p'', ap_token = [], ap_content_key = [],
     ap_delete_files = [], ap_created = None\<rparr>"

definition sample_store :: approval_store where
  "sample_store = \<lparr>as_items = [], as_rows = Some [], as_sessions = [''s'']\<rparr>"

text \<open>C40: Whatever sequence of calls reaches the store, with or without a database, one approval is
  consumed at most once, unless a later call registers its identifier again.\<close>

theorem approvals_are_used_once:
  assumes "approvals_ok s" "list_all (\<lambda>c. \<not> reopens i c) cs"
  shows "times_consumed i cs s \<le> 1"
  using approvals.taken_once [OF assms(1)] assms(2) by (simp add: times_consumed_taken reopens_registers)

lemma approvals_are_used_once_witness:
  "let s = fst (put_pending (\<lambda>ps. ps) ''a'' ''t'' (\<lambda>_. 5) sample_approval sample_store) in
   times_consumed ''a'' [Take ''a'' (\<lambda>_. 6), Other (Get_Approval ''a'' (\<lambda>_. 7)), Take ''a'' (\<lambda>_. 8)] s \<le> 1 \<and>
   times_consumed ''a'' [Take ''a'' (\<lambda>_. 6)] s = 1"
proof -
  let ?s = "fst (put_pending (\<lambda>ps. ps) ''a'' ''t'' (\<lambda>_. 5) sample_approval sample_store)"
  have "approvals_ok sample_store" by (simp add: approvals_ok_def sample_store_def)
  then have "approvals_ok ?s" by (rule approvals_ok_put)
  from approvals_are_used_once [OF this, of "''a''"
      "[Take ''a'' (\<lambda>_. 6), Other (Get_Approval ''a'' (\<lambda>_. 7)), Take ''a'' (\<lambda>_. 8)]"]
  have "times_consumed ''a'' [Take ''a'' (\<lambda>_. 6), Other (Get_Approval ''a'' (\<lambda>_. 7)), Take ''a'' (\<lambda>_. 8)] ?s \<le> 1"
    by simp
  moreover have "times_consumed ''a'' [Take ''a'' (\<lambda>_. 6)] ?s = 1" by code_simp
  ultimately show ?thesis by (simp add: Let_def)
qed

section \<open>An approval is used in time\<close>

definition approvals_wf :: "approval_store \<Rightarrow> bool" where
  "approvals_wf s \<longleftrightarrow> (\<forall>e \<in> set (as_items s). ap_created (snd e) \<noteq> None) \<and>
     (\<forall>rows. as_rows s = Some rows \<longrightarrow> (\<forall>r \<in> set rows. ap_created (ar_payload r) \<noteq> None \<and>
        ar_expires r = unix_milli (created_at (ar_payload r) + pending_ttl)))"

lemma approvals_wf_prune: "approvals_wf s \<Longrightarrow> approvals_wf (prune now s)"
  by (auto simp: approvals_wf_def prune_def expire_row_def)

lemma approvals_wf_put: "approvals_wf s \<Longrightarrow> approvals_wf (fst (put_pending order new_id new_token t p s))"
proof -
  assume "approvals_wf s"
  then have wf: "approvals_wf (prune (t 0) s)" by (rule approvals_wf_prune)
  let ?p = "fill_pending new_id new_token (t 0) p"
  have "ap_created ?p \<noteq> None" by (simp add: fill_pending_def Let_def)
  then show ?thesis using wf unfolding put_pending_def Let_def
    by (auto simp: approvals_wf_def put_item_def approval_row_of_def split: option.splits if_splits)
qed

text \<open>What \<^verbatim>\<open>Consume\<close> hands out was registered less than 30 minutes before the call.\<close>

theorem approvals_expire:
  assumes "approvals_wf s" "consume i t s = (s', Some p)" "t 0 \<le> t 1"
  shows "\<exists>c. ap_created p = Some c \<and> t 0 < c + pending_ttl"
proof -
  have wf: "approvals_wf (prune (t 0) s)" by (rule approvals_wf_prune [OF assms(1)])
  have got: "get_pending i (t 1) (prune (t 0) s) = Some p"
    using assms(2) by (auto simp: consume_def Let_def split: option.splits if_splits)
  show ?thesis
  proof (cases "map_of (as_items (prune (t 0) s)) i")
    case (Some q)
    then have "(i, p) \<in> set (as_items (prune (t 0) s))" using got by (auto simp: get_pending_def dest: map_of_SomeD)
    then have "ap_created p \<noteq> None" "\<not> stale (t 0) p" using wf by (auto simp: approvals_wf_def prune_def)
    then show ?thesis by (auto simp: stale_def)
  next
    case None
    then have "first_payload (query_rows (\<lambda>r. ar_id r = i \<and> row_live (t 1) r) (prune (t 0) s)) = Some p"
      using got by (simp add: get_pending_def)
    then obtain rows r where r: "as_rows (prune (t 0) s) = Some rows" "r \<in> set rows" "row_live (t 1) r" "ar_payload r = p"
      using first_payload_query by blast
    then have "ap_created p \<noteq> None" "ar_expires r = unix_milli (created_at p + pending_ttl)"
      using wf by (auto simp: approvals_wf_def)
    then have "t 1 < created_at p + pending_ttl"
      using r(3) by (auto simp: row_live_def unix_milli_def)
    then show ?thesis using \<open>ap_created p \<noteq> None\<close> assms(3) by (auto simp: created_at_def)
  qed
qed

lemma approvals_expire_witness:
  "\<exists>s s' p c. consume ''a'' (\<lambda>_. 6) s = (s', Some p) \<and> ap_created p = Some c \<and> 6 < c + pending_ttl"
proof -
  let ?s = "fst (put_pending (\<lambda>ps. ps) ''a'' ''t'' (\<lambda>_. 5) sample_approval sample_store)"
  have "approvals_wf sample_store" by (simp add: approvals_wf_def sample_store_def)
  then have wf: "approvals_wf ?s" by (rule approvals_wf_put)
  have "\<not> Option.is_none (snd (consume ''a'' (\<lambda>_. 6) ?s))" by code_simp
  then obtain s' p where take: "consume ''a'' (\<lambda>_. 6) ?s = (s', Some p)"
    by (cases "consume ''a'' (\<lambda>_. 6) ?s") (auto simp: Option.is_none_def)
  from approvals_expire [OF wf take] take show ?thesis by blast
qed

section \<open>Equal actions share an approval\<close>

text \<open>Asking again for an action that still waits for its approval in this process registers nothing:
  the caller gets a waiting approval of the same session for the same action, whatever order Go
  iterates the map in.\<close>

theorem equal_actions_share_an_approval:
  assumes "set (order (map snd (as_items (prune (t 0) s)))) = snd ` set (as_items (prune (t 0) s))"
    "(i, q) \<in> set (as_items s)" "\<not> stale (t 0) q" "ap_session q = ap_session p"
    "ap_content_key q = ap_content_key (fill_pending new_id new_token (t 0) p)"
    "ap_content_key q \<noteq> []" "ap_created p = None"
  shows "\<exists>q'. put_pending order new_id new_token t p s = (prune (t 0) s, Some q') \<and>
    ap_session q' = ap_session p \<and> ap_content_key q' = ap_content_key q"
proof -
  let ?p = "fill_pending new_id new_token (t 0) p"
  let ?P = "\<lambda>x. ap_session x = ap_session ?p \<and> ap_content_key x = ap_content_key ?p"
  have session: "ap_session ?p = ap_session p" by (simp add: fill_pending_def Let_def)
  have created: "created_at ?p = t 0" using assms(7) by (simp add: fill_pending_def Let_def created_at_def)
  have "q \<in> snd ` set (as_items (prune (t 0) s))" using assms(2,3) by (force simp: prune_def)
  then have "q \<in> set (order (map snd (as_items (prune (t 0) s))))" "?P q" using assms(1,4,5) session by simp_all
  then have "find ?P (order (map snd (as_items (prune (t 0) s)))) \<noteq> None"
    using find_None_all [of ?P] by blast
  then obtain q' where q': "find ?P (order (map snd (as_items (prune (t 0) s)))) = Some q'" by blast
  then have "?P q'" using find_Some_in [of ?P] by blast
  moreover have "find_pending order (ap_session ?p) (ap_content_key ?p) (t 1) (prune (t 0) s) = Some q'"
    using q' by (simp add: find_pending_def)
  moreover have "ap_content_key ?p \<noteq> [] \<and> t 0 - created_at ?p < pending_ttl"
    using assms(5,6) created by (simp add: pending_ttl_def)
  ultimately show ?thesis using session assms(5) by (auto simp: put_pending_def Let_def)
qed

lemma equal_actions_share_an_approval_witness:
  "\<exists>s q'. put_pending (\<lambda>ps. ps) ''b'' ''u'' (\<lambda>_. 6) sample_approval s = (prune 6 s, Some q') \<and>
     ap_session q' = ''s''"
proof -
  let ?s = "fst (put_pending (\<lambda>ps. ps) ''a'' ''t'' (\<lambda>_. 5) sample_approval sample_store)"
  let ?q = "sample_approval\<lparr>ap_id := ''a'', ap_created := Some 5,
     ap_content_key := content_key sample_approval, ap_token := ''t''\<rparr>"
  have item: "(''a'', ?q) \<in> set (as_items ?s)" by code_simp
  have "\<not> stale 6 ?q" by code_simp
  moreover have "ap_content_key ?q = ap_content_key (fill_pending ''b'' ''u'' 6 sample_approval)" by code_simp
  moreover have "ap_content_key ?q \<noteq> []" by code_simp
  ultimately have "\<exists>q'. put_pending (\<lambda>ps. ps) ''b'' ''u'' (\<lambda>_. 6) sample_approval ?s = (prune 6 ?s, Some q') \<and>
    ap_session q' = ap_session sample_approval \<and> ap_content_key q' = ap_content_key ?q"
    using equal_actions_share_an_approval [of "\<lambda>ps. ps" "\<lambda>_. 6" ?s "''a''" ?q sample_approval "''b''" "''u''"] item
    by (simp add: sample_approval_def)
  then show ?thesis by (auto simp: sample_approval_def)
qed

end
