(* ===== verification/Secret_Store.thy ===== *)
theory Secret_Store
  imports Approval_Store "HOL-Library.List_Lexorder" "HOL-Library.Char_ord"
begin

text \<open>
  The secret requests and cached secrets of \<^verbatim>\<open>internal/secrets/store.go\<close>. Values live in memory
  (\<open>ss_values\<close>) with an expiry per key \<^verbatim>\<open>session|ref\<close> (\<open>ss_expiry\<close>); a pending request is in the map
  \<open>ss_pending\<close> and, in a persistent store, a row of \<^verbatim>\<open>secret_requests\<close>. Times are nanoseconds, columns
  milliseconds; \<open>t k\<close> is the \<open>k\<close>-th reading of the clock by a method. The values of a request are
  given in the order Go iterates them.
\<close>

section \<open>Cached values\<close>

record pending_secret =
  ps_id :: bytes
  ps_session :: bytes
  ps_principal :: bytes
  ps_tool :: bytes
  ps_reason :: bytes
  ps_prompt :: bytes
  ps_request_id :: bytes
  ps_workspace :: bytes
  ps_command :: bytes
  ps_work_dir :: bytes
  ps_resume_exec :: bool
  ps_created :: int

record secret_row =
  sc_id :: bytes
  sc_session :: bytes
  sc_principal :: bytes
  sc_payload :: pending_secret
  sc_status :: row_status
  sc_created :: int
  sc_expires :: int
  sc_consumed :: "int option"

record secret_store =
  ss_values :: "bytes \<Rightarrow> bytes \<Rightarrow> bytes option"
  ss_pending :: "bytes \<Rightarrow> pending_secret option"
  ss_expiry :: "bytes \<Rightarrow> int option"
  ss_rows :: "secret_row list option"

definition default_secret_ttl :: int where
  "default_secret_ttl = 15 * 60 * 1000000000"

definition one_shot_env :: "bytes \<Rightarrow> bytes \<Rightarrow> bytes list" where
  "one_shot_env password inject =
     (if password = [] then []
      else if inject = [] \<or> inject = ''askpass'' then [''MCPX_SECRET_PASSWORD='' @ password]
      else if length inject > 4 \<and> has_prefix inject ''env:'' then [drop 4 inject @ ''='' @ password]
      else [''MCPX_SECRET_PASSWORD='' @ password])"

definition secret_key :: "bytes \<Rightarrow> bytes \<Rightarrow> bytes" where
  "secret_key session ref = session @ ''|'' @ ref"

definition set_secret :: "bytes \<Rightarrow> bytes \<Rightarrow> bytes \<Rightarrow> bool \<Rightarrow> int \<Rightarrow> int \<Rightarrow> secret_store \<Rightarrow> secret_store" where
  "set_secret session ref v cache ttl now s =
     (if \<not> cache \<or> ref = [] \<or> v = [] then s
      else s\<lparr>ss_values := (ss_values s)(session := (ss_values s session)(ref \<mapsto> v)),
             ss_expiry := (ss_expiry s)(secret_key session ref \<mapsto>
               now + (if ttl \<le> 0 then default_secret_ttl else ttl))\<rparr>)"

definition get_secret :: "bytes \<Rightarrow> bytes \<Rightarrow> int \<Rightarrow> secret_store \<Rightarrow> secret_store \<times> bytes option" where
  "get_secret session ref now s =
     (case ss_expiry s (secret_key session ref) of
        Some deadline \<Rightarrow>
          if now > deadline
          then (s\<lparr>ss_values := (ss_values s)(session := (ss_values s session)(ref := None)),
                  ss_expiry := (ss_expiry s)(secret_key session ref := None)\<rparr>, None)
          else (s, ss_values s session ref)
      | None \<Rightarrow> (s, ss_values s session ref))"

section \<open>Pending requests\<close>

definition secret_row_of :: "pending_secret \<Rightarrow> secret_row" where
  "secret_row_of p =
     \<lparr>sc_id = ps_id p, sc_session = ps_session p, sc_principal = ps_principal p, sc_payload = p,
      sc_status = Row_Pending, sc_created = unix_milli (ps_created p),
      sc_expires = unix_milli (ps_created p + default_secret_ttl), sc_consumed = None\<rparr>"

text \<open>\<open>row_ok\<close> tells whether the row could be written; \<^verbatim>\<open>PutPending\<close> ignores the error.\<close>

definition put_secret_request :: "bytes \<Rightarrow> bool \<Rightarrow> int \<Rightarrow> pending_secret \<Rightarrow> secret_store \<Rightarrow> secret_store \<times> bytes" where
  "put_secret_request new_id row_ok now p0 s =
     (let p1 = (if ps_id p0 = [] then p0\<lparr>ps_id := ''sec_'' @ new_id\<rparr> else p0);
          p = p1\<lparr>ps_created := now\<rparr>
      in (s\<lparr>ss_pending := (ss_pending s)(ps_id p \<mapsto> p),
            ss_rows := map_option (\<lambda>rows. if row_ok
              then filter (\<lambda>r. sc_id r \<noteq> ps_id p) rows @ [secret_row_of p] else rows) (ss_rows s)\<rparr>,
          ps_id p))"

definition secret_row_live :: "int \<Rightarrow> secret_row \<Rightarrow> bool" where
  "secret_row_live now r \<longleftrightarrow> sc_status r = Row_Pending \<and> sc_expires r > unix_milli now"

definition spend_row :: "int \<Rightarrow> secret_row \<Rightarrow> secret_row" where
  "spend_row now r = r\<lparr>sc_status := Row_Consumed, sc_consumed := Some (unix_milli now)\<rparr>"

definition known_secret :: "bytes \<Rightarrow> int \<Rightarrow> secret_store \<Rightarrow> pending_secret option" where
  "known_secret i now s =
     (case ss_pending s i of
        Some p \<Rightarrow> Some p
      | None \<Rightarrow>
          (case ss_rows s of
             None \<Rightarrow> None
           | Some rows \<Rightarrow> map_option sc_payload (find (\<lambda>r. sc_id r = i \<and> secret_row_live now r) rows)))"

definition take_secret :: "bytes \<Rightarrow> (nat \<Rightarrow> int) \<Rightarrow> secret_store \<Rightarrow> secret_store \<times> pending_secret option" where
  "take_secret i t s =
     (case known_secret i (t 0) s of
        None \<Rightarrow> (s, None)
      | Some p \<Rightarrow>
          (case ss_rows s of
             None \<Rightarrow> (s\<lparr>ss_pending := (ss_pending s)(i := None)\<rparr>, Some p)
           | Some rows \<Rightarrow>
               let hit = (\<lambda>r. sc_id r = i \<and> secret_row_live (t 2) r);
                   rows' = map (\<lambda>r. if hit r then spend_row (t 1) r else r) rows
               in if length (filter hit rows) \<noteq> 1 then (s\<lparr>ss_rows := Some rows'\<rparr>, None)
                  else (s\<lparr>ss_rows := Some rows', ss_pending := (ss_pending s)(i := None)\<rparr>, Some p)))"

text \<open>Putting back a request of another session.\<close>

definition put_back :: "bytes \<Rightarrow> pending_secret \<Rightarrow> secret_store \<Rightarrow> secret_store" where
  "put_back i p s =
     s\<lparr>ss_pending := (ss_pending s)(i \<mapsto> p),
       ss_rows := map_option (map (\<lambda>r. if sc_id r = i
         then r\<lparr>sc_status := Row_Pending, sc_consumed := None\<rparr> else r)) (ss_rows s)\<rparr>"

fun store_values :: "bytes \<Rightarrow> int \<Rightarrow> (bytes \<times> bytes) list \<Rightarrow> secret_store \<Rightarrow> secret_store" where
  "store_values session now [] s = s"
| "store_values session now ((k, v) # vs) s =
     (let s1 = set_secret session k v True default_secret_ttl now s;
          s2 = (if k = ''password'' then set_secret session ''ssh_password'' v True default_secret_ttl now s1 else s1)
      in store_values session now vs s2)"

text \<open>What a user answers: the session it comes from, the values, and the clock.\<close>

record secret_answer =
  sa_session :: bytes
  sa_values :: "(bytes \<times> bytes) list"
  sa_clock :: "nat \<Rightarrow> int"

definition provide_secret :: "bytes \<Rightarrow> secret_answer \<Rightarrow> secret_store \<Rightarrow> secret_store \<times> pending_secret option" where
  "provide_secret i a s =
     (case take_secret i (sa_clock a) s of
        (s1, None) \<Rightarrow> (s1, None)
      | (s1, Some p) \<Rightarrow>
          if ps_session p \<noteq> sa_session a then (put_back i p s1, None)
          else (store_values (sa_session a) (sa_clock a 3) (sa_values a) s1, Some p))"

definition cache_secrets :: "bytes \<Rightarrow> int \<Rightarrow> (bytes \<times> bytes) list \<Rightarrow> secret_store \<Rightarrow> secret_store \<times> bytes list" where
  "cache_secrets session now vs s =
     (let kept = filter (\<lambda>e. fst e \<noteq> [] \<and> snd e \<noteq> []) vs in
      (foldl (\<lambda>s e. set_secret session (fst e) (snd e) True default_secret_ttl now s) s kept,
       sort (map fst kept)))"

section \<open>A secret request is answered once\<close>

datatype secret_call = Put_Secret bytes bool int pending_secret | Set_Secret bytes bytes bytes bool int int
  | Get_Secret bytes bytes int | Cache_Secrets bytes int "(bytes \<times> bytes) list"

fun secret_other :: "secret_call \<Rightarrow> secret_store \<Rightarrow> secret_store" where
  "secret_other (Put_Secret new_id row_ok now p) s = fst (put_secret_request new_id row_ok now p s)"
| "secret_other (Set_Secret session ref v cache ttl now) s = set_secret session ref v cache ttl now s"
| "secret_other (Get_Secret session ref now) s = fst (get_secret session ref now s)"
| "secret_other (Cache_Secrets session now vs) s = fst (cache_secrets session now vs s)"

fun secret_opens :: "secret_call \<Rightarrow> bytes option" where
  "secret_opens (Put_Secret new_id row_ok now p) = Some (if ps_id p = [] then ''sec_'' @ new_id else ps_id p)"
| "secret_opens _ = None"

definition secrets_ok :: "secret_store \<Rightarrow> bool" where
  "secrets_ok s \<longleftrightarrow> (case ss_rows s of None \<Rightarrow> True | Some rows \<Rightarrow> distinct (map sc_id rows))"

definition secret_live :: "bytes \<Rightarrow> secret_store \<Rightarrow> bool" where
  "secret_live i s \<longleftrightarrow> ss_pending s i \<noteq> None \<or>
     (\<exists>rows. ss_rows s = Some rows \<and> (\<exists>r \<in> set rows. sc_id r = i \<and> sc_status r = Row_Pending))"

lemma set_secret_requests [simp]:
  "ss_pending (set_secret session ref v cache ttl now s) = ss_pending s"
  "ss_rows (set_secret session ref v cache ttl now s) = ss_rows s"
  by (simp_all add: set_secret_def)

lemma store_values_requests [simp]:
  "ss_pending (store_values session now vs s) = ss_pending s \<and> ss_rows (store_values session now vs s) = ss_rows s"
  by (induction session now vs s rule: store_values.induct) (simp_all add: Let_def)

lemma cache_secrets_requests:
  "ss_pending (fst (cache_secrets session now vs s)) = ss_pending s \<and>
   ss_rows (fst (cache_secrets session now vs s)) = ss_rows s"
  unfolding cache_secrets_def Let_def fst_conv
  by (rule foldl_invariant [where P = "\<lambda>s'. ss_pending s' = ss_pending s \<and> ss_rows s' = ss_rows s"]) simp_all

lemma get_secret_requests [simp]:
  "ss_pending (fst (get_secret session ref now s)) = ss_pending s"
  "ss_rows (fst (get_secret session ref now s)) = ss_rows s"
  by (simp_all add: get_secret_def split: option.splits)

lemma spend_row_fields [simp]: "sc_id (spend_row now r) = sc_id r" "sc_status (spend_row now r) = Row_Consumed"
  by (simp_all add: spend_row_def)

lemma take_secret_cases:
  obtains (Nothing) "take_secret i t s = (s, None)"
  | (Memory) p where "ss_rows s = None" "ss_pending s i = Some p"
      "take_secret i t s = (s\<lparr>ss_pending := (ss_pending s)(i := None)\<rparr>, Some p)"
  | (Lost) rows f where "ss_rows s = Some rows" "take_secret i t s = (s\<lparr>ss_rows := Some (map f rows)\<rparr>, None)"
      "\<And>r. sc_id (f r) = sc_id r \<and> (sc_status (f r) = Row_Pending \<longrightarrow> sc_status r = Row_Pending)"
  | (Row) p rows f r where "ss_rows s = Some rows"
      "take_secret i t s = (s\<lparr>ss_rows := Some (map f rows), ss_pending := (ss_pending s)(i := None)\<rparr>, Some p)"
      "\<And>r. sc_id (f r) = sc_id r \<and> (sc_status (f r) = Row_Pending \<longrightarrow> sc_status r = Row_Pending)"
      "r \<in> set rows" "sc_id r = i" "sc_status r = Row_Pending" "sc_status (f r) = Row_Consumed"
proof -
  let ?hit = "\<lambda>r. sc_id r = i \<and> secret_row_live (t 2) r"
  let ?f = "\<lambda>r. if ?hit r then spend_row (t 1) r else r"
  have f: "sc_id (?f r) = sc_id r \<and> (sc_status (?f r) = Row_Pending \<longrightarrow> sc_status r = Row_Pending)" for r by simp
  show ?thesis
  proof (cases "known_secret i (t 0) s")
    case None
    then show ?thesis by (intro Nothing) (simp add: take_secret_def)
  next
    case (Some p)
    show ?thesis
    proof (cases "ss_rows s")
      case None
      then have "ss_pending s i = Some p" using Some by (cases "ss_pending s i") (simp_all add: known_secret_def)
      then show ?thesis using None Some by (intro Memory) (simp_all add: take_secret_def)
    next
      case rows: (Some rows)
      show ?thesis
      proof (cases "length (filter ?hit rows) = 1")
        case True
        then have "filter ?hit rows \<noteq> []" by auto
        then obtain r where r: "r \<in> set rows" "?hit r" by (auto simp: filter_empty_conv)
        then have st: "sc_id r = i" "sc_status r = Row_Pending" "sc_status (?f r) = Row_Consumed"
          by (simp_all add: secret_row_live_def)
        have "take_secret i t s = (s\<lparr>ss_rows := Some (map ?f rows), ss_pending := (ss_pending s)(i := None)\<rparr>, Some p)"
          using True Some rows by (simp add: take_secret_def Let_def)
        then show ?thesis by (rule Row [OF rows _ f r(1) st])
      next
        case False
        then have "take_secret i t s = (s\<lparr>ss_rows := Some (map ?f rows)\<rparr>, None)"
          using Some rows by (simp add: take_secret_def Let_def)
        then show ?thesis by (rule Lost [OF rows _ f])
      qed
    qed
  qed
qed

lemma take_secret_spends:
  assumes "secrets_ok s" "take_secret i t s = (s1, Some p)"
  shows "secret_live i s \<and> \<not> secret_live i s1"
proof (cases rule: take_secret_cases [of i t s])
  case (Memory q)
  then show ?thesis using assms(2) by (auto simp: secret_live_def)
next
  case (Row q rows f r)
  have only: "a = b" if "a \<in> set rows" "b \<in> set rows" "sc_id a = sc_id b" for a b
    using that assms(1) Row(1) by (auto simp: secrets_ok_def distinct_map inj_on_def)
  have "sc_status (f b) \<noteq> Row_Pending" if "b \<in> set rows" "sc_id (f b) = i" for b
    using only [OF Row(4) that(1)] Row that(2) by auto
  then have "\<not> secret_live i s1" using assms(2) Row(1,2) by (auto simp: secret_live_def)
  moreover have "secret_live i s" using Row(1,4,5,6) by (auto simp: secret_live_def)
  ultimately show ?thesis by blast
qed (use assms(2) in simp_all)

lemma take_secret_shrinks: "secret_live j (fst (take_secret i t s)) \<Longrightarrow> secret_live j s"
  by (cases rule: take_secret_cases [of i t s]) (auto simp: secret_live_def split: if_splits)

lemma secrets_ok_take: "secrets_ok s \<Longrightarrow> secrets_ok (fst (take_secret i t s))"
  by (cases rule: take_secret_cases [of i t s]) (simp_all add: secrets_ok_def o_def)

lemma put_back_live: "secret_live j (put_back i p s) \<Longrightarrow> j = i \<or> secret_live j s"
  by (auto simp: put_back_def secret_live_def split: if_splits)

lemma secrets_ok_put_back: "secrets_ok s \<Longrightarrow> secrets_ok (put_back i p s)"
  by (auto simp: put_back_def secrets_ok_def o_def if_distrib cong: if_cong split: option.splits)

interpretation secrets: one_shot secrets_ok provide_secret secret_live secret_other
  "\<lambda>x i. secret_opens x = Some i" "\<lambda>t i. False"
proof unfold_locales
  fix s i j a x
  assume ok: "secrets_ok s"
  note [split] = prod.splits option.splits
  show "snd (provide_secret i a s) \<noteq> None \<Longrightarrow> secret_live i s"
    using take_secret_spends [OF ok] by (auto simp: provide_secret_def)
  show "snd (provide_secret i a s) \<noteq> None \<Longrightarrow> \<not> secret_live i (fst (provide_secret i a s))"
    using take_secret_spends [OF ok, of i "sa_clock a"]
    by (auto simp: provide_secret_def secret_live_def split: if_splits)
  have "secret_live i s" if live: "secret_live i (fst (provide_secret j a s))"
  proof (cases "take_secret j (sa_clock a) s")
    case (Pair s1 r)
    show ?thesis
    proof (cases r)
      case None
      then show ?thesis using live Pair take_secret_shrinks [of i j "sa_clock a" s]
        by (simp add: provide_secret_def)
    next
      case (Some p)
      have "i = j \<or> secret_live i s1"
      proof (cases "ps_session p = sa_session a")
        case True
        then have "fst (provide_secret j a s) = store_values (sa_session a) (sa_clock a 3) (sa_values a) s1"
          using Pair Some by (simp add: provide_secret_def)
        then show ?thesis using live by (simp add: secret_live_def)
      next
        case False
        then have "fst (provide_secret j a s) = put_back j p s1" using Pair Some by (simp add: provide_secret_def)
        then show ?thesis using live put_back_live [of i j p s1] by simp
      qed
      then show ?thesis using take_secret_spends [OF ok, of j "sa_clock a" s1 p] Pair Some
          take_secret_shrinks [of i j "sa_clock a" s] by auto
    qed
  qed
  then show "secret_live i (fst (provide_secret j a s)) \<Longrightarrow> secret_live i s \<or> False" by blast
  show "secret_live i (secret_other x s) \<Longrightarrow> secret_live i s \<or> secret_opens x = Some i"
    by (cases x) (auto simp: secret_live_def put_secret_request_def Let_def secret_row_of_def
        cache_secrets_requests split: if_splits)
  show "secrets_ok (fst (provide_secret i a s))"
    using secrets_ok_take [OF ok, of i "sa_clock a"] secrets_ok_put_back
    by (auto simp: provide_secret_def) (simp_all add: secrets_ok_def)
  show "secrets_ok (secret_other x s)"
    using ok by (cases x) (auto simp: secrets_ok_def put_secret_request_def Let_def secret_row_of_def
        cache_secrets_requests distinct_map_filter)
qed

fun times_provided :: "bytes \<Rightarrow> (secret_answer, secret_call) pending_call list \<Rightarrow> secret_store \<Rightarrow> nat" where
  "times_provided i [] s = 0"
| "times_provided i (Take j a # cs) s =
     (if j = i \<and> snd (provide_secret j a s) \<noteq> None then 1 else 0) + times_provided i cs (fst (provide_secret j a s))"
| "times_provided i (Other x # cs) s = times_provided i cs (secret_other x s)"

fun reasks :: "bytes \<Rightarrow> (secret_answer, secret_call) pending_call \<Rightarrow> bool" where
  "reasks i (Take j a) \<longleftrightarrow> False"
| "reasks i (Other x) \<longleftrightarrow> secret_opens x = Some i"

lemma times_provided_taken: "times_provided i cs s = secrets.taken i cs s"
  by (induction i cs s rule: times_provided.induct) simp_all

lemma reasks_registers: "reasks i c = secrets.registers i c"
  by (cases c) simp_all

definition sample_request :: pending_secret where
  "sample_request = \<lparr>ps_id = ''q'', ps_session = ''s'', ps_principal = ''p'', ps_tool = [], ps_reason = [],
     ps_prompt = [], ps_request_id = [], ps_workspace = [], ps_command = [], ps_work_dir = [],
     ps_resume_exec = False, ps_created = 0\<rparr>"

definition empty_secrets :: secret_store where
  "empty_secrets = \<lparr>ss_values = (\<lambda>_ _. None), ss_pending = (\<lambda>_. None), ss_expiry = (\<lambda>_. None), ss_rows = Some []\<rparr>"

definition sample_answer :: "bytes \<Rightarrow> secret_answer" where
  "sample_answer session = \<lparr>sa_session = session, sa_values = [(''password'', ''x'')], sa_clock = (\<lambda>_. 9)\<rparr>"

text \<open>Whatever sequence of calls reaches the store, a request for a secret is answered at most once,
  unless it is registered again; an answer from another session does not spend it.\<close>

theorem secret_requests_are_answered_once:
  assumes "secrets_ok s" "list_all (\<lambda>c. \<not> reasks i c) cs"
  shows "times_provided i cs s \<le> 1"
  using secrets.taken_once [OF assms(1)] assms(2) by (simp add: times_provided_taken reasks_registers)

lemma secret_requests_are_answered_once_witness:
  "let s = fst (put_secret_request [] True 5 sample_request empty_secrets);
       cs = [Take ''q'' (sample_answer ''other''), Take ''q'' (sample_answer ''s''), Take ''q'' (sample_answer ''s'')] in
   times_provided ''q'' cs s \<le> 1 \<and> times_provided ''q'' (take 2 cs) s = 1"
proof -
  let ?s = "fst (put_secret_request [] True 5 sample_request empty_secrets)"
  let ?cs = "[Take ''q'' (sample_answer ''other''), Take ''q'' (sample_answer ''s''), Take ''q'' (sample_answer ''s'')]
    :: (secret_answer, secret_call) pending_call list"
  have "secrets_ok ?s" by (simp add: secrets_ok_def put_secret_request_def empty_secrets_def Let_def)
  moreover have "list_all (\<lambda>c. \<not> reasks ''q'' c) ?cs" by simp
  ultimately have "times_provided ''q'' ?cs ?s \<le> 1" by (rule secret_requests_are_answered_once)
  moreover have "times_provided ''q'' (take 2 ?cs) ?s = 1" by code_simp
  ultimately show ?thesis by (simp add: Let_def)
qed

text \<open>A cached secret is returned until its time to live is over, and never afterwards; a further
  read does not bring it back.\<close>

theorem cached_secret_lifetime:
  assumes "ref \<noteq> []" "v \<noteq> []"
  shows "let s1 = set_secret session ref v True ttl now s;
             deadline = now + (if ttl \<le> 0 then default_secret_ttl else ttl);
             (s2, got) = get_secret session ref later s1 in
    got = (if later \<le> deadline then Some v else None) \<and>
    (later > deadline \<longrightarrow> snd (get_secret session ref any s2) = None)"
  using assms by (simp add: set_secret_def get_secret_def Let_def)

lemma cached_secret_lifetime_witness:
  "let s1 = set_secret ''s'' ''r'' ''v'' True 10 5 empty_secrets; (s2, got) = get_secret ''s'' ''r'' 16 s1 in
   got = None \<and> snd (get_secret ''s'' ''r'' 7 s2) = None"
  using cached_secret_lifetime [of "''r''" "''v''" "''s''" 10 5 empty_secrets 16 7]
  by (simp add: Let_def split: prod.splits)

end
