(* ===== verification/Plan_Tasks.thy ===== *)
theory Plan_Tasks
  imports Operation_Db
begin

text \<open>
  The data of \<^verbatim>\<open>internal/plan/types.go\<close> and the functions of \<^verbatim>\<open>internal/plan/service.go\<close> on the
  tasks of one plan: the normalisation of the tasks a new plan is made of (\<open>normalize_task_inputs\<close>),
  the check of the dependency graph (\<open>validate_task_graph\<close>), the test that the dependencies of a task
  are done, the operations of a replanning and the progress count. An error is the sentinel it wraps:
  the text of the messages is left out. Times are the milliseconds of the columns. \<open>ids k\<close> is the
  \<open>k\<close>-th identifier \<^verbatim>\<open>newID\<close> draws in a call; nothing is assumed of it here.
\<close>

section \<open>Data\<close>

datatype plan_status = P_Ready | P_In_Progress | P_Blocked | P_Completed | P_Cancelled

datatype task_status = T_Todo | T_In_Progress | T_Blocked | T_Completed | T_Skipped

datatype plan_error = E_Not_Found | E_Invalid_Input | E_Invalid_State | E_Dependency | E_Cycle
  | E_Evidence | E_Evidence_Required | E_Dispatch_In_Progress | E_Dispatch_Conflict | E_Grant_Not_Found
  | E_Store

fun task_status_name :: "task_status \<Rightarrow> bytes" where
  "task_status_name T_Todo = ''todo''"
| "task_status_name T_In_Progress = ''in_progress''"
| "task_status_name T_Blocked = ''blocked''"
| "task_status_name T_Completed = ''completed''"
| "task_status_name T_Skipped = ''skipped''"

record evidence =
  e_id :: bytes
  e_plan :: bytes
  e_task :: bytes
  e_kind :: bytes
  e_reference :: bytes
  e_validated :: bool
  e_source_event :: bytes
  e_metadata :: "(bytes \<times> json) list"
  e_created_by :: bytes
  e_created :: int

datatype dispatch_status = Creating | Dispatched

record multica_dispatch =
  x_plan :: bytes
  x_task :: bytes
  x_issue :: bytes
  x_identifier :: bytes
  x_status :: dispatch_status
  x_assignee :: bytes
  x_project :: bytes
  x_priority :: bytes
  x_created :: int
  x_updated :: int

text \<open>A row of \<^verbatim>\<open>plan_tasks\<close> and the \<^verbatim>\<open>Task\<close> loaded from it.\<close>

record task_row =
  t_id :: bytes
  t_plan :: bytes
  t_ordinal :: int
  t_title :: bytes
  t_description :: bytes
  t_status :: task_status
  t_depends_on :: "bytes list"
  t_created :: int
  t_updated :: int
  t_completed :: "int option"

record task = task_row +
  t_evidence :: "evidence list"
  t_dispatch :: "multica_dispatch option"

record progress =
  pg_total :: nat
  pg_todo :: nat
  pg_in_progress :: nat
  pg_blocked :: nat
  pg_completed :: nat
  pg_skipped :: nat

record task_input =
  ti_id :: bytes
  ti_title :: bytes
  ti_description :: bytes
  ti_depends_on :: "bytes list"

record task_operation =
  to_action :: bytes
  to_task :: bytes
  to_title :: bytes
  to_description :: bytes
  to_depends_on :: "bytes list"

definition task_done :: "task_status \<Rightarrow> bool" where
  "task_done s \<longleftrightarrow> s = T_Completed \<or> s = T_Skipped"

text \<open>\<^verbatim>\<open>uniqueStrings\<close>.\<close>

definition unique_strings :: "bytes list \<Rightarrow> bytes list" where
  "unique_strings values = dedup_from [] (filter (\<lambda>v. v \<noteq> []) (map trim_space values))"

section \<open>Evidence kinds\<close>

definition evidence_kinds :: "bytes list" where
  "evidence_kinds = [''read'', ''edit'', ''execute'', ''artifact'', ''source'', ''verification'', ''observe'']"

definition is_evidence_kind :: "bytes \<Rightarrow> bool" where
  "is_evidence_kind kind \<longleftrightarrow> to_lower (trim_space kind) \<in> set evidence_kinds"

section \<open>Searching tasks\<close>

definition find_task :: "task list \<Rightarrow> bytes \<Rightarrow> (plan_error, task) result" where
  "find_task tasks i = (case find (\<lambda>t. t_id t = i) tasks of None \<Rightarrow> Inl E_Not_Found | Some t \<Rightarrow> Inr t)"

fun task_index :: "task list \<Rightarrow> bytes \<Rightarrow> nat option" where
  "task_index [] i = None"
| "task_index (t # ts) i = (if t_id t = i then Some 0 else map_option Suc (task_index ts i))"

text \<open>The map \<^verbatim>\<open>byID\<close> the functions below fill in a loop: the last task with an identifier stays.\<close>

definition by_id :: "task list \<Rightarrow> bytes \<Rightarrow> task option" where
  "by_id tasks = map_of (rev (map (\<lambda>t. (t_id t, t)) tasks))"

definition dependencies_complete :: "task list \<Rightarrow> task \<Rightarrow> (plan_error, unit) result" where
  "dependencies_complete tasks task =
     guard (list_all (\<lambda>d. case by_id tasks d of None \<Rightarrow> False | Some t \<Rightarrow> task_done (t_status t))
              (t_depends_on task)) E_Dependency"

section \<open>The dependency graph\<close>

definition task_deps :: "task list \<Rightarrow> bytes \<Rightarrow> bytes list" where
  "task_deps tasks i = (case by_id tasks i of None \<Rightarrow> [] | Some t \<Rightarrow> t_depends_on t)"

definition unknown_task :: "task list \<Rightarrow> bytes \<Rightarrow> plan_error option" where
  "unknown_task tasks i = (case by_id tasks i of None \<Rightarrow> Some E_Dependency | Some _ \<Rightarrow> None)"

definition self_dependency :: "bytes \<Rightarrow> bytes \<Rightarrow> plan_error option" where
  "self_dependency i d = (if d = i then Some E_Cycle else None)"

text \<open>The outer \<^const>\<open>None\<close> is running out of fuel, which \<open>validate_task_graph_answers\<close> excludes.\<close>

definition validate_task_graph :: "task list \<Rightarrow> (plan_error, unit) result option" where
  "validate_task_graph tasks =
     dfs_all (task_deps tasks) (unknown_task tasks) self_dependency (\<lambda>_. E_Cycle)
       (Suc (length tasks)) (map t_id tasks) (\<lambda>_. White)"

text \<open>The check as the callers use it.\<close>

definition check_task_graph :: "task list \<Rightarrow> (plan_error, unit) result" where
  "check_task_graph tasks = (case validate_task_graph tasks of None \<Rightarrow> Inl E_Cycle | Some r \<Rightarrow> r)"

section \<open>The tasks of a new plan\<close>

definition local_id :: "nat \<Rightarrow> task_input \<Rightarrow> bytes" where
  "local_id i input =
     (let l = trim_space (ti_id input) in if l = [] then ''task-'' @ show_nat (Suc i) else l)"

text \<open>The first loop: \<^verbatim>\<open>finalByLocal\<close>.\<close>

fun bind_locals :: "(nat \<Rightarrow> bytes) \<Rightarrow> nat \<Rightarrow> task_input list \<Rightarrow> (bytes \<times> bytes) list \<Rightarrow>
    (plan_error, (bytes \<times> bytes) list) result" where
  "bind_locals ids i [] final = Inr final"
| "bind_locals ids i (x # xs) final =
     (if map_of final (local_id i x) \<noteq> None then Inl E_Invalid_Input
      else bind_locals ids (Suc i) xs (final @ [(local_id i x, ids i)]))"

text \<open>Indexing a Go map of strings.\<close>

definition map_get :: "(bytes \<times> bytes) list \<Rightarrow> bytes \<Rightarrow> bytes" where
  "map_get m k = (case map_of m k of None \<Rightarrow> [] | Some v \<Rightarrow> v)"

definition new_task :: "bytes \<Rightarrow> bytes \<Rightarrow> int \<Rightarrow> bytes \<Rightarrow> bytes \<Rightarrow> bytes list \<Rightarrow> task" where
  "new_task i plan ordinal title description deps =
     \<lparr>t_id = i, t_plan = plan, t_ordinal = ordinal, t_title = title, t_description = description,
      t_status = T_Todo, t_depends_on = deps, t_created = 0, t_updated = 0, t_completed = None,
      t_evidence = [], t_dispatch = None\<rparr>"

text \<open>The second loop.\<close>

fun make_tasks :: "(bytes \<times> bytes) list \<Rightarrow> nat \<Rightarrow> task_input list \<Rightarrow> (plan_error, task list) result" where
  "make_tasks final i [] = Inr []"
| "make_tasks final i (x # xs) =
     (if trim_space (ti_title x) = [] then Inl E_Invalid_Input
      else and_then (make_tasks final (Suc i) xs) (\<lambda>ts.
        Inr (new_task (map_get final (local_id i x)) [] (int i) (trim_space (ti_title x))
               (trim_space (ti_description x)) [] # ts)))"

fun resolve_refs :: "(bytes \<times> bytes) list \<Rightarrow> bytes list \<Rightarrow> (plan_error, bytes list) result" where
  "resolve_refs final [] = Inr []"
| "resolve_refs final (r # refs) =
     (case map_of final (trim_space r) of
        None \<Rightarrow> Inl E_Dependency
      | Some v \<Rightarrow> and_then (resolve_refs final refs) (\<lambda>vs. Inr (v # vs)))"

text \<open>The third loop.\<close>

fun link_tasks :: "(bytes \<times> bytes) list \<Rightarrow> task_input list \<Rightarrow> task list \<Rightarrow> (plan_error, task list) result" where
  "link_tasks final (x # xs) (t # ts) =
     and_then (resolve_refs final (ti_depends_on x)) (\<lambda>deps.
     and_then (link_tasks final xs ts) (\<lambda>rest.
       Inr (t\<lparr>t_depends_on := unique_strings deps\<rparr> # rest)))"
| "link_tasks final _ _ = Inr []"

definition max_tasks :: nat where
  "max_tasks = 100"

definition normalize_task_inputs :: "(nat \<Rightarrow> bytes) \<Rightarrow> task_input list \<Rightarrow> (plan_error, task list) result" where
  "normalize_task_inputs ids inputs =
     (if inputs = [] \<or> length inputs > max_tasks then Inl E_Invalid_Input
      else and_then (bind_locals ids 0 inputs []) (\<lambda>final.
           and_then (make_tasks final 0 inputs) (\<lambda>tasks.
           and_then (link_tasks final inputs tasks) (\<lambda>result.
           and_then (check_task_graph result) (\<lambda>_. Inr result)))))"

section \<open>Replanning\<close>

text \<open>The state of the loop of \<^verbatim>\<open>applyOperations\<close>: the tasks, the highest ordinal, the number of
  identifiers drawn.\<close>

type_synonym replan_state = "task list \<times> int \<times> nat"

definition apply_add :: "(nat \<Rightarrow> bytes) \<Rightarrow> bytes \<Rightarrow> bytes list \<Rightarrow> task_operation \<Rightarrow> replan_state \<Rightarrow>
    (plan_error, replan_state) result" where
  "apply_add ids plan original x s =
     (case s of (tasks, max_ordinal, drawn) \<Rightarrow>
        let title = trim_space (to_title x) in
        if title = [] then Inl E_Invalid_Input
        else
          let given = trim_space (to_task x);
              i = (if given = [] then ids drawn else given);
              drawn' = (if given = [] then Suc drawn else drawn)
          in if task_index tasks i \<noteq> None \<or> i \<in> set original then Inl E_Invalid_Input
             else Inr (tasks @ [new_task i plan (max_ordinal + 1) title (trim_space (to_description x))
                                  (unique_strings (to_depends_on x))], max_ordinal + 1, drawn'))"

definition change_task :: "task_operation \<Rightarrow> task \<Rightarrow> task" where
  "change_task x t =
     t\<lparr>t_title := (if trim_space (to_title x) \<noteq> [] then trim_space (to_title x) else t_title t),
       t_description := trim_space (to_description x),
       t_depends_on := unique_strings (to_depends_on x)\<rparr>"

definition apply_update :: "task_operation \<Rightarrow> replan_state \<Rightarrow> (plan_error, replan_state) result" where
  "apply_update x s =
     (case s of (tasks, max_ordinal, drawn) \<Rightarrow>
        case task_index tasks (trim_space (to_task x)) of
          None \<Rightarrow> Inl E_Not_Found
        | Some k \<Rightarrow>
            if task_done (t_status (tasks ! k)) then Inl E_Invalid_State
            else Inr (tasks[k := change_task x (tasks ! k)], max_ordinal, drawn))"

definition apply_remove :: "task_operation \<Rightarrow> replan_state \<Rightarrow> (plan_error, replan_state) result" where
  "apply_remove x s =
     (case s of (tasks, max_ordinal, drawn) \<Rightarrow>
        let i = trim_space (to_task x) in
        case task_index tasks i of
          None \<Rightarrow> Inl E_Not_Found
        | Some k \<Rightarrow>
            if task_done (t_status (tasks ! k)) then Inl E_Invalid_State
            else if list_ex (\<lambda>t. i \<in> set (t_depends_on t)) tasks then Inl E_Dependency
            else Inr (take k tasks @ drop (Suc k) tasks, max_ordinal, drawn))"

definition apply_operation :: "(nat \<Rightarrow> bytes) \<Rightarrow> bytes \<Rightarrow> bytes list \<Rightarrow> task_operation \<Rightarrow> replan_state \<Rightarrow>
    (plan_error, replan_state) result" where
  "apply_operation ids plan original x s =
     (let action = to_lower (trim_space (to_action x)) in
      if action = ''add'' then apply_add ids plan original x s
      else if action = ''update'' then apply_update x s
      else if action = ''remove'' then apply_remove x s
      else Inl E_Invalid_Input)"

fun apply_operations :: "(nat \<Rightarrow> bytes) \<Rightarrow> bytes \<Rightarrow> bytes list \<Rightarrow> task_operation list \<Rightarrow> replan_state \<Rightarrow>
    (plan_error, replan_state) result" where
  "apply_operations ids plan original [] s = Inr s"
| "apply_operations ids plan original (x # xs) s =
     and_then (apply_operation ids plan original x s) (apply_operations ids plan original xs)"

text \<open>\<^verbatim>\<open>maxOrdinal\<close>.\<close>

definition max_ordinal_of :: "task list \<Rightarrow> int" where
  "max_ordinal_of tasks = foldl (\<lambda>m t. if t_ordinal t > m then t_ordinal t else m) (-1) tasks"

section \<open>Progress\<close>

fun count_task :: "progress \<Rightarrow> task_status \<Rightarrow> progress" where
  "count_task p T_Todo = p\<lparr>pg_todo := Suc (pg_todo p)\<rparr>"
| "count_task p T_In_Progress = p\<lparr>pg_in_progress := Suc (pg_in_progress p)\<rparr>"
| "count_task p T_Blocked = p\<lparr>pg_blocked := Suc (pg_blocked p)\<rparr>"
| "count_task p T_Completed = p\<lparr>pg_completed := Suc (pg_completed p)\<rparr>"
| "count_task p T_Skipped = p\<lparr>pg_skipped := Suc (pg_skipped p)\<rparr>"

definition calculate_progress :: "task list \<Rightarrow> progress" where
  "calculate_progress tasks =
     foldl count_task
       \<lparr>pg_total = length tasks, pg_todo = 0, pg_in_progress = 0, pg_blocked = 0, pg_completed = 0,
        pg_skipped = 0\<rparr> (map t_status tasks)"

section \<open>Lemmas\<close>

lemma set_unique_strings: "set (unique_strings vs) = {trim_space v | v. v \<in> set vs \<and> trim_space v \<noteq> []}"
  by (auto simp: unique_strings_def set_dedup_from)

lemma distinct_unique_strings [simp]: "distinct (unique_strings vs)"
  by (simp add: unique_strings_def distinct_dedup_from)

lemma unique_strings_trimmed: "(\<And>v. v \<in> set vs \<Longrightarrow> trim_space v = v \<and> v \<noteq> []) \<Longrightarrow> set (unique_strings vs) = set vs"
  by (force simp: set_unique_strings)

lemma task_index_Some: "task_index ts i = Some k \<Longrightarrow> k < length ts \<and> t_id (ts ! k) = i"
  by (induction ts arbitrary: k) (auto split: if_splits)

lemma task_index_None: "task_index ts i = None \<longleftrightarrow> i \<notin> t_id ` set ts"
  by (induction ts) auto

lemma task_index_in: "task_index ts i = Some k \<Longrightarrow> ts ! k \<in> set ts"
  using task_index_Some nth_mem by blast

lemma task_index_nth: "distinct (map t_id ts) \<Longrightarrow> k < length ts \<Longrightarrow> task_index ts (t_id (ts ! k)) = Some k"
proof (induction ts arbitrary: k)
  case (Cons t ts)
  then show ?case by (cases k) auto
qed simp

lemma find_task_ok: "find_task ts i = Inr t \<Longrightarrow> t \<in> set ts \<and> t_id t = i"
  by (auto simp: find_task_def dest: find_Some_in split: option.splits)

lemma find_task_distinct:
  assumes "distinct (map t_id ts)" "t \<in> set ts"
  shows "find_task ts (t_id t) = Inr t"
proof (cases "find (\<lambda>u. t_id u = t_id t) ts")
  case None
  then show ?thesis using assms(2) by (auto simp: find_None_all)
next
  case (Some u)
  then have "u \<in> set ts" "t_id u = t_id t" using find_Some_in [OF Some] by simp_all
  then have "u = t" using assms by (auto simp: distinct_map dest: inj_onD)
  then show ?thesis by (simp add: find_task_def Some)
qed

lemma find_task_None: "find_task ts i = Inl E_Not_Found \<longleftrightarrow> i \<notin> t_id ` set ts"
  by (auto simp: find_task_def find_None_all dest: find_Some_in split: option.splits)

lemma by_id_None: "by_id ts i = None \<longleftrightarrow> i \<notin> t_id ` set ts"
  by (auto simp: by_id_def map_of_eq_None_iff image_image)

lemma by_id_in: "by_id ts i = Some t \<Longrightarrow> t \<in> set ts \<and> t_id t = i"
  by (auto simp: by_id_def dest: map_of_SomeD)

lemma by_id_distinct: "distinct (map t_id ts) \<Longrightarrow> t \<in> set ts \<Longrightarrow> by_id ts (t_id t) = Some t"
  unfolding by_id_def by (rule map_of_is_SomeI) (simp_all add: rev_map [symmetric] comp_def)

lemma task_deps_distinct: "distinct (map t_id ts) \<Longrightarrow> t \<in> set ts \<Longrightarrow> task_deps ts (t_id t) = t_depends_on t"
  by (simp add: task_deps_def by_id_distinct)

lemma dependencies_complete_iff:
  assumes "distinct (map t_id ts)"
  shows "dependencies_complete ts t = Inr () \<longleftrightarrow>
    (\<forall>d \<in> set (t_depends_on t). \<exists>u \<in> set ts. t_id u = d \<and> task_done (t_status u))"
proof -
  have "(case by_id ts d of None \<Rightarrow> False | Some u \<Rightarrow> task_done (t_status u)) \<longleftrightarrow>
      (\<exists>u \<in> set ts. t_id u = d \<and> task_done (t_status u))" for d
    using by_id_in by_id_distinct [OF assms] by (force split: option.splits)
  then show ?thesis by (simp add: dependencies_complete_def list_all_iff)
qed

lemma unique_strings_Nil: "unique_strings vs = [] \<longleftrightarrow> (\<forall>v \<in> set vs. trim_space v = [])"
proof -
  have "unique_strings vs = [] \<longleftrightarrow> set (unique_strings vs) = {}" by simp
  then show ?thesis unfolding set_unique_strings by auto
qed

subsection \<open>The graph check\<close>

interpretation task_graph: dfs_contract "map t_id tasks" "task_deps tasks" "unknown_task tasks"
    self_dependency "\<lambda>_. E_Cycle" for tasks
proof unfold_locales
  fix a b :: bytes
  show "b \<in> set (map t_id tasks)" if "unknown_task tasks b = None"
    using that by_id_None [of tasks b] by (auto simp: unknown_task_def split: option.splits)
  show "unknown_task tasks a = None" if "a \<in> set (map t_id tasks)"
    using that by_id_None [of tasks a] by (auto simp: unknown_task_def split: option.splits)
  show "b \<notin> set (map t_id tasks) \<or> a = b" if "self_dependency a b \<noteq> None"
    using that by (simp add: self_dependency_def split: if_splits)
qed

definition task_graph_valid :: "task list \<Rightarrow> bool" where
  "task_graph_valid tasks \<longleftrightarrow> valid_graph (set (map t_id tasks)) (task_deps tasks)"

lemma validate_task_graph_cases:
  "validate_task_graph tasks \<noteq> None \<and> (validate_task_graph tasks = Some (Inr ()) \<longleftrightarrow> task_graph_valid tasks)"
proof -
  have "validate_task_graph tasks = dfs_all (task_deps tasks) (unknown_task tasks) self_dependency (\<lambda>_. E_Cycle)
      (Suc (length (map t_id tasks))) (map t_id tasks) (\<lambda>_. White)"
    by (simp add: validate_task_graph_def)
  then show ?thesis
    using task_graph.dfs_accepts_iff [OF refl, of tasks] task_graph.dfs_answers [OF refl, of tasks]
    by (simp add: task_graph_valid_def)
qed

lemma check_task_graph_ok: "check_task_graph tasks = Inr u \<longleftrightarrow> task_graph_valid tasks"
  using validate_task_graph_cases [of tasks] by (auto simp: check_task_graph_def split: option.splits)

subsection \<open>Normalised tasks\<close>

fun local_ids :: "nat \<Rightarrow> task_input list \<Rightarrow> bytes list" where
  "local_ids i [] = []"
| "local_ids i (x # xs) = local_id i x # local_ids (Suc i) xs"

lemma length_local_ids [simp]: "length (local_ids i xs) = length xs"
  by (induction xs arbitrary: i) simp_all

lemma local_ids_nth: "k < length xs \<Longrightarrow> local_ids i xs ! k = local_id (i + k) (xs ! k)"
  by (induction xs arbitrary: i k) (auto simp: nth_Cons split: nat.splits)

definition final_ids :: "(nat \<Rightarrow> bytes) \<Rightarrow> task_input list \<Rightarrow> (bytes \<times> bytes) list" where
  "final_ids ids xs = zip (local_ids 0 xs) (map ids [0..<length xs])"

lemma bind_locals_ok:
  "bind_locals ids i xs final = Inr m \<longleftrightarrow>
     distinct (local_ids i xs) \<and> set (local_ids i xs) \<inter> fst ` set final = {} \<and>
     m = final @ zip (local_ids i xs) (map ids [i..<i + length xs])"
proof (induction xs arbitrary: i final)
  case Nil
  then show ?case by auto
next
  case (Cons x xs)
  have "[i..<i + length (x # xs)] = i # [Suc i..<Suc i + length xs]"
    by (metis add_Suc add_Suc_right length_Cons less_add_Suc1 upt_conv_Cons)
  then show ?case by (auto simp: Cons.IH map_of_eq_None_iff)
qed

lemma bind_locals_start: "bind_locals ids 0 xs [] = Inr m \<longleftrightarrow> distinct (local_ids 0 xs) \<and> m = final_ids ids xs"
  by (simp add: bind_locals_ok final_ids_def)

lemma make_tasks_ok:
  "make_tasks final i xs = Inr ts \<longleftrightarrow>
     (\<forall>x \<in> set xs. trim_space (ti_title x) \<noteq> []) \<and>
     ts = map (\<lambda>(k, x). new_task (map_get final (local_id k x)) [] (int k) (trim_space (ti_title x))
                 (trim_space (ti_description x)) []) (enumerate i xs)"
  by (induction xs arbitrary: i ts) auto

lemma resolve_refs_ok:
  "resolve_refs final rs = Inr vs \<longleftrightarrow>
     (\<forall>r \<in> set rs. trim_space r \<in> fst ` set final) \<and> vs = map (\<lambda>r. map_get final (trim_space r)) rs"
proof (induction rs arbitrary: vs)
  case (Cons r rs)
  then show ?case
    using map_of_eq_None_iff [of final "trim_space r"] by (auto simp: map_get_def split: option.splits)
qed auto

lemma link_tasks_ok:
  "length ts = length xs \<Longrightarrow> link_tasks final xs ts = Inr rs \<longleftrightarrow>
     (\<forall>x \<in> set xs. \<forall>r \<in> set (ti_depends_on x). trim_space r \<in> fst ` set final) \<and>
     rs = map2 (\<lambda>x t. t\<lparr>t_depends_on :=
            unique_strings (map (\<lambda>r. map_get final (trim_space r)) (ti_depends_on x))\<rparr>) xs ts"
proof (induction xs arbitrary: ts rs)
  case (Cons x xs)
  then show ?case by (cases ts) (auto simp: resolve_refs_ok)
qed auto

text \<open>What the three loops build.\<close>

definition input_task :: "(nat \<Rightarrow> bytes) \<Rightarrow> task_input list \<Rightarrow> nat \<Rightarrow> task" where
  "input_task ids xs k =
     (let x = xs ! k; final = final_ids ids xs in
      new_task (ids k) [] (int k) (trim_space (ti_title x)) (trim_space (ti_description x))
        (unique_strings (map (\<lambda>r. map_get final (trim_space r)) (ti_depends_on x))))"

definition input_tasks :: "(nat \<Rightarrow> bytes) \<Rightarrow> task_input list \<Rightarrow> task list" where
  "input_tasks ids xs = map (input_task ids xs) [0..<length xs]"

lemma map_get_final:
  "distinct (local_ids 0 xs) \<Longrightarrow> k < length xs \<Longrightarrow> map_get (final_ids ids xs) (local_ids 0 xs ! k) = ids k"
  by (simp add: map_get_def final_ids_def map_of_zip_nth)

lemma dom_final: "fst ` set (final_ids ids xs) = set (local_ids 0 xs)"
  by (simp add: final_ids_def image_set [symmetric] del: image_set set_map flip: set_map)

definition inputs_named :: "task_input list \<Rightarrow> bool" where
  "inputs_named xs \<longleftrightarrow> xs \<noteq> [] \<and> length xs \<le> max_tasks \<and> distinct (local_ids 0 xs) \<and>
     (\<forall>x \<in> set xs. trim_space (ti_title x) \<noteq> []) \<and>
     (\<forall>x \<in> set xs. \<forall>r \<in> set (ti_depends_on x). trim_space r \<in> set (local_ids 0 xs))"

lemma loops_build:
  assumes "distinct (local_ids 0 xs)"
  shows "map2 (\<lambda>x t. t\<lparr>t_depends_on :=
            unique_strings (map (\<lambda>r. map_get (final_ids ids xs) (trim_space r)) (ti_depends_on x))\<rparr>) xs
          (map (\<lambda>(k, x). new_task (map_get (final_ids ids xs) (local_id k x)) [] (int k) (trim_space (ti_title x))
                 (trim_space (ti_description x)) []) (enumerate 0 xs)) = input_tasks ids xs" (is "?l = ?r")
proof (rule nth_equalityI)
  show "length ?l = length ?r" by (simp add: input_tasks_def)
  fix k
  assume "k < length ?l"
  then have k: "k < length xs" by simp
  then show "?l ! k = ?r ! k"
    using map_get_final [OF assms k, of ids] local_ids_nth [OF k, of 0]
    by (simp add: input_tasks_def input_task_def nth_enumerate_eq new_task_def Let_def)
qed

lemma normalize_ok:
  "normalize_task_inputs ids xs = Inr ts \<longleftrightarrow>
     inputs_named xs \<and> task_graph_valid (input_tasks ids xs) \<and> ts = input_tasks ids xs"
  by (auto simp: normalize_task_inputs_def inputs_named_def bind_locals_start make_tasks_ok link_tasks_ok
      check_task_graph_ok dom_final loops_build)

definition local_deps :: "task_input list \<Rightarrow> bytes \<Rightarrow> bytes list" where
  "local_deps xs l =
     (case map_of (zip (local_ids 0 xs) xs) l of None \<Rightarrow> [] | Some x \<Rightarrow> map trim_space (ti_depends_on x))"

text \<open>The declarative reading of \<open>normalize_task_inputs\<close>: what a list of tasks has to be like.\<close>

definition well_formed_inputs :: "task_input list \<Rightarrow> bool" where
  "well_formed_inputs xs \<longleftrightarrow> inputs_named xs \<and> acyclic (dep_edges (set (local_ids 0 xs)) (local_deps xs))"

definition good_draws :: "(nat \<Rightarrow> bytes) \<Rightarrow> nat \<Rightarrow> bool" where
  "good_draws ids n \<longleftrightarrow> inj_on ids {..<n} \<and> (\<forall>k < n. trim_space (ids k) = ids k \<and> ids k \<noteq> [])"

lemma input_tasks_fields:
  "map t_id (input_tasks ids xs) = map ids [0..<length xs]"
  "map t_ordinal (input_tasks ids xs) = map int [0..<length xs]"
  "t \<in> set (input_tasks ids xs) \<Longrightarrow> t_status t = T_Todo"
  by (auto simp: input_tasks_def input_task_def new_task_def Let_def)

lemma local_deps_nth:
  "distinct (local_ids 0 xs) \<Longrightarrow> k < length xs \<Longrightarrow>
     local_deps xs (local_ids 0 xs ! k) = map trim_space (ti_depends_on (xs ! k))"
  by (simp add: local_deps_def map_of_zip_nth)

lemma input_graph_valid:
  assumes named: "inputs_named xs" and ids: "good_draws ids (length xs)"
  shows "task_graph_valid (input_tasks ids xs) \<longleftrightarrow> well_formed_inputs xs"
proof -
  let ?N = "set (local_ids 0 xs)" and ?f = "map_get (final_ids ids xs)"
  have dist: "distinct (local_ids 0 xs)" using named by (simp add: inputs_named_def)
  have f: "?f (local_ids 0 xs ! k) = ids k" if "k < length xs" for k
    by (rule map_get_final [OF dist that])
  have N: "?N = (\<lambda>k. local_ids 0 xs ! k) ` {..<length xs}"
    by (auto simp: set_conv_nth)
  have "distinct (map t_id (input_tasks ids xs))"
    using ids by (simp add: input_tasks_fields distinct_map good_draws_def atLeast0LessThan)
  note deps = task_deps_distinct [OF this]
  have image: "set (map t_id (input_tasks ids xs)) = ?f ` ?N"
    unfolding N input_tasks_fields image_image by (auto simp: f)
  have inj: "inj_on ?f ?N"
    using ids f unfolding N good_draws_def inj_on_def by auto
  have closed: "closed_deps ?N (local_deps xs)"
    using named by (auto simp: closed_deps_def N local_deps_nth [OF dist] inputs_named_def)
  have "set (task_deps (input_tasks ids xs) (?f n)) = ?f ` set (local_deps xs n)" if "n \<in> ?N" for n
  proof -
    obtain k where k: "k < length xs" "n = local_ids 0 xs ! k" using \<open>n \<in> ?N\<close> unfolding N by auto
    let ?t = "input_task ids xs k"
    have "?t \<in> set (input_tasks ids xs)" "t_id ?t = ids k"
      using k by (auto simp: input_tasks_def input_task_def new_task_def Let_def)
    then have "task_deps (input_tasks ids xs) (?f n) = t_depends_on ?t" using deps f k by metis
    also have "set \<dots> = set (map (\<lambda>r. ?f (trim_space r)) (ti_depends_on (xs ! k)))"
      unfolding input_task_def new_task_def Let_def task_row.simps
    proof (rule unique_strings_trimmed)
      fix v
      assume "v \<in> set (map (\<lambda>r. ?f (trim_space r)) (ti_depends_on (xs ! k)))"
      then obtain r where "r \<in> set (ti_depends_on (xs ! k))" "v = ?f (trim_space r)" by auto
      moreover from this have "trim_space r \<in> ?N" using named k(1) by (auto simp: inputs_named_def)
      ultimately obtain j where "j < length xs" "v = ids j" unfolding N using f by auto
      then show "trim_space v = v \<and> v \<noteq> []" using ids by (simp add: good_draws_def)
    qed
    also have "\<dots> = ?f ` set (local_deps xs n)" using k local_deps_nth [OF dist] by auto
    finally show ?thesis .
  qed
  from valid_graph_rename [OF inj this closed] show ?thesis
    using named closed by (simp add: task_graph_valid_def image well_formed_inputs_def valid_graph_def del: set_map)
qed

lemma normalize_accepts_iff:
  assumes "good_draws ids (length xs)"
  shows "is_ok (normalize_task_inputs ids xs) \<longleftrightarrow> well_formed_inputs xs"
  using input_graph_valid [OF _ assms] by (auto simp: is_ok_iff normalize_ok well_formed_inputs_def)

subsection \<open>Replanning\<close>

text \<open>What the loop of a replanning keeps, relative to the tasks it started from: identifiers and
  ordinals stay unique, an old task keeps its ordinal and status, a finished one is untouched and
  never removed, a new one is still to do.\<close>

definition kept_or_new :: "task list \<Rightarrow> task \<Rightarrow> bool" where
  "kept_or_new orig t \<longleftrightarrow>
     (\<exists>u \<in> set orig. t_id u = t_id t \<and> t_ordinal u = t_ordinal t \<and> t_status u = t_status t \<and>
        (task_done (t_status u) \<longrightarrow> t = u)) \<or>
     t_id t \<notin> t_id ` set orig \<and> t_status t = T_Todo"

fun replan_inv :: "task list \<Rightarrow> replan_state \<Rightarrow> bool" where
  "replan_inv orig (ts, mx, drawn) \<longleftrightarrow>
     distinct (map t_id ts) \<and> distinct (map t_ordinal ts) \<and> (\<forall>t \<in> set ts. t_ordinal t \<le> mx \<and> kept_or_new orig t) \<and>
     (\<forall>u \<in> set orig. task_done (t_status u) \<longrightarrow> u \<in> set ts)"

lemma apply_add_keeps:
  assumes "replan_inv orig s" "apply_add ids plan (map t_id orig) x s = Inr s'"
  shows "replan_inv orig s'"
proof -
  obtain ts mx drawn where s: "s = (ts, mx, drawn)" by (cases s)
  from assms(2) obtain i title deps drawn' where
    s': "s' = (ts @ [new_task i plan (mx + 1) title (trim_space (to_description x)) deps], mx + 1, drawn')"
    and i: "i \<notin> t_id ` set ts" "i \<notin> t_id ` set orig"
    unfolding s apply_add_def Let_def by (auto simp: task_index_None split: if_splits)
  have "mx + 1 \<notin> t_ordinal ` set ts" using assms(1) s by fastforce
  then show ?thesis
    using assms(1) i unfolding s s' by (force simp: kept_or_new_def new_task_def)
qed

lemma set_list_update_distinct:
  assumes "distinct (map g ts)" "k < length ts" "g (f (ts ! k)) = g (ts ! k)"
  shows "set (ts[k := f (ts ! k)]) = (\<lambda>t. if g t = g (ts ! k) then f t else t) ` set ts"
proof -
  have "ts[k := f (ts ! k)] = map (\<lambda>t. if g t = g (ts ! k) then f t else t) ts"
  proof (rule nth_equalityI)
    fix j
    assume "j < length (ts[k := f (ts ! k)])"
    then have j: "j < length ts" by simp
    have "g (ts ! j) = g (ts ! k) \<longleftrightarrow> j = k"
      using assms(1,2) j by (metis length_map nth_eq_iff_index_eq nth_map)
    then show "ts[k := f (ts ! k)] ! j = map (\<lambda>t. if g t = g (ts ! k) then f t else t) ts ! j"
      using j by auto
  qed simp
  then show ?thesis by simp
qed

lemma apply_update_keeps:
  assumes "replan_inv orig s" "apply_update x s = Inr s'"
  shows "replan_inv orig s'"
proof -
  obtain ts mx drawn where s: "s = (ts, mx, drawn)" by (cases s)
  from assms(2) obtain k where k: "task_index ts (trim_space (to_task x)) = Some k" "\<not> task_done (t_status (ts ! k))"
    and s': "s' = (ts[k := change_task x (ts ! k)], mx, drawn)"
    unfolding s apply_update_def by (auto split: option.splits if_splits)
  have len: "k < length ts" using task_index_Some [OF k(1)] by simp
  have same: "t_id (change_task x t) = t_id t" "t_ordinal (change_task x t) = t_ordinal t"
    "t_status (change_task x t) = t_status t" for t by (simp_all add: change_task_def)
  have ts: "set (ts[k := change_task x (ts ! k)]) = (\<lambda>t. if t_id t = t_id (ts ! k) then change_task x t else t) ` set ts"
    using assms(1) s len same by (intro set_list_update_distinct) auto
  have maps: "map t_id (ts[k := change_task x (ts ! k)]) = map t_id ts"
    "map t_ordinal (ts[k := change_task x (ts ! k)]) = map t_ordinal ts"
    using len same by (metis list_update_id map_update nth_map)+
  have here: "t_id t = t_id (ts ! k) \<Longrightarrow> t \<in> set ts \<Longrightarrow> t = ts ! k" for t
    using assms(1) s len by (auto simp: distinct_map dest: inj_onD)
  have "kept_or_new orig (change_task x (ts ! k))"
    using assms(1) s len k(2) unfolding kept_or_new_def same by (auto simp: kept_or_new_def)
  then have "\<forall>t \<in> set (ts[k := change_task x (ts ! k)]). t_ordinal t \<le> mx \<and> kept_or_new orig t"
    using assms(1) s here by (auto simp: ts same)
  moreover have "u \<in> set (ts[k := change_task x (ts ! k)])" if "u \<in> set orig" "task_done (t_status u)" for u
    using that assms(1) s here k(2) unfolding ts by (auto simp: image_iff)
  ultimately show ?thesis using assms(1) unfolding s s' by (simp add: maps)
qed

lemma distinct_map_cut: "k < length ts \<Longrightarrow> distinct (map g ts) \<Longrightarrow> distinct (map g (take k ts @ drop (Suc k) ts))"
proof -
  assume "k < length ts" "distinct (map g ts)"
  then have "distinct (map g (take k ts @ ts ! k # drop (Suc k) ts))" by (metis id_take_nth_drop)
  then show ?thesis by simp
qed

lemma apply_remove_keeps:
  assumes "replan_inv orig s" "apply_remove x s = Inr s'"
  shows "replan_inv orig s'"
proof -
  obtain ts mx drawn where s: "s = (ts, mx, drawn)" by (cases s)
  from assms(2) obtain k where k: "task_index ts (trim_space (to_task x)) = Some k" "\<not> task_done (t_status (ts ! k))"
    and s': "s' = (take k ts @ drop (Suc k) ts, mx, drawn)"
    unfolding s apply_remove_def Let_def by (auto split: option.splits if_splits)
  have len: "k < length ts" using task_index_Some [OF k(1)] by simp
  note split = id_take_nth_drop [OF len]
  have sub: "set (take k ts @ drop (Suc k) ts) \<subseteq> set ts"
    using set_take_subset [of k ts] set_drop_subset [of "Suc k" ts] by auto
  have "u \<in> set (take k ts @ drop (Suc k) ts)" if "u \<in> set orig" "task_done (t_status u)" for u
  proof -
    have "u \<in> set ts" using that assms(1) s by simp
    then have "u \<in> set (take k ts @ ts ! k # drop (Suc k) ts)" using split by metis
    then show ?thesis using k(2) that(2) by auto
  qed
  then show ?thesis
    using assms(1) sub distinct_map_cut [OF len, of t_id] distinct_map_cut [OF len, of t_ordinal]
    unfolding s s' replan_inv.simps by blast
qed

lemma apply_operations_keeps:
  "replan_inv orig s \<Longrightarrow> apply_operations ids plan (map t_id orig) xs s = Inr s' \<Longrightarrow> replan_inv orig s'"
proof (induction xs arbitrary: s)
  case (Cons x xs)
  then obtain s1 where "apply_operation ids plan (map t_id orig) x s = Inr s1"
    and rest: "apply_operations ids plan (map t_id orig) xs s1 = Inr s'" by auto
  then have "apply_add ids plan (map t_id orig) x s = Inr s1 \<or> apply_update x s = Inr s1 \<or> apply_remove x s = Inr s1"
    unfolding apply_operation_def Let_def by (auto split: if_splits)
  then have "replan_inv orig s1"
    using apply_add_keeps [OF Cons.prems(1)] apply_update_keeps [OF Cons.prems(1)] apply_remove_keeps [OF Cons.prems(1)]
    by metis
  then show ?case using rest by (rule Cons.IH)
qed simp

lemma max_ordinal_upper: "t \<in> set ts \<Longrightarrow> t_ordinal t \<le> max_ordinal_of ts"
proof -
  have "m \<le> foldl (\<lambda>m t. if t_ordinal t > m then t_ordinal t else m) m ts \<and>
    (\<forall>t \<in> set ts. t_ordinal t \<le> foldl (\<lambda>m t. if t_ordinal t > m then t_ordinal t else m) m ts)"
    for m and ts :: "task list"
    by (induction ts arbitrary: m) (auto, (smt (verit))+)
  then show "t \<in> set ts \<Longrightarrow> t_ordinal t \<le> max_ordinal_of ts" by (simp add: max_ordinal_of_def)
qed

lemma replan_inv_start:
  "distinct (map t_id ts) \<Longrightarrow> distinct (map t_ordinal ts) \<Longrightarrow> replan_inv ts (ts, max_ordinal_of ts, 0)"
  by (auto simp: kept_or_new_def max_ordinal_upper)

end
