(* ===== verification/Plan_Db.thy ===== *)
theory Plan_Db
  imports Plan_Tasks Approval_Store "HOL-Library.Product_Lexorder"
begin

text \<open>
  The tables of the plan component with their constraints (\<^verbatim>\<open>internal/state/migrations.go\<close>), the
  statements of \<^verbatim>\<open>internal/plan\<close> on them, and the loading of a plan. A statement that may break a
  constraint returns \<^const>\<open>E_Store\<close>; input/output errors of the database are not modelled. The tables
  of the other components the plan service reads form the record \<open>evidence_world\<close>: the operations are
  those of \<^verbatim>\<open>internal/operation\<close>, the approvals the rows of \<^verbatim>\<open>internal/approval\<close>. Columns holding JSON text are the
  values decoded from them.
\<close>

section \<open>Rows\<close>

record plan_row =
  p_id :: bytes
  p_session :: bytes
  p_goal :: bytes
  p_summary :: bytes
  p_status :: plan_status
  p_version :: int
  p_created_by :: bytes
  p_created :: int
  p_updated :: int
  p_completed :: "int option"

record event_row =
  v_id :: bytes
  v_plan :: bytes
  v_task :: "bytes option"
  v_type :: bytes
  v_reason :: bytes
  v_payload :: json
  v_created_by :: bytes
  v_created :: int

record dispatch_row = multica_dispatch +
  x_session :: bytes
  x_created_by :: bytes

datatype grant_status = G_Active | G_Revoked | G_Superseded

record grant_row =
  g_id :: bytes
  g_plan :: bytes
  g_session :: bytes
  g_status :: grant_status
  g_repositories :: "bytes list"
  g_ceiling :: bytes
  g_max_tokens :: int
  g_tokens_used :: int
  g_max_runtime :: int
  g_max_attempts :: int
  g_attempts_used :: int
  g_expires :: int
  g_first_used :: "int option"
  g_note :: bytes
  g_created_by :: bytes
  g_created :: int
  g_updated :: int
  g_ended_by :: bytes
  g_ended :: "int option"
  g_end_reason :: bytes

record use_row =
  u_grant :: bytes
  u_task :: bytes
  u_key :: bytes
  u_repository :: bytes
  u_risk :: bytes
  u_consumed :: bool
  u_principal :: bytes
  u_created :: int

text \<open>\<open>pd_sessions\<close> holds the identifier and the workspace path of the remote sessions.\<close>

record plan_db =
  pd_sessions :: "(bytes \<times> bytes) list"
  pd_plans :: "plan_row list"
  pd_tasks :: "task_row list"
  pd_evidence :: "evidence list"
  pd_events :: "event_row list"
  pd_dispatches :: "dispatch_row list"
  pd_grants :: "grant_row list"
  pd_uses :: "use_row list"

section \<open>Loading\<close>

text \<open>\<^verbatim>\<open>Event\<close>: the task is the empty string when the column is NULL.\<close>

record plan = plan_row +
  pl_tasks :: "task list"
  pl_progress :: progress
  pl_events :: "event_row list"

definition load_evidence :: "plan_db \<Rightarrow> bytes \<Rightarrow> bytes \<Rightarrow> evidence list" where
  "load_evidence db plan i =
     filter (\<lambda>e. e_task e = i) (sort_key (\<lambda>e. (e_created e, e_id e)) (filter (\<lambda>e. e_plan e = plan) (pd_evidence db)))"

definition load_dispatch :: "plan_db \<Rightarrow> bytes \<Rightarrow> bytes \<Rightarrow> multica_dispatch option" where
  "load_dispatch db plan i =
     (case filter (\<lambda>x. x_task x = i) (sort_key (\<lambda>x. (x_created x, x_task x))
         (map multica_dispatch.truncate (filter (\<lambda>x. x_plan x = plan) (pd_dispatches db)))) of
        [] \<Rightarrow> None
      | xs \<Rightarrow> Some (last xs))"

definition load_task :: "plan_db \<Rightarrow> bytes \<Rightarrow> task_row \<Rightarrow> task" where
  "load_task db plan r =
     task_row.extend r (task.fields (load_evidence db plan (t_id r)) (load_dispatch db plan (t_id r)))"

definition load_tasks :: "plan_db \<Rightarrow> bytes \<Rightarrow> task list" where
  "load_tasks db plan =
     map (load_task db plan) (sort_key (\<lambda>r. (t_ordinal r, t_id r)) (filter (\<lambda>r. t_plan r = plan) (pd_tasks db)))"

definition load_events :: "plan_db \<Rightarrow> bytes \<Rightarrow> event_row list" where
  "load_events db plan =
     sort_key (\<lambda>v. (v_created v, v_id v)) (filter (\<lambda>v. v_plan v = plan) (pd_events db))"

definition find_plan_row :: "plan_db \<Rightarrow> bytes \<Rightarrow> bytes \<Rightarrow> plan_row option" where
  "find_plan_row db session plan = find (\<lambda>r. p_id r = plan \<and> p_session r = session) (pd_plans db)"

definition load_plan :: "plan_db \<Rightarrow> bytes \<Rightarrow> bytes \<Rightarrow> (plan_error, plan) result" where
  "load_plan db session plan =
     (case find_plan_row db session plan of
        None \<Rightarrow> Inl E_Not_Found
      | Some r \<Rightarrow>
          let tasks = load_tasks db (p_id r) in
          Inr (plan_row.extend r (plan.fields tasks (calculate_progress tasks) (load_events db (p_id r)))))"

section \<open>Statements\<close>

definition insert_plan :: "plan_row \<Rightarrow> plan_db \<Rightarrow> (plan_error, plan_db) result" where
  "insert_plan r db =
     (if p_id r \<in> p_id ` set (pd_plans db) \<or> p_session r \<notin> fst ` set (pd_sessions db) then Inl E_Store
      else Inr (db\<lparr>pd_plans := pd_plans db @ [r]\<rparr>))"

definition new_task_row :: "bytes \<Rightarrow> int \<Rightarrow> task \<Rightarrow> task_row" where
  "new_task_row plan now t =
     \<lparr>t_id = t_id t, t_plan = plan, t_ordinal = t_ordinal t, t_title = t_title t, t_description = t_description t,
      t_status = T_Todo, t_depends_on = t_depends_on t, t_created = unix_milli now, t_updated = unix_milli now,
      t_completed = None\<rparr>"

definition insert_tasks :: "bytes \<Rightarrow> task list \<Rightarrow> int \<Rightarrow> plan_db \<Rightarrow> (plan_error, plan_db) result" where
  "insert_tasks plan tasks now db =
     (if tasks = [] then Inr db
      else
        let rows = pd_tasks db @ map (new_task_row plan now) tasks in
        if plan \<in> p_id ` set (pd_plans db) \<and> distinct (map t_id rows) \<and>
           distinct (map (\<lambda>r. (t_plan r, t_ordinal r)) rows)
        then Inr (db\<lparr>pd_tasks := rows\<rparr>) else Inl E_Store)"

definition insert_event :: "bytes \<Rightarrow> bytes \<Rightarrow> bytes \<Rightarrow> bytes \<Rightarrow> bytes \<Rightarrow> bytes \<Rightarrow> json \<Rightarrow> int \<Rightarrow> plan_db \<Rightarrow>
    (plan_error, plan_db) result" where
  "insert_event i plan task event_type reason who payload now db =
     (if i \<in> v_id ` set (pd_events db) \<or> plan \<notin> p_id ` set (pd_plans db) \<or>
         task \<noteq> [] \<and> task \<notin> t_id ` set (pd_tasks db) then Inl E_Store
      else Inr (db\<lparr>pd_events := pd_events db @
        [\<lparr>v_id = i, v_plan = plan, v_task = (if task = [] then None else Some task), v_type = event_type,
          v_reason = reason, v_payload = payload, v_created_by = who, v_created = unix_milli now\<rparr>]\<rparr>))"

definition insert_evidence_rows :: "evidence list \<Rightarrow> plan_db \<Rightarrow> (plan_error, plan_db) result" where
  "insert_evidence_rows new db =
     (let rows = pd_evidence db @ new in
      if distinct (map e_id rows) \<and> distinct (map (\<lambda>e. (e_task e, e_kind e, e_reference e)) rows) \<and>
         list_all (\<lambda>e. e_kind e \<in> set evidence_kinds \<and> e_plan e \<in> p_id ` set (pd_plans db) \<and>
           e_task e \<in> t_id ` set (pd_tasks db)) new
      then Inr (db\<lparr>pd_evidence := rows\<rparr>) else Inl E_Evidence)"

definition update_plan :: "bytes \<Rightarrow> bytes \<Rightarrow> (plan_row \<Rightarrow> plan_row) \<Rightarrow> plan_db \<Rightarrow> plan_db" where
  "update_plan session plan f db =
     db\<lparr>pd_plans := map (\<lambda>r. if p_id r = plan \<and> p_session r = session then f r else r) (pd_plans db)\<rparr>"

definition update_task :: "bytes \<Rightarrow> bytes \<Rightarrow> (task_row \<Rightarrow> task_row) \<Rightarrow> plan_db \<Rightarrow> plan_db" where
  "update_task plan i f db =
     db\<lparr>pd_tasks := map (\<lambda>r. if t_id r = i \<and> t_plan r = plan then f r else r) (pd_tasks db)\<rparr>"

text \<open>\<^verbatim>\<open>DELETE FROM plan_tasks\<close>: evidence and dispatches go with their task, events lose the reference.\<close>

definition delete_tasks :: "bytes \<Rightarrow> bytes list \<Rightarrow> plan_db \<Rightarrow> plan_db" where
  "delete_tasks plan removed db =
     (let gone = map t_id (filter (\<lambda>r. t_plan r = plan \<and> t_id r \<in> set removed) (pd_tasks db)) in
      db\<lparr>pd_tasks := filter (\<lambda>r. t_id r \<notin> set gone) (pd_tasks db),
         pd_evidence := filter (\<lambda>e. e_task e \<notin> set gone) (pd_evidence db),
         pd_dispatches := filter (\<lambda>x. x_task x \<notin> set gone) (pd_dispatches db),
         pd_events := map (\<lambda>v. case v_task v of
             None \<Rightarrow> v | Some t \<Rightarrow> if t \<in> set gone then v\<lparr>v_task := None\<rparr> else v) (pd_events db)\<rparr>)"

text \<open>The bulk \<^verbatim>\<open>UPDATE plan_tasks\<close> of a replanning: each \<^verbatim>\<open>CASE id\<close> takes its first match.\<close>

definition rewrite_task :: "task list \<Rightarrow> int \<Rightarrow> task_row \<Rightarrow> task_row" where
  "rewrite_task existing now r =
     (case find (\<lambda>t. t_id t = t_id r) existing of
        None \<Rightarrow> r
      | Some t \<Rightarrow> r\<lparr>t_ordinal := t_ordinal t, t_title := t_title t, t_description := t_description t,
                   t_depends_on := t_depends_on t, t_updated := unix_milli now\<rparr>)"

definition rewrite_tasks :: "bytes \<Rightarrow> task list \<Rightarrow> int \<Rightarrow> plan_db \<Rightarrow> plan_db" where
  "rewrite_tasks plan existing now db =
     db\<lparr>pd_tasks := map (\<lambda>r. if t_plan r = plan then rewrite_task existing now r else r) (pd_tasks db)\<rparr>"

text \<open>\<^verbatim>\<open>persistReplanTasksTx\<close>.\<close>

definition persist_replan :: "bytes \<Rightarrow> bytes list \<Rightarrow> task list \<Rightarrow> int \<Rightarrow> plan_db \<Rightarrow> (plan_error, plan_db) result" where
  "persist_replan plan original tasks now db =
     (let removed = filter (\<lambda>i. i \<notin> t_id ` set tasks) original;
          db1 = (if removed \<noteq> [] then delete_tasks plan removed db else db);
          existing = filter (\<lambda>t. t_id t \<in> set original) tasks;
          added = filter (\<lambda>t. t_id t \<notin> set original) tasks;
          db2 = (if existing \<noteq> [] then rewrite_tasks plan existing now db1 else db1)
      in insert_tasks plan added now db2)"

text \<open>A transaction: an error rolls back, a commit is followed by the read \<open>k\<close>.\<close>

definition run_tx :: "plan_db \<Rightarrow> (plan_error, plan_db) result \<Rightarrow> (plan_db \<Rightarrow> (plan_error, 'a) result) \<Rightarrow>
    plan_db \<times> (plan_error, 'a) result" where
  "run_tx db r k = (case r of Inl e \<Rightarrow> (db, Inl e) | Inr db' \<Rightarrow> (db', k db'))"

end
