(* ===== verification/Plan_Evidence.thy ===== *)
theory Plan_Evidence
  imports Plan_Db
begin

text \<open>
  What counts as evidence for a finished task (\<^verbatim>\<open>validateEvidenceRef\<close> and
  \<^verbatim>\<open>insertEvidenceBatchTx\<close> of \<^verbatim>\<open>internal/plan/service.go\<close>) and the checks before a plan is delivered
  (\<^verbatim>\<open>internal/plan/delivery.go\<close>). Evidence refers to records of other components, which form the record
  \<open>evidence_world\<close>; \<open>ew_regular_file root ref\<close> says that the path \<open>ref\<close> resolves below the
  workspace \<open>root\<close> to an existing regular file.
\<close>

section \<open>The records evidence refers to\<close>

record edit_row =
  ed_id :: bytes
  ed_session :: bytes
  ed_state :: bytes

record terminal_row =
  tt_id :: bytes
  tt_session :: bytes
  tt_status :: bytes
  tt_exit_code :: "int option"

record observation_row =
  ob_sequence :: nat
  ob_session :: bytes
  ob_operation :: bytes
  ob_tool :: bytes
  ob_type :: bytes
  ob_status :: bytes

record evidence_world =
  ew_edits :: "edit_row list"
  ew_terminals :: "terminal_row list"
  ew_artifacts :: "(bytes \<times> bytes) list"
  ew_observations :: "observation_row list"
  ew_operations :: op_db
  ew_approvals :: "approval_row list"
  ew_regular_file :: "bytes \<Rightarrow> bytes \<Rightarrow> bool"

section \<open>Validation\<close>

definition completed_observation_type :: "bytes \<Rightarrow> bool" where
  "completed_observation_type t \<longleftrightarrow>
     t = ''tool.completed'' \<or> t = ''operation.completed'' \<or> t = ''operation.step.completed''"

definition successful_evidence_status :: "bytes \<Rightarrow> bool" where
  "successful_evidence_status s \<longleftrightarrow>
     to_lower (trim_space s) \<in> set [''ok'', ''succeeded'', ''completed'', ''exited'', ''success'']"

text \<open>The first branch of \<^verbatim>\<open>validateObservationOrOperation\<close>: a positive number names an observation.\<close>

definition validate_observation :: "evidence_world \<Rightarrow> bytes \<Rightarrow> bytes \<Rightarrow> int \<Rightarrow> bytes \<Rightarrow> (plan_error, bytes) result" where
  "validate_observation w session reference sequence expected =
     (case find (\<lambda>ob. int (ob_sequence ob) = sequence \<and> ob_session ob = session) (ew_observations w) of
        None \<Rightarrow> Inl E_Evidence
      | Some ob \<Rightarrow>
          if expected \<noteq> [] \<and> ob_tool ob \<noteq> expected then Inl E_Evidence
          else if \<not> completed_observation_type (ob_type ob) \<or> \<not> successful_evidence_status (ob_status ob)
          then Inl E_Evidence
          else Inr reference)"

text \<open>\<^verbatim>\<open>ORDER BY sequence DESC LIMIT 1\<close>.\<close>

definition last_observation :: "evidence_world \<Rightarrow> bytes \<Rightarrow> bytes \<Rightarrow> bytes" where
  "last_observation w session operation =
     (case map ob_sequence (filter (\<lambda>ob. ob_session ob = session \<and> ob_operation ob = operation \<and>
             (ob_type ob = ''operation.completed'' \<or> ob_type ob = ''operation.step.completed'')) (ew_observations w)) of
        [] \<Rightarrow> []
      | n # ns \<Rightarrow> show_nat (fold max ns n))"

definition validate_operation :: "evidence_world \<Rightarrow> bytes \<Rightarrow> bytes \<Rightarrow> bytes \<Rightarrow> (plan_error, bytes) result" where
  "validate_operation w session reference expected =
     (case find (\<lambda>r. or_id r = reference \<and> or_session r = session) (db_ops (ew_operations w)) of
        None \<Rightarrow> Inl E_Evidence
      | Some r \<Rightarrow>
          if or_state r \<noteq> Succeeded then Inl E_Evidence
          else if expected \<noteq> [] \<and>
            length (filter (\<lambda>s. sr_operation s = reference \<and> sr_tool s = expected \<and> sr_state s = Succeeded)
              (db_steps (ew_operations w))) = 0 then Inl E_Evidence
          else Inr (last_observation w session reference))"

definition validate_observation_or_operation :: "evidence_world \<Rightarrow> bytes \<Rightarrow> bytes \<Rightarrow> bytes \<Rightarrow>
    (plan_error, bytes) result" where
  "validate_observation_or_operation w session reference expected =
     (case atoi reference of
        Some n \<Rightarrow> if n > 0 then validate_observation w session reference n expected
                  else validate_operation w session reference expected
      | None \<Rightarrow> validate_operation w session reference expected)"

text \<open>\<^verbatim>\<open>validateEvidenceRef\<close>: the answer is the identifier of the event the evidence comes from.\<close>

definition validate_evidence_ref :: "evidence_world \<Rightarrow> plan_db \<Rightarrow> bytes \<Rightarrow> bytes \<Rightarrow> bytes \<Rightarrow>
    (plan_error, bytes) result" where
  "validate_evidence_ref w db session kind reference =
     (if kind = ''read'' then validate_observation_or_operation w session reference ''read''
      else if kind = ''observe'' then validate_observation_or_operation w session reference ''observe''
      else if kind = ''verification'' then validate_observation_or_operation w session reference []
      else if kind = ''edit'' then
        (case find (\<lambda>r. ed_session r = session \<and> ed_id r = reference) (ew_edits w) of
           None \<Rightarrow> Inl E_Evidence
         | Some r \<Rightarrow> if ed_state r \<noteq> ''succeeded'' then Inl E_Evidence else Inr [])
      else if kind = ''execute'' then
        (case find (\<lambda>r. tt_session r = session \<and> tt_id r = reference) (ew_terminals w) of
           None \<Rightarrow> Inl E_Evidence
         | Some r \<Rightarrow> if tt_status r \<noteq> ''exited'' then Inl E_Evidence else Inr [])
      else if kind = ''artifact'' then
        (if (session, reference) \<in> set (ew_artifacts w) then Inr [] else Inl E_Evidence)
      else if kind = ''source'' then
        (case map_of (pd_sessions db) session of
           None \<Rightarrow> Inl E_Evidence
         | Some root \<Rightarrow> if ew_regular_file w root reference then Inr [] else Inl E_Evidence)
      else Inl E_Evidence)"

section \<open>Recording evidence\<close>

text \<open>\<^const>\<open>None\<close> is Go's nil map.\<close>

record evidence_input =
  ei_kind :: bytes
  ei_reference :: bytes
  ei_metadata :: arguments

text \<open>\<^verbatim>\<open>normalizedEvidence\<close> before it is validated.\<close>

type_synonym normalized = "bytes \<times> bytes \<times> (bytes \<times> json) list"

definition normalize_evidence :: "evidence_input \<Rightarrow> (plan_error, normalized) result" where
  "normalize_evidence x =
     (let kind = to_lower (trim_space (ei_kind x)); reference = trim_space (ei_reference x) in
      if kind = [] \<or> reference = [] then Inl E_Evidence
      else if \<not> is_evidence_kind kind then Inl E_Evidence
      else Inr (kind, reference, case ei_metadata x of None \<Rightarrow> [] | Some m \<Rightarrow> m))"

text \<open>A loop that stops at the first error.\<close>

fun map_result :: "('a \<Rightarrow> ('e, 'b) result) \<Rightarrow> 'a list \<Rightarrow> ('e, 'b list) result" where
  "map_result f [] = Inr []"
| "map_result f (x # xs) = and_then (f x) (\<lambda>y. and_then (map_result f xs) (\<lambda>ys. Inr (y # ys)))"

definition validate_evidence_refs :: "evidence_world \<Rightarrow> plan_db \<Rightarrow> bytes \<Rightarrow> normalized list \<Rightarrow>
    (plan_error, bytes list) result" where
  "validate_evidence_refs w db session =
     map_result (\<lambda>(kind, reference, _). validate_evidence_ref w db session kind reference)"

definition evidence_row :: "(nat \<Rightarrow> bytes) \<Rightarrow> bytes \<Rightarrow> bytes \<Rightarrow> bytes \<Rightarrow> int \<Rightarrow> nat \<times> normalized \<times> bytes \<Rightarrow> evidence" where
  "evidence_row ids plan task who now x =
     (case x of (k, (kind, reference, metadata), source_event) \<Rightarrow>
        \<lparr>e_id = ids k, e_plan = plan, e_task = task, e_kind = kind, e_reference = reference, e_validated = True,
         e_source_event = source_event, e_metadata = metadata, e_created_by = who, e_created = unix_milli now\<rparr>)"

definition insert_evidence_batch :: "evidence_world \<Rightarrow> (nat \<Rightarrow> bytes) \<Rightarrow> bytes \<Rightarrow> bytes \<Rightarrow> bytes \<Rightarrow> bytes \<Rightarrow>
    evidence_input list \<Rightarrow> int \<Rightarrow> plan_db \<Rightarrow> (plan_error, plan_db) result" where
  "insert_evidence_batch w ids session plan task who inputs now db =
     (if inputs = [] then Inr db
      else and_then (map_result normalize_evidence inputs) (\<lambda>normalized.
           and_then (validate_evidence_refs w db session normalized) (\<lambda>events.
             insert_evidence_rows
               (map (evidence_row ids plan task who now) (enumerate 0 (zip normalized events))) db)))"

section \<open>Delivery checks\<close>

record delivery_check =
  dc_code :: bytes
  dc_passed :: bool
  dc_message :: bytes
  dc_details :: "json option"

definition strings_detail :: "bytes \<Rightarrow> bytes list \<Rightarrow> json option" where
  "strings_detail key xs = (if xs = [] then None else Some (JObj [(key, JArr (map JStr xs))]))"

definition failing_word :: "json option \<Rightarrow> bool" where
  "failing_word v \<longleftrightarrow> (case v of Some (JStr s) \<Rightarrow> to_lower (trim_space s) \<in> set [''failed'', ''failure'', ''error'']
                       | _ \<Rightarrow> False)"

definition evidence_failed :: "evidence \<Rightarrow> bool" where
  "evidence_failed e \<longleftrightarrow> to_lower (e_kind e) = ''verification'' \<and>
     (list_ex (\<lambda>k. failing_word (map_of (e_metadata e) k)) [''status'', ''result'', ''outcome''] \<or>
      map_of (e_metadata e) ''passed'' = Some (JBool False) \<or> map_of (e_metadata e) ''success'' = Some (JBool False))"

text \<open>The rows of the session among the given identifiers: \<^verbatim>\<open>queryTaskOutcomes\<close>, \<^verbatim>\<open>queryCleanEditStatuses\<close>,
  \<^verbatim>\<open>queryExistingIDs\<close>. A later row with the same identifier overwrites an earlier one.\<close>

definition query_task_outcomes :: "evidence_world \<Rightarrow> bytes \<Rightarrow> bytes list \<Rightarrow> bytes \<Rightarrow> (bytes \<times> int) option" where
  "query_task_outcomes w session ids =
     map_of (rev (map (\<lambda>r. (tt_id r, (tt_status r, case tt_exit_code r of None \<Rightarrow> -1 | Some c \<Rightarrow> c)))
       (filter (\<lambda>r. tt_session r = session \<and> tt_id r \<in> set (unique_strings ids)) (ew_terminals w))))"

definition query_edit_statuses :: "evidence_world \<Rightarrow> bytes \<Rightarrow> bytes list \<Rightarrow> bytes \<Rightarrow> bytes option" where
  "query_edit_statuses w session ids =
     map_of (rev (map (\<lambda>r. (ed_id r, ed_state r))
       (filter (\<lambda>r. ed_session r = session \<and> ed_id r \<in> set (unique_strings ids)) (ew_edits w))))"

definition query_existing_ids :: "evidence_world \<Rightarrow> bytes \<Rightarrow> bytes list \<Rightarrow> bytes \<Rightarrow> bool" where
  "query_existing_ids w session ids i \<longleftrightarrow> i \<in> set (unique_strings ids) \<and> (session, i) \<in> set (ew_artifacts w)"

definition plan_evidence :: "task list \<Rightarrow> evidence list" where
  "plan_evidence tasks = concat (map t_evidence tasks)"

definition references :: "bytes \<Rightarrow> task list \<Rightarrow> bytes list" where
  "references kind tasks = map e_reference (filter (\<lambda>e. e_kind e = kind) (plan_evidence tasks))"

definition execution_blockers :: "evidence_world \<Rightarrow> bytes \<Rightarrow> task list \<Rightarrow> bytes list" where
  "execution_blockers w session tasks =
     (let runs = references ''execute'' tasks; artifacts = references ''artifact'' tasks in
      map (\<lambda>i. ''execution_task_failed:'' @ i)
        (filter (\<lambda>i. query_task_outcomes w session runs i \<noteq> Some (''exited'', 0)) (unique_strings runs)) @
      map (\<lambda>i. ''artifact_missing:'' @ i)
        (filter (\<lambda>i. \<not> query_existing_ids w session artifacts i) (unique_strings artifacts)))"

definition edit_blockers :: "evidence_world \<Rightarrow> bytes \<Rightarrow> task list \<Rightarrow> bytes list" where
  "edit_blockers w session tasks =
     (let edits = references ''edit'' tasks in
      map (\<lambda>i. ''edit_not_succeeded:'' @ i)
        (filter (\<lambda>i. query_edit_statuses w session edits i \<noteq> Some ''succeeded'') (unique_strings edits)))"

definition incomplete_tasks :: "task list \<Rightarrow> bytes list" where
  "incomplete_tasks tasks =
     map (\<lambda>t. t_id t @ '':'' @ task_status_name (t_status t)) (filter (\<lambda>t. \<not> task_done (t_status t)) tasks)"

definition blocked_tasks :: "task list \<Rightarrow> bytes list" where
  "blocked_tasks tasks = map t_id (filter (\<lambda>t. t_status t = T_Blocked) tasks)"

definition failed_verification :: "task list \<Rightarrow> bytes list" where
  "failed_verification tasks = map e_id (filter evidence_failed (plan_evidence tasks))"

definition pending_approvals :: "evidence_world \<Rightarrow> bytes \<Rightarrow> int \<Rightarrow> nat" where
  "pending_approvals w session now =
     length (filter (\<lambda>r. ar_session r = session \<and> row_live now r) (ew_approvals w))"

definition delivery_blockers :: "evidence_world \<Rightarrow> bytes \<Rightarrow> task list \<Rightarrow> int \<Rightarrow> bytes list" where
  "delivery_blockers w session tasks now =
     unique_strings (
       (if incomplete_tasks tasks \<noteq> [] then [''tasks_incomplete''] else []) @
       (if blocked_tasks tasks \<noteq> [] then [''tasks_blocked''] else []) @
       (if failed_verification tasks \<noteq> [] then [''verification_failed''] else []) @
       execution_blockers w session tasks @
       edit_blockers w session tasks @
       (if pending_approvals w session now \<noteq> 0 then [''pending_approvals''] else []))"

definition delivery_checks :: "evidence_world \<Rightarrow> bytes \<Rightarrow> task list \<Rightarrow> int \<Rightarrow> delivery_check list" where
  "delivery_checks w session tasks now =
     (let incomplete = incomplete_tasks tasks; blocked = blocked_tasks tasks;
          failed = failed_verification tasks; pending = pending_approvals w session now;
          items = execution_blockers w session tasks @ edit_blockers w session tasks
      in [\<lparr>dc_code = ''tasks_complete'', dc_passed = (incomplete = []),
           dc_message = ''all plan tasks are completed or skipped'', dc_details = strings_detail ''tasks'' incomplete\<rparr>,
          \<lparr>dc_code = ''no_blocked_tasks'', dc_passed = (blocked = []),
           dc_message = ''no plan tasks are blocked'', dc_details = strings_detail ''tasks'' blocked\<rparr>,
          \<lparr>dc_code = ''verification_passed'', dc_passed = (failed = []),
           dc_message = ''recorded verification evidence has no failure'', dc_details = strings_detail ''evidence'' failed\<rparr>,
          \<lparr>dc_code = ''approvals_clear'', dc_passed = (pending = 0),
           dc_message = ''no pending approvals remain'',
           dc_details = (if pending = 0 then None else Some (JObj [(''pending'', JNum (show_nat pending))]))\<rparr>,
          \<lparr>dc_code = ''execution_evidence_valid'', dc_passed = (items = []),
           dc_message = (if items \<noteq> [] then ''execution or edit evidence is incomplete''
                         else ''execution and artifact evidence is available''),
           dc_details = strings_detail ''items'' items\<rparr>])"

end
