(* ===== verification/Plan_Service.thy ===== *)
theory Plan_Service
  imports Plan_Evidence
begin

text \<open>
  The operations of the plan service (\<^verbatim>\<open>internal/plan/service.go\<close>, \<^verbatim>\<open>multica_dispatch.go\<close>), each a
  transaction on the tables: \<^verbatim>\<open>Create\<close>, \<^verbatim>\<open>Get\<close>, \<^verbatim>\<open>FindTask\<close>, \<^verbatim>\<open>StartTask\<close>, \<^verbatim>\<open>CompleteTask\<close>,
  \<^verbatim>\<open>BlockTask\<close>, \<^verbatim>\<open>Replan\<close>, \<^verbatim>\<open>Deliver\<close>, and the two halves of handing a task to an external issue,
  \<^verbatim>\<open>ClaimMulticaDispatch\<close> and \<^verbatim>\<open>CompleteMulticaDispatch\<close>. \<open>ids k\<close> is the \<open>k\<close>-th identifier the call
  draws, \<open>now\<close> its clock reading in nanoseconds (\<open>t k\<close> where there are several).
\<close>

definition plan_closed :: "plan_status \<Rightarrow> bool" where
  "plan_closed s \<longleftrightarrow> s = P_Completed \<or> s = P_Cancelled"

section \<open>Reading\<close>

definition get_plan :: "bytes \<Rightarrow> bytes \<Rightarrow> plan_db \<Rightarrow> (plan_error, plan) result" where
  "get_plan session plan db =
     (if trim_space session = [] \<or> trim_space plan = [] then Inl E_Invalid_Input else load_plan db session plan)"

definition find_plan_task :: "bytes \<Rightarrow> bytes \<Rightarrow> plan_db \<Rightarrow> (plan_error, bytes \<times> task) result" where
  "find_plan_task session0 task0 db =
     (let session = trim_space session0; i = trim_space task0 in
      if session = [] \<or> i = [] then Inl E_Invalid_Input
      else case find (\<lambda>r. t_id r = i \<and> (\<exists>p \<in> set (pd_plans db). p_id p = t_plan r \<and> p_session p = session)) (pd_tasks db) of
             None \<Rightarrow> Inl E_Not_Found
           | Some r \<Rightarrow>
               and_then (get_plan session (t_plan r) db) (\<lambda>item.
                 case find (\<lambda>t. t_id t = i) (pl_tasks item) of
                   None \<Rightarrow> Inl E_Not_Found
                 | Some t \<Rightarrow> Inr (t_plan r, t)))"

section \<open>Creating\<close>

record create_input =
  ci_goal :: bytes
  ci_summary :: bytes
  ci_tasks :: "task_input list"

definition create_plan :: "(nat \<Rightarrow> bytes) \<Rightarrow> bytes \<Rightarrow> bytes \<Rightarrow> create_input \<Rightarrow> int \<Rightarrow> plan_db \<Rightarrow>
    plan_db \<times> (plan_error, plan) result" where
  "create_plan ids session who input now db =
     (if trim_space session = [] \<or> trim_space who = [] \<or> trim_space (ci_goal input) = []
      then (db, Inl E_Invalid_Input)
      else case normalize_task_inputs ids (ci_tasks input) of
             Inl e \<Rightarrow> (db, Inl e)
           | Inr tasks \<Rightarrow>
               let n = length (ci_tasks input); plan = ids n in
               run_tx db
                 (and_then (insert_plan
                    \<lparr>p_id = plan, p_session = session, p_goal = trim_space (ci_goal input),
                     p_summary = trim_space (ci_summary input), p_status = P_Ready, p_version = 1,
                     p_created_by = who, p_created = unix_milli now, p_updated = unix_milli now,
                     p_completed = None\<rparr> db) (\<lambda>db1.
                  and_then (insert_tasks plan tasks now db1) (\<lambda>db2.
                  insert_event (ids (Suc n)) plan [] ''plan.created'' [] who
                    (JObj [(''task_count'', JNum (show_nat (length tasks)))]) now db2)))
                 (get_plan session plan))"

section \<open>The life of a task\<close>

text \<open>The tests of \<^verbatim>\<open>transitionTask\<close> on the loaded plan.\<close>

definition transition_guard :: "plan \<Rightarrow> task \<Rightarrow> task_status \<Rightarrow> (plan_error, unit) result" where
  "transition_guard item t target =
     (if plan_closed (p_status item) then Inl E_Invalid_State
      else case target of
             T_In_Progress \<Rightarrow>
               if t_status t \<noteq> T_Todo \<and> t_status t \<noteq> T_Blocked then Inl E_Invalid_State
               else dependencies_complete (pl_tasks item) t
           | T_Completed \<Rightarrow> guard (t_status t = T_In_Progress) E_Invalid_State
           | T_Blocked \<Rightarrow> guard (t_status t = T_In_Progress) E_Invalid_State
           | _ \<Rightarrow> Inl E_Invalid_State)"

definition status_after :: "task_status \<Rightarrow> plan_status \<Rightarrow> plan_status" where
  "status_after target s =
     (if target = T_Blocked then P_Blocked
      else if target = T_In_Progress \<and> (s = P_Ready \<or> s = P_Blocked) then P_In_Progress
      else s)"

definition set_task_status :: "task_status \<Rightarrow> int \<Rightarrow> task_row \<Rightarrow> task_row" where
  "set_task_status target now r =
     r\<lparr>t_status := target, t_updated := unix_milli now,
       t_completed := (if target = T_Completed then Some (unix_milli now) else None)\<rparr>"

definition set_plan_status :: "plan_status \<Rightarrow> int \<Rightarrow> plan_row \<Rightarrow> plan_row" where
  "set_plan_status s now r = r\<lparr>p_status := s, p_version := p_version r + 1, p_updated := unix_milli now\<rparr>"

definition transition_tx :: "evidence_world \<Rightarrow> (nat \<Rightarrow> bytes) \<Rightarrow> bytes \<Rightarrow> bytes \<Rightarrow> bytes \<Rightarrow> bytes \<Rightarrow> task_status \<Rightarrow>
    bytes \<Rightarrow> bytes \<Rightarrow> evidence_input list \<Rightarrow> int \<Rightarrow> plan_db \<Rightarrow> (plan_error, plan_db) result" where
  "transition_tx w ids session plan i who target event_type reason evidence now db =
     and_then (load_plan db session plan) (\<lambda>item.
     and_then (find_task (pl_tasks item) i) (\<lambda>t.
     and_then (transition_guard item t target) (\<lambda>_.
     and_then (insert_evidence_batch w ids session plan (t_id t) who evidence now
                (update_task plan (t_id t) (set_task_status target now) db)) (\<lambda>db1.
       insert_event (ids (length evidence)) plan (t_id t) event_type reason who
         (JObj ((''status'', JStr (task_status_name target)) #
           (if evidence \<noteq> [] then [(''evidence_count'', JNum (show_nat (length evidence)))] else []))) now
         (update_plan session plan (set_plan_status (status_after target (p_status item)) now) db1)))))"

definition index_by_id :: "task list \<Rightarrow> bytes \<Rightarrow> nat" where
  "index_by_id tasks i = (case task_index tasks i of None \<Rightarrow> 0 | Some k \<Rightarrow> k)"

definition transition_task :: "evidence_world \<Rightarrow> (nat \<Rightarrow> bytes) \<Rightarrow> bytes \<Rightarrow> bytes \<Rightarrow> bytes \<Rightarrow> bytes \<Rightarrow> task_status \<Rightarrow>
    bytes \<Rightarrow> bytes \<Rightarrow> evidence_input list \<Rightarrow> int \<Rightarrow> plan_db \<Rightarrow> plan_db \<times> (plan_error, task) result" where
  "transition_task w ids session plan i who target event_type reason evidence now db =
     (if trim_space i = [] \<or> trim_space who = [] then (db, Inl E_Invalid_Input)
      else if target = T_Completed \<and> evidence = [] then (db, Inl E_Evidence_Required)
      else run_tx db (transition_tx w ids session plan i who target event_type reason evidence now db)
             (\<lambda>db'. and_then (get_plan session plan db') (\<lambda>item.
                Inr (pl_tasks item ! index_by_id (pl_tasks item) i))))"

definition start_task :: "evidence_world \<Rightarrow> (nat \<Rightarrow> bytes) \<Rightarrow> bytes \<Rightarrow> bytes \<Rightarrow> bytes \<Rightarrow> bytes \<Rightarrow> int \<Rightarrow> plan_db \<Rightarrow>
    plan_db \<times> (plan_error, task) result" where
  "start_task w ids session plan i who now db =
     transition_task w ids session plan i who T_In_Progress ''plan_task.started'' [] [] now db"

definition complete_task :: "evidence_world \<Rightarrow> (nat \<Rightarrow> bytes) \<Rightarrow> bytes \<Rightarrow> bytes \<Rightarrow> bytes \<Rightarrow> bytes \<Rightarrow> evidence_input list \<Rightarrow>
    int \<Rightarrow> plan_db \<Rightarrow> plan_db \<times> (plan_error, task) result" where
  "complete_task w ids session plan i who evidence now db =
     transition_task w ids session plan i who T_Completed ''plan_task.completed'' [] evidence now db"

definition block_task :: "evidence_world \<Rightarrow> (nat \<Rightarrow> bytes) \<Rightarrow> bytes \<Rightarrow> bytes \<Rightarrow> bytes \<Rightarrow> bytes \<Rightarrow> bytes \<Rightarrow>
    evidence_input list \<Rightarrow> int \<Rightarrow> plan_db \<Rightarrow> plan_db \<times> (plan_error, task) result" where
  "block_task w ids session plan i who reason evidence now db =
     (if trim_space reason = [] then (db, Inl E_Invalid_Input)
      else transition_task w ids session plan i who T_Blocked ''plan_task.blocked'' (trim_space reason) evidence now db)"

section \<open>Replanning\<close>

record replan_input =
  ri_goal :: bytes
  ri_summary :: bytes
  ri_reason :: bytes
  ri_operations :: "task_operation list"

definition operation_json :: "task_operation \<Rightarrow> json" where
  "operation_json x =
     JObj ((''action'', JStr (to_action x)) #
       (if to_task x \<noteq> [] then [(''plan_task_id'', JStr (to_task x))] else []) @
       (if to_title x \<noteq> [] then [(''title'', JStr (to_title x))] else []) @
       (if to_description x \<noteq> [] then [(''description'', JStr (to_description x))] else []) @
       (if to_depends_on x \<noteq> [] then [(''depends_on'', JArr (map JStr (to_depends_on x)))] else []))"

definition replan_row :: "replan_input \<Rightarrow> int \<Rightarrow> plan_row \<Rightarrow> plan_row" where
  "replan_row input now r =
     r\<lparr>p_goal := (if trim_space (ri_goal input) \<noteq> [] then trim_space (ri_goal input) else p_goal r),
       p_summary := (if trim_space (ri_summary input) \<noteq> [] then trim_space (ri_summary input) else p_summary r),
       p_status := (if p_status r = P_Ready \<or> p_status r = P_Blocked then P_In_Progress else p_status r),
       p_version := p_version r + 1, p_updated := unix_milli now\<rparr>"

text \<open>The tasks the replanning ends with.\<close>

definition replanned_tasks :: "(nat \<Rightarrow> bytes) \<Rightarrow> plan \<Rightarrow> task_operation list \<Rightarrow> (plan_error, task list \<times> nat) result" where
  "replanned_tasks ids item operations =
     (if plan_closed (p_status item) then Inl E_Invalid_State
      else and_then (apply_operations ids (p_id item) (map t_id (pl_tasks item)) operations
             (pl_tasks item, max_ordinal_of (pl_tasks item), 0)) (\<lambda>(tasks, _, drawn).
           if tasks = [] \<or> length tasks > max_tasks then Inl E_Invalid_Input
           else and_then (check_task_graph tasks) (\<lambda>_. Inr (tasks, drawn))))"

definition replan_tx :: "(nat \<Rightarrow> bytes) \<Rightarrow> bytes \<Rightarrow> bytes \<Rightarrow> bytes \<Rightarrow> replan_input \<Rightarrow> int \<Rightarrow> plan_db \<Rightarrow>
    (plan_error, plan_db) result" where
  "replan_tx ids session plan who input now db =
     and_then (load_plan db session plan) (\<lambda>item.
     and_then (replanned_tasks ids item (ri_operations input)) (\<lambda>(tasks, drawn).
     and_then (persist_replan plan (map t_id (pl_tasks item)) tasks now db) (\<lambda>db1.
       insert_event (ids drawn) plan [] ''plan.replanned'' (trim_space (ri_reason input)) who
         (JObj [(''operations'', JArr (map operation_json (ri_operations input)))]) now
         (update_plan session plan (replan_row input now) db1))))"

definition replan :: "(nat \<Rightarrow> bytes) \<Rightarrow> bytes \<Rightarrow> bytes \<Rightarrow> bytes \<Rightarrow> replan_input \<Rightarrow> int \<Rightarrow> plan_db \<Rightarrow>
    plan_db \<times> (plan_error, plan) result" where
  "replan ids session plan who input now db =
     (if trim_space who = [] \<or> trim_space (ri_reason input) = [] then (db, Inl E_Invalid_Input)
      else if ri_operations input = [] \<and> trim_space (ri_goal input) = [] \<and> trim_space (ri_summary input) = []
      then (db, Inl E_Invalid_Input)
      else run_tx db (replan_tx ids session plan who input now db) (get_plan session plan))"

section \<open>Delivering\<close>

record delivery =
  dl_plan_id :: bytes
  dl_session :: bytes
  dl_status :: bytes
  dl_ready :: bool
  dl_checks :: "delivery_check list"
  dl_blockers :: "bytes list"
  dl_plan :: plan
  dl_delivered_at :: "int option"

definition deliver_row :: "bytes list \<Rightarrow> int \<Rightarrow> plan_row \<Rightarrow> plan_row" where
  "deliver_row blockers now r =
     r\<lparr>p_status := (if blockers = [] then P_Completed else P_Blocked), p_version := p_version r + 1,
       p_updated := unix_milli now, p_completed := (if blockers = [] then Some (unix_milli now) else None)\<rparr>"

definition deliver_tx :: "(nat \<Rightarrow> bytes) \<Rightarrow> bytes \<Rightarrow> bytes \<Rightarrow> bytes \<Rightarrow> bytes list \<Rightarrow> int \<Rightarrow> plan_db \<Rightarrow>
    (plan_error, plan_db) result" where
  "deliver_tx ids session plan who blockers now db =
     insert_event (ids 0) plan [] (if blockers = [] then ''plan.delivered'' else ''plan.delivery_blocked'')
       (join blockers ''; '') who (JObj [(''blockers'', JArr (map JStr blockers))]) now
       (update_plan session plan (deliver_row blockers now) db)"

definition deliver :: "evidence_world \<Rightarrow> (nat \<Rightarrow> bytes) \<Rightarrow> bytes \<Rightarrow> bytes \<Rightarrow> bytes \<Rightarrow> (nat \<Rightarrow> int) \<Rightarrow> plan_db \<Rightarrow>
    plan_db \<times> (plan_error, delivery) result" where
  "deliver w ids session plan who t db =
     (if trim_space who = [] then (db, Inl E_Invalid_Input)
      else case load_plan db session plan of
             Inl e \<Rightarrow> (db, Inl e)
           | Inr item \<Rightarrow>
               if p_status item = P_Cancelled then (db, Inl E_Invalid_State)
               else
                 let blockers = delivery_blockers w session (pl_tasks item) (t 0) in
                 run_tx db (deliver_tx ids session plan who blockers (t 1) db)
                   (\<lambda>db'. and_then (get_plan session plan db') (\<lambda>updated.
                      Inr \<lparr>dl_plan_id = plan, dl_session = session,
                           dl_status = (if blockers = [] then ''completed'' else ''blocked''),
                           dl_ready = (blockers = []), dl_checks = delivery_checks w session (pl_tasks item) (t 0),
                           dl_blockers = blockers, dl_plan = updated,
                           dl_delivered_at = (if blockers = [] then Some (t 1) else None)\<rparr>)))"

section \<open>Handing a task to an external issue\<close>

definition find_dispatch :: "plan_db \<Rightarrow> bytes \<Rightarrow> bytes \<Rightarrow> bytes \<Rightarrow> dispatch_row option" where
  "find_dispatch db session plan i =
     find (\<lambda>x. x_task x = i \<and> x_plan x = plan \<and> x_session x = session) (pd_dispatches db)"

text \<open>The tests shared by a first and a repeated claim.\<close>

definition claim_guard :: "plan \<Rightarrow> task \<Rightarrow> (plan_error, unit) result" where
  "claim_guard item t =
     (if plan_closed (p_status item) \<or> t_status t \<noteq> T_Todo then Inl E_Invalid_State
      else dependencies_complete (pl_tasks item) t)"

text \<open>The \<^verbatim>\<open>INSERT\<close>.\<close>

definition insert_dispatch :: "dispatch_row \<Rightarrow> plan_db \<Rightarrow> (plan_error, plan_db) result" where
  "insert_dispatch x db =
     (if x_task x \<in> x_task ` set (pd_dispatches db) \<or> x_plan x \<notin> p_id ` set (pd_plans db) \<or>
         x_task x \<notin> t_id ` set (pd_tasks db) then Inl E_Store
      else Inr (db\<lparr>pd_dispatches := pd_dispatches db @ [x]\<rparr>))"

text \<open>The routing of a dispatch: assignee, project, priority.\<close>

type_synonym routing = "bytes \<times> bytes \<times> bytes"

definition new_dispatch :: "bytes \<Rightarrow> bytes \<Rightarrow> bytes \<Rightarrow> bytes \<Rightarrow> routing \<Rightarrow> int \<Rightarrow> dispatch_row" where
  "new_dispatch session plan i who routing now =
     (case routing of (assignee, project, priority) \<Rightarrow>
        \<lparr>x_plan = plan, x_task = i, x_issue = [], x_identifier = [], x_status = Creating, x_assignee = assignee,
         x_project = project, x_priority = priority, x_created = unix_milli now, x_updated = unix_milli now,
         x_session = session, x_created_by = who\<rparr>)"

text \<open>The conditional \<^verbatim>\<open>UPDATE\<close> that takes a stale claim over.\<close>

definition renewable :: "bytes \<Rightarrow> int \<Rightarrow> dispatch_row \<Rightarrow> bool" where
  "renewable i seen x \<longleftrightarrow> x_task x = i \<and> x_status x = Creating \<and> x_updated x = seen"

definition renew_claims :: "bytes \<Rightarrow> bytes \<Rightarrow> int \<Rightarrow> int \<Rightarrow> dispatch_row list \<Rightarrow> dispatch_row list" where
  "renew_claims i who seen now =
     map (\<lambda>x. if renewable i seen x then x\<lparr>x_updated := unix_milli now, x_created_by := who\<rparr> else x)"

text \<open>A claim that is refused may still return the dispatch it met.\<close>

type_synonym claim_answer = "multica_dispatch option \<times> (plan_error, bool) result"

definition claim_dispatch :: "bytes \<Rightarrow> bytes \<Rightarrow> bytes \<Rightarrow> bytes \<Rightarrow> routing \<Rightarrow> int \<Rightarrow> int \<Rightarrow> plan_db \<Rightarrow>
    plan_db \<times> claim_answer" where
  "claim_dispatch session plan i who routing lease now db =
     (if session = [] \<or> plan = [] \<or> i = [] \<or> who = [] \<or> fst routing = [] then (db, None, Inl E_Invalid_Input)
      else case and_then (load_plan db session plan) (\<lambda>item.
                  and_then (find_task (pl_tasks item) i) (\<lambda>t. Inr (item, t))) of
             Inl e \<Rightarrow> (db, None, Inl e)
           | Inr (item, t) \<Rightarrow>
               (case find_dispatch db session plan i of
                  Some x \<Rightarrow>
                    let d = multica_dispatch.truncate x in
                    if (x_assignee x, x_project x, x_priority x) \<noteq> routing then (db, Some d, Inl E_Dispatch_Conflict)
                    else if x_status x = Dispatched then (db, Some d, Inr False)
                    else (case claim_guard item t of
                            Inl e \<Rightarrow> (db, Some d, Inl e)
                          | Inr _ \<Rightarrow>
                              if now - of_milli (x_updated x) < lease \<or>
                                 length (filter (renewable i (x_updated x)) (pd_dispatches db)) \<noteq> 1
                              then (db, Some d, Inl E_Dispatch_In_Progress)
                              else (db\<lparr>pd_dispatches := renew_claims i who (x_updated x) now (pd_dispatches db)\<rparr>,
                                    Some (d\<lparr>x_updated := unix_milli now\<rparr>), Inr True))
                | None \<Rightarrow>
                    let x = new_dispatch session plan i who routing now in
                    (case and_then (claim_guard item t) (\<lambda>_. insert_dispatch x db) of
                       Inl e \<Rightarrow> (db, None, Inl e)
                     | Inr db' \<Rightarrow> (db', Some (multica_dispatch.truncate x), Inr True))))"

text \<open>\<^verbatim>\<open>CompleteMulticaDispatch\<close>: the issue exists now.\<close>

definition settle_dispatch :: "bytes \<Rightarrow> bytes \<Rightarrow> int \<Rightarrow> dispatch_row \<Rightarrow> dispatch_row" where
  "settle_dispatch issue identifier now x =
     x\<lparr>x_status := Dispatched, x_issue := issue, x_identifier := identifier, x_updated := unix_milli now\<rparr>"

definition being_created :: "bytes \<Rightarrow> bytes \<Rightarrow> bytes \<Rightarrow> dispatch_row \<Rightarrow> bool" where
  "being_created session plan i x \<longleftrightarrow> x_plan x = plan \<and> x_task x = i \<and> x_session x = session \<and> x_status x = Creating"

definition settle_tx :: "(nat \<Rightarrow> bytes) \<Rightarrow> bytes \<Rightarrow> bytes \<Rightarrow> plan \<Rightarrow> multica_dispatch \<Rightarrow> bytes \<Rightarrow> bytes \<Rightarrow> int \<Rightarrow> plan_db \<Rightarrow>
    (plan_error, plan_db) result" where
  "settle_tx ids session who item d issue identifier now db =
     (let db1 = db\<lparr>pd_dispatches := map (\<lambda>x. if being_created session (x_plan d) (x_task d) x
                then settle_dispatch issue identifier now x else x) (pd_dispatches db)\<rparr>;
          db2 = (if plan_closed (p_status item) then db1
                 else update_plan session (x_plan d)
                        (set_plan_status (status_after T_In_Progress (p_status item)) now)
                        (update_task (x_plan d) (x_task d)
                          (\<lambda>r. if t_status r = T_Todo then r\<lparr>t_status := T_In_Progress, t_updated := unix_milli now\<rparr> else r) db1))
      in insert_event (ids 0) (x_plan d) (x_task d) ''plan_task.multica_dispatched'' [] who
           (JObj [(''issue_id'', JStr issue), (''issue_identifier'', JStr identifier),
             (''assignee_id'', JStr (x_assignee d)), (''project_id'', JStr (x_project d))]) now db2)"

definition complete_dispatch :: "(nat \<Rightarrow> bytes) \<Rightarrow> bytes \<Rightarrow> bytes \<Rightarrow> multica_dispatch \<Rightarrow> bytes \<Rightarrow> bytes \<Rightarrow> int \<Rightarrow> plan_db \<Rightarrow>
    plan_db \<times> (plan_error, multica_dispatch) result" where
  "complete_dispatch ids session who d issue identifier now db =
     (if issue = [] \<or> x_plan d = [] \<or> x_task d = [] then (db, Inl E_Invalid_Input)
      else case and_then (load_plan db session (x_plan d)) (\<lambda>item.
                  and_then (find_task (pl_tasks item) (x_task d)) (\<lambda>_. Inr item)) of
             Inl e \<Rightarrow> (db, Inl e)
           | Inr item \<Rightarrow>
               if \<not> list_ex (being_created session (x_plan d) (x_task d)) (pd_dispatches db) then
                 (case find_dispatch db session (x_plan d) (x_task d) of
                    None \<Rightarrow> (db, Inl E_Store)
                  | Some x \<Rightarrow>
                      if x_status x \<noteq> Dispatched \<or> x_issue x \<noteq> issue then (db, Inl E_Dispatch_Conflict)
                      else (db, Inr (multica_dispatch.truncate x)))
               else run_tx db (settle_tx ids session who item d issue identifier now db)
                      (\<lambda>_. Inr (d\<lparr>x_status := Dispatched, x_issue := issue, x_identifier := identifier,
                                 x_updated := unix_milli now\<rparr>)))"

end
