(* ===== verification/Run_Grant.thy ===== *)
theory Run_Grant
  imports Plan_Service
begin

text \<open>
  Run grants (\<^verbatim>\<open>internal/plan/run_grant.go\<close>): a user lets a plan hand tasks to external issues
  without being asked each time, within a scope and a budget. \<open>lower\<close> is Unicode's lower case as
  \<^verbatim>\<open>strings.ToLower\<close> applies it, \<open>digest\<close> the hexadecimal SHA-256 of the standard library. A
  \<^verbatim>\<open>time.Duration\<close> is a 64-bit number of nanoseconds, and the product of minutes and
  \<^verbatim>\<open>time.Minute\<close> wraps around.
\<close>

section \<open>Risks and repositories\<close>

definition risk_rank :: "bytes \<Rightarrow> nat" where
  "risk_rank level =
     (if level = ''routine'' then 1 else if level = ''standard'' then 2 else if level = ''review'' then 3
      else if level = ''signoff'' then 4 else 0)"

definition auto_merge_allowed :: "bytes \<Rightarrow> bytes \<Rightarrow> bool" where
  "auto_merge_allowed risk ceiling \<longleftrightarrow>
     \<not> (risk = ''signoff'' \<or> risk_rank risk = 0 \<or> risk_rank ceiling = 0) \<and> risk_rank risk \<le> risk_rank ceiling"

text \<open>\<^verbatim>\<open>strings.Split\<close> at a single byte.\<close>

fun split_byte :: "char \<Rightarrow> bytes \<Rightarrow> bytes list" where
  "split_byte c [] = [[]]"
| "split_byte c (x # xs) =
     (if x = c then [] # split_byte c xs
      else case split_byte c xs of [] \<Rightarrow> [[x]] | p # ps \<Rightarrow> (x # p) # ps)"

definition github_prefixes :: "bytes list" where
  "github_prefixes = [''https://github.com/'', ''http://github.com/'', ''git@github.com:'', ''github.com/'']"

definition normalize_repository :: "(bytes \<Rightarrow> bytes) \<Rightarrow> bytes \<Rightarrow> bytes" where
  "normalize_repository lower raw =
     (let v = foldl trim_prefix (lower (trim_space raw)) github_prefixes;
          value = trim_suffix (trim_suffix v ''/'') ''.git''
      in case split_byte (CHR ''/'') value of
           [owner, name] \<Rightarrow> if owner = [] \<or> name = [] \<or> contains_any value [CHR '' '', CHR ''*'', CHR ''?'', CHR 0x5C]
                             then [] else value
         | _ \<Rightarrow> [])"

definition max_grant_attempts :: int where
  "max_grant_attempts = 1000"

definition max_grant_repositories :: nat where
  "max_grant_repositories = 20"

definition max_grant_note :: nat where
  "max_grant_note = 500"

fun normalize_all :: "(bytes \<Rightarrow> bytes) \<Rightarrow> bytes list \<Rightarrow> bytes list \<Rightarrow> (plan_error, bytes list) result" where
  "normalize_all lower acc [] = Inr acc"
| "normalize_all lower acc (raw # rest) =
     (let r = normalize_repository lower raw in
      if r = [] then Inl E_Invalid_Input
      else normalize_all lower (if r \<in> set acc then acc else acc @ [r]) rest)"

definition normalize_repositories :: "(bytes \<Rightarrow> bytes) \<Rightarrow> bytes list \<Rightarrow> (plan_error, bytes list) result" where
  "normalize_repositories lower values =
     (if values = [] \<or> length values > max_grant_repositories then Inl E_Invalid_Input
      else normalize_all lower [] values)"

section \<open>Durations\<close>

definition minutes :: "int \<Rightarrow> int" where
  "minutes n = wrap64 (n * 60000000000)"

text \<open>\<^verbatim>\<open>maxRunGrantLifetime\<close>.\<close>

definition max_grant_lifetime :: int where
  "max_grant_lifetime = 30 * 24 * 3600 * 1000000000"

text \<open>\<^verbatim>\<open>len([]rune(s))\<close>: a byte that starts no valid rune counts as one.\<close>

function rune_count :: "bytes \<Rightarrow> nat" where
  "rune_count s = (if s = [] then 0 else Suc (rune_count (drop (max 1 (rune_length s)) s)))"
  by pat_completeness auto
termination
  by (relation "measure length") auto

declare rune_count.simps [simp del]

section \<open>The effective state\<close>

datatype effective = Eff_Active | Eff_Revoked | Eff_Superseded | Eff_Expired | Eff_Runtime_Exhausted
  | Eff_Tokens_Exhausted | Eff_Attempts_Exhausted | Eff_Plan_Closed

fun effective_name :: "effective \<Rightarrow> bytes" where
  "effective_name Eff_Active = ''active''"
| "effective_name Eff_Revoked = ''revoked''"
| "effective_name Eff_Superseded = ''superseded''"
| "effective_name Eff_Expired = ''expired''"
| "effective_name Eff_Runtime_Exhausted = ''runtime_exhausted''"
| "effective_name Eff_Tokens_Exhausted = ''tokens_exhausted''"
| "effective_name Eff_Attempts_Exhausted = ''attempts_exhausted''"
| "effective_name Eff_Plan_Closed = ''plan_closed''"

text \<open>\<^verbatim>\<open>RunGrant\<close>: the row, the first use in nanoseconds and the two computed fields.\<close>

record run_grant =
  rg_row :: grant_row
  rg_first_used :: "int option"
  rg_effective :: effective
  rg_deadline :: "int option"

definition runtime_deadline :: "grant_row \<Rightarrow> int option \<Rightarrow> int option" where
  "runtime_deadline g first = map_option (\<lambda>f. f + of_milli (g_max_runtime g)) first"

text \<open>\<^verbatim>\<open>computeEffective\<close>.\<close>

definition compute_effective :: "grant_row \<Rightarrow> int option \<Rightarrow> int \<Rightarrow> plan_status \<Rightarrow> run_grant" where
  "compute_effective g first now status =
     (let deadline = runtime_deadline g first in
      \<lparr>rg_row = g, rg_first_used = first,
       rg_effective =
         (if g_status g = G_Revoked then Eff_Revoked
          else if g_status g = G_Superseded then Eff_Superseded
          else if plan_closed status then Eff_Plan_Closed
          else if now \<ge> of_milli (g_expires g) then Eff_Expired
          else if (case deadline of None \<Rightarrow> False | Some d \<Rightarrow> now \<ge> d) then Eff_Runtime_Exhausted
          else if g_tokens_used g \<ge> g_max_tokens g then Eff_Tokens_Exhausted
          else if g_attempts_used g \<ge> g_max_attempts g then Eff_Attempts_Exhausted
          else Eff_Active),
       rg_deadline = deadline\<rparr>)"

text \<open>A grant as it is scanned from its row.\<close>

definition scan_grant :: "grant_row \<Rightarrow> int \<Rightarrow> plan_status \<Rightarrow> run_grant" where
  "scan_grant g now status = compute_effective g (map_option of_milli (g_first_used g)) now status"

section \<open>Statements\<close>

definition load_plan_header :: "plan_db \<Rightarrow> bytes \<Rightarrow> bytes \<Rightarrow> (plan_error, plan_row) result" where
  "load_plan_header db session plan =
     (case find_plan_row db session plan of None \<Rightarrow> Inl E_Not_Found | Some r \<Rightarrow> Inr r)"

definition find_task_header :: "plan_db \<Rightarrow> bytes \<Rightarrow> bytes \<Rightarrow> (plan_error, task_row) result" where
  "find_task_header db plan i =
     (case find (\<lambda>r. t_id r = i \<and> t_plan r = plan) (pd_tasks db) of None \<Rightarrow> Inl E_Not_Found | Some r \<Rightarrow> Inr r)"

definition active_grant :: "plan_db \<Rightarrow> bytes \<Rightarrow> bytes \<Rightarrow> grant_row option" where
  "active_grant db session plan =
     find (\<lambda>g. g_session g = session \<and> g_plan g = plan \<and> g_status g = G_Active) (pd_grants db)"

text \<open>\<^verbatim>\<open>INSERT INTO plan_run_grants\<close> with the index \<^verbatim>\<open>idx_plan_run_grants_one_active\<close>.\<close>

definition insert_grant :: "grant_row \<Rightarrow> plan_db \<Rightarrow> (plan_error, plan_db) result" where
  "insert_grant g db =
     (if g_id g \<in> g_id ` set (pd_grants db) \<or> g_plan g \<notin> p_id ` set (pd_plans db) \<or>
         list_ex (\<lambda>h. g_plan h = g_plan g \<and> g_status h = G_Active) (pd_grants db) then Inl E_Store
      else Inr (db\<lparr>pd_grants := pd_grants db @ [g]\<rparr>))"

definition update_grant :: "bytes \<Rightarrow> (grant_row \<Rightarrow> bool) \<Rightarrow> (grant_row \<Rightarrow> grant_row) \<Rightarrow> plan_db \<Rightarrow> plan_db" where
  "update_grant i cond f db =
     db\<lparr>pd_grants := map (\<lambda>g. if g_id g = i \<and> cond g then f g else g) (pd_grants db)\<rparr>"

definition end_grant :: "grant_status \<Rightarrow> bytes \<Rightarrow> bytes \<Rightarrow> int \<Rightarrow> grant_row \<Rightarrow> grant_row" where
  "end_grant s who reason now g =
     g\<lparr>g_status := s, g_ended_by := who, g_ended := Some (unix_milli now), g_end_reason := reason,
       g_updated := unix_milli now\<rparr>"

definition is_active :: "grant_row \<Rightarrow> bool" where
  "is_active g \<longleftrightarrow> g_status g = G_Active"

section \<open>Operations\<close>

definition get_run_grant :: "bytes \<Rightarrow> bytes \<Rightarrow> bytes \<Rightarrow> int \<Rightarrow> plan_db \<Rightarrow> (plan_error, run_grant) result" where
  "get_run_grant session plan i now db =
     and_then (load_plan_header db session plan) (\<lambda>item.
       case sort_key (\<lambda>g. (g_created g, g_id g))
          (filter (\<lambda>g. g_session g = session \<and> g_plan g = plan \<and> (i = [] \<or> g_id g = i)) (pd_grants db)) of
         [] \<Rightarrow> Inl E_Grant_Not_Found
       | gs \<Rightarrow> Inr (scan_grant (last gs) now (p_status item)))"

definition list_run_grants :: "bytes \<Rightarrow> bytes \<Rightarrow> int \<Rightarrow> plan_db \<Rightarrow> (plan_error, run_grant list) result" where
  "list_run_grants session plan now db =
     and_then (load_plan_header db session plan) (\<lambda>item.
       Inr (map (\<lambda>g. scan_grant g now (p_status item))
         (rev (sort_key (\<lambda>g. (g_created g, g_id g))
           (filter (\<lambda>g. g_session g = session \<and> g_plan g = plan) (pd_grants db))))))"

record grant_input =
  gi_repositories :: "bytes list"
  gi_ceiling :: bytes
  gi_max_tokens :: int
  gi_runtime_minutes :: int
  gi_max_attempts :: int
  gi_expires_minutes :: int
  gi_note :: bytes

text \<open>The checks of the input, with the values they lead to: repositories, ceiling, lifetime, runtime, note.\<close>

definition check_grant_input :: "(bytes \<Rightarrow> bytes) \<Rightarrow> grant_input \<Rightarrow>
    (plan_error, bytes list \<times> bytes \<times> int \<times> int \<times> bytes) result" where
  "check_grant_input lower x =
     and_then (normalize_repositories lower (gi_repositories x)) (\<lambda>repos.
       let ceiling = trim_space (gi_ceiling x);
           lifetime = minutes (gi_expires_minutes x);
           runtime = minutes (gi_runtime_minutes x);
           note = trim_space (gi_note x)
       in if ceiling = ''signoff'' \<or> ceiling \<noteq> ''none'' \<and> risk_rank ceiling = 0 \<or> gi_max_tokens x \<le> 0 \<or>
             gi_max_attempts x \<le> 0 \<or> gi_max_attempts x > max_grant_attempts \<or>
             lifetime \<le> 0 \<or> lifetime > max_grant_lifetime \<or>
             runtime \<le> 0 \<or> runtime > max_grant_lifetime \<or> rune_count note > max_grant_note
          then Inl E_Invalid_Input
          else Inr (repos, ceiling, lifetime, runtime, note))"

text \<open>\<open>stamp\<close> formats the expiry for the event (\<^verbatim>\<open>time.RFC3339\<close>).\<close>

definition create_grant_tx :: "(int \<Rightarrow> bytes) \<Rightarrow> (nat \<Rightarrow> bytes) \<Rightarrow> bytes \<Rightarrow> bytes \<Rightarrow> bytes \<Rightarrow> grant_input \<Rightarrow>
    bytes list \<times> bytes \<times> int \<times> int \<times> bytes \<Rightarrow> int \<Rightarrow> plan_db \<Rightarrow> (plan_error, plan_db) result" where
  "create_grant_tx stamp ids session plan who x checked now db =
     (case checked of (repos, ceiling, lifetime, runtime, note) \<Rightarrow>
      and_then (load_plan_header db session plan) (\<lambda>item.
        if plan_closed (p_status item) then Inl E_Invalid_State
        else
          let gid = ids 0; superseded = ''superseded by '' @ gid in
          and_then
            (case active_grant db session plan of
               None \<Rightarrow> Inr db
             | Some old \<Rightarrow>
                 insert_event (ids 1) plan [] ''plan.run_grant.superseded'' superseded who
                   (JObj [(''grant_id'', JStr (g_id old)), (''superseded_by'', JStr gid)]) now
                   (update_grant (g_id old) is_active (end_grant G_Superseded who superseded now) db)) (\<lambda>db1.
          and_then (insert_grant
            \<lparr>g_id = gid, g_plan = plan, g_session = session, g_status = G_Active, g_repositories = repos,
             g_ceiling = ceiling, g_max_tokens = gi_max_tokens x, g_tokens_used = 0,
             g_max_runtime = unix_milli runtime, g_max_attempts = gi_max_attempts x, g_attempts_used = 0,
             g_expires = unix_milli (now + lifetime), g_first_used = None, g_note = note, g_created_by = who,
             g_created = unix_milli now, g_updated = unix_milli now, g_ended_by = [], g_ended = None,
             g_end_reason = []\<rparr> db1) (\<lambda>db2.
          insert_event (ids (if active_grant db session plan = None then 1 else 2)) plan []
            ''plan.run_grant.created'' note who
            (JObj [(''grant_id'', JStr gid), (''repositories'', JArr (map JStr repos)),
              (''auto_merge_max_risk'', JStr ceiling), (''max_tokens'', JNum (show_int (gi_max_tokens x))),
              (''max_runtime_ms'', JNum (show_int (unix_milli runtime))),
              (''max_attempts'', JNum (show_int (gi_max_attempts x))),
              (''expires_at'', JStr (stamp (now + lifetime)))]) now db2))))"

definition create_run_grant :: "(bytes \<Rightarrow> bytes) \<Rightarrow> (int \<Rightarrow> bytes) \<Rightarrow> (nat \<Rightarrow> bytes) \<Rightarrow> bytes \<Rightarrow> bytes \<Rightarrow> bytes \<Rightarrow>
    grant_input \<Rightarrow> (nat \<Rightarrow> int) \<Rightarrow> plan_db \<Rightarrow> plan_db \<times> (plan_error, run_grant) result" where
  "create_run_grant lower stamp ids session plan who x t db =
     (if session = [] \<or> plan = [] \<or> who = [] then (db, Inl E_Invalid_Input)
      else case check_grant_input lower x of
             Inl e \<Rightarrow> (db, Inl e)
           | Inr checked \<Rightarrow>
               run_tx db (create_grant_tx stamp ids session plan who x checked (t 0) db)
                 (get_run_grant session plan (ids 0) (t 1)))"

definition revoke_run_grant :: "(nat \<Rightarrow> bytes) \<Rightarrow> bytes \<Rightarrow> bytes \<Rightarrow> bytes \<Rightarrow> bytes \<Rightarrow> (nat \<Rightarrow> int) \<Rightarrow> plan_db \<Rightarrow>
    plan_db \<times> (plan_error, run_grant) result" where
  "revoke_run_grant ids session plan who reason0 t db =
     (let reason = trim_space reason0 in
      if who = [] \<or> reason = [] then (db, Inl E_Invalid_Input)
      else case load_plan_header db session plan of
             Inl e \<Rightarrow> (db, Inl e)
           | Inr _ \<Rightarrow>
               (case active_grant db session plan of
                  None \<Rightarrow> (db, Inl E_Grant_Not_Found)
                | Some g \<Rightarrow>
                    run_tx db
                      (insert_event (ids 0) plan [] ''plan.run_grant.revoked'' reason who
                        (JObj [(''grant_id'', JStr (g_id g))]) (t 0)
                        (update_grant (g_id g) is_active (end_grant G_Revoked who reason (t 0)) db))
                      (get_run_grant session plan (g_id g) (t 1))))"

definition report_run_grant_usage :: "(nat \<Rightarrow> bytes) \<Rightarrow> bytes \<Rightarrow> bytes \<Rightarrow> bytes \<Rightarrow> int \<Rightarrow> (nat \<Rightarrow> int) \<Rightarrow> plan_db \<Rightarrow>
    plan_db \<times> (plan_error, run_grant) result" where
  "report_run_grant_usage ids session plan who used_total t db =
     (if who = [] \<or> used_total < 0 then (db, Inl E_Invalid_Input)
      else case load_plan_header db session plan of
             Inl e \<Rightarrow> (db, Inl e)
           | Inr _ \<Rightarrow>
               (case active_grant db session plan of
                  None \<Rightarrow> (db, Inl E_Grant_Not_Found)
                | Some g \<Rightarrow>
                    let db1 = (if used_total > g_tokens_used g
                               then update_grant (g_id g) (\<lambda>h. g_tokens_used h < used_total)
                                      (\<lambda>h. h\<lparr>g_tokens_used := used_total, g_updated := unix_milli (t 0)\<rparr>) db
                               else db)
                    in run_tx db
                         (insert_event (ids 0) plan [] ''plan.run_grant.usage_reported'' [] who
                           (JObj [(''grant_id'', JStr (g_id g)), (''tokens_used_total'', JNum (show_int used_total)),
                             (''previous_tokens_used'', JNum (show_int (g_tokens_used g))),
                             (''max_tokens'', JNum (show_int (g_max_tokens g)))]) (t 0) db1)
                         (get_run_grant session plan (g_id g) (t 1))))"

section \<open>Using a grant\<close>

record grant_use =
  gu_task :: bytes
  gu_key :: bytes
  gu_repository :: bytes
  gu_risk :: bytes
  gu_principal :: bytes

record grant_decision =
  gd_authorized :: bool
  gd_code :: bytes
  gd_reason :: bytes
  gd_grant :: "run_grant option"
  gd_repository :: bytes
  gd_risk :: bytes
  gd_auto_merge :: bool
  gd_consumed :: bool
  gd_replay :: bool

definition no_decision :: grant_decision where
  "no_decision = \<lparr>gd_authorized = False, gd_code = [], gd_reason = [], gd_grant = None, gd_repository = [],
     gd_risk = [], gd_auto_merge = False, gd_consumed = False, gd_replay = False\<rparr>"

text \<open>The tests of the request against the grant, with code and reason of a denial.\<close>

definition scope_problem :: "run_grant \<Rightarrow> bytes \<Rightarrow> bytes \<Rightarrow> (bytes \<times> bytes) option" where
  "scope_problem g repository risk =
     (if rg_effective g \<noteq> Eff_Active \<and> rg_effective g \<noteq> Eff_Attempts_Exhausted
      then Some (effective_name (rg_effective g), ''run grant is '' @ effective_name (rg_effective g))
      else if repository = [] then Some (''repository_required'', ''repository (owner/name) is required to use the run grant'')
      else if repository \<notin> set (g_repositories (rg_row g))
      then Some (''repository_out_of_scope'', ''repository '' @ repository @ '' is not in the run grant scope'')
      else if risk_rank risk = 0
      then Some (''risk_level_required'', ''risk_level must be one of routine, standard, review, signoff to use the run grant'')
      else None)"

text \<open>The closure \<^verbatim>\<open>deny\<close>: the denial is recorded and committed.\<close>

definition deny_use :: "(nat \<Rightarrow> bytes) \<Rightarrow> bytes \<Rightarrow> grant_use \<Rightarrow> bytes \<Rightarrow> run_grant \<Rightarrow> grant_decision \<Rightarrow> bytes \<Rightarrow> bytes \<Rightarrow>
    int \<Rightarrow> plan_db \<Rightarrow> plan_db \<times> (plan_error, grant_decision) result" where
  "deny_use ids plan x key_hash g d code reason now db =
     run_tx db
       (insert_event (ids 0) plan (gu_task x) ''plan.run_grant.fallback'' reason (gu_principal x)
         (JObj [(''grant_id'', JStr (g_id (rg_row g))), (''code'', JStr code), (''repository'', JStr (gd_repository d)),
           (''risk_level'', JStr (gd_risk d)), (''idempotency_key_sha256'', JStr key_hash),
           (''effective_status'', JStr (effective_name (rg_effective g)))]) now db)
       (\<lambda>_. Inr (d\<lparr>gd_code := code, gd_reason := reason\<rparr>))"

definition allow_use :: "(nat \<Rightarrow> bytes) \<Rightarrow> bytes \<Rightarrow> grant_use \<Rightarrow> bytes \<Rightarrow> run_grant \<Rightarrow> grant_decision \<Rightarrow> int \<Rightarrow> plan_db \<Rightarrow>
    plan_db \<Rightarrow> plan_db \<times> (plan_error, grant_decision) result" where
  "allow_use ids plan x key_hash g d now db db1 =
     run_tx db
       (insert_event (ids 0) plan (gu_task x) ''plan.run_grant.used'' [] (gu_principal x)
         (JObj [(''grant_id'', JStr (g_id (rg_row g))), (''repository'', JStr (gd_repository d)),
           (''risk_level'', JStr (gd_risk d)), (''auto_merge_allowed'', JBool (gd_auto_merge d)),
           (''attempt_consumed'', JBool (gd_consumed d)), (''replay'', JBool (gd_replay d)),
           (''attempts_used'', JNum (show_int (g_attempts_used (rg_row g)))),
           (''max_attempts'', JNum (show_int (g_max_attempts (rg_row g)))),
           (''idempotency_key_sha256'', JStr key_hash)]) now db1)
       (\<lambda>_. Inr (d\<lparr>gd_grant := Some g\<rparr>))"

definition consume_attempt :: "bool \<Rightarrow> int \<Rightarrow> grant_row \<Rightarrow> grant_row" where
  "consume_attempt fresh now g =
     g\<lparr>g_attempts_used := g_attempts_used g + (if fresh then 1 else 0),
       g_first_used := (case g_first_used g of None \<Rightarrow> Some (unix_milli now) | Some f \<Rightarrow> Some f),
       g_updated := unix_milli now\<rparr>"

definition insert_use :: "use_row \<Rightarrow> plan_db \<Rightarrow> (plan_error, plan_db) result" where
  "insert_use u db =
     (if (u_grant u, u_task u, u_key u) \<in> (\<lambda>v. (u_grant v, u_task v, u_key v)) ` set (pd_uses db) \<or>
         u_grant u \<notin> g_id ` set (pd_grants db) then Inl E_Store
      else Inr (db\<lparr>pd_uses := pd_uses db @ [u]\<rparr>))"

text \<open>The local copy after a use: the first use is the clock reading itself.\<close>

definition used_grant :: "run_grant \<Rightarrow> bool \<Rightarrow> int \<Rightarrow> plan_status \<Rightarrow> run_grant" where
  "used_grant g fresh now status =
     compute_effective
       ((rg_row g)\<lparr>g_attempts_used := g_attempts_used (rg_row g) + (if fresh then 1 else 0)\<rparr>)
       (case rg_first_used g of None \<Rightarrow> Some now | Some f \<Rightarrow> Some f) now status"

definition authorize_grant :: "(nat \<Rightarrow> bytes) \<Rightarrow> bytes \<Rightarrow> bytes \<Rightarrow> plan_row \<Rightarrow> run_grant \<Rightarrow> grant_use \<Rightarrow> bytes \<Rightarrow>
    grant_decision \<Rightarrow> int \<Rightarrow> plan_db \<Rightarrow> plan_db \<times> (plan_error, grant_decision) result" where
  "authorize_grant ids session plan item g x key_hash d0 now db =
     (let gid = g_id (rg_row g);
          d = d0\<lparr>gd_auto_merge := auto_merge_allowed (gd_risk d0) (g_ceiling (rg_row g))\<rparr>
      in if list_ex (\<lambda>u. u_grant u = gid \<and> u_task u = gu_task x \<and> u_key u = key_hash) (pd_uses db)
         then allow_use ids plan x key_hash g (d\<lparr>gd_authorized := True, gd_replay := True\<rparr>) now db db
         else
           let fresh = (case find_dispatch db session plan (gu_task x) of
                            None \<Rightarrow> True | Some y \<Rightarrow> x_status y \<noteq> Dispatched)
           in if fresh \<and> g_attempts_used (rg_row g) \<ge> g_max_attempts (rg_row g)
              then deny_use ids plan x key_hash g d (effective_name Eff_Attempts_Exhausted)
                     (''run grant used all '' @ show_int (g_max_attempts (rg_row g)) @ '' attempts'') now db
              else (case insert_use
                       \<lparr>u_grant = gid, u_task = gu_task x, u_key = key_hash, u_repository = gd_repository d,
                        u_risk = gd_risk d, u_consumed = fresh, u_principal = gu_principal x,
                        u_created = unix_milli now\<rparr> db of
                      Inl e \<Rightarrow> (db, Inl e)
                    | Inr db1 \<Rightarrow>
                        allow_use ids plan x key_hash (used_grant g fresh now (p_status item))
                          (d\<lparr>gd_authorized := True, gd_consumed := fresh\<rparr>) now db
                          (update_grant gid is_active (consume_attempt fresh now) db1)))"

definition authorize_run_grant_use :: "(bytes \<Rightarrow> bytes) \<Rightarrow> (bytes \<Rightarrow> bytes) \<Rightarrow> (nat \<Rightarrow> bytes) \<Rightarrow> bytes \<Rightarrow> bytes \<Rightarrow>
    grant_use \<Rightarrow> int \<Rightarrow> plan_db \<Rightarrow> plan_db \<times> (plan_error, grant_decision) result" where
  "authorize_run_grant_use lower digest ids session plan x now db =
     (if session = [] \<or> plan = [] \<or> gu_task x = [] \<or> gu_principal x = [] \<or> trim_space (gu_key x) = []
      then (db, Inl E_Invalid_Input)
      else case load_plan_header db session plan of
             Inl e \<Rightarrow> (db, Inl e)
           | Inr item \<Rightarrow>
               (case active_grant db session plan of
                  None \<Rightarrow> (db, Inr (no_decision\<lparr>gd_code := ''no_active_grant'',
                            gd_reason := ''this Plan has no active run grant''\<rparr>))
                | Some row \<Rightarrow>
                    let g = scan_grant row now (p_status item);
                        repository = normalize_repository lower (gu_repository x);
                        risk = trim_space (gu_risk x);
                        key_hash = digest (trim_space (gu_key x));
                        d = no_decision\<lparr>gd_grant := Some g, gd_repository := repository, gd_risk := risk\<rparr>
                    in case find_task_header db plan (gu_task x) of
                         Inl e \<Rightarrow> (db, Inl e)
                       | Inr _ \<Rightarrow>
                           (case scope_problem g repository risk of
                              Some (code, reason) \<Rightarrow> deny_use ids plan x key_hash g d code reason now db
                            | None \<Rightarrow> authorize_grant ids session plan item g x key_hash d now db)))"

end
