(* ===== verification/Plan_System.thy ===== *)
theory Plan_System
  imports Run_Grant
begin

text \<open>
  The plan service as a system: \<open>plan_call\<close> lists its state-changing operations with everything they
  read from outside, \<open>perform\<close> runs one on the tables, \<open>plan_reachable\<close> are the tables any sequence of
  calls leads to, starting empty. \<open>plan_ok\<close> is the invariant of plans, tasks, evidence and dispatches,
  shown for each operation in \<open>Plan_Invariant\<close>; here are the lemmas about the statements the
  operations share.
\<close>

section \<open>Calls\<close>

datatype plan_call =
    Create_Call "nat \<Rightarrow> bytes" bytes bytes create_input int
  | Start_Call evidence_world "nat \<Rightarrow> bytes" bytes bytes bytes bytes int
  | Complete_Call evidence_world "nat \<Rightarrow> bytes" bytes bytes bytes bytes "evidence_input list" int
  | Block_Call evidence_world "nat \<Rightarrow> bytes" bytes bytes bytes bytes bytes "evidence_input list" int
  | Replan_Call "nat \<Rightarrow> bytes" bytes bytes bytes replan_input int
  | Deliver_Call evidence_world "nat \<Rightarrow> bytes" bytes bytes bytes "nat \<Rightarrow> int"
  | Claim_Call bytes bytes bytes bytes routing int int
  | Settle_Call "nat \<Rightarrow> bytes" bytes bytes multica_dispatch bytes bytes int
  | Grant_Call "bytes \<Rightarrow> bytes" "int \<Rightarrow> bytes" "nat \<Rightarrow> bytes" bytes bytes bytes grant_input "nat \<Rightarrow> int"
  | Revoke_Call "nat \<Rightarrow> bytes" bytes bytes bytes bytes "nat \<Rightarrow> int"
  | Usage_Call "nat \<Rightarrow> bytes" bytes bytes bytes int "nat \<Rightarrow> int"
  | Authorize_Call "bytes \<Rightarrow> bytes" "bytes \<Rightarrow> bytes" "nat \<Rightarrow> bytes" bytes bytes grant_use int

fun perform :: "plan_call \<Rightarrow> plan_db \<Rightarrow> plan_db" where
  "perform (Create_Call ids session who input now) db = fst (create_plan ids session who input now db)"
| "perform (Start_Call w ids session plan i who now) db = fst (start_task w ids session plan i who now db)"
| "perform (Complete_Call w ids session plan i who evidence now) db =
     fst (complete_task w ids session plan i who evidence now db)"
| "perform (Block_Call w ids session plan i who reason evidence now) db =
     fst (block_task w ids session plan i who reason evidence now db)"
| "perform (Replan_Call ids session plan who input now) db = fst (replan ids session plan who input now db)"
| "perform (Deliver_Call w ids session plan who t) db = fst (deliver w ids session plan who t db)"
| "perform (Claim_Call session plan i who routing lease now) db =
     fst (claim_dispatch session plan i who routing lease now db)"
| "perform (Settle_Call ids session who d issue identifier now) db =
     fst (complete_dispatch ids session who d issue identifier now db)"
| "perform (Grant_Call lower stamp ids session plan who x t) db =
     fst (create_run_grant lower stamp ids session plan who x t db)"
| "perform (Revoke_Call ids session plan who reason t) db = fst (revoke_run_grant ids session plan who reason t db)"
| "perform (Usage_Call ids session plan who used t) db = fst (report_run_grant_usage ids session plan who used t db)"
| "perform (Authorize_Call lower digest ids session plan x now) db =
     fst (authorize_run_grant_use lower digest ids session plan x now db)"

definition empty_plans :: "(bytes \<times> bytes) list \<Rightarrow> plan_db" where
  "empty_plans sessions =
     \<lparr>pd_sessions = sessions, pd_plans = [], pd_tasks = [], pd_evidence = [], pd_events = [], pd_dispatches = [],
      pd_grants = [], pd_uses = []\<rparr>"

inductive plan_reachable :: "plan_db \<Rightarrow> bool" where
  plan_init: "plan_reachable (empty_plans sessions)"
| plan_step: "plan_reachable db \<Longrightarrow> plan_reachable (perform c db)"

lemma run_calls: "plan_reachable db \<Longrightarrow> plan_reachable (fold perform cs db)"
  by (induction cs arbitrary: db) (simp_all add: plan_step)

section \<open>The graph of the rows\<close>

definition plan_row_deps :: "task_row list \<Rightarrow> bytes \<Rightarrow> bytes list" where
  "plan_row_deps rows i = (case find (\<lambda>r. t_id r = i) rows of None \<Rightarrow> [] | Some r \<Rightarrow> t_depends_on r)"

definition plan_task_ids :: "task_row list \<Rightarrow> bytes \<Rightarrow> bytes set" where
  "plan_task_ids rows plan = {t_id r | r. r \<in> set rows \<and> t_plan r = plan}"

definition plan_graph_ok :: "task_row list \<Rightarrow> bytes \<Rightarrow> bool" where
  "plan_graph_ok rows plan \<longleftrightarrow> valid_graph (plan_task_ids rows plan) (plan_row_deps rows)"

lemma find_row: "distinct (map t_id rows) \<Longrightarrow> r \<in> set rows \<Longrightarrow> find (\<lambda>u. t_id u = t_id r) rows = Some r"
  by (induction rows) (auto simp: image_iff)

lemma plan_row_deps_distinct: "distinct (map t_id rows) \<Longrightarrow> r \<in> set rows \<Longrightarrow> plan_row_deps rows (t_id r) = t_depends_on r"
  by (simp add: plan_row_deps_def find_row)

lemma plan_row_deps_map:
  "(\<And>r. r \<in> set rows \<Longrightarrow> t_id (f r) = t_id r \<and> t_depends_on (f r) = t_depends_on r) \<Longrightarrow>
     plan_row_deps (map f rows) = plan_row_deps rows"
  unfolding plan_row_deps_def by (induction rows) (auto simp: fun_eq_iff)

text \<open>A plan's part of the graph: its identifiers with their dependencies.\<close>

definition dep_pairs :: "task_row list \<Rightarrow> bytes \<Rightarrow> (bytes \<times> bytes list) set" where
  "dep_pairs rows plan = (\<lambda>r. (t_id r, t_depends_on r)) ` {r \<in> set rows. t_plan r = plan}"

lemma plan_task_ids_pairs: "plan_task_ids rows plan = fst ` dep_pairs rows plan"
  by (auto simp: plan_task_ids_def dep_pairs_def image_image)

lemma plan_row_deps_pairs:
  assumes "distinct (map t_id rows)" "(n, ds) \<in> dep_pairs rows plan"
  shows "plan_row_deps rows n = ds"
proof -
  obtain r where "r \<in> set rows" "n = t_id r" "ds = t_depends_on r" using assms(2) by (auto simp: dep_pairs_def)
  then show ?thesis using plan_row_deps_distinct [OF assms(1)] by simp
qed

lemma plan_graph_cong:
  assumes "distinct (map t_id rows)" "distinct (map t_id rows')" "dep_pairs rows plan = dep_pairs rows' plan"
  shows "plan_graph_ok rows plan \<longleftrightarrow> plan_graph_ok rows' plan"
proof -
  have ids: "plan_task_ids rows plan = plan_task_ids rows' plan" using assms(3) by (simp add: plan_task_ids_pairs)
  have "set (plan_row_deps rows n) = set (plan_row_deps rows' n)" if n: "n \<in> plan_task_ids rows plan" for n
  proof -
    obtain ds where "(n, ds) \<in> dep_pairs rows plan" using n by (auto simp: plan_task_ids_pairs)
    then show ?thesis using plan_row_deps_pairs [OF assms(1)] plan_row_deps_pairs [OF assms(2)] assms(3) by metis
  qed
  from valid_graph_cong [OF this] show ?thesis by (simp add: plan_graph_ok_def ids)
qed

lemma graph_of_tasks:
  assumes rows: "distinct (map t_id rows)" and tasks: "distinct (map t_id tasks)"
    and same: "dep_pairs rows plan = (\<lambda>t. (t_id t, t_depends_on t)) ` set (tasks :: task list)"
  shows "plan_graph_ok rows plan \<longleftrightarrow> task_graph_valid tasks"
proof -
  have ids: "plan_task_ids rows plan = set (map t_id tasks)" by (simp add: plan_task_ids_pairs same image_image)
  have "set (plan_row_deps rows n) = set (task_deps tasks n)" if n: "n \<in> plan_task_ids rows plan" for n
  proof -
    obtain t where t: "t \<in> set tasks" "t_id t = n" using n unfolding ids by auto
    then have "(n, t_depends_on t) \<in> dep_pairs rows plan" unfolding same by auto
    then show ?thesis using plan_row_deps_pairs [OF rows] task_deps_distinct [OF tasks t(1)] t(2) by metis
  qed
  from valid_graph_cong [OF this] show ?thesis
    by (simp add: plan_graph_ok_def task_graph_valid_def ids del: set_map)
qed

section \<open>Loaded tasks\<close>

lemma load_task_fields [simp]:
  "t_id (load_task db p r) = t_id r" "t_plan (load_task db p r) = t_plan r"
  "t_ordinal (load_task db p r) = t_ordinal r" "t_title (load_task db p r) = t_title r"
  "t_description (load_task db p r) = t_description r" "t_status (load_task db p r) = t_status r"
  "t_depends_on (load_task db p r) = t_depends_on r" "t_completed (load_task db p r) = t_completed r"
  "t_evidence (load_task db p r) = load_evidence db p (t_id r)"
  by (simp_all add: load_task_def task_row.defs task.defs)

lemma set_load_tasks: "set (load_tasks db p) = load_task db p ` {r \<in> set (pd_tasks db). t_plan r = p}"
  by (simp add: load_tasks_def)

lemma distinct_load_tasks: "distinct (map t_id (pd_tasks db)) \<Longrightarrow> distinct (map t_id (load_tasks db p))"
  by (auto simp: load_tasks_def comp_def distinct_map intro: inj_on_subset)

lemma load_tasks_graph:
  assumes "distinct (map t_id (pd_tasks db))"
  shows "task_graph_valid (load_tasks db p) \<longleftrightarrow> plan_graph_ok (pd_tasks db) p"
  by (rule graph_of_tasks [OF assms distinct_load_tasks [OF assms], symmetric])
    (auto simp: set_load_tasks dep_pairs_def image_image)

lemma load_plan_ok:
  "load_plan db session plan = Inr item \<Longrightarrow>
     find_plan_row db session plan = Some (plan_row.truncate item) \<and> p_id item = plan \<and> p_session item = session \<and>
     pl_tasks item = load_tasks db plan"
  by (auto simp: load_plan_def find_plan_row_def Let_def plan_row.defs plan.defs dest: find_Some_in split: option.splits)

end
