(* ===== verification/Plan_Invariant.thy ===== *)
theory Plan_Invariant
  imports Plan_System
begin

text \<open>
  The invariant \<open>plan_ok\<close> of the plan tables and its preservation by every call: identifiers are
  unique, the tasks of a plan form a closed acyclic graph, a completed task has validated evidence, a
  completed plan has only completed tasks, a plan that is still ready has none begun, and a task that
  was handed to an issue has left the state todo.
\<close>

section \<open>The invariant\<close>

definition rows_ok :: "plan_row list \<Rightarrow> task_row list \<Rightarrow> bool" where
  "rows_ok ps ts \<longleftrightarrow> distinct (map p_id ps) \<and> distinct (map t_id ts) \<and>
     distinct (map (\<lambda>r. (t_plan r, t_ordinal r)) ts) \<and>
     (\<forall>r \<in> set ts. t_plan r \<in> p_id ` set ps \<and> t_status r \<noteq> T_Skipped)"

definition graphs_ok :: "task_row list \<Rightarrow> bool" where
  "graphs_ok ts \<longleftrightarrow> (\<forall>plan. plan_graph_ok ts plan)"

definition statuses_ok :: "plan_row list \<Rightarrow> task_row list \<Rightarrow> bool" where
  "statuses_ok ps ts \<longleftrightarrow> (\<forall>p \<in> set ps. p_status p \<noteq> P_Cancelled \<and>
     (\<forall>r \<in> set ts. t_plan r = p_id p \<longrightarrow>
        (p_status p = P_Completed \<longrightarrow> t_status r = T_Completed) \<and> (p_status p = P_Ready \<longrightarrow> t_status r = T_Todo)))"

definition evidence_ok :: "task_row list \<Rightarrow> evidence list \<Rightarrow> bool" where
  "evidence_ok ts es \<longleftrightarrow>
     (\<forall>e \<in> set es. e_validated e \<and> (\<exists>r \<in> set ts. t_id r = e_task e \<and> t_plan r = e_plan e)) \<and>
     (\<forall>r \<in> set ts. t_status r = T_Completed \<longrightarrow> (\<exists>e \<in> set es. e_task e = t_id r))"

definition dispatches_ok :: "task_row list \<Rightarrow> dispatch_row list \<Rightarrow> bool" where
  "dispatches_ok ts xs \<longleftrightarrow> distinct (map x_task xs) \<and>
     (\<forall>x \<in> set xs. \<exists>r \<in> set ts. t_id r = x_task x \<and> t_plan r = x_plan x \<and>
        (x_status x = Dispatched \<longrightarrow> t_status r \<noteq> T_Todo))"

definition plan_ok :: "plan_db \<Rightarrow> bool" where
  "plan_ok db \<longleftrightarrow> rows_ok (pd_plans db) (pd_tasks db) \<and> graphs_ok (pd_tasks db) \<and>
     statuses_ok (pd_plans db) (pd_tasks db) \<and> evidence_ok (pd_tasks db) (pd_evidence db) \<and>
     dispatches_ok (pd_tasks db) (pd_dispatches db)"

lemma plan_ok_empty: "plan_ok (empty_plans sessions)"
  by (simp add: plan_ok_def rows_ok_def graphs_ok_def statuses_ok_def evidence_ok_def dispatches_ok_def empty_plans_def
      plan_graph_ok_def plan_task_ids_def valid_graph_def closed_deps_def dep_edges_def acyclic_def)

lemma plan_ok_cong:
  "pd_plans db' = pd_plans db \<Longrightarrow> pd_tasks db' = pd_tasks db \<Longrightarrow> pd_evidence db' = pd_evidence db \<Longrightarrow>
   pd_dispatches db' = pd_dispatches db \<Longrightarrow> plan_ok db' \<longleftrightarrow> plan_ok db"
  by (simp add: plan_ok_def)

section \<open>What a successful statement does\<close>

lemma run_tx_fst: "fst (run_tx db r k) = (case r of Inl e \<Rightarrow> db | Inr db' \<Rightarrow> db')"
  by (simp add: run_tx_def split: sum.splits)

lemma run_tx_rule: "P db \<Longrightarrow> (\<And>db'. r = Inr db' \<Longrightarrow> P db') \<Longrightarrow> P (fst (run_tx db r k))"
  by (auto simp: run_tx_fst split: sum.splits)

lemma insert_event_ok: "insert_event i plan task ty reason who payload now db = Inr db' \<Longrightarrow> \<exists>ev. db' = db\<lparr>pd_events := ev\<rparr>"
  by (auto simp: insert_event_def split: if_splits)

lemma map_result_ok: "map_result f xs = Inr ys \<Longrightarrow> length ys = length xs"
  by (induction xs arbitrary: ys) auto

lemma insert_evidence_batch_ok:
  assumes "insert_evidence_batch w ids session plan task who inputs now db = Inr db'"
  shows "\<exists>new. db' = db\<lparr>pd_evidence := pd_evidence db @ new\<rparr> \<and> length new = length inputs \<and>
    (\<forall>e \<in> set new. e_validated e \<and> e_plan e = plan \<and> e_task e = task)"
proof (cases "inputs = []")
  case True
  then show ?thesis using assms by (intro exI [of _ "[]"]) (simp add: insert_evidence_batch_def)
next
  case False
  with assms obtain normalized events where
    n: "map_result normalize_evidence inputs = Inr normalized"
       "validate_evidence_refs w db session normalized = Inr events"
    and db': "insert_evidence_rows (map (evidence_row ids plan task who now) (enumerate 0 (zip normalized events))) db = Inr db'"
    (is "insert_evidence_rows ?new db = _")
    by (auto simp: insert_evidence_batch_def)
  have "length ?new = length inputs"
    using map_result_ok [OF n(1)] map_result_ok [OF n(2) [unfolded validate_evidence_refs_def]] by simp
  moreover have "\<forall>e \<in> set ?new. e_validated e \<and> e_plan e = plan \<and> e_task e = task"
    by (auto simp: evidence_row_def)
  moreover have "db' = db\<lparr>pd_evidence := pd_evidence db @ ?new\<rparr>"
    using db' by (auto simp: insert_evidence_rows_def Let_def split: if_splits)
  ultimately show ?thesis by blast
qed

lemma find_plan_row_ok:
  "find_plan_row db session plan = Some p \<Longrightarrow> p \<in> set (pd_plans db) \<and> p_id p = plan \<and> p_session p = session"
  by (auto simp: find_plan_row_def dest: find_Some_in)

lemma loaded_task:
  assumes "load_plan db session plan = Inr item" "find_task (pl_tasks item) i = Inr t"
  obtains p r where "p \<in> set (pd_plans db)" "p_id p = plan" "p_session p = session" "p_status p = p_status item"
    "r \<in> set (pd_tasks db)" "t_plan r = plan" "t_id r = i" "t = load_task db plan r"
proof -
  note l = load_plan_ok [OF assms(1)]
  have "t \<in> set (load_tasks db plan)" "t_id t = i" using find_task_ok [OF assms(2)] l by auto
  then obtain r where "r \<in> set (pd_tasks db)" "t_plan r = plan" "t_id r = i" "t = load_task db plan r"
    by (auto simp: set_load_tasks)
  moreover have "p_status (plan_row.truncate item) = p_status item" by (simp add: plan_row.defs)
  ultimately show thesis using that find_plan_row_ok [of db session plan "plan_row.truncate item"] l by blast
qed

section \<open>Changing dispatches in place\<close>

lemma dispatches_ok_rewrite:
  assumes "dispatches_ok ts xs"
    and f: "\<And>x. x_task (f x) = x_task x \<and> x_plan (f x) = x_plan x"
    and status: "\<And>x r. x_status (f x) = Dispatched \<Longrightarrow> x_status x \<noteq> Dispatched \<Longrightarrow> r \<in> set ts \<Longrightarrow> t_id r = x_task x \<Longrightarrow>
      t_status r \<noteq> T_Todo"
  shows "dispatches_ok ts (map f xs)"
proof -
  have "map x_task (map f xs) = map x_task xs" using f by simp
  moreover have "\<exists>r \<in> set ts. t_id r = x_task (f x) \<and> t_plan r = x_plan (f x) \<and> (x_status (f x) = Dispatched \<longrightarrow> t_status r \<noteq> T_Todo)"
    if "x \<in> set xs" for x
  proof -
    obtain r where "r \<in> set ts" "t_id r = x_task x" "t_plan r = x_plan x" "x_status x = Dispatched \<longrightarrow> t_status r \<noteq> T_Todo"
      using assms(1) \<open>x \<in> set xs\<close> unfolding dispatches_ok_def by blast
    then show ?thesis using f status by (intro bexI [of _ r]) auto
  qed
  ultimately show ?thesis using assms(1) unfolding dispatches_ok_def by (simp del: map_map)
qed

section \<open>Changing tasks in place\<close>

text \<open>A function on rows that leaves identifier, plan, ordinal and dependencies alone.\<close>

definition keeps_task :: "(task_row \<Rightarrow> task_row) \<Rightarrow> task_row list \<Rightarrow> bool" where
  "keeps_task f ts \<longleftrightarrow> (\<forall>r \<in> set ts. t_id (f r) = t_id r \<and> t_plan (f r) = t_plan r \<and> t_ordinal (f r) = t_ordinal r \<and>
     t_depends_on (f r) = t_depends_on r)"

lemma keeps_task_maps:
  assumes "keeps_task f ts"
  shows "map t_id (map f ts) = map t_id ts" "map t_plan (map f ts) = map t_plan ts"
    "map (\<lambda>r. (t_plan r, t_ordinal r)) (map f ts) = map (\<lambda>r. (t_plan r, t_ordinal r)) ts"
  using assms by (simp_all add: keeps_task_def)

lemma graphs_ok_map: "keeps_task f ts \<Longrightarrow> graphs_ok (map f ts) = graphs_ok ts"
proof -
  assume f: "keeps_task f ts"
  have "plan_task_ids (map f ts) plan = plan_task_ids ts plan" for plan
  proof -
    have "plan_task_ids (map f ts) plan = (\<lambda>r. t_id (f r)) ` {r \<in> set ts. t_plan (f r) = plan}"
      by (auto simp: plan_task_ids_def)
    also have "\<dots> = t_id ` {r \<in> set ts. t_plan r = plan}"
      using f by (intro image_cong) (auto simp: keeps_task_def)
    finally show ?thesis by (auto simp: plan_task_ids_def)
  qed
  moreover have "plan_row_deps (map f ts) = plan_row_deps ts"
    by (rule plan_row_deps_map) (use f in \<open>simp add: keeps_task_def\<close>)
  ultimately show ?thesis by (simp add: graphs_ok_def plan_graph_ok_def)
qed

lemma rows_ok_map:
  assumes "rows_ok ps ts" "keeps_task f ts" "\<And>r. r \<in> set ts \<Longrightarrow> t_status (f r) \<noteq> T_Skipped"
    "map p_id ps' = map p_id ps"
  shows "rows_ok ps' (map f ts)"
proof -
  have "p_id ` set ps' = p_id ` set ps" using assms(4) by (metis set_map)
  then show ?thesis
    using assms unfolding rows_ok_def keeps_task_maps [OF assms(2)] by (auto simp: keeps_task_def)
qed

lemma dispatches_ok_map:
  "dispatches_ok ts xs \<Longrightarrow> keeps_task f ts \<Longrightarrow> (\<And>r. r \<in> set ts \<Longrightarrow> t_status r \<noteq> T_Todo \<Longrightarrow> t_status (f r) \<noteq> T_Todo) \<Longrightarrow>
     dispatches_ok (map f ts) xs"
  unfolding dispatches_ok_def keeps_task_def by (simp add: image_iff) metis

lemma evidence_ok_map:
  assumes "evidence_ok ts es" "keeps_task f ts"
    and new: "\<And>e. e \<in> set new \<Longrightarrow> e_validated e \<and> (\<exists>r \<in> set ts. t_id r = e_task e \<and> t_plan r = e_plan e)"
    and completed: "\<And>r. r \<in> set ts \<Longrightarrow> t_status (f r) = T_Completed \<Longrightarrow> t_status r \<noteq> T_Completed \<Longrightarrow>
      \<exists>e \<in> set new. e_task e = t_id r"
  shows "evidence_ok (map f ts) (es @ new)"
proof -
  have "e_validated e \<and> (\<exists>r \<in> set ts. t_id r = e_task e \<and> t_plan r = e_plan e)" if "e \<in> set (es @ new)" for e
    using that assms(1) new by (auto simp: evidence_ok_def)
  moreover have "\<exists>e \<in> set (es @ new). e_task e = t_id r" if "r \<in> set ts" "t_status (f r) = T_Completed" for r
  proof (cases "t_status r = T_Completed")
    case True
    then show ?thesis using that(1) assms(1) by (auto simp: evidence_ok_def)
  next
    case False
    then show ?thesis using completed [OF that] by auto
  qed
  ultimately show ?thesis using assms(2) unfolding evidence_ok_def keeps_task_def by fastforce
qed

lemma statuses_ok_update:
  assumes "statuses_ok ps ts"
    and ps': "ps' = map (\<lambda>q. if c q then g q else q) ps"
    and moved: "\<And>q. q \<in> set ps \<Longrightarrow> c q \<Longrightarrow> p_id (g q) = p_id q \<and> (p_status (g q) = P_In_Progress \<or> p_status (g q) = P_Blocked \<or>
      p_status (g q) = P_Completed \<and> (\<forall>r \<in> set ts'. t_plan r = p_id q \<longrightarrow> t_status r = T_Completed))"
    and others: "\<And>q r. q \<in> set ps \<Longrightarrow> \<not> c q \<Longrightarrow> r \<in> set ts' \<Longrightarrow> t_plan r = p_id q \<Longrightarrow> r \<in> set ts"
  shows "statuses_ok ps' ts'"
  unfolding statuses_ok_def
proof
  fix p
  assume "p \<in> set ps'"
  then obtain q where q: "q \<in> set ps" "p = (if c q then g q else q)" unfolding ps' by auto
  show "p_status p \<noteq> P_Cancelled \<and> (\<forall>r \<in> set ts'. t_plan r = p_id p \<longrightarrow>
      (p_status p = P_Completed \<longrightarrow> t_status r = T_Completed) \<and> (p_status p = P_Ready \<longrightarrow> t_status r = T_Todo))"
  proof (cases "c q")
    case True
    then show ?thesis using moved [OF q(1)] q(2) by auto
  next
    case False
    then show ?thesis using assms(1) others [OF q(1)] q by (auto simp: statuses_ok_def)
  qed
qed

text \<open>The only row a statement on one plan touches.\<close>

lemma plan_row_unique:
  assumes "rows_ok ps ts" "p \<in> set ps" "q \<in> set ps" "p_id p = p_id q"
  shows "p = q"
  using assms by (auto simp: rows_ok_def distinct_map dest: inj_onD)

lemma task_row_unique:
  assumes "rows_ok ps ts" "r \<in> set ts" "u \<in> set ts" "t_id r = t_id u"
  shows "r = u"
  using assms by (auto simp: rows_ok_def distinct_map dest: inj_onD)

section \<open>Transitions\<close>

definition task_changed :: "bytes \<Rightarrow> bytes \<Rightarrow> (task_row \<Rightarrow> task_row) \<Rightarrow> task_row \<Rightarrow> task_row" where
  "task_changed plan i f r = (if t_id r = i \<and> t_plan r = plan then f r else r)"

definition plan_changed :: "bytes \<Rightarrow> bytes \<Rightarrow> (plan_row \<Rightarrow> plan_row) \<Rightarrow> plan_row \<Rightarrow> plan_row" where
  "plan_changed session plan g p = (if p_id p = plan \<and> p_session p = session then g p else p)"

text \<open>A task and its plan move to new states: the shape of a transition and of a settled dispatch.\<close>

definition task_moved :: "bytes \<Rightarrow> bytes \<Rightarrow> bytes \<Rightarrow> (task_row \<Rightarrow> task_row) \<Rightarrow> (plan_row \<Rightarrow> plan_row) \<Rightarrow> evidence list \<Rightarrow>
    dispatch_row list \<Rightarrow> plan_db \<Rightarrow> plan_db \<Rightarrow> bool" where
  "task_moved session plan i f g new xs db db' \<longleftrightarrow>
     pd_plans db' = map (plan_changed session plan g) (pd_plans db) \<and>
     pd_tasks db' = map (task_changed plan i f) (pd_tasks db) \<and>
     pd_evidence db' = pd_evidence db @ new \<and> pd_dispatches db' = xs \<and>
     pd_sessions db' = pd_sessions db \<and> pd_grants db' = pd_grants db \<and> pd_uses db' = pd_uses db"

lemma transition_tx_ok:
  assumes "transition_tx w ids session plan i who target ty reason evidence now db = Inr db'"
  obtains item r new where "load_plan db session plan = Inr item" "r \<in> set (pd_tasks db)" "t_plan r = plan" "t_id r = i"
    "transition_guard item (load_task db plan r) target = Inr ()" "length new = length evidence"
    "\<forall>e \<in> set new. e_validated e \<and> e_plan e = plan \<and> e_task e = i"
    "task_moved session plan i (set_task_status target now) (set_plan_status (status_after target (p_status item)) now)
       new (pd_dispatches db) db db'"
proof -
  from assms obtain item t u db1 where
    item: "load_plan db session plan = Inr item" and t: "find_task (pl_tasks item) i = Inr t"
    and guard: "transition_guard item t target = Inr u"
    and evidence: "insert_evidence_batch w ids session plan (t_id t) who evidence now
       (update_task plan (t_id t) (set_task_status target now) db) = Inr db1"
    and event: "insert_event (ids (length evidence)) plan (t_id t) ty reason who
         (JObj ((''status'', JStr (task_status_name target)) #
           (if evidence \<noteq> [] then [(''evidence_count'', JNum (show_nat (length evidence)))] else []))) now
         (update_plan session plan (set_plan_status (status_after target (p_status item)) now) db1) = Inr db'"
    unfolding transition_tx_def by (auto simp only: and_then_ok)
  obtain p r where r: "r \<in> set (pd_tasks db)" "t_plan r = plan" "t_id r = i" "t = load_task db plan r"
    using loaded_task [OF item t] by metis
  obtain new where new: "db1 = (update_task plan (t_id t) (set_task_status target now) db)
      \<lparr>pd_evidence := pd_evidence db @ new\<rparr>" "length new = length evidence"
    "\<forall>e \<in> set new. e_validated e \<and> e_plan e = plan \<and> e_task e = t_id t"
    using insert_evidence_batch_ok [OF evidence] by (auto simp: update_task_def)
  have "task_moved session plan i (set_task_status target now)
      (set_plan_status (status_after target (p_status item)) now) new (pd_dispatches db) db db'"
    using insert_event_ok [OF event] r
    by (auto simp: task_moved_def new(1) update_plan_def update_task_def plan_changed_def [abs_def] task_changed_def [abs_def])
  then show thesis using that item r guard new(2,3) by auto
qed

lemma task_moved_ok:
  assumes ok: "plan_ok db" and moved: "task_moved session plan i f g new xs db db'"
    and p: "p \<in> set (pd_plans db)" "p_id p = plan" "p_session p = session"
    and r: "r \<in> set (pd_tasks db)" "t_plan r = plan" "t_id r = i"
    and f: "\<And>u. t_id (f u) = t_id u \<and> t_plan (f u) = t_plan u \<and> t_ordinal (f u) = t_ordinal u \<and>
      t_depends_on (f u) = t_depends_on u"
    and status: "t_status (f r) \<noteq> T_Skipped" "t_status r \<noteq> T_Todo \<Longrightarrow> t_status (f r) \<noteq> T_Todo"
    and g: "\<And>q. p_id (g q) = p_id q"
      "p_status (g p) = P_In_Progress \<or> p_status (g p) = P_Blocked"
    and new: "\<And>e. e \<in> set new \<Longrightarrow> e_validated e \<and> e_plan e = plan \<and> e_task e = i"
      "t_status (f r) = T_Completed \<Longrightarrow> t_status r \<noteq> T_Completed \<Longrightarrow> new \<noteq> []"
    and xs: "dispatches_ok (map (task_changed plan i f) (pd_tasks db)) xs"
  shows "plan_ok db'"
proof -
  let ?ts = "pd_tasks db" and ?h = "task_changed plan i f"
  have db: "rows_ok (pd_plans db) ?ts" "graphs_ok ?ts" "statuses_ok (pd_plans db) ?ts" "evidence_ok ?ts (pd_evidence db)"
    using ok by (simp_all add: plan_ok_def)
  have keeps: "keeps_task ?h ?ts" using f by (simp add: keeps_task_def task_changed_def)
  have only: "u = r" if "u \<in> set ?ts" "t_id u = i" for u
    using task_row_unique [OF db(1) that(1) r(1)] that(2) r(3) by simp
  have "rows_ok (map (plan_changed session plan g) (pd_plans db)) (map ?h ?ts)"
  proof (rule rows_ok_map [OF db(1) keeps])
    show "t_status (?h u) \<noteq> T_Skipped" if "u \<in> set ?ts" for u
      using that only db(1) status(1) by (auto simp: task_changed_def rows_ok_def)
  qed (simp add: plan_changed_def g)
  moreover have "statuses_ok (map (plan_changed session plan g) (pd_plans db)) (map ?h ?ts)"
  proof (rule statuses_ok_update [OF db(3) map_cong [OF refl]])
    show "plan_changed session plan g q = (if p_id q = plan \<and> p_session q = session then g q else q)" for q
      by (simp add: plan_changed_def)
    show "u \<in> set ?ts" if "q \<in> set (pd_plans db)" "\<not> (p_id q = plan \<and> p_session q = session)"
      "u \<in> set (map ?h ?ts)" "t_plan u = p_id q" for q u
    proof -
      have "p_id q \<noteq> plan" using plan_row_unique [OF db(1) that(1) p(1)] that(2) p by auto
      then show ?thesis using that(3,4) f by (auto simp: task_changed_def split: if_splits)
    qed
  qed (use g p plan_row_unique [OF db(1) _ p(1)] in auto)
  moreover have "evidence_ok (map ?h ?ts) (pd_evidence db @ new)"
  proof (rule evidence_ok_map [OF db(4) keeps])
    show "e_validated e \<and> (\<exists>r \<in> set ?ts. t_id r = e_task e \<and> t_plan r = e_plan e)" if "e \<in> set new" for e
      using new(1) [OF that] r by auto
    show "\<exists>e \<in> set new. e_task e = t_id u"
      if u: "u \<in> set ?ts" "t_status (?h u) = T_Completed" "t_status u \<noteq> T_Completed" for u
    proof -
      have "u = r" using u only by (auto simp: task_changed_def split: if_splits)
      then have "new \<noteq> []" using u(2,3) new(2) r by (simp add: task_changed_def)
      then show ?thesis using new(1) \<open>u = r\<close> r(3) by (cases new) auto
    qed
  qed
  ultimately show ?thesis
    using moved xs db(2) by (simp add: plan_ok_def task_moved_def graphs_ok_map [OF keeps])
qed

lemma transition_guard_ok:
  assumes "transition_guard item t target = Inr u"
  shows "\<not> plan_closed (p_status item)"
    "target = T_In_Progress \<and> (t_status t = T_Todo \<or> t_status t = T_Blocked) \<and> dependencies_complete (pl_tasks item) t = Inr () \<or>
     (target = T_Completed \<or> target = T_Blocked) \<and> t_status t = T_In_Progress"
  using assms by (auto simp: transition_guard_def split: if_splits task_status.splits)

lemma status_after_open:
  assumes "\<not> plan_closed s" "s = P_Ready \<longrightarrow> target = T_In_Progress" "target = T_In_Progress \<or> target = T_Completed \<or> target = T_Blocked"
  shows "status_after target s = P_In_Progress \<or> status_after target s = P_Blocked"
  using assms by (cases s) (auto simp: status_after_def plan_closed_def)

lemma loaded_plan_row:
  assumes "rows_ok (pd_plans db) (pd_tasks db)" "load_plan db session plan = Inr item"
    and "p \<in> set (pd_plans db)" "p_id p = plan"
  shows "p_status p = p_status item \<and> p_session p = session"
proof -
  note l = load_plan_ok [OF assms(2)]
  then have "plan_row.truncate item \<in> set (pd_plans db)" "p_id (plan_row.truncate item) = plan"
    "p_session (plan_row.truncate item) = session"
    using find_plan_row_ok by blast+
  moreover from this have "plan_row.truncate item = p" using plan_row_unique [OF assms(1)] assms(3,4) by metis
  moreover have "p_status (plan_row.truncate item) = p_status item" by (simp add: plan_row.defs)
  ultimately show ?thesis by metis
qed

lemma transition_tx_keeps:
  assumes ok: "plan_ok db" and tx: "transition_tx w ids session plan i who target ty reason evidence now db = Inr db'"
    and evidence: "target = T_Completed \<longrightarrow> evidence \<noteq> []"
  shows "plan_ok db'"
proof -
  from tx obtain item r new where item: "load_plan db session plan = Inr item"
    and r: "r \<in> set (pd_tasks db)" "t_plan r = plan" "t_id r = i"
    and guard: "transition_guard item (load_task db plan r) target = Inr ()"
    and len: "length new = length evidence"
    and new: "\<forall>e \<in> set new. e_validated e \<and> e_plan e = plan \<and> e_task e = i"
    and moved: "task_moved session plan i (set_task_status target now)
       (set_plan_status (status_after target (p_status item)) now) new (pd_dispatches db) db db'"
    by (rule transition_tx_ok)
  have rows: "rows_ok (pd_plans db) (pd_tasks db)" using ok by (simp add: plan_ok_def)
  then obtain p where p: "p \<in> set (pd_plans db)" "p_id p = plan" using r by (auto simp: rows_ok_def)
  note row = loaded_plan_row [OF rows item p]
  note g = transition_guard_ok [OF guard]
  have target: "target = T_In_Progress \<or> target = T_Completed \<or> target = T_Blocked" using g(2) by blast
  have "p_status item = P_Ready \<longrightarrow> target = T_In_Progress"
    using ok g(2) r p row by (auto simp: plan_ok_def statuses_ok_def)
  from status_after_open [OF g(1) this target]
  have after: "status_after target (p_status item) = P_In_Progress \<or> status_after target (p_status item) = P_Blocked" .
  have "plan_ok db'"
  proof (rule task_moved_ok [OF ok moved p _ r])
    show "dispatches_ok (map (task_changed plan i (set_task_status target now)) (pd_tasks db)) (pd_dispatches db)"
      using ok target
      by (intro dispatches_ok_map) (auto simp: plan_ok_def keeps_task_def task_changed_def set_task_status_def)
  qed (use row after target new len evidence in \<open>auto simp: set_task_status_def set_plan_status_def\<close>)
  then show ?thesis .
qed

lemma transition_task_keeps: "plan_ok db \<Longrightarrow> plan_ok (fst (transition_task w ids session plan i who target ty reason evidence now db))"
proof -
  assume ok: "plan_ok db"
  have "plan_ok (fst (run_tx db (transition_tx w ids session plan i who target ty reason evidence now db) k))"
    if "target = T_Completed \<longrightarrow> evidence \<noteq> []" for k :: "plan_db \<Rightarrow> (plan_error, task) result"
    by (rule run_tx_rule [of plan_ok, OF ok]) (rule transition_tx_keeps [OF ok _ that])
  then show ?thesis using ok by (simp add: transition_task_def)
qed

section \<open>Dispatches\<close>

lemma claim_keeps:
  assumes "plan_ok db"
  shows "plan_ok (fst (claim_dispatch session plan i who routing lease now db))"
proof -
  have renew: "plan_ok (db\<lparr>pd_dispatches := renew_claims i who seen now (pd_dispatches db)\<rparr>)" for seen
  proof -
    have "dispatches_ok (pd_tasks db) (renew_claims i who seen now (pd_dispatches db))"
      using assms unfolding renew_claims_def
      by (intro dispatches_ok_rewrite) (auto simp: plan_ok_def split: if_splits)
    then show ?thesis using assms by (simp add: plan_ok_def)
  qed
  have insert: "plan_ok db'" if item: "load_plan db session plan = Inr item" "find_task (pl_tasks item) i = Inr t"
      and new: "insert_dispatch (new_dispatch session plan i who routing now) db = Inr db'" for item t db'
  proof -
    obtain r where "r \<in> set (pd_tasks db)" "t_plan r = plan" "t_id r = i"
      using loaded_task [OF item] by metis
    then show ?thesis using assms new
      by (auto simp: insert_dispatch_def plan_ok_def dispatches_ok_def new_dispatch_def split: if_splits prod.splits) blast
  qed
  show ?thesis using assms renew insert
    by (auto simp: claim_dispatch_def Let_def split: sum.splits option.splits)
qed

lemma settle_tx_ok:
  assumes "settle_tx ids session who item d issue identifier now db = Inr db'"
  defines "xs \<equiv> map (\<lambda>x. if being_created session (x_plan d) (x_task d) x then settle_dispatch issue identifier now x
      else x) (pd_dispatches db)"
  shows "if plan_closed (p_status item)
    then \<exists>ev. db' = db\<lparr>pd_dispatches := xs, pd_events := ev\<rparr>
    else task_moved session (x_plan d) (x_task d)
      (\<lambda>r. if t_status r = T_Todo then r\<lparr>t_status := T_In_Progress, t_updated := unix_milli now\<rparr> else r)
      (set_plan_status (status_after T_In_Progress (p_status item)) now) [] xs db db'"
  using assms(1) unfolding settle_tx_def Let_def xs_def
  by (auto dest!: insert_event_ok
      simp: task_moved_def update_plan_def update_task_def plan_changed_def [abs_def] task_changed_def [abs_def])

lemma settled_dispatches_ok:
  assumes "dispatches_ok ts xs" "\<And>r. r \<in> set ts \<Longrightarrow> t_id r = i \<Longrightarrow> t_status r \<noteq> T_Todo"
  shows "dispatches_ok ts (map (\<lambda>x. if being_created session plan i x then settle_dispatch issue identifier now x else x) xs)"
  using assms
  by (intro dispatches_ok_rewrite) (auto simp: settle_dispatch_def being_created_def split: if_splits)

lemma settle_keeps:
  assumes "plan_ok db"
  shows "plan_ok (fst (complete_dispatch ids session who d issue identifier now db))"
proof -
  have tx: "plan_ok db'" if item: "load_plan db session (x_plan d) = Inr item" and t: "find_task (pl_tasks item) (x_task d) = Inr t"
    and tx: "settle_tx ids session who item d issue identifier now db = Inr db'" for item t db'
  proof -
    have rows: "rows_ok (pd_plans db) (pd_tasks db)" using assms by (simp add: plan_ok_def)
    obtain p r where p: "p \<in> set (pd_plans db)" "p_id p = x_plan d" "p_session p = session" "p_status p = p_status item"
      and r: "r \<in> set (pd_tasks db)" "t_plan r = x_plan d" "t_id r = x_task d"
      using loaded_task [OF item t] by metis
    have only: "u = r" if "u \<in> set (pd_tasks db)" "t_id u = x_task d" for u
      using task_row_unique [OF rows that(1) r(1)] that(2) r(3) by simp
    note effect = settle_tx_ok [OF tx]
    show ?thesis
    proof (cases "plan_closed (p_status item)")
      case True
      then have "t_status r = T_Completed"
        using assms p r by (auto simp: plan_ok_def statuses_ok_def plan_closed_def)
      then have "\<And>u. u \<in> set (pd_tasks db) \<Longrightarrow> t_id u = x_task d \<Longrightarrow> t_status u \<noteq> T_Todo" using only by auto
      from settled_dispatches_ok [OF _ this] show ?thesis
        using assms effect True by (auto simp: plan_ok_def)
    next
      case False
      let ?f = "\<lambda>r. if t_status r = T_Todo then r\<lparr>t_status := T_In_Progress, t_updated := unix_milli now\<rparr> else r"
      from False effect have moved: "task_moved session (x_plan d) (x_task d) ?f
          (set_plan_status (status_after T_In_Progress (p_status item)) now) []
          (map (\<lambda>x. if being_created session (x_plan d) (x_task d) x then settle_dispatch issue identifier now x
             else x) (pd_dispatches db)) db db'" by simp
      have "dispatches_ok (map (task_changed (x_plan d) (x_task d) ?f) (pd_tasks db)) (pd_dispatches db)"
        using assms by (intro dispatches_ok_map) (auto simp: plan_ok_def keeps_task_def task_changed_def)
      moreover have "t_status u \<noteq> T_Todo"
        if "u \<in> set (map (task_changed (x_plan d) (x_task d) ?f) (pd_tasks db))" "t_id u = x_task d" for u
      proof -
        obtain u' where "u' \<in> set (pd_tasks db)" "u = task_changed (x_plan d) (x_task d) ?f u'" using \<open>u \<in> _\<close> by auto
        moreover from this \<open>t_id u = _\<close> have "t_id u' = x_task d" by (auto simp: task_changed_def split: if_splits)
        ultimately show ?thesis using only [of u'] r by (simp add: task_changed_def)
      qed
      ultimately have xs: "dispatches_ok (map (task_changed (x_plan d) (x_task d) ?f) (pd_tasks db))
          (map (\<lambda>x. if being_created session (x_plan d) (x_task d) x then settle_dispatch issue identifier now x
             else x) (pd_dispatches db))"
        by (rule settled_dispatches_ok)
      have "t_status r \<noteq> T_Skipped" using rows r by (simp add: rows_ok_def)
      then show ?thesis
        by (intro task_moved_ok [OF assms moved p(1,2,3) r _ _ _ _ _ _ _ xs])
          (use status_after_open [OF False, of T_In_Progress] in \<open>auto simp: set_plan_status_def split: if_splits\<close>)
    qed
  qed
  have run: "plan_ok (fst (run_tx db (settle_tx ids session who item d issue identifier now db) k))"
    if "load_plan db session (x_plan d) = Inr item" "find_task (pl_tasks item) (x_task d) = Inr t"
    for item t and k :: "plan_db \<Rightarrow> (plan_error, multica_dispatch) result"
    by (rule run_tx_rule [of plan_ok, OF assms]) (rule tx [OF that])
  show ?thesis
  proof (cases "and_then (load_plan db session (x_plan d)) (\<lambda>item. and_then (find_task (pl_tasks item) (x_task d)) (\<lambda>_. Inr item))")
    case (Inl e)
    then show ?thesis using assms by (simp add: complete_dispatch_def)
  next
    case (Inr item)
    then show ?thesis using assms run
      by (auto simp: complete_dispatch_def simp del: not_ex split: option.splits)
  qed
qed

section \<open>Delivering\<close>

lemma not_blank: "c \<in> set s \<Longrightarrow> c \<notin> set (concat space_encodings) \<Longrightarrow> trim_space s \<noteq> []"
  using trim_space_keeps by fastforce

lemma plain_letters: "CHR ''e'' \<notin> set (concat space_encodings)" "CHR ''t'' \<notin> set (concat space_encodings)"
  by code_simp+

lemma delivery_blockers_Nil:
  "delivery_blockers w session tasks now = [] \<longleftrightarrow>
     incomplete_tasks tasks = [] \<and> blocked_tasks tasks = [] \<and> failed_verification tasks = [] \<and>
     execution_blockers w session tasks = [] \<and> edit_blockers w session tasks = [] \<and> pending_approvals w session now = 0"
proof -
  have items: "trim_space x \<noteq> []" if "x \<in> set (execution_blockers w session tasks @ edit_blockers w session tasks)" for x
  proof -
    have "CHR ''e'' \<in> set x \<or> CHR ''t'' \<in> set x"
      using that by (auto simp: execution_blockers_def edit_blockers_def Let_def)
    then show ?thesis using not_blank plain_letters by metis
  qed
  have words: "trim_space ''tasks_incomplete'' \<noteq> []" "trim_space ''tasks_blocked'' \<noteq> []"
    "trim_space ''verification_failed'' \<noteq> []" "trim_space ''pending_approvals'' \<noteq> []"
    by (rule not_blank [of "CHR ''e''"], simp, rule plain_letters)+
  have none: "(\<forall>x \<in> set xs. trim_space x = []) \<longleftrightarrow> xs = []"
    if "set xs \<subseteq> set (execution_blockers w session tasks @ edit_blockers w session tasks)" for xs
    using that items by (cases xs) auto
  show ?thesis
    unfolding delivery_blockers_def unique_strings_Nil set_append ball_Un
    using words none [of "execution_blockers w session tasks"] none [of "edit_blockers w session tasks"]
    by auto
qed

lemma deliver_keeps:
  assumes "plan_ok db"
  shows "plan_ok (fst (deliver w ids session plan who t db))"
proof -
  have "plan_ok db'" if item: "load_plan db session plan = Inr item"
    and tx: "deliver_tx ids session plan who (delivery_blockers w session (pl_tasks item) (t 0)) (t 1) db = Inr db'" for item db'
  proof -
    let ?b = "delivery_blockers w session (pl_tasks item) (t 0)"
    have rows: "rows_ok (pd_plans db) (pd_tasks db)" using assms by (simp add: plan_ok_def)
    have db': "pd_plans db' = map (\<lambda>q. if p_id q = plan \<and> p_session q = session then deliver_row ?b (t 1) q else q) (pd_plans db)"
      "pd_tasks db' = map (\<lambda>r. r) (pd_tasks db)" "pd_evidence db' = pd_evidence db" "pd_dispatches db' = pd_dispatches db"
      using insert_event_ok [OF tx [unfolded deliver_tx_def]] by (auto simp: update_plan_def)
    have "rows_ok (pd_plans db') (pd_tasks db')"
      unfolding db' by (rule rows_ok_map [OF rows]) (use rows in \<open>auto simp: keeps_task_def rows_ok_def deliver_row_def\<close>)
    moreover have "statuses_ok (pd_plans db') (pd_tasks db')"
    proof (rule statuses_ok_update [where ts = "pd_tasks db", OF _ db'(1)])
      show "statuses_ok (pd_plans db) (pd_tasks db)" using assms by (simp add: plan_ok_def)
      have "t_status r = T_Completed" if b: "?b = []" and r: "r \<in> set (pd_tasks db)" "t_plan r = plan" for r
      proof -
        have "load_task db plan r \<in> set (pl_tasks item)"
          using load_plan_ok [OF item] r by (auto simp: set_load_tasks)
        then have "task_done (t_status r)"
          using b unfolding delivery_blockers_Nil incomplete_tasks_def
          by (auto simp: filter_empty_conv dest!: bspec)
        then show ?thesis using rows r by (auto simp: task_done_def rows_ok_def)
      qed
      then show "p_id (deliver_row ?b (t 1) q) = p_id q \<and> (p_status (deliver_row ?b (t 1) q) = P_In_Progress \<or>
          p_status (deliver_row ?b (t 1) q) = P_Blocked \<or> p_status (deliver_row ?b (t 1) q) = P_Completed \<and>
          (\<forall>r \<in> set (pd_tasks db'). t_plan r = p_id q \<longrightarrow> t_status r = T_Completed))"
        if "p_id q = plan \<and> p_session q = session" for q
        using that db'(2) by (auto simp: deliver_row_def)
    qed (simp add: db')
    ultimately show ?thesis using assms db' by (simp add: plan_ok_def)
  qed
  then show ?thesis using assms
    by (auto simp: deliver_def Let_def run_tx_fst split: sum.splits)
qed

section \<open>Creating\<close>

lemma insert_tasks_ok:
  assumes "insert_tasks plan tasks now db = Inr db'"
  shows "db' = db\<lparr>pd_tasks := pd_tasks db @ map (new_task_row plan now) tasks\<rparr>"
    "tasks \<noteq> [] \<Longrightarrow> plan \<in> p_id ` set (pd_plans db) \<and> distinct (map t_id (pd_tasks db')) \<and>
       distinct (map (\<lambda>r. (t_plan r, t_ordinal r)) (pd_tasks db'))"
  using assms by (auto simp: insert_tasks_def Let_def split: if_splits)

lemma new_task_row_fields [simp]:
  "t_id (new_task_row plan now t) = t_id t" "t_plan (new_task_row plan now t) = plan"
  "t_ordinal (new_task_row plan now t) = t_ordinal t" "t_status (new_task_row plan now t) = T_Todo"
  "t_depends_on (new_task_row plan now t) = t_depends_on t"
  by (simp_all add: new_task_row_def)

lemma evidence_ok_more: "evidence_ok ts es \<Longrightarrow> (\<And>r. r \<in> set new \<Longrightarrow> t_status r \<noteq> T_Completed) \<Longrightarrow> evidence_ok (ts @ new) es"
  by (auto simp: evidence_ok_def)

lemma dispatches_ok_more: "dispatches_ok ts xs \<Longrightarrow> dispatches_ok (ts @ new) xs"
  by (auto simp: dispatches_ok_def)

lemma dep_pairs_append: "dep_pairs (ts @ us) plan = dep_pairs ts plan \<union> dep_pairs us plan"
  by (auto simp: dep_pairs_def)

lemma dep_pairs_new: "dep_pairs (map (new_task_row plan now) tasks) q =
    (if q = plan then (\<lambda>t. (t_id t, t_depends_on t)) ` set tasks else {})"
proof -
  have "{r \<in> set (map (new_task_row plan now) tasks). t_plan r = q} =
      (if q = plan then new_task_row plan now ` set tasks else {})" by auto
  then show ?thesis by (simp add: dep_pairs_def image_image)
qed

lemma create_tx_keeps:
  assumes ok: "plan_ok db" and plan: "insert_plan p db = Inr db1" "p_status p = P_Ready"
    and tasks: "insert_tasks (p_id p) tasks now db1 = Inr db2"
    and valid: "task_graph_valid tasks" "tasks \<noteq> []" "distinct (map t_id tasks)"
    and event: "insert_event i (p_id p) [] ty reason who payload now db2 = Inr db3"
  shows "plan_ok db3"
proof -
  let ?new = "map (new_task_row (p_id p) now) tasks"
  have db: "rows_ok (pd_plans db) (pd_tasks db)" "graphs_ok (pd_tasks db)" "statuses_ok (pd_plans db) (pd_tasks db)"
    "evidence_ok (pd_tasks db) (pd_evidence db)" "dispatches_ok (pd_tasks db) (pd_dispatches db)"
    using ok by (simp_all add: plan_ok_def)
  have p: "p_id p \<notin> p_id ` set (pd_plans db)" "db1 = db\<lparr>pd_plans := pd_plans db @ [p]\<rparr>"
    using plan(1) by (auto simp: insert_plan_def split: if_splits)
  have old: "t_plan r \<noteq> p_id p" if "r \<in> set (pd_tasks db)" for r
  proof -
    have "t_plan r \<in> p_id ` set (pd_plans db)" using that db(1) by (simp add: rows_ok_def)
    then show ?thesis using p(1) by metis
  qed
  have db3: "pd_plans db3 = pd_plans db @ [p]" "pd_tasks db3 = pd_tasks db @ ?new"
    "pd_evidence db3 = pd_evidence db" "pd_dispatches db3 = pd_dispatches db"
    using insert_event_ok [OF event] insert_tasks_ok(1) [OF tasks] p(2) by auto
  have dist: "distinct (map t_id (pd_tasks db @ ?new))" "distinct (map (\<lambda>r. (t_plan r, t_ordinal r)) (pd_tasks db @ ?new))"
    using insert_tasks_ok(2) [OF tasks valid(2)] insert_tasks_ok(1) [OF tasks] p(2) by auto
  have "rows_ok (pd_plans db3) (pd_tasks db3)"
    using db(1) p(1) dist unfolding db3 rows_ok_def by auto
  moreover have "graphs_ok (pd_tasks db3)" unfolding graphs_ok_def
  proof
    fix q
    have none: "dep_pairs (pd_tasks db) (p_id p) = {}" using old by (auto simp: dep_pairs_def)
    show "plan_graph_ok (pd_tasks db3) q"
    proof (cases "q = p_id p")
      case True
      then have "dep_pairs (pd_tasks db3) q = (\<lambda>t. (t_id t, t_depends_on t)) ` set tasks"
        by (simp add: db3 dep_pairs_append dep_pairs_new none)
      from graph_of_tasks [OF dist(1) valid(3), of q] this show ?thesis using valid(1) by (simp add: db3)
    next
      case False
      have "distinct (map t_id (pd_tasks db))" using db(1) by (simp add: rows_ok_def)
      from plan_graph_cong [OF dist(1) this, of q] show ?thesis
        using db(2) False by (simp add: db3 dep_pairs_append dep_pairs_new graphs_ok_def)
    qed
  qed
  moreover have "statuses_ok (pd_plans db3) (pd_tasks db3)"
    using db(3) plan(2) old p(1) unfolding db3 statuses_ok_def by (auto simp: image_iff)
  moreover have "evidence_ok (pd_tasks db3) (pd_evidence db3)"
    unfolding db3 by (rule evidence_ok_more [OF db(4)]) auto
  ultimately show ?thesis using dispatches_ok_more [OF db(5)] by (simp add: plan_ok_def db3)
qed

text \<open>A creation either changes nothing or runs its three statements.\<close>

lemma create_plan_cases:
  obtains (refused) "fst (create_plan ids session who input now db) = db"
  | (created) p tasks i payload db1 db2 where "insert_plan p db = Inr db1" "p_status p = P_Ready"
      "insert_tasks (p_id p) tasks now db1 = Inr db2" "task_graph_valid tasks" "tasks \<noteq> []" "distinct (map t_id tasks)"
      "insert_event i (p_id p) [] ''plan.created'' [] who payload now db2 = Inr (fst (create_plan ids session who input now db))"
proof (cases "normalize_task_inputs ids (ci_tasks input)")
  case (Inl e)
  then show thesis using refused by (simp add: create_plan_def)
next
  case (Inr tasks)
  then have n: "inputs_named (ci_tasks input)" "task_graph_valid tasks" "tasks = input_tasks ids (ci_tasks input)"
    by (simp_all add: normalize_ok)
  have nonempty: "tasks \<noteq> []" using n by (auto simp: input_tasks_def inputs_named_def)
  have dist: "distinct (map t_id tasks)" if "insert_tasks plan tasks now db1 = Inr db2" for plan db1 db2
  proof -
    have "distinct (map t_id (pd_tasks db2))" using insert_tasks_ok(2) [OF that nonempty] by simp
    then show ?thesis using insert_tasks_ok(1) [OF that] by (simp add: comp_def)
  qed
  let ?plan = "ids (length (ci_tasks input))"
  let ?row = "\<lparr>p_id = ?plan, p_session = session, p_goal = trim_space (ci_goal input),
     p_summary = trim_space (ci_summary input), p_status = P_Ready, p_version = 1, p_created_by = who,
     p_created = unix_milli now, p_updated = unix_milli now, p_completed = None\<rparr>"
  let ?tx = "and_then (insert_plan ?row db) (\<lambda>db1. and_then (insert_tasks ?plan tasks now db1)
     (insert_event (ids (Suc (length (ci_tasks input)))) ?plan [] ''plan.created'' [] who
       (JObj [(''task_count'', JNum (show_nat (length tasks)))]) now))"
  have run: "fst (create_plan ids session who input now db) = db \<or>
      fst (create_plan ids session who input now db) = (case ?tx of Inl e \<Rightarrow> db | Inr db' \<Rightarrow> db')"
    using Inr by (auto simp: create_plan_def Let_def run_tx_fst)
  show thesis
  proof (cases ?tx)
    case (Inl e)
    then show thesis using run refused by simp
  next
    case (Inr db3)
    then obtain db1 db2 where tx: "insert_plan ?row db = Inr db1" "insert_tasks ?plan tasks now db1 = Inr db2"
      "insert_event (ids (Suc (length (ci_tasks input)))) ?plan [] ''plan.created'' [] who
         (JObj [(''task_count'', JNum (show_nat (length tasks)))]) now db2 = Inr db3" by auto
    show thesis using run refused created [of ?row db1 tasks db2] tx n(2) nonempty dist [OF tx(2)] Inr
      by (cases "fst (create_plan ids session who input now db) = db") simp_all
  qed
qed

lemma create_keeps:
  assumes "plan_ok db"
  shows "plan_ok (fst (create_plan ids session who input now db))"
  by (cases rule: create_plan_cases [of ids session who input now db])
    (use assms create_tx_keeps [OF assms] in simp_all)

section \<open>Replanning\<close>

text \<open>The rows a replanning keeps, and what it makes of them.\<close>

definition stays :: "bytes \<Rightarrow> task list \<Rightarrow> task_row \<Rightarrow> bool" where
  "stays plan tasks r \<longleftrightarrow> t_plan r \<noteq> plan \<or> t_id r \<in> t_id ` set tasks"

definition rewritten :: "bytes \<Rightarrow> task list \<Rightarrow> int \<Rightarrow> task_row \<Rightarrow> task_row" where
  "rewritten plan existing now r = (if t_plan r = plan then rewrite_task existing now r else r)"

definition task_stays :: "task_row list \<Rightarrow> bytes \<Rightarrow> task list \<Rightarrow> bytes \<Rightarrow> bool" where
  "task_stays rows plan tasks i \<longleftrightarrow> (\<forall>r \<in> set rows. t_id r = i \<longrightarrow> stays plan tasks r)"

lemma filter_all: "(\<And>x. x \<in> set xs \<Longrightarrow> P x) \<Longrightarrow> filter P xs = xs"
  by (induction xs) auto

text \<open>The statements of \<open>persist_replan\<close> in one equation.\<close>

lemma persist_replan_ok:
  assumes rows: "rows_ok (pd_plans db) (pd_tasks db)" and orig: "set original = plan_task_ids (pd_tasks db) plan"
    and run: "persist_replan plan original tasks now db = Inr db'"
  defines "existing \<equiv> filter (\<lambda>t. t_id t \<in> set original) tasks"
    and "added \<equiv> filter (\<lambda>t. t_id t \<notin> set original) tasks"
    and "kept \<equiv> filter (stays plan tasks) (pd_tasks db)"
  shows "pd_tasks db' = map (rewritten plan existing now) kept @ map (new_task_row plan now) added"
    "pd_plans db' = pd_plans db" "pd_sessions db' = pd_sessions db" "pd_grants db' = pd_grants db" "pd_uses db' = pd_uses db"
    "set (pd_evidence db') = {e \<in> set (pd_evidence db). task_stays (pd_tasks db) plan tasks (e_task e)}"
    "pd_dispatches db' = filter (\<lambda>x. task_stays (pd_tasks db) plan tasks (x_task x)) (pd_dispatches db)"
    "added \<noteq> [] \<Longrightarrow> distinct (map t_id (pd_tasks db')) \<and> distinct (map (\<lambda>r. (t_plan r, t_ordinal r)) (pd_tasks db'))"
proof -
  define removed where "removed = filter (\<lambda>i. i \<notin> t_id ` set tasks) original"
  define db1 where "db1 = (if removed \<noteq> [] then delete_tasks plan removed db else db)"
  define db2 where "db2 = (if existing \<noteq> [] then rewrite_tasks plan existing now db1 else db1)"
  have insert: "insert_tasks plan added now db2 = Inr db'"
    using run unfolding persist_replan_def Let_def existing_def added_def removed_def db1_def db2_def .
  let ?gone = "set (map t_id (filter (\<lambda>r. t_plan r = plan \<and> t_id r \<in> set removed) (pd_tasks db)))"
  have stay: "t_id r \<notin> ?gone \<longleftrightarrow> stays plan tasks r" if "r \<in> set (pd_tasks db)" for r
  proof -
    have "t_id r \<in> ?gone \<longleftrightarrow> t_plan r = plan \<and> t_id r \<in> set removed"
      using that task_row_unique [OF rows] by (auto simp: image_iff)
    moreover have "t_plan r = plan \<Longrightarrow> t_id r \<in> set original" using orig that by (auto simp: plan_task_ids_def)
    ultimately show ?thesis by (auto simp: stays_def removed_def)
  qed
  have gone: "i \<notin> ?gone \<longleftrightarrow> task_stays (pd_tasks db) plan tasks i" for i
    using stay by (auto simp: task_stays_def)
  have all: "stays plan tasks r" if "removed = []" "r \<in> set (pd_tasks db)" for r
    using stay [OF that(2)] that(1) by simp
  have everything: "task_stays (pd_tasks db) plan tasks i" if "removed = []" for i
    using all [OF that] by (simp add: task_stays_def)
  have db1: "pd_tasks db1 = kept \<and> pd_plans db1 = pd_plans db \<and> pd_sessions db1 = pd_sessions db \<and>
      pd_grants db1 = pd_grants db \<and> pd_uses db1 = pd_uses db \<and>
      set (pd_evidence db1) = {e \<in> set (pd_evidence db). task_stays (pd_tasks db) plan tasks (e_task e)} \<and>
      pd_dispatches db1 = filter (\<lambda>x. task_stays (pd_tasks db) plan tasks (x_task x)) (pd_dispatches db)"
  proof (cases "removed = []")
    case True
    then show ?thesis using all [OF True] everything [OF True] by (simp add: db1_def kept_def filter_all)
  next
    case False
    have "filter (\<lambda>r. t_id r \<notin> ?gone) (pd_tasks db) = kept" unfolding kept_def by (rule filter_cong [OF refl stay])
    then show ?thesis using False gone unfolding db1_def delete_tasks_def Let_def by auto
  qed
  have db2: "pd_tasks db2 = map (rewritten plan existing now) kept"
  proof (cases "existing = []")
    case True
    then have "rewritten plan existing now = (\<lambda>r. r)" by (simp add: fun_eq_iff rewritten_def rewrite_task_def)
    then show ?thesis using True db1 by (simp add: db2_def)
  next
    case False
    then show ?thesis using db1 by (simp add: db2_def rewrite_tasks_def rewritten_def [abs_def])
  qed
  have same: "pd_plans db2 = pd_plans db1" "pd_sessions db2 = pd_sessions db1" "pd_grants db2 = pd_grants db1"
    "pd_uses db2 = pd_uses db1" "pd_evidence db2 = pd_evidence db1" "pd_dispatches db2 = pd_dispatches db1"
    by (simp_all add: db2_def rewrite_tasks_def)
  note i = insert_tasks_ok [OF insert]
  show "pd_tasks db' = map (rewritten plan existing now) kept @ map (new_task_row plan now) added"
    using i(1) db2 by simp
  show "pd_plans db' = pd_plans db" "pd_sessions db' = pd_sessions db" "pd_grants db' = pd_grants db" "pd_uses db' = pd_uses db"
    "set (pd_evidence db') = {e \<in> set (pd_evidence db). task_stays (pd_tasks db) plan tasks (e_task e)}"
    "pd_dispatches db' = filter (\<lambda>x. task_stays (pd_tasks db) plan tasks (x_task x)) (pd_dispatches db)"
    using i(1) db1 same by simp_all
  show "distinct (map t_id (pd_tasks db')) \<and> distinct (map (\<lambda>r. (t_plan r, t_ordinal r)) (pd_tasks db'))" if "added \<noteq> []"
    using i(2) [OF that] by blast
qed

text \<open>What a replanning writes into a kept row.\<close>

definition row_kept :: "task_row \<Rightarrow> task_row \<Rightarrow> bool" where
  "row_kept r r' \<longleftrightarrow> t_id r' = t_id r \<and> t_plan r' = t_plan r \<and> t_ordinal r' = t_ordinal r \<and> t_status r' = t_status r \<and>
     (task_done (t_status r) \<longrightarrow> r'\<lparr>t_updated := t_updated r\<rparr> = r)"

lemma orig_ids: "set (map t_id (load_tasks db plan)) = plan_task_ids (pd_tasks db) plan"
  by (auto simp: set_load_tasks plan_task_ids_def image_iff)

lemma rewritten_row:
  fixes now :: int
  assumes rows: "rows_ok (pd_plans db) (pd_tasks db)" and inv: "replan_inv (load_tasks db plan) (tasks, mx, drawn)"
    and r: "r \<in> set (pd_tasks db)" "stays plan tasks r"
  defines "r' \<equiv> rewritten plan (filter (\<lambda>t. t_id t \<in> set (map t_id (load_tasks db plan))) tasks) now r"
  shows "row_kept r r'" "t_plan r \<noteq> plan \<Longrightarrow> r' = r"
    "t_plan r = plan \<Longrightarrow> \<exists>t \<in> set tasks. t_id t = t_id r \<and> t_depends_on r' = t_depends_on t"
proof -
  have "row_kept r r' \<and> (t_plan r \<noteq> plan \<longrightarrow> r' = r) \<and>
      (t_plan r = plan \<longrightarrow> (\<exists>t \<in> set tasks. t_id t = t_id r \<and> t_depends_on r' = t_depends_on t))"
  proof (cases "t_plan r = plan")
    case False
    then show ?thesis by (simp add: r'_def rewritten_def row_kept_def)
  next
    case True
    have known: "t_id r \<in> set (map t_id (load_tasks db plan))"
      unfolding orig_ids using r(1) True by (auto simp: plan_task_ids_def)
    let ?existing = "filter (\<lambda>t. t_id t \<in> set (map t_id (load_tasks db plan))) tasks"
    obtain t0 where t0: "t0 \<in> set tasks" "t_id t0 = t_id r" using r(2) True by (auto simp: stays_def)
    obtain t where found: "find (\<lambda>t. t_id t = t_id r) ?existing = Some t"
      using t0 known by (cases "find (\<lambda>t. t_id t = t_id r) ?existing") (auto simp: find_None_all)
    then have t: "t \<in> set tasks" "t_id t = t_id r" using find_Some_in [OF found] by simp_all
    then have "kept_or_new (load_tasks db plan) t" using inv by simp
    then obtain u where u: "u \<in> set (load_tasks db plan)" "t_id u = t_id t" "t_ordinal u = t_ordinal t"
      "t_status u = t_status t" "task_done (t_status u) \<longrightarrow> t = u"
      using known t(2) unfolding kept_or_new_def by auto
    then obtain r1 where "r1 \<in> set (pd_tasks db)" "u = load_task db plan r1" by (auto simp: set_load_tasks)
    moreover from this have "r1 = r" using task_row_unique [OF rows _ r(1)] u(2) t(2) by simp
    ultimately have "u = load_task db plan r" by simp
    with u t found True show ?thesis
      by (auto simp: r'_def rewritten_def rewrite_task_def row_kept_def)
  qed
  then show "row_kept r r'" "t_plan r \<noteq> plan \<Longrightarrow> r' = r"
    "t_plan r = plan \<Longrightarrow> \<exists>t \<in> set tasks. t_id t = t_id r \<and> t_depends_on r' = t_depends_on t" by blast+
qed

text \<open>Everything later proofs need to know of a successful replanning.\<close>

definition replanned :: "bytes \<Rightarrow> bytes \<Rightarrow> (plan_row \<Rightarrow> plan_row) \<Rightarrow> int \<Rightarrow> task list \<Rightarrow> (task_row \<Rightarrow> task_row) \<Rightarrow>
    task list \<Rightarrow> plan_db \<Rightarrow> plan_db \<Rightarrow> bool" where
  "replanned session plan g now tasks h new db db' \<longleftrightarrow>
     task_graph_valid tasks \<and> distinct (map t_id tasks) \<and> (\<forall>t \<in> set tasks. kept_or_new (load_tasks db plan) t) \<and>
     (\<forall>u \<in> set (load_tasks db plan). task_done (t_status u) \<longrightarrow> u \<in> set tasks) \<and>
     pd_tasks db' = map h (filter (stays plan tasks) (pd_tasks db)) @ map (new_task_row plan now) new \<and>
     pd_plans db' = map (plan_changed session plan g) (pd_plans db) \<and>
     pd_sessions db' = pd_sessions db \<and> pd_grants db' = pd_grants db \<and> pd_uses db' = pd_uses db \<and>
     set (pd_evidence db') = {e \<in> set (pd_evidence db). task_stays (pd_tasks db) plan tasks (e_task e)} \<and>
     pd_dispatches db' = filter (\<lambda>x. task_stays (pd_tasks db) plan tasks (x_task x)) (pd_dispatches db) \<and>
     (new \<noteq> [] \<longrightarrow> distinct (map t_id (pd_tasks db')) \<and> distinct (map (\<lambda>r. (t_plan r, t_ordinal r)) (pd_tasks db'))) \<and>
     new = filter (\<lambda>t. t_id t \<notin> plan_task_ids (pd_tasks db) plan) tasks \<and>
     (\<forall>r \<in> set (pd_tasks db). stays plan tasks r \<longrightarrow> row_kept r (h r) \<and> (t_plan r \<noteq> plan \<longrightarrow> h r = r) \<and>
        (t_plan r = plan \<longrightarrow> (\<exists>t \<in> set tasks. t_id t = t_id r \<and> t_depends_on (h r) = t_depends_on t)))"

lemma replan_tx_ok:
  assumes ok: "plan_ok db" and tx: "replan_tx ids session plan who input now db = Inr db'"
  obtains item tasks h new where "load_plan db session plan = Inr item" "\<not> plan_closed (p_status item)"
    "replanned session plan (replan_row input now) now tasks h new db db'"
proof -
  have rows: "rows_ok (pd_plans db) (pd_tasks db)" using ok by (simp add: plan_ok_def)
  from tx obtain item res db1 where item: "load_plan db session plan = Inr item"
    and res: "replanned_tasks ids item (ri_operations input) = Inr res"
    and rest: "(case res of (tasks, drawn) \<Rightarrow> and_then (persist_replan plan (map t_id (pl_tasks item)) tasks now db) (\<lambda>db1.
       insert_event (ids drawn) plan [] ''plan.replanned'' (trim_space (ri_reason input)) who
         (JObj [(''operations'', JArr (map operation_json (ri_operations input)))]) now
         (update_plan session plan (replan_row input now) db1))) = Inr db'"
    unfolding replan_tx_def by (auto simp only: and_then_ok)
  obtain tasks drawn where td: "res = (tasks, drawn)" by (cases res)
  note l = load_plan_ok [OF item]
  then have pl: "pl_tasks item = load_tasks db plan" by blast
  from res obtain mx where closed: "\<not> plan_closed (p_status item)"
    and ops: "apply_operations ids (p_id item) (map t_id (load_tasks db plan)) (ri_operations input)
       (load_tasks db plan, max_ordinal_of (load_tasks db plan), 0) = Inr (tasks, mx, drawn)"
    and valid: "task_graph_valid tasks"
    unfolding replanned_tasks_def td pl
    by (auto simp: check_task_graph_ok split: if_splits prod.splits)
  have dist: "distinct (map t_id (load_tasks db plan))"
    using rows by (intro distinct_load_tasks) (simp add: rows_ok_def)
  have "distinct (map t_ordinal (load_tasks db plan))"
    using rows by (auto simp: load_tasks_def comp_def distinct_map inj_on_def rows_ok_def)
  from apply_operations_keeps [OF replan_inv_start [OF dist this] ops]
  have inv: "replan_inv (load_tasks db plan) (tasks, mx, drawn)" .
  have keeps: "distinct (map t_id tasks)" "\<And>t. t \<in> set tasks \<Longrightarrow> kept_or_new (load_tasks db plan) t"
    "\<And>u. u \<in> set (load_tasks db plan) \<Longrightarrow> task_done (t_status u) \<Longrightarrow> u \<in> set tasks"
    using inv by simp_all
  from rest obtain db2 where p: "persist_replan plan (map t_id (load_tasks db plan)) tasks now db = Inr db2"
    and event: "insert_event (ids drawn) plan [] ''plan.replanned'' (trim_space (ri_reason input)) who
         (JObj [(''operations'', JArr (map operation_json (ri_operations input)))]) now
         (update_plan session plan (replan_row input now) db2) = Inr db'"
    unfolding td pl by auto
  let ?h = "rewritten plan (filter (\<lambda>t. t_id t \<in> set (map t_id (load_tasks db plan))) tasks) now"
  let ?new = "filter (\<lambda>t. t_id t \<notin> set (map t_id (load_tasks db plan))) tasks"
  have db': "pd_plans db' = map (plan_changed session plan (replan_row input now)) (pd_plans db2)"
    "pd_tasks db' = pd_tasks db2" "pd_sessions db' = pd_sessions db2" "pd_grants db' = pd_grants db2"
    "pd_uses db' = pd_uses db2" "pd_evidence db' = pd_evidence db2" "pd_dispatches db' = pd_dispatches db2"
    using insert_event_ok [OF event] by (auto simp: update_plan_def plan_changed_def [abs_def])
  note persisted = persist_replan_ok [OF rows orig_ids p]
  have "replanned session plan (replan_row input now) now tasks ?h ?new db db'"
    unfolding replanned_def
  proof (intro conjI ballI impI)
    show "?new = filter (\<lambda>t. t_id t \<notin> plan_task_ids (pd_tasks db) plan) tasks" unfolding orig_ids ..
    show "distinct (map t_id (pd_tasks db'))" "distinct (map (\<lambda>r. (t_plan r, t_ordinal r)) (pd_tasks db'))" if "?new \<noteq> []"
      using persisted(8) that db'(2) by simp_all
    show "row_kept r (?h r)" "t_plan r \<noteq> plan \<Longrightarrow> ?h r = r"
       "t_plan r = plan \<Longrightarrow> \<exists>t \<in> set tasks. t_id t = t_id r \<and> t_depends_on (?h r) = t_depends_on t"
      if "r \<in> set (pd_tasks db)" "stays plan tasks r" for r
      using rewritten_row [OF rows inv that] by blast+
  qed (simp_all add: persisted(1-7) db' valid keeps)
  with item closed show thesis by (rule that)
qed

lemma distinct_rows:
  assumes rows: "rows_ok ps ts" and kept: "\<And>r. r \<in> set ts \<Longrightarrow> P r \<Longrightarrow> row_kept r (h r)"
  shows "distinct (map t_id (map h (filter P ts)))" "distinct (map (\<lambda>r. (t_plan r, t_ordinal r)) (map h (filter P ts)))"
proof -
  have "map t_id (map h (filter P ts)) = map t_id (filter P ts)"
    "map (\<lambda>r. (t_plan r, t_ordinal r)) (map h (filter P ts)) = map (\<lambda>r. (t_plan r, t_ordinal r)) (filter P ts)"
    using kept by (auto simp: row_kept_def)
  then show "distinct (map t_id (map h (filter P ts)))" "distinct (map (\<lambda>r. (t_plan r, t_ordinal r)) (map h (filter P ts)))"
    using rows unfolding rows_ok_def by (metis distinct_map_filter)+
qed

lemma replanned_row:
  assumes "replanned session plan g now tasks h new db db'" "r \<in> set (pd_tasks db)" "stays plan tasks r"
  shows "h r \<in> set (pd_tasks db')" "t_id (h r) = t_id r" "t_plan (h r) = t_plan r" "t_status (h r) = t_status r"
    "t_plan r \<noteq> plan \<Longrightarrow> h r = r"
    "t_plan r = plan \<Longrightarrow> \<exists>t \<in> set tasks. t_id t = t_id r \<and> t_depends_on (h r) = t_depends_on t"
  using assms unfolding replanned_def row_kept_def by auto

lemma replanned_cases:
  assumes "replanned session plan g now tasks h new db db'" "u \<in> set (pd_tasks db')"
  obtains r where "r \<in> set (pd_tasks db)" "stays plan tasks r" "u = h r"
  | t where "t \<in> set tasks" "t_id t \<notin> plan_task_ids (pd_tasks db) plan" "u = new_task_row plan now t"
  using assms unfolding replanned_def by auto

lemma task_stays_row:
  "rows_ok ps ts \<Longrightarrow> r \<in> set ts \<Longrightarrow> task_stays ts plan tasks (t_id r) \<longleftrightarrow> stays plan tasks r"
  using task_row_unique by (fastforce simp: task_stays_def)

lemma replanned_distinct:
  assumes "rows_ok (pd_plans db) (pd_tasks db)" "replanned session plan g now tasks h new db db'"
  shows "distinct (map t_id (pd_tasks db'))" "distinct (map (\<lambda>r. (t_plan r, t_ordinal r)) (pd_tasks db'))"
proof -
  have re: "pd_tasks db' = map h (filter (stays plan tasks) (pd_tasks db)) @ map (new_task_row plan now) new"
    "new \<noteq> [] \<longrightarrow> distinct (map t_id (pd_tasks db')) \<and> distinct (map (\<lambda>r. (t_plan r, t_ordinal r)) (pd_tasks db'))"
    "\<forall>r \<in> set (pd_tasks db). stays plan tasks r \<longrightarrow> row_kept r (h r)"
    using assms(2) unfolding replanned_def by blast+
  have "distinct (map t_id (pd_tasks db')) \<and> distinct (map (\<lambda>r. (t_plan r, t_ordinal r)) (pd_tasks db'))"
  proof (cases "new = []")
    case True
    then show ?thesis using distinct_rows [OF assms(1), of "stays plan tasks" h] re(1,3) by simp
  next
    case False
    then show ?thesis using re(2) by simp
  qed
  then show "distinct (map t_id (pd_tasks db'))" "distinct (map (\<lambda>r. (t_plan r, t_ordinal r)) (pd_tasks db'))" by simp_all
qed

lemma replanned_pairs:
  assumes rows: "rows_ok (pd_plans db) (pd_tasks db)" and re: "replanned session plan g now tasks h new db db'"
  shows "dep_pairs (pd_tasks db') plan = (\<lambda>t. (t_id t, t_depends_on t)) ` set tasks" (is "?l = ?r")
proof
  show "?l \<subseteq> ?r"
  proof
    fix x
    assume "x \<in> ?l"
    then obtain u where u: "u \<in> set (pd_tasks db')" "t_plan u = plan" "x = (t_id u, t_depends_on u)"
      by (auto simp: dep_pairs_def)
    from re u(1) show "x \<in> ?r"
    proof (cases rule: replanned_cases)
      case (1 r)
      then show ?thesis using replanned_row [OF re 1(1,2)] u by force
    next
      case (2 t)
      then show ?thesis using u by auto
    qed
  qed
  show "?r \<subseteq> ?l"
  proof
    fix x
    assume "x \<in> ?r"
    then obtain t where t: "t \<in> set tasks" "x = (t_id t, t_depends_on t)" by auto
    show "x \<in> ?l"
    proof (cases "t_id t \<in> plan_task_ids (pd_tasks db) plan")
      case True
      then obtain r where r: "r \<in> set (pd_tasks db)" "t_plan r = plan" "t_id r = t_id t"
        by (auto simp: plan_task_ids_def)
      then have stays: "stays plan tasks r" using t(1) by (auto simp: stays_def)
      note row = replanned_row [OF re r(1) stays]
      obtain t' where t': "t' \<in> set tasks" "t_id t' = t_id r" "t_depends_on (h r) = t_depends_on t'"
        using row(6) r(2) by auto
      moreover have "t' = t" using re t' t(1) r(3) by (auto simp: replanned_def distinct_map dest: inj_onD)
      ultimately show ?thesis using t(2) r row(1,2,3) unfolding dep_pairs_def by force
    next
      case False
      then have "new_task_row plan now t \<in> set (pd_tasks db')" using re t(1) by (auto simp: replanned_def)
      then show ?thesis using t unfolding dep_pairs_def by force
    qed
  qed
qed

lemma replanned_other_pairs:
  assumes re: "replanned session plan g now tasks h new db db'" and q: "q \<noteq> plan"
  shows "dep_pairs (pd_tasks db') q = dep_pairs (pd_tasks db) q"
proof -
  have "{r \<in> set (pd_tasks db'). t_plan r = q} = {r \<in> set (pd_tasks db). t_plan r = q}"
  proof
    show "{r \<in> set (pd_tasks db'). t_plan r = q} \<subseteq> {r \<in> set (pd_tasks db). t_plan r = q}"
      using replanned_row [OF re] q by (auto elim!: replanned_cases [OF re])
    show "{r \<in> set (pd_tasks db). t_plan r = q} \<subseteq> {r \<in> set (pd_tasks db'). t_plan r = q}"
      using replanned_row(1,5) [OF re] q by (force simp: stays_def)
  qed
  then show ?thesis by (simp add: dep_pairs_def)
qed

lemma replanned_graphs:
  assumes rows: "rows_ok (pd_plans db) (pd_tasks db)" and graphs: "graphs_ok (pd_tasks db)"
    and re: "replanned session plan g now tasks h new db db'"
  shows "graphs_ok (pd_tasks db')"
  unfolding graphs_ok_def
proof
  fix q
  note dist = replanned_distinct(1) [OF rows re]
  show "plan_graph_ok (pd_tasks db') q"
  proof (cases "q = plan")
    case True
    have "distinct (map t_id tasks)" "task_graph_valid tasks" using re by (simp_all add: replanned_def)
    then show ?thesis using graph_of_tasks [OF dist _ replanned_pairs [OF rows re]] True by simp
  next
    case False
    have "distinct (map t_id (pd_tasks db))" using rows by (simp add: rows_ok_def)
    from plan_graph_cong [OF dist this replanned_other_pairs [OF re False]] graphs
    show ?thesis by (simp add: graphs_ok_def)
  qed
qed

lemma replanned_evidence:
  assumes rows: "rows_ok (pd_plans db) (pd_tasks db)" and evidence: "evidence_ok (pd_tasks db) (pd_evidence db)"
    and re: "replanned session plan g now tasks h new db db'"
  shows "evidence_ok (pd_tasks db') (pd_evidence db')"
proof -
  have es: "set (pd_evidence db') = {e \<in> set (pd_evidence db). task_stays (pd_tasks db) plan tasks (e_task e)}"
    using re by (simp add: replanned_def)
  have "\<exists>r \<in> set (pd_tasks db'). t_id r = e_task e \<and> t_plan r = e_plan e" if e: "e \<in> set (pd_evidence db')" for e
  proof -
    obtain r where r: "r \<in> set (pd_tasks db)" "t_id r = e_task e" "t_plan r = e_plan e"
      using e evidence unfolding es by (auto simp: evidence_ok_def)
    then have "stays plan tasks r" using e task_stays_row [OF rows] unfolding es by force
    from replanned_row [OF re r(1) this] show ?thesis using r by metis
  qed
  moreover have "\<exists>e \<in> set (pd_evidence db'). e_task e = t_id u" if "u \<in> set (pd_tasks db')" "t_status u = T_Completed" for u
    using re that(1)
  proof (cases rule: replanned_cases)
    case (1 r)
    then have "t_id u = t_id r" "t_status r = T_Completed" using replanned_row [OF re 1(1,2)] that(2) by simp_all
    then obtain e where "e \<in> set (pd_evidence db)" "e_task e = t_id u" using evidence 1(1) by (auto simp: evidence_ok_def)
    then show ?thesis using task_stays_row [OF rows 1(1)] 1(2) \<open>t_id u = t_id r\<close> unfolding es by auto
  next
    case (2 t)
    then show ?thesis using that(2) by simp
  qed
  moreover have "\<forall>e \<in> set (pd_evidence db'). e_validated e" using evidence by (simp add: es evidence_ok_def)
  ultimately show ?thesis by (simp add: evidence_ok_def)
qed

lemma replanned_dispatches:
  assumes rows: "rows_ok (pd_plans db) (pd_tasks db)" and dispatches: "dispatches_ok (pd_tasks db) (pd_dispatches db)"
    and re: "replanned session plan g now tasks h new db db'"
  shows "dispatches_ok (pd_tasks db') (pd_dispatches db')"
proof -
  have xs: "pd_dispatches db' = filter (\<lambda>x. task_stays (pd_tasks db) plan tasks (x_task x)) (pd_dispatches db)"
    using re by (simp add: replanned_def)
  have "\<exists>r \<in> set (pd_tasks db'). t_id r = x_task x \<and> t_plan r = x_plan x \<and> (x_status x = Dispatched \<longrightarrow> t_status r \<noteq> T_Todo)"
    if x: "x \<in> set (pd_dispatches db')" for x
  proof -
    obtain r where r: "r \<in> set (pd_tasks db)" "t_id r = x_task x" "t_plan r = x_plan x"
      "x_status x = Dispatched \<longrightarrow> t_status r \<noteq> T_Todo"
      using dispatches x unfolding xs dispatches_ok_def by auto
    then have "stays plan tasks r" using x task_stays_row [OF rows] unfolding xs by force
    from replanned_row [OF re r(1) this] show ?thesis using r by metis
  qed
  moreover have "distinct (map x_task (pd_dispatches db'))"
    using dispatches unfolding xs dispatches_ok_def by (simp add: distinct_map_filter)
  ultimately show ?thesis by (simp add: dispatches_ok_def)
qed

lemma replan_tx_keeps:
  assumes ok: "plan_ok db" and tx: "replan_tx ids session plan who input now db = Inr db'"
  shows "plan_ok db'"
proof -
  obtain item tasks h new where item: "load_plan db session plan = Inr item" "\<not> plan_closed (p_status item)"
    and re: "replanned session plan (replan_row input now) now tasks h new db db'"
    by (rule replan_tx_ok [OF ok tx])
  have db: "rows_ok (pd_plans db) (pd_tasks db)" "graphs_ok (pd_tasks db)" "statuses_ok (pd_plans db) (pd_tasks db)"
    "evidence_ok (pd_tasks db) (pd_evidence db)" "dispatches_ok (pd_tasks db) (pd_dispatches db)"
    using ok by (simp_all add: plan_ok_def)
  have ps': "pd_plans db' = map (plan_changed session plan (replan_row input now)) (pd_plans db)"
    using re by (simp add: replanned_def)
  have "t_plan u \<in> p_id ` set (pd_plans db) \<and> t_status u \<noteq> T_Skipped" if "u \<in> set (pd_tasks db')" for u
    using re that
  proof (cases rule: replanned_cases)
    case (1 r)
    then show ?thesis using replanned_row [OF re 1(1,2)] db(1) by (simp add: rows_ok_def)
  next
    case (2 t)
    then show ?thesis using load_plan_ok [OF item(1)] find_plan_row_ok by force
  qed
  moreover have ids: "map p_id (pd_plans db') = map p_id (pd_plans db)"
    by (simp add: ps' plan_changed_def replan_row_def)
  moreover have "p_id ` set (pd_plans db') = p_id ` set (pd_plans db)" using arg_cong [OF ids, of set] by simp
  ultimately have "rows_ok (pd_plans db') (pd_tasks db')"
    using replanned_distinct [OF db(1) re] db(1) unfolding rows_ok_def by simp
  moreover have "statuses_ok (pd_plans db') (pd_tasks db')"
  proof (rule statuses_ok_update [OF db(3), of _ "\<lambda>q. p_id q = plan \<and> p_session q = session" "replan_row input now"])
    show "pd_plans db' = map (\<lambda>q. if p_id q = plan \<and> p_session q = session then replan_row input now q else q) (pd_plans db)"
      by (simp add: ps' plan_changed_def [abs_def])
    show "p_id (replan_row input now q) = p_id q \<and> (p_status (replan_row input now q) = P_In_Progress \<or>
        p_status (replan_row input now q) = P_Blocked \<or> p_status (replan_row input now q) = P_Completed \<and>
        (\<forall>r \<in> set (pd_tasks db'). t_plan r = p_id q \<longrightarrow> t_status r = T_Completed))"
      if "q \<in> set (pd_plans db)" "p_id q = plan \<and> p_session q = session" for q
      using loaded_plan_row [OF db(1) item(1) that(1)] that(2) item(2)
      by (cases "p_status q") (auto simp: replan_row_def plan_closed_def)
    show "u \<in> set (pd_tasks db)" if q: "q \<in> set (pd_plans db)" "\<not> (p_id q = plan \<and> p_session q = session)"
      "u \<in> set (pd_tasks db')" "t_plan u = p_id q" for q u
    proof -
      have "p_id q \<noteq> plan" using loaded_plan_row [OF db(1) item(1) q(1)] q(2) by blast
      with re q(3,4) show ?thesis using replanned_row [OF re] by (cases rule: replanned_cases) auto
    qed
  qed
  ultimately show ?thesis
    using replanned_graphs [OF db(1,2) re] replanned_evidence [OF db(1,4) re] replanned_dispatches [OF db(1,5) re]
    by (simp add: plan_ok_def)
qed

lemma replan_keeps: "plan_ok db \<Longrightarrow> plan_ok (fst (replan ids session plan who input now db))"
proof -
  assume ok: "plan_ok db"
  have "plan_ok (fst (run_tx db (replan_tx ids session plan who input now db) k))"
    for k :: "plan_db \<Rightarrow> (plan_error, plan) result"
    by (rule run_tx_rule [of plan_ok, OF ok]) (rule replan_tx_keeps [OF ok])
  then show ?thesis using ok by (simp add: replan_def)
qed

section \<open>Run grants leave the plans alone\<close>

definition same_core :: "plan_db \<Rightarrow> plan_db \<Rightarrow> bool" where
  "same_core db db' \<longleftrightarrow> pd_plans db' = pd_plans db \<and> pd_tasks db' = pd_tasks db \<and> pd_evidence db' = pd_evidence db \<and>
     pd_dispatches db' = pd_dispatches db \<and> pd_sessions db' = pd_sessions db"

lemma same_core_refl [simp]: "same_core db db" by (simp add: same_core_def)

lemma same_core_trans: "same_core a b \<Longrightarrow> same_core b c \<Longrightarrow> same_core a c" by (simp add: same_core_def)

lemma same_core_ok: "same_core db db' \<Longrightarrow> plan_ok db \<Longrightarrow> plan_ok db'"
  by (simp add: same_core_def plan_ok_def)

lemma same_core_grants [simp]:
  "same_core db (update_grant i cond f db)" "same_core db (db\<lparr>pd_events := ev\<rparr>)"
  "insert_grant g db = Inr db' \<Longrightarrow> same_core db db'" "insert_use u db = Inr db' \<Longrightarrow> same_core db db'"
  by (auto simp: same_core_def update_grant_def insert_grant_def insert_use_def split: if_splits)

lemma same_core_event: "insert_event i plan task ty reason who payload now db = Inr db' \<Longrightarrow> same_core db db'"
  by (auto dest!: insert_event_ok)

lemma same_core_run: "same_core db db1 \<Longrightarrow> same_core db (fst (run_tx db (insert_event i plan task ty reason who payload now db1) k))"
  by (auto simp: run_tx_fst dest: same_core_event intro: same_core_trans split: sum.splits)

lemma create_grant_core: "same_core db (fst (create_run_grant lower stamp ids session plan who x t db))"
proof -
  have "same_core db db'" if tx: "create_grant_tx stamp ids session plan who x checked now db = Inr db'" for checked now db'
  proof -
    obtain repos ceiling lifetime runtime remark where c: "checked = (repos, ceiling, lifetime, runtime, remark)"
      by (cases checked)
    from tx obtain db1 g db2 i ty payload where
      one: "(case active_grant db session plan of None \<Rightarrow> Inr db
        | Some old \<Rightarrow> insert_event (ids 1) plan [] ''plan.run_grant.superseded'' (''superseded by '' @ ids 0) who
             (JObj [(''grant_id'', JStr (g_id old)), (''superseded_by'', JStr (ids 0))]) now
             (update_grant (g_id old) is_active (end_grant G_Superseded who (''superseded by '' @ ids 0) now) db)) = Inr db1"
      and two: "insert_grant g db1 = Inr db2" and three: "insert_event i plan [] ty remark who payload now db2 = Inr db'"
      unfolding create_grant_tx_def c by (auto simp: Let_def split: if_splits)
    have "same_core db db1"
      using one by (auto split: option.splits dest!: same_core_event intro: same_core_trans [OF same_core_grants(1)])
    then show ?thesis using same_core_grants(3) [OF two] same_core_event [OF three] same_core_trans by blast
  qed
  then show ?thesis by (auto simp: create_run_grant_def run_tx_fst split: sum.splits)
qed

lemma revoke_core: "same_core db (fst (revoke_run_grant ids session plan who reason t db))"
  by (auto simp: revoke_run_grant_def Let_def intro!: same_core_run split: sum.splits option.splits)

lemma usage_core: "same_core db (fst (report_run_grant_usage ids session plan who used t db))"
  by (auto simp: report_run_grant_usage_def Let_def intro!: same_core_run split: sum.splits option.splits)

lemma deny_use_core: "same_core db (fst (deny_use ids plan x k g d code reason now db))"
  unfolding deny_use_def by (rule same_core_run) simp

lemma allow_use_core: "same_core db db1 \<Longrightarrow> same_core db (fst (allow_use ids plan x k g d now db db1))"
  unfolding allow_use_def by (rule same_core_run)

lemma authorize_grant_core: "same_core db (fst (authorize_grant ids session plan item g x k d now db))"
  unfolding authorize_grant_def
  by (auto simp: Let_def intro!: deny_use_core allow_use_core intro: same_core_trans [OF same_core_grants(4) same_core_grants(1)]
      split: sum.split)

lemma authorize_core: "same_core db (fst (authorize_run_grant_use lower digest ids session plan x now db))"
  unfolding authorize_run_grant_use_def
  by (simp add: Let_def deny_use_core authorize_grant_core split: sum.split option.split prod.split)

section \<open>Every reachable state\<close>

lemma perform_keeps: "plan_ok db \<Longrightarrow> plan_ok (perform c db)"
  by (cases c)
    (simp_all add: create_keeps start_task_def complete_task_def block_task_def transition_task_keeps replan_keeps
      deliver_keeps claim_keeps settle_keeps same_core_ok [OF create_grant_core] same_core_ok [OF revoke_core]
      same_core_ok [OF usage_core] same_core_ok [OF authorize_core])

lemma reachable_plan_ok: "plan_reachable db \<Longrightarrow> plan_ok db"
  by (induction rule: plan_reachable.induct) (simp_all add: plan_ok_empty perform_keeps)

end
