(* ===== verification/Plan_Lifecycle.thy ===== *)
theory Plan_Lifecycle
  imports Plan_Invariant
begin

text \<open>
  The abstract specification of the plan service, \<open>lifecycle\<close>: what may happen to the tasks, each seen
  as its plan, its status and the set of its dependencies. \<open>perform_lifecycle\<close> shows that every call
  is one step of it or leaves it as it is. On the way \<open>task_effect\<close> lists what a call can do to the
  tables of tasks and evidence; the safety properties go through it as well.
\<close>

section \<open>The abstract machine\<close>

type_synonym task_view = "bytes \<times> task_status \<times> bytes set"

text \<open>\<open>begin\<close>: an unfinished task starts when its dependencies are done. \<open>hand_over\<close>: a task goes to
  an external issue. \<open>revise\<close>: the tasks of one plan are created or changed, finished ones excepted, into
  a closed acyclic graph.\<close>

inductive lifecycle :: "(bytes \<Rightarrow> task_view option) \<Rightarrow> (bytes \<Rightarrow> task_view option) \<Rightarrow> bool" where
  life_idle: "lifecycle v v"
| life_begin: "v i = Some (p, s, D) \<Longrightarrow> s = T_Todo \<or> s = T_Blocked \<Longrightarrow>
    \<forall>d \<in> D. \<exists>s' D'. v d = Some (p, s', D') \<and> task_done s' \<Longrightarrow> lifecycle v (v(i \<mapsto> (p, T_In_Progress, D)))"
| life_finish: "v i = Some (p, T_In_Progress, D) \<Longrightarrow> lifecycle v (v(i \<mapsto> (p, T_Completed, D)))"
| life_block: "v i = Some (p, T_In_Progress, D) \<Longrightarrow> lifecycle v (v(i \<mapsto> (p, T_Blocked, D)))"
| life_hand_over: "v i = Some (p, T_Todo, D) \<Longrightarrow> lifecycle v (v(i \<mapsto> (p, T_In_Progress, D)))"
| life_revise: "(\<And>i q s D. v i = Some (q, s, D) \<Longrightarrow>
       v' i = v i \<or> q = p \<and> \<not> task_done s \<and> (v' i = None \<or> (\<exists>D'. v' i = Some (p, s, D')))) \<Longrightarrow>
    (\<And>i. v i = None \<Longrightarrow> v' i = None \<or> (\<exists>D. v' i = Some (p, T_Todo, D))) \<Longrightarrow>
    (\<And>i s D d. v' i = Some (p, s, D) \<Longrightarrow> d \<in> D \<Longrightarrow> \<exists>s' D'. v' d = Some (p, s', D')) \<Longrightarrow>
    acyclic {(i, d). \<exists>s D. v' i = Some (p, s, D) \<and> d \<in> D} \<Longrightarrow> lifecycle v v'"

text \<open>The abstraction of the table of tasks.\<close>

definition row_view :: "task_row \<Rightarrow> task_view" where
  "row_view r = (t_plan r, t_status r, set (t_depends_on r))"

definition rows_view :: "task_row list \<Rightarrow> bytes \<Rightarrow> task_view option" where
  "rows_view rows = map_of (map (\<lambda>r. (t_id r, row_view r)) rows)"

lemma rows_view_in: "distinct (map t_id rows) \<Longrightarrow> r \<in> set rows \<Longrightarrow> rows_view rows (t_id r) = Some (row_view r)"
  unfolding rows_view_def by (rule map_of_is_SomeI) (simp_all add: comp_def)

lemma rows_view_Some: "rows_view rows i = Some x \<Longrightarrow> \<exists>r \<in> set rows. t_id r = i \<and> row_view r = x"
proof -
  assume "rows_view rows i = Some x"
  then have "(i, x) \<in> set (map (\<lambda>r. (t_id r, row_view r)) rows)" unfolding rows_view_def by (rule map_of_SomeD)
  then show ?thesis by auto
qed

lemma rows_view_None: "rows_view rows i = None \<longleftrightarrow> i \<notin> t_id ` set rows"
  by (auto simp: rows_view_def map_of_eq_None_iff image_image)

lemma rows_view_changed:
  assumes "distinct (map t_id rows)" "r \<in> set rows" "t_plan r = plan" "t_id r = i"
    and f: "\<And>u. t_id (f u) = t_id u \<and> t_plan (f u) = t_plan u \<and> t_depends_on (f u) = t_depends_on u"
  shows "rows_view (map (task_changed plan i f) rows) = (rows_view rows)(i \<mapsto> (plan, t_status (f r), set (t_depends_on r)))"
proof
  fix k
  have maps: "map t_id (map (task_changed plan i f) rows) = map t_id rows" using f by (simp add: task_changed_def)
  show "rows_view (map (task_changed plan i f) rows) k = ((rows_view rows)(i \<mapsto> (plan, t_status (f r), set (t_depends_on r)))) k"
  proof (cases "k = i")
    case True
    have "task_changed plan i f r \<in> set (map (task_changed plan i f) rows)" "t_id (task_changed plan i f r) = i"
      using assms by (simp_all add: task_changed_def)
    then have "rows_view (map (task_changed plan i f) rows) i = Some (row_view (task_changed plan i f r))"
      using rows_view_in assms(1) maps by metis
    then show ?thesis using True assms by (simp add: row_view_def task_changed_def)
  next
    case False
    then have "rows_view (map (task_changed plan i f) rows) k = rows_view rows k"
      using f unfolding rows_view_def by (induction rows) (auto simp: task_changed_def)
    then show ?thesis using False by simp
  qed
qed

section \<open>What a call does to tasks and evidence\<close>

inductive task_effect :: "plan_db \<Rightarrow> plan_db \<Rightarrow> bool" where
  effect_none: "pd_tasks db' = pd_tasks db \<Longrightarrow> pd_evidence db' = pd_evidence db \<Longrightarrow> task_effect db db'"
| effect_moved: "task_moved session plan i (set_task_status target now) g new xs db db' \<Longrightarrow>
    r \<in> set (pd_tasks db) \<Longrightarrow> t_plan r = plan \<Longrightarrow> t_id r = i \<Longrightarrow> load_plan db session plan = Inr item \<Longrightarrow>
    transition_guard item (load_task db plan r) target = Inr () \<Longrightarrow> \<forall>e \<in> set new. e_task e = i \<Longrightarrow> task_effect db db'"
| effect_handed: "task_moved session plan i
      (\<lambda>r. if t_status r = T_Todo then r\<lparr>t_status := T_In_Progress, t_updated := unix_milli now\<rparr> else r) g [] xs db db' \<Longrightarrow>
    r \<in> set (pd_tasks db) \<Longrightarrow> t_plan r = plan \<Longrightarrow> t_id r = i \<Longrightarrow> task_effect db db'"
| effect_replanned: "replanned session plan g now tasks h new db db' \<Longrightarrow> task_effect db db'"
| effect_created: "pd_tasks db' = pd_tasks db @ map (new_task_row plan now) tasks \<Longrightarrow> pd_evidence db' = pd_evidence db \<Longrightarrow>
    plan \<notin> p_id ` set (pd_plans db) \<Longrightarrow> task_effect db db'"

lemma effect_run:
  "(\<And>db'. r = Inr db' \<Longrightarrow> task_effect db db') \<Longrightarrow> task_effect db (fst (run_tx db r k))"
  by (rule run_tx_rule) (auto intro: effect_none)

lemma transition_effect: "task_effect db (fst (transition_task w ids session plan i who target ty reason evidence now db))"
proof -
  have "task_effect db db'"
    if tx: "transition_tx w ids session plan i who target ty reason evidence now db = Inr db'" for db'
  proof -
    obtain item r new where "load_plan db session plan = Inr item" "r \<in> set (pd_tasks db)" "t_plan r = plan" "t_id r = i"
      "transition_guard item (load_task db plan r) target = Inr ()" "length new = length evidence"
      "\<forall>e \<in> set new. e_validated e \<and> e_plan e = plan \<and> e_task e = i"
      "task_moved session plan i (set_task_status target now) (set_plan_status (status_after target (p_status item)) now)
         new (pd_dispatches db) db db'"
      by (rule transition_tx_ok [OF tx])
    then show ?thesis by (intro effect_moved) auto
  qed
  then show ?thesis by (auto simp: transition_task_def intro!: effect_run intro: effect_none)
qed

lemma settle_effect: "task_effect db (fst (complete_dispatch ids session who d issue identifier now db))"
proof -
  have tx: "task_effect db db'" if item: "load_plan db session (x_plan d) = Inr item" "find_task (pl_tasks item) (x_task d) = Inr t"
    and tx: "settle_tx ids session who item d issue identifier now db = Inr db'" for item t db'
  proof (cases "plan_closed (p_status item)")
    case True
    then show ?thesis using settle_tx_ok [OF tx] by (intro effect_none) auto
  next
    case False
    obtain p r where "r \<in> set (pd_tasks db)" "t_plan r = x_plan d" "t_id r = x_task d"
      using loaded_task [OF item] by metis
    then show ?thesis using settle_tx_ok [OF tx] False by (intro effect_handed) auto
  qed
  show ?thesis
  proof (cases "and_then (load_plan db session (x_plan d)) (\<lambda>item. and_then (find_task (pl_tasks item) (x_task d)) (\<lambda>_. Inr item))")
    case (Inl e)
    then show ?thesis by (auto simp: complete_dispatch_def intro: effect_none)
  next
    case (Inr item)
    then show ?thesis using tx
      by (auto simp: complete_dispatch_def intro!: effect_run intro: effect_none split: option.splits)
  qed
qed

lemma replan_effect: "plan_ok db \<Longrightarrow> task_effect db (fst (replan ids session plan who input now db))"
proof -
  assume ok: "plan_ok db"
  have "task_effect db db'" if tx: "replan_tx ids session plan who input now db = Inr db'" for db'
  proof -
    obtain item tasks h new where "replanned session plan (replan_row input now) now tasks h new db db'"
      by (rule replan_tx_ok [OF ok tx])
    then show ?thesis by (rule effect_replanned)
  qed
  then have "task_effect db (fst (run_tx db (replan_tx ids session plan who input now db) k))"
    for k :: "plan_db \<Rightarrow> (plan_error, plan) result" by (rule effect_run)
  then show ?thesis by (simp add: replan_def effect_none)
qed

lemma create_effect: "task_effect db (fst (create_plan ids session who input now db))"
proof (cases rule: create_plan_cases [of ids session who input now db])
  case refused
  then show ?thesis by (intro effect_none) simp_all
next
  case (created p tasks i payload db1 db2)
  then show ?thesis
    using insert_event_ok [OF created(7)] insert_tasks_ok(1) [OF created(3)]
    by (intro effect_created) (auto simp: insert_plan_def split: if_splits)
qed

lemma core_effect: "same_core db db' \<Longrightarrow> task_effect db db'"
  by (rule effect_none) (simp_all add: same_core_def)

lemma deliver_effect: "task_effect db (fst (deliver w ids session plan who t db))"
  by (auto simp: deliver_def Let_def deliver_tx_def update_plan_def intro!: effect_run intro: effect_none
      dest!: insert_event_ok split: sum.splits)

lemma claim_effect: "task_effect db (fst (claim_dispatch session plan i who routing lease now db))"
  by (rule effect_none)
    (auto simp: claim_dispatch_def insert_dispatch_def Let_def split: sum.splits option.splits if_splits)

lemma perform_effect: "plan_ok db \<Longrightarrow> task_effect db (perform c db)"
  by (cases c)
    (auto simp: start_task_def complete_task_def block_task_def create_effect transition_effect replan_effect
      deliver_effect claim_effect settle_effect core_effect create_grant_core revoke_core usage_core authorize_core
      intro: effect_none)

section \<open>Refinement\<close>

definition view_of :: "plan_db \<Rightarrow> bytes \<Rightarrow> task_view option" where
  "view_of db = rows_view (pd_tasks db)"

lemma view_of_in: "rows_ok (pd_plans db) (pd_tasks db) \<Longrightarrow> r \<in> set (pd_tasks db) \<Longrightarrow> view_of db (t_id r) = Some (row_view r)"
  unfolding view_of_def by (rule rows_view_in) (simp_all add: rows_ok_def)

lemma view_of_Some: "view_of db i = Some x \<Longrightarrow> \<exists>r \<in> set (pd_tasks db). t_id r = i \<and> row_view r = x"
  unfolding view_of_def by (rule rows_view_Some)

lemma view_of_None: "view_of db i = None \<longleftrightarrow> i \<notin> t_id ` set (pd_tasks db)"
  by (simp add: view_of_def rows_view_None)

text \<open>The graph of a plan in the abstract view.\<close>

lemma view_closed:
  assumes rows: "rows_ok (pd_plans db) (pd_tasks db)" and graphs: "graphs_ok (pd_tasks db)"
    and "view_of db i = Some (p, s, D)" "d \<in> D"
  shows "\<exists>s' D'. view_of db d = Some (p, s', D')"
proof -
  obtain r where r: "r \<in> set (pd_tasks db)" "t_id r = i" "row_view r = (p, s, D)"
    using view_of_Some [OF assms(3)] by blast
  then have plan: "t_plan r = p" "D = set (t_depends_on r)" by (simp_all add: row_view_def)
  have "closed_deps (plan_task_ids (pd_tasks db) p) (plan_row_deps (pd_tasks db))"
    using graphs by (simp add: graphs_ok_def plan_graph_ok_def valid_graph_def)
  moreover have "t_id r \<in> plan_task_ids (pd_tasks db) p" using r(1) plan by (auto simp: plan_task_ids_def)
  moreover have "plan_row_deps (pd_tasks db) (t_id r) = t_depends_on r"
    using rows r(1) by (simp add: plan_row_deps_distinct rows_ok_def)
  ultimately have "set (t_depends_on r) \<subseteq> plan_task_ids (pd_tasks db) p" unfolding closed_deps_def by metis
  then have "d \<in> plan_task_ids (pd_tasks db) p" using plan(2) assms(4) by blast
  then obtain u where "u \<in> set (pd_tasks db)" "t_id u = d" "t_plan u = p" by (auto simp: plan_task_ids_def)
  then show ?thesis using view_of_in [OF rows] by (auto simp: row_view_def)
qed

lemma view_acyclic:
  assumes rows: "rows_ok (pd_plans db) (pd_tasks db)" and graphs: "graphs_ok (pd_tasks db)"
  shows "acyclic {(i, d). \<exists>s D. view_of db i = Some (p, s, D) \<and> d \<in> D}"
proof -
  have "acyclic (dep_edges (plan_task_ids (pd_tasks db) p) (plan_row_deps (pd_tasks db)))"
    using graphs by (simp add: graphs_ok_def plan_graph_ok_def valid_graph_def)
  moreover have "{(i, d). \<exists>s D. view_of db i = Some (p, s, D) \<and> d \<in> D} \<subseteq>
      dep_edges (plan_task_ids (pd_tasks db) p) (plan_row_deps (pd_tasks db))"
  proof clarify
    fix i d s D
    assume "view_of db i = Some (p, s, D)" "d \<in> D"
    moreover from this obtain r where "r \<in> set (pd_tasks db)" "t_id r = i" "row_view r = (p, s, D)"
      using view_of_Some by blast
    ultimately show "(i, d) \<in> dep_edges (plan_task_ids (pd_tasks db) p) (plan_row_deps (pd_tasks db))"
      using rows by (auto simp: dep_edges_def plan_task_ids_def row_view_def plan_row_deps_distinct rows_ok_def)
  qed
  ultimately show ?thesis by (rule acyclic_subset)
qed

lemma view_moved:
  assumes "rows_ok (pd_plans db) (pd_tasks db)" "task_moved session plan i f g new xs db db'"
    "r \<in> set (pd_tasks db)" "t_plan r = plan" "t_id r = i"
    "\<And>u. t_id (f u) = t_id u \<and> t_plan (f u) = t_plan u \<and> t_depends_on (f u) = t_depends_on u"
  shows "view_of db' = (view_of db)(i \<mapsto> (plan, t_status (f r), set (t_depends_on r)))"
  using assms rows_view_changed [OF _ assms(3,4,5), of f] by (simp add: view_of_def task_moved_def rows_ok_def)

lemma transition_lifecycle:
  assumes rows: "rows_ok (pd_plans db) (pd_tasks db)" and item: "load_plan db session plan = Inr item"
    and r: "r \<in> set (pd_tasks db)" "t_plan r = plan" "t_id r = i"
    and guard: "transition_guard item (load_task db plan r) target = Inr ()"
  shows "lifecycle (view_of db) ((view_of db)(i \<mapsto> (plan, target, set (t_depends_on r))))"
proof -
  have here: "view_of db i = Some (plan, t_status r, set (t_depends_on r))"
    using view_of_in [OF rows r(1)] r by (simp add: row_view_def)
  from transition_guard_ok(2) [OF guard] consider
    "target = T_In_Progress" "t_status r = T_Todo \<or> t_status r = T_Blocked"
      "dependencies_complete (pl_tasks item) (load_task db plan r) = Inr ()"
    | "target = T_Completed" "t_status r = T_In_Progress" | "target = T_Blocked" "t_status r = T_In_Progress"
    by auto
  then show ?thesis
  proof cases
    case 1
    have "distinct (map t_id (load_tasks db plan))" using rows by (intro distinct_load_tasks) (simp add: rows_ok_def)
    with 1(3) have deps: "\<forall>d \<in> set (t_depends_on r). \<exists>u \<in> set (load_tasks db plan). t_id u = d \<and> task_done (t_status u)"
      using load_plan_ok [OF item] by (simp add: dependencies_complete_iff)
    have "\<exists>s' D'. view_of db d = Some (plan, s', D') \<and> task_done s'" if d: "d \<in> set (t_depends_on r)" for d
    proof -
      obtain u where "u \<in> set (pd_tasks db)" "t_plan u = plan" "t_id u = d" "task_done (t_status u)"
        using bspec [OF deps d] by (auto simp: set_load_tasks)
      then show ?thesis using view_of_in [OF rows] by (auto simp: row_view_def)
    qed
    with life_begin [where v = "view_of db" and i = i and s = "t_status r", OF here 1(2)] 1(1) show ?thesis by blast
  next
    case 2
    then show ?thesis using life_finish [where v = "view_of db" and i = i] here by metis
  next
    case 3
    then show ?thesis using life_block [where v = "view_of db" and i = i] here by metis
  qed
qed

lemma replanned_lifecycle:
  assumes rows: "rows_ok (pd_plans db) (pd_tasks db)" and rows': "rows_ok (pd_plans db') (pd_tasks db')"
    and graphs': "graphs_ok (pd_tasks db')" and re: "replanned session plan g now tasks h new db db'"
  shows "lifecycle (view_of db) (view_of db')"
proof (rule life_revise [where p = plan])
  fix i q s D
  assume "view_of db i = Some (q, s, D)"
  then obtain r where r: "r \<in> set (pd_tasks db)" "t_id r = i" "row_view r = (q, s, D)" using view_of_Some by blast
  show "view_of db' i = view_of db i \<or>
      q = plan \<and> \<not> task_done s \<and> (view_of db' i = None \<or> (\<exists>D'. view_of db' i = Some (plan, s, D')))"
  proof (cases "stays plan tasks r")
    case True
    note row = replanned_row [OF re r(1) True]
    have kept: "row_kept r (h r)" using re r(1) True by (simp add: replanned_def)
    have new: "view_of db' i = Some (row_view (h r))" using view_of_in [OF rows' row(1)] row(2) r(2) by simp
    have old: "view_of db i = Some (row_view r)" using view_of_in [OF rows r(1)] r(2) by simp
    consider "t_plan r \<noteq> plan" | "t_plan r = plan" "task_done (t_status r)" | "t_plan r = plan" "\<not> task_done (t_status r)"
      by blast
    then show ?thesis
    proof cases
      case 1
      then show ?thesis using new old row(5) by simp
    next
      case 2
      then have "(h r)\<lparr>t_updated := t_updated r\<rparr> = r" using kept by (simp add: row_kept_def)
      then have "row_view (h r) = row_view r" by (metis row_view_def task_row.select_convs task_row.surjective task_row.update_convs(9))
      then show ?thesis using new old by simp
    next
      case 3
      then show ?thesis using new r(3) row(3,4) by (simp add: row_view_def)
    qed
  next
    case False
    then have plan: "t_plan r = plan" and out: "t_id r \<notin> t_id ` set tasks" by (simp_all add: stays_def)
    have "\<not> task_done (t_status r)"
    proof
      assume "task_done (t_status r)"
      moreover have "load_task db plan r \<in> set (load_tasks db plan)" using r(1) plan by (auto simp: set_load_tasks)
      ultimately have "load_task db plan r \<in> set tasks" using re by (force simp: replanned_def)
      then show False using out by force
    qed
    moreover have "view_of db' i = None" unfolding view_of_None
    proof
      assume "i \<in> t_id ` set (pd_tasks db')"
      then obtain u where u: "u \<in> set (pd_tasks db')" "t_id u = t_id r" using r(2) by auto
      from re u(1) show False
      proof (cases rule: replanned_cases)
        case (1 r')
        then have "t_id r' = t_id r" using replanned_row(2) [OF re 1(1,2)] u(2) by simp
        then have "r' = r" using task_row_unique [OF rows 1(1) r(1)] by simp
        then show False using 1(2) False by simp
      next
        case (2 t)
        then have "t_id t = t_id r" using u(2) by simp
        then show False using 2(1) out by (metis imageI)
      qed
    qed
    ultimately show ?thesis using plan r(3) by (simp add: row_view_def)
  qed
next
  fix i
  assume none: "view_of db i = None"
  show "view_of db' i = None \<or> (\<exists>D. view_of db' i = Some (plan, T_Todo, D))"
  proof (cases "view_of db' i")
    case (Some x)
    then obtain u where u: "u \<in> set (pd_tasks db')" "t_id u = i" "row_view u = x" using view_of_Some by blast
    from re u(1) show ?thesis
    proof (cases rule: replanned_cases)
      case (1 r)
      then have "t_id r = i" using replanned_row(2) [OF re 1(1,2)] u(2) by simp
      with none 1(1) have False unfolding view_of_None by blast
      then show ?thesis ..
    next
      case (2 t)
      then show ?thesis using Some u(3) by (auto simp: row_view_def)
    qed
  qed simp
next
  fix i s D d
  assume "view_of db' i = Some (plan, s, D)" "d \<in> D"
  then show "\<exists>s' D'. view_of db' d = Some (plan, s', D')" by (rule view_closed [OF rows' graphs'])
qed (rule view_acyclic [OF rows' graphs'])

lemma created_lifecycle:
  assumes rows: "rows_ok (pd_plans db) (pd_tasks db)" and rows': "rows_ok (pd_plans db') (pd_tasks db')"
    and graphs': "graphs_ok (pd_tasks db')"
    and ts': "pd_tasks db' = pd_tasks db @ map (new_task_row plan now) tasks"
  shows "lifecycle (view_of db) (view_of db')"
proof (rule life_revise [where p = plan])
  have old: "view_of db' i = view_of db i" if seen: "view_of db i = Some x" for i x
  proof -
    obtain r where "r \<in> set (pd_tasks db)" "t_id r = i" using view_of_Some [OF seen] by blast
    then show ?thesis using view_of_in [OF rows] view_of_in [OF rows', of r] ts' by force
  qed
  show "view_of db' i = view_of db i \<or>
      q = plan \<and> \<not> task_done s \<and> (view_of db' i = None \<or> (\<exists>D'. view_of db' i = Some (plan, s, D')))"
    if "view_of db i = Some (q, s, D)" for i q s D using old [OF that] by simp
  show "view_of db' i = None \<or> (\<exists>D. view_of db' i = Some (plan, T_Todo, D))" if none: "view_of db i = None" for i
  proof (cases "view_of db' i")
    case (Some x)
    then obtain u where u: "u \<in> set (pd_tasks db')" "t_id u = i" "row_view u = x" using view_of_Some by blast
    then have "u \<in> set (map (new_task_row plan now) tasks)" using none ts' by (auto simp: view_of_None)
    then show ?thesis using Some u(3) by (auto simp: row_view_def)
  qed simp
qed (rule view_closed [OF rows' graphs'], assumption+, rule view_acyclic [OF rows' graphs'])

lemma effect_lifecycle:
  assumes "plan_ok db" "plan_ok db'" "task_effect db db'"
  shows "lifecycle (view_of db) (view_of db')"
proof -
  have rows: "rows_ok (pd_plans db) (pd_tasks db)" "rows_ok (pd_plans db') (pd_tasks db')" "graphs_ok (pd_tasks db')"
    using assms(1,2) by (simp_all add: plan_ok_def)
  from assms(3) show ?thesis
  proof cases
    case effect_none
    then show ?thesis using life_idle by (simp add: view_of_def)
  next
    case (effect_moved session plan i target now g new xs r item)
    have "view_of db' = (view_of db)(i \<mapsto> (plan, target, set (t_depends_on r)))"
      using view_moved [OF rows(1) effect_moved(1,2,3,4)] by (simp add: set_task_status_def)
    then show ?thesis using transition_lifecycle [OF rows(1) effect_moved(5,2,3,4,6)] by simp
  next
    case (effect_handed session plan i now g xs r)
    let ?f = "\<lambda>r. if t_status r = T_Todo then r\<lparr>t_status := T_In_Progress, t_updated := unix_milli now\<rparr> else r"
    have view: "view_of db' = (view_of db)(i \<mapsto> (plan, t_status (?f r), set (t_depends_on r)))"
      by (rule view_moved [OF rows(1) effect_handed]) simp
    have here: "view_of db i = Some (plan, t_status r, set (t_depends_on r))"
      using view_of_in [OF rows(1) effect_handed(2)] effect_handed(3,4) by (simp add: row_view_def)
    show ?thesis
    proof (cases "t_status r = T_Todo")
      case True
      then show ?thesis using life_hand_over [of "view_of db" i plan "set (t_depends_on r)"] here view by simp
    next
      case False
      then show ?thesis using here view life_idle by (simp add: fun_upd_idem)
    qed
  next
    case effect_replanned
    then show ?thesis by (rule replanned_lifecycle [OF rows])
  next
    case effect_created
    then show ?thesis by (intro created_lifecycle [OF rows])
  qed
qed

lemma perform_lifecycle: "plan_ok db \<Longrightarrow> lifecycle (view_of db) (view_of (perform c db))"
  by (rule effect_lifecycle) (simp_all add: perform_keeps perform_effect)

end
