(* ===== verification/Plan_Safety.thy ===== *)
theory Plan_Safety
  imports Plan_Lifecycle
begin

text \<open>
  The properties of the plan service: what a list of tasks has to be like to become a plan, that the graph
  check answers, the invariant and the refinement for every reachable state, and that finished tasks are
  never touched again. \<open>Plan_Delivery\<close> goes on with delivering and with the claims on external issues.
\<close>

section \<open>A sample run\<close>

definition sample_ids :: "bytes \<Rightarrow> nat \<Rightarrow> bytes" where
  "sample_ids p k = p @ show_nat k"

definition plan_world :: "approval_row list \<Rightarrow> evidence_world" where
  "plan_world approvals =
     \<lparr>ew_edits = [], ew_terminals = [\<lparr>tt_id = ''x'', tt_session = ''s'', tt_status = ''exited'', tt_exit_code = Some 0\<rparr>],
      ew_artifacts = [], ew_observations = [],
      ew_operations = \<lparr>db_ops = [], db_steps = [], db_submissions = [], db_sessions = []\<rparr>,
      ew_approvals = approvals, ew_regular_file = (\<lambda>_ _. False)\<rparr>"

definition two_inputs :: "task_input list" where
  "two_inputs =
     [\<lparr>ti_id = [], ti_title = ''one'', ti_description = [], ti_depends_on = []\<rparr>,
      \<lparr>ti_id = ''two'', ti_title = ''two'', ti_description = [], ti_depends_on = ['' task-1 '']\<rparr>]"

definition ran_evidence :: "evidence_input list" where
  "ran_evidence = [\<lparr>ei_kind = '' Execute'', ei_reference = ''x'', ei_metadata = None\<rparr>]"

definition open_call :: plan_call where
  "open_call = Create_Call (sample_ids ''a'') ''s'' ''u'' \<lparr>ci_goal = ''g'', ci_summary = [], ci_tasks = two_inputs\<rparr> 5000000"

definition first_calls :: "plan_call list" where
  "first_calls =
     [open_call,
      Start_Call (plan_world []) (sample_ids ''b'') ''s'' ''a2'' ''a0'' ''u'' 6000000,
      Complete_Call (plan_world []) (sample_ids ''c'') ''s'' ''a2'' ''a0'' ''u'' ran_evidence 7000000]"

definition last_calls :: "plan_call list" where
  "last_calls =
     [Start_Call (plan_world []) (sample_ids ''d'') ''s'' ''a2'' ''a1'' ''u'' 8000000,
      Complete_Call (plan_world []) (sample_ids ''e'') ''s'' ''a2'' ''a1'' ''u'' ran_evidence 9000000,
      Deliver_Call (plan_world []) (sample_ids ''f'') ''s'' ''a2'' ''u'' (\<lambda>_. 10000000)]"

definition run_plan :: "plan_call list \<Rightarrow> plan_db" where
  "run_plan cs = fold perform cs (empty_plans [(''s'', ''/w'')])"

lemma run_plan_reachable: "plan_reachable (run_plan cs)"
  unfolding run_plan_def by (rule run_calls [OF plan_init])

section \<open>Creation and the graph check\<close>

text \<open>With identifiers that are fresh and not blank, \<^verbatim>\<open>normalizeTaskInputs\<close> accepts exactly the lists of
  1 to 100 tasks with titles and different local names whose references name tasks of the list and form no
  cycle.\<close>

theorem normalize_accepts:
  assumes "good_draws ids (length xs)"
  shows "is_ok (normalize_task_inputs ids xs) \<longleftrightarrow> well_formed_inputs xs"
  by (rule normalize_accepts_iff [OF assms])

lemma normalize_accepts_witness:
  "good_draws (\<lambda>k. ''pt_'' @ show_nat k) (length two_inputs) \<and>
   is_ok (normalize_task_inputs (\<lambda>k. ''pt_'' @ show_nat k) two_inputs) \<and> well_formed_inputs two_inputs"
proof -
  have "map (\<lambda>k. trim_space (''pt_'' @ show_nat k)) [0, 1] = [''pt_0'', ''pt_1'']"
    "map (\<lambda>k. ''pt_'' @ show_nat k) [0, 1] = [''pt_0'', ''pt_1'']" by code_simp+
  moreover have "{..<length two_inputs} = {0, 1}" by (auto simp: two_inputs_def)
  ultimately have draws: "good_draws (\<lambda>k. ''pt_'' @ show_nat k) (length two_inputs)"
    unfolding good_draws_def by (simp add: two_inputs_def less_Suc_eq)
  moreover have ok: "is_ok (normalize_task_inputs (\<lambda>k. ''pt_'' @ show_nat k) two_inputs)" by code_simp
  moreover have "well_formed_inputs two_inputs" using normalize_accepts [OF draws] ok by simp
  ultimately show ?thesis by blast
qed

text \<open>C28: \<^verbatim>\<open>validateTaskGraph\<close> returns on every list of tasks, also with repeated identifiers and cycles, and
  reports no error exactly when every dependency is a task of the list and no task depends on itself, however
  indirectly.\<close>

theorem validate_task_graph_answers:
  "validate_task_graph tasks \<noteq> None \<and> (validate_task_graph tasks = Some (Inr ()) \<longleftrightarrow> task_graph_valid tasks)"
  by (rule validate_task_graph_cases)

section \<open>Invariant and refinement\<close>

text \<open>C6: In every reachable state identifiers are unique, the tasks of each plan form a closed acyclic graph, a
  completed task has validated evidence, all tasks of a completed plan are completed, none of a ready plan is
  begun, and a task handed to an issue is no longer to do.\<close>

theorem reachable_plans_ok:
  assumes "plan_reachable db"
  shows "plan_ok db"
  by (rule reachable_plan_ok [OF assms])

lemma reachable_plans_ok_witness:
  "plan_ok (run_plan (first_calls @ last_calls)) \<and> map p_status (pd_plans (run_plan (first_calls @ last_calls))) = [P_Completed]"
  by (rule conjI [OF reachable_plans_ok [OF run_plan_reachable]]) code_simp

text \<open>C4: Every call of the service, successful or not, is one step of the abstract life cycle on the tasks or
  leaves them as they are: a task starts only when all its dependencies are done, finishes or blocks only from
  being in progress, finished tasks never change, and the tasks of one plan are revised at a time, into a valid
  graph.\<close>

theorem calls_refine_lifecycle:
  assumes "plan_reachable db"
  shows "lifecycle (view_of db) (view_of (perform c db))"
  by (rule perform_lifecycle [OF reachable_plan_ok [OF assms]])

lemma calls_refine_lifecycle_witness:
  "lifecycle (view_of (run_plan [open_call])) (view_of (perform (first_calls ! 1) (run_plan [open_call]))) \<and>
   map t_status (pd_tasks (perform (first_calls ! 1) (run_plan [open_call]))) = [T_In_Progress, T_Todo]"
  by (rule conjI [OF calls_refine_lifecycle [OF run_plan_reachable]]) code_simp

section \<open>Finished tasks\<close>

definition evidence_of :: "plan_db \<Rightarrow> bytes \<Rightarrow> evidence set" where
  "evidence_of db i = {e \<in> set (pd_evidence db). e_task e = i}"

text \<open>The row as it is apart from its update time.\<close>

definition row_survives :: "plan_db \<Rightarrow> task_row \<Rightarrow> bool" where
  "row_survives db r \<longleftrightarrow> (\<exists>r' \<in> set (pd_tasks db). r'\<lparr>t_updated := t_updated r\<rparr> = r)"

lemma row_survives_self: "r \<in> set (pd_tasks db) \<Longrightarrow> row_survives db r"
  unfolding row_survives_def by (rule bexI [of _ r]) simp_all

lemma effect_frozen:
  assumes rows: "rows_ok (pd_plans db) (pd_tasks db)" and effect: "task_effect db db'"
    and r: "r \<in> set (pd_tasks db)" "t_status r = T_Completed"
  shows "row_survives db' r" "evidence_of db' (t_id r) = evidence_of db (t_id r)"
proof -
  from effect have "row_survives db' r \<and> evidence_of db' (t_id r) = evidence_of db (t_id r)"
  proof cases
    case effect_none
    then show ?thesis using r by (simp add: row_survives_self evidence_of_def)
  next
    case (effect_moved session plan i target now g new xs u item)
    have "t_status u \<noteq> T_Completed" using transition_guard_ok(2) [OF effect_moved(6)] by auto
    then have other: "t_id r \<noteq> i" using task_row_unique [OF rows r(1) effect_moved(2)] r(2) effect_moved(4) by auto
    then have "r \<in> set (pd_tasks db')" using effect_moved(1) r(1) by (force simp: task_moved_def task_changed_def)
    then show ?thesis using row_survives_self effect_moved(1,7) other by (auto simp: evidence_of_def task_moved_def)
  next
    case (effect_handed session plan i now g xs u)
    have "r \<in> set (pd_tasks db')" using effect_handed(1) r by (force simp: task_moved_def task_changed_def)
    then show ?thesis using row_survives_self effect_handed(1) by (auto simp: evidence_of_def task_moved_def)
  next
    case (effect_replanned session plan g now tasks h new)
    have stays: "stays plan tasks r"
    proof (cases "t_plan r = plan")
      case True
      then have "load_task db plan r \<in> set (load_tasks db plan)" using r(1) by (auto simp: set_load_tasks)
      moreover have "task_done (t_status (load_task db plan r))" using r(2) by (simp add: task_done_def)
      ultimately have "load_task db plan r \<in> set tasks" using effect_replanned by (auto simp: replanned_def)
      then show ?thesis by (force simp: stays_def)
    qed (simp add: stays_def)
    have "row_kept r (h r)" using effect_replanned r(1) stays by (simp add: replanned_def)
    then have "(h r)\<lparr>t_updated := t_updated r\<rparr> = r" using r(2) by (simp add: row_kept_def task_done_def)
    then have "row_survives db' r" using replanned_row(1) [OF effect_replanned r(1) stays] by (auto simp: row_survives_def)
    moreover have "evidence_of db' (t_id r) = evidence_of db (t_id r)"
      using effect_replanned task_stays_row [OF rows r(1)] stays by (auto simp: evidence_of_def replanned_def)
    ultimately show ?thesis by blast
  next
    case effect_created
    then show ?thesis using r by (simp add: row_survives_self evidence_of_def)
  qed
  then show "row_survives db' r" "evidence_of db' (t_id r) = evidence_of db (t_id r)" by blast+
qed

lemma survives_row:
  assumes "row_survives db r"
  obtains r' where "r' \<in> set (pd_tasks db)" "r'\<lparr>t_updated := t_updated r\<rparr> = r" "t_id r' = t_id r" "t_status r' = t_status r"
proof -
  obtain r' where r': "r' \<in> set (pd_tasks db)" "r'\<lparr>t_updated := t_updated r\<rparr> = r"
    using assms by (auto simp: row_survives_def)
  moreover have "t_id r' = t_id r" "t_status r' = t_status r" using arg_cong [OF r'(2), of t_id] arg_cong [OF r'(2), of t_status] by simp_all
  ultimately show thesis by (rule that)
qed

lemma frozen_run:
  "plan_ok db \<Longrightarrow> row_survives db r \<Longrightarrow> t_status r = T_Completed \<Longrightarrow>
     row_survives (fold perform cs db) r \<and> evidence_of (fold perform cs db) (t_id r) = evidence_of db (t_id r)"
proof (induction cs arbitrary: db)
  case (Cons c cs)
  have rows: "rows_ok (pd_plans db) (pd_tasks db)" using Cons.prems(1) by (simp add: plan_ok_def)
  obtain r' where r': "r' \<in> set (pd_tasks db)" "r'\<lparr>t_updated := t_updated r\<rparr> = r" "t_id r' = t_id r" "t_status r' = t_status r"
    by (rule survives_row [OF Cons.prems(2)])
  note step = effect_frozen [OF rows perform_effect [OF Cons.prems(1)] r'(1), of c]
  have "row_survives (perform c db) r"
  proof -
    obtain r2 where "r2 \<in> set (pd_tasks (perform c db))" "r2\<lparr>t_updated := t_updated r'\<rparr> = r'"
      using step(1) r'(4) Cons.prems(3) by (auto simp: row_survives_def)
    moreover have "r2\<lparr>t_updated := t_updated r\<rparr> = r2\<lparr>t_updated := t_updated r'\<rparr>\<lparr>t_updated := t_updated r\<rparr>" by simp
    ultimately show ?thesis using r'(2) unfolding row_survives_def by metis
  qed
  from Cons.IH [OF perform_keeps [OF Cons.prems(1)] this Cons.prems(3)] step(2) r'(3,4) Cons.prems(3)
  show ?case by simp
qed simp

text \<open>C8: A completed task stays: whatever calls follow, its row survives with every column but the update time,
  and its evidence is exactly what it was.\<close>

theorem completed_tasks_are_frozen:
  assumes "plan_reachable db" "r \<in> set (pd_tasks db)" "t_status r = T_Completed"
  shows "row_survives (fold perform cs db) r \<and> evidence_of (fold perform cs db) (t_id r) = evidence_of db (t_id r)"
  by (rule frozen_run [OF reachable_plan_ok [OF assms(1)] _ assms(3)]) (rule row_survives_self [OF assms(2)])

definition remove_everything :: plan_call where
  "remove_everything = Replan_Call (sample_ids ''r'') ''s'' ''a2'' ''u''
     \<lparr>ri_goal = [], ri_summary = [], ri_reason = ''why'',
      ri_operations = [\<lparr>to_action = ''update'', to_task = ''a1'', to_title = ''new'', to_description = [], to_depends_on = []\<rparr>]\<rparr>
     20000000"

lemma completed_tasks_are_frozen_witness:
  "(let r = hd (pd_tasks (run_plan first_calls)) in
     row_survives (fold perform [remove_everything] (run_plan first_calls)) r \<and> t_status r = T_Completed) \<and>
   map t_title (pd_tasks (fold perform [remove_everything] (run_plan first_calls))) = [''one'', ''new'']"
proof -
  let ?r = "hd (pd_tasks (run_plan first_calls))"
  have r: "?r \<in> set (pd_tasks (run_plan first_calls))" "t_status ?r = T_Completed"
    by (rule hd_in_set, code_simp) code_simp
  have "map t_title (pd_tasks (fold perform [remove_everything] (run_plan first_calls))) = [''one'', ''new'']" by code_simp
  then show ?thesis using completed_tasks_are_frozen [OF run_plan_reachable r, of "[remove_everything]"] r(2) by simp
qed

end
