(* ===== verification/Plan_Delivery.thy ===== *)
theory Plan_Delivery
  imports Plan_Safety
begin

text \<open>
  How a plan ends: an open plan can always move (\<open>open_plan_moves\<close>), what \<^verbatim>\<open>Deliver\<close> asks for
  (\<open>delivery_needs_everything\<close>) and that it may be asked again after the end
  (\<open>delivery_reopens_a_completed_plan\<close>), and the claim that lets one caller create the external issue of a
  task (\<open>one_claim_at_a_time\<close>). \<open>blockers_hold\<close> rewrites the blockers of \<^verbatim>\<open>deliveryChecks\<close> as a condition on the
  pieces of evidence; \<open>claim_kept\<close> is what every call leaves of a claim.
\<close>

section \<open>An open plan moves\<close>

lemma find_own_plan:
  assumes "rows_ok (pd_plans db) ts" "p \<in> set (pd_plans db)"
  shows "find_plan_row db (p_session p) (p_id p) = Some p"
proof (cases "find_plan_row db (p_session p) (p_id p)")
  case None
  then show ?thesis using assms(2) by (auto simp: find_plan_row_def find_None_all)
next
  case (Some q)
  then show ?thesis using find_plan_row_ok [OF Some] plan_row_unique [OF assms(1)] assms(2) by metis
qed

lemma load_own_plan:
  assumes "rows_ok (pd_plans db) ts" "p \<in> set (pd_plans db)"
  obtains item where "load_plan db (p_session p) (p_id p) = Inr item" "pl_tasks item = load_tasks db (p_id p)"
    "p_status item = p_status p"
proof -
  have "load_plan db (p_session p) (p_id p) = Inr (plan_row.extend p (plan.fields (load_tasks db (p_id p))
      (calculate_progress (load_tasks db (p_id p))) (load_events db (p_id p))))"
    by (simp add: load_plan_def find_own_plan [OF assms] Let_def)
  then show thesis by (rule that) (simp_all add: plan_row.defs plan.defs)
qed

lemma index_by_id_finds:
  assumes "distinct (map t_id ts)" "t \<in> set ts"
  shows "ts ! index_by_id ts (t_id t) = t"
proof -
  obtain k where "k < length ts" "ts ! k = t" using assms(2) by (auto simp: in_set_conv_nth)
  then show ?thesis using task_index_nth [OF assms(1), of k] by (simp add: index_by_id_def)
qed

text \<open>What \<^verbatim>\<open>StartTask\<close> needs, and the task it returns.\<close>

lemma start_succeeds:
  assumes ok: "plan_ok db" and p: "p \<in> set (pd_plans db)" "\<not> plan_closed (p_status p)"
    and r: "r \<in> set (pd_tasks db)" "t_plan r = p_id p" "t_status r = T_Todo \<or> t_status r = T_Blocked"
    and deps: "\<forall>d \<in> set (t_depends_on r). \<exists>u \<in> set (pd_tasks db). t_plan u = p_id p \<and> t_id u = d \<and> task_done (t_status u)"
    and named: "trim_space (p_session p) \<noteq> []" "trim_space (p_id p) \<noteq> []" "trim_space (t_id r) \<noteq> []" "trim_space who \<noteq> []"
    and fresh: "ids 0 \<notin> v_id ` set (pd_events db)"
  shows "\<exists>db' t. start_task w ids (p_session p) (p_id p) (t_id r) who now db = (db', Inr t) \<and> t_id t = t_id r \<and>
    t_plan t = p_id p \<and> t_status t = T_In_Progress"
proof -
  let ?plan = "p_id p" and ?f = "set_task_status T_In_Progress now"
  have rows: "rows_ok (pd_plans db) (pd_tasks db)" using ok by (simp add: plan_ok_def)
  obtain item where item: "load_plan db (p_session p) ?plan = Inr item" "pl_tasks item = load_tasks db ?plan"
    "p_status item = p_status p" by (rule load_own_plan [OF rows p(1)])
  have dist: "distinct (map t_id (load_tasks db ?plan))" by (rule distinct_load_tasks) (use rows in \<open>simp add: rows_ok_def\<close>)
  have "load_task db ?plan r \<in> set (load_tasks db ?plan)" using r(1,2) by (auto simp: set_load_tasks)
  from find_task_distinct [OF dist this] item(2)
  have t: "find_task (pl_tasks item) (t_id r) = Inr (load_task db ?plan r)" by simp
  have "dependencies_complete (pl_tasks item) (load_task db ?plan r) = Inr ()"
    unfolding item(2) dependencies_complete_iff [OF dist] using deps by (fastforce simp: set_load_tasks)
  then have guard: "transition_guard item (load_task db ?plan r) T_In_Progress = Inr ()"
    using p(2) r(3) item(3) by (auto simp: transition_guard_def)
  let ?db1 = "update_plan (p_session p) ?plan (set_plan_status (status_after T_In_Progress (p_status item)) now)
      (update_task ?plan (t_id r) ?f db)"
  have "map p_id (pd_plans ?db1) = map p_id (pd_plans db)" "map t_id (pd_tasks ?db1) = map t_id (pd_tasks db)"
    by (simp_all add: update_plan_def update_task_def set_plan_status_def set_task_status_def)
  then have same: "p_id ` set (pd_plans ?db1) = p_id ` set (pd_plans db)" "t_id ` set (pd_tasks ?db1) = t_id ` set (pd_tasks db)"
    by (metis set_map)+
  have events: "pd_events ?db1 = pd_events db" by (simp add: update_plan_def update_task_def)
  obtain db' where event: "insert_event (ids 0) ?plan (t_id r) ''plan_task.started'' [] who
      (JObj [(''status'', JStr (task_status_name T_In_Progress))]) now ?db1 = Inr db'"
    unfolding insert_event_def same events using fresh p(1) r(1) by auto
  have tx: "transition_tx w ids (p_session p) ?plan (t_id r) who T_In_Progress ''plan_task.started'' [] [] now db = Inr db'"
    using event by (simp add: transition_tx_def item(1) t guard insert_evidence_batch_def)
  have tasks: "pd_tasks db' = map (\<lambda>u. if t_id u = t_id r \<and> t_plan u = ?plan then ?f u else u) (pd_tasks db)"
    using insert_event_ok [OF event] by (auto simp: update_plan_def update_task_def)
  have run: "start_task w ids (p_session p) ?plan (t_id r) who now db =
      (db', and_then (get_plan (p_session p) ?plan db') (\<lambda>item. Inr (pl_tasks item ! index_by_id (pl_tasks item) (t_id r))))"
    using named by (simp add: start_task_def transition_task_def run_tx_def tx)
  have "plan_ok db'" using perform_keeps [OF ok, of "Start_Call w ids (p_session p) ?plan (t_id r) who now"] run by simp
  then have rows': "rows_ok (pd_plans db') (pd_tasks db')" by (simp add: plan_ok_def)
  have "set_plan_status (status_after T_In_Progress (p_status item)) now p \<in> set (pd_plans db')"
    using insert_event_ok [OF event] p(1) by (force simp: update_plan_def update_task_def)
  then obtain p' where p': "p' \<in> set (pd_plans db')" "p_id p' = ?plan" "p_session p' = p_session p"
    by (rule that) (simp_all add: set_plan_status_def)
  obtain item' where item': "load_plan db' (p_session p) ?plan = Inr item'" "pl_tasks item' = load_tasks db' ?plan"
    using load_own_plan [OF rows' p'(1)] p'(2,3) by metis
  have r': "?f r \<in> set (pd_tasks db')" using r(1,2) unfolding tasks by force
  then have u: "load_task db' ?plan (?f r) \<in> set (load_tasks db' ?plan)"
    using r(2) by (auto simp: set_load_tasks set_task_status_def)
  have "distinct (map t_id (load_tasks db' ?plan))" by (rule distinct_load_tasks) (use rows' in \<open>simp add: rows_ok_def\<close>)
  from index_by_id_finds [OF this u] show ?thesis
    using run item' named r(2) by (simp add: get_plan_def set_task_status_def)
qed

lemma some_task_ready:
  assumes ok: "plan_ok db" and r: "r \<in> set (pd_tasks db)" "t_status r \<noteq> T_Completed"
  shows "\<exists>u \<in> set (pd_tasks db). t_plan u = t_plan r \<and> t_status u \<noteq> T_Completed \<and>
    (\<forall>d \<in> set (t_depends_on u). \<exists>v \<in> set (pd_tasks db). t_plan v = t_plan r \<and> t_id v = d \<and> task_done (t_status v))"
proof -
  let ?N = "plan_task_ids (pd_tasks db) (t_plan r)"
    and ?D = "{t_id v | v. v \<in> set (pd_tasks db) \<and> t_plan v = t_plan r \<and> t_status v = T_Completed}"
  have rows: "rows_ok (pd_plans db) (pd_tasks db)" using ok by (simp add: plan_ok_def)
  then have dist: "distinct (map t_id (pd_tasks db))" by (simp add: rows_ok_def)
  have graph: "valid_graph ?N (plan_row_deps (pd_tasks db))"
    using ok by (simp add: plan_ok_def graphs_ok_def plan_graph_ok_def)
  have fin: "finite ?N" by (simp add: plan_task_ids_pairs dep_pairs_def)
  have "t_id r \<in> ?N" "t_id r \<notin> ?D" using r task_row_unique [OF rows r(1)] by (auto simp: plan_task_ids_def)
  from valid_graph_progress [OF graph fin this] obtain n where n: "n \<in> ?N" "n \<notin> ?D" "set (plan_row_deps (pd_tasks db) n) \<subseteq> ?D"
    by blast
  from n(1) obtain u where u: "u \<in> set (pd_tasks db)" "t_plan u = t_plan r" "n = t_id u" by (auto simp: plan_task_ids_def)
  have deps: "set (t_depends_on u) \<subseteq> ?D" using n(3) u(3) plan_row_deps_distinct [OF dist u(1)] by simp
  show ?thesis
  proof (rule bexI [OF _ u(1)], intro conjI ballI)
    show "t_plan u = t_plan r" by (rule u(2))
    show "t_status u \<noteq> T_Completed" using n(2) u by auto
    show "\<exists>v \<in> set (pd_tasks db). t_plan v = t_plan r \<and> t_id v = d \<and> task_done (t_status v)"
      if "d \<in> set (t_depends_on u)" for d
      using that deps by (force simp: task_done_def)
  qed
qed


text \<open>C38: In an open plan with an unfinished task and none in progress, some task can be started: the call
  succeeds and returns that task in progress.\<close>

theorem open_plan_moves:
  assumes "plan_reachable db" "p \<in> set (pd_plans db)" "\<not> plan_closed (p_status p)"
    and "\<exists>r \<in> set (pd_tasks db). t_plan r = p_id p \<and> t_status r \<noteq> T_Completed"
    and "\<forall>r \<in> set (pd_tasks db). t_plan r = p_id p \<longrightarrow> t_status r \<noteq> T_In_Progress"
    and "\<forall>s \<in> {p_session p, p_id p, who} \<union> t_id ` set (pd_tasks db). trim_space s \<noteq> []"
    and "ids 0 \<notin> v_id ` set (pd_events db)"
  shows "\<exists>i db' t. start_task w ids (p_session p) (p_id p) i who now db = (db', Inr t) \<and> t_id t = i \<and>
    t_plan t = p_id p \<and> t_status t = T_In_Progress"
proof -
  have ok: "plan_ok db" by (rule reachable_plan_ok [OF assms(1)])
  obtain r where r: "r \<in> set (pd_tasks db)" "t_plan r = p_id p" "t_status r \<noteq> T_Completed" using assms(4) by blast
  obtain u where u: "u \<in> set (pd_tasks db)" "t_plan u = p_id p" "t_status u \<noteq> T_Completed"
    "\<forall>d \<in> set (t_depends_on u). \<exists>v \<in> set (pd_tasks db). t_plan v = p_id p \<and> t_id v = d \<and> task_done (t_status v)"
    using some_task_ready [OF ok r(1,3)] r(2) by auto
  have "t_status u \<noteq> T_In_Progress" "t_status u \<noteq> T_Skipped"
    using assms(5) u(1,2) ok by (auto simp: plan_ok_def rows_ok_def)
  then have "t_status u = T_Todo \<or> t_status u = T_Blocked" using u(3) by (cases "t_status u") auto
  then show ?thesis using start_succeeds [OF ok assms(2,3) u(1,2) _ u(4), of who ids w now] assms(6,7) u(1) by auto
qed

lemma open_plan_moves_witness:
  "(\<exists>i db' t. start_task (plan_world []) (sample_ids ''d'') ''s'' ''a2'' i ''u'' 8000000 (run_plan first_calls) = (db', Inr t) \<and>
     t_id t = i \<and> t_plan t = ''a2'' \<and> t_status t = T_In_Progress) \<and>
   map t_status (pd_tasks (run_plan first_calls)) = [T_Completed, T_Todo]"
proof -
  let ?p = "hd (pd_plans (run_plan first_calls))"
  have "let db = run_plan first_calls; p = hd (pd_plans db); rows = pd_tasks db in
    pd_plans db \<noteq> [] \<and> p_id p = ''a2'' \<and> p_session p = ''s'' \<and> \<not> plan_closed (p_status p) \<and>
    map t_status rows = [T_Completed, T_Todo] \<and> map t_plan rows = [''a2'', ''a2''] \<and>
    list_ex (\<lambda>r. t_plan r = p_id p \<and> t_status r \<noteq> T_Completed) rows \<and>
    list_all (\<lambda>r. t_plan r = p_id p \<longrightarrow> t_status r \<noteq> T_In_Progress) rows \<and>
    list_all (\<lambda>s. trim_space s \<noteq> []) ([p_session p, p_id p, ''u''] @ map t_id rows) \<and>
    list_all (\<lambda>v. sample_ids ''d'' 0 \<noteq> v_id v) (pd_events db)" by code_simp
  then have plans: "pd_plans (run_plan first_calls) \<noteq> []" and facts: "p_id ?p = ''a2''" "p_session ?p = ''s''" "\<not> plan_closed (p_status ?p)"
    "map t_status (pd_tasks (run_plan first_calls)) = [T_Completed, T_Todo]"
    "map t_plan (pd_tasks (run_plan first_calls)) = [''a2'', ''a2'']"
    "list_ex (\<lambda>r. t_plan r = p_id ?p \<and> t_status r \<noteq> T_Completed) (pd_tasks (run_plan first_calls))"
    "list_all (\<lambda>r. t_plan r = p_id ?p \<longrightarrow> t_status r \<noteq> T_In_Progress) (pd_tasks (run_plan first_calls))"
    "list_all (\<lambda>s. trim_space s \<noteq> []) ([p_session ?p, p_id ?p, ''u''] @ map t_id (pd_tasks (run_plan first_calls)))"
    "list_all (\<lambda>v. sample_ids ''d'' 0 \<noteq> v_id v) (pd_events (run_plan first_calls))"
    unfolding Let_def by blast+
  have p: "?p \<in> set (pd_plans (run_plan first_calls))" using plans by (rule hd_in_set)
  show ?thesis
    using open_plan_moves [OF run_plan_reachable p facts(3), of "''u''" "sample_ids ''d''" "plan_world []" 8000000] facts
    by (auto simp: list_ex_iff list_all_iff)
qed

section \<open>Delivering\<close>

text \<open>What a delivery asks of a piece of evidence, on the records it refers to.\<close>

definition evidence_holds :: "evidence_world \<Rightarrow> bytes \<Rightarrow> evidence \<Rightarrow> bool" where
  "evidence_holds w session e \<longleftrightarrow>
     (let i = trim_space (e_reference e) in i \<noteq> [] \<longrightarrow>
        (e_kind e = ''execute'' \<longrightarrow> (\<exists>r \<in> set (ew_terminals w). tt_session r = session \<and> tt_id r = i \<and>
           tt_status r = ''exited'' \<and> tt_exit_code r = Some 0)) \<and>
        (e_kind e = ''artifact'' \<longrightarrow> (session, i) \<in> set (ew_artifacts w)) \<and>
        (e_kind e = ''edit'' \<longrightarrow> (\<exists>r \<in> set (ew_edits w). ed_session r = session \<and> ed_id r = i \<and> ed_state r = ''succeeded'')))"

text \<open>The primary keys of the two tables.\<close>

definition keyed_world :: "evidence_world \<Rightarrow> bool" where
  "keyed_world w \<longleftrightarrow> distinct (map tt_id (ew_terminals w)) \<and> distinct (map ed_id (ew_edits w))"

lemma map_of_filter_rows:
  assumes "distinct (map k rows)"
  shows "map_of (rev (map (\<lambda>r. (k r, f r)) (filter P rows))) i = Some v \<longleftrightarrow> (\<exists>r \<in> set rows. P r \<and> k r = i \<and> f r = v)"
proof -
  let ?xs = "rev (map (\<lambda>r. (k r, f r)) (filter P rows))"
  have "distinct (map fst ?xs)"
    using distinct_map_filter [OF assms, of P] by (simp add: rev_map [symmetric] comp_def)
  then have "map_of ?xs i = Some v \<longleftrightarrow> (i, v) \<in> set ?xs" by (rule map_of_eq_Some_iff)
  then show ?thesis by auto
qed

lemma query_edit_statuses_iff:
  assumes "keyed_world w" "i \<in> set (unique_strings ids)"
  shows "query_edit_statuses w session ids i = Some s \<longleftrightarrow>
    (\<exists>r \<in> set (ew_edits w). ed_session r = session \<and> ed_id r = i \<and> ed_state r = s)"
  unfolding query_edit_statuses_def
  by (subst map_of_filter_rows) (use assms in \<open>auto simp: keyed_world_def\<close>)

lemma query_task_outcomes_iff:
  assumes "keyed_world w" "i \<in> set (unique_strings ids)"
  shows "query_task_outcomes w session ids i = Some (s, 0) \<longleftrightarrow>
    (\<exists>r \<in> set (ew_terminals w). tt_session r = session \<and> tt_id r = i \<and> tt_status r = s \<and> tt_exit_code r = Some 0)"
  unfolding query_task_outcomes_def
  by (subst map_of_filter_rows) (use assms in \<open>auto simp: keyed_world_def split: option.splits\<close>)

lemma unique_references:
  "set (unique_strings (references kind tasks)) =
     {trim_space (e_reference e) | e. e \<in> set (plan_evidence tasks) \<and> e_kind e = kind \<and> trim_space (e_reference e) \<noteq> []}"
  by (auto simp: set_unique_strings references_def)

lemma blockers_hold:
  assumes "keyed_world w"
  shows "execution_blockers w session tasks = [] \<and> edit_blockers w session tasks = [] \<longleftrightarrow>
    (\<forall>e \<in> set (plan_evidence tasks). evidence_holds w session e)"
proof -
  have runs: "(\<forall>i \<in> set (unique_strings (references ''execute'' tasks)).
        query_task_outcomes w session (references ''execute'' tasks) i = Some (''exited'', 0)) \<longleftrightarrow>
      (\<forall>e \<in> set (plan_evidence tasks). e_kind e = ''execute'' \<and> trim_space (e_reference e) \<noteq> [] \<longrightarrow>
        (\<exists>r \<in> set (ew_terminals w). tt_session r = session \<and> tt_id r = trim_space (e_reference e) \<and>
           tt_status r = ''exited'' \<and> tt_exit_code r = Some 0))"
    using query_task_outcomes_iff [OF assms, of _ "references ''execute'' tasks" session "''exited''"]
    unfolding unique_references by blast
  have edits: "(\<forall>i \<in> set (unique_strings (references ''edit'' tasks)).
        query_edit_statuses w session (references ''edit'' tasks) i = Some ''succeeded'') \<longleftrightarrow>
      (\<forall>e \<in> set (plan_evidence tasks). e_kind e = ''edit'' \<and> trim_space (e_reference e) \<noteq> [] \<longrightarrow>
        (\<exists>r \<in> set (ew_edits w). ed_session r = session \<and> ed_id r = trim_space (e_reference e) \<and> ed_state r = ''succeeded''))"
    using query_edit_statuses_iff [OF assms, of _ "references ''edit'' tasks" session "''succeeded''"]
    unfolding unique_references by blast
  have artifacts: "(\<forall>i \<in> set (unique_strings (references ''artifact'' tasks)). query_existing_ids w session (references ''artifact'' tasks) i) \<longleftrightarrow>
      (\<forall>e \<in> set (plan_evidence tasks). e_kind e = ''artifact'' \<and> trim_space (e_reference e) \<noteq> [] \<longrightarrow>
        (session, trim_space (e_reference e)) \<in> set (ew_artifacts w))"
    unfolding query_existing_ids_def unique_references by blast
  have "execution_blockers w session tasks = [] \<and> edit_blockers w session tasks = [] \<longleftrightarrow>
      (\<forall>i \<in> set (unique_strings (references ''execute'' tasks)).
        query_task_outcomes w session (references ''execute'' tasks) i = Some (''exited'', 0)) \<and>
      (\<forall>i \<in> set (unique_strings (references ''artifact'' tasks)). query_existing_ids w session (references ''artifact'' tasks) i) \<and>
      (\<forall>i \<in> set (unique_strings (references ''edit'' tasks)).
        query_edit_statuses w session (references ''edit'' tasks) i = Some ''succeeded'')"
    by (simp add: execution_blockers_def edit_blockers_def Let_def filter_empty_conv)
  then show ?thesis unfolding runs edits artifacts evidence_holds_def Let_def by blast
qed


text \<open>C10: \<^verbatim>\<open>Deliver\<close> closes a plan exactly when all its tasks are done, no evidence of theirs is a failed
  verification, every execution exited with 0, every artifact exists, every edit succeeded, and no approval of
  the session is waiting. Otherwise the plan is blocked.\<close>

theorem delivery_needs_everything:
  assumes "keyed_world w" "plan_reachable db" "deliver w ids session plan who t db = (db', Inr d)"
  shows "(dl_ready d \<longleftrightarrow>
       (\<forall>r \<in> set (pd_tasks db). t_plan r = plan \<longrightarrow> task_done (t_status r)) \<and>
       (\<forall>e \<in> set (pd_evidence db). e_plan e = plan \<longrightarrow> \<not> evidence_failed e \<and> evidence_holds w session e) \<and>
       (\<forall>a \<in> set (ew_approvals w). ar_session a = session \<longrightarrow> \<not> row_live (t 0) a)) \<and>
     p_status (dl_plan d) = (if dl_ready d then P_Completed else P_Blocked)"
proof -
  have ok: "plan_ok db" by (rule reachable_plan_ok [OF assms(2)])
  obtain item db1 updated where item: "load_plan db session plan = Inr item"
    and tx: "deliver_tx ids session plan who (delivery_blockers w session (pl_tasks item) (t 0)) (t 1) db = Inr db1"
    and get: "get_plan session plan db1 = Inr updated"
    and d: "dl_plan d = updated" "dl_ready d \<longleftrightarrow> delivery_blockers w session (pl_tasks item) (t 0) = []"
    using assms(3) by (auto simp: deliver_def run_tx_def Let_def split: if_splits sum.splits)
  have tasks: "pl_tasks item = load_tasks db plan" using load_plan_ok [OF item] by simp
  have all_done: "incomplete_tasks (pl_tasks item) = [] \<longleftrightarrow>
      (\<forall>r \<in> set (pd_tasks db). t_plan r = plan \<longrightarrow> task_done (t_status r))"
    by (auto simp: incomplete_tasks_def filter_empty_conv tasks set_load_tasks)
  have blocked: "incomplete_tasks (pl_tasks item) = [] \<Longrightarrow> blocked_tasks (pl_tasks item) = []"
    by (auto simp: incomplete_tasks_def blocked_tasks_def filter_empty_conv task_done_def)
  have owner: "\<exists>r \<in> set (pd_tasks db). t_plan r = e_plan e \<and> t_id r = e_task e" if "e \<in> set (pd_evidence db)" for e
    using ok that by (auto simp: plan_ok_def evidence_ok_def dest: bspec)
  have "set (plan_evidence (pl_tasks item)) =
      {e \<in> set (pd_evidence db). e_plan e = plan \<and> (\<exists>r \<in> set (pd_tasks db). t_plan r = plan \<and> t_id r = e_task e)}"
    by (auto simp: plan_evidence_def tasks set_load_tasks load_evidence_def)
  with owner have evidence: "set (plan_evidence (pl_tasks item)) = {e \<in> set (pd_evidence db). e_plan e = plan}"
    by blast
  have "dl_ready d \<longleftrightarrow>
       (\<forall>r \<in> set (pd_tasks db). t_plan r = plan \<longrightarrow> task_done (t_status r)) \<and>
       (\<forall>e \<in> set (pd_evidence db). e_plan e = plan \<longrightarrow> \<not> evidence_failed e \<and> evidence_holds w session e) \<and>
       (\<forall>a \<in> set (ew_approvals w). ar_session a = session \<longrightarrow> \<not> row_live (t 0) a)"
    unfolding d(2) delivery_blockers_Nil all_done [symmetric] using blocked blockers_hold [OF assms(1), of session "pl_tasks item"]
    by (auto simp: failed_verification_def filter_empty_conv pending_approvals_def evidence)
  moreover have "p_status updated = (if dl_ready d then P_Completed else P_Blocked)"
  proof -
    obtain p where p: "find_plan_row db1 session plan = Some p" "p_status p = p_status updated"
      using get by (auto simp: get_plan_def dest!: load_plan_ok split: if_splits) (simp add: plan_row.defs)
    have "pd_plans db1 = map (\<lambda>r. if p_id r = plan \<and> p_session r = session
        then deliver_row (delivery_blockers w session (pl_tasks item) (t 0)) (t 1) r else r) (pd_plans db)"
      using insert_event_ok [OF tx [unfolded deliver_tx_def]] by (auto simp: update_plan_def)
    moreover have "p \<in> set (pd_plans db1)" "p_id p = plan" "p_session p = session" using find_plan_row_ok [OF p(1)] by simp_all
    ultimately obtain q where "p = deliver_row (delivery_blockers w session (pl_tasks item) (t 0)) (t 1) q"
      by (auto split: if_splits)
    then show ?thesis using p(2) d(2) by (auto simp: deliver_row_def)
  qed
  ultimately show ?thesis using d(1) by simp
qed

lemma delivery_needs_everything_witness:
  "dl_ready (case snd (deliver (plan_world []) (sample_ids ''f'') ''s'' ''a2'' ''u'' (\<lambda>_. 10000000)
     (run_plan (first_calls @ butlast last_calls))) of Inr d \<Rightarrow> d) \<and>
   list_all (evidence_holds (plan_world []) ''s'') (pd_evidence (run_plan (first_calls @ butlast last_calls)))"
proof -
  let ?db = "run_plan (first_calls @ butlast last_calls)" and ?t = "\<lambda>_::nat. 10000000 :: int"
  let ?out = "deliver (plan_world []) (sample_ids ''f'') ''s'' ''a2'' ''u'' ?t ?db"
  have "let db = ?db; out = deliver (plan_world []) (sample_ids ''f'') ''s'' ''a2'' ''u'' ?t db in
    is_ok (snd out) \<and> dl_ready (case snd out of Inr d \<Rightarrow> d) \<and> list_all (\<lambda>e. e_plan e = ''a2'') (pd_evidence db)" by code_simp
  then have "is_ok (snd ?out)" "dl_ready (case snd ?out of Inr d \<Rightarrow> d)"
    and evidence: "list_all (\<lambda>e. e_plan e = ''a2'') (pd_evidence ?db)" unfolding Let_def by blast+
  then obtain db' d where out: "?out = (db', Inr d)" "dl_ready d" by (cases ?out) (auto simp: is_ok_iff)
  have keyed: "keyed_world (plan_world [])" by (simp add: keyed_world_def plan_world_def)
  show ?thesis using delivery_needs_everything [OF keyed run_plan_reachable out(1)] out evidence by (simp add: list_all_iff)
qed


definition waiting_rows :: "approval_row list" where
  "waiting_rows = (case as_rows (fst (put_pending (\<lambda>ps. ps) ''ap'' ''token'' (\<lambda>_. 5000000) sample_approval sample_store)) of
     None \<Rightarrow> [] | Some rows \<Rightarrow> rows)"

definition late_replan :: replan_input where
  "late_replan = \<lparr>ri_goal = ''other'', ri_summary = [], ri_reason = ''why'', ri_operations = []\<rparr>"

text \<open>\<^verbatim>\<open>Deliver\<close> has no test for a plan that is completed already: called again while an approval of the
  session is waiting, it takes the completed plan back to blocked, drops its completion time, and the plan
  can be replanned, which a completed plan refuses.\<close>

theorem delivery_reopens_a_completed_plan:
  "(let db = run_plan (first_calls @ last_calls);
        db' = perform (Deliver_Call (plan_world waiting_rows) (sample_ids ''g'') ''s'' ''a2'' ''u'' (\<lambda>_. 11000000)) db
    in map (\<lambda>p. (p_status p, p_completed p)) (pd_plans db) = [(P_Completed, Some 10)] \<and>
       snd (replan (sample_ids ''h'') ''s'' ''a2'' ''u'' late_replan 12000000 db) = Inl E_Invalid_State \<and>
       map (\<lambda>p. (p_status p, p_completed p)) (pd_plans db') = [(P_Blocked, None)] \<and>
       is_ok (snd (replan (sample_ids ''h'') ''s'' ''a2'' ''u'' late_replan 12000000 db')))"
  by code_simp

section \<open>One issue per task\<close>

text \<open>The claim on a task: either its issue exists or the claim was last renewed at \<open>seen\<close>.\<close>

definition claim_kept :: "bytes \<Rightarrow> int \<Rightarrow> plan_db \<Rightarrow> bool" where
  "claim_kept i seen db \<longleftrightarrow> (\<exists>x \<in> set (pd_dispatches db). x_task x = i \<and> (x_status x = Dispatched \<or> x_updated x = seen))"

text \<open>A call that leaves the claim alone: no replanning, which may remove the task, and no claim on the task
  after the lease is over.\<close>

definition within_lease :: "bytes \<Rightarrow> int \<Rightarrow> plan_call \<Rightarrow> bool" where
  "within_lease i seen c \<longleftrightarrow>
     (case c of
        Replan_Call _ _ _ _ _ _ \<Rightarrow> False
      | Claim_Call _ _ j _ _ lease now \<Rightarrow> j = i \<longrightarrow> now - of_milli seen < lease
      | _ \<Rightarrow> True)"

lemma claim_kept_cong: "pd_dispatches db' = pd_dispatches db \<Longrightarrow> claim_kept i seen db' = claim_kept i seen db"
  by (simp add: claim_kept_def)

lemma claim_kept_map:
  assumes "claim_kept i seen db" "pd_dispatches db' = map f (pd_dispatches db)"
    and "\<And>x. x \<in> set (pd_dispatches db) \<Longrightarrow> x_task (f x) = x_task x \<and> (x_status x = Dispatched \<longrightarrow> x_status (f x) = Dispatched) \<and>
      (x_task x = i \<longrightarrow> x_updated x = seen \<longrightarrow> x_status (f x) = Dispatched \<or> x_updated (f x) = seen)"
  shows "claim_kept i seen db'"
proof -
  obtain x where x: "x \<in> set (pd_dispatches db)" "x_task x = i" "x_status x = Dispatched \<or> x_updated x = seen"
    using assms(1) by (auto simp: claim_kept_def)
  have "f x \<in> set (pd_dispatches db')" using x(1) assms(2) by simp
  then show ?thesis using x(2,3) assms(3) [OF x(1)] unfolding claim_kept_def by metis
qed

lemma claim_kept_more: "claim_kept i seen db \<Longrightarrow> set (pd_dispatches db) \<subseteq> set (pd_dispatches db') \<Longrightarrow> claim_kept i seen db'"
  by (auto simp: claim_kept_def)

text \<open>The claim decides what a further claim within the lease gets.\<close>

lemma find_dispatch_ok:
  "find_dispatch db session plan i = Some x \<Longrightarrow> x \<in> set (pd_dispatches db) \<and> x_task x = i"
  by (auto simp: find_dispatch_def dest: find_Some_in)

lemma dispatch_unique:
  "dispatches_ok ts xs \<Longrightarrow> x \<in> set xs \<Longrightarrow> y \<in> set xs \<Longrightarrow> x_task x = x_task y \<Longrightarrow> x = y"
  by (auto simp: dispatches_ok_def distinct_map dest: inj_onD)

lemma claim_refused:
  assumes ok: "dispatches_ok ts (pd_dispatches db)" and kept: "claim_kept i seen db" and lease: "now - of_milli seen < lease"
  shows "fst (claim_dispatch session plan i who routing lease now db) = db"
    "snd (snd (claim_dispatch session plan i who routing lease now db)) \<noteq> Inr True"
proof -
  obtain x where x: "x \<in> set (pd_dispatches db)" "x_task x = i" "x_status x = Dispatched \<or> x_updated x = seen"
    using kept by (auto simp: claim_kept_def)
  have "fst (claim_dispatch session plan i who routing lease now db) = db \<and>
      snd (snd (claim_dispatch session plan i who routing lease now db)) \<noteq> Inr True"
  proof (cases "find_dispatch db session plan i")
    case None
    have "insert_dispatch (new_dispatch session plan i who routing now) db = Inl E_Store"
      using x by (auto simp: insert_dispatch_def new_dispatch_def split: prod.splits)
    then show ?thesis by (auto simp: claim_dispatch_def None Let_def and_then_def split: sum.splits)
  next
    case (Some y)
    have "y = x" using dispatch_unique [OF ok _ x(1)] find_dispatch_ok [OF Some] x(2) by simp
    then show ?thesis using x(3) lease
      by (auto simp: claim_dispatch_def Some Let_def split: sum.splits)
  qed
  then show "fst (claim_dispatch session plan i who routing lease now db) = db"
    "snd (snd (claim_dispatch session plan i who routing lease now db)) \<noteq> Inr True" by blast+
qed

lemma claim_kept_claim:
  assumes "dispatches_ok ts (pd_dispatches db)" "claim_kept i seen db" "j = i \<longrightarrow> now - of_milli seen < lease"
  shows "claim_kept i seen (fst (claim_dispatch session plan j who routing lease now db))"
proof (cases "j = i")
  case True
  then show ?thesis using claim_refused(1) [OF assms(1,2)] assms(2,3) by simp
next
  case False
  have renew: "claim_kept i seen (db\<lparr>pd_dispatches := renew_claims j who u now (pd_dispatches db)\<rparr>)" for u
    by (rule claim_kept_map [OF assms(2), where f = "\<lambda>x. if renewable j u x then x\<lparr>x_updated := unix_milli now, x_created_by := who\<rparr> else x"])
      (use False in \<open>auto simp: renew_claims_def renewable_def\<close>)
  have more: "claim_kept i seen db'" if "insert_dispatch x db = Inr db'" for x db'
    by (rule claim_kept_more [OF assms(2)]) (use that in \<open>auto simp: insert_dispatch_def split: if_splits\<close>)
  show ?thesis
    using assms(2) renew more by (auto simp: claim_dispatch_def Let_def split: sum.splits option.splits)
qed

lemma claim_kept_run:
  "claim_kept i seen db \<Longrightarrow> (\<And>db'. r = Inr db' \<Longrightarrow> claim_kept i seen db') \<Longrightarrow> claim_kept i seen (fst (run_tx db r k))"
  by (rule run_tx_rule)

lemma claim_kept_transition:
  assumes "claim_kept i seen db"
  shows "claim_kept i seen (fst (transition_task w ids session plan j who target ty reason evidence now db))"
proof -
  have "claim_kept i seen db'"
    if tx: "transition_tx w ids session plan j who target ty reason evidence now db = Inr db'" for db'
    by (rule transition_tx_ok [OF tx]) (use assms in \<open>simp add: task_moved_def claim_kept_def\<close>)
  then show ?thesis using assms by (auto simp: transition_task_def intro!: claim_kept_run)
qed

lemma claim_kept_settle:
  assumes "claim_kept i seen db"
  shows "claim_kept i seen (fst (complete_dispatch ids session who d issue identifier now db))"
proof -
  have "claim_kept i seen db'" if tx: "settle_tx ids session who item d issue identifier now db = Inr db'" for item db'
  proof (rule claim_kept_map [OF assms])
    show "pd_dispatches db' = map (\<lambda>x. if being_created session (x_plan d) (x_task d) x
        then settle_dispatch issue identifier now x else x) (pd_dispatches db)"
      using settle_tx_ok [OF tx] by (auto simp: task_moved_def split: if_splits)
  qed (auto simp: settle_dispatch_def)
  then show ?thesis using assms
    by (auto simp: complete_dispatch_def intro!: claim_kept_run split: sum.splits option.splits)
qed


lemma claim_kept_perform:
  assumes ok: "plan_ok db" and kept: "claim_kept i seen db" and lease: "within_lease i seen c"
  shows "claim_kept i seen (perform c db)"
proof (cases c)
  case (Claim_Call session plan j who routing lease now)
  moreover have "dispatches_ok (pd_tasks db) (pd_dispatches db)" using ok by (simp add: plan_ok_def)
  ultimately show ?thesis using claim_kept_claim [OF _ kept] lease by (simp add: within_lease_def)
next
  case (Create_Call ids session who input now)
  have "pd_dispatches (fst (create_plan ids session who input now db)) = pd_dispatches db"
  proof (cases rule: create_plan_cases [of ids session who input now db])
    case (created p tasks j payload db1 db2)
    then show ?thesis using insert_event_ok [OF created(7)] insert_tasks_ok(1) [OF created(3)]
      by (auto simp: insert_plan_def split: if_splits)
  qed simp
  then show ?thesis using kept Create_Call by (simp add: claim_kept_def)
next
  case (Deliver_Call w ids session plan who t)
  have "pd_dispatches (fst (deliver w ids session plan who t db)) = pd_dispatches db"
    by (auto simp: deliver_def Let_def run_tx_fst deliver_tx_def update_plan_def dest!: insert_event_ok split: sum.splits)
  then show ?thesis using kept Deliver_Call by (simp add: claim_kept_def)
next
  case (Grant_Call lower stamp ids session plan who x t)
  then show ?thesis using kept create_grant_core by (simp add: claim_kept_def same_core_def)
next
  case (Revoke_Call ids session plan who reason t)
  then show ?thesis using kept revoke_core by (simp add: claim_kept_def same_core_def)
next
  case (Usage_Call ids session plan who used t)
  then show ?thesis using kept usage_core by (simp add: claim_kept_def same_core_def)
next
  case (Authorize_Call lower digest ids session plan x now)
  then show ?thesis using kept authorize_core by (simp add: claim_kept_def same_core_def)
next
  case Replan_Call
  then show ?thesis using lease by (simp add: within_lease_def)
qed (simp_all add: claim_kept_transition claim_kept_settle kept start_task_def complete_task_def block_task_def)

lemma claim_kept_calls:
  "plan_ok db \<Longrightarrow> claim_kept i seen db \<Longrightarrow> \<forall>c \<in> set cs. within_lease i seen c \<Longrightarrow>
     plan_ok (fold perform cs db) \<and> claim_kept i seen (fold perform cs db)"
  by (induction cs arbitrary: db) (simp_all add: perform_keeps claim_kept_perform)

lemma claimed:
  assumes "claim_dispatch session plan i who routing lease now db = (db', d, Inr True)"
  shows "claim_kept i (unix_milli now) db'"
proof (cases "find_dispatch db session plan i")
  case None
  then have "insert_dispatch (new_dispatch session plan i who routing now) db = Inr db'"
    using assms by (auto simp: claim_dispatch_def Let_def split: if_splits sum.splits)
  then show ?thesis
    by (auto simp: claim_kept_def insert_dispatch_def new_dispatch_def split: if_splits prod.splits)
next
  case (Some x)
  let ?hit = "\<lambda>x'. renewable i (x_updated x) x'"
  have renewed: "length (filter ?hit (pd_dispatches db)) = 1"
    "db' = db\<lparr>pd_dispatches := renew_claims i who (x_updated x) now (pd_dispatches db)\<rparr>"
    using assms by (auto simp: claim_dispatch_def Some Let_def split: if_splits sum.splits)
  then obtain y where "y \<in> set (pd_dispatches db)" "?hit y" by (metis filter_empty_conv length_0_conv one_neq_zero)
  then show ?thesis unfolding claim_kept_def renewed(2)
    by (intro bexI [of _ "y\<lparr>x_updated := unix_milli now, x_created_by := who\<rparr>"]) (auto simp: renew_claims_def renewable_def)
qed

lemma one_claim:
  assumes "plan_reachable db" "claim_dispatch session plan i who routing lease now db = (db', d, Inr True)"
    and "\<forall>c \<in> set cs. within_lease i (unix_milli now) c" "later - of_milli (unix_milli now) < lease2"
  shows "snd (snd (claim_dispatch session2 plan2 i who2 routing2 lease2 later (fold perform cs db'))) \<noteq> Inr True"
proof -
  have "plan_ok db" by (rule reachable_plan_ok [OF assms(1)])
  then have "plan_ok db'" using perform_keeps [of db "Claim_Call session plan i who routing lease now"] assms(2) by simp
  note run = claim_kept_calls [OF this claimed [OF assms(2)] assms(3)]
  then have "dispatches_ok (pd_tasks (fold perform cs db')) (pd_dispatches (fold perform cs db'))" by (simp add: plan_ok_def)
  from claim_refused(2) [OF this conjunct2 [OF run] assms(4)] show ?thesis .
qed

text \<open>C12: After \<^verbatim>\<open>ClaimMulticaDispatch\<close> has given the claim on a task to one caller, no other call on the
  task gets it before the lease is over, whoever asks and whatever calls come between, a replanning excepted,
  which may remove the task; and once the issue exists none gets it at all.\<close>

theorem one_claim_at_a_time:
  assumes "plan_reachable db" "claim_dispatch session plan i who routing lease now db = (db', d, Inr True)"
    and "\<forall>c \<in> set cs. within_lease i (unix_milli now) c" "later - of_milli (unix_milli now) < lease2"
  shows "snd (snd (claim_dispatch session2 plan2 i who2 routing2 lease2 later (fold perform cs db'))) \<noteq> Inr True"
  by (rule one_claim [OF assms])

definition sample_routing :: routing where
  "sample_routing = (''bot'', [], [])"

lemma one_claim_at_a_time_witness:
  "snd (snd (claim_dispatch ''s'' ''a2'' ''a0'' ''v'' sample_routing 60000000000 30000000000
     (fold perform [Deliver_Call (plan_world []) (sample_ids ''f'') ''s'' ''a2'' ''u'' (\<lambda>_. 10000000)]
        (perform (Claim_Call ''s'' ''a2'' ''a0'' ''u'' sample_routing 60000000000 6000000) (run_plan [open_call]))))) = Inl E_Dispatch_In_Progress"
  (is "snd (snd (?claim (fold perform ?cs (perform _ ?db)))) = _")
proof -
  let ?first = "claim_dispatch ''s'' ''a2'' ''a0'' ''u'' sample_routing 60000000000 6000000 ?db"
  have "snd (snd ?first) = Inr True" by code_simp
  then obtain db' d where first: "?first = (db', d, Inr True)" by (cases ?first) auto
  have db': "perform (Claim_Call ''s'' ''a2'' ''a0'' ''u'' sample_routing 60000000000 6000000) ?db = db'" using first by simp
  have "snd (snd (?claim (fold perform ?cs db'))) \<noteq> Inr True"
    by (rule one_claim_at_a_time [OF run_plan_reachable first]) (simp_all add: within_lease_def unix_milli_def of_milli_def)
  moreover have "snd (snd (?claim (fold perform ?cs (perform (Claim_Call ''s'' ''a2'' ''a0'' ''u'' sample_routing 60000000000 6000000) ?db)))) =
      Inl E_Dispatch_In_Progress" by code_simp
  ultimately show ?thesis by simp
qed


end
