(* ===== verification/Grant_Safety.thy ===== *)
theory Grant_Safety
  imports Plan_Safety
begin

text \<open>
  The properties of run grants (\<^verbatim>\<open>internal/plan/run_grant.go\<close>): the invariant \<open>budget_ok\<close> of the tables
  of grants and uses with its preservation by every call, the analysis of an answer of
  \<^verbatim>\<open>AuthorizeRunGrantUse\<close> (\<open>authorize_cases\<close>), and what they give: attempts are counted and bounded, a yes is
  within the scope of the grant, and a repeated request takes nothing.
\<close>

section \<open>The invariant\<close>

definition consumed_uses :: "use_row list \<Rightarrow> bytes \<Rightarrow> nat" where
  "consumed_uses us i = length (filter (\<lambda>u. u_grant u = i \<and> u_consumed u) us)"

definition grants_ok :: "grant_row list \<Rightarrow> use_row list \<Rightarrow> bool" where
  "grants_ok gs us \<longleftrightarrow> distinct (map g_id gs) \<and> (\<forall>u \<in> set us. u_grant u \<in> g_id ` set gs) \<and>
     (\<forall>g \<in> set gs. g_attempts_used g = int (consumed_uses us (g_id g)) \<and> g_attempts_used g \<le> g_max_attempts g \<and>
        g_max_attempts g \<le> max_grant_attempts \<and> g_ceiling g \<noteq> ''signoff'') \<and>
     (\<forall>g \<in> set gs. \<forall>h \<in> set gs. is_active g \<longrightarrow> is_active h \<longrightarrow> g_plan g = g_plan h \<longrightarrow> g = h)"

abbreviation grants_of :: "plan_db \<Rightarrow> grant_row list \<times> use_row list" where
  "grants_of db \<equiv> (pd_grants db, pd_uses db)"

definition budget_ok :: "plan_db \<Rightarrow> bool" where
  "budget_ok db \<longleftrightarrow> grants_ok (pd_grants db) (pd_uses db)"

lemma budget_cong: "grants_of db' = grants_of db \<Longrightarrow> budget_ok db' = budget_ok db"
  by (simp add: budget_ok_def)

text \<open>A grant changes in place: its identity stays, and no ended grant becomes active.\<close>

lemma grants_ok_map:
  assumes "grants_ok gs us"
    and f: "\<And>g. g \<in> set gs \<Longrightarrow> g_id (f g) = g_id g \<and> g_plan (f g) = g_plan g \<and> g_max_attempts (f g) = g_max_attempts g \<and>
      g_ceiling (f g) = g_ceiling g \<and> g_attempts_used (f g) = g_attempts_used g \<and> (is_active (f g) \<longrightarrow> is_active g)"
  shows "grants_ok (map f gs) us"
proof -
  have ids: "map g_id (map f gs) = map g_id gs" using f by simp
  have "g_id ` set (map f gs) = g_id ` set gs" using arg_cong [OF ids, of set] by (simp only: set_map)
  moreover have "distinct (map g_id (map f gs))" using assms(1) unfolding ids grants_ok_def by blast
  moreover have "f g = f h" if "g \<in> set gs" "h \<in> set gs" "is_active (f g)" "is_active (f h)" "g_plan (f g) = g_plan (f h)" for g h
    using assms(1) f [OF that(1)] f [OF that(2)] that unfolding grants_ok_def by metis
  ultimately show ?thesis using assms(1) f unfolding grants_ok_def by (auto simp del: map_map)
qed

lemma insert_event_grants: "insert_event i plan task ty reason who payload now db = Inr db' \<Longrightarrow> grants_of db' = grants_of db"
  by (auto simp: insert_event_def split: if_splits)

lemma budget_update:
  assumes "budget_ok db"
    and "\<And>g. g_id (f g) = g_id g \<and> g_plan (f g) = g_plan g \<and> g_max_attempts (f g) = g_max_attempts g \<and>
      g_ceiling (f g) = g_ceiling g \<and> g_attempts_used (f g) = g_attempts_used g \<and> (is_active (f g) \<longrightarrow> is_active g)"
  shows "budget_ok (update_grant i cond f db)"
  using assms(1) unfolding budget_ok_def update_grant_def
  by (simp, intro grants_ok_map) (use assms(2) in \<open>auto split: if_splits\<close>)

lemma budget_run:
  "budget_ok db \<Longrightarrow> budget_ok db1 \<Longrightarrow> budget_ok (fst (run_tx db (insert_event i plan task ty reason who payload now db1) k))"
  using budget_cong [OF insert_event_grants] by (auto simp: run_tx_fst split: sum.splits)

lemma budget_end: "budget_ok db \<Longrightarrow> s \<noteq> G_Active \<Longrightarrow> budget_ok (update_grant i cond (end_grant s who reason now) db)"
  by (rule budget_update) (simp_all add: end_grant_def is_active_def)

lemma revoke_budget: "budget_ok db \<Longrightarrow> budget_ok (fst (revoke_run_grant ids session plan who reason t db))"
  by (auto simp: revoke_run_grant_def Let_def intro!: budget_run budget_end split: sum.splits option.splits)

lemma usage_budget: "budget_ok db \<Longrightarrow> budget_ok (fst (report_run_grant_usage ids session plan who used t db))"
  by (auto simp: report_run_grant_usage_def Let_def is_active_def intro!: budget_run budget_update split: sum.splits option.splits)

lemma insert_grant_budget:
  assumes "budget_ok db" "insert_grant g db = Inr db'"
    and "g_attempts_used g = 0" "0 \<le> g_max_attempts g" "g_max_attempts g \<le> max_grant_attempts" "g_ceiling g \<noteq> ''signoff''"
  shows "budget_ok db'"
proof -
  have g: "g_id g \<notin> g_id ` set (pd_grants db)" "\<And>h. h \<in> set (pd_grants db) \<Longrightarrow> g_plan h = g_plan g \<Longrightarrow> \<not> is_active h"
    "pd_grants db' = pd_grants db @ [g]" "pd_uses db' = pd_uses db"
    using assms(2) by (auto simp: insert_grant_def list_ex_iff is_active_def split: if_splits)
  have "\<forall>u \<in> set (pd_uses db). u_grant u \<noteq> g_id g"
    using assms(1) g(1) unfolding budget_ok_def grants_ok_def by metis
  then have "consumed_uses (pd_uses db) (g_id g) = 0" by (auto simp: consumed_uses_def filter_empty_conv)
  then show ?thesis using assms g(1,2) unfolding budget_ok_def grants_ok_def g(3,4) by auto
qed

lemma check_grant_ok:
  "check_grant_input lower x = Inr (repos, ceiling, lifetime, runtime, remark) \<Longrightarrow>
     ceiling \<noteq> ''signoff'' \<and> 0 < gi_max_attempts x \<and> gi_max_attempts x \<le> max_grant_attempts"
  by (auto simp: check_grant_input_def Let_def split: if_splits)

lemma create_grant_budget: "budget_ok db \<Longrightarrow> budget_ok (fst (create_run_grant lower stamp ids session plan who x t db))"
proof -
  assume ok: "budget_ok db"
  have tx: "budget_ok db'"
    if c: "check_grant_input lower x = Inr checked" and tx: "create_grant_tx stamp ids session plan who x checked now db = Inr db'"
    for checked now db'
  proof -
    obtain repos ceiling lifetime runtime remark where c': "checked = (repos, ceiling, lifetime, runtime, remark)"
      by (cases checked)
    from tx obtain db1 g db2 i ty payload where
      one: "(case active_grant db session plan of None \<Rightarrow> Inr db
        | Some old \<Rightarrow> insert_event (ids 1) plan [] ''plan.run_grant.superseded'' (''superseded by '' @ ids 0) who
             (JObj [(''grant_id'', JStr (g_id old)), (''superseded_by'', JStr (ids 0))]) now
             (update_grant (g_id old) is_active (end_grant G_Superseded who (''superseded by '' @ ids 0) now) db)) = Inr db1"
      and two: "insert_grant g db1 = Inr db2" and three: "insert_event i plan [] ty remark who payload now db2 = Inr db'"
      and g: "g_attempts_used g = 0" "g_max_attempts g = gi_max_attempts x" "g_ceiling g = ceiling"
      unfolding create_grant_tx_def c' by (clarsimp simp: Let_def split: if_splits)
    have "budget_ok db1"
    proof (cases "active_grant db session plan")
      case None
      then show ?thesis using one ok by simp
    next
      case (Some old)
      then show ?thesis using one budget_end [OF ok, of G_Superseded] budget_cong [OF insert_event_grants] by auto
    qed
    then have "budget_ok db2" by (rule insert_grant_budget [OF _ two]) (use g check_grant_ok [OF c [unfolded c']] in simp_all)
    then show ?thesis using budget_cong [OF insert_event_grants [OF three]] by simp
  qed
  show ?thesis
  proof (cases "check_grant_input lower x")
    case (Inl e)
    then show ?thesis using ok by (simp add: create_run_grant_def)
  next
    case (Inr checked)
    then show ?thesis using ok tx [OF Inr] by (simp add: create_run_grant_def run_tx_rule)
  qed
qed


section \<open>Authorizing\<close>

text \<open>A use is recorded together with the attempt it takes.\<close>

lemma record_use_budget:
  assumes ok: "budget_ok db" and g: "g \<in> set (pd_grants db)" "is_active g" "u_grant u = g_id g"
    and room: "u_consumed u \<longrightarrow> g_attempts_used g < g_max_attempts g" and use: "insert_use u db = Inr db1"
  shows "budget_ok (update_grant (g_id g) is_active (consume_attempt (u_consumed u) now) db1)"
proof -
  define f where "f = (\<lambda>h. if g_id h = g_id g \<and> is_active h then consume_attempt (u_consumed u) now h else h)"
  have db1: "pd_grants db1 = pd_grants db" "pd_uses db1 = pd_uses db @ [u]"
    using use by (auto simp: insert_use_def split: if_splits)
  have gs: "distinct (map g_id (pd_grants db))" "\<forall>v \<in> set (pd_uses db). u_grant v \<in> g_id ` set (pd_grants db)"
    using ok by (simp_all add: budget_ok_def grants_ok_def)
  have each: "g_attempts_used h = int (consumed_uses (pd_uses db) (g_id h)) \<and> g_attempts_used h \<le> g_max_attempts h \<and>
      g_max_attempts h \<le> max_grant_attempts \<and> g_ceiling h \<noteq> ''signoff''" if "h \<in> set (pd_grants db)" for h
    using ok that unfolding budget_ok_def grants_ok_def by blast
  have only: "h = g" if "h \<in> set (pd_grants db)" "g_id h = g_id g" for h
    using gs(1) g(1) that by (auto simp: distinct_map dest: inj_onD)
  have f: "g_id (f h) = g_id h \<and> g_plan (f h) = g_plan h \<and> is_active (f h) = is_active h" for h
    by (simp add: f_def consume_attempt_def is_active_def)
  have ids: "map g_id (map f (pd_grants db)) = map g_id (pd_grants db)" using f by simp
  have image: "g_id ` set (map f (pd_grants db)) = g_id ` set (pd_grants db)"
    using arg_cong [OF ids, of set] by (simp only: set_map)
  have counts: "g_attempts_used (f h) = int (consumed_uses (pd_uses db @ [u]) (g_id (f h))) \<and>
      g_attempts_used (f h) \<le> g_max_attempts (f h) \<and> g_max_attempts (f h) \<le> max_grant_attempts \<and> g_ceiling (f h) \<noteq> ''signoff''"
    if h: "h \<in> set (pd_grants db)" for h
  proof (cases "g_id h = g_id g")
    case True
    then show ?thesis using each [OF h] only [OF h] g(2,3) room by (auto simp: f_def consume_attempt_def consumed_uses_def)
  next
    case False
    then show ?thesis using each [OF h] g(3) by (auto simp: f_def consumed_uses_def)
  qed
  have "f h = f k" if "h \<in> set (pd_grants db)" "k \<in> set (pd_grants db)" "is_active (f h)" "is_active (f k)"
    "g_plan (f h) = g_plan (f k)" for h k
  proof -
    have "h = k" using ok that f unfolding budget_ok_def grants_ok_def by metis
    then show ?thesis by simp
  qed
  moreover have "distinct (map g_id (map f (pd_grants db)))" unfolding ids by (rule gs(1))
  moreover have "\<forall>v \<in> set (pd_uses db @ [u]). u_grant v \<in> g_id ` set (map f (pd_grants db))"
    unfolding image using gs(2) g(1,3) by simp
  ultimately have "grants_ok (map f (pd_grants db)) (pd_uses db @ [u])"
    using counts unfolding grants_ok_def set_map by blast
  then show ?thesis by (simp add: budget_ok_def update_grant_def db1 f_def)
qed

lemma scan_grant_row [simp]: "rg_row (scan_grant g now s) = g"
  by (simp add: scan_grant_def compute_effective_def Let_def)

lemma active_grant_ok:
  "active_grant db session plan = Some g \<Longrightarrow> g \<in> set (pd_grants db) \<and> g_session g = session \<and> g_plan g = plan \<and> is_active g"
  by (auto simp: active_grant_def is_active_def dest: find_Some_in)

text \<open>The three kinds of an answer: nothing but an event changes, an earlier use is replayed, or a use is recorded.\<close>

definition nothing_granted :: "plan_db \<Rightarrow> plan_db \<Rightarrow> (plan_error, grant_decision) result \<Rightarrow> bool" where
  "nothing_granted db db' out \<longleftrightarrow> grants_of db' = grants_of db \<and> (\<forall>d. out = Inr d \<longrightarrow> \<not> gd_authorized d)"

definition granted :: "grant_row \<Rightarrow> bytes \<Rightarrow> bytes \<Rightarrow> bool \<Rightarrow> bool \<Rightarrow> grant_decision \<Rightarrow> bool" where
  "granted g repository risk consumed replay d \<longleftrightarrow> gd_authorized d \<and> gd_repository d = repository \<and> gd_risk d = risk \<and>
     gd_auto_merge d = auto_merge_allowed risk (g_ceiling g) \<and> gd_consumed d = consumed \<and> gd_replay d = replay"

definition seen_use :: "plan_db \<Rightarrow> bytes \<Rightarrow> bytes \<Rightarrow> bytes \<Rightarrow> bool" where
  "seen_use db i task key \<longleftrightarrow> list_ex (\<lambda>u. u_grant u = i \<and> u_task u = task \<and> u_key u = key) (pd_uses db)"

definition takes_attempt :: "plan_db \<Rightarrow> bytes \<Rightarrow> bytes \<Rightarrow> bytes \<Rightarrow> bool" where
  "takes_attempt db session plan task \<longleftrightarrow>
     (case find_dispatch db session plan task of None \<Rightarrow> True | Some y \<Rightarrow> x_status y \<noteq> Dispatched)"

definition recorded_use :: "grant_row \<Rightarrow> bytes \<Rightarrow> bytes \<Rightarrow> bool \<Rightarrow> int \<Rightarrow> plan_db \<Rightarrow> plan_db \<Rightarrow> bool" where
  "recorded_use g task key fresh now db db' \<longleftrightarrow> (\<exists>u db1. insert_use u db = Inr db1 \<and> u_grant u = g_id g \<and> u_task u = task \<and>
     u_key u = key \<and> u_consumed u = fresh \<and>
     grants_of db' = grants_of (update_grant (g_id g) is_active (consume_attempt fresh now) db1))"

lemma denied_use:
  assumes "(db', out) = deny_use ids plan x key g d code reason now db" "\<not> gd_authorized d"
  shows "nothing_granted db db' out"
  using assms by (auto simp: deny_use_def run_tx_def nothing_granted_def dest!: insert_event_grants split: sum.splits)

lemma allowed_use:
  assumes "(db', out) = allow_use ids plan x key g d now db db1"
  obtains "nothing_granted db db' out" | "grants_of db' = grants_of db1" "out = Inr (d\<lparr>gd_grant := Some g\<rparr>)"
  using assms by (auto simp: allow_use_def run_tx_def nothing_granted_def dest!: insert_event_grants split: sum.splits)

lemma authorize_grant_cases:
  assumes run: "(db', out) = authorize_grant ids session plan item g x key d0 now db" and d0: "\<not> gd_authorized d0" "\<not> gd_consumed d0" "\<not> gd_replay d0"
  obtains (nothing) "nothing_granted db db' out"
  | (replay) d where "seen_use db (g_id (rg_row g)) (gu_task x) key" "grants_of db' = grants_of db" "out = Inr d"
      "granted (rg_row g) (gd_repository d0) (gd_risk d0) False True d"
  | (recorded) d where "\<not> seen_use db (g_id (rg_row g)) (gu_task x) key"
      "recorded_use (rg_row g) (gu_task x) key (takes_attempt db session plan (gu_task x)) now db db'" "out = Inr d"
      "granted (rg_row g) (gd_repository d0) (gd_risk d0) (takes_attempt db session plan (gu_task x)) False d"
      "takes_attempt db session plan (gu_task x) \<longrightarrow> g_attempts_used (rg_row g) < g_max_attempts (rg_row g)"
proof (cases "seen_use db (g_id (rg_row g)) (gu_task x) key")
  case True
  then have "(db', out) = allow_use ids plan x key g (d0\<lparr>gd_auto_merge := auto_merge_allowed (gd_risk d0) (g_ceiling (rg_row g)),
      gd_authorized := True, gd_replay := True\<rparr>) now db db"
    using run by (simp add: authorize_grant_def Let_def seen_use_def)
  then show thesis
  proof (rule allowed_use)
    assume after: "grants_of db' = grants_of db" "out = Inr (d0\<lparr>gd_auto_merge := auto_merge_allowed (gd_risk d0) (g_ceiling (rg_row g)),
      gd_authorized := True, gd_replay := True\<rparr>\<lparr>gd_grant := Some g\<rparr>)"
    show thesis by (rule replay [OF True after]) (simp add: granted_def d0)
  qed (rule nothing)
next
  case False
  let ?fresh = "takes_attempt db session plan (gu_task x)" and ?row = "rg_row g"
  let ?d = "d0\<lparr>gd_auto_merge := auto_merge_allowed (gd_risk d0) (g_ceiling ?row)\<rparr>"
  let ?u = "\<lparr>u_grant = g_id ?row, u_task = gu_task x, u_key = key, u_repository = gd_repository ?d, u_risk = gd_risk ?d,
    u_consumed = ?fresh, u_principal = gu_principal x, u_created = unix_milli now\<rparr>"
  note defs = authorize_grant_def Let_def takes_attempt_def [symmetric] seen_use_def [symmetric]
  consider (full) "?fresh" "g_attempts_used ?row \<ge> g_max_attempts ?row" | (clash) e where "insert_use ?u db = Inl e"
      "\<not> (?fresh \<and> g_attempts_used ?row \<ge> g_max_attempts ?row)"
    | (room) db1 where "insert_use ?u db = Inr db1" "\<not> (?fresh \<and> g_attempts_used ?row \<ge> g_max_attempts ?row)"
    by (cases "insert_use ?u db") auto
  then show thesis
  proof cases
    case full
    then obtain code reason where "(db', out) = deny_use ids plan x key g ?d code reason now db"
      using run False by (simp add: defs)
    then have "nothing_granted db db' out" by (rule denied_use) (simp add: d0)
    then show thesis by (rule nothing)
  next
    case clash
    then have "(db', out) = (db, Inl e)" using run False by (auto simp: defs)
    then have "nothing_granted db db' out" by (simp add: nothing_granted_def)
    then show thesis by (rule nothing)
  next
    case room
    then have "(db', out) = allow_use ids plan x key (used_grant g ?fresh now (p_status item))
        (?d\<lparr>gd_authorized := True, gd_consumed := ?fresh\<rparr>) now db (update_grant (g_id ?row) is_active (consume_attempt ?fresh now) db1)"
      using run False by (auto simp: defs)
    then show thesis
    proof (rule allowed_use)
      assume after: "grants_of db' = grants_of (update_grant (g_id ?row) is_active (consume_attempt ?fresh now) db1)"
        "out = Inr (?d\<lparr>gd_authorized := True, gd_consumed := ?fresh\<rparr>\<lparr>gd_grant := Some (used_grant g ?fresh now (p_status item))\<rparr>)"
      have "recorded_use ?row (gu_task x) key ?fresh now db db'"
        unfolding recorded_use_def by (intro exI [of _ ?u] exI [of _ db1]) (use room after in simp)
      from recorded [OF False this after(2)] show thesis using room(2) by (auto simp: granted_def d0)
    qed (rule nothing)
  qed
qed

lemma authorize_cases:
  fixes db :: plan_db
  assumes run: "authorize_run_grant_use lower digest ids session plan x now db = (db', out)"
  defines "repository \<equiv> normalize_repository lower (gu_repository x)" and "risk \<equiv> trim_space (gu_risk x)"
    and "key \<equiv> digest (trim_space (gu_key x))" and "fresh \<equiv> takes_attempt db session plan (gu_task x)"
  obtains (nothing) "nothing_granted db db' out"
  | (allowed) item g d where "load_plan_header db session plan = Inr item" "active_grant db session plan = Some g" "out = Inr d"
      "scope_problem (scan_grant g now (p_status item)) repository risk = None"
      "seen_use db (g_id g) (gu_task x) key \<and> grants_of db' = grants_of db \<and> granted g repository risk False True d \<or>
       \<not> seen_use db (g_id g) (gu_task x) key \<and> recorded_use g (gu_task x) key fresh now db db' \<and>
       granted g repository risk fresh False d \<and> (fresh \<longrightarrow> g_attempts_used g < g_max_attempts g)"
proof (cases "\<exists>item g. load_plan_header db session plan = Inr item \<and> active_grant db session plan = Some g \<and>
    is_ok (find_task_header db plan (gu_task x)) \<and> \<not> (session = [] \<or> plan = [] \<or> gu_task x = [] \<or> gu_principal x = [] \<or> trim_space (gu_key x) = [])")
  case False
  then have "nothing_granted db db' out"
    using run by (auto simp: authorize_run_grant_use_def no_decision_def nothing_granted_def Let_def split: if_splits sum.splits option.splits)
  then show thesis by (rule nothing)
next
  case True
  then obtain item g r where at: "load_plan_header db session plan = Inr item" "active_grant db session plan = Some g"
    "find_task_header db plan (gu_task x) = Inr r"
    "\<not> (session = [] \<or> plan = [] \<or> gu_task x = [] \<or> gu_principal x = [] \<or> trim_space (gu_key x) = [])"
    by (auto simp: is_ok_iff)
  let ?g = "scan_grant g now (p_status item)"
  let ?d = "no_decision\<lparr>gd_grant := Some ?g, gd_repository := repository, gd_risk := risk\<rparr>"
  note defs = authorize_run_grant_use_def Let_def repository_def risk_def key_def
  show thesis
  proof (cases "scope_problem ?g repository risk")
    case (Some problem)
    then have "(db', out) = deny_use ids plan x key ?g ?d (fst problem) (snd problem) now db"
      using run at by (auto simp: defs split: prod.splits)
    then have "nothing_granted db db' out" by (rule denied_use) (simp add: no_decision_def)
    then show thesis by (rule nothing)
  next
    case None
    then have "(db', out) = authorize_grant ids session plan item ?g x key ?d now db"
      using run at by (simp add: defs)
    then show thesis
    proof (rule authorize_grant_cases)
      show thesis if "nothing_granted db db' out" using that by (rule nothing)
    qed (simp_all add: no_decision_def allowed [OF at(1,2) _ None] fresh_def [symmetric])
  qed
qed


lemma authorize_budget:
  assumes ok: "budget_ok db"
  shows "budget_ok (fst (authorize_run_grant_use lower digest ids session plan x now db))"
proof -
  obtain db' out where run: "authorize_run_grant_use lower digest ids session plan x now db = (db', out)" by (rule prod.exhaust)
  from run have "budget_ok db'"
  proof (cases rule: authorize_cases)
    case nothing
    then have "grants_of db' = grants_of db" by (simp only: nothing_granted_def)
    from budget_cong [OF this] show ?thesis using ok by simp
  next
    case (allowed item g d)
    note g = active_grant_ok [OF allowed(2)]
    from allowed(5) show ?thesis
    proof
      assume "seen_use db (g_id g) (gu_task x) (digest (trim_space (gu_key x))) \<and> grants_of db' = grants_of db \<and>
        granted g (normalize_repository lower (gu_repository x)) (trim_space (gu_risk x)) False True d"
      then show ?thesis using ok budget_cong [of db' db] by blast
    next
      assume r: "\<not> seen_use db (g_id g) (gu_task x) (digest (trim_space (gu_key x))) \<and>
        recorded_use g (gu_task x) (digest (trim_space (gu_key x))) (takes_attempt db session plan (gu_task x)) now db db' \<and>
        granted g (normalize_repository lower (gu_repository x)) (trim_space (gu_risk x)) (takes_attempt db session plan (gu_task x)) False d \<and>
        (takes_attempt db session plan (gu_task x) \<longrightarrow> g_attempts_used g < g_max_attempts g)"
      then obtain u db1 where u: "insert_use u db = Inr db1" "u_grant u = g_id g" "u_consumed u \<longrightarrow> g_attempts_used g < g_max_attempts g"
        "grants_of db' = grants_of (update_grant (g_id g) is_active (consume_attempt (u_consumed u) now) db1)"
        unfolding recorded_use_def by metis
      show ?thesis using record_use_budget [OF ok _ _ u(2,3,1), of now] budget_cong [OF u(4)] g by simp
    qed
  qed
  then show ?thesis using run by simp
qed

lemma transition_grants: "grants_of (fst (transition_task w ids session plan i who target ty reason evidence now db)) = grants_of db"
proof -
  have "grants_of db' = grants_of db"
    if tx: "transition_tx w ids session plan i who target ty reason evidence now db = Inr db'" for db'
    by (rule transition_tx_ok [OF tx]) (simp add: task_moved_def)
  then show ?thesis by (simp add: transition_task_def run_tx_fst split: sum.splits)
qed

lemma settle_grants: "grants_of (fst (complete_dispatch ids session who d issue identifier now db)) = grants_of db"
proof -
  have "grants_of db' = grants_of db" if tx: "settle_tx ids session who item d issue identifier now db = Inr db'" for item db'
    using settle_tx_ok [OF tx] by (auto simp: task_moved_def split: if_splits)
  then show ?thesis by (simp add: complete_dispatch_def run_tx_fst split: sum.splits option.splits)
qed

lemma replan_grants: "plan_ok db \<Longrightarrow> grants_of (fst (replan ids session plan who input now db)) = grants_of db"
proof -
  assume ok: "plan_ok db"
  have "grants_of db' = grants_of db" if tx: "replan_tx ids session plan who input now db = Inr db'" for db'
    by (rule replan_tx_ok [OF ok tx]) (simp add: replanned_def)
  then show ?thesis by (simp add: replan_def run_tx_fst split: sum.splits)
qed

lemma create_grants: "grants_of (fst (create_plan ids session who input now db)) = grants_of db"
proof (cases rule: create_plan_cases [of ids session who input now db])
  case (created p tasks i payload db1 db2)
  then show ?thesis using insert_event_grants [OF created(7)] insert_tasks_ok(1) [OF created(3)]
    by (auto simp: insert_plan_def split: if_splits)
qed simp

lemma deliver_grants: "grants_of (fst (deliver w ids session plan who t db)) = grants_of db"
  by (auto simp: deliver_def Let_def run_tx_fst deliver_tx_def update_plan_def dest!: insert_event_grants split: sum.splits)

lemma claim_grants: "grants_of (fst (claim_dispatch session plan i who routing lease now db)) = grants_of db"
  by (auto simp: claim_dispatch_def insert_dispatch_def Let_def split: sum.splits option.splits if_splits)

lemma perform_budget: "plan_ok db \<Longrightarrow> budget_ok db \<Longrightarrow> budget_ok (perform c db)"
  by (cases c)
    (simp_all add: create_grant_budget revoke_budget usage_budget authorize_budget start_task_def complete_task_def block_task_def
      budget_cong [OF transition_grants] budget_cong [OF settle_grants] budget_cong [OF replan_grants] budget_cong [OF create_grants]
      budget_cong [OF deliver_grants] budget_cong [OF claim_grants])

lemma reachable_budget: "plan_reachable db \<Longrightarrow> budget_ok db"
proof (induction rule: plan_reachable.induct)
  case (plan_init sessions)
  then show ?case by (simp add: budget_ok_def grants_ok_def empty_plans_def)
next
  case (plan_step db c)
  then show ?case by (intro perform_budget reachable_plan_ok)
qed

section \<open>The properties\<close>

definition sample_grant_input :: grant_input where
  "sample_grant_input =
     \<lparr>gi_repositories = [''https://github.com/o/r.git''], gi_ceiling = ''standard'', gi_max_tokens = 10, gi_runtime_minutes = 60,
      gi_max_attempts = 1, gi_expires_minutes = 120, gi_note = []\<rparr>"

definition sample_use :: "bytes \<Rightarrow> grant_use" where
  "sample_use key = \<lparr>gu_task = ''a0'', gu_key = key, gu_repository = ''o/r'', gu_risk = ''routine'', gu_principal = ''u''\<rparr>"

definition grant_calls :: "plan_call list" where
  "grant_calls =
     [open_call,
      Grant_Call (\<lambda>s. s) (\<lambda>_. []) (sample_ids ''g'') ''s'' ''a2'' ''u'' sample_grant_input (\<lambda>_. 6000000),
      Authorize_Call (\<lambda>s. s) (\<lambda>s. s) (sample_ids ''h'') ''s'' ''a2'' (sample_use ''k'') 7000000]"

text \<open>C13: In every reachable state the attempts counted on a run grant are the recorded uses that took one, never
  more than the granted number, which is at most 1000; a plan has one active grant at most, and no grant lets
  signoff tasks merge by themselves.\<close>

theorem grant_budget_is_kept:
  assumes "plan_reachable db"
  shows "(\<forall>g \<in> set (pd_grants db). g_attempts_used g = int (consumed_uses (pd_uses db) (g_id g)) \<and>
       g_attempts_used g \<le> g_max_attempts g \<and> g_max_attempts g \<le> 1000 \<and> g_ceiling g \<noteq> ''signoff'') \<and>
     (\<forall>g \<in> set (pd_grants db). \<forall>h \<in> set (pd_grants db). is_active g \<and> is_active h \<and> g_plan g = g_plan h \<longrightarrow> g = h)"
  using reachable_budget [OF assms] unfolding budget_ok_def grants_ok_def max_grant_attempts_def by blast

lemma grant_budget_is_kept_witness:
  "list_all (\<lambda>g. g_attempts_used g = int (consumed_uses (pd_uses (run_plan grant_calls)) (g_id g))) (pd_grants (run_plan grant_calls)) \<and>
   map g_attempts_used (pd_grants (run_plan grant_calls)) = [1]"
proof (rule conjI)
  show "list_all (\<lambda>g. g_attempts_used g = int (consumed_uses (pd_uses (run_plan grant_calls)) (g_id g))) (pd_grants (run_plan grant_calls))"
    unfolding list_all_iff using grant_budget_is_kept [OF run_plan_reachable [of grant_calls]] by blast
qed code_simp

text \<open>C14: \<^verbatim>\<open>AuthorizeRunGrantUse\<close> says yes only under the active grant of that session and plan, while the plan is
  open, the grant has not expired and its runtime and tokens are not spent, for a repository of the grant and a
  known risk; merging without a human is allowed only up to the ceiling and never for signoff; and an attempt is
  taken only when one is left.\<close>

theorem grants_authorize_within_scope:
  assumes "authorize_run_grant_use lower digest ids session plan x now db = (db', Inr d)" "gd_authorized d"
  shows "\<exists>g \<in> set (pd_grants db). \<exists>p \<in> set (pd_plans db). is_active g \<and> g_session g = session \<and> g_plan g = plan \<and>
     p_id p = plan \<and> p_session p = session \<and> \<not> plan_closed (p_status p) \<and>
     now < of_milli (g_expires g) \<and> (\<forall>f. g_first_used g = Some f \<longrightarrow> now < of_milli f + of_milli (g_max_runtime g)) \<and>
     g_tokens_used g < g_max_tokens g \<and> gd_repository d \<in> set (g_repositories g) \<and>
     gd_risk d \<in> {''routine'', ''standard'', ''review'', ''signoff''} \<and>
     (gd_auto_merge d \<longrightarrow> gd_risk d \<noteq> ''signoff'' \<and> risk_rank (gd_risk d) \<le> risk_rank (g_ceiling g)) \<and>
     (gd_consumed d \<longrightarrow> g_attempts_used g < g_max_attempts g)"
  using assms(1)
proof (cases rule: authorize_cases)
  case nothing
  then show ?thesis using assms(2) by (auto simp: nothing_granted_def)
next
  case (allowed item g d')
  let ?repo = "normalize_repository lower (gu_repository x)" and ?risk = "trim_space (gu_risk x)"
  note g = active_grant_ok [OF allowed(2)]
  have d: "gd_repository d = ?repo" "gd_risk d = ?risk" "gd_auto_merge d = auto_merge_allowed ?risk (g_ceiling g)"
    "gd_consumed d \<longrightarrow> g_attempts_used g < g_max_attempts g"
    using allowed(3,5) by (auto simp: granted_def)
  have item: "item \<in> set (pd_plans db)" "p_id item = plan" "p_session item = session"
    using allowed(1) by (auto simp: load_plan_header_def dest: find_plan_row_ok split: option.splits)
  let ?g = "scan_grant g now (p_status item)"
  have effective: "rg_effective ?g = Eff_Active \<or> rg_effective ?g = Eff_Attempts_Exhausted"
    and scope: "?repo \<in> set (g_repositories g)" "risk_rank ?risk \<noteq> 0"
    using allowed(4) by (auto simp: scope_problem_def split: if_splits)
  have "\<not> plan_closed (p_status item) \<and> now < of_milli (g_expires g) \<and>
      (\<forall>f. g_first_used g = Some f \<longrightarrow> now < of_milli f + of_milli (g_max_runtime g)) \<and> g_tokens_used g < g_max_tokens g"
    using effective by (auto simp: scan_grant_def compute_effective_def Let_def runtime_deadline_def split: if_splits option.splits)
  moreover have "?risk \<in> {''routine'', ''standard'', ''review'', ''signoff''}" using scope(2) by (auto simp: risk_rank_def split: if_splits)
  moreover have "gd_auto_merge d \<longrightarrow> ?risk \<noteq> ''signoff'' \<and> risk_rank ?risk \<le> risk_rank (g_ceiling g)"
    unfolding d(3) by (simp add: auto_merge_allowed_def)
  ultimately show ?thesis using g item d scope(1) by (intro bexI [of _ g] bexI [of _ item]) auto
qed

lemma grants_authorize_within_scope_witness:
  "\<exists>g \<in> set (pd_grants (run_plan (butlast grant_calls))). is_active g \<and> ''o/r'' \<in> set (g_repositories g)"
proof -
  let ?run = "authorize_run_grant_use (\<lambda>s. s) (\<lambda>s. s) (sample_ids ''h'') ''s'' ''a2'' (sample_use ''k'') 7000000 (run_plan (butlast grant_calls))"
  have "let out = ?run; d = (case snd out of Inr d \<Rightarrow> d) in gd_authorized d \<and> gd_repository d = ''o/r'' \<and> is_ok (snd out)"
    by code_simp
  then have "gd_authorized (case snd ?run of Inr d \<Rightarrow> d)" "gd_repository (case snd ?run of Inr d \<Rightarrow> d) = ''o/r''" "is_ok (snd ?run)"
    unfolding Let_def by blast+
  then obtain db' d where run: "?run = (db', Inr d)" and d: "gd_authorized d" "gd_repository d = ''o/r''"
    by (cases ?run) (auto simp: is_ok_iff)
  show ?thesis using grants_authorize_within_scope [OF run d(1)] unfolding d(2) by blast
qed

lemma authorized_is_seen:
  assumes ok: "budget_ok db" and run: "authorize_run_grant_use lower digest ids session plan x now db = (db', Inr d)" "gd_authorized d"
  obtains g where "is_active g" "g_plan g = plan" "g \<in> set (pd_grants db')"
    "seen_use db' (g_id g) (gu_task x) (digest (trim_space (gu_key x)))"
  using run(1)
proof (cases rule: authorize_cases)
  case nothing
  then show thesis using run(2) by (auto simp: nothing_granted_def)
next
  case (allowed item g d')
  note g = active_grant_ok [OF allowed(2)]
  consider (again) "seen_use db (g_id g) (gu_task x) (digest (trim_space (gu_key x)))" "grants_of db' = grants_of db"
    | (first) u db1 where "insert_use u db = Inr db1" "u_grant u = g_id g" "u_task u = gu_task x" "u_key u = digest (trim_space (gu_key x))"
      "grants_of db' = grants_of (update_grant (g_id g) is_active (consume_attempt (u_consumed u) now) db1)"
    using allowed(5) unfolding recorded_use_def by metis
  then show thesis
  proof cases
    case again
    then show thesis using g that [of g] by (simp add: seen_use_def)
  next
    case first
    then have uses: "pd_grants db1 = pd_grants db" "pd_uses db1 = pd_uses db @ [u]" by (auto simp: insert_use_def split: if_splits)
    let ?g = "consume_attempt (u_consumed u) now g"
    have "?g \<in> set (pd_grants db')" using first(5) g uses by (force simp: update_grant_def)
    moreover have "seen_use db' (g_id ?g) (gu_task x) (digest (trim_space (gu_key x)))"
      using first uses by (simp add: seen_use_def update_grant_def consume_attempt_def)
    ultimately show thesis using g that [of ?g] by (simp add: consume_attempt_def is_active_def)
  qed
qed

lemma repeated_use:
  assumes ok: "budget_ok db" and run: "authorize_run_grant_use lower digest ids session plan x now db = (db', Inr d)" "gd_authorized d"
    and again: "authorize_run_grant_use lower digest ids2 session plan x later db' = (db2, Inr d2)" "gd_authorized d2"
  shows "gd_replay d2 \<and> \<not> gd_consumed d2 \<and> grants_of db2 = grants_of db'"
proof -
  obtain g where g: "is_active g" "g_plan g = plan" "g \<in> set (pd_grants db')"
    "seen_use db' (g_id g) (gu_task x) (digest (trim_space (gu_key x)))"
    by (rule authorized_is_seen [OF ok run])
  have "budget_ok db'" using authorize_budget [OF ok] run(1) by (metis fst_conv)
  then have only: "h = g" if "h \<in> set (pd_grants db')" "is_active h" "g_plan h = plan" for h
    using that g unfolding budget_ok_def grants_ok_def by metis
  from again(1) show ?thesis
  proof (cases rule: authorize_cases)
    case nothing
    then show ?thesis using again(2) by (auto simp: nothing_granted_def)
  next
    case (allowed item h d')
    have "h = g" using only active_grant_ok [OF allowed(2)] by blast
    then show ?thesis using allowed(3,5) g(4) unfolding granted_def by blast
  qed
qed

text \<open>The same request made again, whenever and with whatever new identifiers, is a replay if it is allowed at
  all: it takes no attempt and leaves grants and uses as they are.\<close>

theorem repeated_use_takes_no_attempt:
  assumes "plan_reachable db" "authorize_run_grant_use lower digest ids session plan x now db = (db', Inr d)" "gd_authorized d"
    and "authorize_run_grant_use lower digest ids2 session plan x later db' = (db2, Inr d2)" "gd_authorized d2"
  shows "gd_replay d2 \<and> \<not> gd_consumed d2 \<and> pd_grants db2 = pd_grants db' \<and> pd_uses db2 = pd_uses db'"
  using repeated_use [OF reachable_budget [OF assms(1)] assms(2-)] by blast

text \<open>The 64-bit product of minutes and nanoseconds wraps: a lifetime of 2^53 + 2 minutes is accepted as two minutes.\<close>

lemma lifetime_wraps_around:
  "minutes 9007199254740994 = 2 * 60000000000 \<and>
   is_ok (check_grant_input (\<lambda>s. s) (sample_grant_input\<lparr>gi_expires_minutes := 9007199254740994\<rparr>))"
  by (rule conjI; code_simp)


end
