(* ===== verification/Oauth_Registry.thy ===== *)
theory Oauth_Registry
  imports Operation_Spec "HOL-Library.AList"
begin

text \<open>
  The client registry of \<^verbatim>\<open>internal/oauth/registry.go\<close> and its file (\<^verbatim>\<open>persist.go\<close>), with the metadata
  documents of clients named by a URL (\<^verbatim>\<open>cimd.go\<close>). A Go map is an association list with distinct keys.
  Times are nanoseconds;
  \<open>t k\<close> is the \<open>k\<close>-th reading of the clock by a call, \<open>ids k\<close> the \<open>k\<close>-th random text it draws
  (\<^verbatim>\<open>TokenURLSafe\<close>). What the package takes from libraries is the record \<open>oauth_env\<close>. An error is one
  constructor for each place that returns one.
\<close>

section \<open>What the package calls\<close>

text \<open>The fields of \<^verbatim>\<open>net/url.URL\<close> the package reads.\<close>

record url =
  u_scheme :: bytes
  u_host :: bytes
  u_hostname :: bytes
  u_fragment :: bytes
  u_user :: bool
  u_escaped_path :: bytes

record cimd_doc =
  cd_client_id :: bytes
  cd_name :: bytes
  cd_redirects :: "bytes list"
  cd_method :: bytes
  cd_methods :: "bytes list"

record access_claims =
  ac_issuer :: bytes
  ac_audience :: bytes
  ac_subject :: bytes
  ac_client :: bytes
  ac_issued :: int
  ac_expires :: int
  ac_scope :: bytes

text \<open>
  \<open>en_parse\<close> is \<^verbatim>\<open>url.Parse\<close> (\<^const>\<open>None\<close> its error), \<open>en_sha\<close> the SHA-256 digest in hexadecimal,
  \<open>en_s256\<close> the digest in unpadded URL base64, \<open>en_json_text\<close> what decoding gives back of a text
  \<^verbatim>\<open>encoding/json\<close> has written (the text itself when it is valid UTF-8), \<open>en_json\<close> the decoder of a JSON
  object, \<open>en_web\<close> the metadata document that a fetch at the given time brings (\<^const>\<open>None\<close>: no
  connection, another status, no JSON), \<open>en_sign\<close> and \<open>en_verify\<close> the JWT library (secret and claims; secret, time,
  issuer, audience and token), \<open>en_base64\<close> the standard base64 decoder, \<open>en_unescape\<close>
  \<^verbatim>\<open>url.QueryUnescape\<close> (empty on an error) and \<open>en_with_query\<close> a URL with query values set.
\<close>

record oauth_env =
  en_parse :: "bytes \<Rightarrow> url option"
  en_sha :: "bytes \<Rightarrow> bytes"
  en_s256 :: "bytes \<Rightarrow> bytes"
  en_json_text :: "bytes \<Rightarrow> bytes"
  en_json :: "bytes \<Rightarrow> (bytes \<times> json) list option"
  en_web :: "int \<Rightarrow> bytes \<Rightarrow> cimd_doc option"
  en_sign :: "bytes \<Rightarrow> access_claims \<Rightarrow> bytes option"
  en_verify :: "bytes \<Rightarrow> int \<Rightarrow> bytes \<Rightarrow> bytes \<Rightarrow> bytes \<Rightarrow> access_claims option"
  en_base64 :: "bytes \<Rightarrow> bytes option"
  en_unescape :: "bytes \<Rightarrow> bytes"
  en_with_query :: "bytes \<Rightarrow> (bytes \<times> bytes) list \<Rightarrow> bytes option"

datatype oauth_error =
    E_Redirect_Count | E_Redirect_Length | E_Redirect_Relative | E_Redirect_Loopback | E_Redirect_Scheme
  | E_Redirect_Repeated | E_Redirect_Text | E_Auth_Method | E_Client_Limit | E_Client_Save | E_Clients_File
  | E_Unknown_Client | E_Not_Metadata | E_Fetch | E_Metadata_Mismatch | E_Metadata_Method
  | E_Missing_Parameter | E_Pkce_Method | E_Challenge | E_Redirect_Refused | E_Too_Many_Codes
  | E_Invalid_Grant | E_No_Issuer | E_No_Secret | E_Sign | E_Refresh_Save | E_Refresh_File | E_Refresh_Version
  | E_Refresh_Hash | E_Refresh_Client | E_Refresh_Duplicate | E_Token_Secret

definition unix_seconds :: "int \<Rightarrow> int" where
  "unix_seconds t = t div 1000000000"

text \<open>The clock readings from the \<open>n\<close>-th on.\<close>

definition later :: "nat \<Rightarrow> (nat \<Rightarrow> 'a) \<Rightarrow> nat \<Rightarrow> 'a" where
  "later n t k = t (n + k)"

text \<open>
  Drawing texts until the key of one is not in use, with the number of the next draw. The loop goes on
  for as long as the draws repeat; not returning is \<^const>\<open>None\<close>.
\<close>

partial_function (option) draw_unused ::
    "(bytes \<Rightarrow> bytes) \<Rightarrow> bytes list \<Rightarrow> (nat \<Rightarrow> bytes) \<Rightarrow> nat \<Rightarrow> (bytes \<times> nat) option" where
  "draw_unused key used ids k =
     (if key (ids k) \<in> set used then draw_unused key used ids (Suc k) else Some (ids k, Suc k))"

declare draw_unused.simps [code]

lemma draw_unused_result:
  assumes "draw_unused key used ids k = Some r"
  shows "key (fst r) \<notin> set used \<and> (\<exists>m. fst r = ids m)"
proof (rule draw_unused.raw_induct
    [where P = "\<lambda>key used ids k r. key (fst r) \<notin> set used \<and> (\<exists>m. fst r = ids m)", OF _ assms])
  fix draw and key :: "bytes \<Rightarrow> bytes" and used ids k and r :: "bytes \<times> nat"
  assume IH: "\<And>key used ids k r. draw key used ids k = Some r \<Longrightarrow> key (fst r) \<notin> set used \<and> (\<exists>m. fst r = ids m)"
    and step: "(if key (ids k) \<in> set used then draw key used ids (Suc k) else Some (ids k, Suc k)) = Some r"
  show "key (fst r) \<notin> set used \<and> (\<exists>m. fst r = ids m)"
  proof (cases "key (ids k) \<in> set used")
    case True
    then show ?thesis using IH step by simp
  next
    case False
    then have "fst r = ids k" using step by auto
    then show ?thesis using False by auto
  qed
qed

lemma draw_unused_fresh: "draw_unused key used ids k = Some (i, n) \<Longrightarrow> key i \<notin> set used \<and> (\<exists>m. i = ids m)"
  using draw_unused_result [of key used ids k "(i, n)"] by simp

lemma draw_unused_returns: "key (ids m) \<notin> set used \<Longrightarrow> k \<le> m \<Longrightarrow> draw_unused key used ids k \<noteq> None"
proof (induction "m - k" arbitrary: k)
  case 0
  then show ?case by (subst draw_unused.simps) simp
next
  case (Suc d)
  then have "draw_unused key used ids (Suc k) \<noteq> None" by simp
  then show ?case by (subst draw_unused.simps) simp
qed

section \<open>Redirect URIs\<close>

definition max_redirect_uris :: nat where
  "max_redirect_uris = 10"

definition redirect_problem :: "oauth_env \<Rightarrow> bytes \<Rightarrow> oauth_error option" where
  "redirect_problem env item =
     (if item = [] \<or> length item > 2048 then Some E_Redirect_Length
      else case en_parse env item of
             None \<Rightarrow> Some E_Redirect_Relative
           | Some u \<Rightarrow>
               if u_fragment u \<noteq> [] \<or> u_scheme u = [] \<or> u_host u = [] \<or> u_user u then Some E_Redirect_Relative
               else if u_scheme u = ''https'' then None
               else if u_scheme u = ''http''
               then (if to_lower (u_hostname u) \<in> {''localhost'', ''127.0.0.1'', ''::1''} then None
                     else Some E_Redirect_Loopback)
               else Some E_Redirect_Scheme)"

fun collect_redirects :: "oauth_env \<Rightarrow> bytes list \<Rightarrow> bytes list \<Rightarrow> (oauth_error, bytes list) result" where
  "collect_redirects env out [] = Inr out"
| "collect_redirects env out (item # rest) =
     (case redirect_problem env item of
        Some e \<Rightarrow> Inl e
      | None \<Rightarrow> if item \<in> set out then Inl E_Redirect_Repeated else collect_redirects env (out @ [item]) rest)"

definition validate_redirect_uris :: "oauth_env \<Rightarrow> bytes list \<Rightarrow> (oauth_error, bytes list) result" where
  "validate_redirect_uris env uris =
     (if uris = [] \<or> length uris > max_redirect_uris then Inl E_Redirect_Count
      else collect_redirects env [] uris)"

text \<open>What an accepted list is.\<close>

definition redirects_ok :: "oauth_env \<Rightarrow> bytes list \<Rightarrow> bool" where
  "redirects_ok env uris \<longleftrightarrow> uris \<noteq> [] \<and> length uris \<le> max_redirect_uris \<and> distinct uris \<and>
     list_all (\<lambda>u. redirect_problem env u = None) uris"

lemma collect_redirects_ok:
  "distinct out \<Longrightarrow> collect_redirects env out uris = Inr r \<longleftrightarrow>
     r = out @ uris \<and> distinct (out @ uris) \<and> list_all (\<lambda>u. redirect_problem env u = None) uris"
  by (induction env out uris rule: collect_redirects.induct) (auto split: option.splits)

lemma validate_redirect_uris_ok: "validate_redirect_uris env uris = Inr r \<longleftrightarrow> r = uris \<and> redirects_ok env uris"
  by (auto simp: validate_redirect_uris_def redirects_ok_def collect_redirects_ok)

section \<open>Clients\<close>

record oauth_client =
  oc_id :: bytes
  oc_redirects :: "bytes list"
  oc_method :: bytes
  oc_name :: bytes
  oc_digest :: bytes
  oc_issued :: int

text \<open>The registry in memory, whether it has a file, and the content of the file.\<close>

record registry =
  re_clients :: "(bytes \<times> oauth_client) list"
  re_persist :: bool
  re_disk :: "oauth_client list option"

definition max_registered_clients :: nat where
  "max_registered_clients = 1024"

definition new_registry :: "oauth_client list option \<Rightarrow> registry" where
  "new_registry disk = \<lparr>re_clients = [], re_persist = False, re_disk = disk\<rparr>"

text \<open>
  \<^verbatim>\<open>saveLocked\<close>. The redirect URIs and identifiers are valid UTF-8 (they come from a decoder or a
  random draw); the name may be cut within a rune. The file is replaced by one renaming, so it is
  either the old one or the new one; \<open>saved\<close> tells which. The order of its entries has no effect:
  \<^verbatim>\<open>Load\<close> puts them into a map.
\<close>

definition stored_client :: "oauth_env \<Rightarrow> oauth_client \<Rightarrow> oauth_client" where
  "stored_client env c = c\<lparr>oc_name := en_json_text env (oc_name c)\<rparr>"

definition save_registry :: "oauth_env \<Rightarrow> bool \<Rightarrow> registry \<Rightarrow>
    registry \<times> bool" where
  "save_registry env saved r =
     (if \<not> re_persist r then (r, True)
      else if saved then (r\<lparr>re_disk := Some (map (stored_client env \<circ> snd) (re_clients r))\<rparr>, True)
      else (r, False))"

text \<open>\<^verbatim>\<open>Load\<close>; \<open>readable\<close> tells whether an existing file can be read and decoded.\<close>

definition load_clients :: "oauth_client list \<Rightarrow> (bytes \<times> oauth_client) list" where
  "load_clients cs = foldl (\<lambda>m c. if oc_id c = [] then m else AList.update (oc_id c) c m) [] cs"

definition load_registry :: "bool \<Rightarrow> registry \<Rightarrow> (oauth_error, registry) result" where
  "load_registry readable r =
     (if \<not> re_persist r then Inr r
      else case re_disk r of
             None \<Rightarrow> Inr r
           | Some cs \<Rightarrow> if readable then Inr (r\<lparr>re_clients := load_clients cs\<rparr>) else Inl E_Clients_File)"

definition set_persist_path :: "bytes \<Rightarrow> bool \<Rightarrow> registry \<Rightarrow> (oauth_error, registry) result" where
  "set_persist_path path readable r =
     (if path = [] then Inr (r\<lparr>re_persist := False\<rparr>) else load_registry readable (r\<lparr>re_persist := True\<rparr>))"

text \<open>\<^verbatim>\<open>AddPreregistered\<close>: the client stays in memory when the file could not be written.\<close>

definition add_preregistered :: "oauth_env \<Rightarrow> bool \<Rightarrow> int \<Rightarrow> bytes \<Rightarrow>
    bytes list \<Rightarrow> bytes \<Rightarrow> registry \<Rightarrow> registry \<times> (oauth_error, unit) result" where
  "add_preregistered env saved now cid uris secret r =
     (case validate_redirect_uris env uris of
        Inl e \<Rightarrow> (r, Inl e)
      | Inr us \<Rightarrow>
          let c = \<lparr>oc_id = cid, oc_redirects = us,
                   oc_method = (if secret \<noteq> [] then ''client_secret_post'' else ''none''), oc_name = [],
                   oc_digest = (if secret \<noteq> [] then en_sha env secret else []), oc_issued = unix_seconds now\<rparr>;
              (r1, ok) = save_registry env saved (r\<lparr>re_clients := AList.update cid c (re_clients r)\<rparr>)
          in (r1, if ok then Inr () else Inl E_Client_Save))"

section \<open>Dynamic registration\<close>

fun uri_texts :: "json list \<Rightarrow> (oauth_error, bytes list) result" where
  "uri_texts [] = Inr []"
| "uri_texts (JStr s # js) = and_then (uri_texts js) (\<lambda>us. Inr (s # us))"
| "uri_texts (_ # js) = Inl E_Redirect_Text"

definition metadata_uris :: "(bytes \<times> json) list \<Rightarrow> (oauth_error, bytes list) result" where
  "metadata_uris meta = (case map_of meta ''redirect_uris'' of Some (JArr js) \<Rightarrow> uri_texts js | _ \<Rightarrow> Inr [])"

definition metadata_text :: "bytes \<Rightarrow> (bytes \<times> json) list \<Rightarrow> bytes" where
  "metadata_text key meta = (case map_of meta key of Some (JStr s) \<Rightarrow> s | _ \<Rightarrow> [])"

definition metadata_method :: "(bytes \<times> json) list \<Rightarrow> bytes" where
  "metadata_method meta =
     (let v = metadata_text ''token_endpoint_auth_method'' meta in if v = [] then ''none'' else v)"

definition client_methods :: "bytes list" where
  "client_methods = [''none'', ''client_secret_post'', ''client_secret_basic'']"

text \<open>The reply of \<^verbatim>\<open>Register\<close>, as the JSON object it becomes.\<close>

definition registration_reply :: "oauth_client \<Rightarrow> bytes \<Rightarrow> (bytes \<times> json) list" where
  "registration_reply c secret =
     [(''client_id'', JStr (oc_id c)), (''client_id_issued_at'', JNum (show_int (oc_issued c))),
      (''redirect_uris'', JArr (map JStr (oc_redirects c))),
      (''grant_types'', JArr [JStr ''authorization_code'']), (''response_types'', JArr [JStr ''code'']),
      (''token_endpoint_auth_method'', JStr (oc_method c))] @
     (if oc_name c \<noteq> [] then [(''client_name'', JStr (oc_name c))] else []) @
     (if secret \<noteq> [] then [(''client_secret'', JStr secret), (''client_secret_expires_at'', JNum ''0'')] else [])"

text \<open>\<^verbatim>\<open>Register\<close>; \<^const>\<open>None\<close> when the draw of an identifier does not end.\<close>

definition register_client :: "oauth_env \<Rightarrow> bool \<Rightarrow> (nat \<Rightarrow> bytes) \<Rightarrow> int \<Rightarrow>
    (bytes \<times> json) list \<Rightarrow> registry \<Rightarrow> (registry \<times> (oauth_error, (bytes \<times> json) list) result) option" where
  "register_client env saved ids now meta r =
     (case and_then (metadata_uris meta) (validate_redirect_uris env) of
        Inl e \<Rightarrow> Some (r, Inl e)
      | Inr uris \<Rightarrow>
          let auth = metadata_method meta; name = take 200 (trim_space (metadata_text ''client_name'' meta)) in
          if auth \<notin> set client_methods then Some (r, Inl E_Auth_Method)
          else if length (re_clients r) \<ge> max_registered_clients then Some (r, Inl E_Client_Limit)
          else case draw_unused (\<lambda>i. i) (map fst (re_clients r)) ids 0 of
                 None \<Rightarrow> None
               | Some (i, k) \<Rightarrow>
                   let secret = (if auth \<noteq> ''none'' then ids k else []);
                       c = \<lparr>oc_id = i, oc_redirects = uris, oc_method = auth, oc_name = name,
                            oc_digest = (if auth \<noteq> ''none'' then en_sha env secret else []),
                            oc_issued = unix_seconds now\<rparr>;
                       (r1, ok) = save_registry env saved (r\<lparr>re_clients := AList.update i c (re_clients r)\<rparr>)
                   in Some (if ok then (r1, Inr (registration_reply c secret))
                            else (r1\<lparr>re_clients := AList.delete i (re_clients r1)\<rparr>, Inl E_Client_Save)))"

section \<open>Looking clients up\<close>

definition get_client :: "bytes \<Rightarrow> registry \<Rightarrow> oauth_client option" where
  "get_client cid r = map_of (re_clients r) cid"

definition registry_accepts_redirect :: "bytes \<Rightarrow> bytes \<Rightarrow> registry \<Rightarrow> bool" where
  "registry_accepts_redirect cid uri r =
     (case get_client cid r of None \<Rightarrow> False | Some c \<Rightarrow> uri \<in> set (oc_redirects c))"

definition registry_authenticates :: "oauth_env \<Rightarrow> bytes \<Rightarrow> bytes \<Rightarrow> bytes \<Rightarrow> registry \<Rightarrow> bool" where
  "registry_authenticates env cid secret auth r =
     (case get_client cid r of
        None \<Rightarrow> False
      | Some c \<Rightarrow>
          if oc_method c \<noteq> auth then False
          else if oc_method c = ''none'' then secret = []
          else if oc_digest c = [] \<or> secret = [] then False
          else oc_digest c = en_sha env secret)"

section \<open>Metadata documents\<close>

record cimd_entry =
  ce_client :: oauth_client
  ce_fetched :: int

type_synonym cimd_cache = "(bytes \<times> cimd_entry) list"

definition cimd_cache_ttl :: int where
  "cimd_cache_ttl = 15 * 60 * 1000000000"

definition is_metadata_url :: "oauth_env \<Rightarrow> bytes \<Rightarrow> bool" where
  "is_metadata_url env cid0 =
     (let cid = trim_space cid0 in
      if cid = [] \<or> length cid > 2048 then False
      else case en_parse env cid of
             None \<Rightarrow> False
           | Some u \<Rightarrow> u_scheme u = ''https'' \<and> u_host u \<noteq> [] \<and> \<not> u_user u \<and> u_fragment u = [])"

definition client_from_cimd :: "oauth_env \<Rightarrow> int \<Rightarrow> bytes \<Rightarrow> cimd_doc \<Rightarrow> (oauth_error, oauth_client) result" where
  "client_from_cimd env now cid doc =
     (if cd_client_id doc \<noteq> [] \<and> cd_client_id doc \<noteq> cid then Inl E_Metadata_Mismatch
      else case validate_redirect_uris env (cd_redirects doc) of
             Inl e \<Rightarrow> Inl e
           | Inr uris \<Rightarrow>
               let has_none = ''none'' \<in> set (cd_methods doc);
                   stated = trim_space (cd_method doc);
                   auth = (if stated = [] then ''none'' else stated)
               in if auth \<noteq> ''none'' \<and> \<not> has_none then Inl E_Metadata_Method
                  else Inr \<lparr>oc_id = cid, oc_redirects = uris, oc_method = ''none'', oc_name = trim_space (cd_name doc),
                            oc_digest = [], oc_issued = unix_seconds now\<rparr>)"

text \<open>The part of \<^verbatim>\<open>Resolve\<close> after a cache miss.\<close>

definition fetch_cimd :: "oauth_env \<Rightarrow> (nat \<Rightarrow> int) \<Rightarrow> bytes \<Rightarrow> cimd_cache \<Rightarrow>
    cimd_cache \<times> (oauth_error, oauth_client) result" where
  "fetch_cimd env t cid cache =
     (case en_web env (t 0) cid of
        None \<Rightarrow> (cache, Inl E_Fetch)
      | Some doc \<Rightarrow>
          (case client_from_cimd env (t 1) cid doc of
             Inl e \<Rightarrow> (cache, Inl e)
           | Inr c \<Rightarrow> (AList.update cid \<lparr>ce_client = c, ce_fetched = t 0\<rparr> cache, Inr c)))"

definition resolve_cimd :: "oauth_env \<Rightarrow> (nat \<Rightarrow> int) \<Rightarrow> bytes \<Rightarrow> cimd_cache \<Rightarrow>
    cimd_cache \<times> (oauth_error, oauth_client) result" where
  "resolve_cimd env t cid cache =
     (if \<not> is_metadata_url env cid then (cache, Inl E_Not_Metadata)
      else case map_of cache cid of
             Some e \<Rightarrow> if t 0 - ce_fetched e < cimd_cache_ttl then (cache, Inr (ce_client e)) else fetch_cimd env t cid cache
           | None \<Rightarrow> fetch_cimd env t cid cache)"

end
