(* ===== verification/Oauth_Server.thy ===== *)
theory Oauth_Server
  imports Oauth_Registry "HOL-Library.List_Lexorder" "HOL-Library.Char_ord"
begin

text \<open>
  The authorization server of \<^verbatim>\<open>internal/oauth/token.go\<close> with \<^verbatim>\<open>pkce.go\<close> and the file of refresh grants
  (\<^verbatim>\<open>refresh_persist.go\<close>): authorization codes, access tokens and rotating refresh tokens. A refresh
  grant is stored under the SHA-256 digest of its token. \<^verbatim>\<open>CIMD\<close> is never nil: \<^verbatim>\<open>NewServer\<close> sets it.
\<close>

section \<open>Data\<close>

record auth_code =
  co_client :: bytes
  co_redirect :: bytes
  co_challenge :: bytes
  co_resource :: bytes
  co_scope :: bytes
  co_expires :: int

record refresh_grant =
  gr_client :: bytes
  gr_resource :: bytes
  gr_scope :: bytes
  gr_expires :: int

record stored_grant =
  sg_hash :: bytes
  sg_client :: bytes
  sg_resource :: bytes
  sg_scope :: bytes
  sg_expires :: int

record refresh_file =
  rf_version :: int
  rf_grants :: "stored_grant list"

record oauth_server =
  os_password :: bytes
  os_url :: bytes
  os_secret :: bytes
  os_ttl :: int
  os_registry :: registry
  os_cimd :: cimd_cache
  os_codes :: "(bytes \<times> auth_code) list"
  os_refresh :: "(bytes \<times> refresh_grant) list"
  os_persist :: bool
  os_disk :: "refresh_file option"

definition code_ttl :: int where "code_ttl = 300 * 1000000000"
definition max_pending_codes :: nat where "max_pending_codes = 256"
definition refresh_ttl :: int where "refresh_ttl = 30 * 24 * 3600 * 1000000000"
definition max_refresh_tokens :: nat where "max_refresh_tokens = 4096"
definition default_scope :: bytes where "default_scope = ''mcp''"

fun trim_slash_rev :: "bytes \<Rightarrow> bytes" where
  "trim_slash_rev [] = []"
| "trim_slash_rev (c # s) = (if c = CHR ''/'' then trim_slash_rev s else c # s)"

definition trim_slash :: "bytes \<Rightarrow> bytes" where
  "trim_slash s = rev (trim_slash_rev (rev s))"

definition new_server :: "bytes \<Rightarrow> bytes \<Rightarrow> bytes \<Rightarrow> int \<Rightarrow> oauth_client list option \<Rightarrow> refresh_file option \<Rightarrow> oauth_server" where
  "new_server password url secret ttl clients_disk refresh_disk =
     \<lparr>os_password = password, os_url = trim_slash url, os_secret = secret,
      os_ttl = (if ttl \<le> 0 then 86400 else ttl), os_registry = new_registry clients_disk, os_cimd = [],
      os_codes = [], os_refresh = [], os_persist = False, os_disk = refresh_disk\<rparr>"

section \<open>Clients\<close>

definition resolve_client :: "oauth_env \<Rightarrow> (nat \<Rightarrow> int) \<Rightarrow> bytes \<Rightarrow> oauth_server \<Rightarrow>
    oauth_server \<times> (oauth_error, oauth_client) result" where
  "resolve_client env t cid s =
     (case get_client cid (os_registry s) of
        Some c \<Rightarrow> (s, Inr c)
      | None \<Rightarrow>
          if is_metadata_url env cid
          then (let (cache, r) = resolve_cimd env t cid (os_cimd s) in (s\<lparr>os_cimd := cache\<rparr>, r))
          else (s, Inl E_Unknown_Client))"

definition allows_chatgpt_redirect :: "oauth_env \<Rightarrow> bytes \<Rightarrow> bool" where
  "allows_chatgpt_redirect env uri =
     (case en_parse env uri of
        None \<Rightarrow> False
      | Some u \<Rightarrow>
          if u_scheme u \<noteq> ''https'' \<or> u_fragment u \<noteq> [] \<or> u_user u then False
          else if to_lower (u_hostname u) \<notin> {''chatgpt.com'', ''www.chatgpt.com'', ''chat.openai.com''} then False
          else let path = u_escaped_path u in
               path = ''/connector_platform_oauth_redirect'' \<or>
               has_prefix path ''/connector/oauth/'' \<and> length path > length ''/connector/oauth/'')"

definition accepts_client_redirect :: "oauth_env \<Rightarrow> (nat \<Rightarrow> int) \<Rightarrow> bytes \<Rightarrow> bytes \<Rightarrow> oauth_server \<Rightarrow>
    oauth_server \<times> bool" where
  "accepts_client_redirect env t cid uri s =
     (if registry_accepts_redirect cid uri (os_registry s) then (s, True)
      else if \<not> is_metadata_url env cid then (s, False)
      else let (cache, r) = resolve_cimd env t cid (os_cimd s) in
           (s\<lparr>os_cimd := cache\<rparr>,
            case r of Inl e \<Rightarrow> False
            | Inr c \<Rightarrow> uri \<in> set (oc_redirects c) \<or> allows_chatgpt_redirect env uri))"

definition authenticates_client :: "oauth_env \<Rightarrow> (nat \<Rightarrow> int) \<Rightarrow> bytes \<Rightarrow> bytes \<Rightarrow> bytes \<Rightarrow> oauth_server \<Rightarrow>
    oauth_server \<times> bool" where
  "authenticates_client env t cid secret auth0 s =
     (if registry_authenticates env cid secret auth0 (os_registry s) then (s, True)
      else if \<not> is_metadata_url env cid then (s, False)
      else let (cache, r) = resolve_cimd env t cid (os_cimd s);
               auth = (if auth0 = [] then ''none'' else auth0)
           in (s\<lparr>os_cimd := cache\<rparr>,
               case r of
                 Inl e \<Rightarrow> False
               | Inr c \<Rightarrow>
                   if oc_method c \<noteq> auth then auth = ''none'' \<and> secret = []
                   else oc_method c = ''none'' \<and> secret = []))"

section \<open>Proof keys\<close>

definition code_between :: "char \<Rightarrow> char \<Rightarrow> char \<Rightarrow> bool" where
  "code_between a b c \<longleftrightarrow> (of_char a :: nat) \<le> of_char c \<and> (of_char c :: nat) \<le> of_char b"

definition challenge_char :: "char \<Rightarrow> bool" where
  "challenge_char c \<longleftrightarrow> code_between (CHR ''A'') (CHR ''Z'') c \<or> code_between (CHR ''a'') (CHR ''z'') c \<or>
     code_between (CHR ''0'') (CHR ''9'') c \<or> c = CHR ''_'' \<or> c = CHR ''-''"

definition verifier_char :: "char \<Rightarrow> bool" where
  "verifier_char c \<longleftrightarrow> challenge_char c \<or> c = CHR ''.'' \<or> c = CHR ''~''"

definition valid_challenge :: "bytes \<Rightarrow> bool" where
  "valid_challenge challenge \<longleftrightarrow> length challenge = 43 \<and> list_all challenge_char challenge"

definition verify_s256 :: "oauth_env \<Rightarrow> bytes \<Rightarrow> bytes \<Rightarrow> bool" where
  "verify_s256 env verifier challenge \<longleftrightarrow>
     43 \<le> length verifier \<and> length verifier \<le> 128 \<and> list_all verifier_char verifier \<and>
     valid_challenge challenge \<and> en_s256 env verifier = challenge"

section \<open>Issuer and resource\<close>

definition effective_issuer :: "bytes \<Rightarrow> oauth_server \<Rightarrow> bytes" where
  "effective_issuer origin s = (if os_url s \<noteq> [] then os_url s else trim_slash origin)"

definition resource_url :: "bytes \<Rightarrow> bytes" where
  "resource_url issuer = trim_slash issuer @ ''/mcp''"

definition issuer_from_resource :: "bytes \<Rightarrow> bytes" where
  "issuer_from_resource resource0 =
     (let resource = trim_slash resource0 in
      if has_suffix resource ''/mcp'' then trim_slash (trim_suffix resource ''/mcp'') else resource)"

text \<open>The issuer and the audience of the token for a grant's resource.\<close>

definition token_target :: "bytes \<Rightarrow> bytes \<Rightarrow> oauth_server \<Rightarrow> bytes \<times> bytes" where
  "token_target granted requested s =
     (let res = (if requested \<noteq> [] then requested else granted);
          issuer0 = effective_issuer [] s;
          issuer = (if issuer0 = [] then issuer_from_resource res else issuer0)
      in (issuer, if res = [] then resource_url issuer else res))"

section \<open>Access tokens\<close>

definition create_access_token :: "oauth_env \<Rightarrow> int \<Rightarrow> bytes \<Rightarrow> bytes \<Rightarrow> bytes \<Rightarrow> oauth_server \<Rightarrow>
    (oauth_error, bytes) result" where
  "create_access_token env now cid audience0 issuer0 s =
     (if os_secret s = [] then Inl E_No_Secret
      else let issuer = (if issuer0 = [] then effective_issuer [] s else issuer0);
               audience = (if audience0 = [] then resource_url issuer else audience0)
           in case en_sign env (os_secret s)
                \<lparr>ac_issuer = issuer, ac_audience = audience, ac_subject = cid, ac_client = cid,
                 ac_issued = unix_seconds now,
                 ac_expires = unix_seconds (now + wrap64 (os_ttl s * 1000000000)), ac_scope = default_scope\<rparr> of
                None \<Rightarrow> Inl E_Sign
              | Some tok \<Rightarrow> Inr tok)"

definition validate_access_token :: "oauth_env \<Rightarrow> (nat \<Rightarrow> int) \<Rightarrow> bytes \<Rightarrow> bytes \<Rightarrow> bytes \<Rightarrow> oauth_server \<Rightarrow>
    oauth_server \<times> bytes option" where
  "validate_access_token env t token issuer audience s =
     (if token = [] \<or> os_secret s = [] then (s, None)
      else case en_verify env (os_secret s) (t 0) issuer audience token of
             None \<Rightarrow> (s, None)
           | Some claims \<Rightarrow>
               let cid = (if ac_client claims = [] then ac_subject claims else ac_client claims) in
               if cid = [] then (s, None)
               else (let (s1, r) = resolve_client env (later 1 t) cid s in
                     (s1, case r of Inl e \<Rightarrow> None | Inr c \<Rightarrow> Some cid)))"

section \<open>Authorization codes\<close>

definition prune_codes :: "int \<Rightarrow> oauth_server \<Rightarrow> oauth_server" where
  "prune_codes now s = s\<lparr>os_codes := filter (\<lambda>e. \<not> now > co_expires (snd e)) (os_codes s)\<rparr>"

text \<open>Readings 0 and 1 are those of the check of the redirect URI.\<close>

definition issue_code :: "oauth_env \<Rightarrow> (nat \<Rightarrow> int) \<Rightarrow> bytes \<Rightarrow> bytes \<Rightarrow> bytes \<Rightarrow> bytes \<Rightarrow> bytes \<Rightarrow> bytes \<Rightarrow> bytes \<Rightarrow>
    oauth_server \<Rightarrow> oauth_server \<times> (oauth_error, bytes) result" where
  "issue_code env t new_code cid uri challenge auth resource scope s =
     (if auth \<noteq> [] \<and> auth \<noteq> ''S256'' then (s, Inl E_Pkce_Method)
      else if \<not> valid_challenge challenge then (s, Inl E_Challenge)
      else let (s1, accepted) = accepts_client_redirect env t cid uri s in
        if \<not> accepted then (s1, Inl E_Redirect_Refused)
        else let s2 = prune_codes (t 2) s1 in
          if length (os_codes s2) \<ge> max_pending_codes then (s2, Inl E_Too_Many_Codes)
          else (s2\<lparr>os_codes := AList.update new_code
                  \<lparr>co_client = cid, co_redirect = uri, co_challenge = challenge, co_resource = resource,
                   co_scope = (if scope = [] then default_scope else scope), co_expires = t 3 + code_ttl\<rparr>
                  (os_codes s2)\<rparr>, Inr new_code))"

definition check_password :: "bytes \<Rightarrow> oauth_server \<Rightarrow> bool" where
  "check_password got s \<longleftrightarrow> os_password s = got"

definition redeem_code :: "oauth_env \<Rightarrow> (nat \<Rightarrow> int) \<Rightarrow> auth_code \<Rightarrow> bytes \<Rightarrow> bytes \<Rightarrow> bytes \<Rightarrow> bytes \<Rightarrow> oauth_server \<Rightarrow>
    (oauth_error, bytes \<times> int) result" where
  "redeem_code env t ac uri cid verifier resource s =
     (if t 0 > co_expires ac then Inl E_Invalid_Grant
      else if co_client ac \<noteq> cid \<or> co_redirect ac \<noteq> uri then Inl E_Invalid_Grant
      else if \<not> verify_s256 env verifier (co_challenge ac) then Inl E_Invalid_Grant
      else let (issuer, res) = token_target (co_resource ac) resource s in
           if issuer = [] then Inl E_No_Issuer
           else and_then (create_access_token env (t 1) cid res issuer s) (\<lambda>tok. Inr (tok, os_ttl s)))"

definition exchange_code :: "oauth_env \<Rightarrow> (nat \<Rightarrow> int) \<Rightarrow> bytes \<Rightarrow> bytes \<Rightarrow> bytes \<Rightarrow> bytes \<Rightarrow> bytes \<Rightarrow> oauth_server \<Rightarrow>
    oauth_server \<times> (oauth_error, bytes \<times> int) result" where
  "exchange_code env t code uri cid verifier resource s =
     (case map_of (os_codes s) code of
        None \<Rightarrow> (s, Inl E_Invalid_Grant)
      | Some ac \<Rightarrow>
          let s1 = s\<lparr>os_codes := AList.delete code (os_codes s)\<rparr> in
          (s1, redeem_code env t ac uri cid verifier resource s1))"

section \<open>The file of refresh grants\<close>

text \<open>
  What became of a save: the file was replaced, it was not, or it was replaced but making it private
  afterwards failed, which is reported as an error.
\<close>

datatype save_outcome = Stored | Not_Stored | Stored_But_Failed

definition persisted_grant :: "oauth_env \<Rightarrow> bytes \<times> refresh_grant \<Rightarrow> stored_grant" where
  "persisted_grant env e =
     \<lparr>sg_hash = fst e, sg_client = en_json_text env (gr_client (snd e)),
      sg_resource = en_json_text env (gr_resource (snd e)), sg_scope = en_json_text env (gr_scope (snd e)),
      sg_expires = gr_expires (snd e)\<rparr>"

definition refresh_store :: "oauth_env \<Rightarrow> (bytes \<times> refresh_grant) list \<Rightarrow> refresh_file" where
  "refresh_store env m = \<lparr>rf_version = 1, rf_grants = sort_key sg_hash (map (persisted_grant env) m)\<rparr>"

definition save_refresh :: "oauth_env \<Rightarrow> save_outcome \<Rightarrow> oauth_server \<Rightarrow> oauth_server \<times> bool" where
  "save_refresh env saved s =
     (if \<not> os_persist s then (s, True)
      else (case saved of
              Stored \<Rightarrow> (s\<lparr>os_disk := Some (refresh_store env (os_refresh s))\<rparr>, True)
            | Not_Stored \<Rightarrow> (s, False)
            | Stored_But_Failed \<Rightarrow> (s\<lparr>os_disk := Some (refresh_store env (os_refresh s))\<rparr>, False)))"

definition hex_char :: "char \<Rightarrow> bool" where
  "hex_char c \<longleftrightarrow> code_between (CHR ''0'') (CHR ''9'') c \<or> code_between (CHR ''a'') (CHR ''f'') c \<or>
     code_between (CHR ''A'') (CHR ''F'') c"

definition valid_token_hash :: "bytes \<Rightarrow> bool" where
  "valid_token_hash v \<longleftrightarrow> length v = 64 \<and> list_all hex_char v"

text \<open>The loop of \<^verbatim>\<open>loadRefreshLocked\<close>: the grants still good and whether one was left out.\<close>

fun load_grants :: "int \<Rightarrow> (bytes \<times> refresh_grant) list \<Rightarrow> bool \<Rightarrow> stored_grant list \<Rightarrow>
    (oauth_error, (bytes \<times> refresh_grant) list \<times> bool) result" where
  "load_grants now loaded pruned [] = Inr (loaded, pruned)"
| "load_grants now loaded pruned (g # gs) =
     (if \<not> valid_token_hash (sg_hash g) then Inl E_Refresh_Hash
      else if trim_space (sg_client g) = [] then Inl E_Refresh_Client
      else if \<not> sg_expires g > now then load_grants now loaded True gs
      else if sg_hash g \<in> set (map fst loaded) then Inl E_Refresh_Duplicate
      else load_grants now
        (loaded @ [(sg_hash g, \<lparr>gr_client = sg_client g, gr_resource = sg_resource g, gr_scope = sg_scope g,
           gr_expires = sg_expires g\<rparr>)]) pruned gs)"

definition load_refresh :: "oauth_env \<Rightarrow> bool \<Rightarrow> int \<Rightarrow> save_outcome \<Rightarrow> oauth_server \<Rightarrow>
    oauth_server \<times> (oauth_error, unit) result" where
  "load_refresh env readable now saved s =
     (case os_disk s of
        None \<Rightarrow> (s, Inr ())
      | Some file \<Rightarrow>
          if \<not> readable then (s, Inl E_Refresh_File)
          else if rf_version file \<noteq> 1 then (s, Inl E_Refresh_Version)
          else (case load_grants now [] False (rf_grants file) of
                  Inl e \<Rightarrow> (s, Inl e)
                | Inr (loaded, pruned) \<Rightarrow>
                    let s1 = s\<lparr>os_refresh := loaded\<rparr> in
                    if pruned
                    then (let (s2, ok) = save_refresh env saved s1 in (s2, if ok then Inr () else Inl E_Refresh_File))
                    else (s1, Inr ())))"

definition set_refresh_persist_path :: "oauth_env \<Rightarrow> bytes \<Rightarrow> bool \<Rightarrow> int \<Rightarrow> save_outcome \<Rightarrow> oauth_server \<Rightarrow>
    oauth_server \<times> (oauth_error, unit) result" where
  "set_refresh_persist_path env path readable now saved s =
     (if trim_space path = [] then (s\<lparr>os_persist := False\<rparr>, Inr ())
      else load_refresh env readable now saved (s\<lparr>os_persist := True\<rparr>))"

section \<open>Refresh tokens\<close>

definition prune_refresh :: "int \<Rightarrow> oauth_server \<Rightarrow> oauth_server" where
  "prune_refresh now s = s\<lparr>os_refresh := filter (\<lambda>e. \<not> now > gr_expires (snd e)) (os_refresh s)\<rparr>"

text \<open>The oldest grant in the order of the iteration; no grant is the empty key.\<close>

definition oldest_grant :: "(bytes \<times> refresh_grant) list \<Rightarrow> bytes \<times> int" where
  "oldest_grant m =
     foldl (\<lambda>old e. if fst old = [] \<or> gr_expires (snd e) < snd old then (fst e, gr_expires (snd e)) else old) ([], 0) m"

definition evict_oldest :: "((bytes \<times> refresh_grant) list \<Rightarrow> (bytes \<times> refresh_grant) list) \<Rightarrow> oauth_server \<Rightarrow>
    oauth_server" where
  "evict_oldest order s =
     (if length (os_refresh s) \<ge> max_refresh_tokens
      then (let old = fst (oldest_grant (order (os_refresh s))) in
            if old \<noteq> [] then s\<lparr>os_refresh := AList.delete old (os_refresh s)\<rparr> else s)
      else s)"

definition put_refresh :: "oauth_env \<Rightarrow> (nat \<Rightarrow> bytes) \<Rightarrow> int \<Rightarrow> bytes \<Rightarrow> bytes \<Rightarrow> bytes \<Rightarrow> oauth_server \<Rightarrow>
    (oauth_server \<times> bytes) option" where
  "put_refresh env ids now cid resource scope s =
     (case draw_unused (en_sha env) (map fst (os_refresh s)) ids 0 of
        None \<Rightarrow> None
      | Some (tok, k) \<Rightarrow>
          Some (s\<lparr>os_refresh := AList.update (en_sha env tok)
                 \<lparr>gr_client = cid, gr_resource = resource, gr_scope = (if scope = [] then default_scope else scope),
                  gr_expires = now + refresh_ttl\<rparr> (os_refresh s)\<rparr>, tok))"

definition issue_refresh :: "oauth_env \<Rightarrow> ((bytes \<times> refresh_grant) list \<Rightarrow> (bytes \<times> refresh_grant) list) \<Rightarrow>
    (nat \<Rightarrow> bytes) \<Rightarrow> (nat \<Rightarrow> int) \<Rightarrow> save_outcome \<Rightarrow> bytes \<Rightarrow> bytes \<Rightarrow> bytes \<Rightarrow> oauth_server \<Rightarrow>
    (oauth_server \<times> (oauth_error, bytes) result) option" where
  "issue_refresh env order ids t saved cid resource scope s =
     (case put_refresh env ids (t 1) cid resource scope (evict_oldest order (prune_refresh (t 0) s)) of
        None \<Rightarrow> None
      | Some (s1, tok) \<Rightarrow>
          let (s2, ok) = save_refresh env saved s1 in
          Some (if ok then (s2, Inr tok) else (s2\<lparr>os_refresh := os_refresh s\<rparr>, Inl E_Refresh_Save)))"

text \<open>The new access token, its lifetime and the next refresh token.\<close>

definition exchange_refresh :: "oauth_env \<Rightarrow> (nat \<Rightarrow> bytes) \<Rightarrow> (nat \<Rightarrow> int) \<Rightarrow> save_outcome \<Rightarrow> bytes \<Rightarrow> bytes \<Rightarrow> bytes \<Rightarrow>
    oauth_server \<Rightarrow> (oauth_server \<times> (oauth_error, bytes \<times> int \<times> bytes) result) option" where
  "exchange_refresh env ids t saved token cid resource s =
     (case map_of (os_refresh s) (en_sha env token) of
        None \<Rightarrow> Some (s, Inl E_Invalid_Grant)
      | Some g \<Rightarrow>
          if t 0 > gr_expires g then Some (s, Inl E_Invalid_Grant)
          else if gr_client g \<noteq> cid then Some (s, Inl E_Invalid_Grant)
          else let (issuer, res) = token_target (gr_resource g) resource s in
            (case create_access_token env (t 1) cid res issuer s of
               Inl e \<Rightarrow> Some (s, Inl e)
             | Inr tok \<Rightarrow>
                 (case put_refresh env ids (t 2) cid res (gr_scope g)
                    (s\<lparr>os_refresh := AList.delete (en_sha env token) (os_refresh s)\<rparr>) of
                    None \<Rightarrow> None
                  | Some (s1, new_token) \<Rightarrow>
                      let (s2, ok) = save_refresh env saved s1 in
                      Some (if ok then (s2, Inr (tok, os_ttl s, new_token))
                            else (s2\<lparr>os_refresh := os_refresh s\<rparr>, Inl E_Refresh_Save)))))"

end
