(* ===== verification/Oauth_Handlers.thy ===== *)
theory Oauth_Handlers
  imports Oauth_Server
begin

text \<open>
  The HTTP endpoints of \<^verbatim>\<open>internal/oauth/handlers.go\<close>, the check of a bearer token in \<^verbatim>\<open>internal/auth\<close> and the
  gateway's decision on a request to \<^verbatim>\<open>/mcp\<close> (\<^verbatim>\<open>wrapMCP\<close>), and the building of the server from the
  configuration (\<^verbatim>\<open>buildOAuthServer\<close>). A response carries its status and, for JSON, the object; the text
  of an error and the HTML of the form are left out.
\<close>

section \<open>Requests and responses\<close>

text \<open>
  \<open>hr_form\<close> is \<^verbatim>\<open>FormValue\<close> and \<open>hr_query\<close> \<^verbatim>\<open>URL.Query().Get\<close>, empty for a missing value; \<open>hr_body\<close> is
  \<^const>\<open>None\<close> when reading the body fails.
\<close>

record http_request =
  hr_method :: bytes
  hr_tls :: bool
  hr_host :: bytes
  hr_forwarded_proto :: bytes
  hr_forwarded_host :: bytes
  hr_authorization :: bytes
  hr_path :: bytes
  hr_form_ok :: bool
  hr_form :: "bytes \<Rightarrow> bytes"
  hr_query :: "bytes \<Rightarrow> bytes"
  hr_body :: "bytes option"

datatype http_response =
    Plain_Error nat
  | Oauth_Failure nat bytes
  | Json_Reply nat "(bytes \<times> json) list"
  | Login_Form "bytes list"
  | Redirect_Reply bytes

definition before_comma :: "bytes \<Rightarrow> bytes" where
  "before_comma s = takeWhile (\<lambda>c. c \<noteq> CHR '','') s"

definition request_origin :: "bool \<Rightarrow> http_request \<Rightarrow> bytes" where
  "request_origin trust_proxy r =
     (let scheme0 = (if hr_tls r then ''https'' else ''http'');
          scheme = (if trust_proxy \<and> hr_forwarded_proto r \<noteq> [] then trim_space (before_comma (hr_forwarded_proto r))
                    else scheme0);
          host = (if trust_proxy \<and> hr_forwarded_host r \<noteq> [] then trim_space (before_comma (hr_forwarded_host r))
                  else hr_host r)
      in scheme @ ''://'' @ host)"

section \<open>Metadata and registration\<close>

definition is_read :: "http_request \<Rightarrow> bool" where
  "is_read r \<longleftrightarrow> hr_method r = ''GET'' \<or> hr_method r = ''HEAD''"

definition oauth_prefix :: bytes where
  "oauth_prefix = ''/mcp/oauth''"

definition handle_resource_metadata :: "http_request \<Rightarrow> oauth_server \<Rightarrow> http_response" where
  "handle_resource_metadata r s =
     (if \<not> is_read r then Plain_Error 405
      else let origin = effective_issuer (request_origin False r) s in
           Json_Reply 200
             [(''resource'', JStr (resource_url origin)), (''authorization_servers'', JArr [JStr origin]),
              (''scopes_supported'', JArr [JStr default_scope]), (''bearer_methods_supported'', JArr [JStr ''header''])])"

definition handle_server_metadata :: "http_request \<Rightarrow> oauth_server \<Rightarrow> http_response" where
  "handle_server_metadata r s =
     (if \<not> is_read r then Plain_Error 405
      else let origin = effective_issuer (request_origin False r) s in
           Json_Reply 200
             [(''issuer'', JStr origin),
              (''authorization_endpoint'', JStr (origin @ oauth_prefix @ ''/authorize'')),
              (''token_endpoint'', JStr (origin @ oauth_prefix @ ''/token'')),
              (''registration_endpoint'', JStr (origin @ oauth_prefix @ ''/register'')),
              (''response_types_supported'', JArr [JStr ''code'']),
              (''grant_types_supported'', JArr [JStr ''authorization_code'', JStr ''refresh_token'']),
              (''code_challenge_methods_supported'', JArr [JStr ''S256'']),
              (''token_endpoint_auth_methods_supported'', JArr (map JStr client_methods)),
              (''scopes_supported'', JArr [JStr default_scope]),
              (''registration_endpoint_auth_methods_supported'', JArr [JStr ''none'']),
              (''client_id_metadata_document_supported'', JBool True)])"

definition max_oauth_body :: nat where
  "max_oauth_body = 8192"

definition handle_register :: "oauth_env \<Rightarrow> bool \<Rightarrow> (nat \<Rightarrow> bytes) \<Rightarrow> int \<Rightarrow> http_request \<Rightarrow> oauth_server \<Rightarrow>
    (oauth_server \<times> http_response) option" where
  "handle_register env saved ids now r s =
     (if hr_method r \<noteq> ''POST'' then Some (s, Plain_Error 405)
      else case hr_body r of
        None \<Rightarrow> Some (s, Oauth_Failure 400 ''invalid_request'')
      | Some body \<Rightarrow>
          (case en_json env (take max_oauth_body body) of
             None \<Rightarrow> Some (s, Oauth_Failure 400 ''invalid_client_metadata'')
           | Some meta \<Rightarrow>
               (case register_client env saved ids now meta (os_registry s) of
                  None \<Rightarrow> None
                | Some (reg, r) \<Rightarrow>
                    Some (s\<lparr>os_registry := reg\<rparr>,
                      case r of Inl e \<Rightarrow> Oauth_Failure 400 ''invalid_client_metadata''
                      | Inr reply \<Rightarrow> Json_Reply 201 reply))))"

section \<open>Authorization\<close>

definition validate_authorize_params :: "oauth_env \<Rightarrow> (nat \<Rightarrow> int) \<Rightarrow> bytes \<Rightarrow> bytes \<Rightarrow> bytes \<Rightarrow> bytes \<Rightarrow> oauth_server \<Rightarrow>
    oauth_server \<times> (oauth_error, unit) result" where
  "validate_authorize_params env t cid uri challenge auth s =
     (if cid = [] \<or> uri = [] \<or> challenge = [] then (s, Inl E_Missing_Parameter)
      else if auth \<noteq> [] \<and> auth \<noteq> ''S256'' then (s, Inl E_Pkce_Method)
      else let (s1, accepted) = accepts_client_redirect env t cid uri s in
        (s1, if \<not> accepted then Inl E_Redirect_Refused
             else if \<not> valid_challenge challenge then Inl E_Challenge else Inr ()))"

text \<open>The values the form shows and carries on, before HTML escaping.\<close>

definition authorize_get :: "oauth_env \<Rightarrow> (nat \<Rightarrow> int) \<Rightarrow> http_request \<Rightarrow> oauth_server \<Rightarrow> oauth_server \<times> http_response" where
  "authorize_get env t r s =
     (let q = hr_query r; cid = q ''client_id''; uri = q ''redirect_uri'';
          scope = (if q ''scope'' = [] then default_scope else q ''scope'');
          (s1, checked) = validate_authorize_params env t cid uri (q ''code_challenge'') (q ''code_challenge_method'') s
      in case checked of
           Inl e \<Rightarrow> (s1, Plain_Error 400)
         | Inr u \<Rightarrow>
             let (s2, client) = resolve_client env (later 2 t) cid s1;
                 name = (case client of Inl e \<Rightarrow> cid | Inr c \<Rightarrow> if oc_name c \<noteq> [] then oc_name c else cid);
                 action = (if hr_path r = [] then oauth_prefix @ ''/authorize'' else hr_path r)
             in (s2, Login_Form [name, uri, scope, action, cid, uri, q ''code_challenge'',
                       q ''code_challenge_method'', q ''state'', q ''resource'', scope]))"

definition authorize_post :: "oauth_env \<Rightarrow> (nat \<Rightarrow> int) \<Rightarrow> bytes \<Rightarrow> http_request \<Rightarrow> oauth_server \<Rightarrow>
    oauth_server \<times> http_response" where
  "authorize_post env t new_code r s =
     (if \<not> hr_form_ok r then (s, Plain_Error 400)
      else let q = hr_form r; cid = q ''client_id''; uri = q ''redirect_uri'';
          (s1, checked) = validate_authorize_params env t cid uri (q ''code_challenge'') (q ''code_challenge_method'') s
      in case checked of
           Inl e \<Rightarrow> (s1, Plain_Error 400)
         | Inr u \<Rightarrow>
             if \<not> check_password (q ''password'') s1 then (s1, Plain_Error 401)
             else let resource = (if q ''resource'' = []
                        then resource_url (effective_issuer (request_origin False r) s1) else q ''resource'');
                      (s2, issued) = issue_code env (later 2 t) new_code cid uri (q ''code_challenge'')
                        (q ''code_challenge_method'') resource (q ''scope'') s1
                  in (s2, case issued of
                       Inl e \<Rightarrow> Plain_Error 400
                     | Inr code \<Rightarrow>
                         (case en_with_query env uri ((''code'', code) #
                            (if q ''state'' \<noteq> [] then [(''state'', q ''state'')] else [])) of
                            None \<Rightarrow> Plain_Error 400
                          | Some target \<Rightarrow> Redirect_Reply target)))"

definition handle_authorize :: "oauth_env \<Rightarrow> (nat \<Rightarrow> int) \<Rightarrow> bytes \<Rightarrow> http_request \<Rightarrow> oauth_server \<Rightarrow>
    oauth_server \<times> http_response" where
  "handle_authorize env t new_code r s =
     (if hr_method r = ''GET'' then authorize_get env t r s
      else if hr_method r = ''POST'' then authorize_post env t new_code r s
      else (s, Plain_Error 405))"

section \<open>Tokens\<close>

text \<open>\<^verbatim>\<open>clientAuth\<close>: identifier, secret and method.\<close>

definition split_colon :: "bytes \<Rightarrow> (bytes \<times> bytes) option" where
  "split_colon s = (case dropWhile (\<lambda>c. c \<noteq> CHR '':'') s of [] \<Rightarrow> None
     | _ # rest \<Rightarrow> Some (takeWhile (\<lambda>c. c \<noteq> CHR '':'') s, rest))"

definition basic_credentials :: "oauth_env \<Rightarrow> bytes \<Rightarrow> (bytes \<times> bytes) option" where
  "basic_credentials env authz =
     (if has_prefix (to_lower authz) ''basic ''
      then (case en_base64 env (trim_space (drop 6 authz)) of
              None \<Rightarrow> None
            | Some raw \<Rightarrow> map_option (\<lambda>(i, p). (en_unescape env i, en_unescape env p)) (split_colon raw))
      else None)"

definition client_auth :: "oauth_env \<Rightarrow> http_request \<Rightarrow> bytes \<times> bytes \<times> bytes" where
  "client_auth env r =
     (let cid = hr_form r ''client_id''; secret = hr_form r ''client_secret'' in
      if secret \<noteq> [] then (cid, secret, ''client_secret_post'')
      else case basic_credentials env (hr_authorization r) of
             Some (i, p) \<Rightarrow> (i, p, ''client_secret_basic'')
           | None \<Rightarrow> if cid \<noteq> [] then (cid, [], ''none'') else ([], [], []))"

text \<open>The client's credentials, first with the method it used, then with the one it is registered for.\<close>

definition token_client :: "oauth_env \<Rightarrow> (nat \<Rightarrow> int) \<Rightarrow> bytes \<Rightarrow> bytes \<Rightarrow> bytes \<Rightarrow> oauth_server \<Rightarrow>
    oauth_server \<times> bool" where
  "token_client env t cid secret auth s =
     (let (s1, ok) = authenticates_client env t cid secret auth s in
      if ok then (s1, True)
      else let (s2, client) = resolve_client env (later 2 t) cid s1 in
           (case client of
              Inl e \<Rightarrow> (s2, False)
            | Inr c \<Rightarrow> authenticates_client env (later 4 t) cid secret (oc_method c) s2))"

definition token_reply :: "bytes \<Rightarrow> int \<Rightarrow> bytes \<Rightarrow> http_response" where
  "token_reply tok ttl refresh =
     Json_Reply 200 [(''access_token'', JStr tok), (''token_type'', JStr ''Bearer''), (''expires_in'', JNum (show_int ttl)),
       (''scope'', JStr default_scope), (''refresh_token'', JStr refresh)]"

text \<open>What the world contributes to one request for a token: draws, clock, the order of the grants, the save.\<close>

record token_run =
  tr_ids :: "nat \<Rightarrow> bytes"
  tr_clock :: "nat \<Rightarrow> int"
  tr_order :: "(bytes \<times> refresh_grant) list \<Rightarrow> (bytes \<times> refresh_grant) list"
  tr_saved :: save_outcome

definition refresh_grant_request :: "oauth_env \<Rightarrow> token_run \<Rightarrow> http_request \<Rightarrow> bytes \<Rightarrow> oauth_server \<Rightarrow>
    (oauth_server \<times> http_response) option" where
  "refresh_grant_request env w r cid s =
     (case exchange_refresh env (tr_ids w) (later 6 (tr_clock w)) (tr_saved w) (hr_form r ''refresh_token'') cid
        (hr_form r ''resource'') s of
        None \<Rightarrow> None
      | Some (s1, Inl e) \<Rightarrow> Some (s1, Oauth_Failure 400 ''invalid_grant'')
      | Some (s1, Inr (tok, ttl, new_token)) \<Rightarrow> Some (s1, token_reply tok ttl new_token))"

definition code_grant_request :: "oauth_env \<Rightarrow> token_run \<Rightarrow> http_request \<Rightarrow> bytes \<Rightarrow> oauth_server \<Rightarrow>
    (oauth_server \<times> http_response) option" where
  "code_grant_request env w r cid s =
     (let (s1, exchanged) = exchange_code env (later 6 (tr_clock w)) (hr_form r ''code'') (hr_form r ''redirect_uri'')
            cid (hr_form r ''code_verifier'') (hr_form r ''resource'') s
      in case exchanged of
           Inl e \<Rightarrow> Some (s1, Oauth_Failure 400 ''invalid_grant'')
         | Inr (tok, ttl) \<Rightarrow>
             let res = (if hr_form r ''resource'' = [] then resource_url (effective_issuer (request_origin False r) s1)
                        else hr_form r ''resource'')
             in case issue_refresh env (tr_order w) (tr_ids w) (later 8 (tr_clock w)) (tr_saved w) cid res default_scope s1 of
                  None \<Rightarrow> None
                | Some (s2, Inl e) \<Rightarrow> Some (s2, Oauth_Failure 500 ''server_error'')
                | Some (s2, Inr refresh) \<Rightarrow> Some (s2, token_reply tok ttl refresh))"

definition handle_token :: "oauth_env \<Rightarrow> token_run \<Rightarrow> http_request \<Rightarrow> oauth_server \<Rightarrow>
    (oauth_server \<times> http_response) option" where
  "handle_token env w r s =
     (if hr_method r \<noteq> ''POST'' then Some (s, Plain_Error 405)
      else let grant = hr_form r ''grant_type''; (cid, secret, auth) = client_auth env r in
        if grant \<noteq> ''authorization_code'' \<and> grant \<noteq> ''refresh_token''
        then Some (s, Oauth_Failure 400 ''unsupported_grant_type'')
        else if cid = [] then Some (s, Oauth_Failure 401 ''invalid_client'')
        else let (s1, ok) = token_client env (tr_clock w) cid secret auth s in
          if \<not> ok then Some (s1, Oauth_Failure 401 ''invalid_client'')
          else if grant = ''refresh_token'' then refresh_grant_request env w r cid s1
          else code_grant_request env w r cid s1)"

section \<open>The gateway\<close>

definition bearer_token :: "bytes \<Rightarrow> bytes" where
  "bearer_token header =
     (let h = trim_space header in
      if \<not> has_prefix h ''Bearer '' then [] else trim_space (trim_prefix h ''Bearer ''))"

definition check_bearer :: "bytes \<Rightarrow> bytes \<Rightarrow> bool" where
  "check_bearer header required =
     (if required = [] then True
      else let h = trim_space header in
        if \<not> has_prefix h ''Bearer '' then False else trim_space (trim_prefix h ''Bearer '') = required)"

definition check_bearer_strict :: "bytes \<Rightarrow> bytes \<Rightarrow> bool" where
  "check_bearer_strict header required = (if required = [] then False else check_bearer header required)"

text \<open>\<^verbatim>\<open>config.EffectiveAuthMode\<close>.\<close>

definition effective_auth_mode :: "bytes \<Rightarrow> bytes \<Rightarrow> bytes" where
  "effective_auth_mode mode token =
     (let m = to_lower (trim_space mode) in
      if m = [] then (if trim_space token \<noteq> [] then ''bearer'' else ''open'') else m)"

datatype credentials = No_Credentials | Open_Access | Static_Token | Oauth_Subject bytes bytes

definition validate_oauth :: "oauth_env \<Rightarrow> (nat \<Rightarrow> int) \<Rightarrow> bytes \<Rightarrow> oauth_server option \<Rightarrow> bytes \<Rightarrow> bytes \<Rightarrow>
    oauth_server option \<times> credentials" where
  "validate_oauth env t header server issuer resource =
     (case server of
        None \<Rightarrow> (None, No_Credentials)
      | Some s \<Rightarrow>
          if bearer_token header = [] then (Some s, No_Credentials)
          else (let (s1, r) = validate_access_token env t (bearer_token header) issuer resource s in
                (Some s1, case r of None \<Rightarrow> No_Credentials | Some subject \<Rightarrow> Oauth_Subject issuer subject)))"

definition validate_http :: "oauth_env \<Rightarrow> (nat \<Rightarrow> int) \<Rightarrow> bytes \<Rightarrow> bytes \<Rightarrow> bytes \<Rightarrow> oauth_server option \<Rightarrow> bytes \<Rightarrow> bytes \<Rightarrow>
    oauth_server option \<times> credentials" where
  "validate_http env t header mode0 static server issuer resource =
     (let mode1 = to_lower (trim_space mode0);
          mode = (if mode1 = [] then effective_auth_mode [] static else mode1)
      in if mode = ''open'' then (server, Open_Access)
         else if mode = ''bearer''
         then (server, if static = [] then No_Credentials
                       else if check_bearer header static then Static_Token else No_Credentials)
         else if mode = ''oauth'' then validate_oauth env t header server issuer resource
         else if mode = ''dual''
         then (if static \<noteq> [] \<and> check_bearer header static then (server, Static_Token)
               else validate_oauth env t header server issuer resource)
         else (server, No_Credentials))"

record auth_config =
  af_mode :: bytes
  af_token :: bytes
  af_password :: bytes
  af_server_url :: bytes
  af_token_secret :: bytes
  af_client_id :: bytes
  af_redirects :: "bytes list"
  af_client_secret :: bytes
  af_ttl :: int
  af_trust_proxy :: bool

text \<open>Issuer and resource a request to \<^verbatim>\<open>/mcp\<close> is checked against, and the decision of \<^verbatim>\<open>wrapMCP\<close>.\<close>

definition gateway_audience :: "auth_config \<Rightarrow> http_request \<Rightarrow> oauth_server option \<Rightarrow> bytes \<times> bytes" where
  "gateway_audience cfg r server =
     (let origin = request_origin (af_trust_proxy cfg) r in
      case server of
        Some s \<Rightarrow> (effective_issuer origin s, resource_url (effective_issuer origin s))
      | None \<Rightarrow>
          if af_server_url cfg \<noteq> [] then (trim_slash (af_server_url cfg), trim_slash (af_server_url cfg) @ ''/mcp'')
          else (origin, origin @ ''/mcp''))"

definition gateway_admits :: "oauth_env \<Rightarrow> (nat \<Rightarrow> int) \<Rightarrow> auth_config \<Rightarrow> http_request \<Rightarrow> oauth_server option \<Rightarrow>
    oauth_server option \<times> credentials" where
  "gateway_admits env t cfg r server =
     (let (issuer, resource) = gateway_audience cfg r server in
      validate_http env t (hr_authorization r) (effective_auth_mode (af_mode cfg) (af_token cfg))
        (trim_space (af_token cfg)) server issuer resource)"

text \<open>\<^verbatim>\<open>PrincipalFromCredentials\<close>: identifier, kind and digest.\<close>

definition hashed_principal :: "oauth_env \<Rightarrow> bytes \<Rightarrow> bytes \<Rightarrow> bytes \<times> bytes \<times> bytes" where
  "hashed_principal env kind subject =
     (let digest = en_sha env (trim_space subject) in (kind @ '':'' @ take 24 digest, kind, digest))"

fun principal_of :: "oauth_env \<Rightarrow> credentials \<Rightarrow> bytes \<Rightarrow> bytes \<times> bytes \<times> bytes" where
  "principal_of env (Oauth_Subject issuer subject) header = hashed_principal env ''oauth'' (issuer @ ''|'' @ subject)"
| "principal_of env Static_Token header = hashed_principal env ''bearer'' (bearer_token header)"
| "principal_of env _ header = hashed_principal env ''local'' ''default''"

end
