(* ===== verification/Token_Secret.thy ===== *)
theory Token_Secret
  imports Prelude
begin

text \<open>
  The signing key of access tokens, \<^verbatim>\<open>internal/oauth/token_secret.go\<close>: reading the file in hexadecimal,
  and several servers that start at once, of which one creates the file exclusively. A write may be
  seen half done: \<open>Writing raw n\<close> has put the first \<open>n\<close> bytes into the file. One reading of the file is
  one step; \<open>fails\<close> is the error branch of the creator, which removes the file.
\<close>

section \<open>Hexadecimal text\<close>

definition hex_value :: "char \<Rightarrow> nat option" where
  "hex_value c =
     (let n = (of_char c :: nat) in
      if 48 \<le> n \<and> n \<le> 57 then Some (n - 48)
      else if 97 \<le> n \<and> n \<le> 102 then Some (n - 87)
      else if 65 \<le> n \<and> n \<le> 70 then Some (n - 55) else None)"

fun hex_decode :: "bytes \<Rightarrow> bytes option" where
  "hex_decode [] = Some []"
| "hex_decode [c] = None"
| "hex_decode (a # b # s) =
     (case (hex_value a, hex_value b, hex_decode s) of
        (Some x, Some y, Some r) \<Rightarrow> Some (char_of (16 * x + y) # r)
      | _ \<Rightarrow> None)"

definition hex_lower :: "nat \<Rightarrow> char" where
  "hex_lower d = (if d < 10 then char_of (48 + d) else char_of (87 + d))"

definition hex_pair :: "char \<Rightarrow> bytes" where
  "hex_pair c = [hex_lower (of_char c div 16), hex_lower (of_char c mod 16)]"

definition hex_encode :: "bytes \<Rightarrow> bytes" where
  "hex_encode s = concat (map hex_pair s)"

lemma hex_value_digit: "d < 16 \<Longrightarrow> hex_value (hex_lower d) = Some d"
  by (simp add: hex_value_def hex_lower_def Let_def)

lemma of_char_less_16: "(of_char c :: nat) div 16 < 16"
proof -
  have "(of_char c :: nat) < 16 * 16" using nat_of_char_less_256 [of c] by simp
  then show ?thesis by (rule less_mult_imp_div_less)
qed

lemma hex_decode_pair: "hex_decode (hex_pair c @ s) = map_option (Cons c) (hex_decode s)"
proof -
  have "of_char c div 16 < (16 :: nat)" by (rule of_char_less_16)
  moreover have "of_char c mod 16 < (16 :: nat)" by simp
  moreover have "char_of (16 * (of_char c div 16) + of_char c mod 16 :: nat) = c" by simp
  ultimately show ?thesis by (simp add: hex_pair_def hex_value_digit split: option.splits)
qed

lemma hex_decode_encode: "hex_decode (hex_encode s) = Some s"
  by (induction s) (simp_all add: hex_encode_def hex_decode_pair)

lemma length_hex_encode: "length (hex_encode s) = 2 * length s"
  by (induction s) (simp_all add: hex_encode_def hex_pair_def)

lemma length_hex_decode: "hex_decode s = Some r \<Longrightarrow> length s = 2 * length r"
  by (induction s arbitrary: r rule: hex_decode.induct) (auto split: option.splits)

lemma hex_lower_plain: "d < 16 \<Longrightarrow> hex_lower d \<notin> set (concat space_encodings)"
proof -
  have "list_all (\<lambda>d. hex_lower d \<notin> set (concat space_encodings)) [0..<16]" by code_simp
  then show "d < 16 \<Longrightarrow> ?thesis" by (simp add: list_all_iff)
qed

lemma hex_encode_plain: "set (hex_encode s) \<inter> set (concat space_encodings) = {}"
proof -
  have "hex_lower (of_char c div 16) \<notin> set (concat space_encodings)"
    "hex_lower (of_char c mod 16) \<notin> set (concat space_encodings)" for c :: char
    using of_char_less_16 [of c] by (rule hex_lower_plain) (rule hex_lower_plain, simp)
  then show ?thesis by (induction s) (simp_all add: hex_encode_def hex_pair_def del: concat.simps)
qed

section \<open>The file\<close>

datatype secret_error = S_Too_Large | S_Empty | S_Odd | S_Not_Hex | S_Short

text \<open>\<^verbatim>\<open>readTokenSecret\<close> on the content of an existing file.\<close>

definition token_secret_bytes :: nat where
  "token_secret_bytes = 32"

definition read_token_secret :: "bytes \<Rightarrow> (secret_error, bytes) result" where
  "read_token_secret content =
     (let encoded = take 4097 content; v = trim_space encoded in
      if length encoded > 4096 then Inl S_Too_Large
      else if v = [] then Inl S_Empty
      else if length v mod 2 \<noteq> 0 then Inl S_Odd
      else case hex_decode v of
             None \<Rightarrow> Inl S_Not_Hex
           | Some secret \<Rightarrow> if length secret < token_secret_bytes then Inl S_Short else Inr secret)"

text \<open>What a creator writes.\<close>

definition encoded_secret :: "bytes \<Rightarrow> bytes" where
  "encoded_secret raw = hex_encode raw @ [CHR 0x0A]"

section \<open>Servers starting together\<close>

datatype secret_phase = Starting | Missing bytes | Writing bytes nat | Waiting | Returned bytes | Gave_Up

record secret_state =
  se_file :: "bytes option"
  se_phase :: "nat \<Rightarrow> secret_phase"

text \<open>\<open>secret_step fails\<close>: a step of one process; \<open>fails\<close> marks the creator's failures.\<close>

inductive secret_step :: "bool \<Rightarrow> secret_state \<Rightarrow> secret_state \<Rightarrow> bool" where
  read_found: "se_phase s p = Starting \<Longrightarrow> se_file s = Some c \<Longrightarrow> read_token_secret c = Inr secret \<Longrightarrow>
     secret_step False s (s\<lparr>se_phase := (se_phase s)(p := Returned secret)\<rparr>)"
| read_bad: "se_phase s p = Starting \<Longrightarrow> se_file s = Some c \<Longrightarrow> read_token_secret c = Inl e \<Longrightarrow>
     secret_step False s (s\<lparr>se_phase := (se_phase s)(p := Gave_Up)\<rparr>)"
| read_missing: "se_phase s p = Starting \<Longrightarrow> se_file s = None \<Longrightarrow> length raw = token_secret_bytes \<Longrightarrow>
     secret_step False s (s\<lparr>se_phase := (se_phase s)(p := Missing raw)\<rparr>)"
| create: "se_phase s p = Missing raw \<Longrightarrow> se_file s = None \<Longrightarrow>
     secret_step False s (s\<lparr>se_file := Some [], se_phase := (se_phase s)(p := Writing raw 0)\<rparr>)"
| create_exists: "se_phase s p = Missing raw \<Longrightarrow> se_file s = Some c \<Longrightarrow>
     secret_step False s (s\<lparr>se_phase := (se_phase s)(p := Waiting)\<rparr>)"
| write_more: "se_phase s p = Writing raw n \<Longrightarrow> n < m \<Longrightarrow> m \<le> length (encoded_secret raw) \<Longrightarrow>
     secret_step False s (s\<lparr>se_file := Some (take m (encoded_secret raw)), se_phase := (se_phase s)(p := Writing raw m)\<rparr>)"
| finish: "se_phase s p = Writing raw (length (encoded_secret raw)) \<Longrightarrow>
     secret_step False s (s\<lparr>se_phase := (se_phase s)(p := Returned raw)\<rparr>)"
| wait_found: "se_phase s p = Waiting \<Longrightarrow> se_file s = Some c \<Longrightarrow> read_token_secret c = Inr secret \<Longrightarrow>
     secret_step False s (s\<lparr>se_phase := (se_phase s)(p := Returned secret)\<rparr>)"
| wait_over: "se_phase s p = Waiting \<Longrightarrow>
     secret_step False s (s\<lparr>se_phase := (se_phase s)(p := Gave_Up)\<rparr>)"
| creator_fails: "se_phase s p = Writing raw n \<Longrightarrow>
     secret_step True s (s\<lparr>se_file := None, se_phase := (se_phase s)(p := Gave_Up)\<rparr>)"

text \<open>The states after a run; with \<open>fails = False\<close>, no creator has failed.\<close>

inductive secret_run :: "bool \<Rightarrow> secret_state \<Rightarrow> bool" for fails where
  begin_run: "secret_run fails \<lparr>se_file = file, se_phase = (\<lambda>_. Starting)\<rparr>"
| more_run: "secret_run fails s \<Longrightarrow> secret_step b s s' \<Longrightarrow> b \<longrightarrow> fails \<Longrightarrow> secret_run fails s'"

section \<open>The servers agree\<close>

lemma trim_newline:
  assumes "set s \<inter> set (concat space_encodings) = {}" "s \<noteq> []"
  shows "trim_space (s @ [CHR 0x0A]) = s"
proof -
  obtain c r where s: "s = c # r" using assms(2) by (cases s) auto
  then have "lead_len space_encodings (c # r @ [CHR 0x0A]) = 0" using assms(1) by (intro lead_len_plain) auto
  then have left: "trim_left (s @ [CHR 0x0A]) = s @ [CHR 0x0A]"
    using s by (simp add: trim_left_def trim_lead.simps [of _ "c # r @ [CHR 0x0A]"])
  have "lead_len (map rev space_encodings) (CHR 0x0A # rev s) = 1"
    by (simp add: lead_len_def space_encodings_def has_prefix_def)
  then have "trim_lead (map rev space_encodings) (CHR 0x0A # rev s) = trim_lead (map rev space_encodings) (rev s)"
    by (simp add: trim_lead.simps [of _ "CHR 0x0A # rev s"])
  also have "\<dots> = rev s" using assms(1) by (intro trim_lead_plain) (simp only: set_rev concat_map_rev)
  finally show ?thesis using left by (simp add: trim_space_def trim_right_def)
qed

lemma trim_encoded_secret:
  assumes "length raw = token_secret_bytes" "m \<le> length (encoded_secret raw)"
  shows "trim_space (take m (encoded_secret raw)) = take m (hex_encode raw)"
proof (cases "m \<le> length (hex_encode raw)")
  case True
  then have "take m (encoded_secret raw) = take m (hex_encode raw)" by (simp add: encoded_secret_def)
  moreover have "set (take m (hex_encode raw)) \<inter> set (concat space_encodings) = {}"
    using hex_encode_plain [of raw] set_take_subset [of m "hex_encode raw"] by blast
  ultimately show ?thesis by (simp only: trim_space_plain)
next
  case False
  then have m: "take m (encoded_secret raw) = hex_encode raw @ [CHR 0x0A]" "take m (hex_encode raw) = hex_encode raw"
    using assms by (simp_all add: encoded_secret_def)
  have "trim_space (hex_encode raw @ [CHR 0x0A]) = hex_encode raw"
    using assms(1) by (intro trim_newline hex_encode_plain) (auto simp: hex_encode_def hex_pair_def token_secret_bytes_def)
  then show ?thesis using m by simp
qed


text \<open>Whatever part of the creator's text is read, a secret that comes out is the creator's.\<close>

lemma read_part:
  assumes "length raw = token_secret_bytes" "m \<le> length (encoded_secret raw)"
    "read_token_secret (take m (encoded_secret raw)) = Inr secret"
  shows "secret = raw"
proof -
  have len: "length (hex_encode raw) = 64" "length (encoded_secret raw) = 65"
    using assms(1) by (simp_all add: length_hex_encode encoded_secret_def token_secret_bytes_def)
  then have "take 4097 (take m (encoded_secret raw)) = take m (encoded_secret raw)" using assms(2) by simp
  then have r: "hex_decode (take m (hex_encode raw)) = Some secret" "token_secret_bytes \<le> length secret"
    using assms(3) by (simp_all add: read_token_secret_def Let_def trim_encoded_secret [OF assms(1,2)]
        split: if_splits option.splits)
  then have "64 \<le> length (take m (hex_encode raw))"
    using length_hex_decode [OF r(1)] by (simp add: token_secret_bytes_def)
  then have "take m (hex_encode raw) = hex_encode raw" using len by simp
  then show ?thesis using r(1) by (simp add: hex_decode_encode)
qed

lemma read_encoded_secret:
  assumes "length raw = token_secret_bytes"
  shows "read_token_secret (encoded_secret raw) = Inr raw"
proof -
  have len: "length (hex_encode raw) = 64" "length (encoded_secret raw) = 65"
    using assms by (simp_all add: length_hex_encode encoded_secret_def token_secret_bytes_def)
  have "trim_space (encoded_secret raw) = hex_encode raw"
    using trim_encoded_secret [OF assms, of 65] len by simp
  moreover have "hex_encode raw \<noteq> []" using len by auto
  ultimately show ?thesis using len assms
    by (simp add: read_token_secret_def Let_def hex_decode_encode)
qed

text \<open>The invariant: one secret \<open>s0\<close> is the only one a reader can get from the file, and one process writes.\<close>

fun phase_ok :: "bytes \<Rightarrow> bytes option \<Rightarrow> secret_phase \<Rightarrow> bool" where
  "phase_ok s0 file (Returned x) \<longleftrightarrow> file \<noteq> None \<and> x = s0"
| "phase_ok s0 file (Writing raw n) \<longleftrightarrow> raw = s0 \<and> length raw = token_secret_bytes \<and>
     file = Some (take n (encoded_secret raw)) \<and> n \<le> length (encoded_secret raw)"
| "phase_ok s0 file (Missing raw) \<longleftrightarrow> length raw = token_secret_bytes"
| "phase_ok s0 file _ \<longleftrightarrow> True"

fun is_writing :: "secret_phase \<Rightarrow> bool" where
  "is_writing (Writing raw n) \<longleftrightarrow> True"
| "is_writing _ \<longleftrightarrow> False"

definition one_secret :: "bytes \<Rightarrow> secret_state \<Rightarrow> bool" where
  "one_secret s0 s \<longleftrightarrow>
     (\<forall>c x. se_file s = Some c \<longrightarrow> read_token_secret c = Inr x \<longrightarrow> x = s0) \<and>
     (\<forall>p. phase_ok s0 (se_file s) (se_phase s p)) \<and>
     (\<forall>p q. is_writing (se_phase s p) \<longrightarrow> is_writing (se_phase s q) \<longrightarrow> p = q)"

lemma one_secretD:
  assumes "one_secret s0 s"
  shows "se_file s = Some c \<Longrightarrow> read_token_secret c = Inr x \<Longrightarrow> x = s0"
    and "phase_ok s0 (se_file s) (se_phase s p)"
    and "is_writing (se_phase s p) \<Longrightarrow> is_writing (se_phase s q) \<Longrightarrow> p = q"
  using assms by (auto simp: one_secret_def)

lemma one_secret_phase:
  "one_secret s0 s \<Longrightarrow> phase_ok s0 (se_file s) ph \<Longrightarrow> \<not> is_writing ph \<Longrightarrow>
   one_secret s0 (s\<lparr>se_phase := (se_phase s)(p := ph)\<rparr>)"
  by (simp add: one_secret_def)

lemma one_secret_moves:
  "one_secret s0 s \<Longrightarrow> phase_ok s0 (se_file s) ph \<Longrightarrow> \<not> is_writing ph \<Longrightarrow>
   \<exists>s1. one_secret s1 (s\<lparr>se_phase := (se_phase s)(p := ph)\<rparr>)"
  using one_secret_phase by blast

lemma one_secret_create:
  assumes "one_secret s0 s" "se_file s = None" "length raw = token_secret_bytes"
  shows "one_secret raw (s\<lparr>se_file := Some [], se_phase := (se_phase s)(p := Writing raw 0)\<rparr>)"
proof -
  have "phase_ok raw (Some []) (se_phase s q) \<and> \<not> is_writing (se_phase s q)" for q
    using one_secretD(2) [OF assms(1), of q] assms(2) by (cases "se_phase s q") simp_all
  moreover have "x = raw" if "read_token_secret [] = Inr x" for x using read_part [OF assms(3), of 0 x] that by simp
  ultimately show ?thesis using assms(3) by (simp add: one_secret_def)
qed

lemma one_secret_write:
  assumes "one_secret s0 s" "se_phase s p = Writing raw n" "m \<le> length (encoded_secret raw)"
  shows "one_secret s0 (s\<lparr>se_file := Some (take m (encoded_secret raw)), se_phase := (se_phase s)(p := Writing raw m)\<rparr>)"
proof -
  have "phase_ok s0 (se_file s) (Writing raw n)" using one_secretD(2) [OF assms(1), of p] unfolding assms(2) .
  then have w: "raw = s0" "length raw = token_secret_bytes" unfolding phase_ok.simps by blast+
  have only: "\<not> is_writing (se_phase s q)" if "q \<noteq> p" for q using one_secretD(3) [OF assms(1), of p q] assms(2) that by auto
  have "phase_ok s0 (Some (take m (encoded_secret raw))) (se_phase s q)" if "q \<noteq> p" for q
    using one_secretD(2) [OF assms(1), of q] only [OF that] by (cases "se_phase s q") simp_all
  then show ?thesis using w only assms(3) read_part [OF w(2) assms(3)] by (auto simp: one_secret_def)
qed

lemma secret_step_agrees:
  assumes "secret_step b s s'" "\<not> b" "one_secret s0 s"
  shows "\<exists>s1. one_secret s1 s'"
  using assms(1)
proof (cases rule: secret_step.cases)
  case (create p raw)
  then have "length raw = token_secret_bytes" using one_secretD(2) [OF assms(3), of p] by simp
  then show ?thesis using one_secret_create [OF assms(3)] create by blast
next
  case (write_more p raw n m)
  then show ?thesis using one_secret_write [OF assms(3)] by blast
next
  case (finish p raw)
  then have "phase_ok s0 (se_file s) (Returned raw)" using one_secretD(2) [OF assms(3), of p] by simp
  then have "one_secret s0 s'" using finish(2) one_secret_phase [OF assms(3), of _ p] by simp
  then show ?thesis by blast
next
  case (read_found p c secret)
  then have "phase_ok s0 (se_file s) (Returned secret)" using one_secretD(1) [OF assms(3)] by auto
  then have "one_secret s0 s'" using read_found(2) one_secret_phase [OF assms(3), of _ p] by simp
  then show ?thesis by blast
next
  case (wait_found p c secret)
  then have "phase_ok s0 (se_file s) (Returned secret)" using one_secretD(1) [OF assms(3)] by auto
  then have "one_secret s0 s'" using wait_found(2) one_secret_phase [OF assms(3), of _ p] by simp
  then show ?thesis by blast
next
  case (creator_fails p raw n)
  then show ?thesis using assms(2) by simp
qed (use one_secret_moves [OF assms(3)] in simp_all)

lemma secret_run_one: "secret_run False s \<Longrightarrow> \<exists>s0. one_secret s0 s"
proof (induction rule: secret_run.induct)
  case (begin_run content)
  have "\<exists>s0. \<forall>c x. content = Some c \<longrightarrow> read_token_secret c = Inr x \<longrightarrow> x = s0"
  proof (cases content)
    case (Some c)
    then show ?thesis by (cases "read_token_secret c") auto
  qed simp
  then show ?case by (simp add: one_secret_def)
next
  case (more_run s b s')
  then show ?case using secret_step_agrees by blast
qed

definition two_starts :: "bytes \<Rightarrow> secret_state" where
  "two_starts raw = \<lparr>se_file = Some (encoded_secret raw), se_phase = (\<lambda>_. Starting)(0 := Returned raw, 1 := Waiting)\<rparr>"

lemma two_starts_run: "length raw = token_secret_bytes \<Longrightarrow> secret_run False (two_starts raw)"
proof -
  assume len: "length raw = token_secret_bytes"
  let ?s0 = "\<lparr>se_file = None, se_phase = (\<lambda>_. Starting)\<rparr> :: secret_state"
  let ?s1 = "?s0\<lparr>se_phase := (se_phase ?s0)(0 := Missing raw)\<rparr>"
  let ?s2 = "?s1\<lparr>se_phase := (se_phase ?s1)(1 := Missing raw)\<rparr>"
  let ?s3 = "?s2\<lparr>se_file := Some [], se_phase := (se_phase ?s2)(0 := Writing raw 0)\<rparr>"
  let ?s4 = "?s3\<lparr>se_phase := (se_phase ?s3)(1 := Waiting)\<rparr>"
  let ?n = "length (encoded_secret raw)"
  let ?s5 = "?s4\<lparr>se_file := Some (take ?n (encoded_secret raw)), se_phase := (se_phase ?s4)(0 := Writing raw ?n)\<rparr>"
  let ?s6 = "?s5\<lparr>se_phase := (se_phase ?s5)(0 := Returned raw)\<rparr>"
  have "secret_run False ?s0" by (rule begin_run)
  then have "secret_run False ?s1" by (rule more_run [OF _ read_missing]) (simp_all add: len)
  then have "secret_run False ?s2" by (rule more_run [OF _ read_missing]) (simp_all add: len)
  then have "secret_run False ?s3" by (rule more_run [OF _ create]) simp_all
  then have "secret_run False ?s4" by (rule more_run [OF _ create_exists]) simp_all
  then have "secret_run False ?s5" by (rule more_run [OF _ write_more [where n = 0]]) (simp_all add: encoded_secret_def)
  then have "secret_run False ?s6" by (rule more_run [OF _ finish]) simp_all
  moreover have "?s6 = two_starts raw" by (simp add: two_starts_def fun_upd_twist)
  ultimately show ?thesis by simp
qed

text \<open>However the starts interleave, and whatever part of the file they see, all servers that get a signing
  secret get the same one, as long as no creator fails after creating the file.\<close>

theorem starts_share_the_secret:
  assumes "secret_run False s" "se_phase s p = Returned a" "se_phase s q = Returned b"
  shows "a = b"
  using secret_run_one [OF assms(1)] one_secretD(2) assms(2,3) by (metis phase_ok.simps(1))

lemma starts_share_the_secret_witness:
  "\<exists>s b. secret_run False s \<and> se_phase s 0 = Returned (replicate 32 (CHR ''k'')) \<and>
     se_phase s 1 = Returned b \<and> b = replicate 32 (CHR ''k'')"
proof -
  let ?raw = "replicate 32 (CHR ''k'')"
  have len: "length ?raw = token_secret_bytes" by (simp add: token_secret_bytes_def)
  obtain b where b: "read_token_secret (encoded_secret ?raw) = Inr b" using read_encoded_secret [OF len] by blast
  let ?s = "(two_starts ?raw)\<lparr>se_phase := (se_phase (two_starts ?raw))(1 := Returned b)\<rparr>"
  have "secret_step False (two_starts ?raw) ?s"
    by (rule wait_found [OF _ _ b]) (simp_all add: two_starts_def)
  then have run: "secret_run False ?s" by (rule more_run [OF two_starts_run [OF len]]) simp
  have phases: "se_phase ?s 0 = Returned ?raw" "se_phase ?s 1 = Returned b" by (simp_all add: two_starts_def)
  then have "b = ?raw" using starts_share_the_secret [OF run phases(2,1)] by simp
  then show ?thesis using run phases by blast
qed

text \<open>
  A start that looks at the file between its creation and the first write gives up, although nothing has
  failed and the other server returns a secret: \<^verbatim>\<open>waitForTokenSecret\<close> is only reached by a start that
  has seen no file before.
\<close>

lemma early_reader_gives_up:
  assumes "length raw = token_secret_bytes"
  shows "\<exists>s. secret_run False s \<and> se_phase s 0 = Writing raw 0 \<and> se_phase s 1 = Gave_Up"
proof -
  let ?s0 = "\<lparr>se_file = None, se_phase = (\<lambda>_. Starting)\<rparr> :: secret_state"
  let ?s1 = "?s0\<lparr>se_phase := (se_phase ?s0)(0 := Missing raw)\<rparr>"
  let ?s2 = "?s1\<lparr>se_file := Some [], se_phase := (se_phase ?s1)(0 := Writing raw 0)\<rparr>"
  let ?s3 = "?s2\<lparr>se_phase := (se_phase ?s2)(1 := Gave_Up)\<rparr>"
  have "read_token_secret [] = Inl S_Empty" by (simp add: read_token_secret_def)
  then have bad: "secret_step False ?s2 ?s3" by (intro read_bad) simp_all
  have "secret_run False ?s0" by (rule begin_run)
  then have "secret_run False ?s1" by (rule more_run [OF _ read_missing]) (simp_all add: assms)
  then have "secret_run False ?s2" by (rule more_run [OF _ create]) simp_all
  then have "secret_run False ?s3" using bad by (rule more_run) simp
  then show ?thesis by (intro exI [of _ ?s3]) simp
qed

end
