(* ===== verification/Oauth_System.thy ===== *)
theory Oauth_System
  imports Oauth_Handlers Token_Secret
begin

text \<open>
  Starting the server (\<^verbatim>\<open>buildOAuthServer\<close> of \<^verbatim>\<open>internal/server/runtime.go\<close>), and the runs of the whole
  authorization server: a start from what the disk holds, then requests in any order, restarts among
  them. Two files survive a restart, the clients and the refresh grants.
\<close>

section \<open>Building the server\<close>

text \<open>\<^verbatim>\<open>config.OAuthTokenTTL\<close>.\<close>

definition oauth_token_ttl :: "int \<Rightarrow> int" where
  "oauth_token_ttl ttl0 =
     (let ttl1 = (if ttl0 \<le> 0 then 86400 else ttl0); ttl2 = (if ttl1 < 60 then 60 else ttl1) in
      if ttl2 > 604800 then 604800 else ttl2)"

text \<open>What the world contributes to a start: a drawn password, the secret file, the files' fate, the clock.\<close>

record startup =
  su_password :: bytes
  su_secret :: "bytes option"
  su_readable :: bool
  su_clients_saved :: bool
  su_grants_saved :: save_outcome
  su_clock :: "nat \<Rightarrow> int"

definition configured_secret :: "startup \<Rightarrow> auth_config \<Rightarrow> (oauth_error, bytes) result" where
  "configured_secret w cfg =
     (let hex = trim_space (af_token_secret cfg) in
      if hex \<noteq> []
      then (case hex_decode hex of
              None \<Rightarrow> Inl E_Token_Secret
            | Some b \<Rightarrow> if length b < token_secret_bytes then Inl E_Token_Secret else Inr b)
      else (case su_secret w of None \<Rightarrow> Inl E_Token_Secret | Some b \<Rightarrow> Inr b))"

definition start_client :: "oauth_env \<Rightarrow> startup \<Rightarrow> auth_config \<Rightarrow> registry \<Rightarrow> registry \<times> (oauth_error, unit) result" where
  "start_client env w cfg reg =
     (let cid = trim_space (af_client_id cfg);
          uris = (if af_redirects cfg = [] then [''http://127.0.0.1/callback''] else af_redirects cfg)
      in if cid = [] then (reg, Inr ())
         else add_preregistered env (su_clients_saved w) (su_clock w 1) cid uris (af_client_secret cfg) reg)"

text \<open>The two files, and the result: no server, a server, or an error.\<close>

record oauth_disk =
  od_clients :: "oauth_client list option"
  od_grants :: "refresh_file option"

definition disk_of :: "oauth_server \<Rightarrow> oauth_disk" where
  "disk_of s = \<lparr>od_clients = re_disk (os_registry s), od_grants = os_disk s\<rparr>"

definition wants_oauth :: "auth_config \<Rightarrow> bool" where
  "wants_oauth cfg \<longleftrightarrow>
     effective_auth_mode (af_mode cfg) (af_token cfg) \<in> {''oauth'', ''dual''} \<or>
     af_password cfg \<noteq> [] \<or> af_server_url cfg \<noteq> []"

definition build_oauth_server :: "oauth_env \<Rightarrow> startup \<Rightarrow> auth_config \<Rightarrow> oauth_disk \<Rightarrow>
    oauth_disk \<times> (oauth_error, oauth_server option) result" where
  "build_oauth_server env w cfg d =
     (if \<not> wants_oauth cfg then (d, Inr None)
      else let password = trim_space (af_password cfg) in
        case configured_secret w cfg of
          Inl e \<Rightarrow> (d, Inl e)
        | Inr secret \<Rightarrow>
            let s0 = new_server (if password = [] then su_password w else password) (trim_space (af_server_url cfg)) secret
                       (oauth_token_ttl (af_ttl cfg)) (od_clients d) (od_grants d)
            in case set_persist_path ''oauth-clients.json'' (su_readable w) (os_registry s0) of
                 Inl e \<Rightarrow> (d, Inl e)
               | Inr reg \<Rightarrow>
                   let (s1, loaded) = set_refresh_persist_path env ''oauth-refresh-grants.json'' (su_readable w)
                         (su_clock w 0) (su_grants_saved w) (s0\<lparr>os_registry := reg\<rparr>)
                   in case loaded of
                        Inl e \<Rightarrow> (disk_of s1, Inl e)
                      | Inr u \<Rightarrow>
                          let (reg2, added) = start_client env w cfg (os_registry s1);
                              s2 = s1\<lparr>os_registry := reg2\<rparr>
                          in (disk_of s2, case added of Inl e \<Rightarrow> Inl e | Inr u \<Rightarrow> Inr (Some s2)))"

section \<open>Requests\<close>

datatype oauth_call =
    Register_Client bool "nat \<Rightarrow> bytes" int http_request
  | Authorize "nat \<Rightarrow> int" bytes http_request
  | Get_Token token_run http_request
  | Check_Access "nat \<Rightarrow> int" auth_config http_request

text \<open>
  The state after a call. A call that does not return (a draw that never ends) keeps the lock and is
  as if it had not been made.
\<close>

definition or_stay :: "oauth_server \<Rightarrow> (oauth_server \<times> 'a) option \<Rightarrow> oauth_server" where
  "or_stay s r = (case r of None \<Rightarrow> s | Some (s1, _) \<Rightarrow> s1)"

fun oauth_step :: "oauth_env \<Rightarrow> oauth_call \<Rightarrow> oauth_server \<Rightarrow> oauth_server" where
  "oauth_step env (Register_Client saved ids now r) s = or_stay s (handle_register env saved ids now r s)"
| "oauth_step env (Authorize t new_code r) s = fst (handle_authorize env t new_code r s)"
| "oauth_step env (Get_Token w r) s = or_stay s (handle_token env w r s)"
| "oauth_step env (Check_Access t cfg r) s =
     (case gateway_admits env t cfg r (Some s) of (Some s1, _) \<Rightarrow> s1 | (None, _) \<Rightarrow> s)"

text \<open>
  A run is a list of events: starts with a configuration and calls. Between the runs of the program
  only the disk is left.
\<close>

datatype oauth_event = Start startup auth_config | Call oauth_call

type_synonym oauth_world = "oauth_disk \<times> oauth_server option"

definition empty_disk :: oauth_disk where
  "empty_disk = \<lparr>od_clients = None, od_grants = None\<rparr>"

fun run_event :: "oauth_env \<Rightarrow> oauth_world \<Rightarrow> oauth_event \<Rightarrow> oauth_world" where
  "run_event env (d, so) (Start w cfg) =
     (let (d1, r) = build_oauth_server env w cfg d in (d1, case r of Inr (Some s) \<Rightarrow> Some s | _ \<Rightarrow> None))"
| "run_event env (d, so) (Call c) =
     (case so of None \<Rightarrow> (d, None) | Some s \<Rightarrow> (disk_of (oauth_step env c s), Some (oauth_step env c s)))"

definition oauth_run :: "oauth_env \<Rightarrow> oauth_event list \<Rightarrow> oauth_world" where
  "oauth_run env es = foldl (run_event env) (empty_disk, None) es"

text \<open>The iteration order of a map is some order of it.\<close>

fun event_ok :: "oauth_event \<Rightarrow> bool" where
  "event_ok (Call (Get_Token w r)) \<longleftrightarrow> (\<forall>m. set (tr_order w m) = set m)"
| "event_ok _ \<longleftrightarrow> True"

text \<open>What is relied on of the libraries: a digest has 64 hexadecimal digits, and JSON keeps valid text.\<close>

definition digest_law :: "oauth_env \<Rightarrow> bool" where
  "digest_law env \<longleftrightarrow> (\<forall>x. valid_token_hash (en_sha env x))"

definition text_law :: "oauth_env \<Rightarrow> bool" where
  "text_law env \<longleftrightarrow> (\<forall>x. en_json_text env (en_json_text env x) = en_json_text env x)"

section \<open>Induction over runs\<close>

lemma oauth_run_Nil [simp]: "oauth_run env [] = (empty_disk, None)"
  by (simp add: oauth_run_def)

lemma oauth_run_snoc [simp]: "oauth_run env (es @ [e]) = run_event env (oauth_run env es) e"
  by (simp add: oauth_run_def)

lemma oauth_run_disk: "snd (oauth_run env es) = Some s \<Longrightarrow> fst (oauth_run env es) = disk_of s"
proof (induction es arbitrary: s rule: rev_induct)
  case (snoc e es)
  obtain d so where w: "oauth_run env es = (d, so)" by fastforce
  show ?case
  proof (cases e)
    case (Start w cfg)
    then show ?thesis using snoc.prems w
      by (auto simp: build_oauth_server_def Let_def split: if_splits sum.splits prod.splits option.splits)
  next
    case (Call c)
    then show ?thesis using snoc.prems w by (auto split: option.splits)
  qed
qed simp

text \<open>
  An invariant of runs: a disk predicate \<open>D\<close> and a server predicate \<open>S\<close>, both of the events so far.
\<close>

lemma oauth_run_invariant:
  assumes "D [] empty_disk"
    and "\<And>es w cfg d d' r. D es d \<Longrightarrow> build_oauth_server env w cfg d = (d', r) \<Longrightarrow>
      D (es @ [Start w cfg]) d' \<and> (\<forall>s. r = Inr (Some s) \<longrightarrow> S (es @ [Start w cfg]) s)"
    and "\<And>es c s. snd (oauth_run env es) = Some s \<Longrightarrow> S es s \<Longrightarrow> D es (disk_of s) \<Longrightarrow> event_ok (Call c) \<Longrightarrow>
      S (es @ [Call c]) (oauth_step env c s) \<and> D (es @ [Call c]) (disk_of (oauth_step env c s))"
    and "\<And>es d c. D es d \<Longrightarrow> D (es @ [Call c]) d"
    and "list_all event_ok es"
  shows "D es (fst (oauth_run env es)) \<and> (\<forall>s. snd (oauth_run env es) = Some s \<longrightarrow> S es s)"
  using assms(5)
proof (induction es rule: rev_induct)
  case Nil
  then show ?case using assms(1) by simp
next
  case (snoc e es)
  obtain d so where w: "oauth_run env es = (d, so)" by fastforce
  have IH: "D es d" "\<forall>s. so = Some s \<longrightarrow> S es s" using snoc w by auto
  show ?case
  proof (cases e)
    case (Start w cfg)
    obtain d' r where b: "build_oauth_server env w cfg d = (d', r)" by fastforce
    show ?thesis using assms(2) [OF IH(1) b] Start b w by (auto split: sum.splits option.splits)
  next
    case (Call c)
    show ?thesis
    proof (cases so)
      case None
      then show ?thesis using Call w assms(4) [OF IH(1)] by simp
    next
      case (Some s)
      have "d = disk_of s" using oauth_run_disk [of env es s] w Some by simp
      then show ?thesis using assms(3) [of es s c] IH Some Call w snoc.prems by simp
    qed
  qed
qed

end
