(* ===== verification/Oauth_Invariant.thy ===== *)
theory Oauth_Invariant
  imports Oauth_System
begin

text \<open>
  What holds in every state of a run, whatever is requested: the shape of the clients the server
  knows (in the registry, in the cache, on disk) and the bounds of its tables. Each operation is first
  described by what it leaves alone.
\<close>

section \<open>Association lists\<close>

lemma set_update_subset: "set (AList.update k v m) \<subseteq> insert (k, v) (set m)"
  by (induction m) auto

lemma length_update: "length (AList.update k v m) \<le> Suc (length m)"
  by (induction m) auto

lemma set_delete: "set (AList.delete k m) = {e \<in> set m. fst e \<noteq> k}"
  by (auto simp: AList.delete_eq)

lemma length_delete: "length (AList.delete k m) \<le> length m"
  by (simp add: AList.delete_eq)

lemma length_delete_less: "k \<in> fst ` set m \<Longrightarrow> length (AList.delete k m) < length m"
  by (auto simp: AList.delete_eq intro!: length_filter_less)

lemma keys_update: "fst ` set (AList.update k v m) = insert k (fst ` set m)"
  by (induction m) auto

lemma list_all_update: "list_all P m \<Longrightarrow> P (k, v) \<Longrightarrow> list_all P (AList.update k v m)"
  using set_update_subset [of k v m] by (auto simp: list_all_iff)

lemma list_all_filter: "list_all P m \<Longrightarrow> list_all P (filter Q m)"
  by (simp add: list_all_iff)

lemma list_all_delete: "list_all P m \<Longrightarrow> list_all P (AList.delete k m)"
  by (simp add: AList.delete_eq list_all_iff)

lemmas alist_facts = list_all_update list_all_filter list_all_delete AList.distinct_update distinct_map_filter

section \<open>Clients\<close>

definition client_ok :: "oauth_env \<Rightarrow> oauth_client \<Rightarrow> bool" where
  "client_ok env c \<longleftrightarrow> redirects_ok env (oc_redirects c) \<and> oc_method c \<in> set client_methods \<and>
     (oc_digest c = [] \<longleftrightarrow> oc_method c = ''none'')"

definition clients_ok :: "oauth_env \<Rightarrow> (bytes \<times> oauth_client) list \<Rightarrow> bool" where
  "clients_ok env m \<longleftrightarrow> distinct (map fst m) \<and> list_all (\<lambda>e. oc_id (snd e) = fst e \<and> client_ok env (snd e)) m"

definition clients_disk_ok :: "oauth_env \<Rightarrow> oauth_client list option \<Rightarrow> bool" where
  "clients_disk_ok env d \<longleftrightarrow> (case d of None \<Rightarrow> True | Some cs \<Rightarrow> list_all (client_ok env) cs)"

definition registry_ok :: "oauth_env \<Rightarrow> registry \<Rightarrow> bool" where
  "registry_ok env r \<longleftrightarrow> clients_ok env (re_clients r) \<and> clients_disk_ok env (re_disk r)"

definition cache_ok :: "oauth_env \<Rightarrow> cimd_cache \<Rightarrow> bool" where
  "cache_ok env m \<longleftrightarrow> list_all (\<lambda>e. oc_id (ce_client (snd e)) = fst e \<and> client_ok env (ce_client (snd e))) m"

lemma map_of_all: "list_all P m \<Longrightarrow> map_of m k = Some v \<Longrightarrow> P (k, v)"
  by (auto simp: list_all_iff dest: map_of_SomeD)

lemma digest_nonempty: "digest_law env \<Longrightarrow> en_sha env x \<noteq> []"
  by (metis digest_law_def list.size(3) valid_token_hash_def zero_neq_numeral)

lemma clients_ok_update:
  "clients_ok env m \<Longrightarrow> oc_id c = i \<Longrightarrow> client_ok env c \<Longrightarrow> clients_ok env (AList.update i c m)"
  by (simp add: clients_ok_def alist_facts)

lemma clients_ok_delete: "clients_ok env m \<Longrightarrow> clients_ok env (AList.delete i m)"
  by (simp add: clients_ok_def alist_facts AList.delete_eq)

lemma save_registry_ok:
  assumes "registry_ok env r"
  shows "registry_ok env (fst (save_registry env saved r))"
    and "re_clients (fst (save_registry env saved r)) = re_clients r"
  using assms
  by (auto simp: save_registry_def registry_ok_def clients_ok_def clients_disk_ok_def list_all_iff stored_client_def
      client_ok_def)

lemma load_clients_ok: "list_all (client_ok env) cs \<Longrightarrow> clients_ok env (load_clients cs)"
  unfolding load_clients_def
  by (rule foldl_invariant) (auto simp: clients_ok_update list_all_iff clients_ok_def [of _ "[]"])

lemma set_persist_path_ok:
  assumes "registry_ok env r" "set_persist_path path readable r = Inr r'"
  shows "registry_ok env r'"
  using assms load_clients_ok
  by (auto simp: set_persist_path_def load_registry_def registry_ok_def clients_disk_ok_def
      split: if_splits option.splits)

lemma add_preregistered_ok:
  assumes "digest_law env" "registry_ok env r"
  shows "registry_ok env (fst (add_preregistered env saved now cid uris secret r))"
proof (cases "validate_redirect_uris env uris")
  case (Inr us)
  then have us: "redirects_ok env us" by (simp add: validate_redirect_uris_ok)
  define c where "c = \<lparr>oc_id = cid, oc_redirects = us,
                   oc_method = (if secret \<noteq> [] then ''client_secret_post'' else ''none''), oc_name = [],
                   oc_digest = (if secret \<noteq> [] then en_sha env secret else []), oc_issued = unix_seconds now\<rparr>"
  have "client_ok env c" "oc_id c = cid"
    using us digest_nonempty [OF assms(1)] by (simp_all add: client_ok_def client_methods_def c_def)
  then have "registry_ok env (r\<lparr>re_clients := AList.update cid c (re_clients r)\<rparr>)"
    using assms(2) by (simp add: registry_ok_def clients_ok_update)
  moreover have "fst (add_preregistered env saved now cid uris secret r) =
      fst (save_registry env saved (r\<lparr>re_clients := AList.update cid c (re_clients r)\<rparr>))"
    using Inr by (simp add: add_preregistered_def Let_def case_prod_beta c_def)
  ultimately show ?thesis by (simp add: save_registry_ok)
qed (simp add: add_preregistered_def assms)

lemma register_client_ok:
  assumes "digest_law env" "registry_ok env r" "register_client env saved ids now meta r = Some (r', res)"
  shows "registry_ok env r'"
proof (cases "and_then (metadata_uris meta) (validate_redirect_uris env)")
  case (Inl e)
  then show ?thesis using assms by (simp add: register_client_def)
next
  case (Inr uris)
  then have uris: "redirects_ok env uris" by (auto simp: validate_redirect_uris_ok)
  let ?auth = "metadata_method meta"
  show ?thesis
  proof (cases "?auth \<notin> set client_methods \<or> length (re_clients r) \<ge> max_registered_clients")
    case True
    then show ?thesis using assms Inr by (auto simp: register_client_def Let_def split: if_splits)
  next
    case False
    then obtain i k where draw: "draw_unused (\<lambda>i. i) (map fst (re_clients r)) ids 0 = Some (i, k)"
      using assms(3) Inr by (auto simp: register_client_def Let_def split: option.splits if_splits)
    define c where "c = \<lparr>oc_id = i, oc_redirects = uris, oc_method = ?auth,
      oc_name = take 200 (trim_space (metadata_text ''client_name'' meta)),
      oc_digest = (if ?auth \<noteq> ''none'' then en_sha env (if ?auth \<noteq> ''none'' then ids k else []) else []),
      oc_issued = unix_seconds now\<rparr>"
    have "client_ok env c" using uris False digest_nonempty [OF assms(1)] by (simp add: client_ok_def c_def)
    moreover have "oc_id c = i" by (simp add: c_def)
    ultimately have ok: "registry_ok env (r\<lparr>re_clients := AList.update i c (re_clients r)\<rparr>)"
      using assms(2) by (simp add: registry_ok_def clients_ok_update)
    let ?s = "save_registry env saved (r\<lparr>re_clients := AList.update i c (re_clients r)\<rparr>)"
    have "r' = (if snd ?s then fst ?s else (fst ?s)\<lparr>re_clients := AList.delete i (re_clients (fst ?s))\<rparr>)"
      using assms(3) Inr False draw
      by (auto simp: register_client_def Let_def c_def case_prod_beta not_le split: if_splits)
    then show ?thesis using save_registry_ok [OF ok] by (simp add: registry_ok_def clients_ok_delete)
  qed
qed

lemma client_from_cimd_ok:
  "client_from_cimd env now cid doc = Inr c \<Longrightarrow> oc_id c = cid \<and> client_ok env c"
  by (auto simp: client_from_cimd_def Let_def client_ok_def client_methods_def validate_redirect_uris_ok
      split: if_splits sum.splits)

lemma resolve_cimd_ok:
  assumes "cache_ok env m"
  shows "cache_ok env (fst (resolve_cimd env t cid m))"
    and "snd (resolve_cimd env t cid m) = Inr c \<Longrightarrow> oc_id c = cid \<and> client_ok env c"
proof -
  have fetch: "cache_ok env (fst (fetch_cimd env t cid m)) \<and>
      (snd (fetch_cimd env t cid m) = Inr c \<longrightarrow> oc_id c = cid \<and> client_ok env c)" for c
    using assms client_from_cimd_ok
    by (auto simp: fetch_cimd_def cache_ok_def list_all_update split: option.splits sum.splits)
  show "cache_ok env (fst (resolve_cimd env t cid m))"
    using assms fetch by (simp add: resolve_cimd_def split: option.splits)
  show "oc_id c = cid \<and> client_ok env c" if "snd (resolve_cimd env t cid m) = Inr c"
    using that fetch [of c] map_of_all [OF assms [unfolded cache_ok_def], of cid]
    by (auto simp: resolve_cimd_def split: if_splits option.splits)
qed


section \<open>What an operation leaves alone\<close>

text \<open>The server but for its cache of metadata documents, which stays well-formed.\<close>

definition only_cache :: "oauth_env \<Rightarrow> oauth_server \<Rightarrow> oauth_server \<Rightarrow> bool" where
  "only_cache env s s' \<longleftrightarrow> s' = s\<lparr>os_cimd := os_cimd s'\<rparr> \<and> (cache_ok env (os_cimd s) \<longrightarrow> cache_ok env (os_cimd s'))"

lemma only_cache_refl [simp]: "only_cache env s s"
  by (simp add: only_cache_def)

lemma only_cache_trans: "only_cache env a b \<Longrightarrow> only_cache env b c \<Longrightarrow> only_cache env a c"
  by (cases a; cases b; cases c) (auto simp: only_cache_def)

lemma only_cache_fields:
  assumes "only_cache env s s'"
  shows "os_password s' = os_password s" "os_url s' = os_url s" "os_secret s' = os_secret s" "os_ttl s' = os_ttl s"
    "os_registry s' = os_registry s" "os_codes s' = os_codes s" "os_refresh s' = os_refresh s"
    "os_persist s' = os_persist s" "os_disk s' = os_disk s"
  using assms by (cases s; cases s'; simp add: only_cache_def)+

lemma only_cache_update: "(cache_ok env (os_cimd s) \<longrightarrow> cache_ok env c) \<Longrightarrow> only_cache env s (s\<lparr>os_cimd := c\<rparr>)"
  by (simp add: only_cache_def)

lemma resolve_client_cache: "only_cache env s (fst (resolve_client env t cid s))"
  by (auto simp: resolve_client_def case_prod_beta Let_def resolve_cimd_ok intro!: only_cache_update split: option.splits)

lemma accepts_client_redirect_cache: "only_cache env s (fst (accepts_client_redirect env t cid uri s))"
  by (auto simp: accepts_client_redirect_def case_prod_beta Let_def resolve_cimd_ok intro!: only_cache_update)

lemma authenticates_client_cache: "only_cache env s (fst (authenticates_client env t cid secret auth s))"
  by (auto simp: authenticates_client_def case_prod_beta Let_def resolve_cimd_ok intro!: only_cache_update)

lemma validate_authorize_params_cache:
  "only_cache env s (fst (validate_authorize_params env t cid uri challenge auth s))"
  using accepts_client_redirect_cache by (simp add: validate_authorize_params_def case_prod_beta Let_def)

lemma token_client_cache: "only_cache env s (fst (token_client env t cid secret auth s))"
  using only_cache_trans [OF authenticates_client_cache resolve_client_cache]
    only_cache_trans [OF only_cache_trans [OF authenticates_client_cache resolve_client_cache] authenticates_client_cache]
  by (simp add: token_client_def case_prod_beta Let_def authenticates_client_cache split: sum.splits)

lemma validate_access_token_cache: "only_cache env s (fst (validate_access_token env t token issuer audience s))"
  using resolve_client_cache by (simp add: validate_access_token_def case_prod_beta Let_def split: option.splits)

lemma validate_oauth_cache:
  "fst (validate_oauth env t header (Some s) issuer resource) = Some s' \<Longrightarrow> only_cache env s s'"
  using validate_access_token_cache by (auto simp: validate_oauth_def case_prod_beta Let_def split: if_splits)

lemma gateway_admits_cache: "fst (gateway_admits env t cfg r (Some s)) = Some s' \<Longrightarrow> only_cache env s s'"
  using validate_oauth_cache
  by (auto simp: gateway_admits_def validate_http_def case_prod_beta Let_def split: if_splits)

lemma authorize_get_cache: "only_cache env s (fst (authorize_get env t r s))"
  by (auto simp: authorize_get_def case_prod_beta Let_def split: sum.splits
      intro: only_cache_trans validate_authorize_params_cache resolve_client_cache)

lemma resolve_client_known:
  assumes "registry_ok env (os_registry s)" "cache_ok env (os_cimd s)" "snd (resolve_client env t cid s) = Inr c"
  shows "oc_id c = cid \<and> client_ok env c"
proof (cases "get_client cid (os_registry s)")
  case None
  then show ?thesis using assms(3) resolve_cimd_ok(2) [OF assms(2)]
    by (auto simp: resolve_client_def case_prod_beta Let_def split: if_splits)
next
  case (Some d)
  then show ?thesis
    using assms(1,3) map_of_all [of "\<lambda>e. oc_id (snd e) = fst e \<and> client_ok env (snd e)" _ cid d]
    by (auto simp: resolve_client_def get_client_def registry_ok_def clients_ok_def)
qed

section \<open>Pending codes\<close>

definition codes_ok :: "(bytes \<times> auth_code) list \<Rightarrow> bool" where
  "codes_ok m \<longleftrightarrow> distinct (map fst m) \<and> length m \<le> max_pending_codes \<and>
     list_all (\<lambda>e. valid_challenge (co_challenge (snd e))) m"

text \<open>What \<open>issue_code\<close> does: nothing, it drops old codes, or it also registers one.\<close>

lemma issue_code_cases:
  obtains (Refused) s1 e where "issue_code env t new_code cid uri challenge auth resource scope s = (s1, Inl e)"
      "only_cache env s s1"
  | (Full) s1 e where "issue_code env t new_code cid uri challenge auth resource scope s = (prune_codes (t 2) s1, Inl e)"
      "only_cache env s s1"
  | (Issued) s1 ac where "issue_code env t new_code cid uri challenge auth resource scope s =
        ((prune_codes (t 2) s1)\<lparr>os_codes := AList.update new_code ac (os_codes (prune_codes (t 2) s1))\<rparr>, Inr new_code)"
      "only_cache env s s1" "snd (accepts_client_redirect env t cid uri s)"
      "valid_challenge challenge" "length (os_codes (prune_codes (t 2) s1)) < max_pending_codes"
      "ac = \<lparr>co_client = cid, co_redirect = uri, co_challenge = challenge, co_resource = resource,
         co_scope = (if scope = [] then default_scope else scope), co_expires = t 3 + code_ttl\<rparr>"
proof -
  define s1 where "s1 = fst (accepts_client_redirect env t cid uri s)"
  have s1: "only_cache env s s1" using accepts_client_redirect_cache by (simp add: s1_def)
  note issue = issue_code_def [of env t new_code cid uri challenge auth resource scope s, unfolded Let_def case_prod_beta,
      folded s1_def]
  consider "auth \<noteq> [] \<and> auth \<noteq> ''S256'' \<or> \<not> valid_challenge challenge"
    | "\<not> (auth \<noteq> [] \<and> auth \<noteq> ''S256'')" "valid_challenge challenge" "\<not> snd (accepts_client_redirect env t cid uri s)"
    | "\<not> (auth \<noteq> [] \<and> auth \<noteq> ''S256'')" "valid_challenge challenge" "snd (accepts_client_redirect env t cid uri s)"
      "length (os_codes (prune_codes (t 2) s1)) \<ge> max_pending_codes"
    | "\<not> (auth \<noteq> [] \<and> auth \<noteq> ''S256'')" "valid_challenge challenge" "snd (accepts_client_redirect env t cid uri s)"
      "length (os_codes (prune_codes (t 2) s1)) < max_pending_codes"
    by linarith
  then show ?thesis
  proof cases
    case 1
    then show ?thesis
      by (intro Refused [of s "if auth \<noteq> [] \<and> auth \<noteq> ''S256'' then E_Pkce_Method else E_Challenge"]) (auto simp: issue)
  next
    case 2
    then show ?thesis by (intro Refused [OF _ s1, of E_Redirect_Refused]) (simp add: issue)
  next
    case 3
    then show ?thesis by (intro Full [OF _ s1]) (auto simp: issue)
  next
    case 4
    then show ?thesis by (intro Issued [OF _ s1 4(3,2,4) refl]) (auto simp: issue)
  qed
qed

lemma codes_ok_prune: "codes_ok (os_codes s) \<Longrightarrow> codes_ok (os_codes (prune_codes now s))"
  by (auto simp: codes_ok_def prune_codes_def alist_facts intro: le_trans [OF length_filter_le])

lemma codes_ok_update:
  assumes "codes_ok m" "valid_challenge (co_challenge ac)" "length m < max_pending_codes"
  shows "codes_ok (AList.update k ac m)"
  using assms length_update [of k ac m] by (simp add: codes_ok_def alist_facts)

lemma codes_ok_delete: "codes_ok m \<Longrightarrow> codes_ok (AList.delete k m)"
  using le_trans [OF length_delete [of k m]] by (simp add: codes_ok_def list_all_delete AList.distinct_delete)


section \<open>Refresh grants\<close>

definition refresh_ok :: "(bytes \<times> refresh_grant) list \<Rightarrow> bool" where
  "refresh_ok m \<longleftrightarrow> distinct (map fst m) \<and> length m \<le> max_refresh_tokens \<and>
     list_all (\<lambda>e. valid_token_hash (fst e)) m"

definition grants_disk_ok :: "refresh_file option \<Rightarrow> bool" where
  "grants_disk_ok d \<longleftrightarrow> (case d of None \<Rightarrow> True | Some f \<Rightarrow>
     rf_version f = 1 \<and> distinct (map sg_hash (rf_grants f)) \<and> length (rf_grants f) \<le> max_refresh_tokens \<and>
     list_all (\<lambda>g. valid_token_hash (sg_hash g)) (rf_grants f))"

text \<open>The server but for its grants and their file.\<close>

definition only_grants :: "oauth_server \<Rightarrow> oauth_server \<Rightarrow> bool" where
  "only_grants s s' \<longleftrightarrow> s' = s\<lparr>os_refresh := os_refresh s', os_disk := os_disk s'\<rparr>"

lemma only_grants_fields:
  assumes "only_grants s s'"
  shows "os_password s' = os_password s" "os_url s' = os_url s" "os_secret s' = os_secret s" "os_ttl s' = os_ttl s"
    "os_registry s' = os_registry s" "os_codes s' = os_codes s" "os_cimd s' = os_cimd s" "os_persist s' = os_persist s"
  using assms by (cases s; cases s'; simp add: only_grants_def)+

lemma refresh_store_ok:
  assumes "refresh_ok m"
  shows "grants_disk_ok (Some (refresh_store env m))"
proof -
  let ?gs = "map (persisted_grant env) m"
  have hashes: "map sg_hash ?gs = map fst m" by (simp add: persisted_grant_def)
  have "distinct (map sg_hash ?gs)" unfolding hashes using assms by (simp add: refresh_ok_def)
  then have "distinct (map sg_hash (sort_key sg_hash ?gs))" by (simp only: distinct_map distinct_sort set_sort)
  moreover have "list_all (\<lambda>g. valid_token_hash (sg_hash g)) (sort_key sg_hash ?gs)"
    using assms by (simp add: refresh_ok_def list_all_iff persisted_grant_def)
  ultimately show ?thesis using assms by (simp add: grants_disk_ok_def refresh_store_def refresh_ok_def)
qed

lemma save_refresh_effect:
  "\<exists>d. fst (save_refresh env saved s) = s\<lparr>os_disk := d\<rparr> \<and>
     (d = os_disk s \<or> os_persist s \<and> d = Some (refresh_store env (os_refresh s))) \<and>
     (snd (save_refresh env saved s) \<longrightarrow> os_persist s \<longrightarrow> d = Some (refresh_store env (os_refresh s)))"
proof (cases "\<not> os_persist s \<or> saved = Not_Stored")
  case True
  then show ?thesis by (intro exI [of _ "os_disk s"]) (auto simp: save_refresh_def)
next
  case False
  then show ?thesis
    by (intro exI [of _ "Some (refresh_store env (os_refresh s))"]) (cases saved; simp add: save_refresh_def)
qed

lemma put_refresh_Some:
  assumes "put_refresh env ids now cid resource scope s = Some (s1, tok)"
  obtains g where "s1 = s\<lparr>os_refresh := AList.update (en_sha env tok) g (os_refresh s)\<rparr>"
    "g = \<lparr>gr_client = cid, gr_resource = resource, gr_scope = (if scope = [] then default_scope else scope),
       gr_expires = now + refresh_ttl\<rparr>"
    "en_sha env tok \<notin> fst ` set (os_refresh s)" "\<exists>k. tok = ids k"
proof -
  obtain k where draw: "draw_unused (en_sha env) (map fst (os_refresh s)) ids 0 = Some (tok, k)"
    using assms by (auto simp: put_refresh_def split: option.splits prod.splits)
  note fresh = draw_unused_fresh [OF draw]
  show ?thesis
    by (rule that [OF _ refl]) (use assms draw fresh in \<open>simp_all add: put_refresh_def\<close>)
qed

lemma oldest_grant_in:
  assumes "list_all (\<lambda>e. fst e \<noteq> []) m" "m \<noteq> []"
  shows "fst (oldest_grant m) \<in> fst ` set m"
proof -
  define f :: "bytes \<times> int \<Rightarrow> bytes \<times> refresh_grant \<Rightarrow> bytes \<times> int" where
    "f = (\<lambda>old e. if fst old = [] \<or> gr_expires (snd e) < snd old then (fst e, gr_expires (snd e)) else old)"
  have pick: "fst (f old e) \<in> {fst old, fst e}" "fst e \<noteq> [] \<Longrightarrow> fst (f old e) \<noteq> []" for old e
    by (simp_all add: f_def)
  have "fst (foldl f old m) \<in> insert (fst old) (fst ` set m)" for old
  proof (induction m arbitrary: old)
    case (Cons e m)
    show ?case using Cons.IH [of "f old e"] pick(1) [of old e] by auto
  qed simp
  moreover have "fst (foldl f old m) \<noteq> []" if "fst old \<noteq> [] \<or> m \<noteq> []" for old
    using assms(1) that
  proof (induction m arbitrary: old)
    case (Cons e m)
    then show ?case using Cons.IH [of "f old e"] pick(2) [of e old] by simp
  qed simp
  moreover have "oldest_grant m = foldl f ([], 0) m" by (simp add: oldest_grant_def f_def)
  ultimately show ?thesis using assms(2) by (metis fst_conv insert_iff)
qed

lemma refresh_ok_keys: "refresh_ok m \<Longrightarrow> list_all (\<lambda>e. fst e \<noteq> []) m"
  by (auto simp: refresh_ok_def list_all_iff valid_token_hash_def)

lemma prune_refresh_ok: "refresh_ok (os_refresh s) \<Longrightarrow> refresh_ok (os_refresh (prune_refresh now s))"
  by (auto simp: refresh_ok_def prune_refresh_def alist_facts intro: le_trans [OF length_filter_le])

lemma refresh_ok_delete: "refresh_ok m \<Longrightarrow> refresh_ok (AList.delete k m)"
  using le_trans [OF length_delete [of k m]] by (simp add: refresh_ok_def list_all_delete AList.distinct_delete)

lemma evict_oldest_ok:
  assumes "refresh_ok (os_refresh s)" "\<forall>m. set (order m) = set m"
  shows "refresh_ok (os_refresh (evict_oldest order s)) \<and>
     length (os_refresh (evict_oldest order s)) < max_refresh_tokens"
proof (cases "length (os_refresh s) \<ge> max_refresh_tokens")
  case True
  let ?m = "os_refresh s"
  have "?m \<noteq> []" using True by (auto simp: max_refresh_tokens_def)
  then have "order ?m \<noteq> []" using assms(2) by (metis set_empty)
  moreover have keys: "list_all (\<lambda>e. fst e \<noteq> []) (order ?m)"
    using refresh_ok_keys [OF assms(1)] assms(2) by (simp add: list_all_iff)
  ultimately have old: "fst (oldest_grant (order ?m)) \<in> fst ` set ?m"
    using oldest_grant_in assms(2) by metis
  then have "fst (oldest_grant (order ?m)) \<noteq> []"
    using refresh_ok_keys [OF assms(1)] by (auto simp: list_all_iff)
  moreover have "length (AList.delete (fst (oldest_grant (order ?m))) ?m) < max_refresh_tokens"
    using length_delete_less [OF old] assms(1) by (simp add: refresh_ok_def)
  ultimately show ?thesis using True refresh_ok_delete [OF assms(1)] by (simp add: evict_oldest_def Let_def)
qed (use assms in \<open>simp add: evict_oldest_def\<close>)

lemma refresh_ok_update:
  assumes "digest_law env" "refresh_ok m" "length m < max_refresh_tokens"
  shows "refresh_ok (AList.update (en_sha env tok) g m)"
  using assms length_update [of "en_sha env tok" g m] by (simp add: refresh_ok_def alist_facts digest_law_def)

text \<open>What a save writes: the old file stays, or the file has the given grants.\<close>

definition file_after :: "oauth_env \<Rightarrow> oauth_server \<Rightarrow> (bytes \<times> refresh_grant) list \<Rightarrow> refresh_file option \<Rightarrow> bool" where
  "file_after env s m d \<longleftrightarrow> d = os_disk s \<or> os_persist s \<and> d = Some (refresh_store env m)"

lemma evict_prune_update:
  "(evict_oldest order (prune_refresh now s))\<lparr>os_refresh := m\<rparr> = s\<lparr>os_refresh := m\<rparr>"
  by (simp add: evict_oldest_def prune_refresh_def Let_def)

lemma issue_refresh_cases:
  assumes "issue_refresh env order ids t saved cid resource scope s = Some (s2, r)"
  obtains (Failed) tok g d where "r = Inl E_Refresh_Save" "s2 = s\<lparr>os_disk := d\<rparr>"
      "file_after env s (AList.update (en_sha env tok) g (os_refresh (evict_oldest order (prune_refresh (t 0) s)))) d"
      "gr_client g = cid" "tok \<in> range ids"
  | (Issued) tok g d where "r = Inr tok"
      "s2 = s\<lparr>os_refresh := AList.update (en_sha env tok) g (os_refresh (evict_oldest order (prune_refresh (t 0) s))),
         os_disk := d\<rparr>"
      "file_after env s (os_refresh s2) d" "os_persist s \<longrightarrow> d = Some (refresh_store env (os_refresh s2))"
      "gr_client g = cid" "gr_resource g = resource" "gr_expires g = t 1 + refresh_ttl" "tok \<in> range ids"
      "en_sha env tok \<notin> fst ` set (os_refresh (evict_oldest order (prune_refresh (t 0) s)))"
proof -
  let ?s0 = "evict_oldest order (prune_refresh (t 0) s)"
  obtain s1 tok where put: "put_refresh env ids (t 1) cid resource scope ?s0 = Some (s1, tok)"
    using assms by (auto simp: issue_refresh_def split: option.splits)
  obtain g where g: "s1 = ?s0\<lparr>os_refresh := AList.update (en_sha env tok) g (os_refresh ?s0)\<rparr>"
      "g = \<lparr>gr_client = cid, gr_resource = resource, gr_scope = (if scope = [] then default_scope else scope),
         gr_expires = t 1 + refresh_ttl\<rparr>"
      "en_sha env tok \<notin> fst ` set (os_refresh ?s0)" "\<exists>k. tok = ids k"
    by (rule put_refresh_Some [OF put])
  have s1: "s1 = s\<lparr>os_refresh := AList.update (en_sha env tok) g (os_refresh ?s0)\<rparr>"
    unfolding g(1) by (rule evict_prune_update)
  obtain d where d: "fst (save_refresh env saved s1) = s1\<lparr>os_disk := d\<rparr>"
      "d = os_disk s1 \<or> os_persist s1 \<and> d = Some (refresh_store env (os_refresh s1))"
      "snd (save_refresh env saved s1) \<longrightarrow> os_persist s1 \<longrightarrow> d = Some (refresh_store env (os_refresh s1))"
    using save_refresh_effect by blast
  note issue = issue_refresh_def [of env order ids t saved cid resource scope s, unfolded put Let_def case_prod_beta option.case]
  show ?thesis
  proof (cases "snd (save_refresh env saved s1)")
    case True
    then show ?thesis
      by (intro Issued [of tok d g]) (use assms issue put d g(2,3,4) s1 in \<open>auto simp: file_after_def\<close>)
  next
    case False
    then show ?thesis
      by (intro Failed [of d tok g]) (use assms issue put d g(2,4) s1 in \<open>auto simp: file_after_def\<close>)
  qed
qed

lemma exchange_refresh_cases:
  assumes "exchange_refresh env ids t saved token cid resource s = Some (s2, r)"
  obtains (Refused) e where "r = Inl e" "s2 = s"
  | (Failed) g next_tok g' d where "r = Inl E_Refresh_Save" "s2 = s\<lparr>os_disk := d\<rparr>"
      "map_of (os_refresh s) (en_sha env token) = Some g" "gr_client g = cid"
      "file_after env s (AList.update (en_sha env next_tok) g' (AList.delete (en_sha env token) (os_refresh s))) d"
      "gr_client g' = cid" "next_tok \<in> range ids"
  | (Rotated) g tok next_tok g' d where "r = Inr (tok, os_ttl s, next_tok)"
      "map_of (os_refresh s) (en_sha env token) = Some g" "gr_client g = cid" "t 0 \<le> gr_expires g"
      "s2 = s\<lparr>os_refresh := AList.update (en_sha env next_tok) g' (AList.delete (en_sha env token) (os_refresh s)),
         os_disk := d\<rparr>"
      "file_after env s (os_refresh s2) d" "os_persist s \<longrightarrow> d = Some (refresh_store env (os_refresh s2))"
      "gr_client g' = cid" "gr_resource g' = snd (token_target (gr_resource g) resource s)"
      "create_access_token env (t 1) cid (snd (token_target (gr_resource g) resource s))
         (fst (token_target (gr_resource g) resource s)) s = Inr tok" "next_tok \<in> range ids"
proof (cases "map_of (os_refresh s) (en_sha env token)")
  case None
  then show ?thesis using assms by (intro Refused [of E_Invalid_Grant]) (simp_all add: exchange_refresh_def)
next
  case (Some g)
  note ex = assms [unfolded exchange_refresh_def Some Let_def case_prod_beta option.case]
  show ?thesis
  proof (cases "t 0 > gr_expires g \<or> gr_client g \<noteq> cid")
    case True
    then show ?thesis using ex by (intro Refused [of E_Invalid_Grant]) (auto split: if_splits)
  next
    case False
    let ?tt = "token_target (gr_resource g) resource s"
    show ?thesis
    proof (cases "create_access_token env (t 1) cid (snd ?tt) (fst ?tt) s")
      case (Inl e)
      then show ?thesis using ex False by (intro Refused [of e]) simp_all
    next
      case (Inr tok)
      let ?s0 = "s\<lparr>os_refresh := AList.delete (en_sha env token) (os_refresh s)\<rparr>"
      obtain s1 next_tok where put: "put_refresh env ids (t 2) cid (snd ?tt) (gr_scope g) ?s0 = Some (s1, next_tok)"
        using ex False Inr by (auto split: option.splits)
      obtain g' where g': "s1 = ?s0\<lparr>os_refresh := AList.update (en_sha env next_tok) g' (os_refresh ?s0)\<rparr>"
          "g' = \<lparr>gr_client = cid, gr_resource = snd ?tt,
             gr_scope = (if gr_scope g = [] then default_scope else gr_scope g), gr_expires = t 2 + refresh_ttl\<rparr>"
          "\<exists>k. next_tok = ids k"
        by (rule put_refresh_Some [OF put])
      have s1: "s1 = s\<lparr>os_refresh := AList.update (en_sha env next_tok) g' (AList.delete (en_sha env token) (os_refresh s))\<rparr>"
        using g'(1) by simp
      obtain d where d: "fst (save_refresh env saved s1) = s1\<lparr>os_disk := d\<rparr>"
          "d = os_disk s1 \<or> os_persist s1 \<and> d = Some (refresh_store env (os_refresh s1))"
          "snd (save_refresh env saved s1) \<longrightarrow> os_persist s1 \<longrightarrow> d = Some (refresh_store env (os_refresh s1))"
        using save_refresh_effect by blast
      let ?sv = "save_refresh env saved s1"
      have sv: "(if snd ?sv then (fst ?sv, Inr (tok, os_ttl s, next_tok))
          else ((fst ?sv)\<lparr>os_refresh := os_refresh s\<rparr>, Inl E_Refresh_Save)) = (s2, r)"
        using ex False Inr put by (simp add: case_prod_beta split: if_splits)
      have key: "gr_client g = cid" "t 0 \<le> gr_expires g" using False by simp_all
      have drawn: "next_tok \<in> range ids" using g'(3) by blast
      show ?thesis
      proof (cases "snd ?sv")
        case True
        have s2: "s2 = s\<lparr>os_refresh := AList.update (en_sha env next_tok) g' (AList.delete (en_sha env token) (os_refresh s)),
            os_disk := d\<rparr>" and r: "r = Inr (tok, os_ttl s, next_tok)" using sv True d(1) s1 by simp_all
        have "os_refresh s1 = os_refresh s2" "os_persist s1 = os_persist s" "os_disk s1 = os_disk s"
          using s2 s1 by simp_all
        then have "file_after env s (os_refresh s2) d" "os_persist s \<longrightarrow> d = Some (refresh_store env (os_refresh s2))"
          using d(2,3) True unfolding file_after_def by metis+
        then show ?thesis using r Some key s2 g'(2) Inr drawn by (intro Rotated [of tok next_tok g d g']) simp_all
      next
        case not_saved: False
        have s2: "s2 = s\<lparr>os_disk := d\<rparr>" and r: "r = Inl E_Refresh_Save" using sv not_saved d(1) s1 by auto
        have "file_after env s (os_refresh s1) d" using d(2) s1 by (auto simp: file_after_def)
        then show ?thesis using r Some key s2 g'(2) drawn s1 by (intro Failed [of d g next_tok g']) simp_all
      qed
    qed
  qed
qed

lemma exchange_code_cases:
  obtains (Unknown) "map_of (os_codes s) code = None"
      "exchange_code env t code uri cid verifier resource s = (s, Inl E_Invalid_Grant)"
  | (Taken) ac where "map_of (os_codes s) code = Some ac"
      "fst (exchange_code env t code uri cid verifier resource s) = s\<lparr>os_codes := AList.delete code (os_codes s)\<rparr>"
      "snd (exchange_code env t code uri cid verifier resource s) =
         redeem_code env t ac uri cid verifier resource (s\<lparr>os_codes := AList.delete code (os_codes s)\<rparr>)"
  by (cases "map_of (os_codes s) code") (simp_all add: exchange_code_def Let_def)

lemma redeem_code_ok:
  "redeem_code env t ac uri cid verifier resource s = Inr (tok, ttl) \<longleftrightarrow>
     t 0 \<le> co_expires ac \<and> co_client ac = cid \<and> co_redirect ac = uri \<and>
     verify_s256 env verifier (co_challenge ac) \<and> fst (token_target (co_resource ac) resource s) \<noteq> [] \<and>
     create_access_token env (t 1) cid (snd (token_target (co_resource ac) resource s))
       (fst (token_target (co_resource ac) resource s)) s = Inr tok \<and> ttl = os_ttl s"
  by (auto simp: redeem_code_def Let_def case_prod_beta)

section \<open>The invariant\<close>

definition server_ok :: "oauth_env \<Rightarrow> oauth_server \<Rightarrow> bool" where
  "server_ok env s \<longleftrightarrow> registry_ok env (os_registry s) \<and> cache_ok env (os_cimd s) \<and> codes_ok (os_codes s) \<and>
     refresh_ok (os_refresh s) \<and> grants_disk_ok (os_disk s)"

lemma server_ok_cache: "server_ok env s \<Longrightarrow> only_cache env s s' \<Longrightarrow> server_ok env s'"
  using only_cache_fields [of env s s'] by (simp add: server_ok_def only_cache_def)

lemma file_after_ok: "file_after env s m d \<Longrightarrow> grants_disk_ok (os_disk s) \<Longrightarrow> refresh_ok m \<Longrightarrow> grants_disk_ok d"
  using refresh_store_ok by (auto simp: file_after_def)

lemma issue_refresh_ok:
  assumes "digest_law env" "server_ok env s" "\<forall>m. set (order m) = set m"
    "issue_refresh env order ids t saved cid resource scope s = Some (s2, r)"
  shows "server_ok env s2"
proof -
  have ok: "refresh_ok (os_refresh s)" "grants_disk_ok (os_disk s)" using assms(2) by (simp_all add: server_ok_def)
  let ?m = "os_refresh (evict_oldest order (prune_refresh (t 0) s))"
  have "refresh_ok ?m" "length ?m < max_refresh_tokens"
    using evict_oldest_ok [OF prune_refresh_ok [OF ok(1)] assms(3)] by simp_all
  then have new: "refresh_ok (AList.update (en_sha env tok) g ?m)" for tok g by (rule refresh_ok_update [OF assms(1)])
  from assms(4) show ?thesis
  proof (cases rule: issue_refresh_cases)
    case (Failed tok g d)
    then show ?thesis using file_after_ok [OF Failed(3) ok(2) new] assms(2) by (simp add: server_ok_def)
  next
    case (Issued tok g d)
    then show ?thesis using file_after_ok [OF Issued(3) ok(2)] new assms(2) by (simp add: server_ok_def)
  qed
qed

lemma map_of_key: "map_of m k = Some v \<Longrightarrow> k \<in> fst ` set m"
  by (force dest: map_of_SomeD)

lemma exchange_refresh_ok:
  assumes "digest_law env" "server_ok env s"
    "exchange_refresh env ids t saved token cid resource s = Some (s2, r)"
  shows "server_ok env s2"
proof -
  have ok: "refresh_ok (os_refresh s)" "grants_disk_ok (os_disk s)" using assms(2) by (simp_all add: server_ok_def)
  have new: "refresh_ok (AList.update (en_sha env tok) g' (AList.delete (en_sha env token) (os_refresh s)))"
    if "map_of (os_refresh s) (en_sha env token) = Some g" for tok g g'
  proof (rule refresh_ok_update [OF assms(1) refresh_ok_delete [OF ok(1)]])
    show "length (AList.delete (en_sha env token) (os_refresh s)) < max_refresh_tokens"
      using length_delete_less [OF map_of_key [OF that]] ok(1) by (simp add: refresh_ok_def)
  qed
  from assms(3) show ?thesis
  proof (cases rule: exchange_refresh_cases)
    case (Refused e)
    then show ?thesis using assms(2) by simp
  next
    case (Failed g tok g' d)
    then show ?thesis using file_after_ok [OF Failed(5) ok(2) new] assms(2) by (simp add: server_ok_def)
  next
    case (Rotated g tok ntok g' d)
    then show ?thesis using file_after_ok [OF Rotated(6) ok(2)] new [OF Rotated(2)] assms(2) by (simp add: server_ok_def)
  qed
qed

lemma exchange_code_ok: "server_ok env s \<Longrightarrow> server_ok env (fst (exchange_code env t code uri cid verifier resource s))"
  by (cases rule: exchange_code_cases [of s code env t uri cid verifier resource])
    (simp_all add: server_ok_def codes_ok_delete)

lemma issue_code_ok:
  assumes "server_ok env s"
  shows "server_ok env (fst (issue_code env t new_code cid uri challenge auth resource scope s))"
proof (cases rule: issue_code_cases [of env t new_code cid uri challenge auth resource scope s])
  case (Refused s1 e)
  then show ?thesis using server_ok_cache [OF assms] by simp
next
  case (Full s1 e)
  then show ?thesis using server_ok_cache [OF assms Full(2)] codes_ok_prune [of s1]
    by (simp add: server_ok_def prune_codes_def)
next
  case (Issued s1 ac)
  have ok: "server_ok env s1" by (rule server_ok_cache [OF assms Issued(2)])
  have "codes_ok (os_codes (prune_codes (t 2) s1))" using ok by (simp add: server_ok_def codes_ok_prune)
  then have "codes_ok (AList.update new_code ac (os_codes (prune_codes (t 2) s1)))"
    using Issued(4,5,6) by (intro codes_ok_update) simp_all
  then show ?thesis using ok Issued(1) by (simp add: server_ok_def prune_codes_def)
qed

lemma handle_register_ok:
  assumes "digest_law env" "server_ok env s" "handle_register env saved ids now r s = Some (s', resp)"
  shows "server_ok env s'"
  using assms register_client_ok [OF assms(1)]
  by (auto simp: handle_register_def server_ok_def split: if_splits option.splits)

lemma authorize_post_ok:
  assumes "server_ok env s"
  shows "server_ok env (fst (authorize_post env t new_code r s))"
proof -
  have "server_ok env (fst (validate_authorize_params env t cid uri challenge auth s))" for cid uri challenge auth
    by (rule server_ok_cache [OF assms validate_authorize_params_cache])
  then show ?thesis using assms issue_code_ok
    by (simp add: authorize_post_def Let_def case_prod_beta split: sum.splits)
qed

lemma handle_authorize_ok: "server_ok env s \<Longrightarrow> server_ok env (fst (handle_authorize env t new_code r s))"
  using authorize_post_ok server_ok_cache [OF _ authorize_get_cache] by (simp add: handle_authorize_def)

text \<open>A request for a token: what it leaves alone, and the two kinds of grant.\<close>

lemma handle_token_cases:
  assumes "handle_token env w r s = Some (s', resp)"
  obtains (Refused) "only_cache env s s'" "\<forall>fields. resp \<noteq> Json_Reply 200 fields"
  | (Code) s1 where "only_cache env s s1"
      "code_grant_request env w r (fst (client_auth env r)) s1 = Some (s', resp)"
      "hr_form r ''grant_type'' = ''authorization_code''"
      "s1 = fst (token_client env (tr_clock w) (fst (client_auth env r)) (fst (snd (client_auth env r)))
         (snd (snd (client_auth env r))) s)"
  | (Refresh) s1 where "only_cache env s s1"
      "refresh_grant_request env w r (fst (client_auth env r)) s1 = Some (s', resp)"
      "hr_form r ''grant_type'' = ''refresh_token''"
      "s1 = fst (token_client env (tr_clock w) (fst (client_auth env r)) (fst (snd (client_auth env r)))
         (snd (snd (client_auth env r))) s)"
proof -
  let ?cid = "fst (client_auth env r)"
  let ?tc = "token_client env (tr_clock w) ?cid (fst (snd (client_auth env r))) (snd (snd (client_auth env r))) s"
  have cache: "only_cache env s (fst ?tc)" by (rule token_client_cache)
  note h = assms [unfolded handle_token_def Let_def case_prod_beta]
  consider "hr_method r \<noteq> ''POST'' \<or>
      hr_form r ''grant_type'' \<noteq> ''authorization_code'' \<and> hr_form r ''grant_type'' \<noteq> ''refresh_token'' \<or> ?cid = []"
    | "?cid \<noteq> []" "hr_method r = ''POST''" "\<not> snd ?tc"
        "hr_form r ''grant_type'' = ''authorization_code'' \<or> hr_form r ''grant_type'' = ''refresh_token''"
    | "?cid \<noteq> []" "hr_method r = ''POST''" "snd ?tc" "hr_form r ''grant_type'' = ''refresh_token''"
    | "?cid \<noteq> []" "hr_method r = ''POST''" "snd ?tc" "hr_form r ''grant_type'' = ''authorization_code''"
    by blast
  then show ?thesis
  proof cases
    case 1
    then show ?thesis using h by (intro Refused) (auto split: if_splits)
  next
    case 2
    then show ?thesis using h cache by (intro Refused) auto
  next
    case 3
    then show ?thesis using h by (intro Refresh [OF cache]) auto
  next
    case 4
    then show ?thesis using h by (intro Code [OF cache]) auto
  qed
qed

lemma code_grant_request_cases:
  assumes "code_grant_request env w r cid s = Some (s', resp)"
  obtains (Refused) "s' = fst (exchange_code env (later 6 (tr_clock w)) (hr_form r ''code'') (hr_form r ''redirect_uri'')
        cid (hr_form r ''code_verifier'') (hr_form r ''resource'') s)" "\<forall>fields. resp \<noteq> Json_Reply 200 fields"
  | (Exchanged) s1 tok ttl res issued where "exchange_code env (later 6 (tr_clock w)) (hr_form r ''code'')
        (hr_form r ''redirect_uri'') cid (hr_form r ''code_verifier'') (hr_form r ''resource'') s = (s1, Inr (tok, ttl))"
      "issue_refresh env (tr_order w) (tr_ids w) (later 8 (tr_clock w)) (tr_saved w) cid res default_scope s1 =
         Some (s', issued)"
      "res = (if hr_form r ''resource'' = [] then resource_url (effective_issuer (request_origin False r) s1)
              else hr_form r ''resource'')"
      "resp = (case issued of Inl e \<Rightarrow> Oauth_Failure 500 ''server_error'' | Inr refresh \<Rightarrow> token_reply tok ttl refresh)"
proof -
  obtain s1 ex where ex: "exchange_code env (later 6 (tr_clock w)) (hr_form r ''code'') (hr_form r ''redirect_uri'')
        cid (hr_form r ''code_verifier'') (hr_form r ''resource'') s = (s1, ex)" by fastforce
  note c = assms [unfolded code_grant_request_def Let_def ex case_prod_conv]
  show ?thesis
  proof (cases ex)
    case (Inl e)
    then show ?thesis using c ex by (intro Refused) auto
  next
    case (Inr p)
    obtain tok ttl where p: "p = (tok, ttl)" by fastforce
    let ?res = "if hr_form r ''resource'' = [] then resource_url (effective_issuer (request_origin False r) s1)
      else hr_form r ''resource''"
    obtain issued where i: "issue_refresh env (tr_order w) (tr_ids w) (later 8 (tr_clock w)) (tr_saved w) cid ?res
        default_scope s1 = Some (s', issued)"
      using c Inr p by (simp split: option.splits prod.splits sum.splits)
    then have "resp = (case issued of Inl e \<Rightarrow> Oauth_Failure 500 ''server_error'' | Inr refresh \<Rightarrow> token_reply tok ttl refresh)"
      using c Inr p by (simp split: sum.splits)
    then show ?thesis by (rule Exchanged [OF ex [unfolded Inr p] i refl])
  qed
qed

lemma handle_token_ok:
  assumes "digest_law env" "server_ok env s" "\<forall>m. set (tr_order w m) = set m" "handle_token env w r s = Some (s', resp)"
  shows "server_ok env s'"
  using assms(4)
proof (cases rule: handle_token_cases)
  case Refused
  then show ?thesis using server_ok_cache [OF assms(2)] by simp
next
  case (Code s1)
  have s1: "server_ok env s1" by (rule server_ok_cache [OF assms(2) Code(1)])
  from Code(2) show ?thesis
  proof (cases rule: code_grant_request_cases)
    case Refused
    then show ?thesis using exchange_code_ok [OF s1] by simp
  next
    case (Exchanged s2 tok ttl res issued)
    have "server_ok env s2" using exchange_code_ok [OF s1] Exchanged(1) by (metis fst_conv)
    then show ?thesis by (rule issue_refresh_ok [OF assms(1) _ assms(3) Exchanged(2)])
  qed
next
  case (Refresh s1)
  have s1: "server_ok env s1" by (rule server_ok_cache [OF assms(2) Refresh(1)])
  obtain res where "exchange_refresh env (tr_ids w) (later 6 (tr_clock w)) (tr_saved w) (hr_form r ''refresh_token'')
      (fst (client_auth env r)) (hr_form r ''resource'') s1 = Some (s', res)"
    using Refresh(2) by (auto simp: refresh_grant_request_def split: option.splits sum.splits)
  then show ?thesis by (rule exchange_refresh_ok [OF assms(1) s1])
qed

lemma oauth_step_ok:
  assumes "digest_law env" "server_ok env s" "event_ok (Call c)"
  shows "server_ok env (oauth_step env c s)"
proof (cases c)
  case (Register_Client saved ids now r)
  then show ?thesis using handle_register_ok [OF assms(1,2)] assms(2)
    by (auto simp: or_stay_def split: option.splits)
next
  case (Authorize t new_code r)
  then show ?thesis using handle_authorize_ok [OF assms(2)] by simp
next
  case (Get_Token w r)
  then show ?thesis using handle_token_ok [OF assms(1,2)] assms(2,3)
    by (auto simp: or_stay_def split: option.splits)
next
  case (Check_Access t cfg r)
  then show ?thesis using assms(2) server_ok_cache [OF assms(2) gateway_admits_cache]
    by (auto split: prod.splits option.splits) (metis fst_conv)
qed

section \<open>Starts\<close>

lemma load_grants_ok:
  assumes "load_grants now loaded pruned gs = Inr (loaded', pruned')" "distinct (map fst loaded)"
    "list_all (\<lambda>e. valid_token_hash (fst e)) loaded"
  shows "distinct (map fst loaded') \<and> list_all (\<lambda>e. valid_token_hash (fst e)) loaded' \<and>
     length loaded' \<le> length loaded + length gs"
  using assms
proof (induction now loaded pruned gs rule: load_grants.induct)
  case (2 now loaded pruned g gs)
  then show ?case by (fastforce split: if_splits)
qed simp

definition disk_ok :: "oauth_env \<Rightarrow> oauth_disk \<Rightarrow> bool" where
  "disk_ok env d \<longleftrightarrow> clients_disk_ok env (od_clients d) \<and> grants_disk_ok (od_grants d)"

lemma load_refresh_ok:
  assumes "server_ok env s" "load_refresh env readable now saved s = (s', r)"
  shows "server_ok env s'"
proof (cases "os_disk s")
  case None
  then show ?thesis using assms by (simp add: load_refresh_def)
next
  case (Some f)
  show ?thesis
  proof (cases "\<not> readable \<or> rf_version f \<noteq> 1")
    case True
    then show ?thesis using assms Some by (auto simp: load_refresh_def split: if_splits)
  next
    case False
    show ?thesis
    proof (cases "load_grants now [] False (rf_grants f)")
      case (Inl e)
      then show ?thesis using assms Some False by (simp add: load_refresh_def)
    next
      case (Inr p)
      obtain loaded pruned where p: "p = (loaded, pruned)" by fastforce
      have "length (rf_grants f) \<le> max_refresh_tokens" using assms(1) Some by (simp add: server_ok_def grants_disk_ok_def)
      then have m: "refresh_ok loaded" using load_grants_ok [OF Inr [unfolded p]] by (simp add: refresh_ok_def)
      then have s1: "server_ok env (s\<lparr>os_refresh := loaded\<rparr>)" using assms(1) by (simp add: server_ok_def)
      obtain d where d: "fst (save_refresh env saved (s\<lparr>os_refresh := loaded\<rparr>)) = s\<lparr>os_refresh := loaded, os_disk := d\<rparr>"
          "d = os_disk s \<or> d = Some (refresh_store env loaded)"
        using save_refresh_effect [of env saved "s\<lparr>os_refresh := loaded\<rparr>"] by auto
      then have "server_ok env (s\<lparr>os_refresh := loaded, os_disk := d\<rparr>)"
        using s1 refresh_store_ok [OF m] by (auto simp: server_ok_def)
      then show ?thesis using assms(2) Some False Inr p s1 d(1)
        by (auto simp: load_refresh_def Let_def case_prod_beta split: if_splits)
    qed
  qed
qed

lemma build_oauth_server_ok:
  assumes "digest_law env" "disk_ok env d" "build_oauth_server env w cfg d = (d', r)"
  shows "disk_ok env d' \<and> (\<forall>s. r = Inr (Some s) \<longrightarrow> server_ok env s)"
proof (cases "wants_oauth cfg")
  case False
  then show ?thesis using assms by (auto simp: build_oauth_server_def)
next
  case True
  show ?thesis
  proof (cases "configured_secret w cfg")
    case (Inl e)
    then show ?thesis using assms True by (auto simp: build_oauth_server_def Let_def)
  next
    case (Inr secret)
    define s0 where "s0 = new_server (if trim_space (af_password cfg) = [] then su_password w else trim_space (af_password cfg))
      (trim_space (af_server_url cfg)) secret (oauth_token_ttl (af_ttl cfg)) (od_clients d) (od_grants d)"
    note b = assms(3) [unfolded build_oauth_server_def Let_def, simplified True Inr]
    have s0: "server_ok env s0" using assms(2)
      by (simp add: s0_def new_server_def new_registry_def server_ok_def registry_ok_def clients_ok_def cache_ok_def
          codes_ok_def refresh_ok_def disk_ok_def)
    show ?thesis
    proof (cases "set_persist_path ''oauth-clients.json'' (su_readable w) (os_registry s0)")
      case (Inl e)
      then show ?thesis using b assms(2) by (auto simp: s0_def)
    next
      case reg: (Inr reg)
      let ?s1 = "s0\<lparr>os_registry := reg\<rparr>"
      have "server_ok env ?s1" using s0 set_persist_path_ok [OF _ reg] by (simp add: server_ok_def)
      then have s1: "server_ok env (?s1\<lparr>os_persist := p\<rparr>)" for p by (simp add: server_ok_def)
      obtain s2 loaded where l: "set_refresh_persist_path env ''oauth-refresh-grants.json'' (su_readable w) (su_clock w 0)
          (su_grants_saved w) ?s1 = (s2, loaded)" by fastforce
      then have s2: "server_ok env s2" using load_refresh_ok [OF s1] s1 [of False]
        by (auto simp: set_refresh_persist_path_def split: if_splits)
      then have disk2: "disk_ok env (disk_of s2)" by (simp add: server_ok_def disk_ok_def disk_of_def registry_ok_def)
      show ?thesis
      proof (cases loaded)
        case (Inl e)
        then show ?thesis using b reg l disk2 by (auto simp: s0_def)
      next
        case loaded: (Inr u)
        obtain reg2 added where a: "start_client env w cfg (os_registry s2) = (reg2, added)" by fastforce
        have "registry_ok env reg2"
          using a s2 add_preregistered_ok [OF assms(1), of "os_registry s2"]
          by (auto simp: start_client_def Let_def server_ok_def split: if_splits) (metis fst_conv)+
        then have s3: "server_ok env (s2\<lparr>os_registry := reg2\<rparr>)" using s2 by (simp add: server_ok_def)
        then have "disk_ok env (disk_of (s2\<lparr>os_registry := reg2\<rparr>))"
          by (simp add: server_ok_def disk_ok_def disk_of_def registry_ok_def)
        then show ?thesis using b reg l loaded a s3 by (auto simp: s0_def split: sum.splits)
      qed
    qed
  qed
qed

lemma oauth_run_ok:
  assumes "digest_law env" "list_all event_ok es"
  shows "disk_ok env (fst (oauth_run env es)) \<and> (\<forall>s. snd (oauth_run env es) = Some s \<longrightarrow> server_ok env s)"
proof (rule oauth_run_invariant [where D = "\<lambda>es d. disk_ok env d" and S = "\<lambda>es s. server_ok env s", OF _ _ _ _ assms(2)])
  show "disk_ok env empty_disk" by (simp add: disk_ok_def empty_disk_def clients_disk_ok_def grants_disk_ok_def)
  show "disk_ok env d' \<and> (\<forall>s. r = Inr (Some s) \<longrightarrow> server_ok env s)"
    if "disk_ok env d" "build_oauth_server env w cfg d = (d', r)" for d w cfg d' r
    by (rule build_oauth_server_ok [OF assms(1) that])
  show "server_ok env (oauth_step env c s) \<and> disk_ok env (disk_of (oauth_step env c s))"
    if "server_ok env s" "event_ok (Call c)" for c s
    using oauth_step_ok [OF assms(1) that] by (simp add: server_ok_def disk_ok_def disk_of_def registry_ok_def)
qed

end
