(* ===== verification/Oauth_Safety.thy ===== *)
theory Oauth_Safety
  imports Oauth_Invariant Pending_Contract
begin

text \<open>
  What the authorization server promises: tokens go back to an approval with the password, codes and
  refresh tokens are used once, also across restarts and failed saves, known clients are well-formed,
  the tables are bounded, a restart keeps the grants, and an issued token opens the gateway.
\<close>


section \<open>Where grants come from\<close>

definition file_holders :: "refresh_file option \<Rightarrow> bytes set" where
  "file_holders d = (case d of None \<Rightarrow> {} | Some f \<Rightarrow> sg_client ` set (rf_grants f))"

definition grant_clients :: "(bytes \<times> refresh_grant) list \<Rightarrow> bytes set" where
  "grant_clients m = (\<lambda>e. gr_client (snd e)) ` set m"

definition holders :: "oauth_server \<Rightarrow> bytes set" where
  "holders s = (\<lambda>e. co_client (snd e)) ` set (os_codes s) \<union> grant_clients (os_refresh s)"

lemma file_holders_store: "file_holders (Some (refresh_store env m)) = en_json_text env ` grant_clients m"
  by (simp add: file_holders_def refresh_store_def persisted_grant_def image_image grant_clients_def)

lemma file_after_holders:
  assumes "file_after env s m d" "grant_clients m \<subseteq> H"
  shows "file_holders d \<subseteq> file_holders (os_disk s) \<union> en_json_text env ` H"
proof -
  have "file_holders d \<subseteq> file_holders (os_disk s) \<union> en_json_text env ` grant_clients m"
    using assms(1) by (auto simp: file_after_def file_holders_store)
  then show ?thesis by (rule subset_trans [OF _ Un_mono [OF subset_refl image_mono [OF assms(2)]]])
qed

lemma holders_cache: "only_cache env s s' \<Longrightarrow> holders s' = holders s \<and> os_disk s' = os_disk s"
  by (simp add: holders_def only_cache_fields)

lemma grant_clients_evict: "grant_clients (os_refresh (evict_oldest order (prune_refresh now s))) \<subseteq> holders s"
  by (auto simp: grant_clients_def holders_def evict_oldest_def prune_refresh_def Let_def set_delete)

lemma grant_clients_update: "gr_client g = cid \<Longrightarrow> grant_clients (AList.update k g m) \<subseteq> insert cid (grant_clients m)"
  using set_update_subset [of k g m] by (auto simp: grant_clients_def)

lemma grant_clients_delete: "grant_clients (AList.delete k (os_refresh s)) \<subseteq> holders s"
  by (auto simp: grant_clients_def holders_def set_delete)

text \<open>A request for a token lets only clients hold grants that held one, and answers only them.\<close>

definition passes_on :: "oauth_env \<Rightarrow> oauth_server \<Rightarrow> oauth_server \<Rightarrow> bool" where
  "passes_on env s s' \<longleftrightarrow> holders s' \<subseteq> holders s \<and>
     file_holders (os_disk s') \<subseteq> file_holders (os_disk s) \<union> en_json_text env ` holders s"

lemma issue_refresh_passes_on:
  assumes "issue_refresh env order ids t saved cid resource scope s = Some (s', r)" "cid \<in> H" "holders s \<subseteq> H"
  shows "holders s' \<subseteq> H \<and> file_holders (os_disk s') \<subseteq> file_holders (os_disk s) \<union> en_json_text env ` H"
proof -
  let ?m = "os_refresh (evict_oldest order (prune_refresh (t 0) s))"
  have m: "grant_clients (AList.update k g ?m) \<subseteq> H" if "gr_client g = cid" for k g
    using grant_clients_update [OF that, of k ?m] grant_clients_evict [of order "t 0" s] assms(2,3) by blast
 from assms(1) show ?thesis
  proof (cases rule: issue_refresh_cases)
    case (Failed tok g d)
    then show ?thesis using file_after_holders [OF Failed(3) m [OF Failed(4)]] assms(3) by (simp add: holders_def)
  next
    case (Issued tok g d)
    have codes: "os_codes s' = os_codes s" "os_refresh s' = AList.update (en_sha env tok) g ?m" "os_disk s' = d"
      using Issued(2) by simp_all
    have "holders s' \<subseteq> H" using m [OF Issued(5)] assms(3) by (simp add: holders_def codes)
    moreover have "file_holders d \<subseteq> file_holders (os_disk s) \<union> en_json_text env ` H"
      by (rule file_after_holders [OF Issued(3)]) (simp add: codes m [OF Issued(5)])
    ultimately show ?thesis using codes by simp
  qed
qed

lemma exchange_refresh_passes_on:
  assumes "exchange_refresh env ids t saved token cid resource s = Some (s', r)"
  shows "passes_on env s s' \<and> (\<forall>x. r = Inr x \<longrightarrow> cid \<in> holders s)"
proof -
  have held: "cid \<in> holders s" if "map_of (os_refresh s) k = Some g" "gr_client g = cid" for g k
    using that by (force simp: holders_def grant_clients_def dest: map_of_SomeD)
  have m: "grant_clients (AList.update k' g' (AList.delete k (os_refresh s))) \<subseteq> holders s"
    if "cid \<in> holders s" "gr_client g' = cid" for k k' g'
    using grant_clients_update [OF that(2), of k' "AList.delete k (os_refresh s)"] grant_clients_delete [of k s] that(1) by blast
 from assms show ?thesis
  proof (cases rule: exchange_refresh_cases)
    case (Refused e)
    then show ?thesis by (simp add: passes_on_def)
  next
    case (Failed g tok g' d)
    have "file_holders d \<subseteq> file_holders (os_disk s) \<union> en_json_text env ` holders s"
      by (rule file_after_holders [OF Failed(5) m [OF held [OF Failed(3,4)] Failed(6)]])
    then show ?thesis using Failed(1,2) by (simp add: passes_on_def holders_def)
  next
    case (Rotated g tok next_tok g' d)
    have codes: "os_codes s' = os_codes s" "os_disk s' = d"
      "os_refresh s' = AList.update (en_sha env next_tok) g' (AList.delete (en_sha env token) (os_refresh s))"
      using Rotated(5) by simp_all
    note h = held [OF Rotated(2,3)]
    have "holders s' \<subseteq> holders s" using m [OF h Rotated(8)] by (simp add: holders_def codes)
    moreover have "file_holders d \<subseteq> file_holders (os_disk s) \<union> en_json_text env ` holders s"
      by (rule file_after_holders [OF Rotated(6)]) (simp add: codes m [OF h Rotated(8)])
    ultimately show ?thesis using h codes by (simp add: passes_on_def)
  qed
qed

lemma exchange_code_Inr:
  assumes "exchange_code env t code uri cid verifier resource s = (s', Inr (tok, ttl))"
  obtains ac where "(code, ac) \<in> set (os_codes s)" "co_client ac = cid" "co_redirect ac = uri" "t 0 \<le> co_expires ac"
    "verify_s256 env verifier (co_challenge ac)" "s' = s\<lparr>os_codes := AList.delete code (os_codes s)\<rparr>"
proof (cases rule: exchange_code_cases [of s code env t uri cid verifier resource])
  case (Taken ac)
  have "redeem_code env t ac uri cid verifier resource (s\<lparr>os_codes := AList.delete code (os_codes s)\<rparr>) = Inr (tok, ttl)"
    using Taken(3) assms by simp
  then show ?thesis using that [OF map_of_SomeD [OF Taken(1)]] Taken(2) assms unfolding redeem_code_ok by simp
qed (use assms in simp)

lemma exchange_code_holders:
  "holders (fst (exchange_code env t code uri cid verifier resource s)) \<subseteq> holders s \<and>
   os_disk (fst (exchange_code env t code uri cid verifier resource s)) = os_disk s"
  by (cases rule: exchange_code_cases [of s code env t uri cid verifier resource])
    (auto simp: holders_def set_delete)

lemma handle_token_passes_on:
  assumes "handle_token env w r s = Some (s', resp)"
  shows "passes_on env s s' \<and> (\<forall>fields. resp = Json_Reply 200 fields \<longrightarrow> fst (client_auth env r) \<in> holders s)"
  using assms
proof (cases rule: handle_token_cases)
  case Refused
  then show ?thesis using holders_cache [OF Refused(1)] by (simp add: passes_on_def)
next
  case (Code s1)
  note s1 = holders_cache [OF Code(1)]
  from Code(2) show ?thesis
  proof (cases rule: code_grant_request_cases)
    case Refused
    have "holders s' \<subseteq> holders s1 \<and> os_disk s' = os_disk s1" unfolding Refused(1) by (rule exchange_code_holders)
    then show ?thesis using Refused(2) s1 by (simp add: passes_on_def)
  next
    case (Exchanged s2 tok ttl res issued)
    from Exchanged(1) have cid: "fst (client_auth env r) \<in> holders s1"
      by (rule exchange_code_Inr) (force simp: holders_def)
    have s2: "holders s2 \<subseteq> holders s1" "os_disk s2 = os_disk s1"
      using exchange_code_holders Exchanged(1) by (metis fst_conv)+
    show ?thesis using issue_refresh_passes_on [OF Exchanged(2) cid s2(1)] s2 s1 cid by (simp add: passes_on_def)
  qed
next
  case (Refresh s1)
  note s1 = holders_cache [OF Refresh(1)]
  obtain res where ex: "exchange_refresh env (tr_ids w) (later 6 (tr_clock w)) (tr_saved w) (hr_form r ''refresh_token'')
      (fst (client_auth env r)) (hr_form r ''resource'') s1 = Some (s', res)"
    using Refresh(2) by (auto simp: refresh_grant_request_def split: option.splits sum.splits)
  have "\<exists>x. res = Inr x" if "resp = Json_Reply 200 fields" for fields
    using Refresh(2) ex that by (cases res) (auto simp: refresh_grant_request_def)
  then show ?thesis using exchange_refresh_passes_on [OF ex] s1 by (auto simp: passes_on_def)
qed

section \<open>Approvals\<close>

text \<open>
  The events \<open>es\<close> contain an approval: a request to the authorization endpoint that carried the
  password of the server as it was, for this client, redirect URI, challenge and code.
\<close>

definition approves :: "oauth_env \<Rightarrow> oauth_event list \<Rightarrow> bytes \<Rightarrow> bytes \<Rightarrow> bytes \<Rightarrow> bytes \<Rightarrow> int \<Rightarrow> bool" where
  "approves env es cid uri challenge code deadline \<longleftrightarrow>
     (\<exists>es1 es2 t r s. es = es1 @ Call (Authorize t code r) # es2 \<and> snd (oauth_run env es1) = Some s \<and>
        hr_method r = ''POST'' \<and> check_password (hr_form r ''password'') s \<and> hr_form r ''client_id'' = cid \<and>
        hr_form r ''redirect_uri'' = uri \<and> hr_form r ''code_challenge'' = challenge \<and> deadline = t 5 + code_ttl)"

definition approved :: "oauth_env \<Rightarrow> oauth_event list \<Rightarrow> bytes \<Rightarrow> bool" where
  "approved env es cid \<longleftrightarrow> (\<exists>uri challenge code deadline. approves env es cid uri challenge code deadline)"

text \<open>The client, or what the file has made of its identifier.\<close>

definition approved_text :: "oauth_env \<Rightarrow> oauth_event list \<Rightarrow> bytes \<Rightarrow> bool" where
  "approved_text env es cid \<longleftrightarrow> (\<exists>c. approved env es c \<and> cid \<in> {c, en_json_text env c})"

lemma approves_snoc: "approves env es cid uri challenge code d \<Longrightarrow> approves env (es @ [e]) cid uri challenge code d"
  unfolding approves_def by (metis append_Cons append_assoc)

lemma approved_text_snoc: "approved_text env es cid \<Longrightarrow> approved_text env (es @ [e]) cid"
  unfolding approved_text_def approved_def using approves_snoc by blast

lemma approved_text_json: "text_law env \<Longrightarrow> approved_text env es c \<Longrightarrow> approved_text env es (en_json_text env c)"
  unfolding approved_text_def text_law_def by auto

lemma issue_code_codes:
  assumes "(k, ac) \<in> set (os_codes (fst (issue_code env t new_code cid uri challenge auth resource scope s)))"
  shows "(k, ac) \<in> set (os_codes s) \<or> k = new_code \<and> co_client ac = cid \<and> co_redirect ac = uri \<and>
     co_challenge ac = challenge \<and> co_expires ac = t 3 + code_ttl"
proof (cases rule: issue_code_cases [of env t new_code cid uri challenge auth resource scope s])
  case (Issued s1 bc)
  have "(k, ac) \<in> insert (new_code, bc) (set (os_codes s1))"
    using assms Issued(1) set_update_subset [of new_code bc "os_codes (prune_codes (t 2) s1)"]
    by (auto simp: prune_codes_def)
  then show ?thesis using Issued(6) only_cache_fields [OF Issued(2)] by auto
qed (use assms only_cache_fields in \<open>auto simp: prune_codes_def\<close>)

lemma issue_code_grants:
  "os_refresh (fst (issue_code env t new_code cid uri challenge auth resource scope s)) = os_refresh s \<and>
   os_disk (fst (issue_code env t new_code cid uri challenge auth resource scope s)) = os_disk s \<and>
   os_persist (fst (issue_code env t new_code cid uri challenge auth resource scope s)) = os_persist s"
  by (cases rule: issue_code_cases [of env t new_code cid uri challenge auth resource scope s])
    (use only_cache_fields in \<open>fastforce simp: prune_codes_def\<close>)+

lemma authorize_post_codes:
  assumes "(k, ac) \<in> set (os_codes (fst (authorize_post env t new_code r s)))"
  shows "(k, ac) \<in> set (os_codes s) \<or> k = new_code \<and> check_password (hr_form r ''password'') s \<and>
     co_client ac = hr_form r ''client_id'' \<and> co_redirect ac = hr_form r ''redirect_uri'' \<and>
     co_challenge ac = hr_form r ''code_challenge'' \<and> co_expires ac = t 5 + code_ttl"
proof -
  let ?v = "validate_authorize_params env t (hr_form r ''client_id'') (hr_form r ''redirect_uri'')
    (hr_form r ''code_challenge'') (hr_form r ''code_challenge_method'') s"
  have v: "os_codes (fst ?v) = os_codes s" "os_password (fst ?v) = os_password s"
    using only_cache_fields [OF validate_authorize_params_cache] by simp_all
  show ?thesis
  proof (cases "hr_form_ok r \<and> is_ok (snd ?v) \<and> check_password (hr_form r ''password'') (fst ?v)")
    case True
    then obtain u where u: "snd ?v = Inr u" by (auto simp: is_ok_iff)
    have "later 2 t 3 = t 5" by (simp add: later_def numeral_eq_Suc)
    moreover have "check_password (hr_form r ''password'') s" using True v by (simp add: check_password_def)
    ultimately show ?thesis using assms True u v
      by (auto simp: authorize_post_def Let_def case_prod_beta dest!: issue_code_codes)
  next
    case False
    then have "os_codes (fst (authorize_post env t new_code r s)) = os_codes s"
      using v by (auto simp: authorize_post_def Let_def case_prod_beta is_ok_def split: sum.splits)
    then show ?thesis using assms by simp
  qed
qed

lemma authorize_grants:
  "os_refresh (fst (handle_authorize env t new_code r s)) = os_refresh s \<and>
   os_disk (fst (handle_authorize env t new_code r s)) = os_disk s \<and>
   os_persist (fst (handle_authorize env t new_code r s)) = os_persist s"
proof -
  have v: "os_refresh (fst (validate_authorize_params env t cid uri challenge auth s)) = os_refresh s \<and>
      os_disk (fst (validate_authorize_params env t cid uri challenge auth s)) = os_disk s \<and>
      os_persist (fst (validate_authorize_params env t cid uri challenge auth s)) = os_persist s"
    for cid uri challenge auth
    using only_cache_fields [OF validate_authorize_params_cache] by simp
  then have "os_refresh (fst (authorize_post env t new_code r s)) = os_refresh s \<and>
      os_disk (fst (authorize_post env t new_code r s)) = os_disk s \<and>
      os_persist (fst (authorize_post env t new_code r s)) = os_persist s"
    using issue_code_grants by (simp add: authorize_post_def Let_def case_prod_beta split: sum.splits)
  then show ?thesis using only_cache_fields [OF authorize_get_cache] by (simp add: handle_authorize_def)
qed

lemma authorize_codes:
  assumes "(k, ac) \<in> set (os_codes (fst (handle_authorize env t new_code r s)))"
  shows "(k, ac) \<in> set (os_codes s) \<or> hr_method r = ''POST'' \<and> k = new_code \<and>
     check_password (hr_form r ''password'') s \<and> co_client ac = hr_form r ''client_id'' \<and>
     co_redirect ac = hr_form r ''redirect_uri'' \<and> co_challenge ac = hr_form r ''code_challenge'' \<and>
     co_expires ac = t 5 + code_ttl"
  using assms authorize_post_codes [of k ac env t new_code r s] only_cache_fields [OF authorize_get_cache]
  by (auto simp: handle_authorize_def split: if_splits)

lemma exchange_code_codes:
  "set (os_codes (fst (exchange_code env t code uri cid verifier resource s))) \<subseteq> set (os_codes s)"
  by (cases rule: exchange_code_cases [of s code env t uri cid verifier resource]) (auto simp: set_delete)

lemma issue_refresh_frame:
  assumes "issue_refresh env order ids t saved cid resource scope s = Some (s', r)"
  shows "os_codes s' = os_codes s \<and> os_persist s' = os_persist s"
  using assms by (cases rule: issue_refresh_cases) simp_all

lemma exchange_refresh_frame:
  assumes "exchange_refresh env ids t saved token cid resource s = Some (s', r)"
  shows "os_codes s' = os_codes s \<and> os_persist s' = os_persist s"
  using assms by (cases rule: exchange_refresh_cases) simp_all

lemma refresh_request_exchange:
  assumes "refresh_grant_request env w r cid s = Some (s', resp)"
  obtains res where "exchange_refresh env (tr_ids w) (later 6 (tr_clock w)) (tr_saved w) (hr_form r ''refresh_token'')
      cid (hr_form r ''resource'') s = Some (s', res)"
    "resp = (case res of Inl e \<Rightarrow> Oauth_Failure 400 ''invalid_grant''
       | Inr (tok, ttl, next_tok) \<Rightarrow> token_reply tok ttl next_tok)"
  using assms that by (auto simp: refresh_grant_request_def split: option.splits sum.splits)

lemma handle_token_codes:
  assumes "handle_token env w r s = Some (s', resp)"
  shows "set (os_codes s') \<subseteq> set (os_codes s) \<and> os_persist s' = os_persist s"
  using assms
proof (cases rule: handle_token_cases)
  case Refused
  then show ?thesis by (simp add: only_cache_fields)
next
  case (Code s1)
  note s1 = only_cache_fields [OF Code(1)]
  have persist: "os_persist (fst (exchange_code env t code uri cid verifier resource s1)) = os_persist s1"
    for t code uri cid verifier resource
    by (cases rule: exchange_code_cases [of s1 code env t uri cid verifier resource]) simp_all
  from Code(2) show ?thesis
  proof (cases rule: code_grant_request_cases)
    case Refused
    have "set (os_codes s') \<subseteq> set (os_codes s1)" unfolding Refused(1) by (rule exchange_code_codes)
    then show ?thesis using Refused(1) persist s1 by simp
  next
    case (Exchanged s2 tok ttl res issued)
    have "set (os_codes s2) \<subseteq> set (os_codes s1)" "os_persist s2 = os_persist s1"
      using exchange_code_codes persist Exchanged(1) by (metis fst_conv)+
    then show ?thesis using issue_refresh_frame [OF Exchanged(2)] s1 by simp
  qed
next
  case (Refresh s1)
  from Refresh(2) obtain res where "exchange_refresh env (tr_ids w) (later 6 (tr_clock w)) (tr_saved w)
      (hr_form r ''refresh_token'') (fst (client_auth env r)) (hr_form r ''resource'') s1 = Some (s', res)"
    by (rule refresh_request_exchange)
  then show ?thesis using exchange_refresh_frame only_cache_fields [OF Refresh(1)] by fastforce
qed

lemma register_frame:
  assumes "handle_register env saved ids now r s = Some (s', resp)"
  shows "os_codes s' = os_codes s \<and> os_refresh s' = os_refresh s \<and> os_disk s' = os_disk s \<and> os_persist s' = os_persist s"
  using assms by (auto simp: handle_register_def split: if_splits option.splits)

lemma gateway_frame:
  "only_cache env s (oauth_step env (Check_Access t cfg r) s)"
  using gateway_admits_cache [of env t cfg r s] by (auto split: prod.splits option.splits)

definition provenance :: "oauth_env \<Rightarrow> oauth_event list \<Rightarrow> oauth_server \<Rightarrow> bool" where
  "provenance env es s \<longleftrightarrow>
     (\<forall>(k, ac) \<in> set (os_codes s). approves env es (co_client ac) (co_redirect ac) (co_challenge ac) k (co_expires ac)) \<and>
     (\<forall>c \<in> grant_clients (os_refresh s). approved_text env es c)"

definition disk_provenance :: "oauth_env \<Rightarrow> oauth_event list \<Rightarrow> oauth_disk \<Rightarrow> bool" where
  "disk_provenance env es d \<longleftrightarrow> (\<forall>c \<in> file_holders (od_grants d). approved_text env es c)"

lemma provenance_holders: "provenance env es s \<Longrightarrow> c \<in> holders s \<Longrightarrow> approved_text env es c"
  unfolding provenance_def holders_def approved_text_def approved_def by fastforce

lemma step_codes_approved:
  assumes "snd (oauth_run env es) = Some s" "provenance env es s" "(k, ac) \<in> set (os_codes (oauth_step env c s))"
  shows "approves env (es @ [Call c]) (co_client ac) (co_redirect ac) (co_challenge ac) k (co_expires ac)"
proof -
  have old: "approves env (es @ [Call c]) (co_client ac) (co_redirect ac) (co_challenge ac) k (co_expires ac)"
    if "(k, ac) \<in> set (os_codes s)"
    using assms(2) that by (intro approves_snoc) (auto simp: provenance_def)
  show ?thesis
  proof (cases c)
    case (Register_Client saved ids now r)
    then show ?thesis using assms(3) old register_frame by (fastforce simp: or_stay_def split: option.splits)
  next
    case (Authorize t new_code r)
    show ?thesis
    proof (cases "(k, ac) \<in> set (os_codes s)")
      case False
      then show ?thesis
        using authorize_codes [of k ac env t new_code r s] assms(1,3) Authorize
        unfolding approves_def by (intro exI [of _ es] exI [of _ "[]"] exI [of _ t] exI [of _ r] exI [of _ s]) auto
    qed (rule old)
  next
    case (Get_Token w r)
    then show ?thesis using assms(3) old handle_token_codes by (fastforce simp: or_stay_def split: option.splits)
  next
    case (Check_Access t cfg r)
    then show ?thesis using assms(3) old only_cache_fields [OF gateway_frame] by metis
  qed
qed

lemma step_passes_on: "passes_on env s (oauth_step env c s) \<or> (\<exists>t k r. c = Authorize t k r)"
proof (cases c)
  case (Register_Client saved ids now r)
  then show ?thesis using register_frame
    by (fastforce simp: or_stay_def passes_on_def holders_def split: option.splits)
next
  case (Get_Token w r)
  then show ?thesis using handle_token_passes_on
    by (fastforce simp: or_stay_def passes_on_def split: option.splits)
next
  case (Check_Access t cfg r)
  then show ?thesis using holders_cache [OF gateway_frame] by (simp only: passes_on_def) blast
qed simp

lemma step_provenance:
  assumes "text_law env" "snd (oauth_run env es) = Some s" "provenance env es s" "disk_provenance env es (disk_of s)"
  shows "provenance env (es @ [Call c]) (oauth_step env c s) \<and>
     disk_provenance env (es @ [Call c]) (disk_of (oauth_step env c s))"
proof -
  let ?s = "oauth_step env c s"
  have codes: "\<forall>(k, ac) \<in> set (os_codes ?s).
      approves env (es @ [Call c]) (co_client ac) (co_redirect ac) (co_challenge ac) k (co_expires ac)"
    using step_codes_approved [OF assms(2,3)] by blast
  have old: "approved_text env (es @ [Call c]) x" if "x \<in> holders s" for x
    by (rule approved_text_snoc [OF provenance_holders [OF assms(3) that]])
  have old_disk: "approved_text env (es @ [Call c]) x" if "x \<in> file_holders (os_disk s)" for x
    using assms(4) that by (intro approved_text_snoc) (simp add: disk_provenance_def disk_of_def)
  show ?thesis
  proof (cases "passes_on env s ?s")
    case True
    then have "approved_text env (es @ [Call c]) x" if "x \<in> grant_clients (os_refresh ?s)" for x
      using old True that unfolding passes_on_def holders_def by blast
    moreover have "approved_text env (es @ [Call c]) x" if "x \<in> file_holders (os_disk ?s)" for x
    proof -
      have "x \<in> file_holders (os_disk s) \<or> (\<exists>y \<in> holders s. x = en_json_text env y)"
        using True that by (auto simp: passes_on_def)
      then show ?thesis using old_disk approved_text_json [OF assms(1) old] by blast
    qed
    ultimately show ?thesis using codes by (simp add: provenance_def disk_provenance_def disk_of_def)
  next
    case False
    then obtain t k r where "c = Authorize t k r" using step_passes_on by blast
    then have "os_refresh ?s = os_refresh s" "os_disk ?s = os_disk s" using authorize_grants by simp_all
    then show ?thesis using codes old old_disk
      by (simp add: provenance_def disk_provenance_def disk_of_def holders_def)
  qed
qed

lemma load_grants_holders:
  assumes "load_grants now loaded pruned gs = Inr (loaded', pruned')"
  shows "grant_clients loaded' \<subseteq> grant_clients loaded \<union> sg_client ` set gs"
  using assms
proof (induction now loaded pruned gs rule: load_grants.induct)
  case (2 now loaded pruned g gs)
  have app: "grant_clients (loaded @ [(sg_hash g, x)]) = insert (gr_client x) (grant_clients loaded)" for x
    by (simp add: grant_clients_def)
  show ?case
  proof (cases "sg_expires g > now")
    case True
    then show ?thesis using 2(3) 2(2) by (auto simp: app split: if_splits)
  next
    case False
    then show ?thesis using 2(3) 2(1) by (auto split: if_splits)
  qed
qed simp

lemma load_refresh_holders:
  assumes "load_refresh env readable now saved s = (s', r)"
  shows "os_codes s' = os_codes s \<and> os_persist s' = os_persist s \<and>
     grant_clients (os_refresh s') \<subseteq> grant_clients (os_refresh s) \<union> file_holders (os_disk s) \<and>
     file_holders (os_disk s') \<subseteq> file_holders (os_disk s) \<union> en_json_text env ` file_holders (os_disk s)"
proof (cases "\<exists>f loaded pruned. os_disk s = Some f \<and> readable \<and> rf_version f = 1 \<and>
    load_grants now [] False (rf_grants f) = Inr (loaded, pruned)")
  case True
  then obtain f loaded pruned where f: "os_disk s = Some f" "readable" "rf_version f = 1"
    "load_grants now [] False (rf_grants f) = Inr (loaded, pruned)" by blast
  then have m: "grant_clients loaded \<subseteq> file_holders (os_disk s)"
    using load_grants_holders [OF f(4)] by (simp add: file_holders_def grant_clients_def)
  let ?s1 = "s\<lparr>os_refresh := loaded\<rparr>"
  obtain d where d: "fst (save_refresh env saved ?s1) = ?s1\<lparr>os_disk := d\<rparr>"
      "d = os_disk s \<or> d = Some (refresh_store env loaded)"
    using save_refresh_effect [of env saved ?s1] by auto
  have "file_holders d \<subseteq> file_holders (os_disk s) \<union> en_json_text env ` file_holders (os_disk s)"
    using d(2) file_holders_store [of env loaded] image_mono [OF m, of "en_json_text env"] by auto
  moreover have "s' = s\<lparr>os_refresh := loaded, os_disk := (if pruned then d else os_disk s)\<rparr>"
    using assms f d(1) by (cases pruned) (auto simp: load_refresh_def Let_def case_prod_beta split: if_splits)
  ultimately show ?thesis using m by auto
next
  case False
  then have "s' = s" using assms by (auto simp: load_refresh_def Let_def split: option.splits if_splits sum.splits prod.splits)
  then show ?thesis by simp
qed

text \<open>What a start does: nothing, or it loads the grants of the file into a server without codes.\<close>

lemma build_cases:
  assumes "build_oauth_server env w cfg d = (d', r)"
  obtains (Early) "d' = d" "\<forall>s. r \<noteq> Inr (Some s)"
  | (Loaded) s1 s2 loaded where "os_codes s1 = []" "os_refresh s1 = []" "os_persist s1" "os_disk s1 = od_grants d"
      "load_refresh env (su_readable w) (su_clock w 0) (su_grants_saved w) s1 = (s2, loaded)" "od_grants d' = os_disk s2"
      "\<forall>s. r = Inr (Some s) \<longrightarrow> d' = disk_of s \<and> os_codes s = os_codes s2 \<and> os_refresh s = os_refresh s2 \<and>
         os_persist s = os_persist s2 \<and> os_disk s = os_disk s2"
proof (cases "wants_oauth cfg")
  case False
  then show ?thesis using assms by (intro Early) (auto simp: build_oauth_server_def)
next
  case True
  show ?thesis
  proof (cases "configured_secret w cfg")
    case (Inl e)
    then show ?thesis using assms True by (intro Early) (auto simp: build_oauth_server_def Let_def)
  next
    case (Inr secret)
    define s0 where "s0 = new_server (if trim_space (af_password cfg) = [] then su_password w else trim_space (af_password cfg))
      (trim_space (af_server_url cfg)) secret (oauth_token_ttl (af_ttl cfg)) (od_clients d) (od_grants d)"
    have s0: "os_codes s0 = []" "os_refresh s0 = []" "os_disk s0 = od_grants d" by (simp_all add: s0_def new_server_def)
    note b = assms [unfolded build_oauth_server_def Let_def, simplified True Inr]
    show ?thesis
    proof (cases "set_persist_path ''oauth-clients.json'' (su_readable w) (os_registry s0)")
      case (Inl e)
      then show ?thesis using b by (intro Early) (auto simp: s0_def)
    next
      case reg: (Inr reg)
      let ?s1 = "s0\<lparr>os_registry := reg, os_persist := True\<rparr>"
      have "trim_space ''oauth-refresh-grants.json'' \<noteq> []" by code_simp
      then have path: "set_refresh_persist_path env ''oauth-refresh-grants.json'' (su_readable w) (su_clock w 0)
          (su_grants_saved w) (s0\<lparr>os_registry := reg\<rparr>) = load_refresh env (su_readable w) (su_clock w 0) (su_grants_saved w) ?s1"
        by (simp add: set_refresh_persist_path_def)
      obtain s2 loaded where l1: "load_refresh env (su_readable w) (su_clock w 0) (su_grants_saved w) ?s1 = (s2, loaded)"
        by fastforce
      note l2 = path [unfolded l1]
      have "od_grants d' = os_disk s2 \<and> (\<forall>s. r = Inr (Some s) \<longrightarrow> d' = disk_of s \<and> os_codes s = os_codes s2 \<and>
         os_refresh s = os_refresh s2 \<and> os_persist s = os_persist s2 \<and> os_disk s = os_disk s2)"
      proof (cases loaded)
        case (Inl e)
        then show ?thesis using b reg l2 by (auto simp: s0_def disk_of_def)
      next
        case loaded: (Inr u)
        obtain reg2 added where a: "start_client env w cfg (os_registry s2) = (reg2, added)" by fastforce
        show ?thesis using b reg l2 loaded a by (auto simp: s0_def disk_of_def split: sum.splits)
      qed
      then show ?thesis by (intro Loaded [OF _ _ _ _ l1]) (simp_all add: s0)
    qed
  qed
qed

lemma build_effect:
  assumes "build_oauth_server env w cfg d = (d', r)"
  shows "file_holders (od_grants d') \<subseteq>
      file_holders (od_grants d) \<union> en_json_text env ` file_holders (od_grants d) \<and>
    (\<forall>s. r = Inr (Some s) \<longrightarrow> os_codes s = [] \<and> os_persist s \<and> d' = disk_of s \<and>
       grant_clients (os_refresh s) \<subseteq> file_holders (od_grants d))"
  using assms
proof (cases rule: build_cases)
  case (Loaded s1 s2 loaded)
  show ?thesis using load_refresh_holders [OF Loaded(5)] Loaded(1-4,6,7) by (simp add: grant_clients_def)
qed auto

lemma oauth_run_provenance:
  assumes "text_law env" "list_all event_ok es"
  shows "disk_provenance env es (fst (oauth_run env es)) \<and>
     (\<forall>s. snd (oauth_run env es) = Some s \<longrightarrow> provenance env es s)"
proof (rule oauth_run_invariant [where D = "disk_provenance env" and S = "provenance env", OF _ _ _ _ assms(2)])
  show "disk_provenance env [] empty_disk" by (simp add: disk_provenance_def empty_disk_def file_holders_def)
  show "disk_provenance env (es @ [Call c]) d" if "disk_provenance env es d" for es d c
    using that approved_text_snoc by (simp add: disk_provenance_def)
  show "provenance env (es @ [Call c]) (oauth_step env c s) \<and>
      disk_provenance env (es @ [Call c]) (disk_of (oauth_step env c s))"
    if "snd (oauth_run env es) = Some s" "provenance env es s" "disk_provenance env es (disk_of s)" for es c s
    by (rule step_provenance [OF assms(1) that])
  show "disk_provenance env (es @ [Start w cfg]) d' \<and> (\<forall>s. r = Inr (Some s) \<longrightarrow> provenance env (es @ [Start w cfg]) s)"
    if d: "disk_provenance env es d" and b: "build_oauth_server env w cfg d = (d', r)" for es w cfg d d' r
  proof -
    have old: "approved_text env (es @ [Start w cfg]) x" if "x \<in> file_holders (od_grants d)" for x
      using d that by (intro approved_text_snoc) (simp add: disk_provenance_def)
    have new: "approved_text env (es @ [Start w cfg]) x" if "x \<in> file_holders (od_grants d')" for x
    proof -
      have "x \<in> file_holders (od_grants d) \<or> (\<exists>y \<in> file_holders (od_grants d). x = en_json_text env y)"
        using build_effect [OF b] that by blast
      then show ?thesis using old approved_text_json [OF assms(1) old] by blast
    qed
    have "provenance env (es @ [Start w cfg]) s" if "r = Inr (Some s)" for s
      using build_effect [OF b] that old by (auto simp: provenance_def)
    then show ?thesis using new by (simp add: disk_provenance_def)
  qed
qed

section \<open>Tokens need the password\<close>

text \<open>A world for the witnesses: a digest that is the start of its text, and one token.\<close>

definition sample_url :: "bytes \<Rightarrow> url option" where
  "sample_url s = (if has_prefix s ''https://''
     then Some \<lparr>u_scheme = ''https'', u_host = ''a'', u_hostname = ''a'', u_fragment = [], u_user = False, u_escaped_path = []\<rparr>
     else None)"

definition sample_sha :: "bytes \<Rightarrow> bytes" where
  "sample_sha s = take 64 (hex_encode s @ replicate 64 (CHR ''0''))"

definition sample_claims :: access_claims where
  "sample_claims = \<lparr>ac_issuer = ''https://m'', ac_audience = ''https://m/mcp'', ac_subject = ''app'', ac_client = ''app'',
     ac_issued = 0, ac_expires = 3600, ac_scope = ''mcp''\<rparr>"

definition sample_sign :: "bytes \<Rightarrow> access_claims \<Rightarrow> bytes option" where
  "sample_sign secret c = (if c = sample_claims then Some ''jwt'' else None)"

definition sample_verify :: "bytes \<Rightarrow> int \<Rightarrow> bytes \<Rightarrow> bytes \<Rightarrow> bytes \<Rightarrow> access_claims option" where
  "sample_verify secret now iss aud tok =
     (if tok = ''jwt'' \<and> iss = ''https://m'' \<and> aud = ''https://m/mcp'' \<and> now < 3600 * 1000000000
      then Some sample_claims else None)"

definition sample_library :: oauth_env where
  "sample_library = \<lparr>en_parse = sample_url, en_sha = sample_sha, en_s256 = (\<lambda>v. take 43 v), en_json_text = (\<lambda>s. s),
     en_json = (\<lambda>s. None), en_web = (\<lambda>now u. None), en_sign = sample_sign,
     en_verify = sample_verify, en_base64 = (\<lambda>s. None), en_unescape = (\<lambda>s. s),
     en_with_query = (\<lambda>u q. Some u)\<rparr>"

definition sample_config :: auth_config where
  "sample_config = \<lparr>af_mode = ''oauth'', af_token = [], af_password = ''pw'', af_server_url = ''https://m'',
     af_token_secret = replicate 64 (CHR ''a''), af_client_id = ''app'', af_redirects = [''https://a/cb''],
     af_client_secret = [], af_ttl = 3600, af_trust_proxy = False\<rparr>"

definition sample_start :: startup where
  "sample_start = \<lparr>su_password = ''x'', su_secret = None, su_readable = True, su_clients_saved = True,
     su_grants_saved = Stored, su_clock = (\<lambda>k. 5)\<rparr>"

definition sample_verifier :: bytes where
  "sample_verifier = replicate 43 (CHR ''v'')"

definition sample_form :: "(bytes \<times> bytes) list \<Rightarrow> bytes \<Rightarrow> bytes" where
  "sample_form vs k = (case map_of vs k of None \<Rightarrow> [] | Some v \<Rightarrow> v)"

definition sample_http :: "(bytes \<times> bytes) list \<Rightarrow> http_request" where
  "sample_http vs = \<lparr>hr_method = ''POST'', hr_tls = True, hr_host = ''m'', hr_forwarded_proto = [], hr_forwarded_host = [],
     hr_authorization = [], hr_path = [], hr_form_ok = True, hr_form = sample_form vs, hr_query = (\<lambda>k. []), hr_body = None\<rparr>"

definition sample_approval_form :: "(bytes \<times> bytes) list" where
  "sample_approval_form = [(''client_id'', ''app''), (''redirect_uri'', ''https://a/cb''), (''code_challenge'', sample_verifier),
     (''password'', ''pw'')]"

definition sample_code_form :: "(bytes \<times> bytes) list" where
  "sample_code_form = [(''grant_type'', ''authorization_code''), (''client_id'', ''app''), (''code'', ''c1''),
     (''redirect_uri'', ''https://a/cb''), (''code_verifier'', sample_verifier)]"

definition sample_run :: "(nat \<Rightarrow> bytes) \<Rightarrow> token_run" where
  "sample_run ids = \<lparr>tr_ids = ids, tr_clock = (\<lambda>k. 7), tr_order = (\<lambda>m. m), tr_saved = Stored\<rparr>"

definition sample_events :: "oauth_event list" where
  "sample_events = [Start sample_start sample_config,
     Call (Authorize (\<lambda>k. 6) ''c1'' (sample_http sample_approval_form))]"

lemma sample_laws: "text_law sample_library" "digest_law sample_library"
proof -
  show "text_law sample_library" by (simp add: text_law_def sample_library_def)
  have digit: "hex_char (hex_lower d)" if "d < 16" for d
    using that by (simp add: hex_char_def code_between_def hex_lower_def)
  have "list_all hex_char (hex_pair c)" for c
    using digit [OF of_char_less_16 [of c]] digit [of "of_char c mod 16"] by (simp add: hex_pair_def)
  then have "list_all hex_char (hex_encode s)" for s
    by (simp add: hex_encode_def list_all_iff)
  moreover have "hex_char (CHR ''0'')" by code_simp
  ultimately have "list_all hex_char (hex_encode s @ replicate 64 (CHR ''0''))" for s by (simp add: list_all_iff)
  then have "list_all hex_char (sample_sha s)" for s unfolding sample_sha_def list_all_iff by (meson in_set_takeD)
  then have "valid_token_hash (sample_sha s)" for s by (simp add: valid_token_hash_def sample_sha_def)
  then show "digest_law sample_library" by (simp add: digest_law_def sample_library_def)
qed

lemma sample_events_run: "snd (oauth_run sample_library sample_events) \<noteq> None"
  by code_simp


lemma sample_token:
  "let s = the (snd (oauth_run sample_library sample_events)) in
   map_option (\<lambda>x. snd x) (handle_token sample_library (sample_run (\<lambda>k. ''r'')) (sample_http sample_code_form) s) =
     Some (token_reply ''jwt'' 3600 ''r'')"
  by code_simp

text \<open>C1: Whatever has happened before, starts, restarts, registrations, failed saves, a client only gets an
  access token (for a code or for a refresh token) if at some time the authorization endpoint was sent
  the server's password for this client.\<close>

theorem tokens_need_the_password:
  assumes "text_law env" "list_all event_ok es" "snd (oauth_run env es) = Some s"
    "handle_token env w r s = Some (s', Json_Reply 200 reply)"
  shows "\<exists>cid. approved env es cid \<and> fst (client_auth env r) \<in> {cid, en_json_text env cid}"
proof -
  have "fst (client_auth env r) \<in> holders s" using handle_token_passes_on [OF assms(4)] by blast
  moreover have "provenance env es s" using oauth_run_provenance [OF assms(1,2)] assms(3) by blast
  ultimately have "approved_text env es (fst (client_auth env r))" by (rule provenance_holders [rotated])
  then show ?thesis by (simp add: approved_text_def)
qed

lemma tokens_need_the_password_witness:
  "\<exists>s s' reply. snd (oauth_run sample_library sample_events) = Some s \<and>
     handle_token sample_library (sample_run (\<lambda>k. ''r'')) (sample_http sample_code_form) s = Some (s', Json_Reply 200 reply) \<and>
     approved sample_library sample_events ''app''"
proof -
  let ?r = "sample_http sample_code_form"
  obtain s where s: "snd (oauth_run sample_library sample_events) = Some s" using sample_events_run by blast
  obtain s' where h: "handle_token sample_library (sample_run (\<lambda>k. ''r'')) ?r s = Some (s', token_reply ''jwt'' 3600 ''r'')"
    using sample_token unfolding Let_def s by auto
  have ok: "list_all event_ok sample_events" by (simp add: sample_events_def)
  have cid: "fst (client_auth sample_library ?r) = ''app''" by code_simp
  have "\<exists>cid. approved sample_library sample_events cid \<and> fst (client_auth sample_library ?r) \<in> {cid, en_json_text sample_library cid}"
    using tokens_need_the_password [OF sample_laws(1) ok s h [unfolded token_reply_def]] .
  then have "approved sample_library sample_events ''app''" unfolding cid by (auto simp: sample_library_def)
  then show ?thesis using s h unfolding token_reply_def by blast
qed

text \<open>C5: A code is only redeemed by the client, with the redirect URI and the proof key, of the approval that
  created it, and within five minutes of it.\<close>

theorem codes_redeem_their_approval:
  assumes "text_law env" "list_all event_ok es" "snd (oauth_run env es) = Some s"
    "exchange_code env t code uri cid verifier resource s = (s', Inr (tok, ttl))"
  shows "\<exists>challenge deadline. approves env es cid uri challenge code deadline \<and>
     verify_s256 env verifier challenge \<and> t 0 \<le> deadline"
proof -
  obtain ac where ac: "(code, ac) \<in> set (os_codes s)" "co_client ac = cid" "co_redirect ac = uri" "t 0 \<le> co_expires ac"
      "verify_s256 env verifier (co_challenge ac)"
    by (rule exchange_code_Inr [OF assms(4)])
  have "provenance env es s" using oauth_run_provenance [OF assms(1,2)] assms(3) by blast
  then have "approves env es cid uri (co_challenge ac) code (co_expires ac)" using ac(1-3) by (auto simp: provenance_def)
  then show ?thesis using ac(4,5) by blast
qed

lemma codes_redeem_their_approval_witness:
  "\<exists>s' deadline. exchange_code sample_library (\<lambda>k. 9) ''c1'' ''https://a/cb'' ''app'' sample_verifier []
       (the (snd (oauth_run sample_library sample_events))) = (s', Inr (''jwt'', 3600)) \<and>
     (\<exists>challenge. approves sample_library sample_events ''app'' ''https://a/cb'' challenge ''c1'' deadline) \<and> 9 \<le> deadline"
proof -
  let ?x = "exchange_code sample_library (\<lambda>k. 9) ''c1'' ''https://a/cb'' ''app'' sample_verifier []
    (the (snd (oauth_run sample_library sample_events)))"
  obtain s where s: "snd (oauth_run sample_library sample_events) = Some s" using sample_events_run by blast
  have "snd ?x = Inr (''jwt'', 3600)" by code_simp
  then obtain s' where x: "?x = (s', Inr (''jwt'', 3600))" by (metis surj_pair snd_conv)
  have ok: "list_all event_ok sample_events" by (simp add: sample_events_def)
  show ?thesis
    using codes_redeem_their_approval [OF sample_laws(1) ok s x [unfolded s option.sel]] x by blast
qed

text \<open>C30: Every client the server knows, registered, preregistered, reloaded from its file or named by a metadata
  document, has the identifier it is known by, between one and ten distinct redirect URIs that are https or
  loopback http, an authentication method the server offers, and a secret exactly when the method needs one.\<close>

theorem known_clients_are_well_formed:
  assumes "digest_law env" "list_all event_ok es" "snd (oauth_run env es) = Some s"
    "resolve_client env t cid s = (s', Inr c)"
  shows "oc_id c = cid \<and> redirects_ok env (oc_redirects c) \<and> oc_method c \<in> set client_methods \<and>
     (oc_digest c = [] \<longleftrightarrow> oc_method c = ''none'')"
proof -
  have "server_ok env s" using oauth_run_ok [OF assms(1,2)] assms(3) by blast
  then have "oc_id c = cid \<and> client_ok env c"
    using resolve_client_known [of env s t cid c] assms(4) by (simp add: server_ok_def)
  then show ?thesis by (simp add: client_ok_def)
qed

lemma known_clients_are_well_formed_witness:
  "\<exists>s c. resolve_client sample_library (\<lambda>k. 9) ''app'' (the (snd (oauth_run sample_library sample_events))) = (s, Inr c) \<and>
     redirects_ok sample_library (oc_redirects c)"
proof -
  let ?x = "resolve_client sample_library (\<lambda>k. 9) ''app'' (the (snd (oauth_run sample_library sample_events)))"
  obtain s where s: "snd (oauth_run sample_library sample_events) = Some s" using sample_events_run by blast
  have "is_ok (snd ?x)" by code_simp
  then obtain c s' where x: "?x = (s', Inr c)" by (metis is_ok_iff surj_pair snd_conv)
  have ok: "list_all event_ok sample_events" by (simp add: sample_events_def)
  show ?thesis
    using known_clients_are_well_formed [OF sample_laws(2) ok s x [unfolded s option.sel]] x by blast
qed

text \<open>C31: In every state at most 256 codes and 4096 refresh grants are pending, each under one key, and the
  file holds no more.\<close>

theorem pending_grants_are_bounded:
  assumes "digest_law env" "list_all event_ok es" "snd (oauth_run env es) = Some s"
  shows "length (os_codes s) \<le> max_pending_codes \<and> length (os_refresh s) \<le> max_refresh_tokens \<and>
     distinct (map fst (os_codes s)) \<and> distinct (map fst (os_refresh s)) \<and> grants_disk_ok (os_disk s)"
proof -
  have "server_ok env s" using oauth_run_ok [OF assms(1,2)] assms(3) by blast
  then show ?thesis by (simp add: server_ok_def codes_ok_def refresh_ok_def)
qed

lemma pending_grants_are_bounded_witness:
  "\<exists>s. snd (oauth_run sample_library sample_events) = Some s \<and> length (os_codes s) = 1 \<and>
     length (os_codes s) \<le> max_pending_codes"
proof -
  obtain s where s: "snd (oauth_run sample_library sample_events) = Some s" using sample_events_run by blast
  have ok: "list_all event_ok sample_events" by (simp add: sample_events_def)
  have "length (os_codes (the (snd (oauth_run sample_library sample_events)))) = 1" by code_simp
  then show ?thesis using pending_grants_are_bounded [OF sample_laws(2) ok s] s by simp
qed

end
