(* ===== verification/Oauth_Grants.thy ===== *)
theory Oauth_Grants
  imports Oauth_Safety
begin

text \<open>
  Codes and refresh tokens as items that are taken once (the contract of \<open>Pending_Contract\<close>), over whole
  runs with starts and failed saves: a code is spent by the first request that names it, a refresh
  token by the rotation that answers it. A refresh token is known by the digest of its text; it lives in
  the memory of the server and in the file a start reads.
\<close>

section \<open>Requests that spend a code\<close>

definition with_code :: "bytes \<Rightarrow> http_request \<Rightarrow> http_request" where
  "with_code code r = r\<lparr>hr_form := (hr_form r)(''grant_type'' := ''authorization_code'', ''code'' := code)\<rparr>"

definition with_refresh :: "bytes \<Rightarrow> http_request \<Rightarrow> http_request" where
  "with_refresh token r = r\<lparr>hr_form := (hr_form r)(''grant_type'' := ''refresh_token'', ''refresh_token'' := token)\<rparr>"

text \<open>A request for a token in a run, and the token it gets.\<close>

fun token_answer :: "http_response \<Rightarrow> (bytes \<times> json) list option" where
  "token_answer (Json_Reply status reply) = (if status = 200 then Some reply else None)"
| "token_answer _ = None"

definition ask_token :: "oauth_env \<Rightarrow> token_run \<Rightarrow> http_request \<Rightarrow> oauth_world \<Rightarrow>
    oauth_world \<times> (bytes \<times> json) list option" where
  "ask_token env w r x =
     (case snd x of
        None \<Rightarrow> (x, None)
      | Some s \<Rightarrow>
          (case handle_token env w r s of
             None \<Rightarrow> (x, None)
           | Some (s', resp) \<Rightarrow> ((disk_of s', Some s'), token_answer resp)))"

fun take_code :: "oauth_env \<Rightarrow> bytes \<Rightarrow> token_run \<times> http_request \<Rightarrow> oauth_world \<Rightarrow>
    oauth_world \<times> (bytes \<times> json) list option" where
  "take_code env code (w, r) x = ask_token env w (with_code code r) x"

fun take_refresh :: "oauth_env \<Rightarrow> bytes \<Rightarrow> token_run \<times> http_request \<Rightarrow> oauth_world \<Rightarrow>
    oauth_world \<times> (bytes \<times> json) list option" where
  "take_refresh env token (w, r) x = ask_token env w (with_refresh token r) x"

lemma token_answer_Some: "token_answer resp = Some reply \<longleftrightarrow> resp = Json_Reply 200 reply"
  by (cases resp) auto

lemma ask_token_cases:
  obtains (Nothing) "ask_token env w r x = (x, None)"
  | (Asked) s s' resp where "snd x = Some s" "handle_token env w r s = Some (s', resp)"
      "ask_token env w r x = ((disk_of s', Some s'), token_answer resp)"
  by (cases "snd x"; cases "handle_token env w r (the (snd x))") (auto simp: ask_token_def)

section \<open>Codes\<close>

definition code_live :: "bytes \<Rightarrow> oauth_world \<Rightarrow> bool" where
  "code_live code x \<longleftrightarrow> (case snd x of None \<Rightarrow> False | Some s \<Rightarrow> code \<in> fst ` set (os_codes s))"

fun code_opens :: "oauth_event \<Rightarrow> bytes \<Rightarrow> bool" where
  "code_opens (Call (Authorize t new_code r)) code \<longleftrightarrow> new_code = code"
| "code_opens _ code \<longleftrightarrow> False"

lemma code_request_spends:
  assumes "handle_token env w (with_code code r) s = Some (s', Json_Reply 200 reply)"
  shows "code \<in> fst ` set (os_codes s) \<and> code \<notin> fst ` set (os_codes s')"
  using assms
proof (cases rule: handle_token_cases)
  case (Code s1)
  note s1 = only_cache_fields [OF Code(1)]
  from Code(2) show ?thesis
  proof (cases rule: code_grant_request_cases)
    case (Exchanged s2 tok ttl res issued)
    have code: "hr_form (with_code code r) ''code'' = code" by (simp add: with_code_def)
    from Exchanged(1) [unfolded code] obtain ac where
      ac: "(code, ac) \<in> set (os_codes s1)" "s2 = s1\<lparr>os_codes := AList.delete code (os_codes s1)\<rparr>"
      by (rule exchange_code_Inr)
    have "os_codes s' = AList.delete code (os_codes s1)" using issue_refresh_frame [OF Exchanged(2)] ac(2) by simp
    then show ?thesis using ac(1) s1 by (force simp: set_delete)
  qed simp
qed (simp_all add: with_code_def)

lemma handle_token_code_keys:
  "handle_token env w r s = Some (s', resp) \<Longrightarrow> fst ` set (os_codes s') \<subseteq> fst ` set (os_codes s)"
  using handle_token_codes by blast

lemma or_stay_cases:
  obtains "or_stay s r = s" | s' a where "r = Some (s', a)" "or_stay s r = s'"
  by (cases r) (auto simp: or_stay_def)

lemma register_code_keys: "code \<in> fst ` set (os_codes (oauth_step env (Register_Client saved ids now r) s)) \<Longrightarrow> code \<in> fst ` set (os_codes s)"
  by (rule or_stay_cases [of s "handle_register env saved ids now r s"]) (simp_all add: register_frame)

lemma authorize_code_keys: "code \<in> fst ` set (os_codes (oauth_step env (Authorize t new_code r) s)) \<Longrightarrow> code \<in> fst ` set (os_codes s) \<or> new_code = code"
proof -
  assume "code \<in> fst ` set (os_codes (oauth_step env (Authorize t new_code r) s))"
  then obtain ac where "(code, ac) \<in> set (os_codes (fst (handle_authorize env t new_code r s)))" by auto
  from authorize_codes [OF this] show ?thesis by force
qed

lemma run_event_codes:
  assumes "code_live code (run_event env x e)"
  shows "code_live code x \<or> code_opens e code"
proof (cases x)
  case (Pair d so)
  show ?thesis
  proof (cases e)
    case (Start w cfg)
    obtain d' r where b: "build_oauth_server env w cfg d = (d', r)" by fastforce
    show ?thesis using assms Start Pair b build_effect [OF b] by (auto simp: code_live_def split: sum.splits option.splits)
  next
    case (Call c)
    then obtain s where s: "so = Some s" "code \<in> fst ` set (os_codes (oauth_step env c s))"
      using assms Pair by (auto simp: code_live_def split: option.splits)
    then have "code \<in> fst ` set (os_codes s) \<or> code_opens e code"
    proof (cases c)
      case (Register_Client saved ids now r)
      then show ?thesis using s(2) register_code_keys by blast
    next
      case (Authorize t new_code r)
      then show ?thesis using s(2) Call authorize_code_keys by auto
    next
      case (Get_Token w r)
      then show ?thesis using s(2) handle_token_code_keys [of env w r s]
        by (cases rule: or_stay_cases [of s "handle_token env w r s"]) auto
    next
      case (Check_Access t cfg r)
      then show ?thesis using s only_cache_fields [OF gateway_frame] by metis
    qed
    then show ?thesis using Pair s(1) by (simp add: code_live_def)
  qed
qed

lemma take_code_live: "code_live code (fst (take_code env i t x)) \<Longrightarrow> code_live code x"
proof -
  assume live: "code_live code (fst (take_code env i t x))"
  obtain w r where t: "t = (w, r)" by fastforce
  show "code_live code x"
  proof (cases rule: ask_token_cases [of env w "with_code i r" x])
    case Nothing
    then show ?thesis using live t by simp
  next
    case (Asked s s' resp)
    have "code \<in> fst ` set (os_codes s')" using live t Asked(3) by (simp add: code_live_def)
    then have "code \<in> fst ` set (os_codes s)" using handle_token_code_keys [OF Asked(2)] by blast
    then show ?thesis using Asked(1) by (simp add: code_live_def)
  qed
qed

interpretation codes: one_shot "\<lambda>x. True" "take_code env" code_live "\<lambda>e x. run_event env x e" code_opens "\<lambda>t i. False"
  for env
proof unfold_locales
  fix x :: oauth_world and code i e and t :: "token_run \<times> http_request"
  obtain w r where t: "t = (w, r)" by fastforce
  show "code_live code x" if "snd (take_code env code t x) \<noteq> None"
    using that t
    by (cases rule: ask_token_cases [of env w "with_code code r" x])
      (auto simp: code_live_def token_answer_Some dest!: code_request_spends)
  show "\<not> code_live code (fst (take_code env code t x))" if "snd (take_code env code t x) \<noteq> None"
    using that t
    by (cases rule: ask_token_cases [of env w "with_code code r" x])
      (auto simp: code_live_def token_answer_Some dest!: code_request_spends)
  show "code_live code x \<or> False" if "code_live code (fst (take_code env i t x))"
    using that take_code_live by blast
  show "code_live code (run_event env x e) \<Longrightarrow> code_live code x \<or> code_opens e code" by (rule run_event_codes)
qed simp_all


section \<open>Refresh tokens\<close>

definition file_keys :: "refresh_file option \<Rightarrow> bytes set" where
  "file_keys d = (case d of None \<Rightarrow> {} | Some f \<Rightarrow> sg_hash ` set (rf_grants f))"

definition grant_keys :: "oauth_server \<Rightarrow> bytes set" where
  "grant_keys s = fst ` set (os_refresh s)"

definition drawn_keys :: "oauth_env \<Rightarrow> token_run \<Rightarrow> bytes set" where
  "drawn_keys env w = en_sha env ` range (tr_ids w)"

definition refresh_live :: "oauth_env \<Rightarrow> bytes \<Rightarrow> oauth_world \<Rightarrow> bool" where
  "refresh_live env token x \<longleftrightarrow> en_sha env token \<in> file_keys (od_grants (fst x)) \<or>
     (\<exists>s. snd x = Some s \<and> en_sha env token \<in> grant_keys s)"

fun refresh_opens :: "oauth_env \<Rightarrow> oauth_event \<Rightarrow> bytes \<Rightarrow> bool" where
  "refresh_opens env (Call (Get_Token w r)) token \<longleftrightarrow> en_sha env token \<in> drawn_keys env w"
| "refresh_opens env _ token \<longleftrightarrow> False"

fun refresh_spawns :: "oauth_env \<Rightarrow> token_run \<times> http_request \<Rightarrow> bytes \<Rightarrow> bool" where
  "refresh_spawns env (w, r) token \<longleftrightarrow> en_sha env token \<in> drawn_keys env w"

definition world_ok :: "oauth_world \<Rightarrow> bool" where
  "world_ok x \<longleftrightarrow> (\<forall>s. snd x = Some s \<longrightarrow> fst x = disk_of s \<and> os_persist s)"

lemma file_keys_store: "file_keys (Some (refresh_store env m)) = fst ` set m"
  by (simp add: file_keys_def refresh_store_def persisted_grant_def image_image)

lemma file_after_keys:
  assumes "file_after env s m d" "fst ` set m \<subseteq> K"
  shows "file_keys d \<subseteq> file_keys (os_disk s) \<union> K"
proof -
  have "file_keys d = file_keys (os_disk s) \<or> file_keys d = fst ` set m"
    using assms(1) file_keys_store [of env m] by (auto simp only: file_after_def)
  then show ?thesis using assms(2) by blast
qed

lemma evicted_keys: "fst ` set (os_refresh (evict_oldest order (prune_refresh now s))) \<subseteq> grant_keys s"
  by (auto simp: grant_keys_def evict_oldest_def prune_refresh_def Let_def set_delete)

lemma issue_refresh_keys:
  assumes "issue_refresh env order ids t saved cid resource scope s = Some (s', r)"
  shows "grant_keys s' \<subseteq> grant_keys s \<union> en_sha env ` range ids \<and>
     file_keys (os_disk s') \<subseteq> file_keys (os_disk s) \<union> (grant_keys s \<union> en_sha env ` range ids)"
  using assms
proof (cases rule: issue_refresh_cases)
  case (Failed tok g d)
  have "file_keys d \<subseteq> file_keys (os_disk s) \<union> (grant_keys s \<union> en_sha env ` range ids)"
    by (rule file_after_keys [OF Failed(3)]) (unfold keys_update, use Failed(5) evicted_keys [of order "t 0" s] in blast)
  then show ?thesis using Failed(2) by (simp add: grant_keys_def)
next
  case (Issued tok g d)
  have keys: "fst ` set (os_refresh s') \<subseteq> grant_keys s \<union> en_sha env ` range ids"
  proof -
    have "os_refresh s' = AList.update (en_sha env tok) g (os_refresh (evict_oldest order (prune_refresh (t 0) s)))"
      using Issued(2) by simp
    then show ?thesis using Issued(8) evicted_keys [of order "t 0" s] by (simp only: keys_update) blast
  qed
  show ?thesis using keys file_after_keys [OF Issued(3) keys] Issued(2) by (simp add: grant_keys_def)
qed

lemma exchange_refresh_keys:
  assumes "exchange_refresh env ids t saved token cid resource s = Some (s', r)"
  shows "grant_keys s' \<subseteq> grant_keys s \<union> en_sha env ` range ids \<and>
     file_keys (os_disk s') \<subseteq> file_keys (os_disk s) \<union> (grant_keys s \<union> en_sha env ` range ids) \<and>
     (is_ok r \<longrightarrow> en_sha env token \<in> grant_keys s \<and>
       (en_sha env token \<notin> en_sha env ` range ids \<longrightarrow> os_persist s \<longrightarrow>
         en_sha env token \<notin> grant_keys s' \<and> en_sha env token \<notin> file_keys (os_disk s')))"
  using assms
proof (cases rule: exchange_refresh_cases)
  case (Refused e)
  then show ?thesis by auto
next
  case (Failed g tok g' d)
  have "file_keys d \<subseteq> file_keys (os_disk s) \<union> (grant_keys s \<union> en_sha env ` range ids)"
    by (rule file_after_keys [OF Failed(5)]) (use Failed(7) in \<open>auto simp: keys_update set_delete grant_keys_def\<close>)
  then show ?thesis using Failed(1,2) by (simp add: grant_keys_def)
next
  case (Rotated g tok next_tok g' d)
  have k: "fst ` set (os_refresh s') = insert (en_sha env next_tok) (fst ` set (AList.delete (en_sha env token) (os_refresh s)))"
    using Rotated(5) by (simp add: keys_update)
  have gone: "en_sha env token \<notin> fst ` set (AList.delete (en_sha env token) (os_refresh s))" by (auto simp: set_delete)
  have sub: "fst ` set (os_refresh s') \<subseteq> grant_keys s \<union> en_sha env ` range ids"
    unfolding k using Rotated(11) by (auto simp: set_delete grant_keys_def)
  have disk: "file_keys (os_disk s') = fst ` set (os_refresh s')" if "os_persist s"
  proof -
    have "os_disk s' = d" using Rotated(5) by simp
    then show ?thesis using Rotated(7) that file_keys_store [of env "os_refresh s'"] by simp
  qed
  have "en_sha env token \<notin> fst ` set (os_refresh s')" if "en_sha env token \<notin> en_sha env ` range ids"
    unfolding k using gone Rotated(11) that by (metis imageI insert_iff)
  moreover have "en_sha env token \<in> grant_keys s" using map_of_key [OF Rotated(2)] by (simp add: grant_keys_def)
  ultimately show ?thesis
    using sub file_after_keys [OF Rotated(6) sub] Rotated(5) disk by (simp add: grant_keys_def)
qed

definition known_keys :: "oauth_server \<Rightarrow> bytes set" where
  "known_keys s = grant_keys s \<union> file_keys (os_disk s)"

lemma known_keys_cache: "only_cache env s s' \<Longrightarrow> known_keys s' = known_keys s"
  by (simp add: known_keys_def grant_keys_def only_cache_fields)

lemma exchange_code_keys: "known_keys (fst (exchange_code env t code uri cid verifier resource s)) = known_keys s"
  by (cases rule: exchange_code_cases [of s code env t uri cid verifier resource])
    (simp_all add: known_keys_def grant_keys_def)

lemma handle_token_keys:
  assumes "handle_token env w r s = Some (s', resp)"
  shows "known_keys s' \<subseteq> known_keys s \<union> drawn_keys env w"
  using assms
proof (cases rule: handle_token_cases)
  case Refused
  then show ?thesis using known_keys_cache by blast
next
  case (Code s1)
  note s1 = known_keys_cache [OF Code(1)]
  from Code(2) show ?thesis
  proof (cases rule: code_grant_request_cases)
    case Refused
    have "known_keys s' = known_keys s1" unfolding Refused(1) by (rule exchange_code_keys)
    then show ?thesis using s1 by blast
  next
    case (Exchanged s2 tok ttl res issued)
    have "known_keys s2 = known_keys s1" using exchange_code_keys Exchanged(1) by (metis fst_conv)
    then show ?thesis
      using issue_refresh_keys [OF Exchanged(2)] s1 unfolding known_keys_def drawn_keys_def by blast
  qed
next
  case (Refresh s1)
  note s1 = known_keys_cache [OF Refresh(1)]
  from Refresh(2) obtain res where "exchange_refresh env (tr_ids w) (later 6 (tr_clock w)) (tr_saved w)
      (hr_form r ''refresh_token'') (fst (client_auth env r)) (hr_form r ''resource'') s1 = Some (s', res)"
    by (rule refresh_request_exchange)
  from exchange_refresh_keys [OF this] show ?thesis using s1 unfolding known_keys_def drawn_keys_def by blast
qed

lemma refresh_request_spends:
  assumes "handle_token env w (with_refresh token r) s = Some (s', Json_Reply 200 reply)"
  shows "en_sha env token \<in> known_keys s \<and>
    (en_sha env token \<notin> drawn_keys env w \<longrightarrow> os_persist s \<longrightarrow> en_sha env token \<notin> known_keys s')"
  using assms
proof (cases rule: handle_token_cases)
  case (Refresh s1)
  note s1 = known_keys_cache [OF Refresh(1)] only_cache_fields(8) [OF Refresh(1)]
  have tok: "hr_form (with_refresh token r) ''refresh_token'' = token" by (simp add: with_refresh_def)
  from Refresh(2) obtain res where ex: "exchange_refresh env (tr_ids w) (later 6 (tr_clock w)) (tr_saved w)
      token (fst (client_auth env (with_refresh token r))) (hr_form (with_refresh token r) ''resource'') s1 = Some (s', res)"
      and "Json_Reply 200 reply = (case res of Inl e \<Rightarrow> Oauth_Failure 400 ''invalid_grant''
       | Inr (tok, ttl, next_tok) \<Rightarrow> token_reply tok ttl next_tok)"
    by (rule refresh_request_exchange [of env w "with_refresh token r", unfolded tok])
  then have "is_ok res" by (cases res) simp_all
  then show ?thesis using exchange_refresh_keys [OF ex] s1 by (auto simp: known_keys_def drawn_keys_def)
qed (simp_all add: with_refresh_def)

lemma oauth_step_persist: "os_persist (oauth_step env c s) = os_persist s"
proof (cases c)
  case (Register_Client saved ids now r)
  then show ?thesis using register_frame by (fastforce simp: or_stay_def split: option.splits)
next
  case (Authorize t new_code r)
  then show ?thesis using authorize_grants by simp
next
  case (Get_Token w r)
  then show ?thesis using handle_token_codes by (fastforce simp: or_stay_def split: option.splits)
next
  case (Check_Access t cfg r)
  then show ?thesis using only_cache_fields(8) [OF gateway_frame] by metis
qed

lemma world_ok_event: "world_ok x \<Longrightarrow> world_ok (run_event env x e)"
proof (cases x; cases e)
  fix d so w cfg
  assume x: "x = (d, so)" "e = Start w cfg"
  obtain d' r where b: "build_oauth_server env w cfg d = (d', r)" by fastforce
  show "world_ok (run_event env x e)"
    using x b build_effect [OF b] by (auto simp: world_ok_def split: sum.splits option.splits)
next
  fix d so c
  assume "world_ok x" "x = (d, so)" "e = Call c"
  then show "world_ok (run_event env x e)" by (auto simp: world_ok_def oauth_step_persist split: option.splits)
qed

lemma load_grants_keys:
  assumes "load_grants now loaded pruned gs = Inr (loaded', pruned')"
  shows "fst ` set loaded' \<subseteq> fst ` set loaded \<union> sg_hash ` set gs"
  using assms
proof (induction now loaded pruned gs rule: load_grants.induct)
  case (2 now loaded pruned g gs)
  show ?case
  proof (cases "sg_expires g > now")
    case True
    then show ?thesis using 2(3) 2(2) by (auto split: if_splits)
  next
    case False
    then show ?thesis using 2(3) 2(1) by (auto split: if_splits)
  qed
qed simp

lemma load_refresh_keys:
  assumes "load_refresh env readable now saved s = (s', r)"
  shows "known_keys s' \<subseteq> known_keys s"
proof (cases "\<exists>f loaded pruned. os_disk s = Some f \<and> readable \<and> rf_version f = 1 \<and>
    load_grants now [] False (rf_grants f) = Inr (loaded, pruned)")
  case True
  then obtain f loaded pruned where f: "os_disk s = Some f" "readable" "rf_version f = 1"
    "load_grants now [] False (rf_grants f) = Inr (loaded, pruned)" by blast
  then have m: "fst ` set loaded \<subseteq> file_keys (os_disk s)"
    using load_grants_keys [OF f(4)] by (simp add: file_keys_def)
  let ?s1 = "s\<lparr>os_refresh := loaded\<rparr>"
  obtain d where d: "fst (save_refresh env saved ?s1) = ?s1\<lparr>os_disk := d\<rparr>"
      "d = os_disk s \<or> d = Some (refresh_store env loaded)"
    using save_refresh_effect [of env saved ?s1] by auto
  have "file_keys d = file_keys (os_disk s) \<or> file_keys d = fst ` set loaded"
    using d(2) file_keys_store [of env loaded] by metis
  moreover have "s' = s\<lparr>os_refresh := loaded, os_disk := (if pruned then d else os_disk s)\<rparr>"
    using assms f d(1) by (cases pruned) (auto simp: load_refresh_def Let_def case_prod_beta split: if_splits)
  then have "grant_keys s' = fst ` set loaded" "os_disk s' = (if pruned then d else os_disk s)"
    by (simp_all add: grant_keys_def)
  ultimately have "grant_keys s' \<subseteq> file_keys (os_disk s)" "file_keys (os_disk s') \<subseteq> file_keys (os_disk s)"
    using m by (simp, cases pruned) (use m in auto)
  then show ?thesis unfolding known_keys_def by blast
next
  case False
  then have "s' = s" using assms by (auto simp: load_refresh_def Let_def split: option.splits if_splits sum.splits prod.splits)
  then show ?thesis by simp
qed


lemma build_keys:
  assumes "build_oauth_server env w cfg d = (d', r)"
  shows "file_keys (od_grants d') \<subseteq> file_keys (od_grants d) \<and>
    (\<forall>s. r = Inr (Some s) \<longrightarrow> grant_keys s \<subseteq> file_keys (od_grants d))"
  using assms
proof (cases rule: build_cases)
  case (Loaded s1 s2 loaded)
  have "known_keys s1 = file_keys (od_grants d)" using Loaded(2,4) by (simp add: known_keys_def grant_keys_def)
  then have "known_keys s2 \<subseteq> file_keys (od_grants d)" using load_refresh_keys [OF Loaded(5)] by simp
  then show ?thesis using Loaded(6,7) by (simp add: known_keys_def grant_keys_def)
qed auto

lemma oauth_step_keys:
  assumes "en_sha env token \<in> known_keys (oauth_step env c s)"
  shows "en_sha env token \<in> known_keys s \<or> refresh_opens env (Call c) token"
proof (cases c)
  case (Register_Client saved ids now r)
  then show ?thesis using assms register_frame [of env saved ids now r s]
    by (cases rule: or_stay_cases [of s "handle_register env saved ids now r s"]) (simp_all add: known_keys_def grant_keys_def)
next
  case (Authorize t new_code r)
  then show ?thesis using assms authorize_grants by (simp add: known_keys_def grant_keys_def)
next
  case (Get_Token w r)
  then show ?thesis using assms handle_token_keys [of env w r s] by (auto simp: or_stay_def split: option.splits)
next
  case (Check_Access t cfg r)
  then show ?thesis using assms known_keys_cache [OF gateway_frame] by metis
qed

lemma refresh_live_server: "world_ok (d, Some s) \<Longrightarrow> refresh_live env token (d, Some s) \<longleftrightarrow> en_sha env token \<in> known_keys s"
  by (auto simp: refresh_live_def world_ok_def known_keys_def disk_of_def)

lemma refresh_live_disk: "refresh_live env token (disk_of s, Some s) \<longleftrightarrow> en_sha env token \<in> known_keys s"
  by (auto simp: refresh_live_def known_keys_def disk_of_def)

interpretation tokens: one_shot world_ok "take_refresh env" "refresh_live env" "\<lambda>e x. run_event env x e"
    "refresh_opens env" "refresh_spawns env"
  for env
proof unfold_locales
  fix x :: oauth_world and token i e and t :: "token_run \<times> http_request"
  assume ok: "world_ok x"
  obtain w r where t: "t = (w, r)" by fastforce
  have server: "refresh_live env j x \<longleftrightarrow> en_sha env j \<in> known_keys s" "os_persist s" if "snd x = Some s" for j s
    using ok that refresh_live_server [of "fst x" s] by (metis prod.collapse) (use ok that in \<open>simp add: world_ok_def\<close>)
  show "refresh_live env token x" if "snd (take_refresh env token t x) \<noteq> None"
    using that t server
    by (cases rule: ask_token_cases [of env w "with_refresh token r" x])
      (auto simp: token_answer_Some dest!: refresh_request_spends)
  show "\<not> refresh_live env token (fst (take_refresh env token t x))"
    if "snd (take_refresh env token t x) \<noteq> None" "\<not> refresh_spawns env t token"
    using that t server
    by (cases rule: ask_token_cases [of env w "with_refresh token r" x])
      (auto simp: token_answer_Some refresh_live_disk dest!: refresh_request_spends)
  show "refresh_live env token x \<or> refresh_spawns env t token" if "refresh_live env token (fst (take_refresh env i t x))"
    using that t server handle_token_keys
    by (cases rule: ask_token_cases [of env w "with_refresh i r" x]) (fastforce simp: refresh_live_disk)+
  show "world_ok (fst (take_refresh env token t x))"
    using ok t handle_token_codes
    by (cases rule: ask_token_cases [of env w "with_refresh token r" x]) (fastforce simp: world_ok_def)+
  show "world_ok (run_event env x e)" by (rule world_ok_event [OF ok])
  show "refresh_live env token x \<or> refresh_opens env e token" if "refresh_live env token (run_event env x e)"
  proof (cases e)
    case (Start v cfg)
    obtain d so where x: "x = (d, so)" by fastforce
    obtain d' r where b: "build_oauth_server env v cfg d = (d', r)" by fastforce
    show ?thesis using that Start x b build_keys [OF b] by (auto simp: refresh_live_def split: sum.splits option.splits)
  next
    case (Call c)
    obtain d so where x: "x = (d, so)" by fastforce
    show ?thesis
    proof (cases so)
      case None
      then show ?thesis using that Call x by simp
    next
      case (Some s)
      then have "en_sha env token \<in> known_keys (oauth_step env c s)" using that Call x refresh_live_disk by simp
      then show ?thesis using oauth_step_keys server x Some Call by auto
    qed
  qed
qed

section \<open>Used once\<close>

text \<open>A history of requests for tokens with a given code or refresh token among other events, and how often a
  given one is answered with a token.\<close>

type_synonym token_call = "(token_run \<times> http_request, oauth_event) pending_call"

fun codes_answered :: "oauth_env \<Rightarrow> bytes \<Rightarrow> token_call list \<Rightarrow> oauth_world \<Rightarrow> nat" where
  "codes_answered env code [] x = 0"
| "codes_answered env code (Take c t # cs) x =
     (if c = code \<and> snd (take_code env c t x) \<noteq> None then 1 else 0) + codes_answered env code cs (fst (take_code env c t x))"
| "codes_answered env code (Other e # cs) x = codes_answered env code cs (run_event env x e)"

fun tokens_answered :: "oauth_env \<Rightarrow> bytes \<Rightarrow> token_call list \<Rightarrow> oauth_world \<Rightarrow> nat" where
  "tokens_answered env token [] x = 0"
| "tokens_answered env token (Take c t # cs) x =
     (if c = token \<and> snd (take_refresh env c t x) \<noteq> None then 1 else 0) +
     tokens_answered env token cs (fst (take_refresh env c t x))"
| "tokens_answered env token (Other e # cs) x = tokens_answered env token cs (run_event env x e)"

text \<open>Drawing the same code, or a token with the same digest, again.\<close>

fun draws_code :: "bytes \<Rightarrow> token_call \<Rightarrow> bool" where
  "draws_code code (Take c t) \<longleftrightarrow> False"
| "draws_code code (Other e) \<longleftrightarrow> code_opens e code"

fun draws_token :: "oauth_env \<Rightarrow> bytes \<Rightarrow> token_call \<Rightarrow> bool" where
  "draws_token env token (Take c t) \<longleftrightarrow> refresh_spawns env t token"
| "draws_token env token (Other e) \<longleftrightarrow> refresh_opens env e token"

lemma codes_answered_taken: "codes_answered env code cs x = codes.taken env code cs x"
  by (induction env code cs x rule: codes_answered.induct) (simp_all add: codes.call.simps)

lemma draws_code_registers: "draws_code code c = codes.registers code c"
  by (cases c) simp_all

lemma tokens_answered_taken: "tokens_answered env token cs x = tokens.taken env token cs x"
  by (induction env token cs x rule: tokens_answered.induct) simp_all

lemma draws_token_registers: "draws_token env token c = tokens.registers env token c"
  by (cases c) simp_all

text \<open>C9: An authorization code is answered with a token at most once, in whatever history of requests,
  starts and approvals, unless a later approval draws the same code.\<close>

theorem codes_are_used_once:
  assumes "list_all (\<lambda>c. \<not> draws_code code c) cs"
  shows "codes_answered env code cs x \<le> 1"
  using codes.taken_once [OF TrueI] assms by (simp add: codes_answered_taken draws_code_registers)

lemma codes_are_used_once_witness:
  "let x = oauth_run sample_library sample_events;
       c = Take ''c1'' (sample_run (\<lambda>k. ''r''), sample_http sample_code_form) in
   codes_answered sample_library ''c1'' [c, c, Other (Start sample_start sample_config), c] x \<le> 1 \<and>
   codes_answered sample_library ''c1'' [c] x = 1"
proof -
  let ?x = "oauth_run sample_library sample_events"
  let ?c = "Take ''c1'' (sample_run (\<lambda>k. ''r''), sample_http sample_code_form) :: token_call"
  have "codes_answered sample_library ''c1'' [?c, ?c, Other (Start sample_start sample_config), ?c] ?x \<le> 1"
    by (rule codes_are_used_once) simp
  moreover have "codes_answered sample_library ''c1'' [?c] ?x = 1" by code_simp
  ultimately show ?thesis by (simp only: Let_def)
qed

definition sample_refresh_form :: "(bytes \<times> bytes) list" where
  "sample_refresh_form = [(''client_id'', ''app''), (''resource'', ''https://m/mcp'')]"

lemma oauth_run_world_ok: "world_ok (oauth_run env es)"
  by (induction es rule: rev_induct) (simp add: world_ok_def, simp add: world_ok_event)

text \<open>C7: A refresh token is answered with a token at most once, across rotations, failed saves and restarts
  from the file, unless a later token drawn has the same digest.\<close>

theorem refresh_tokens_are_used_once:
  assumes "list_all (\<lambda>c. \<not> draws_token env token c) cs"
  shows "tokens_answered env token cs (oauth_run env es) \<le> 1"
  using tokens.taken_once [OF oauth_run_world_ok] assms
  by (simp add: tokens_answered_taken draws_token_registers)

lemma refresh_tokens_are_used_once_witness:
  "let c = Take ''r'' (sample_run (\<lambda>k. ''q''), sample_http sample_refresh_form);
       es = sample_events @ [Call (Get_Token (sample_run (\<lambda>k. ''r'')) (sample_http sample_code_form))] in
   tokens_answered sample_library ''r'' [c, c, Other (Start sample_start sample_config), c] (oauth_run sample_library es) \<le> 1 \<and>
   tokens_answered sample_library ''r'' [Other (Start sample_start sample_config), c] (oauth_run sample_library es) = 1"
proof -
  let ?c = "Take ''r'' (sample_run (\<lambda>k. ''q''), sample_http sample_refresh_form) :: token_call"
  let ?es = "sample_events @ [Call (Get_Token (sample_run (\<lambda>k. ''r'')) (sample_http sample_code_form))]"
  have "sample_sha ''r'' \<noteq> sample_sha ''q''" by code_simp
  then have "list_all (\<lambda>c. \<not> draws_token sample_library ''r'' c) [?c, ?c, Other (Start sample_start sample_config), ?c]"
    by (simp add: drawn_keys_def sample_run_def sample_library_def)
  then have "tokens_answered sample_library ''r'' [?c, ?c, Other (Start sample_start sample_config), ?c] (oauth_run sample_library ?es) \<le> 1"
    by (rule refresh_tokens_are_used_once)
  moreover have "tokens_answered sample_library ''r'' [Other (Start sample_start sample_config), ?c] (oauth_run sample_library ?es) = 1"
    by code_simp
  ultimately show ?thesis by (simp only: Let_def)
qed

end
