(* ===== verification/Oauth_Tokens.thy ===== *)
theory Oauth_Tokens
  imports Oauth_Safety
begin

text \<open>
  What becomes of what the server hands out: the grants in its file after a restart, access tokens at
  the gateway, codes at the redirect URI; and the places where the code departs from its comments.
\<close>

section \<open>A restart keeps the grants\<close>

text \<open>A grant whose texts are valid UTF-8 and whose client has a name.\<close>

definition storable :: "oauth_env \<Rightarrow> refresh_grant \<Rightarrow> bool" where
  "storable env g \<longleftrightarrow> en_json_text env (gr_client g) = gr_client g \<and> en_json_text env (gr_resource g) = gr_resource g \<and>
     en_json_text env (gr_scope g) = gr_scope g \<and> trim_space (gr_client g) \<noteq> []"

definition loaded_grant :: "stored_grant \<Rightarrow> bytes \<times> refresh_grant" where
  "loaded_grant g = (sg_hash g, \<lparr>gr_client = sg_client g, gr_resource = sg_resource g, gr_scope = sg_scope g,
     gr_expires = sg_expires g\<rparr>)"

lemma load_grants_all:
  assumes "list_all (\<lambda>g. valid_token_hash (sg_hash g) \<and> trim_space (sg_client g) \<noteq> []) gs"
    "distinct (map fst loaded @ map sg_hash gs)"
  shows "load_grants now loaded pruned gs =
    Inr (loaded @ map loaded_grant (filter (\<lambda>g. sg_expires g > now) gs), pruned \<or> \<not> list_all (\<lambda>g. sg_expires g > now) gs)"
  using assms
proof (induction now loaded pruned gs rule: load_grants.induct)
  case (2 now loaded pruned g gs)
  then show ?case by (auto simp: loaded_grant_def)
qed simp

lemma stored_loaded: "storable env (snd e) \<Longrightarrow> loaded_grant (persisted_grant env e) = e"
  by (cases e) (simp add: loaded_grant_def persisted_grant_def storable_def)

text \<open>C32: A start that finds the file a save has written has exactly the grants that have not expired, under
  the same digests and with the same client, resource, scope and expiry.\<close>

theorem restart_keeps_the_grants:
  assumes "refresh_ok (os_refresh s)" "os_persist s" "list_all (\<lambda>e. storable env (snd e)) (os_refresh s)"
  shows "let (s1, ok) = save_refresh env Stored s; (s2, r) = load_refresh env True now Stored (fresh\<lparr>os_disk := os_disk s1\<rparr>) in
    ok \<and> r = Inr () \<and>
    map_of (os_refresh s2) key =
      (case map_of (os_refresh s) key of None \<Rightarrow> None | Some g \<Rightarrow> if gr_expires g > now then Some g else None)"
proof -
  let ?m = "os_refresh s"
  let ?gs = "sort_key sg_hash (map (persisted_grant env) ?m)"
  define good where "good = map loaded_grant (filter (\<lambda>g. sg_expires g > now) ?gs)"
  have hashes: "map sg_hash (map (persisted_grant env) ?m) = map fst ?m" by (simp add: persisted_grant_def)
  have keys: "distinct (map fst ?m)" using assms(1) by (simp add: refresh_ok_def)
  have "distinct (map sg_hash (map (persisted_grant env) ?m))" unfolding hashes by (rule keys)
  then have sorted_keys: "distinct (map sg_hash ?gs)" by (simp only: distinct_map distinct_sort set_sort)
  have "list_all (\<lambda>g. valid_token_hash (sg_hash g) \<and> trim_space (sg_client g) \<noteq> []) ?gs"
    using assms(1,3) by (auto simp: list_all_iff refresh_ok_def persisted_grant_def storable_def)
  then have load: "load_grants now [] False ?gs = Inr (good, \<not> list_all (\<lambda>g. sg_expires g > now) ?gs)"
    using load_grants_all [of ?gs "[]" now False] sorted_keys by (simp add: good_def)
  have "set good = (\<lambda>e. loaded_grant (persisted_grant env e)) ` {e \<in> set ?m. gr_expires (snd e) > now}"
    by (auto simp: good_def persisted_grant_def image_iff)
  also have "\<dots> = {e \<in> set ?m. gr_expires (snd e) > now}"
    using assms(3) by (auto simp: stored_loaded list_all_iff image_iff)
  finally have set: "set good = {e \<in> set ?m. gr_expires (snd e) > now}" .
  have good_keys: "map fst good = map sg_hash (filter (\<lambda>g. sg_expires g > now) ?gs)" by (simp add: good_def loaded_grant_def)
  have dist: "distinct (map fst good)" unfolding good_keys by (rule distinct_map_filter [OF sorted_keys])
  have look: "map_of good key = Some g \<longleftrightarrow> map_of ?m key = Some g \<and> gr_expires g > now" for g
    unfolding map_of_eq_Some_iff [OF dist] map_of_eq_Some_iff [OF keys] set by simp
  have m: "map_of good key =
      (case map_of ?m key of None \<Rightarrow> None | Some g \<Rightarrow> if gr_expires g > now then Some g else None)"
  proof (cases "map_of ?m key")
    case None
    then have "map_of good key = None" using look by (metis not_None_eq option.distinct(1))
    then show ?thesis using None by simp
  next
    case (Some g)
    show ?thesis
    proof (cases "gr_expires g > now")
      case True
      then show ?thesis using look [of g] Some by simp
    next
      case False
      then have "map_of good key \<noteq> Some h" for h using look [of h] Some by (metis option.inject)
      then have "map_of good key = None" by (metis not_None_eq)
      then show ?thesis using Some False by simp
    qed
  qed
  have stored: "os_disk (fst (save_refresh env Stored s)) = Some (refresh_store env ?m)" "snd (save_refresh env Stored s)"
    using assms(2) by (simp_all add: save_refresh_def)
  show ?thesis
    using stored load m by (simp add: load_refresh_def refresh_store_def save_refresh_def Let_def case_prod_beta)
qed


lemma restart_keeps_the_grants_witness:
  "let s = (new_server [] [] [] 0 None None)\<lparr>os_persist := True, os_refresh :=
         [(sample_sha ''a'', \<lparr>gr_client = ''app'', gr_resource = ''r'', gr_scope = ''mcp'', gr_expires = 10\<rparr>)]\<rparr>;
       (s1, ok) = save_refresh sample_library Stored s;
       (s2, r) = load_refresh sample_library True 9 Stored (s\<lparr>os_disk := os_disk s1\<rparr>) in
   ok \<and> map_of (os_refresh s2) (sample_sha ''a'') =
     Some \<lparr>gr_client = ''app'', gr_resource = ''r'', gr_scope = ''mcp'', gr_expires = 10\<rparr>"
proof -
  let ?g = "\<lparr>gr_client = ''app'', gr_resource = ''r'', gr_scope = ''mcp'', gr_expires = 10\<rparr> :: refresh_grant"
  let ?s = "(new_server [] [] [] 0 None None)\<lparr>os_persist := True, os_refresh := [(sample_sha ''a'', ?g)]\<rparr>"
  have "valid_token_hash (sample_sha ''a'')" using sample_laws(2) by (simp add: digest_law_def sample_library_def)
  then have ok: "refresh_ok (os_refresh ?s)" by (simp add: refresh_ok_def max_refresh_tokens_def)
  have "trim_space ''app'' \<noteq> []" by code_simp
  then have st: "list_all (\<lambda>e. storable sample_library (snd e)) (os_refresh ?s)" by (simp add: storable_def sample_library_def)
  show ?thesis
    using restart_keeps_the_grants [OF ok _ st, where fresh = ?s and now = 9 and key = "sample_sha ''a''"]
    by (simp add: Let_def case_prod_beta)
qed

section \<open>Access tokens at the gateway\<close>

text \<open>
  The JWT library: a token it has signed has no white space, and it verifies to its claims for its issuer and
  audience until it expires, and not otherwise.
\<close>

definition jwt_law :: "oauth_env \<Rightarrow> bool" where
  "jwt_law env \<longleftrightarrow> (\<forall>secret c tok. en_sign env secret c = Some tok \<longrightarrow>
     tok \<noteq> [] \<and> set tok \<inter> set (concat space_encodings) = {} \<and>
     (\<forall>now iss aud. iss \<noteq> [] \<longrightarrow> aud \<noteq> [] \<longrightarrow>
        en_verify env secret now iss aud tok =
          (if iss = ac_issuer c \<and> aud = ac_audience c \<and> now < ac_expires c * 1000000000 then Some c else None)))"

lemma trim_space_ends:
  assumes "c \<notin> set (concat space_encodings)" "d \<notin> set (concat space_encodings)"
  shows "trim_space (c # s @ [d]) = c # s @ [d]"
proof -
  have "trim_left (c # s @ [d]) = c # s @ [d]"
    using lead_len_plain [OF assms(1)] by (simp add: trim_left_def trim_lead.simps)
  moreover have "d \<notin> set (concat (map rev space_encodings))" using assms(2) by (simp only: concat_map_rev not_False_eq_True)
  then have "lead_len (map rev space_encodings) (d # rev (c # s)) = 0" by (rule lead_len_plain)
  then have "trim_lead (map rev space_encodings) (d # rev (c # s)) = d # rev (c # s)" by (simp add: trim_lead.simps)
  ultimately show ?thesis by (simp add: trim_space_def trim_right_def)
qed

lemma bearer_header:
  assumes "tok \<noteq> []" "set tok \<inter> set (concat space_encodings) = {}"
  shows "bearer_token (''Bearer '' @ tok) = tok"
proof -
  obtain b d where tok: "tok = b @ [d]" using assms(1) by (cases tok rule: rev_cases) auto
  have "CHR ''B'' \<notin> set (concat space_encodings)" by code_simp
  moreover have "d \<notin> set (concat space_encodings)" using assms(2) tok by auto
  ultimately have "trim_space (CHR ''B'' # (''earer '' @ b) @ [d]) = CHR ''B'' # (''earer '' @ b) @ [d]"
    by (rule trim_space_ends)
  then have "trim_space (''Bearer '' @ tok) = ''Bearer '' @ tok" using tok by simp
  then show ?thesis using trim_space_plain [OF assms(2)] by (simp add: bearer_token_def trim_prefix_def has_prefix_def)
qed

lemma oauth_mode: "to_lower (trim_space ''oauth'') = ''oauth''"
  by code_simp

text \<open>When the token of an exchange expires: the seconds of its lifetime after the second reading of the clock.\<close>

definition token_deadline :: "int \<Rightarrow> oauth_server \<Rightarrow> int" where
  "token_deadline now s = unix_seconds (now + wrap64 (os_ttl s * 1000000000)) * 1000000000"

text \<open>C17: An access token from an exchanged code opens the gateway of the server that issued it, in the name of
  its client, until it expires and not a moment longer, provided it was asked for the server's own resource and
  the client is still known.\<close>

theorem issued_tokens_open_the_gateway:
  assumes "jwt_law env" "exchange_code env t code uri cid verifier resource s = (s', Inr (tok, ttl))"
    "map_of (os_codes s) code = Some ac"
    "(if resource \<noteq> [] then resource else co_resource ac) = resource_url (os_url s)" "os_url s \<noteq> []" "cid \<noteq> []"
    "effective_auth_mode (af_mode cfg) (af_token cfg) = ''oauth''" "hr_authorization r = ''Bearer '' @ tok"
    "snd (resolve_client env (later 1 t') cid s') = Inr c"
  shows "snd (gateway_admits env t' cfg r (Some s')) =
    (if t' 0 < token_deadline (t 1) s then Oauth_Subject (os_url s) cid else No_Credentials)"
proof -
  have s': "s' = s\<lparr>os_codes := AList.delete code (os_codes s)\<rparr>"
      "redeem_code env t ac uri cid verifier resource s' = Inr (tok, ttl)"
    using assms(2,3) by (auto simp: exchange_code_def Let_def)
  have fields: "os_url s' = os_url s" "os_secret s' = os_secret s" "os_ttl s' = os_ttl s" using s'(1) by simp_all
  have res: "resource_url (os_url s) \<noteq> []" by (simp add: resource_url_def)
  have "token_target (co_resource ac) resource s' = (os_url s, resource_url (os_url s))"
    using assms(4,5) res by (auto simp: token_target_def Let_def effective_issuer_def fields)
  then have create: "create_access_token env (t 1) cid (resource_url (os_url s)) (os_url s) s' = Inr tok"
    using s'(2) unfolding redeem_code_ok by simp
  define claims where "claims = \<lparr>ac_issuer = os_url s, ac_audience = resource_url (os_url s), ac_subject = cid, ac_client = cid,
      ac_issued = unix_seconds (t 1), ac_expires = unix_seconds (t 1 + wrap64 (os_ttl s * 1000000000)),
      ac_scope = default_scope\<rparr>"
  have sign: "os_secret s \<noteq> []" "en_sign env (os_secret s) claims = Some tok"
    using create res assms(5) by (auto simp: create_access_token_def Let_def claims_def fields split: if_splits option.splits)
  note law = assms(1) [unfolded jwt_law_def, rule_format, OF sign(2)]
  have tok: "tok \<noteq> []" "bearer_token (hr_authorization r) = tok" using law bearer_header assms(8) by simp_all
  have verify: "en_verify env (os_secret s) (t' 0) (os_url s) (resource_url (os_url s)) tok =
      (if t' 0 < token_deadline (t 1) s then Some claims else None)"
    using law assms(5) res by (simp add: claims_def token_deadline_def)
  have aud: "gateway_audience cfg r (Some s') = (os_url s, resource_url (os_url s))"
    using assms(5) by (simp add: gateway_audience_def effective_issuer_def fields Let_def)
  have "snd (validate_access_token env t' tok (os_url s) (resource_url (os_url s)) s') =
      (if t' 0 < token_deadline (t 1) s then Some cid else None)"
    using tok(1) sign(1) verify assms(6,9) by (simp add: validate_access_token_def fields Let_def case_prod_beta claims_def)
  then have "snd (validate_oauth env t' (hr_authorization r) (Some s') (os_url s) (resource_url (os_url s))) =
      (if t' 0 < token_deadline (t 1) s then Oauth_Subject (os_url s) cid else No_Credentials)"
    using tok by (simp add: validate_oauth_def case_prod_beta)
  then show ?thesis by (simp add: gateway_admits_def aud validate_http_def assms(7) oauth_mode Let_def)
qed

lemma sample_jwt_law: "jwt_law sample_library"
proof -
  have "set ''jwt'' \<inter> set (concat space_encodings) = {}"
  proof -
    have "list_all (\<lambda>c. c \<notin> set (concat space_encodings)) ''jwt''" by code_simp
    then show ?thesis by (simp only: list_all_iff) blast
  qed
  then show ?thesis by (simp add: jwt_law_def sample_library_def sample_sign_def sample_verify_def sample_claims_def)
qed


lemma issued_tokens_open_the_gateway_witness:
  "let s = the (snd (oauth_run sample_library sample_events));
       x = exchange_code sample_library (\<lambda>k. 9) ''c1'' ''https://a/cb'' ''app'' sample_verifier [] s;
       r = (sample_http [])\<lparr>hr_authorization := ''Bearer jwt''\<rparr> in
   snd x = Inr (''jwt'', 3600) \<and>
   snd (gateway_admits sample_library (\<lambda>k. 100) sample_config r (Some (fst x))) = Oauth_Subject ''https://m'' ''app''"
proof -
  let ?s = "the (snd (oauth_run sample_library sample_events))"
  let ?x = "exchange_code sample_library (\<lambda>k. 9) ''c1'' ''https://a/cb'' ''app'' sample_verifier [] ?s"
  let ?r = "(sample_http [])\<lparr>hr_authorization := ''Bearer jwt''\<rparr>"
  let ?ac = "the (map_of (os_codes ?s) ''c1'')"
  have x: "snd ?x = Inr (''jwt'', 3600)" by code_simp
  then have x': "?x = (fst ?x, Inr (''jwt'', 3600))" by (metis prod.collapse)
  have "map_of (os_codes ?s) ''c1'' \<noteq> None" by code_simp
  then have ac: "map_of (os_codes ?s) ''c1'' = Some ?ac" by auto
  have url: "os_url ?s = ''https://m''" by code_simp
  have "co_resource ?ac = resource_url (os_url ?s)" by code_simp
  then have res: "(if [] \<noteq> [] then [] else co_resource ?ac) = resource_url (os_url ?s)" by simp
  have mode: "effective_auth_mode (af_mode sample_config) (af_token sample_config) = ''oauth''" by code_simp
  have "is_ok (snd (resolve_client sample_library (later 1 (\<lambda>k. 100)) ''app'' (fst ?x)))" by code_simp
  then obtain c where c: "snd (resolve_client sample_library (later 1 (\<lambda>k. 100)) ''app'' (fst ?x)) = Inr c"
    by (auto simp: is_ok_iff)
  have before: "100 < token_deadline 9 ?s" by code_simp
  have "snd (gateway_admits sample_library (\<lambda>k. 100) sample_config ?r (Some (fst ?x))) =
      (if 100 < token_deadline 9 ?s then Oauth_Subject (os_url ?s) ''app'' else No_Credentials)"
    by (rule issued_tokens_open_the_gateway [OF sample_jwt_law x' ac res _ _ mode _ c]) (simp_all add: url)
  then show ?thesis using x before url by (simp only: Let_def if_True)
qed

section \<open>Where codes go\<close>

lemma redirect_problem_None:
  assumes "redirect_problem env uri = None"
  shows "\<exists>u. en_parse env uri = Some u \<and> u_fragment u = [] \<and> \<not> u_user u \<and> (u_scheme u = ''https'' \<or>
    u_scheme u = ''http'' \<and> to_lower (u_hostname u) \<in> {''localhost'', ''127.0.0.1'', ''::1''})"
  using assms by (auto simp: redirect_problem_def split: if_splits option.splits)

lemma accepted_redirect:
  assumes "server_ok env s" "snd (accepts_client_redirect env t cid uri s)"
  shows "redirect_problem env uri = None \<or> allows_chatgpt_redirect env uri"
proof (cases "registry_accepts_redirect cid uri (os_registry s)")
  case True
  then obtain c where c: "get_client cid (os_registry s) = Some c" "uri \<in> set (oc_redirects c)"
    by (auto simp: registry_accepts_redirect_def split: option.splits)
  then have "client_ok env c"
    using assms(1) resolve_client_known [of env s t cid c] by (simp add: resolve_client_def server_ok_def)
  then show ?thesis using c(2) by (simp add: client_ok_def redirects_ok_def list_all_iff)
next
  case False
  then obtain c where c: "snd (resolve_cimd env t cid (os_cimd s)) = Inr c"
      "uri \<in> set (oc_redirects c) \<or> allows_chatgpt_redirect env uri"
    using assms(2) by (auto simp: accepts_client_redirect_def Let_def case_prod_beta split: if_splits sum.splits)
  have "client_ok env c" using resolve_cimd_ok(2) [OF _ c(1)] assms(1) by (simp add: server_ok_def)
  then show ?thesis using c(2) by (auto simp: client_ok_def redirects_ok_def list_all_iff)
qed

text \<open>The URL may receive a code: it carries no user information and no fragment, and is https or http to the loopback
  interface.\<close>

definition safe_target :: "url \<Rightarrow> bool" where
  "safe_target u \<longleftrightarrow> u_fragment u = [] \<and> \<not> u_user u \<and>
    (u_scheme u = ''https'' \<or> u_scheme u = ''http'' \<and> to_lower (u_hostname u) \<in> {''localhost'', ''127.0.0.1'', ''::1''})"

text \<open>What \<^verbatim>\<open>net/url\<close> does with query values: a URL with \<^verbatim>\<open>RawQuery\<close> replaced is still the same URL otherwise.\<close>

definition query_law :: "oauth_env \<Rightarrow> bool" where
  "query_law env \<longleftrightarrow> (\<forall>uri values target u. en_with_query env uri values = Some target \<longrightarrow> en_parse env uri = Some u \<longrightarrow>
     (\<exists>v. en_parse env target = Some v \<and> u_scheme v = u_scheme u \<and> u_host v = u_host u \<and> u_hostname v = u_hostname u \<and>
        u_user v = u_user u \<and> u_fragment v = u_fragment u))"

lemma query_keeps_safe:
  assumes "query_law env" "en_with_query env uri values = Some target" "en_parse env uri = Some u" "safe_target u"
  shows "\<exists>v. en_parse env target = Some v \<and> u_host v = u_host u \<and> safe_target v"
  using assms unfolding query_law_def safe_target_def by metis

text \<open>A redirect comes from a validated request, and its target is the redirect URI of the request with the code.\<close>

lemma redirect_reply:
  assumes "snd (handle_authorize env t code r s) = Redirect_Reply target"
  shows "snd (accepts_client_redirect env t (hr_form r ''client_id'') (hr_form r ''redirect_uri'') s) \<and>
    (\<exists>rest. en_with_query env (hr_form r ''redirect_uri'') ((''code'', code) # rest) = Some target)"
proof -
  let ?v = "validate_authorize_params env t (hr_form r ''client_id'') (hr_form r ''redirect_uri'')
    (hr_form r ''code_challenge'') (hr_form r ''code_challenge_method'') s"
  have "is_ok (snd ?v)"
    using assms by (auto simp: handle_authorize_def authorize_post_def authorize_get_def Let_def case_prod_beta is_ok_def
        split: if_splits sum.splits)
  then have accepted: "snd (accepts_client_redirect env t (hr_form r ''client_id'') (hr_form r ''redirect_uri'') s)"
    by (auto simp: validate_authorize_params_def Let_def case_prod_beta split: if_splits)
  have issued: "code' = code" if "snd (issue_code env t' code c u ch a re sc s') = Inr code'" for t' c u ch a re sc s' code'
    using that by (auto simp: issue_code_def Let_def case_prod_beta split: if_splits)
  have "\<exists>code' t' c u ch a re sc s' rest. snd (issue_code env t' code c u ch a re sc s') = Inr code' \<and>
      en_with_query env (hr_form r ''redirect_uri'') ((''code'', code') # rest) = Some target"
    using assms unfolding handle_authorize_def authorize_post_def authorize_get_def Let_def case_prod_beta
    by (auto split: if_splits sum.splits option.splits; blast)
  with issued accepted show ?thesis by blast
qed

text \<open>C24: In every state, when the authorization endpoint answers with a redirect, the target is the redirect URI of the
  request with the new code in its query, at the same host, and both URLs are free of user information and fragment
  and are https or http to the loopback interface. That a query leaves the rest of a URL alone is a law of
  \<^verbatim>\<open>net/url\<close>.\<close>

theorem codes_go_to_safe_uris:
  assumes "digest_law env" "query_law env" "list_all event_ok es" "snd (oauth_run env es) = Some s"
    "snd (handle_authorize env t code r s) = Redirect_Reply target"
  shows "\<exists>u v rest. en_parse env (hr_form r ''redirect_uri'') = Some u \<and> safe_target u \<and>
    en_with_query env (hr_form r ''redirect_uri'') ((''code'', code) # rest) = Some target \<and>
    en_parse env target = Some v \<and> u_host v = u_host u \<and> safe_target v"
proof -
  let ?uri = "hr_form r ''redirect_uri''"
  from redirect_reply [OF assms(5)] obtain rest
    where accepted: "snd (accepts_client_redirect env t (hr_form r ''client_id'') ?uri s)"
    and target: "en_with_query env ?uri ((''code'', code) # rest) = Some target" by blast
  have ok: "server_ok env s" using oauth_run_ok [OF assms(1,3)] assms(4) by blast
  have "\<exists>u. en_parse env ?uri = Some u \<and> safe_target u"
    using accepted_redirect [OF ok accepted]
  proof
    assume "allows_chatgpt_redirect env ?uri"
    then show ?thesis by (auto simp: allows_chatgpt_redirect_def safe_target_def split: option.splits if_splits)
  qed (use redirect_problem_None in \<open>simp add: safe_target_def\<close>)
  then show ?thesis using target query_keeps_safe [OF assms(2) target] by blast
qed

text \<open>The sample library with a query that is written out.\<close>

definition query_library :: oauth_env where
  "query_library = sample_library\<lparr>en_with_query := (\<lambda>u q. Some (u @ concat (map (\<lambda>(k, v). ''?'' @ k @ ''='' @ v) q)))\<rparr>"

lemma query_library_laws: "digest_law query_library" "query_law query_library"
  using sample_laws(2)
  by (auto simp: query_library_def digest_law_def query_law_def sample_library_def sample_url_def has_prefix_iff
      split: if_splits)

lemma codes_go_to_safe_uris_witness:
  "let s = the (snd (oauth_run query_library [Start sample_start sample_config])) in
   snd (handle_authorize query_library (\<lambda>k. 6) ''c1'' (sample_http sample_approval_form) s)
     = Redirect_Reply ''https://a/cb?code=c1'' \<and>
   (\<exists>v. en_parse query_library ''https://a/cb?code=c1'' = Some v \<and> safe_target v)"
proof -
  let ?es = "[Start sample_start sample_config]"
  let ?r = "sample_http sample_approval_form"
  have "snd (oauth_run query_library ?es) \<noteq> None" by code_simp
  then have s: "snd (oauth_run query_library ?es) = Some (the (snd (oauth_run query_library ?es)))" by simp
  have a: "snd (handle_authorize query_library (\<lambda>k. 6) ''c1'' ?r (the (snd (oauth_run query_library ?es)))) =
      Redirect_Reply ''https://a/cb?code=c1''" by code_simp
  have events: "list_all event_ok ?es" by simp
  have "\<exists>v. en_parse query_library ''https://a/cb?code=c1'' = Some v \<and> safe_target v"
    using codes_go_to_safe_uris [OF query_library_laws events s a] by blast
  with a show ?thesis by (simp only: Let_def)
qed

section \<open>Where the code departs from its intention\<close>

text \<open>
  The gateway reads the origin behind a trusted proxy from the forwarded headers, the OAuth endpoints never do:
  without a configured URL, the resource a code is given is not the one the gateway checks.
\<close>

lemma proxied_tokens_do_not_fit:
  "let r = (sample_http [])\<lparr>hr_tls := False, hr_forwarded_proto := ''https''\<rparr>;
       s = new_server ''pw'' [] (replicate 32 (CHR ''k'')) 3600 None None in
   gateway_audience (sample_config\<lparr>af_trust_proxy := True\<rparr>) r (Some s) = (''https://m'', ''https://m/mcp'') \<and>
   resource_url (effective_issuer (request_origin False r) s) = ''http://m/mcp''"
  by code_simp

text \<open>
  A code approved for another resource gives an access token for that resource, but the refresh token that comes
  with it is for the server's default one.
\<close>

definition other_env :: oauth_env where
  "other_env = sample_library\<lparr>en_sign := (\<lambda>secret c. Some (ac_audience c))\<rparr>"

lemma refresh_grant_forgets_the_resource:
  "let es = [Start sample_start sample_config,
         Call (Authorize (\<lambda>k. 6) ''c1'' (sample_http ((''resource'', ''https://b'') # sample_approval_form)))];
       x = handle_token other_env (sample_run (\<lambda>k. ''r'')) (sample_http sample_code_form) (the (snd (oauth_run other_env es))) in
   map_option snd x = Some (token_reply ''https://b'' 3600 ''r'') \<and>
   map_option (\<lambda>y. map (gr_resource \<circ> snd) (os_refresh (fst y))) x = Some [''https://m/mcp'']"
  by code_simp

text \<open>Conversely, the resource a token request names replaces the approved one.\<close>

lemma requested_resource_wins:
  "let x = handle_token other_env (sample_run (\<lambda>k. ''r'')) (sample_http ((''resource'', ''https://b'') # sample_code_form))
         (the (snd (oauth_run other_env sample_events))) in
   map_option snd x = Some (token_reply ''https://b'' 3600 ''r'')"
  by code_simp

text \<open>
  The comment at \<^verbatim>\<open>AcceptsClientRedirect\<close> speaks of same-origin callbacks; the check does not look at the
  client, so a client of any other host may use ChatGPT's callback.
\<close>

definition foreign_env :: oauth_env where
  "foreign_env = sample_library\<lparr>en_parse := (\<lambda>s. Some \<lparr>u_scheme = ''https'', u_host = ''h'',
       u_hostname = (if s = ''https://chatgpt.com/connector/oauth/x'' then ''chatgpt.com'' else ''evil''),
       u_fragment = [], u_user = False, u_escaped_path = ''/connector/oauth/x''\<rparr>),
     en_web := (\<lambda>now u. Some \<lparr>cd_client_id = [], cd_name = [], cd_redirects = [''https://evil/cb''], cd_method = [],
       cd_methods = []\<rparr>)\<rparr>"

lemma any_client_may_use_the_chatgpt_callback:
  "snd (accepts_client_redirect foreign_env (\<lambda>k. 0) ''https://evil/client'' ''https://chatgpt.com/connector/oauth/x''
     (new_server ''pw'' [] [] 0 None None))"
  by code_simp

text \<open>A preregistered client whose file could not be written is reported as an error and served all the same.\<close>

lemma unsaved_client_is_served:
  "let (r, e) = add_preregistered sample_library False 0 ''app'' [''https://a/cb''] [] ((new_registry None)\<lparr>re_persist := True\<rparr>) in
   e = Inl E_Client_Save \<and> get_client ''app'' r \<noteq> None"
  by code_simp

text \<open>Refreshing with the resource \<^verbatim>\<open>/mcp\<close> and no configured URL mints a token without issuer; exchanging a
  code for it is refused.\<close>

lemma refresh_may_leave_out_the_issuer:
  "let s = (new_server ''pw'' [] (replicate 32 (CHR ''k'')) 3600 None None)\<lparr>os_refresh := [(sample_sha ''r'',
         \<lparr>gr_client = ''app'', gr_resource = ''https://m/mcp'', gr_scope = ''mcp'', gr_expires = 100\<rparr>)]\<rparr>;
       env = sample_library\<lparr>en_sign := (\<lambda>secret c. if ac_issuer c = [] then Some ''t'' else None)\<rparr> in
   map_option snd (exchange_refresh env (\<lambda>k. ''q'') (\<lambda>k. 7) Stored ''r'' ''app'' ''/mcp'' s) = Some (Inr (''t'', 3600, ''q'')) \<and>
   redeem_code env (\<lambda>k. 7) \<lparr>co_client = ''app'', co_redirect = [], co_challenge = sample_verifier, co_resource = [],
     co_scope = [], co_expires = 100\<rparr> [] ''app'' sample_verifier ''/mcp'' s = Inl E_No_Issuer"
  by code_simp

end
