(* ===== verification/Remote_Session.thy ===== *)
theory Remote_Session
  imports Prelude "HOL-Library.List_Lexorder" "HOL-Library.Char_ord" "HOL-Library.Product_Lexorder"
begin

text \<open>
  The remote sessions of \<^verbatim>\<open>internal/remotesession/service.go\<close>: their tables with the keys, checks and foreign
  keys of \<^verbatim>\<open>internal/state/migrations.go\<close>, and the operations of \<^verbatim>\<open>Service\<close>. Values of type \<^verbatim>\<open>time.Time\<close> are
  nanoseconds, columns milliseconds; a column that may be NULL and is read with COALESCE is a text that may
  be empty. \<open>io\<close> tells which statements of a call succeed. \<^verbatim>\<open>Update\<close> is cut in two pieces, the reading and the
  UPDATE statement, so that other calls can come between them. The observer that is told of events after
  they are committed is left out, and so are the fields of a result that other components fill in.
\<close>

section \<open>Values\<close>

datatype remote_error = R_Not_Found | R_Forbidden | R_Conflict | R_Invalid | R_Store

text \<open>
  The libraries: SQLite's LIKE (pattern and text), unpadded URL base64, and what decoding gives back of a
  text \<^verbatim>\<open>encoding/json\<close> has written.
\<close>

record remote_env =
  rn_like :: "bytes \<Rightarrow> bytes \<Rightarrow> bool"
  rn_b64 :: "bytes \<Rightarrow> bytes"
  rn_unb64 :: "bytes \<Rightarrow> bytes option"
  rn_json_text :: "bytes \<Rightarrow> bytes"

text \<open>An authenticated actor, \<^verbatim>\<open>auth.Principal\<close>.\<close>

record actor =
  at_id :: bytes
  at_kind :: bytes
  at_hash :: bytes

record remote_session =
  ns_id :: bytes
  ns_workspace :: bytes
  ns_path :: bytes
  ns_label :: bytes
  ns_description :: bytes
  ns_status :: bytes
  ns_owner :: bytes
  ns_role :: bytes
  ns_git :: bytes
  ns_tree :: bytes
  ns_environment :: bytes
  ns_version :: int
  ns_created :: int
  ns_active :: int
  ns_closed :: "int option"

record session_input =
  ct_workspace :: bytes
  ct_path :: bytes
  ct_label :: bytes
  ct_description :: bytes
  ct_git :: bytes
  ct_tree :: bytes
  ct_request :: bytes
  ct_client :: bytes
  ct_client_version :: bytes

record session_result =
  cs_session :: remote_session
  cs_replayed :: bool

text \<open>An event as a caller gives it; \<^const>\<open>None\<close> is the zero time, the metadata is its JSON text.\<close>

record session_event =
  ue_client :: bytes
  ue_type :: bytes
  ue_operation :: bytes
  ue_summary :: bytes
  ue_resource :: bytes
  ue_metadata :: bytes
  ue_created :: "int option"

section \<open>Tables\<close>

record actor_row =
  pw_id :: bytes
  pw_kind :: bytes
  pw_hash :: bytes
  pw_created :: int
  pw_seen :: int

record session_row =
  rw_id :: bytes
  rw_workspace :: bytes
  rw_path :: bytes
  rw_label :: bytes
  rw_description :: bytes
  rw_status :: bytes
  rw_owner :: bytes
  rw_git :: bytes
  rw_tree :: bytes
  rw_environment :: bytes
  rw_version :: int
  rw_created :: int
  rw_active :: int
  rw_closed :: "int option"

record member_row =
  mb_session :: bytes
  mb_actor :: bytes
  mb_role :: bytes
  mb_joined :: int
  mb_active :: int

record client_row =
  cl_session :: bytes
  cl_actor :: bytes
  cl_name :: bytes
  cl_version :: bytes
  cl_first :: int
  cl_last :: int

record session_event_row =
  xe_sequence :: int
  xe_session :: bytes
  xe_actor :: bytes
  xe_client :: bytes
  xe_type :: bytes
  xe_operation :: bytes
  xe_summary :: bytes
  xe_resource :: bytes
  xe_metadata :: bytes
  xe_created :: int

text \<open>
  The rows of \<^verbatim>\<open>idempotency_records\<close> for the creation of sessions. The response is the value its JSON text
  decodes to; \<^const>\<open>None\<close> is a text that does not decode.
\<close>

record request_row =
  rq_actor :: bytes
  rq_request :: bytes
  rq_response :: "session_result option"
  rq_created :: int
  rq_expires :: int

record remote_db =
  rd_actors :: "actor_row list"
  rd_sessions :: "session_row list"
  rd_members :: "member_row list"
  rd_clients :: "client_row list"
  rd_events :: "session_event_row list"
  rd_next :: int
  rd_requests :: "request_row list"

definition empty_remote_db :: remote_db where
  "empty_remote_db = \<lparr>rd_actors = [], rd_sessions = [], rd_members = [], rd_clients = [], rd_events = [], rd_next = 1,
     rd_requests = []\<rparr>"

section \<open>Statements\<close>

definition upsert_actor :: "actor \<Rightarrow> int \<Rightarrow> remote_db \<Rightarrow> remote_db" where
  "upsert_actor who ms db =
     db\<lparr>rd_actors :=
       (if at_id who \<in> pw_id ` set (rd_actors db)
        then map (\<lambda>r. if pw_id r = at_id who then r\<lparr>pw_seen := ms\<rparr> else r) (rd_actors db)
        else rd_actors db @ [\<lparr>pw_id = at_id who, pw_kind = at_kind who, pw_hash = at_hash who, pw_created = ms, pw_seen = ms\<rparr>])\<rparr>"

definition session_statuses :: "bytes list" where
  "session_statuses = [''active'', ''idle'', ''blocked'', ''closed'', ''archived'']"

definition valid_session_status :: "bytes \<Rightarrow> bool" where
  "valid_session_status status \<longleftrightarrow> status \<in> set session_statuses"

definition insert_session :: "session_row \<Rightarrow> remote_db \<Rightarrow> (remote_error, remote_db) result" where
  "insert_session r db =
     (if rw_id r \<in> rw_id ` set (rd_sessions db) \<or> rw_owner r \<notin> pw_id ` set (rd_actors db) \<or>
         \<not> valid_session_status (rw_status r) then Inl R_Store
      else Inr (db\<lparr>rd_sessions := rd_sessions db @ [r]\<rparr>))"

definition insert_member :: "member_row \<Rightarrow> remote_db \<Rightarrow> (remote_error, remote_db) result" where
  "insert_member m db =
     (if (mb_session m, mb_actor m) \<in> (\<lambda>n. (mb_session n, mb_actor n)) ` set (rd_members db) \<or>
         mb_session m \<notin> rw_id ` set (rd_sessions db) \<or> mb_actor m \<notin> pw_id ` set (rd_actors db) \<or>
         mb_role m \<notin> set [''viewer'', ''editor'', ''approver'', ''owner''] then Inl R_Store
      else Inr (db\<lparr>rd_members := rd_members db @ [m]\<rparr>))"

definition same_client :: "bytes \<Rightarrow> bytes \<Rightarrow> bytes \<Rightarrow> bytes \<Rightarrow> client_row \<Rightarrow> bool" where
  "same_client session who name version r \<longleftrightarrow>
     cl_session r = session \<and> cl_actor r = who \<and> cl_name r = name \<and> cl_version r = version"

definition record_client :: "bytes \<Rightarrow> bytes \<Rightarrow> bytes \<Rightarrow> bytes \<Rightarrow> int \<Rightarrow> remote_db \<Rightarrow> (remote_error, remote_db) result" where
  "record_client session who name0 version ms db =
     (let name = (if name0 = [] then ''unknown'' else name0) in
      if session \<notin> rw_id ` set (rd_sessions db) then Inl R_Store
      else Inr (db\<lparr>rd_clients :=
        (if list_ex (same_client session who name version) (rd_clients db)
         then map (\<lambda>r. if same_client session who name version r then r\<lparr>cl_last := ms\<rparr> else r) (rd_clients db)
         else rd_clients db @ [\<lparr>cl_session = session, cl_actor = who, cl_name = name, cl_version = version,
                cl_first = ms, cl_last = ms\<rparr>])\<rparr>))"

definition insert_session_event :: "bytes \<Rightarrow> bytes \<Rightarrow> session_event \<Rightarrow> int \<Rightarrow> remote_db \<Rightarrow> (remote_error, remote_db) result" where
  "insert_session_event session who e at db =
     (if session \<notin> rw_id ` set (rd_sessions db) then Inl R_Store
      else Inr (db\<lparr>rd_events := rd_events db @
             [\<lparr>xe_sequence = rd_next db, xe_session = session, xe_actor = who, xe_client = ue_client e, xe_type = ue_type e,
               xe_operation = ue_operation e, xe_summary = ue_summary e, xe_resource = ue_resource e,
               xe_metadata = ue_metadata e, xe_created = unix_milli at\<rparr>],
           rd_next := rd_next db + 1\<rparr>))"

definition insert_request :: "request_row \<Rightarrow> remote_db \<Rightarrow> (remote_error, remote_db) result" where
  "insert_request r db =
     (if (rq_actor r, rq_request r) \<in> (\<lambda>q. (rq_actor q, rq_request q)) ` set (rd_requests db) then Inl R_Store
      else Inr (db\<lparr>rd_requests := rd_requests db @ [r]\<rparr>))"

section \<open>Reading\<close>

text \<open>The rows of \<^verbatim>\<open>remote_sessions JOIN remote_session_members\<close> for one actor, and \<^verbatim>\<open>scanSession\<close>.\<close>

definition joined_rows :: "bytes \<Rightarrow> remote_db \<Rightarrow> (session_row \<times> member_row) list" where
  "joined_rows who db =
     concat (map (\<lambda>r. map (Pair r) (filter (\<lambda>m. mb_session m = rw_id r \<and> mb_actor m = who) (rd_members db))) (rd_sessions db))"

definition scan_session :: "session_row \<times> member_row \<Rightarrow> remote_session" where
  "scan_session x =
     (case x of (r, m) \<Rightarrow>
        \<lparr>ns_id = rw_id r, ns_workspace = rw_workspace r, ns_path = rw_path r, ns_label = rw_label r,
         ns_description = rw_description r, ns_status = rw_status r, ns_owner = rw_owner r, ns_role = mb_role m,
         ns_git = rw_git r, ns_tree = rw_tree r, ns_environment = rw_environment r, ns_version = rw_version r,
         ns_created = of_milli (rw_created r), ns_active = of_milli (rw_active r),
         ns_closed = map_option of_milli (rw_closed r)\<rparr>)"

definition get_session :: "bytes \<Rightarrow> bytes \<Rightarrow> remote_db \<Rightarrow> (remote_error, remote_session) result" where
  "get_session who session db =
     (case filter (\<lambda>x. rw_id (fst x) = session) (joined_rows who db) of
        [] \<Rightarrow> Inl R_Not_Found
      | x # _ \<Rightarrow> Inr (scan_session x))"

section \<open>Creating\<close>

definition request_lifetime :: int where
  "request_lifetime = 24 * 3600 * 1000000000"

definition live_request :: "bytes \<Rightarrow> bytes \<Rightarrow> int \<Rightarrow> remote_db \<Rightarrow> session_result option" where
  "live_request who request ms db =
     (if request = [] then None
      else case find (\<lambda>q. rq_actor q = who \<and> rq_request q = request \<and> rq_expires q > ms) (rd_requests db) of
             None \<Rightarrow> None
           | Some q \<Rightarrow> rq_response q)"

definition new_session :: "bytes \<Rightarrow> int \<Rightarrow> actor \<Rightarrow> session_input \<Rightarrow> bytes \<Rightarrow> remote_session" where
  "new_session new_id now who x label =
     \<lparr>ns_id = new_id, ns_workspace = ct_workspace x, ns_path = ct_path x, ns_label = label,
      ns_description = ct_description x, ns_status = ''active'', ns_owner = at_id who, ns_role = ''owner'',
      ns_git = ct_git x, ns_tree = ct_tree x, ns_environment = [], ns_version = 1, ns_created = now, ns_active = now,
      ns_closed = None\<rparr>"

definition session_row_of :: "remote_session \<Rightarrow> session_row" where
  "session_row_of s =
     \<lparr>rw_id = ns_id s, rw_workspace = ns_workspace s, rw_path = ns_path s, rw_label = ns_label s,
      rw_description = ns_description s, rw_status = ''active'', rw_owner = ns_owner s, rw_git = ns_git s, rw_tree = ns_tree s,
      rw_environment = [], rw_version = 1, rw_created = unix_milli (ns_created s), rw_active = unix_milli (ns_created s),
      rw_closed = None\<rparr>"

text \<open>The session in the recorded response: the path and the owner are not part of its JSON.\<close>

definition json_session :: "remote_env \<Rightarrow> remote_session \<Rightarrow> remote_session" where
  "json_session env s =
     s\<lparr>ns_id := rn_json_text env (ns_id s), ns_workspace := rn_json_text env (ns_workspace s), ns_path := [],
       ns_label := rn_json_text env (ns_label s), ns_description := rn_json_text env (ns_description s), ns_owner := [],
       ns_git := rn_json_text env (ns_git s), ns_tree := rn_json_text env (ns_tree s)\<rparr>"

definition created_event :: "remote_session \<Rightarrow> session_input \<Rightarrow> session_event" where
  "created_event s x =
     \<lparr>ue_client = ct_client x, ue_type = ''remote_session.created'', ue_operation = [], ue_summary = ns_label s,
      ue_resource = [], ue_metadata = ''null'', ue_created = Some (ns_created s)\<rparr>"

definition create_rows :: "remote_env \<Rightarrow> remote_session \<Rightarrow> session_input \<Rightarrow> remote_db \<Rightarrow> (remote_error, remote_db) result" where
  "create_rows env s x db =
     (let ms = unix_milli (ns_created s) in
      and_then (insert_session (session_row_of s) db) (\<lambda>db.
      and_then (insert_member \<lparr>mb_session = ns_id s, mb_actor = ns_owner s, mb_role = ''owner'', mb_joined = ms, mb_active = ms\<rparr> db) (\<lambda>db.
      and_then (record_client (ns_id s) (ns_owner s) (ct_client x) (ct_client_version x) ms db) (\<lambda>db.
      and_then (insert_session_event (ns_id s) (ns_owner s) (created_event s x) (ns_created s) db) (\<lambda>db.
      if ct_request x = [] then Inr db
      else insert_request
             \<lparr>rq_actor = ns_owner s, rq_request = ct_request x,
              rq_response = Some \<lparr>cs_session = json_session env s, cs_replayed = True\<rparr>, rq_created = ms,
              rq_expires = unix_milli (ns_created s + request_lifetime)\<rparr> db)))))"

text \<open>
  \<^verbatim>\<open>Create\<close>. A replay returns before the transaction is committed. \<open>io\<close>: every statement of the transaction
  gets through.
\<close>

definition create_session :: "remote_env \<Rightarrow> bool \<Rightarrow> bytes \<Rightarrow> int \<Rightarrow> actor \<Rightarrow> session_input \<Rightarrow> remote_db \<Rightarrow>
    remote_db \<times> (remote_error, session_result) result" where
  "create_session env io new_id now who x db =
     (if trim_space (ct_workspace x) = [] \<or> trim_space (ct_path x) = [] then (db, Inl R_Invalid)
      else if \<not> io then (db, Inl R_Store)
      else let label = (if trim_space (ct_label x) = [] then ''Remote development session'' else ct_label x);
               db1 = upsert_actor who (unix_milli now) db
        in case live_request (at_id who) (ct_request x) (unix_milli now) db1 of
             Some r \<Rightarrow> (db, Inr (r\<lparr>cs_replayed := True\<rparr>))
           | None \<Rightarrow>
               let s = new_session new_id now who x label in
               (case create_rows env s x db1 of
                  Inl e \<Rightarrow> (db, Inl e)
                | Inr db2 \<Rightarrow> (db2, Inr \<lparr>cs_session = s, cs_replayed = False\<rparr>)))"

section \<open>Listing\<close>

record list_input =
  li_workspace :: bytes
  li_statuses :: "bytes list"
  li_query :: bytes
  li_limit :: int
  li_cursor :: bytes

definition encode_cursor :: "remote_env \<Rightarrow> int \<Rightarrow> bytes \<Rightarrow> bytes" where
  "encode_cursor env at i = rn_b64 env (show_int at @ CHR ''|'' # i)"

definition decode_cursor :: "remote_env \<Rightarrow> bytes \<Rightarrow> (int \<times> bytes) option" where
  "decode_cursor env cursor =
     (if cursor = [] then None
      else case rn_unb64 env cursor of
             None \<Rightarrow> None
           | Some b \<Rightarrow>
               (case dropWhile (\<lambda>c. c \<noteq> CHR ''|'') b of
                  [] \<Rightarrow> None
                | _ # i \<Rightarrow> map_option (\<lambda>at. (at, i)) (atoi (takeWhile (\<lambda>c. c \<noteq> CHR ''|'') b))))"

definition list_limit :: "int \<Rightarrow> nat" where
  "list_limit limit = (if limit \<le> 0 \<or> limit > 100 then 20 else nat limit)"

text \<open>The WHERE clause without and with the cursor, and the key of the ORDER BY clause.\<close>

definition row_matches :: "remote_env \<Rightarrow> list_input \<Rightarrow> session_row \<Rightarrow> bool" where
  "row_matches env x r \<longleftrightarrow>
     (li_workspace x = [] \<or> rw_workspace r = li_workspace x) \<and>
     (li_query x = [] \<or> rn_like env (''%'' @ li_query x @ ''%'') (rw_id r) \<or>
        rn_like env (''%'' @ li_query x @ ''%'') (rw_label r) \<or> rn_like env (''%'' @ li_query x @ ''%'') (rw_description r)) \<and>
     (li_statuses x = [] \<or> rw_status r \<in> set (li_statuses x))"

definition listing_key :: "session_row \<times> member_row \<Rightarrow> int \<times> bytes" where
  "listing_key x = (rw_active (fst x), rw_id (fst x))"

definition before_cursor :: "(int \<times> bytes) option \<Rightarrow> session_row \<times> member_row \<Rightarrow> bool" where
  "before_cursor cursor x = (case cursor of None \<Rightarrow> True | Some (at, i) \<Rightarrow>
     rw_active (fst x) < at \<or> rw_active (fst x) = at \<and> rw_id (fst x) < i)"

definition list_sessions :: "remote_env \<Rightarrow> bytes \<Rightarrow> list_input \<Rightarrow> remote_db \<Rightarrow> remote_session list \<times> bytes" where
  "list_sessions env who x db =
     (let limit = list_limit (li_limit x);
          found = filter (\<lambda>r. row_matches env x (fst r) \<and> before_cursor (decode_cursor env (li_cursor x)) r) (joined_rows who db);
          sessions = map scan_session (take (limit + 1) (rev (sort_key listing_key found)))
      in if length sessions > limit
         then (take limit sessions,
               encode_cursor env (unix_milli (ns_active (sessions ! (limit - 1)))) (ns_id (sessions ! (limit - 1))))
         else (sessions, []))"

section \<open>Changing\<close>

text \<open>\<^verbatim>\<open>AddEvent\<close>.\<close>

definition add_event :: "bool \<Rightarrow> int \<Rightarrow> bytes \<Rightarrow> bytes \<Rightarrow> session_event \<Rightarrow> remote_db \<Rightarrow> remote_db \<times> (remote_error, unit) result" where
  "add_event io now who session e db =
     (case get_session who session db of
        Inl err \<Rightarrow> (db, Inl err)
      | Inr s \<Rightarrow>
          (case insert_session_event session who e (case ue_created e of None \<Rightarrow> now | Some at \<Rightarrow> at) db of
             Inl err \<Rightarrow> (db, Inl err)
           | Inr db' \<Rightarrow> if io then (db', Inr ()) else (db, Inl R_Store)))"

record update_input =
  ui_label :: bytes
  ui_description :: bytes
  ui_status :: bytes
  ui_expected :: int

text \<open>What the UPDATE statement of \<^verbatim>\<open>Update\<close> is given.\<close>

record update_values =
  wv_session :: bytes
  wv_label :: bytes
  wv_description :: bytes
  wv_status :: bytes
  wv_expected :: int

definition read_update :: "bytes \<Rightarrow> bytes \<Rightarrow> update_input \<Rightarrow> remote_db \<Rightarrow> (remote_error, update_values) result" where
  "read_update who session x db =
     (if ui_status x \<noteq> [] \<and> \<not> valid_session_status (ui_status x) then Inl R_Invalid
      else case get_session who session db of
        Inl e \<Rightarrow> Inl e
      | Inr s \<Rightarrow>
          if ns_role s \<noteq> ''owner'' \<and> ns_role s \<noteq> ''editor'' then Inl R_Forbidden
          else Inr \<lparr>wv_session = session,
                    wv_label = (if ui_label x = [] then ns_label s else ui_label x),
                    wv_description = (if ui_description x = [] then ns_description s else ui_description x),
                    wv_status = (if ui_status x = [] then ns_status s else ui_status x),
                    wv_expected = (if ui_expected x \<le> 0 then ns_version s else ui_expected x)\<rparr>)"

definition updated_row :: "int \<Rightarrow> update_values \<Rightarrow> session_row \<Rightarrow> session_row" where
  "updated_row now v r =
     r\<lparr>rw_label := wv_label v, rw_description := wv_description v, rw_status := wv_status v,
       rw_version := rw_version r + 1, rw_active := unix_milli now,
       rw_closed := (if wv_status v = ''closed'' \<or> wv_status v = ''archived'' then Some (unix_milli now) else rw_closed r)\<rparr>"

definition update_hits :: "update_values \<Rightarrow> session_row \<Rightarrow> bool" where
  "update_hits v r \<longleftrightarrow> rw_id r = wv_session v \<and> rw_version r = wv_expected v"

text \<open>The UPDATE statement; the CHECK on the status refuses before anything is written.\<close>

definition write_update :: "int \<Rightarrow> update_values \<Rightarrow> remote_db \<Rightarrow> (remote_error, remote_db) result" where
  "write_update now v db =
     (if \<not> list_ex (update_hits v) (rd_sessions db) then Inl R_Conflict
      else if \<not> valid_session_status (wv_status v) then Inl R_Store
      else Inr (db\<lparr>rd_sessions := map (\<lambda>r. if update_hits v r then updated_row now v r else r) (rd_sessions db)\<rparr>))"

definition update_event :: "int \<Rightarrow> update_values \<Rightarrow> session_event" where
  "update_event now v =
     \<lparr>ue_client = [], ue_type = ''remote_session.updated'', ue_operation = [], ue_summary = wv_label v, ue_resource = [],
      ue_metadata = ''null'', ue_created = Some now\<rparr>"

text \<open>
  \<^verbatim>\<open>Update\<close>, with \<open>others\<close> what other calls do between its reading and its writing. \<open>io 0\<close> is the UPDATE
  statement, \<open>io 1\<close> the event, whose failure is ignored.
\<close>

definition update_session :: "(nat \<Rightarrow> bool) \<Rightarrow> int \<Rightarrow> bytes \<Rightarrow> bytes \<Rightarrow> update_input \<Rightarrow> (remote_db \<Rightarrow> remote_db) \<Rightarrow> remote_db \<Rightarrow>
    remote_db \<times> (remote_error, remote_session) result" where
  "update_session io now who session x others db =
     (case read_update who session x db of
        Inl e \<Rightarrow> (db, Inl e)
      | Inr v \<Rightarrow>
          let db0 = others db in
          if \<not> io 0 then (db0, Inl R_Store)
          else (case write_update now v db0 of
             Inl e \<Rightarrow> (db0, Inl e)
           | Inr db1 \<Rightarrow>
               let db2 = fst (add_event (io 1) now who session (update_event now v) db1)
               in (db2, get_session who session db2)))"

text \<open>\<^verbatim>\<open>Close\<close>: what it passes to \<^verbatim>\<open>Update\<close>, and the whole call.\<close>

definition close_input :: "bytes \<Rightarrow> bytes \<Rightarrow> bytes \<Rightarrow> remote_db \<Rightarrow> (remote_error, update_input) result" where
  "close_input who session status0 db =
     (case get_session who session db of
        Inl e \<Rightarrow> Inl e
      | Inr s \<Rightarrow>
          let status = (if status0 = [] then ''closed'' else status0) in
          if ns_role s \<noteq> ''owner'' then Inl R_Forbidden
          else if status \<noteq> ''closed'' \<and> status \<noteq> ''archived'' then Inl R_Invalid
          else Inr \<lparr>ui_label = ns_label s, ui_description = ns_description s, ui_status = status, ui_expected = ns_version s\<rparr>)"

definition close_session :: "(nat \<Rightarrow> bool) \<Rightarrow> int \<Rightarrow> bytes \<Rightarrow> bytes \<Rightarrow> bytes \<Rightarrow> (nat \<Rightarrow> remote_db \<Rightarrow> remote_db) \<Rightarrow> remote_db \<Rightarrow>
    remote_db \<times> (remote_error, remote_session) result" where
  "close_session io now who session status others db =
     (case close_input who session status db of
        Inl e \<Rightarrow> (db, Inl e)
      | Inr x \<Rightarrow> update_session io now who session x (others 1) (others 0 db))"

definition set_environment :: "bool \<Rightarrow> int \<Rightarrow> bytes \<Rightarrow> bytes \<Rightarrow> bytes \<Rightarrow> remote_db \<Rightarrow> remote_db \<times> (remote_error, unit) result" where
  "set_environment io now who session snapshot db =
     (case get_session who session db of
        Inl e \<Rightarrow> (db, Inl e)
      | Inr s \<Rightarrow>
          if \<not> io then (db, Inl R_Store)
          else (db\<lparr>rd_sessions := map (\<lambda>r. if rw_id r = session
                 then r\<lparr>rw_environment := snapshot, rw_version := rw_version r + 1, rw_active := unix_milli now\<rparr> else r)
                 (rd_sessions db)\<rparr>, Inr ()))"

section \<open>Events\<close>

record events_input =
  qe_types :: "bytes list"
  qe_after :: int
  qe_limit :: int

definition events_limit :: "int \<Rightarrow> nat" where
  "events_limit limit = (if limit \<le> 0 \<or> limit > 200 then 50 else nat limit)"

definition session_events :: "bytes \<Rightarrow> bytes \<Rightarrow> events_input \<Rightarrow> remote_db \<Rightarrow> (remote_error, session_event_row list) result" where
  "session_events who session x db =
     (case get_session who session db of
        Inl e \<Rightarrow> Inl e
      | Inr s \<Rightarrow>
          Inr (take (events_limit (qe_limit x)) (sort_key xe_sequence
            (filter (\<lambda>r. xe_session r = session \<and> xe_sequence r > qe_after x \<and>
               (qe_types x = [] \<or> xe_type r \<in> set (qe_types x))) (rd_events db)))))"

section \<open>Touching\<close>

text \<open>The times of the last writes, by actor and session, are in the memory of the process.\<close>

record remote_service =
  rv_db :: remote_db
  rv_touched :: "(bytes \<times> int) list"

definition touch_interval :: int where
  "touch_interval = 1000000000"

definition touch_key :: "bytes \<Rightarrow> bytes \<Rightarrow> bytes" where
  "touch_key who session = who @ CHR 0x00 # session"

definition touched_lately :: "int \<Rightarrow> int option \<Rightarrow> bool" where
  "touched_lately now previous =
     (case previous of None \<Rightarrow> False | Some before \<Rightarrow> \<not> now < before \<and> now - before < touch_interval)"

text \<open>The three statements, each of which may fail alone.\<close>

definition touch_rows :: "(nat \<Rightarrow> bool) \<Rightarrow> int \<Rightarrow> bytes \<Rightarrow> bytes \<Rightarrow> bytes \<Rightarrow> bytes \<Rightarrow> remote_db \<Rightarrow> remote_db" where
  "touch_rows io ms who session client version db =
     (let db1 = (if io 0 then db\<lparr>rd_sessions := map (\<lambda>r. if rw_id r = session then r\<lparr>rw_active := ms\<rparr> else r) (rd_sessions db)\<rparr>
                 else db);
          db2 = (if io 1 then db1\<lparr>rd_members := map (\<lambda>m. if mb_session m = session \<and> mb_actor m = who
                    then m\<lparr>mb_active := ms\<rparr> else m) (rd_members db1)\<rparr> else db1)
      in if io 2 then (case record_client session who client version ms db2 of Inl e \<Rightarrow> db2 | Inr db3 \<Rightarrow> db3) else db2)"

definition touch_session :: "(nat \<Rightarrow> bool) \<Rightarrow> int \<Rightarrow> bytes \<Rightarrow> bytes \<Rightarrow> bytes \<Rightarrow> bytes \<Rightarrow> remote_service \<Rightarrow> remote_service" where
  "touch_session io now who session0 client version s =
     (let session = trim_space session0; key = touch_key who session in
      if session = [] \<or> trim_space who = [] then s
      else if touched_lately now (map_of (rv_touched s) key) then s
      else let s1 = s\<lparr>rv_touched := (key, now) # filter (\<lambda>e. fst e \<noteq> key) (rv_touched s)\<rparr> in
        (case get_session who session (rv_db s1) of
           Inl e \<Rightarrow> s1
         | Inr x \<Rightarrow> s1\<lparr>rv_db := touch_rows io (unix_milli now) who session client version (rv_db s1)\<rparr>))"

section \<open>Housekeeping\<close>

text \<open>\<^verbatim>\<open>deleteExpiredEphemeral\<close> of \<^verbatim>\<open>internal/state/retention.go\<close> on the recorded requests.\<close>

definition retention_batch :: nat where
  "retention_batch = 500"

definition purge_requests :: "int \<Rightarrow> remote_db \<Rightarrow> remote_db" where
  "purge_requests now db =
     (let doomed = take retention_batch (sort_key rq_expires (filter (\<lambda>q. rq_expires q \<le> unix_milli now) (rd_requests db)))
      in db\<lparr>rd_requests := filter (\<lambda>q. (rq_actor q, rq_request q) \<notin> (\<lambda>d. (rq_actor d, rq_request d)) ` set doomed) (rd_requests db)\<rparr>)"

end
