(* ===== verification/Remote_System.thy ===== *)
theory Remote_System
  imports Remote_Session
begin

text \<open>
  The remote sessions as a system: the pieces of \<^verbatim>\<open>Service\<close> that change its state, in any order and by any
  callers, the restart of the process and the housekeeping among them. The UPDATE statement of \<^verbatim>\<open>Update\<close> and
  \<^verbatim>\<open>Close\<close> is a piece of its own, with whatever values an earlier reading has given it. Then the interface
  \<open>versioned\<close> of rows guarded by a version number, and the invariant of the tables.
\<close>

section \<open>Calls\<close>

datatype remote_call =
    Do_Create bool bytes int actor session_input
  | Do_Write int update_values
  | Do_Event bool int bytes bytes session_event
  | Do_Touch "nat \<Rightarrow> bool" int bytes bytes bytes bytes
  | Do_Environment bool int bytes bytes bytes
  | Do_Purge int
  | Do_Restart

definition on_db :: "(remote_db \<Rightarrow> remote_db) \<Rightarrow> remote_service \<Rightarrow> remote_service" where
  "on_db f s = s\<lparr>rv_db := f (rv_db s)\<rparr>"

definition written :: "(remote_error, remote_db) result \<Rightarrow> remote_db \<Rightarrow> remote_db" where
  "written r db = (case r of Inl e \<Rightarrow> db | Inr db' \<Rightarrow> db')"

fun remote_step :: "remote_env \<Rightarrow> remote_call \<Rightarrow> remote_service \<Rightarrow> remote_service" where
  "remote_step env (Do_Create io i now who x) s = on_db (\<lambda>db. fst (create_session env io i now who x db)) s"
| "remote_step env (Do_Write now v) s = on_db (\<lambda>db. written (write_update now v db) db) s"
| "remote_step env (Do_Event io now who session e) s = on_db (\<lambda>db. fst (add_event io now who session e db)) s"
| "remote_step env (Do_Touch io now who session client version) s = touch_session io now who session client version s"
| "remote_step env (Do_Environment io now who session snapshot) s =
     on_db (\<lambda>db. fst (set_environment io now who session snapshot db)) s"
| "remote_step env (Do_Purge now) s = on_db (purge_requests now) s"
| "remote_step env Do_Restart s = s\<lparr>rv_touched := []\<rparr>"

definition run_remote :: "remote_env \<Rightarrow> remote_call list \<Rightarrow> remote_service \<Rightarrow> remote_service" where
  "run_remote env cs s = foldl (\<lambda>s c. remote_step env c s) s cs"

definition remote_run :: "remote_env \<Rightarrow> remote_call list \<Rightarrow> remote_service" where
  "remote_run env cs = run_remote env cs \<lparr>rv_db = empty_remote_db, rv_touched = []\<rparr>"

lemma run_remote_simps [simp]: "run_remote env [] s = s" "run_remote env (c # cs) s = run_remote env cs (remote_step env c s)"
  by (simp_all add: run_remote_def)

lemma remote_run_snoc: "remote_run env (cs @ [c]) = remote_step env c (remote_run env cs)"
  by (simp add: remote_run_def run_remote_def)

lemma on_db_simps [simp]: "rv_db (on_db f s) = f (rv_db s)" "rv_touched (on_db f s) = rv_touched s"
  by (simp_all add: on_db_def)

section \<open>Rows guarded by a version\<close>

text \<open>
  A table whose rows carry a version: no step takes a row away or its version back, and a step that leaves
  the version leaves the content.
\<close>

locale versioned =
  fixes ok :: "'s \<Rightarrow> bool"
    and rows :: "'s \<Rightarrow> 'r list"
    and key :: "'r \<Rightarrow> 'k"
    and version :: "'r \<Rightarrow> int"
    and content :: "'r \<Rightarrow> 'c"
    and step :: "'e \<Rightarrow> 's \<Rightarrow> 's"
  assumes ok_step: "ok s \<Longrightarrow> ok (step e s)"
    and keys: "ok s \<Longrightarrow> distinct (map key (rows s))"
    and step_keeps: "ok s \<Longrightarrow> r \<in> set (rows s) \<Longrightarrow> \<exists>r' \<in> set (rows (step e s)). key r' = key r \<and> version r \<le> version r' \<and>
      (version r' = version r \<longrightarrow> content r' = content r)"
begin

lemma same_row: "ok s \<Longrightarrow> r \<in> set (rows s) \<Longrightarrow> r' \<in> set (rows s) \<Longrightarrow> key r' = key r \<Longrightarrow> r' = r"
  using keys [of s] by (auto simp: distinct_map dest: inj_onD)

lemma ok_steps: "ok s \<Longrightarrow> ok (foldl (\<lambda>s e. step e s) s es)"
  by (induction es arbitrary: s) (simp_all add: ok_step)

lemma steps_keep:
  "ok s \<Longrightarrow> r \<in> set (rows s) \<Longrightarrow> \<exists>r' \<in> set (rows (foldl (\<lambda>s e. step e s) s es)). key r' = key r \<and>
     version r \<le> version r' \<and> (version r' = version r \<longrightarrow> content r' = content r)"
proof (induction es arbitrary: s r)
  case (Cons e es)
  obtain r1 where r1: "r1 \<in> set (rows (step e s))" "key r1 = key r" "version r \<le> version r1"
    "version r1 = version r \<longrightarrow> content r1 = content r"
    using step_keeps [OF Cons.prems] by blast
  obtain r2 where "r2 \<in> set (rows (foldl (\<lambda>s e. step e s) (step e s) es))" "key r2 = key r1" "version r1 \<le> version r2"
    "version r2 = version r1 \<longrightarrow> content r2 = content r1"
    using Cons.IH [OF ok_step [OF Cons.prems(1)] r1(1)] by blast
  then show ?case using r1 by (intro bexI [of _ r2]) auto
qed auto

lemma later_row:
  assumes "ok s" "r \<in> set (rows s)" "r' \<in> set (rows (foldl (\<lambda>s e. step e s) s es))" "key r' = key r"
  shows "version r \<le> version r'" "version r' = version r \<Longrightarrow> content r' = content r"
  using steps_keep [OF assms(1,2), of es] same_row [OF ok_steps [OF assms(1)] assms(3)] assms(4) by metis+

end

section \<open>The invariant\<close>

definition session_ok :: "session_row \<Rightarrow> bool" where
  "session_ok r \<longleftrightarrow> valid_session_status (rw_status r) \<and> 1 \<le> rw_version r \<and>
     (rw_status r \<in> {''closed'', ''archived''} \<longrightarrow> rw_closed r \<noteq> None)"

definition events_ok :: "session_row list \<Rightarrow> session_event_row list \<Rightarrow> int \<Rightarrow> bool" where
  "events_ok rows es n \<longleftrightarrow> sorted_wrt (<) (map xe_sequence es) \<and> list_all (\<lambda>e. 1 \<le> xe_sequence e \<and> xe_sequence e < n) es \<and>
     xe_session ` set es \<subseteq> rw_id ` set rows \<and> 1 \<le> n"

text \<open>A member, without its times, and the only member a session ever has.\<close>

definition member_core :: "member_row \<Rightarrow> bytes \<times> bytes \<times> bytes" where
  "member_core m = (mb_session m, mb_actor m, mb_role m)"

definition owner_core :: "session_row \<Rightarrow> bytes \<times> bytes \<times> bytes" where
  "owner_core r = (rw_id r, rw_owner r, ''owner'')"

definition request_key :: "request_row \<Rightarrow> bytes \<times> bytes" where
  "request_key q = (rq_actor q, rq_request q)"

definition remote_ok :: "remote_db \<Rightarrow> bool" where
  "remote_ok db \<longleftrightarrow> distinct (map rw_id (rd_sessions db)) \<and> list_all session_ok (rd_sessions db) \<and>
     map member_core (rd_members db) = map owner_core (rd_sessions db) \<and>
     events_ok (rd_sessions db) (rd_events db) (rd_next db) \<and> distinct (map request_key (rd_requests db))"

text \<open>A change of a session's row that keeps its identity, its owner and its well-formedness.\<close>

definition harmless :: "(session_row \<Rightarrow> session_row) \<Rightarrow> bool" where
  "harmless f \<longleftrightarrow> (\<forall>r. rw_id (f r) = rw_id r \<and> rw_owner (f r) = rw_owner r \<and> (session_ok r \<longrightarrow> session_ok (f r)))"

lemma harmless_ok:
  assumes "harmless f" "remote_ok db" "rd_sessions db' = map f (rd_sessions db)"
    "map member_core (rd_members db') = map member_core (rd_members db)" "rd_events db' = rd_events db"
    "rd_next db' = rd_next db" "rd_requests db' = rd_requests db"
  shows "remote_ok db'"
proof -
  have f: "rw_id \<circ> f = rw_id" "owner_core \<circ> f = owner_core"
    using assms(1) by (auto simp: harmless_def owner_core_def fun_eq_iff)
  then have "rw_id ` set (rd_sessions db') = rw_id ` set (rd_sessions db)" unfolding assms(3) by (metis image_comp set_map)
  then show ?thesis using assms f by (auto simp: remote_ok_def list_all_iff harmless_def events_ok_def)
qed

lemma insert_event_keeps:
  assumes "insert_session_event session who e at db = Inr db'"
  shows "rd_sessions db' = rd_sessions db" "rd_members db' = rd_members db" "rd_requests db' = rd_requests db"
    "rd_actors db' = rd_actors db" "events_ok (rd_sessions db) (rd_events db) (rd_next db) \<Longrightarrow>
     events_ok (rd_sessions db') (rd_events db') (rd_next db')"
proof -
  have e: "session \<in> rw_id ` set (rd_sessions db)"
    "db' = db\<lparr>rd_events := rd_events db @
             [\<lparr>xe_sequence = rd_next db, xe_session = session, xe_actor = who, xe_client = ue_client e, xe_type = ue_type e,
               xe_operation = ue_operation e, xe_summary = ue_summary e, xe_resource = ue_resource e,
               xe_metadata = ue_metadata e, xe_created = unix_milli at\<rparr>],
           rd_next := rd_next db + 1\<rparr>"
    using assms by (auto simp: insert_session_event_def split: if_splits)
  show "rd_sessions db' = rd_sessions db" "rd_members db' = rd_members db" "rd_requests db' = rd_requests db"
    "rd_actors db' = rd_actors db" by (simp_all add: e(2))
  assume ok: "events_ok (rd_sessions db) (rd_events db) (rd_next db)"
  then have less: "x \<in> set (rd_events db) \<Longrightarrow> xe_sequence x < rd_next db" for x by (simp add: events_ok_def list_all_iff)
  then have "list_all (\<lambda>x. xe_sequence x < rd_next db + 1) (rd_events db)" by (force simp: list_all_iff)
  then show "events_ok (rd_sessions db') (rd_events db') (rd_next db')"
    using ok less e(1) by (simp add: e(2) events_ok_def sorted_wrt_append list_all_iff)
qed

lemma record_client_keeps:
  assumes "record_client session who client version ms db = Inr db'"
  shows "rd_sessions db' = rd_sessions db" "rd_members db' = rd_members db" "rd_requests db' = rd_requests db"
    "rd_actors db' = rd_actors db" "rd_events db' = rd_events db" "rd_next db' = rd_next db"
  using assms by (auto simp: record_client_def Let_def split: if_splits)

lemma upsert_actor_keeps [simp]:
  "rd_sessions (upsert_actor who ms db) = rd_sessions db" "rd_members (upsert_actor who ms db) = rd_members db"
  "rd_requests (upsert_actor who ms db) = rd_requests db" "rd_events (upsert_actor who ms db) = rd_events db"
  "rd_next (upsert_actor who ms db) = rd_next db"
  by (simp_all add: upsert_actor_def)

text \<open>What a creation writes.\<close>

lemma create_rows_ok:
  assumes "create_rows env s x db = Inr db'"
  shows "rd_sessions db' = rd_sessions db @ [session_row_of s]" "ns_id s \<notin> rw_id ` set (rd_sessions db)"
    "map member_core (rd_members db') = map member_core (rd_members db) @ [(ns_id s, ns_owner s, ''owner'')]"
    "rd_requests db' = rd_requests db @ (if ct_request x = [] then [] else
       [\<lparr>rq_actor = ns_owner s, rq_request = ct_request x,
         rq_response = Some \<lparr>cs_session = json_session env s, cs_replayed = True\<rparr>, rq_created = unix_milli (ns_created s),
         rq_expires = unix_milli (ns_created s + request_lifetime)\<rparr>])"
    "ct_request x \<noteq> [] \<Longrightarrow> (ns_owner s, ct_request x) \<notin> request_key ` set (rd_requests db)"
    "events_ok (rd_sessions db) (rd_events db) (rd_next db) \<Longrightarrow> events_ok (rd_sessions db') (rd_events db') (rd_next db')"
proof -
  obtain d1 d2 d3 d4 where steps: "insert_session (session_row_of s) db = Inr d1"
    "insert_member \<lparr>mb_session = ns_id s, mb_actor = ns_owner s, mb_role = ''owner'', mb_joined = unix_milli (ns_created s),
       mb_active = unix_milli (ns_created s)\<rparr> d1 = Inr d2"
    "record_client (ns_id s) (ns_owner s) (ct_client x) (ct_client_version x) (unix_milli (ns_created s)) d2 = Inr d3"
    "insert_session_event (ns_id s) (ns_owner s) (created_event s x) (ns_created s) d3 = Inr d4"
    and last: "(if ct_request x = [] then Inr d4
      else insert_request
             \<lparr>rq_actor = ns_owner s, rq_request = ct_request x,
              rq_response = Some \<lparr>cs_session = json_session env s, cs_replayed = True\<rparr>, rq_created = unix_milli (ns_created s),
              rq_expires = unix_milli (ns_created s + request_lifetime)\<rparr> d4) = Inr db'"
    using assms unfolding create_rows_def Let_def by (auto simp only: and_then_ok)
  have d1: "rd_sessions d1 = rd_sessions db @ [session_row_of s]" "rd_members d1 = rd_members db" "rd_requests d1 = rd_requests db"
    "rd_events d1 = rd_events db" "rd_next d1 = rd_next db" "rw_id (session_row_of s) \<notin> rw_id ` set (rd_sessions db)"
    using steps(1) by (auto simp: insert_session_def split: if_splits)
  have d2: "rd_sessions d2 = rd_sessions d1" "map member_core (rd_members d2) = map member_core (rd_members d1) @ [(ns_id s, ns_owner s, ''owner'')]"
    "rd_requests d2 = rd_requests d1" "rd_events d2 = rd_events d1" "rd_next d2 = rd_next d1"
    using steps(2) by (auto simp: insert_member_def member_core_def split: if_splits)
  note d3 = record_client_keeps [OF steps(3)] and d4 = insert_event_keeps [OF steps(4)]
  have db': "rd_sessions db' = rd_sessions d4" "rd_members db' = rd_members d4" "rd_events db' = rd_events d4" "rd_next db' = rd_next d4"
    using last by (auto simp: insert_request_def split: if_splits)
  show "rd_sessions db' = rd_sessions db @ [session_row_of s]" using db' d4 d3 d2 d1 by simp
  show "ns_id s \<notin> rw_id ` set (rd_sessions db)" using d1(6) by (simp add: session_row_of_def)
  show "map member_core (rd_members db') = map member_core (rd_members db) @ [(ns_id s, ns_owner s, ''owner'')]"
    using db' d4 d3 d2 d1 by simp
  have requests: "rd_requests d4 = rd_requests db" using d4 d3 d2 d1 by simp
  show "rd_requests db' = rd_requests db @ (if ct_request x = [] then [] else
       [\<lparr>rq_actor = ns_owner s, rq_request = ct_request x,
         rq_response = Some \<lparr>cs_session = json_session env s, cs_replayed = True\<rparr>, rq_created = unix_milli (ns_created s),
         rq_expires = unix_milli (ns_created s + request_lifetime)\<rparr>])"
    using last requests by (auto simp: insert_request_def split: if_splits)
  show "(ns_owner s, ct_request x) \<notin> request_key ` set (rd_requests db)" if "ct_request x \<noteq> []"
    using last that requests by (auto simp: insert_request_def request_key_def [abs_def] split: if_splits)
  assume ev: "events_ok (rd_sessions db) (rd_events db) (rd_next db)"
  then have "events_ok (rd_sessions d3) (rd_events d3) (rd_next d3)" using d3 d2 d1 by (auto simp: events_ok_def)
  then have "events_ok (rd_sessions d4) (rd_events d4) (rd_next d4)" by (rule d4(5))
  then show "events_ok (rd_sessions db') (rd_events db') (rd_next db')" using db' by simp
qed

lemma create_session_cases:
  obtains (Unchanged) "fst (create_session env io i now who x db) = db"
      "\<And>r. snd (create_session env io i now who x db) = Inr r \<Longrightarrow> cs_replayed r"
  | (Created) s db' where "s = new_session i now who x (if trim_space (ct_label x) = [] then ''Remote development session'' else ct_label x)"
      "create_rows env s x (upsert_actor who (unix_milli now) db) = Inr db'"
      "create_session env io i now who x db = (db', Inr \<lparr>cs_session = s, cs_replayed = False\<rparr>)"
      "live_request (at_id who) (ct_request x) (unix_milli now) db = None"
proof -
  define s where "s = new_session i now who x (if trim_space (ct_label x) = [] then ''Remote development session'' else ct_label x)"
  let ?db1 = "upsert_actor who (unix_milli now) db" and ?live = "live_request (at_id who) (ct_request x) (unix_milli now)"
  have live: "?live ?db1 = ?live db" by (simp add: live_request_def)
  show thesis
  proof (cases "trim_space (ct_workspace x) = [] \<or> trim_space (ct_path x) = [] \<or> \<not> io")
    case True
    then show thesis by (intro Unchanged) (auto simp: create_session_def split: if_splits)
  next
    case False
    then have c: "create_session env io i now who x db =
        (case ?live db of
           Some r \<Rightarrow> (db, Inr (r\<lparr>cs_replayed := True\<rparr>))
         | None \<Rightarrow> (case create_rows env s x ?db1 of Inl e \<Rightarrow> (db, Inl e)
             | Inr db2 \<Rightarrow> (db2, Inr \<lparr>cs_session = s, cs_replayed = False\<rparr>)))"
      unfolding create_session_def Let_def live s_def [symmetric] by simp
    show thesis
    proof (cases "?live db")
      case None
      show thesis
      proof (cases "create_rows env s x ?db1")
        case (Inl e)
        then show thesis using c None by (intro Unchanged) simp_all
      next
        case (Inr db')
        then show thesis using c None by (intro Created [OF s_def]) simp_all
      qed
    next
      case (Some r)
      then show thesis using c by (intro Unchanged) auto
    qed
  qed
qed

section \<open>Every step keeps it\<close>

lemma session_row_of_ok: "session_ok (session_row_of s)"
  by (simp add: session_ok_def session_row_of_def valid_session_status_def session_statuses_def)

lemma create_session_ok:
  assumes "remote_ok db"
  shows "remote_ok (fst (create_session env io i now who x db))"
proof (cases rule: create_session_cases [of env io i now who x db])
  case (Created s db')
  note c = create_rows_ok [OF Created(2)]
  have "owner_core (session_row_of s) = (ns_id s, ns_owner s, ''owner'')" "rw_id (session_row_of s) = ns_id s"
    by (simp_all add: owner_core_def session_row_of_def)
  moreover have "distinct (map request_key (rd_requests db'))"
    using c(4,5) assms by (simp add: remote_ok_def request_key_def)
  moreover have "events_ok (rd_sessions db') (rd_events db') (rd_next db')" using c(6) assms by (simp add: remote_ok_def)
  ultimately have "remote_ok db'" using assms c(1-3) session_row_of_ok unfolding remote_ok_def by simp
  then show ?thesis using Created(3) by simp
qed (use assms in simp)

lemma updated_row_good:
  "valid_session_status (wv_status v) \<Longrightarrow> harmless (\<lambda>r. if update_hits v r then updated_row now v r else r)"
  by (auto simp: harmless_def updated_row_def session_ok_def)

lemma write_update_ok:
  assumes "remote_ok db" "write_update now v db = Inr db'"
  shows "remote_ok db'"
proof -
  have v: "valid_session_status (wv_status v)"
    "db' = db\<lparr>rd_sessions := map (\<lambda>r. if update_hits v r then updated_row now v r else r) (rd_sessions db)\<rparr>"
    using assms(2) by (auto simp: write_update_def split: if_splits)
  show ?thesis by (rule harmless_ok [OF updated_row_good [OF v(1), of now] assms(1)]) (simp_all add: v(2))
qed

lemma add_event_keeps:
  "rd_sessions (fst (add_event io now who session e db)) = rd_sessions db"
  "remote_ok db \<Longrightarrow> remote_ok (fst (add_event io now who session e db))"
  "rd_requests (fst (add_event io now who session e db)) = rd_requests db"
  using insert_event_keeps [of session who e _ db]
  by (auto simp: add_event_def remote_ok_def split: sum.splits option.splits)

lemma set_environment_cases:
  obtains "fst (set_environment io now who session snapshot db) = db"
  | "fst (set_environment io now who session snapshot db) =
      db\<lparr>rd_sessions := map (\<lambda>r. if rw_id r = session
         then r\<lparr>rw_environment := snapshot, rw_version := rw_version r + 1, rw_active := unix_milli now\<rparr> else r) (rd_sessions db)\<rparr>"
  by (cases "get_session who session db"; cases io) (auto simp: set_environment_def)

lemma set_environment_ok:
  assumes "remote_ok db"
  shows "remote_ok (fst (set_environment io now who session snapshot db))"
proof (cases rule: set_environment_cases [of io now who session snapshot db])
  case 2
  have good: "harmless (\<lambda>r. if rw_id r = session
      then r\<lparr>rw_environment := snapshot, rw_version := rw_version r + 1, rw_active := unix_milli now\<rparr> else r)"
    by (auto simp: harmless_def session_ok_def)
  show ?thesis by (rule harmless_ok [OF good assms]) (simp_all add: 2)
qed (use assms in simp)

definition touched_row :: "(nat \<Rightarrow> bool) \<Rightarrow> int \<Rightarrow> bytes \<Rightarrow> session_row \<Rightarrow> session_row" where
  "touched_row io ms session r = (if io 0 \<and> rw_id r = session then r\<lparr>rw_active := ms\<rparr> else r)"

lemma touch_rows_keeps:
  "rd_sessions (touch_rows io ms who session client version db) = map (touched_row io ms session) (rd_sessions db)"
  "map member_core (rd_members (touch_rows io ms who session client version db)) = map member_core (rd_members db)"
  "rd_events (touch_rows io ms who session client version db) = rd_events db"
  "rd_next (touch_rows io ms who session client version db) = rd_next db"
  "rd_requests (touch_rows io ms who session client version db) = rd_requests db"
proof -
  define d1 where "d1 = (if io 0 then db\<lparr>rd_sessions := map (\<lambda>r. if rw_id r = session then r\<lparr>rw_active := ms\<rparr> else r) (rd_sessions db)\<rparr>
    else db)"
  define d2 where "d2 = (if io 1 then d1\<lparr>rd_members := map (\<lambda>m. if mb_session m = session \<and> mb_actor m = who
    then m\<lparr>mb_active := ms\<rparr> else m) (rd_members d1)\<rparr> else d1)"
  have t: "touch_rows io ms who session client version db =
      (if io 2 then case record_client session who client version ms d2 of Inl e \<Rightarrow> d2 | Inr d3 \<Rightarrow> d3 else d2)"
    by (simp only: touch_rows_def d1_def d2_def Let_def)
  have d: "rd_sessions d2 = map (touched_row io ms session) (rd_sessions db)" "map member_core (rd_members d2) = map member_core (rd_members db)"
    "rd_events d2 = rd_events db" "rd_next d2 = rd_next db" "rd_requests d2 = rd_requests db"
    by (auto simp: d1_def d2_def touched_row_def [abs_def] member_core_def map_idI)
  obtain d3 where d3: "touch_rows io ms who session client version db = d3" "d3 = d2 \<or> record_client session who client version ms d2 = Inr d3"
    unfolding t by (cases "io 2"; cases "record_client session who client version ms d2") auto
  have "rd_sessions d3 = rd_sessions d2" "rd_members d3 = rd_members d2" "rd_events d3 = rd_events d2" "rd_next d3 = rd_next d2"
    "rd_requests d3 = rd_requests d2"
    using d3(2) record_client_keeps [of session who client version ms d2 d3] by blast+
  then show "rd_sessions (touch_rows io ms who session client version db) = map (touched_row io ms session) (rd_sessions db)"
    "map member_core (rd_members (touch_rows io ms who session client version db)) = map member_core (rd_members db)"
    "rd_events (touch_rows io ms who session client version db) = rd_events db"
    "rd_next (touch_rows io ms who session client version db) = rd_next db"
    "rd_requests (touch_rows io ms who session client version db) = rd_requests db"
    unfolding d3(1) using d by simp_all
qed

lemma if_disj_eq: "(if a \<or> b then x else if c then x else y) = (if a \<or> b \<or> c then x else y)"
  by simp

lemma touch_session_db:
  obtains "rv_db (touch_session io now who session client version s) = rv_db s"
  | i where "rv_db (touch_session io now who session client version s) =
      touch_rows io (unix_milli now) who i client version (rv_db s)"
proof -
  define skip where "skip \<longleftrightarrow> trim_space session = [] \<or> trim_space who = [] \<or>
    touched_lately now (map_of (rv_touched s) (touch_key who (trim_space session)))"
  define s1 where "s1 = s\<lparr>rv_touched := (touch_key who (trim_space session), now) #
    filter (\<lambda>e. fst e \<noteq> touch_key who (trim_space session)) (rv_touched s)\<rparr>"
  have db: "rv_db s1 = rv_db s" by (simp add: s1_def)
  have "touch_session io now who session client version s =
      (if skip then s
       else case get_session who (trim_space session) (rv_db s1) of Inl e \<Rightarrow> s1
            | Inr x \<Rightarrow> s1\<lparr>rv_db := touch_rows io (unix_milli now) who (trim_space session) client version (rv_db s1)\<rparr>)"
    unfolding touch_session_def Let_def skip_def s1_def by (rule if_disj_eq)
  then show thesis using that db by (cases skip; cases "get_session who (trim_space session) (rv_db s)") auto
qed

lemma touch_session_ok:
  assumes "remote_ok (rv_db s)"
  shows "remote_ok (rv_db (touch_session io now who session client version s))"
proof (cases rule: touch_session_db [of io now who session client version s])
  case (2 i)
  have good: "harmless (touched_row io (unix_milli now) i)" by (auto simp: harmless_def touched_row_def session_ok_def)
  show ?thesis unfolding 2 by (rule harmless_ok [OF good assms]) (simp_all add: touch_rows_keeps)
qed (use assms in simp)

lemma purge_requests_ok: "remote_ok db \<Longrightarrow> remote_ok (purge_requests now db)"
  by (simp add: remote_ok_def purge_requests_def Let_def distinct_map_filter)

lemma remote_step_ok: "remote_ok (rv_db s) \<Longrightarrow> remote_ok (rv_db (remote_step env c s))"
  by (cases c) (auto simp: create_session_ok add_event_keeps touch_session_ok set_environment_ok purge_requests_ok written_def
      dest: write_update_ok split: sum.splits)

lemma run_remote_ok: "remote_ok (rv_db s) \<Longrightarrow> remote_ok (rv_db (run_remote env cs s))"
  by (induction cs arbitrary: s) (simp_all add: remote_step_ok)

lemma empty_remote_ok: "remote_ok empty_remote_db"
  by (simp add: remote_ok_def empty_remote_db_def events_ok_def)

lemma remote_run_ok: "remote_ok (rv_db (remote_run env cs))"
  unfolding remote_run_def by (rule run_remote_ok) (simp add: empty_remote_ok)

text \<open>Without a failure, \<^verbatim>\<open>Update\<close> is its two writing pieces after its reading.\<close>

lemma update_session_pieces:
  assumes "read_update who session x db = Inr v" "write_update now v (others db) = Inr db1" "rv_db s = others db"
  shows "fst (update_session (\<lambda>_. True) now who session x others db) =
    rv_db (run_remote env [Do_Write now v, Do_Event True now who session (update_event now v)] s)"
  using assms by (simp add: update_session_def Let_def written_def)

section \<open>A small run\<close>

definition sample_remote_env :: remote_env where
  "sample_remote_env = \<lparr>rn_like = (\<lambda>p s. contains_sub s (filter (\<lambda>c. c \<noteq> CHR ''%'') p)), rn_b64 = (\<lambda>b. b), rn_unb64 = Some,
     rn_json_text = (\<lambda>s. s)\<rparr>"

definition sample_actor :: actor where
  "sample_actor = \<lparr>at_id = ''oauth:a'', at_kind = ''oauth'', at_hash = ''a''\<rparr>"

definition sample_session_input :: session_input where
  "sample_session_input = \<lparr>ct_workspace = ''w'', ct_path = ''/w'', ct_label = ''one'', ct_description = [], ct_git = [], ct_tree = [],
     ct_request = ''q'', ct_client = [], ct_client_version = []\<rparr>"

definition sample_creations :: "remote_call list" where
  "sample_creations = [Do_Create True ''rs1'' 5000000 sample_actor sample_session_input,
     Do_Create True ''rs2'' 6000000 sample_actor (sample_session_input\<lparr>ct_request := [], ct_label := ''two''\<rparr>)]"

definition sample_relabel :: update_input where
  "sample_relabel = \<lparr>ui_label = ''new'', ui_description = [], ui_status = [], ui_expected = 0\<rparr>"

end
