(* ===== verification/Remote_Safety.thy ===== *)
theory Remote_Safety
  imports Remote_System
begin

text \<open>
  What the remote sessions promise: an update never overwrites a change it has not seen, a session is visible
  to the one who created it, a repeated creation is replayed, and the pages of a listing make up the listing.
\<close>

section \<open>What a step does to the sessions\<close>

text \<open>Everything of a row but its version and the time of its last use.\<close>

definition row_content :: "session_row \<Rightarrow> session_row" where
  "row_content r = r\<lparr>rw_version := 0, rw_active := 0\<rparr>"

definition careful :: "(session_row \<Rightarrow> session_row) \<Rightarrow> bool" where
  "careful f \<longleftrightarrow> (\<forall>r. rw_id (f r) = rw_id r \<and> rw_owner (f r) = rw_owner r \<and> rw_version r \<le> rw_version (f r) \<and>
     (rw_version (f r) = rw_version r \<longrightarrow> row_content (f r) = row_content r))"

fun creates :: "bytes \<Rightarrow> bytes \<Rightarrow> remote_call \<Rightarrow> bool" where
  "creates who session (Do_Create io i now x inp) \<longleftrightarrow> at_id x = who \<and> i = session"
| "creates who session _ \<longleftrightarrow> False"

lemma careful_id: "careful (\<lambda>r. r)"
  by (simp add: careful_def)

lemma careful_change:
  "careful (\<lambda>r. if update_hits v r then updated_row now v r else r)"
  "careful (\<lambda>r. if rw_id r = session then r\<lparr>rw_environment := snapshot, rw_version := rw_version r + 1, rw_active := ms\<rparr> else r)"
  "careful (touched_row io ms session)"
  by (auto simp: careful_def updated_row_def touched_row_def row_content_def)

lemma step_rows:
  obtains f extra where "rd_sessions (rv_db (remote_step env c s)) = map f (rd_sessions (rv_db s)) @ extra" "careful f"
    "\<forall>r \<in> set extra. creates (rw_owner r) (rw_id r) c"
proof -
  let ?old = "rd_sessions (rv_db s)" and ?new = "rd_sessions (rv_db (remote_step env c s))"
  have mapped: "?new = map f ?old \<Longrightarrow> careful f \<Longrightarrow> thesis" for f by (rule that [of f "[]"]) simp_all
  have kept: "?new = ?old \<Longrightarrow> thesis" by (rule mapped [OF _ careful_id]) simp
  show thesis
  proof (cases c)
    case (Do_Create io i now who x)
    show thesis
    proof (cases rule: create_session_cases [of env io i now who x "rv_db s"])
      case (Created n db')
      have "creates (rw_owner (session_row_of n)) (rw_id (session_row_of n)) c"
        using Created(1) Do_Create by (simp add: session_row_of_def new_session_def)
      moreover have "?new = map (\<lambda>r. r) ?old @ [session_row_of n]"
        using create_rows_ok(1) [OF Created(2)] Created(3) Do_Create by simp
      ultimately show thesis using that careful_id by fastforce
    qed (use kept Do_Create in simp)
  next
    case (Do_Write now v)
    show thesis
    proof (cases "write_update now v (rv_db s)")
      case (Inr db')
      then have "?new = map (\<lambda>r. if update_hits v r then updated_row now v r else r) ?old"
        using Do_Write by (auto simp: written_def write_update_def split: if_splits)
      then show thesis using careful_change(1) by (rule mapped)
    qed (use kept Do_Write in \<open>simp add: written_def\<close>)
  next
    case (Do_Event io now who session e)
    then show thesis using kept by (simp add: add_event_keeps)
  next
    case (Do_Touch io now who session client version)
    then show thesis using kept mapped careful_change(3)
      by (cases rule: touch_session_db [of io now who session client version s]) (auto simp: touch_rows_keeps)
  next
    case (Do_Environment io now who session snapshot)
    then show thesis using kept mapped [OF _ careful_change(2)]
      by (cases rule: set_environment_cases [of io now who session snapshot "rv_db s"]) auto
  qed (use kept in \<open>simp_all add: purge_requests_def Let_def\<close>)
qed

interpretation sessions: versioned "\<lambda>s. remote_ok (rv_db s)" "\<lambda>s. rd_sessions (rv_db s)" rw_id rw_version row_content
  "remote_step env" for env
proof unfold_locales
  fix s :: remote_service and c
  assume ok: "remote_ok (rv_db s)"
  show "remote_ok (rv_db (remote_step env c s))" by (rule remote_step_ok [OF ok])
  show "distinct (map rw_id (rd_sessions (rv_db s)))" using ok by (simp add: remote_ok_def)
next
  fix s :: remote_service and c r
  assume r: "r \<in> set (rd_sessions (rv_db s))"
  obtain f extra where "rd_sessions (rv_db (remote_step env c s)) = map f (rd_sessions (rv_db s)) @ extra" "careful f"
    by (rule step_rows)
  then show "\<exists>r' \<in> set (rd_sessions (rv_db (remote_step env c s))). rw_id r' = rw_id r \<and> rw_version r \<le> rw_version r' \<and>
      (rw_version r' = rw_version r \<longrightarrow> row_content r' = row_content r)"
    using r by (intro bexI [of _ "f r"]) (auto simp: careful_def)
qed

section \<open>Who sees a session\<close>

lemma joined_rows_iff:
  "x \<in> set (joined_rows who db) \<longleftrightarrow> fst x \<in> set (rd_sessions db) \<and> snd x \<in> set (rd_members db) \<and>
     mb_session (snd x) = rw_id (fst x) \<and> mb_actor (snd x) = who"
  by (cases x) (auto simp: joined_rows_def)

lemma get_session_row:
  assumes "get_session who session db = Inr s"
  obtains r m where "(r, m) \<in> set (joined_rows who db)" "rw_id r = session" "s = scan_session (r, m)"
proof -
  obtain x xs where x: "filter (\<lambda>x. rw_id (fst x) = session) (joined_rows who db) = x # xs" "s = scan_session x"
    using assms by (auto simp: get_session_def split: list.splits)
  then have "x \<in> set (filter (\<lambda>x. rw_id (fst x) = session) (joined_rows who db))" by simp
  then show thesis using that [of "fst x" "snd x"] x(2) by auto
qed

lemma same_session:
  "remote_ok db \<Longrightarrow> r \<in> set (rd_sessions db) \<Longrightarrow> q \<in> set (rd_sessions db) \<Longrightarrow> rw_id r = rw_id q \<Longrightarrow> r = q"
  by (auto simp: remote_ok_def distinct_map dest: inj_onD)

lemma member_is_owner:
  assumes "remote_ok db" "(r, m) \<in> set (joined_rows who db)"
  shows "rw_owner r = who \<and> mb_role m = ''owner''"
proof -
  have m: "r \<in> set (rd_sessions db)" "m \<in> set (rd_members db)" "mb_session m = rw_id r" "mb_actor m = who"
    using assms(2) by (simp_all add: joined_rows_iff)
  have "member_core m \<in> set (map owner_core (rd_sessions db))" using assms(1) m(2) by (metis remote_ok_def in_set_conv_decomp list.simps(9) map_append)
  then obtain q where "q \<in> set (rd_sessions db)" "member_core m = owner_core q" by auto
  moreover from this have "q = r" using same_session [OF assms(1) _ m(1)] m(3) by (simp add: member_core_def owner_core_def)
  ultimately show ?thesis using m(4) by (simp add: member_core_def owner_core_def)
qed

lemma owner_sees:
  assumes "remote_ok db" "r \<in> set (rd_sessions db)"
  shows "is_ok (get_session (rw_owner r) (rw_id r) db)"
proof -
  have "owner_core r \<in> set (map member_core (rd_members db))" using assms by (simp add: remote_ok_def)
  then obtain m where "m \<in> set (rd_members db)" "member_core m = owner_core r" by force
  then have "(r, m) \<in> set (joined_rows (rw_owner r) db)" using assms(2) by (simp add: joined_rows_iff member_core_def owner_core_def)
  then have "(r, m) \<in> set (filter (\<lambda>x. rw_id (fst x) = rw_id r) (joined_rows (rw_owner r) db))" by simp
  then show ?thesis unfolding get_session_def by (cases "filter (\<lambda>x. rw_id (fst x) = rw_id r) (joined_rows (rw_owner r) db)") simp_all
qed

lemma sessions_were_created:
  "r \<in> set (rd_sessions (rv_db (remote_run env cs))) \<Longrightarrow> list_ex (creates (rw_owner r) (rw_id r)) cs"
proof (induction cs arbitrary: r rule: rev_induct)
  case Nil
  then show ?case by (simp add: remote_run_def empty_remote_db_def)
next
  case (snoc c cs)
  obtain f extra where step: "rd_sessions (rv_db (remote_step env c (remote_run env cs))) =
      map f (rd_sessions (rv_db (remote_run env cs))) @ extra" "careful f" "\<forall>r \<in> set extra. creates (rw_owner r) (rw_id r) c"
    by (rule step_rows)
  from snoc.prems consider q where "q \<in> set (rd_sessions (rv_db (remote_run env cs)))" "r = f q" | "r \<in> set extra"
    unfolding remote_run_snoc step(1) by auto
  then show ?case
  proof cases
    case (1 q)
    then show ?thesis using snoc.IH [of q] step(2) by (simp add: careful_def)
  next
    case 2
    then show ?thesis using step(3) by simp
  qed
qed

text \<open>C19: In every reachable state a session is found by exactly one actor, the one who created it, as its owner;
  everybody else is told that it does not exist, and a listing holds only the caller's own sessions.\<close>

theorem sessions_stay_private:
  assumes "get_session who session (rv_db (remote_run env cs)) = Inr s"
  shows "ns_owner s = who \<and> ns_role s = ''owner'' \<and> list_ex (creates who session) cs \<and>
     {other. is_ok (get_session other session (rv_db (remote_run env cs)))} = {who} \<and>
     ns_owner ` set (fst (list_sessions env who x (rv_db (remote_run env cs)))) \<subseteq> {who}"
proof -
  let ?db = "rv_db (remote_run env cs)"
  have ok: "remote_ok ?db" by (rule remote_run_ok)
  obtain r m where r: "(r, m) \<in> set (joined_rows who ?db)" "rw_id r = session" "s = scan_session (r, m)"
    using assms by (rule get_session_row)
  have row: "r \<in> set (rd_sessions ?db)" using r(1) by (simp add: joined_rows_iff)
  note owner = member_is_owner [OF ok r(1)]
  have "is_ok (get_session other session ?db) \<longleftrightarrow> other = who" for other
  proof
    assume "is_ok (get_session other session ?db)"
    then obtain t where "get_session other session ?db = Inr t" by (auto simp: is_ok_iff)
    then obtain q n where q: "(q, n) \<in> set (joined_rows other ?db)" "rw_id q = session" by (rule get_session_row)
    then have "q = r" using same_session [OF ok _ row] r(2) by (simp add: joined_rows_iff)
    then show "other = who" using member_is_owner [OF ok q(1)] owner by simp
  qed (use assms in simp)
  moreover have "ns_owner t = who" if "t \<in> set (fst (list_sessions env who x ?db))" for t
  proof -
    have "t \<in> scan_session ` set (joined_rows who ?db)"
      using that by (auto simp: list_sessions_def Let_def dest!: in_set_takeD split: if_splits)
    then show ?thesis using member_is_owner [OF ok] by (auto simp: scan_session_def)
  qed
  moreover have "list_ex (creates who session) cs" using sessions_were_created [OF row] owner r(2) by simp
  ultimately show ?thesis using owner r(3) by (auto simp: scan_session_def)
qed

lemma sessions_stay_private_witness:
  "let db = rv_db (remote_run sample_remote_env sample_creations) in
   is_ok (get_session ''oauth:a'' ''rs1'' db) \<and> {other. is_ok (get_session other ''rs1'' db)} = {''oauth:a''}"
proof -
  have ok: "is_ok (get_session ''oauth:a'' ''rs1'' (rv_db (remote_run sample_remote_env sample_creations)))" by code_simp
  then obtain s where "get_session ''oauth:a'' ''rs1'' (rv_db (remote_run sample_remote_env sample_creations)) = Inr s"
    by (auto simp: is_ok_iff)
  from sessions_stay_private [OF this] ok show ?thesis by (simp only: Let_def simp_thms)
qed

section \<open>Updates\<close>

text \<open>The row an update may write: what its caller asks to change, and the rest as it is.\<close>

definition requested_row :: "int \<Rightarrow> update_input \<Rightarrow> session_row \<Rightarrow> session_row" where
  "requested_row now x r =
     (let status = (if ui_status x = [] then rw_status r else ui_status x) in
      r\<lparr>rw_label := (if ui_label x = [] then rw_label r else ui_label x),
        rw_description := (if ui_description x = [] then rw_description r else ui_description x),
        rw_status := status, rw_version := rw_version r + 1, rw_active := unix_milli now,
        rw_closed := (if status = ''closed'' \<or> status = ''archived'' then Some (unix_milli now) else rw_closed r)\<rparr>)"

text \<open>C11: When \<^verbatim>\<open>Update\<close> succeeds, the session is as its caller has read it, whatever other calls came between the
  reading and the writing: it changes what was asked for and nothing else. The caller's version must not be one
  that is still to come.\<close>

theorem updates_are_not_lost:
  assumes "get_session who session (rv_db (remote_run env cs)) = Inr cur"
    "read_update who session x (rv_db (remote_run env cs)) = Inr v" "ui_expected x \<le> ns_version cur"
    "write_update now v (rv_db (run_remote env ds (remote_run env cs))) = Inr db'"
  shows "\<exists>r \<in> set (rd_sessions (rv_db (run_remote env ds (remote_run env cs)))).
     rw_id r = session \<and> rw_version r = ns_version cur \<and> rw_label r = ns_label cur \<and>
     rw_description r = ns_description cur \<and> rw_status r = ns_status cur \<and>
     rd_sessions db' = map (\<lambda>q. if q = r then requested_row now x q else q)
       (rd_sessions (rv_db (run_remote env ds (remote_run env cs))))"
proof -
  let ?s = "remote_run env cs" and ?later = "rv_db (run_remote env ds (remote_run env cs))"
  have ok: "remote_ok (rv_db ?s)" "remote_ok ?later" using run_remote_ok remote_run_ok by blast+
  obtain r0 m where r0: "(r0, m) \<in> set (joined_rows who (rv_db ?s))" "rw_id r0 = session" "cur = scan_session (r0, m)"
    using assms(1) by (rule get_session_row)
  have cur: "ns_version cur = rw_version r0" "ns_label cur = rw_label r0" "ns_description cur = rw_description r0"
    "ns_status cur = rw_status r0" using r0(3) by (simp_all add: scan_session_def)
  have v: "wv_session v = session" "wv_label v = (if ui_label x = [] then rw_label r0 else ui_label x)"
    "wv_description v = (if ui_description x = [] then rw_description r0 else ui_description x)"
    "wv_status v = (if ui_status x = [] then rw_status r0 else ui_status x)" "wv_expected v \<le> rw_version r0"
    using assms(1-3) by (auto simp: read_update_def cur split: if_splits)
  obtain r where r: "r \<in> set (rd_sessions ?later)" "update_hits v r"
    using assms(4) by (auto simp: write_update_def list_ex_iff split: if_splits)
  then have same: "rw_id r = rw_id r0" "rw_version r \<le> rw_version r0" using v r0(2) by (simp_all add: update_hits_def)
  have row: "r0 \<in> set (rd_sessions (rv_db ?s))" using r0(1) by (simp add: joined_rows_iff)
  note later = sessions.later_row [OF ok(1) row r(1) [unfolded run_remote_def] same(1)]
  have version: "rw_version r = rw_version r0" using later(1) same(2) by simp
  have content: "rw_label r = rw_label r0" "rw_description r = rw_description r0" "rw_status r = rw_status r0"
    using later(2) [OF version] by (auto simp: row_content_def dest!: arg_cong [where f = "\<lambda>r. (rw_label r, rw_description r, rw_status r)"])
  have only: "update_hits v q \<longleftrightarrow> q = r" if "q \<in> set (rd_sessions ?later)" for q
    using same_session [OF ok(2) that r(1)] r(2) by (auto simp: update_hits_def)
  have "updated_row now v r = requested_row now x r" using v content by (simp add: updated_row_def requested_row_def)
  then have "map (\<lambda>q. if update_hits v q then updated_row now v q else q) (rd_sessions ?later) =
      map (\<lambda>q. if q = r then requested_row now x q else q) (rd_sessions ?later)" using only by simp
  then have "rd_sessions db' = map (\<lambda>q. if q = r then requested_row now x q else q) (rd_sessions ?later)"
    using assms(4) by (auto simp: write_update_def split: if_splits)
  then show ?thesis using r(1) same(1) r0(2) version content cur by (intro bexI [of _ r]) simp_all
qed

lemma updates_are_not_lost_witness:
  "let s = remote_run sample_remote_env sample_creations;
       s' = run_remote sample_remote_env [Do_Touch (\<lambda>_. True) 7000000 ''oauth:a'' ''rs1'' [] []] s;
       v = (case read_update ''oauth:a'' ''rs1'' sample_relabel (rv_db s) of Inr v \<Rightarrow> v) in
   \<exists>r db'. write_update 8000000 v (rv_db s') = Inr db' \<and> rw_id r = ''rs1'' \<and> rw_version r = 1 \<and>
     rd_sessions db' = map (\<lambda>q. if q = r then requested_row 8000000 sample_relabel q else q) (rd_sessions (rv_db s'))"
proof -
  let ?s = "remote_run sample_remote_env sample_creations" and ?ds = "[Do_Touch (\<lambda>_. True) 7000000 ''oauth:a'' ''rs1'' [] []]"
  let ?get = "get_session ''oauth:a'' ''rs1'' (rv_db ?s)" and ?read = "read_update ''oauth:a'' ''rs1'' sample_relabel (rv_db ?s)"
  let ?v = "case ?read of Inr v \<Rightarrow> v"
  have "let s = ?s; cur = get_session ''oauth:a'' ''rs1'' (rv_db s); r = read_update ''oauth:a'' ''rs1'' sample_relabel (rv_db s) in
    is_ok cur \<and> ns_version (case cur of Inr c \<Rightarrow> c) = 1 \<and> is_ok r \<and>
    is_ok (write_update 8000000 (case r of Inr v \<Rightarrow> v) (rv_db (run_remote sample_remote_env ?ds s)))" by code_simp
  then have facts: "is_ok ?get" "ns_version (case ?get of Inr c \<Rightarrow> c) = 1" "is_ok ?read"
    "is_ok (write_update 8000000 ?v (rv_db (run_remote sample_remote_env ?ds ?s)))" unfolding Let_def by blast+
  obtain cur where cur: "?get = Inr cur" "ns_version cur = 1" using facts(1,2) by (auto simp: is_ok_iff)
  have read: "?read = Inr ?v" using facts(3) by (cases ?read) simp_all
  obtain db' where run: "write_update 8000000 ?v (rv_db (run_remote sample_remote_env ?ds ?s)) = Inr db'" using facts(4) by (auto simp: is_ok_iff)
  have "ui_expected sample_relabel \<le> ns_version cur" using cur(2) by (simp add: sample_relabel_def)
  from updates_are_not_lost [OF cur(1) read this run, unfolded cur(2)] obtain r where
    "rw_id r = ''rs1''" "rw_version r = 1" "rd_sessions db' = map (\<lambda>q. if q = r then requested_row 8000000 sample_relabel q else q)
       (rd_sessions (rv_db (run_remote sample_remote_env ?ds ?s)))" by blast
  then show ?thesis unfolding Let_def using run by blast
qed

text \<open>A version that is still to come is accepted: the update then writes back the label read before the change.\<close>

lemma future_version_overwrites:
  "let s = remote_run sample_remote_env sample_creations;
       late = \<lparr>ui_label = [], ui_description = ''d'', ui_status = [], ui_expected = 2\<rparr>;
       others = (\<lambda>db. fst (update_session (\<lambda>_. True) 7000000 ''oauth:a'' ''rs1'' sample_relabel (\<lambda>d. d) db)) in
   map rw_label (rd_sessions (others (rv_db s))) = [''new'', ''two''] \<and>
   map rw_label (rd_sessions (fst (update_session (\<lambda>_. True) 8000000 ''oauth:a'' ''rs1'' late others (rv_db s)))) = [''one'', ''two'']"
  by code_simp

text \<open>A closed session that is made active again keeps the time of its closing.\<close>

lemma reopened_session_keeps_closing_time:
  "let s = remote_run sample_remote_env sample_creations;
       db = fst (close_session (\<lambda>_. True) 7000000 ''oauth:a'' ''rs1'' [] (\<lambda>_ d. d) (rv_db s));
       db' = fst (update_session (\<lambda>_. True) 8000000 ''oauth:a'' ''rs1'' (sample_relabel\<lparr>ui_status := ''active''\<rparr>) (\<lambda>d. d) db) in
   map (\<lambda>r. (rw_status r, rw_closed r)) (rd_sessions db') = [(''active'', Some 7), (''active'', None)]"
  by code_simp

section \<open>Repeated creations\<close>

fun purges_from :: "int \<Rightarrow> remote_call \<Rightarrow> bool" where
  "purges_from deadline (Do_Purge now) \<longleftrightarrow> deadline \<le> unix_milli now"
| "purges_from deadline _ \<longleftrightarrow> False"

lemma same_request:
  "distinct (map request_key qs) \<Longrightarrow> q \<in> set qs \<Longrightarrow> d \<in> set qs \<Longrightarrow> rq_actor q = rq_actor d \<Longrightarrow>
     rq_request q = rq_request d \<Longrightarrow> q = d"
  using inj_onD [of request_key "set qs" q d] by (simp add: distinct_map request_key_def)

lemma purge_keeps:
  assumes "distinct (map request_key (rd_requests db))" "q \<in> set (rd_requests db)" "unix_milli now < rq_expires q"
  shows "q \<in> set (rd_requests (purge_requests now db))"
proof -
  have "\<not> (rq_actor q = rq_actor d \<and> rq_request q = rq_request d)"
    if "d \<in> set (rd_requests db)" "rq_expires d \<le> unix_milli now" for d
    using same_request [OF assms(1,2) that(1)] that(2) assms(3) by auto
  then have "(rq_actor q, rq_request q) \<notin> (\<lambda>d. (rq_actor d, rq_request d)) ` set (take retention_batch
      (sort_key rq_expires (filter (\<lambda>q. rq_expires q \<le> unix_milli now) (rd_requests db))))"
    using in_set_takeD [where n = retention_batch] by fastforce
  then show ?thesis using assms(2) by (simp add: purge_requests_def Let_def)
qed

lemma step_keeps_request:
  assumes "remote_ok (rv_db s)" "q \<in> set (rd_requests (rv_db s))" "\<not> purges_from (rq_expires q) c"
  shows "q \<in> set (rd_requests (rv_db (remote_step env c s)))"
proof (cases c)
  case (Do_Create io i now who x)
  show ?thesis
  proof (cases rule: create_session_cases [of env io i now who x "rv_db s"])
    case (Created n db')
    then show ?thesis using create_rows_ok(4) [OF Created(2)] assms(2) Do_Create by simp
  qed (use assms(2) Do_Create in simp)
next
  case (Do_Write now v)
  then show ?thesis using assms(2) by (simp add: written_def write_update_def)
next
  case (Do_Event io now who session e)
  then show ?thesis using assms(2) by (simp add: add_event_keeps)
next
  case (Do_Touch io now who session client version)
  then show ?thesis using assms(2)
    by (cases rule: touch_session_db [of io now who session client version s]) (simp_all add: touch_rows_keeps)
next
  case (Do_Environment io now who session snapshot)
  then show ?thesis using assms(2)
    by (cases rule: set_environment_cases [of io now who session snapshot "rv_db s"]) simp_all
next
  case (Do_Purge now)
  then show ?thesis using assms purge_keeps by (simp add: remote_ok_def)
qed (use assms in simp)

lemma calls_keep_request:
  "remote_ok (rv_db s) \<Longrightarrow> q \<in> set (rd_requests (rv_db s)) \<Longrightarrow> list_all (\<lambda>c. \<not> purges_from (rq_expires q) c) cs \<Longrightarrow>
     q \<in> set (rd_requests (rv_db (run_remote env cs s)))"
  by (induction cs arbitrary: s) (simp_all add: step_keeps_request remote_step_ok)

lemma live_request_found:
  assumes "remote_ok db" "q \<in> set (rd_requests db)" "ms < rq_expires q" "rq_request q \<noteq> []"
  shows "live_request (rq_actor q) (rq_request q) ms db = rq_response q"
proof -
  have "find (\<lambda>p. rq_actor p = rq_actor q \<and> rq_request p = rq_request q \<and> rq_expires p > ms) (rd_requests db) \<noteq> None"
    using assms(2,3) by (auto simp: find_None_iff)
  then obtain p where p: "find (\<lambda>p. rq_actor p = rq_actor q \<and> rq_request p = rq_request q \<and> rq_expires p > ms) (rd_requests db) = Some p"
    by blast
  then have "p = q" using find_Some_in [OF p] assms(1,2) same_request [of "rd_requests db" p q] by (simp add: remote_ok_def)
  then show ?thesis using p assms(4) by (simp add: live_request_def)
qed

text \<open>C33: A creation with a request identifier, made again by the same actor within 24 hours, creates nothing and
  returns the session the first one has returned (as JSON carries it, marked as replayed), whatever else
  happens in between, restarts and housekeeping included.\<close>

theorem created_session_is_replayed:
  assumes "create_session env io i now who x (rv_db (remote_run env cs)) = (db1, Inr res)" "\<not> cs_replayed res"
    "ct_request x \<noteq> []" "list_all (\<lambda>c. \<not> purges_from (unix_milli (now + request_lifetime)) c) ds"
    "at_id who' = at_id who" "ct_request y = ct_request x" "trim_space (ct_workspace y) \<noteq> []" "trim_space (ct_path y) \<noteq> []"
    "unix_milli later < unix_milli (now + request_lifetime)"
  shows "create_session env True j later who' y (rv_db (run_remote env ds ((remote_run env cs)\<lparr>rv_db := db1\<rparr>))) =
    (rv_db (run_remote env ds ((remote_run env cs)\<lparr>rv_db := db1\<rparr>)),
     Inr \<lparr>cs_session = json_session env (cs_session res), cs_replayed = True\<rparr>)"
proof -
  let ?s = "(remote_run env cs)\<lparr>rv_db := db1\<rparr>" and ?later = "rv_db (run_remote env ds ((remote_run env cs)\<lparr>rv_db := db1\<rparr>))"
  have ok: "remote_ok (rv_db ?s)" using create_session_ok [OF remote_run_ok, of env io i now who x env cs] assms(1) by simp
  let ?q = "\<lparr>rq_actor = at_id who, rq_request = ct_request x,
    rq_response = Some \<lparr>cs_session = json_session env (cs_session res), cs_replayed = True\<rparr>, rq_created = unix_milli now,
    rq_expires = unix_milli (now + request_lifetime)\<rparr>"
  have "?q \<in> set (rd_requests db1)"
  proof (cases rule: create_session_cases [of env io i now who x "rv_db (remote_run env cs)"])
    case Unchanged
    then show ?thesis using assms(1,2) by simp
  next
    case (Created n db')
    then show ?thesis using create_rows_ok(4) [OF Created(2)] assms(1,3) by (auto simp: new_session_def)
  qed
  then have q: "?q \<in> set (rd_requests ?later)" using calls_keep_request [OF ok, of ?q ds env] assms(4) by simp
  have "live_request (rq_actor ?q) (rq_request ?q) (unix_milli later) ?later = rq_response ?q"
    by (rule live_request_found [OF run_remote_ok [OF ok] q]) (use assms(3,9) in simp_all)
  then have "live_request (at_id who') (ct_request y) (unix_milli later) (upsert_actor who' (unix_milli later) ?later) =
      Some \<lparr>cs_session = json_session env (cs_session res), cs_replayed = True\<rparr>"
    using assms(3,5,6) by (simp add: live_request_def)
  then show ?thesis using assms(7,8) by (simp add: create_session_def Let_def)
qed

lemma created_session_is_replayed_witness:
  "let s = remote_run sample_remote_env [];
       x = create_session sample_remote_env True ''rs1'' 5000000 sample_actor sample_session_input (rv_db s);
       ds = [Do_Restart, Do_Purge 6000000, Do_Environment True 7000000 ''oauth:a'' ''rs1'' ''e''];
       db = rv_db (run_remote sample_remote_env ds (s\<lparr>rv_db := fst x\<rparr>)) in
   snd (create_session sample_remote_env True ''rs9'' 9000000 sample_actor sample_session_input db) =
     Inr \<lparr>cs_session = json_session sample_remote_env (cs_session (case snd x of Inr r \<Rightarrow> r)), cs_replayed = True\<rparr>"
proof -
  let ?s = "remote_run sample_remote_env []"
  let ?x = "create_session sample_remote_env True ''rs1'' 5000000 sample_actor sample_session_input (rv_db ?s)"
  let ?ds = "[Do_Restart, Do_Purge 6000000, Do_Environment True 7000000 ''oauth:a'' ''rs1'' ''e'']"
  have "is_ok (snd ?x) \<and> \<not> cs_replayed (case snd ?x of Inr r \<Rightarrow> r)" by code_simp
  then obtain res where x: "?x = (fst ?x, Inr res)" "\<not> cs_replayed res" "snd ?x = Inr res"
    by (metis is_ok_iff old.sum.simps(6) prod.collapse)
  have kept: "list_all (\<lambda>c. \<not> purges_from (unix_milli (5000000 + request_lifetime)) c) ?ds"
    "ct_request sample_session_input \<noteq> []" "trim_space (ct_workspace sample_session_input) \<noteq> []"
    "trim_space (ct_path sample_session_input) \<noteq> []" "unix_milli 9000000 < unix_milli (5000000 + request_lifetime)" by code_simp+
  show ?thesis
    using created_session_is_replayed [OF x(1,2) kept(2,1) refl refl kept(3-5)] unfolding Let_def x(3) by simp
qed

text \<open>After 24 hours, until housekeeping has removed the record, the creation fails: its key is still taken.\<close>

lemma expired_request_blocks_create:
  "snd (create_session sample_remote_env True ''rs9'' (5000000 + request_lifetime) sample_actor sample_session_input
     (rv_db (remote_run sample_remote_env sample_creations))) = Inl R_Store"
  by code_simp

text \<open>The replayed session has lost its path, which is not part of its JSON.\<close>

lemma replay_forgets_the_path:
  "let x = create_session sample_remote_env True ''rs1'' 5000000 sample_actor sample_session_input empty_remote_db;
       y = create_session sample_remote_env True ''rs9'' 6000000 sample_actor sample_session_input (fst x) in
   map (\<lambda>r. case r of Inr c \<Rightarrow> (ns_id (cs_session c), ns_path (cs_session c))) [snd x, snd y] =
     [(''rs1'', ''/w''), (''rs1'', [])]"
  by code_simp

section \<open>The tables\<close>

text \<open>In every reachable state a session has one row and one member, its owner; its status is one of the five, its
  version positive and its closing time set when it is closed or archived; and the events have increasing
  sequence numbers and belong to sessions that exist.\<close>

theorem session_tables_fit:
  "let db = rv_db (remote_run env cs) in
   distinct (map rw_id (rd_sessions db)) \<and> map member_core (rd_members db) = map owner_core (rd_sessions db) \<and>
   list_all session_ok (rd_sessions db) \<and> sorted_wrt (<) (map xe_sequence (rd_events db)) \<and>
   xe_session ` set (rd_events db) \<subseteq> rw_id ` set (rd_sessions db)"
  using remote_run_ok [of env cs] by (simp add: remote_ok_def events_ok_def Let_def)

text \<open>A use within a second of the last one of the same actor and session writes nothing.\<close>

lemma touches_are_throttled:
  assumes "map_of (rv_touched s) (touch_key who (trim_space session)) = Some before" "before \<le> now" "now < before + touch_interval"
  shows "touch_session io now who session client version s = s"
  using assms by (simp add: touch_session_def touched_lately_def Let_def)

end
