(* ===== verification/Remote_Pages.thy ===== *)
theory Remote_Pages
  imports Remote_Safety
begin

text \<open>
  The pages of \<^verbatim>\<open>List\<close>: a client that follows the cursors while nothing changes has the whole listing, in order.
\<close>

section \<open>The cursor\<close>

definition cursor_law :: "remote_env \<Rightarrow> bool" where
  "cursor_law env \<longleftrightarrow> (\<forall>b. rn_unb64 env (rn_b64 env b) = Some b) \<and> (\<forall>b. b \<noteq> [] \<longrightarrow> rn_b64 env b \<noteq> [])"

definition in_range :: "session_row \<Rightarrow> bool" where
  "in_range r \<longleftrightarrow> 0 \<le> rw_active r \<and> rw_active r < 2 ^ 63"

lemma bar_no_digit: "CHR ''|'' \<notin> set (show_nat n)"
proof
  assume "CHR ''|'' \<in> set (show_nat n)"
  then have "digit_val (CHR ''|'') \<noteq> None" by (rule show_nat_digits)
  moreover have "digit_val (CHR ''|'') = None" by code_simp
  ultimately show False by simp
qed

lemma decode_encode:
  assumes "cursor_law env" "0 \<le> at" "at < 2 ^ 63"
  shows "decode_cursor env (encode_cursor env at i) = Some (at, i)"
proof -
  have n: "show_int at = show_nat (nat at)" using assms(2) by (simp add: show_int_def)
  have stop: "c \<noteq> CHR ''|''" if "c \<in> set (show_int at)" for c using that bar_no_digit unfolding n by metis
  have "takeWhile (\<lambda>c. c \<noteq> CHR ''|'') (show_int at @ CHR ''|'' # i) = show_int at"
    "dropWhile (\<lambda>c. c \<noteq> CHR ''|'') (show_int at @ CHR ''|'' # i) = CHR ''|'' # i"
    using stop by (simp_all add: takeWhile_append2 dropWhile_append2)
  moreover have "nat at < 2 ^ 63" using assms(2,3) by (simp add: nat_less_iff)
  then have "atoi (show_int at) = Some at" using atoi_show_nat [of "nat at"] assms(2) unfolding n by simp
  ultimately show ?thesis using assms(1) by (simp add: decode_cursor_def encode_cursor_def cursor_law_def)
qed

section \<open>The rows\<close>

lemma filter_one:
  "distinct (map f xs) \<Longrightarrow> (\<exists>x. filter (\<lambda>x. f x = k \<and> Q x) xs = [x] \<and> f x = k) \<or> filter (\<lambda>x. f x = k \<and> Q x) xs = []"
proof (induction xs)
  case (Cons y ys)
  show ?case
  proof (cases "f y = k \<and> Q y")
    case True
    then have "filter (\<lambda>x. f x = k \<and> Q x) ys = []" using Cons.prems by (auto simp: filter_empty_conv image_iff)
    then show ?thesis using True by simp
  next
    case False
    moreover have "distinct (map f ys)" using Cons.prems by simp
    ultimately show ?thesis using Cons.IH by (simp only: filter.simps if_False)
  qed
qed simp

lemma map_concat_one:
  "(\<And>r. r \<in> set xs \<Longrightarrow> map h (g r) = [] \<or> map h (g r) = [i r]) \<Longrightarrow>
     map h (concat (map g xs)) = map i (filter (\<lambda>r. g r \<noteq> []) xs)"
  by (induction xs) fastforce+

lemma joined_rows_distinct:
  assumes "remote_ok db"
  shows "distinct (map (\<lambda>x. rw_id (fst x)) (joined_rows who db))"
proof -
  have "map fst (map member_core (rd_members db)) = map fst (map owner_core (rd_sessions db))" using assms by (simp add: remote_ok_def)
  then have members: "distinct (map mb_session (rd_members db))"
    using assms by (simp add: remote_ok_def member_core_def owner_core_def comp_def)
  let ?g = "\<lambda>r. map (Pair r) (filter (\<lambda>m. mb_session m = rw_id r \<and> mb_actor m = who) (rd_members db))"
  have "map (\<lambda>x. rw_id (fst x)) (?g r) = [] \<or> map (\<lambda>x. rw_id (fst x)) (?g r) = [rw_id r]" for r
    using filter_one [OF members, of "rw_id r" "\<lambda>m. mb_actor m = who"] by auto
  then have "map (\<lambda>x. rw_id (fst x)) (joined_rows who db) = map rw_id (filter (\<lambda>r. ?g r \<noteq> []) (rd_sessions db))"
    unfolding joined_rows_def by (intro map_concat_one)
  then show ?thesis using assms by (simp add: remote_ok_def distinct_map_filter)
qed

text \<open>All rows of a listing, newest first.\<close>

definition listed_rows :: "remote_env \<Rightarrow> bytes \<Rightarrow> list_input \<Rightarrow> remote_db \<Rightarrow> (session_row \<times> member_row) list" where
  "listed_rows env who x db = rev (sort_key listing_key (filter (\<lambda>r. row_matches env x (fst r)) (joined_rows who db)))"

lemma listed_rows_sorted:
  assumes "remote_ok db"
  shows "sorted_wrt (\<lambda>a b. listing_key b < listing_key a) (listed_rows env who x db)"
proof -
  let ?found = "filter (\<lambda>r. row_matches env x (fst r)) (joined_rows who db)"
  have "distinct (map (\<lambda>x. rw_id (fst x)) ?found)" using joined_rows_distinct [OF assms] by (rule distinct_map_filter)
  then have "distinct (map snd (map listing_key ?found))" by (simp add: listing_key_def comp_def)
  then have "distinct (map listing_key ?found)" by (rule distinct_map [THEN iffD1, THEN conjunct1])
  then have "distinct (map listing_key (sort_key listing_key ?found))" by (simp add: distinct_map)
  moreover have "sorted (map listing_key (sort_key listing_key ?found))" by (rule sorted_sort_key)
  ultimately have "sorted_wrt (<) (map listing_key (sort_key listing_key ?found))" using strict_sorted_iff by blast
  then show ?thesis by (simp add: listed_rows_def sorted_wrt_rev sorted_wrt_map)
qed

lemma filter_below:
  fixes key :: "'a \<Rightarrow> 'b :: linorder"
  assumes "sorted_wrt (\<lambda>a b. key b < key a) xs" "0 < k" "k \<le> length xs"
  shows "filter (\<lambda>x. key x < key (xs ! (k - 1))) xs = drop k xs"
proof -
  have low: "key x < key (xs ! (k - 1))" if x: "x \<in> set (drop k xs)" for x
  proof -
    obtain n where "n < length xs - k" "x = xs ! (k + n)" using x assms(3) by (auto simp: in_set_conv_nth)
    then show ?thesis using sorted_wrt_nth_less [OF assms(1), of "k - 1" "k + n"] assms(2) by simp
  qed
  have high: "\<not> key x < key (xs ! (k - 1))" if x: "x \<in> set (take k xs)" for x
  proof -
    obtain n where n: "n < k" "x = xs ! n" using x assms(3) by (auto simp: in_set_conv_nth)
    then consider "n = k - 1" | "n < k - 1" by linarith
    then show ?thesis
    proof cases
      case 2
      then have "key (xs ! (k - 1)) < key (xs ! n)" using sorted_wrt_nth_less [OF assms(1), of n "k - 1"] assms(2,3) by simp
      then show ?thesis using n by simp
    qed (use n in simp)
  qed
  have "filter (\<lambda>x. key x < key (xs ! (k - 1))) xs =
      filter (\<lambda>x. key x < key (xs ! (k - 1))) (take k xs) @ filter (\<lambda>x. key x < key (xs ! (k - 1))) (drop k xs)"
    by (metis append_take_drop_id filter_append)
  also have "\<dots> = drop k xs" using low high by (simp add: filter_empty_conv filter_id_conv)
  finally show ?thesis .
qed

lemma before_cursor_key: "before_cursor (Some c) = (\<lambda>x. listing_key x < c)"
  by (cases c) (auto simp: before_cursor_def listing_key_def less_prod_def fun_eq_iff)

section \<open>Following the cursors\<close>

text \<open>The page with the first \<open>k\<close> rows of the listing behind it.\<close>

definition page_cursor :: "remote_env \<Rightarrow> bytes \<Rightarrow> list_input \<Rightarrow> remote_db \<Rightarrow> nat \<Rightarrow> bytes" where
  "page_cursor env who x db k =
     (if k = 0 then [] else let c = listing_key (listed_rows env who x db ! (k - 1)) in encode_cursor env (fst c) (snd c))"

lemma page_at:
  assumes "remote_ok db" "cursor_law env" "list_all in_range (rd_sessions db)" "k \<le> length (listed_rows env who x db)"
  shows "list_sessions env who (x\<lparr>li_cursor := page_cursor env who x db k\<rparr>) db =
    (let rows = drop k (listed_rows env who x db); n = list_limit (li_limit x) in
     (map scan_session (take n rows), if length rows > n then page_cursor env who x db (k + n) else []))"
proof -
  let ?rows = "listed_rows env who x db" and ?x = "x\<lparr>li_cursor := page_cursor env who x db k\<rparr>" and ?n = "list_limit (li_limit x)"
  let ?c = "decode_cursor env (li_cursor ?x)"
  have n: "0 < ?n" by (simp add: list_limit_def)
  have range: "in_range (fst r)" if "r \<in> set ?rows" for r
    using that assms(3) by (auto simp: listed_rows_def joined_rows_iff list_all_iff)
  have same: "row_matches env ?x = row_matches env x" by (simp add: row_matches_def fun_eq_iff)
  have "filter (\<lambda>r. row_matches env ?x (fst r) \<and> before_cursor ?c r) (joined_rows who db) =
      filter (before_cursor ?c) (filter (\<lambda>r. row_matches env x (fst r)) (joined_rows who db))"
    unfolding same filter_filter by (rule filter_cong) auto
  then have found: "rev (sort_key listing_key (filter (\<lambda>r. row_matches env ?x (fst r) \<and> before_cursor ?c r) (joined_rows who db))) =
      filter (before_cursor ?c) ?rows"
    by (simp only: listed_rows_def filter_sort [symmetric] rev_filter)
  have "filter (before_cursor ?c) ?rows = drop k ?rows"
  proof (cases "k = 0")
    case True
    then have "?c = None" by (simp add: page_cursor_def decode_cursor_def)
    then show ?thesis using True by (simp add: before_cursor_def filter_id_conv)
  next
    case False
    then have "?rows ! (k - 1) \<in> set ?rows" using assms(4) by simp
    then have "?c = Some (listing_key (?rows ! (k - 1)))"
      using False range decode_encode [OF assms(2)] by (simp add: page_cursor_def Let_def listing_key_def in_range_def)
    then have "filter (before_cursor ?c) ?rows = filter (\<lambda>r. listing_key r < listing_key (?rows ! (k - 1))) ?rows"
      by (simp add: before_cursor_key)
    then show ?thesis using filter_below [OF listed_rows_sorted [OF assms(1)], of k] False assms(4) by simp
  qed
  note rows = found [unfolded this]
  have limit: "list_limit (li_limit ?x) = ?n" by simp
  show ?thesis
  proof (cases "length (drop k ?rows) > ?n")
    case True
    then have len: "k + ?n \<le> length ?rows" by simp
    have "drop k ?rows ! (?n - 1) = ?rows ! (k + ?n - 1)" using len n by simp
    then have last: "map scan_session (take (?n + 1) (drop k ?rows)) ! (?n - 1) = scan_session (?rows ! (k + ?n - 1))"
      using True n by simp
    have "take ?n (map scan_session (take (?n + 1) (drop k ?rows))) = map scan_session (take ?n (drop k ?rows))"
      by (simp add: take_map [symmetric] min_def)
    moreover have "encode_cursor env (unix_milli (ns_active (scan_session (?rows ! (k + ?n - 1)))))
        (ns_id (scan_session (?rows ! (k + ?n - 1)))) = page_cursor env who x db (k + ?n)"
      using n by (simp add: page_cursor_def scan_session_def listing_key_def case_prod_beta)
    ultimately show ?thesis using True n
      unfolding list_sessions_def Let_def limit rows last by simp
  next
    case False
    then show ?thesis unfolding list_sessions_def Let_def limit rows by simp
  qed
qed

fun session_pages :: "nat \<Rightarrow> remote_env \<Rightarrow> bytes \<Rightarrow> list_input \<Rightarrow> remote_db \<Rightarrow> remote_session list option" where
  "session_pages 0 env who x db = None"
| "session_pages (Suc n) env who x db =
     (let (page, cursor) = list_sessions env who x db in
      if cursor = [] then Some page
      else map_option (\<lambda>rest. page @ rest) (session_pages n env who (x\<lparr>li_cursor := cursor\<rparr>) db))"

lemma encode_nonempty: "cursor_law env \<Longrightarrow> encode_cursor env at i \<noteq> []"
  by (simp add: encode_cursor_def cursor_law_def)

lemma pages_from:
  assumes "remote_ok db" "cursor_law env" "list_all in_range (rd_sessions db)"
  shows "k \<le> length (listed_rows env who x db) \<Longrightarrow> length (listed_rows env who x db) - k < n \<Longrightarrow>
    session_pages n env who (x\<lparr>li_cursor := page_cursor env who x db k\<rparr>) db = Some (map scan_session (drop k (listed_rows env who x db)))"
proof (induction n arbitrary: k)
  case (Suc n)
  let ?rows = "listed_rows env who x db" and ?n = "list_limit (li_limit x)"
  have pos: "0 < ?n" by (simp add: list_limit_def)
  note page = page_at [OF assms Suc.prems(1)]
  show ?case
  proof (cases "length (drop k ?rows) > ?n")
    case True
    then have next_page: "session_pages n env who (x\<lparr>li_cursor := page_cursor env who x db (k + ?n)\<rparr>) db =
        Some (map scan_session (drop (k + ?n) ?rows))"
      using Suc.IH [of "k + ?n"] Suc.prems pos by simp
    have "page_cursor env who x db (k + ?n) \<noteq> []"
      using pos encode_nonempty [OF assms(2)] by (simp add: page_cursor_def Let_def)
    then have "session_pages (Suc n) env who (x\<lparr>li_cursor := page_cursor env who x db k\<rparr>) db =
        Some (map scan_session (take ?n (drop k ?rows)) @ map scan_session (drop ?n (drop k ?rows)))"
      using True next_page by (simp add: page Let_def add.commute)
    then show ?thesis by (simp only: map_append [symmetric] append_take_drop_id)
  next
    case False
    then show ?thesis by (simp add: page Let_def)
  qed
qed simp

text \<open>C34: A client that asks for the first page and follows the cursors until there is none gets every session that
  matches, once, the last used first, whatever the page size is, if nothing changes meanwhile.\<close>

theorem session_pages_reassemble:
  assumes "cursor_law env" "list_all in_range (rd_sessions (rv_db (remote_run env cs)))" "li_cursor x = []"
    "length (rd_sessions (rv_db (remote_run env cs))) < fuel"
  shows "session_pages fuel env who x (rv_db (remote_run env cs)) =
    Some (map scan_session (rev (sort_key listing_key
      (filter (\<lambda>r. row_matches env x (fst r)) (joined_rows who (rv_db (remote_run env cs)))))))"
proof -
  let ?db = "rv_db (remote_run env cs)"
  have ok: "remote_ok ?db" by (rule remote_run_ok)
  have "length (joined_rows who ?db) = card (set (map (\<lambda>x. rw_id (fst x)) (joined_rows who ?db)))"
    using distinct_card [OF joined_rows_distinct [OF ok]] by simp
  also have "\<dots> \<le> card (set (map rw_id (rd_sessions ?db)))"
    by (rule card_mono) (auto simp: joined_rows_iff)
  also have "\<dots> \<le> length (rd_sessions ?db)" using card_length [of "map rw_id (rd_sessions ?db)"] by simp
  finally have "length (joined_rows who ?db) < fuel" using assms(4) by simp
  moreover have "length (listed_rows env who x ?db) \<le> length (joined_rows who ?db)" by (simp add: listed_rows_def)
  ultimately have "length (listed_rows env who x ?db) < fuel" by simp
  moreover have "x\<lparr>li_cursor := page_cursor env who x ?db 0\<rparr> = x" using assms(3) by (simp add: page_cursor_def)
  ultimately show ?thesis using pages_from [OF ok assms(1,2), of 0 who x fuel] by (simp add: listed_rows_def)
qed

lemma session_pages_reassemble_witness:
  "let db = rv_db (remote_run sample_remote_env sample_creations);
       x = \<lparr>li_workspace = ''w'', li_statuses = [], li_query = [], li_limit = 1, li_cursor = []\<rparr> in
   map_option (map ns_id) (session_pages 3 sample_remote_env ''oauth:a'' x db) = Some [''rs2'', ''rs1''] \<and>
   length (fst (list_sessions sample_remote_env ''oauth:a'' x db)) = 1"
proof -
  let ?db = "rv_db (remote_run sample_remote_env sample_creations)"
  let ?x = "\<lparr>li_workspace = ''w'', li_statuses = [], li_query = [], li_limit = 1, li_cursor = []\<rparr> :: list_input"
  have law: "cursor_law sample_remote_env" by (simp add: cursor_law_def sample_remote_env_def)
  have facts: "list_all in_range (rd_sessions ?db)" "length (rd_sessions ?db) < 3" by code_simp+
  have "map ns_id (map scan_session (rev (sort_key listing_key
      (filter (\<lambda>r. row_matches sample_remote_env ?x (fst r)) (joined_rows ''oauth:a'' ?db))))) = [''rs2'', ''rs1'']" by code_simp
  moreover have "session_pages 3 sample_remote_env ''oauth:a'' ?x ?db = Some (map scan_session (rev (sort_key listing_key
      (filter (\<lambda>r. row_matches sample_remote_env ?x (fst r)) (joined_rows ''oauth:a'' ?db)))))"
    by (rule session_pages_reassemble [OF law facts(1) _ facts(2)]) simp
  moreover have "length (fst (list_sessions sample_remote_env ''oauth:a'' ?x ?db)) = 1" by code_simp
  ultimately show ?thesis unfolding Let_def by simp
qed

end
