(* ===== verification/Text_Lines.thy ===== *)
theory Text_Lines
  imports Prelude
begin

text \<open>
  The functions of \<^verbatim>\<open>strings\<close> the edit engine calls (\<^verbatim>\<open>ReplaceAll\<close>, \<^verbatim>\<open>Split\<close>, \<^verbatim>\<open>Count\<close>, \<^verbatim>\<open>Index\<close>) and line
  endings: the normalised text of a file and the separators it has, which together give the file back.
\<close>

section \<open>Substrings\<close>

abbreviation cr :: char where "cr \<equiv> CHR 0x0D"
abbreviation lf :: char where "lf \<equiv> CHR 0x0A"

text \<open>\<^verbatim>\<open>strings.ReplaceAll(s, p, r)\<close> for a \<open>p\<close> that is not empty.\<close>

function replace_all :: "bytes \<Rightarrow> bytes \<Rightarrow> bytes \<Rightarrow> bytes" where
  "replace_all p r [] = []"
| "replace_all p r (c # s) =
     (if p \<noteq> [] \<and> has_prefix (c # s) p then r @ replace_all p r (drop (length p) (c # s))
      else c # replace_all p r s)"
  by pat_completeness auto
termination
  by (relation "measure (\<lambda>(p, r, s). length s)") auto

text \<open>\<^verbatim>\<open>strings.Count(s, p)\<close> for a \<open>p\<close> that is not empty: occurrences that do not overlap.\<close>

function count_sub :: "bytes \<Rightarrow> bytes \<Rightarrow> nat" where
  "count_sub p [] = 0"
| "count_sub p (c # s) =
     (if p \<noteq> [] \<and> has_prefix (c # s) p then Suc (count_sub p (drop (length p) (c # s))) else count_sub p s)"
  by pat_completeness auto
termination
  by (relation "measure (\<lambda>(p, s). length s)") auto

text \<open>\<^verbatim>\<open>strings.Index(s, p)\<close>: \<^const>\<open>None\<close> is -1.\<close>

fun index_sub :: "bytes \<Rightarrow> bytes \<Rightarrow> nat option" where
  "index_sub p [] = (if p = [] then Some 0 else None)"
| "index_sub p (c # s) = (if has_prefix (c # s) p then Some 0 else map_option Suc (index_sub p s))"

text \<open>\<^verbatim>\<open>strings.Split\<close> at one byte.\<close>

fun split_on :: "char \<Rightarrow> bytes \<Rightarrow> bytes list" where
  "split_on c [] = [[]]"
| "split_on c (d # s) =
     (if d = c then [] # split_on c s
      else (case split_on c s of [] \<Rightarrow> [[d]] | l # ls \<Rightarrow> (d # l) # ls))"

declare replace_all.simps [simp del] count_sub.simps [simp del]

lemma replace_all_Nil [simp]: "replace_all p r [] = []"
  by (simp add: replace_all.simps)

lemma split_on_nonempty [simp]: "split_on c s \<noteq> []"
  by (cases s) (auto split: list.splits)

lemma split_on_cases: obtains l ls where "split_on c s = l # ls"
  using split_on_nonempty [of c s] by (cases "split_on c s") auto

lemma join_Cons: "ls \<noteq> [] \<Longrightarrow> join (l # ls) sep = l @ sep @ join ls sep"
  by (cases ls) simp_all

lemma join_head: "join ((d # l) # ls) sep = d # join (l # ls) sep"
  by (cases ls) simp_all

lemma join_split: "join (split_on c s) [c] = s"
proof (induction s)
  case (Cons d s)
  obtain l ls where "split_on c s = l # ls" by (rule split_on_cases)
  then show ?case using Cons by (simp add: join_Cons join_head)
qed simp

lemma split_on_free: "l \<in> set (split_on c s) \<Longrightarrow> c \<notin> set l"
proof (induction s arbitrary: l)
  case (Cons d s)
  obtain k ks where "split_on c s = k # ks" by (rule split_on_cases)
  then show ?case using Cons by (auto split: if_splits)
qed simp

lemma split_on_plain: "c \<notin> set s \<Longrightarrow> split_on c s = [s]"
  by (induction s) auto

lemma split_on_append: "c \<notin> set l \<Longrightarrow> split_on c (l @ c # s) = l # split_on c s"
  by (induction l) auto

lemma split_join:
  "ls \<noteq> [] \<Longrightarrow> \<forall>l \<in> set ls. c \<notin> set l \<Longrightarrow> split_on c (join ls [c]) = ls"
proof (induction ls)
  case (Cons l ls)
  then show ?case by (cases ls) (simp_all add: split_on_plain split_on_append)
qed simp

lemma length_split_on: "length (split_on c s) = Suc (length (filter (\<lambda>d. d = c) s))"
proof (induction s)
  case (Cons d s)
  obtain l ls where "split_on c s = l # ls" by (rule split_on_cases)
  then show ?case using Cons by simp
qed simp

lemma count_sub_char: "count_sub [c] s = length (filter (\<lambda>d. d = c) s)"
  by (induction s) (simp_all add: count_sub.simps has_prefix_def)

lemma count_sub_none: "p \<noteq> [] \<Longrightarrow> count_sub p s = 0 \<longleftrightarrow> \<not> contains_sub s p"
proof (induction p s rule: count_sub.induct)
  case (2 p c s)
  then show ?case by (auto simp: count_sub.simps)
qed (simp add: count_sub.simps)

lemma index_sub_Some: "index_sub p s = Some i \<Longrightarrow> \<exists>a b. s = a @ p @ b \<and> length a = i"
proof (induction s arbitrary: i)
  case Nil
  then show ?case by (auto split: if_splits)
next
  case (Cons c s)
  show ?case
  proof (cases "has_prefix (c # s) p")
    case True
    then show ?thesis using Cons.prems by (auto simp: has_prefix_iff)
  next
    case False
    then obtain j where j: "index_sub p s = Some j" "i = Suc j" using Cons.prems by auto
    obtain a b where "s = a @ p @ b" "length a = j" using Cons.IH [OF j(1)] by blast
    then have "c # s = (c # a) @ p @ b \<and> length (c # a) = i" using j(2) by simp
    then show ?thesis by blast
  qed
qed

lemma index_sub_None: "index_sub p s = None \<longleftrightarrow> \<not> contains_sub s p"
  by (induction s) auto

section \<open>Line endings\<close>

text \<open>\<^verbatim>\<open>normalizeNewlines\<close>, \<^verbatim>\<open>normalizeDiffNewlines\<close> and the two statements of \<^verbatim>\<open>normalizeToLogical\<close>.\<close>

definition normalize_newlines :: "bytes \<Rightarrow> bytes" where
  "normalize_newlines s = replace_all [cr] [lf] (replace_all [cr, lf] [lf] s)"

text \<open>\<^verbatim>\<open>lineEndings\<close> of \<^verbatim>\<open>write.go\<close>.\<close>

fun line_endings :: "bytes \<Rightarrow> bytes list" where
  "line_endings [] = []"
| "line_endings (c # s) =
     (if c = cr then
        (case s of
           d # s' \<Rightarrow> if d = lf then [cr, lf] # line_endings s' else [cr] # line_endings s
         | [] \<Rightarrow> [[cr]])
      else if c = lf then [lf] # line_endings s
      else line_endings s)"

text \<open>The same as one pass over the text.\<close>

fun logical :: "bytes \<Rightarrow> bytes" where
  "logical [] = []"
| "logical (c # s) =
     (if c = cr then
        (case s of
           d # s' \<Rightarrow> if d = lf then lf # logical s' else lf # logical s
         | [] \<Rightarrow> [lf])
      else c # logical s)"

text \<open>What is rewritten with \<^verbatim>\<open>separators\<close>, line by line.\<close>

fun weave :: "bytes list \<Rightarrow> bytes list \<Rightarrow> bytes" where
  "weave [] seps = []"
| "weave [l] seps = l"
| "weave (l # l' # ls) [] = l @ weave (l' # ls) []"
| "weave (l # l' # ls) (e # seps) = l @ e @ weave (l' # ls) seps"

lemma replace_cr: "replace_all [cr] [lf] s = map (\<lambda>c. if c = cr then lf else c) s"
  by (induction s) (simp_all add: replace_all.simps has_prefix_def)

lemma replace_lf: "replace_all [lf] r s = concat (map (\<lambda>c. if c = lf then r else [c]) s)"
  by (induction s) (simp_all add: replace_all.simps has_prefix_def)

lemma replace_crlf_step:
  "replace_all [cr, lf] [lf] (c # s) =
    (if c = cr then (case s of d # s' \<Rightarrow> if d = lf then lf # replace_all [cr, lf] [lf] s'
                                        else c # replace_all [cr, lf] [lf] s | [] \<Rightarrow> [c])
     else c # replace_all [cr, lf] [lf] s)"
  by (cases s) (auto simp: replace_all.simps has_prefix_def)

lemma normalize_logical: "normalize_newlines s = logical s"
proof (induction s rule: logical.induct)
  case (2 c s)
  then show ?case
    by (cases s) (auto simp: normalize_newlines_def replace_cr replace_crlf_step)
qed (simp add: normalize_newlines_def)

lemma logical_no_cr: "cr \<notin> set (logical s)"
proof (induction s rule: logical.induct)
  case (2 c s)
  then show ?case by (cases s) auto
qed simp

lemma logical_same: "cr \<notin> set s \<Longrightarrow> logical s = s"
  by (induction s) auto

lemma normalize_idem: "normalize_newlines (normalize_newlines s) = normalize_newlines s"
  by (simp add: normalize_logical logical_same logical_no_cr)

lemma weave_head: "weave ((c # l) # ls) seps = c # weave (l # ls) seps"
  by (cases ls; cases seps) simp_all

lemma weave_empty: "ls \<noteq> [] \<Longrightarrow> weave ([] # ls) (e # seps) = e @ weave ls seps"
  by (cases ls) simp_all

text \<open>The separators woven into the lines of the normalised text give the text back.\<close>

lemma weave_logical: "weave (split_on lf (logical s)) (line_endings s) = s"
proof (induction s rule: logical.induct)
  case (2 c s)
  show ?case
  proof (cases "c = cr")
    case True
    then show ?thesis using 2 by (cases s) (auto simp: weave_empty)
  next
    case False
    obtain l ls where "split_on lf (logical s) = l # ls" by (rule split_on_cases)
    then show ?thesis using 2(3) [OF False] False by (auto simp: weave_empty weave_head)
  qed
qed simp

lemma length_line_endings: "length (split_on lf (logical s)) = Suc (length (line_endings s))"
proof (induction s rule: logical.induct)
  case (2 c s)
  then show ?case by (cases s) (auto simp: length_split_on)
qed simp

lemma weave_lf: "weave ls (replicate (length ls - 1) sep) = join ls sep"
proof (induction ls)
  case (Cons l ls)
  then show ?case by (cases ls) simp_all
qed simp

end
