(* ===== verification/Text_Format.thy ===== *)
theory Text_Format
  imports Text_Lines
begin

text \<open>
  How a file's bytes are read as text and written back (\<^verbatim>\<open>DetectFormat\<close>, \<^verbatim>\<open>DecodeText\<close> of
  \<^verbatim>\<open>internal/file/read.go\<close>, \<^verbatim>\<open>encodeWithFormat\<close>, \<^verbatim>\<open>encodeWithOriginalFormat\<close>, \<^verbatim>\<open>normalizeToLogical\<close> of
  \<^verbatim>\<open>internal/edit/write.go\<close>): charset, byte order mark and line endings are kept. The parts of \<^verbatim>\<open>unicode/utf8\<close>,
  \<^verbatim>\<open>unicode/utf16\<close> and \<^verbatim>\<open>encoding/binary\<close> the code calls are written out; runes and 16-bit units are numbers.
\<close>

section \<open>UTF-8\<close>

definition byte_val :: "char \<Rightarrow> nat" where
  "byte_val c = of_char c"

definition octet :: "nat \<Rightarrow> char" where
  "octet n = char_of n"

lemma byte_val_octet [simp]: "n < 256 \<Longrightarrow> byte_val (octet n) = n"
  by (simp add: byte_val_def octet_def)

lemma octet_val [simp]: "octet (byte_val c) = c"
  by (simp add: byte_val_def octet_def)

lemma byte_val_less: "byte_val c < 256"
  by (simp add: byte_val_def)

definition scalar :: "nat \<Rightarrow> bool" where
  "scalar r \<longleftrightarrow> r < 0xD800 \<or> (0xE000 \<le> r \<and> r < 0x110000)"

definition tail_bits :: "char \<Rightarrow> nat option" where
  "tail_bits c = (if 0x80 \<le> byte_val c \<and> byte_val c < 0xC0 then Some (byte_val c - 0x80) else None)"

text \<open>The rune a valid encoding at the start of the text stands for, and its length.\<close>

definition lead_rune :: "bytes \<Rightarrow> (nat \<times> nat) option" where
  "lead_rune s = (case s of
     [] \<Rightarrow> None
   | c0 # s1 \<Rightarrow>
       let b = byte_val c0 in
       if b < 0x80 then Some (b, 1)
       else (case s1 of
         [] \<Rightarrow> None
       | c1 # s2 \<Rightarrow>
           (case tail_bits c1 of
              None \<Rightarrow> None
            | Some t1 \<Rightarrow>
                if 0xC2 \<le> b \<and> b < 0xE0 then Some ((b - 0xC0) * 64 + t1, 2)
                else (case s2 of
                  [] \<Rightarrow> None
                | c2 # s3 \<Rightarrow>
                    (case tail_bits c2 of
                       None \<Rightarrow> None
                     | Some t2 \<Rightarrow>
                         if 0xE0 \<le> b \<and> b < 0xF0 then
                           (let r = (b - 0xE0) * 4096 + t1 * 64 + t2
                            in if 0x800 \<le> r \<and> scalar r then Some (r, 3) else None)
                         else (case s3 of
                           [] \<Rightarrow> None
                         | c3 # _ \<Rightarrow>
                             (case tail_bits c3 of
                                None \<Rightarrow> None
                              | Some t3 \<Rightarrow>
                                  if 0xF0 \<le> b \<and> b < 0xF5 then
                                    (let r = (b - 0xF0) * 262144 + t1 * 4096 + t2 * 64 + t3
                                     in if 0x10000 \<le> r \<and> scalar r then Some (r, 4) else None)
                                  else None)))))))"

text \<open>The conversion \<^verbatim>\<open>[]rune(s)\<close>: a byte that begins no valid encoding is U+FFFD.\<close>

function utf8_runes :: "bytes \<Rightarrow> nat list" where
  "utf8_runes [] = []"
| "utf8_runes (c # s) =
     (case lead_rune (c # s) of
        None \<Rightarrow> 0xFFFD # utf8_runes s
      | Some (r, n) \<Rightarrow> r # utf8_runes (drop (n - 1) s))"
  by pat_completeness auto
termination
  by (relation "measure length") auto

text \<open>\<^verbatim>\<open>utf8.Valid\<close>.\<close>

function utf8_valid :: "bytes \<Rightarrow> bool" where
  "utf8_valid [] \<longleftrightarrow> True"
| "utf8_valid (c # s) \<longleftrightarrow>
     (case lead_rune (c # s) of None \<Rightarrow> False | Some (r, n) \<Rightarrow> utf8_valid (drop (n - 1) s))"
  by pat_completeness auto
termination
  by (relation "measure length") auto

declare utf8_runes.simps [simp del] utf8_valid.simps [simp del]

text \<open>The encoding of one rune in \<^verbatim>\<open>string(runes)\<close>.\<close>

definition utf8_encode :: "nat \<Rightarrow> bytes" where
  "utf8_encode r0 =
     (let r = (if scalar r0 then r0 else 0xFFFD) in
      if r < 0x80 then [octet r]
      else if r < 0x800 then [octet (0xC0 + r div 64), octet (0x80 + r mod 64)]
      else if r < 0x10000 then
        [octet (0xE0 + r div 4096), octet (0x80 + r div 64 mod 64), octet (0x80 + r mod 64)]
      else
        [octet (0xF0 + r div 262144), octet (0x80 + r div 4096 mod 64),
         octet (0x80 + r div 64 mod 64), octet (0x80 + r mod 64)])"

definition utf8_text :: "nat list \<Rightarrow> bytes" where
  "utf8_text rs = concat (map utf8_encode rs)"

section \<open>UTF-16\<close>

datatype byte_order = LittleEndian | BigEndian

fun uint16 :: "byte_order \<Rightarrow> char \<Rightarrow> char \<Rightarrow> nat" where
  "uint16 LittleEndian b0 b1 = byte_val b0 + 256 * byte_val b1"
| "uint16 BigEndian b0 b1 = 256 * byte_val b0 + byte_val b1"

fun put_uint16 :: "byte_order \<Rightarrow> nat \<Rightarrow> bytes" where
  "put_uint16 LittleEndian u = [octet (u mod 256), octet (u div 256)]"
| "put_uint16 BigEndian u = [octet (u div 256), octet (u mod 256)]"

text \<open>The units of a text; a last odd byte is left out.\<close>

fun units_with :: "(char \<Rightarrow> char \<Rightarrow> nat) \<Rightarrow> bytes \<Rightarrow> nat list" where
  "units_with get (b0 # b1 # s) = get b0 b1 # units_with get s"
| "units_with get s = []"

definition read_units :: "byte_order \<Rightarrow> bytes \<Rightarrow> nat list" where
  "read_units order s = units_with (uint16 order) s"

definition put_units :: "byte_order \<Rightarrow> nat list \<Rightarrow> bytes" where
  "put_units order us = concat (map (put_uint16 order) us)"

definition high_unit :: "nat \<Rightarrow> bool" where
  "high_unit u \<longleftrightarrow> 0xD800 \<le> u \<and> u \<le> 0xDBFF"

definition low_unit :: "nat \<Rightarrow> bool" where
  "low_unit u \<longleftrightarrow> 0xDC00 \<le> u \<and> u \<le> 0xDFFF"

text \<open>\<^verbatim>\<open>utf16.Decode\<close> and \<^verbatim>\<open>utf16.Encode\<close>.\<close>

fun utf16_decode :: "nat list \<Rightarrow> nat list" where
  "utf16_decode [] = []"
| "utf16_decode [u] = [if high_unit u \<or> low_unit u then 0xFFFD else u]"
| "utf16_decode (u # v # us) =
     (if high_unit u \<and> low_unit v then ((u - 0xD800) * 1024 + (v - 0xDC00) + 0x10000) # utf16_decode us
      else (if high_unit u \<or> low_unit u then 0xFFFD else u) # utf16_decode (v # us))"

definition utf16_units :: "nat \<Rightarrow> nat list" where
  "utf16_units r =
     (if \<not> scalar r then [0xFFFD]
      else if r < 0x10000 then [r]
      else [0xD800 + (r - 0x10000) div 1024, 0xDC00 + (r - 0x10000) mod 1024])"

definition utf16_encode :: "nat list \<Rightarrow> nat list" where
  "utf16_encode rs = concat (map utf16_units rs)"

text \<open>\<^verbatim>\<open>encodeUTF16\<close> and \<^verbatim>\<open>decodeUTF16\<close> of \<^verbatim>\<open>write.go\<close>.\<close>

definition encode_utf16 :: "byte_order \<Rightarrow> bytes \<Rightarrow> bytes" where
  "encode_utf16 order text = put_units order (utf16_encode (utf8_runes text))"

definition decode_utf16 :: "byte_order \<Rightarrow> bytes \<Rightarrow> bytes" where
  "decode_utf16 order content = utf8_text (utf16_decode (read_units order content))"

text \<open>The check of surrogate pairs in \<^verbatim>\<open>DecodeText\<close>.\<close>

definition unit_ok :: "nat list \<Rightarrow> nat \<Rightarrow> bool" where
  "unit_ok units i =
     (let u = units ! i in
      if high_unit u then Suc i < length units \<and> low_unit (units ! Suc i)
      else if low_unit u then i \<noteq> 0 \<and> high_unit (units ! (i - 1))
      else True)"

section \<open>Formats\<close>

record ending_counts =
  lf_count :: nat
  crlf_count :: nat
  cr_count :: nat

record file_format =
  charset :: bytes
  bom :: bytes
  line_ending :: bytes
  ending_count :: ending_counts
  final_newline :: "bool option"

definition utf8_bom :: bytes where "utf8_bom = [CHR 0xEF, CHR 0xBB, CHR 0xBF]"
definition utf16le_bom :: bytes where "utf16le_bom = [CHR 0xFF, CHR 0xFE]"
definition utf16be_bom :: bytes where "utf16be_bom = [CHR 0xFE, CHR 0xFF]"

definition detect_charset :: "bytes \<Rightarrow> bytes \<times> bytes" where
  "detect_charset content =
     (if has_prefix content utf8_bom then (''utf-8'', ''utf-8'')
      else if has_prefix content utf16le_bom then (''utf-16le'', ''utf-16le'')
      else if has_prefix content utf16be_bom then (''utf-16be'', ''utf-16be'')
      else if utf8_valid content then (''utf-8'', ''none'')
      else (''unknown'', ''unknown''))"

fun observe_line_endings :: "bytes \<Rightarrow> ending_counts \<Rightarrow> ending_counts" where
  "observe_line_endings [] n = n"
| "observe_line_endings (c # s) n =
     (if c = cr then
        (case s of
           d # s' \<Rightarrow> if d = lf then observe_line_endings s' (n\<lparr>crlf_count := Suc (crlf_count n)\<rparr>)
                     else observe_line_endings s (n\<lparr>cr_count := Suc (cr_count n)\<rparr>)
         | [] \<Rightarrow> n\<lparr>cr_count := Suc (cr_count n)\<rparr>)
      else if c = lf then observe_line_endings s (n\<lparr>lf_count := Suc (lf_count n)\<rparr>)
      else observe_line_endings s n)"

definition line_ending_name :: "ending_counts \<Rightarrow> bytes" where
  "line_ending_name n =
     (let kinds = (if 0 < crlf_count n then 1 else 0) + (if 0 < lf_count n then 1 else 0)
        + (if 0 < cr_count n then (1::nat) else 0) in
      if kinds = 0 then ''none''
      else if 1 < kinds then ''mixed''
      else if 0 < crlf_count n then ''CRLF''
      else if 0 < lf_count n then ''LF''
      else ''CR'')"

definition has_final_line_ending :: "bytes \<Rightarrow> bool" where
  "has_final_line_ending content \<longleftrightarrow> content \<noteq> [] \<and> (last content = lf \<or> last content = cr)"

definition no_endings :: ending_counts where
  "no_endings = \<lparr>lf_count = 0, crlf_count = 0, cr_count = 0\<rparr>"

text \<open>\<^verbatim>\<open>detectFormat\<close>, before the text is decoded.\<close>

definition detect_raw_format :: "bytes \<Rightarrow> file_format" where
  "detect_raw_format content =
     (let (cs, b) = detect_charset content in
      if cs \<noteq> ''utf-8''
      then \<lparr>charset = cs, bom = b, line_ending = ''none'', ending_count = no_endings, final_newline = None\<rparr>
      else let n = observe_line_endings content no_endings in
           \<lparr>charset = cs, bom = b, line_ending = line_ending_name n, ending_count = n,
            final_newline = Some (has_final_line_ending content)\<rparr>)"

definition apply_decoded_format :: "file_format \<Rightarrow> bytes \<Rightarrow> file_format" where
  "apply_decoded_format f text =
     (let l = detect_raw_format text in
      f\<lparr>line_ending := line_ending l, ending_count := ending_count l, final_newline := final_newline l\<rparr>)"

datatype decode_error = Invalid_UTF8 | Odd_UTF16_Length | Bad_Surrogate | Unsupported_Charset

definition decode_text :: "bytes \<Rightarrow> (decode_error, bytes \<times> file_format) result" where
  "decode_text content =
     (let f = detect_raw_format content in
      if charset f = ''utf-8'' then
        (let text = drop (if bom f = ''utf-8'' then 3 else 0) content in
         if \<not> utf8_valid text then Inl Invalid_UTF8 else Inr (text, apply_decoded_format f text))
      else if charset f = ''utf-16le'' \<or> charset f = ''utf-16be'' then
        (if length content < 2 \<or> odd (length (drop 2 content)) then Inl Odd_UTF16_Length
         else let units = read_units (if charset f = ''utf-16be'' then BigEndian else LittleEndian) (drop 2 content) in
              if \<not> list_all (unit_ok units) [0..<length units] then Inl Bad_Surrogate
              else let text = utf8_text (utf16_decode units) in Inr (text, apply_decoded_format f text))
      else Inl Unsupported_Charset)"

text \<open>\<^verbatim>\<open>DetectFormat\<close>.\<close>

definition detect_format :: "bytes \<Rightarrow> file_format" where
  "detect_format content =
     (case decode_text content of Inr (_, f) \<Rightarrow> f | Inl _ \<Rightarrow> detect_raw_format content)"

section \<open>Writing\<close>

definition normalize_to_logical :: "bytes \<Rightarrow> (decode_error, bytes \<times> file_format) result" where
  "normalize_to_logical content =
     and_then (decode_text content) (\<lambda>(text, f). Inr (normalize_newlines text, f))"

definition encode_with_format :: "bytes \<Rightarrow> file_format \<Rightarrow> bytes" where
  "encode_with_format text f =
     (let body = (if line_ending f = ''CRLF'' then replace_all [lf] [cr, lf] text
                  else if line_ending f = ''CR'' then replace_all [lf] [cr] text
                  else text);
          out = (if charset f = ''utf-16le'' then encode_utf16 LittleEndian body
                 else if charset f = ''utf-16be'' then encode_utf16 BigEndian body
                 else body)
      in if bom f = ''utf-8'' then utf8_bom @ out
         else if bom f = ''utf-16le'' then utf16le_bom @ out
         else if bom f = ''utf-16be'' then utf16be_bom @ out
         else out)"

text \<open>The separator after the \<open>i\<close>-th line of a file with mixed line endings.\<close>

definition separator_at :: "bytes list \<Rightarrow> nat \<Rightarrow> bytes" where
  "separator_at separators i =
     (if i < length separators then separators ! i
      else if separators \<noteq> [] then last separators else [lf])"

fun weave_from :: "bytes list \<Rightarrow> nat \<Rightarrow> bytes list \<Rightarrow> bytes" where
  "weave_from separators i [] = []"
| "weave_from separators i [l] = l"
| "weave_from separators i (l # l' # ls) = l @ separator_at separators i @ weave_from separators (Suc i) (l' # ls)"

definition encode_with_original_format :: "bytes \<Rightarrow> file_format \<Rightarrow> bytes \<Rightarrow> bytes" where
  "encode_with_original_format text f original =
     (if line_ending f \<noteq> ''mixed'' then encode_with_format text f
      else
        let source = (if charset f = ''utf-16le'' then decode_utf16 LittleEndian (drop 2 original)
                      else if charset f = ''utf-16be'' then decode_utf16 BigEndian (drop 2 original)
                      else original)
        in encode_with_format (weave_from (line_endings source) 0 (split_on lf text)) f)"

section \<open>Encodings are inverted\<close>

lemma tail_bits_of [simp]: "n < 64 \<Longrightarrow> tail_bits (octet (0x80 + n)) = Some n"
  by (simp add: tail_bits_def)

lemma lead_rune_encode: "scalar r \<Longrightarrow> lead_rune (utf8_encode r @ s) = Some (r, length (utf8_encode r))"
proof -
  assume r: "scalar r"
  then have less: "r < 0x110000" by (auto simp: scalar_def)
  have split2: "r div 64 * 64 + r mod 64 = r" by simp
  have split3: "r div 4096 * 4096 + r div 64 mod 64 * 64 + r mod 64 = r"
  proof -
    have "r div 4096 * 64 + r div 64 mod 64 = r div 64"
      using div_mult_mod_eq [of "r div 64" 64] by (simp add: div_mult2_eq [symmetric])
    then show ?thesis using split2 by linarith
  qed
  have split4: "r div 262144 * 262144 + r div 4096 mod 64 * 4096 + r div 64 mod 64 * 64 + r mod 64 = r"
  proof -
    have "r div 262144 * 64 + r div 4096 mod 64 = r div 4096"
      using div_mult_mod_eq [of "r div 4096" 64] by (simp add: div_mult2_eq [symmetric])
    then show ?thesis using split3 by linarith
  qed
  consider "r < 0x80" | "0x80 \<le> r" "r < 0x800" | "0x800 \<le> r" "r < 0x10000" | "0x10000 \<le> r" by linarith
  then show ?thesis
  proof cases
    case 2
    define h where "h = r div 64"
    have h: "h < 32" "2 \<le> h" using 2 by (auto simp: h_def div_less_iff_less_mult)
    have "utf8_encode r = [octet (0xC0 + h), octet (0x80 + r mod 64)]"
      using 2 r by (simp add: utf8_encode_def h_def)
    then show ?thesis using 2 r h split2 by (simp add: lead_rune_def Let_def h_def [symmetric])
  next
    case 3
    define h where "h = r div 4096"
    have h: "h < 16" using 3 by (auto simp: h_def div_less_iff_less_mult)
    have "utf8_encode r = [octet (0xE0 + h), octet (0x80 + r div 64 mod 64), octet (0x80 + r mod 64)]"
      using 3 r by (simp add: utf8_encode_def h_def)
    then show ?thesis using 3 r h split3 by (simp add: lead_rune_def Let_def h_def [symmetric])
  next
    case 4
    define h where "h = r div 262144"
    have h: "h < 5" using 4 less by (auto simp: h_def div_less_iff_less_mult)
    have "utf8_encode r = [octet (0xF0 + h), octet (0x80 + r div 4096 mod 64), octet (0x80 + r div 64 mod 64), octet (0x80 + r mod 64)]"
      using 4 r by (simp add: utf8_encode_def h_def)
    then show ?thesis using 4 r h split4 by (simp add: lead_rune_def Let_def h_def [symmetric])
  qed (use r in \<open>simp add: utf8_encode_def lead_rune_def Let_def\<close>)
qed

lemma utf8_encode_nonempty [simp]: "utf8_encode r \<noteq> []"
  by (simp add: utf8_encode_def Let_def)

lemma utf8_step:
  assumes "scalar r"
  shows "utf8_runes (utf8_encode r @ s) = r # utf8_runes s" "utf8_valid (utf8_encode r @ s) \<longleftrightarrow> utf8_valid s"
proof -
  obtain c t where "utf8_encode r = c # t" by (cases "utf8_encode r") simp_all
  then show "utf8_runes (utf8_encode r @ s) = r # utf8_runes s" "utf8_valid (utf8_encode r @ s) \<longleftrightarrow> utf8_valid s"
    using lead_rune_encode [OF assms, of s] by (simp_all add: utf8_runes.simps utf8_valid.simps)
qed

lemma runes_of_text: "list_all scalar rs \<Longrightarrow> utf8_runes (utf8_text rs) = rs"
  by (induction rs) (simp_all add: utf8_text_def utf8_step utf8_runes.simps)

lemma text_is_valid: "list_all scalar rs \<Longrightarrow> utf8_valid (utf8_text rs)"
  by (induction rs) (simp_all add: utf8_text_def utf8_step utf8_valid.simps)

text \<open>A byte order is a pair of functions that invert each other on the units below \<open>2 ^ 16\<close>.\<close>

locale unit_codec =
  fixes get :: "char \<Rightarrow> char \<Rightarrow> nat" and put :: "nat \<Rightarrow> bytes"
  assumes get_less: "get b0 b1 < 65536"
    and put_get: "put (get b0 b1) = [b0, b1]"
    and put_two: "u < 65536 \<Longrightarrow> \<exists>b0 b1. put u = [b0, b1] \<and> get b0 b1 = u"
begin

lemma units_less: "list_all (\<lambda>u. u < 65536) (units_with get s)"
  by (induction s rule: induct_list012) (simp_all add: get_less)

lemma put_units_with: "even (length s) \<Longrightarrow> concat (map put (units_with get s)) = s"
  by (induction s rule: induct_list012) (simp_all add: put_get)

lemma units_put: "list_all (\<lambda>u. u < 65536) us \<Longrightarrow> units_with get (concat (map put us)) = us"
proof (induction us)
  case (Cons u us)
  obtain b0 b1 where "put u = [b0, b1]" "get b0 b1 = u" using put_two [of u] Cons.prems by auto
  then show ?case using Cons by simp
qed simp

lemma even_put: "list_all (\<lambda>u. u < 65536) us \<Longrightarrow> even (length (concat (map put us)))"
proof (induction us)
  case (Cons u us)
  obtain b0 b1 where "put u = [b0, b1]" using put_two [of u] Cons.prems by auto
  then show ?case using Cons by simp
qed simp

end

interpretation little: unit_codec "uint16 LittleEndian" "put_uint16 LittleEndian"
proof
  fix b0 b1 u
  show "uint16 LittleEndian b0 b1 < 65536" using byte_val_less [of b0] byte_val_less [of b1] by simp
  show "put_uint16 LittleEndian (uint16 LittleEndian b0 b1) = [b0, b1]"
    using byte_val_less [of b0] by simp
  assume "u < (65536 :: nat)"
  then have "u div 256 < 256" by (simp add: div_less_iff_less_mult)
  then show "\<exists>b0 b1. put_uint16 LittleEndian u = [b0, b1] \<and> uint16 LittleEndian b0 b1 = u" by simp
qed

interpretation big: unit_codec "uint16 BigEndian" "put_uint16 BigEndian"
proof
  fix b0 b1 u
  show "uint16 BigEndian b0 b1 < 65536" using byte_val_less [of b0] byte_val_less [of b1] by simp
  show "put_uint16 BigEndian (uint16 BigEndian b0 b1) = [b0, b1]"
    using byte_val_less [of b1] by simp
  assume "u < (65536 :: nat)"
  then have "u div 256 < 256" by (simp add: div_less_iff_less_mult)
  then show "\<exists>b0 b1. put_uint16 BigEndian u = [b0, b1] \<and> uint16 BigEndian b0 b1 = u" by simp
qed

lemma read_units_less: "list_all (\<lambda>u. u < 65536) (read_units order s)"
  by (cases order) (simp_all only: read_units_def little.units_less big.units_less)

lemma put_read_units: "even (length s) \<Longrightarrow> put_units order (read_units order s) = s"
  by (cases order) (simp_all only: put_units_def read_units_def little.put_units_with big.put_units_with)

lemma read_put_units:
  "list_all (\<lambda>u. u < 65536) us \<Longrightarrow> read_units order (put_units order us) = us \<and> even (length (put_units order us))"
  by (cases order) (simp_all only: put_units_def read_units_def little.units_put big.units_put
      little.even_put big.even_put simp_thms)

text \<open>Sequences of units in which every surrogate is half of a pair.\<close>

fun paired :: "nat list \<Rightarrow> bool" where
  "paired [] \<longleftrightarrow> True"
| "paired [u] \<longleftrightarrow> \<not> high_unit u \<and> \<not> low_unit u"
| "paired (u # v # us) \<longleftrightarrow>
     (if high_unit u then low_unit v \<and> paired us else \<not> low_unit u \<and> paired (v # us))"

lemma low_not_high: "low_unit u \<Longrightarrow> \<not> high_unit u"
  by (simp add: low_unit_def high_unit_def)

lemma unit_ok_tail:
  assumes "\<forall>i < length (u # us). unit_ok (u # us) i" "us \<noteq> [] \<Longrightarrow> low_unit (hd us) \<Longrightarrow> False"
  shows "\<forall>i < length us. unit_ok us i"
proof (intro allI impI)
  fix i assume i: "i < length us"
  then have o: "unit_ok (u # us) (Suc i)" using assms(1) by simp
  show "unit_ok us i"
  proof (cases i)
    case 0
    have "us \<noteq> []" using i by auto
    then have "\<not> low_unit (us ! 0)" using assms(2) by (auto simp: hd_conv_nth)
    then show ?thesis using o 0 by (auto simp: unit_ok_def Let_def split: if_splits)
  qed (use o in \<open>auto simp: unit_ok_def Let_def split: if_splits\<close>)
qed

lemma units_are_paired: "\<forall>i < length us. unit_ok us i \<Longrightarrow> paired us"
proof (induction us rule: paired.induct)
  case (2 u)
  then show ?case by (auto simp: unit_ok_def Let_def split: if_splits)
next
  case (3 u v us)
  have u: "unit_ok (u # v # us) 0" and v: "unit_ok (u # v # us) 1" using 3(3) by auto
  show ?case
  proof (cases "high_unit u")
    case True
    then have l: "low_unit v" using u by (simp add: unit_ok_def)
    have "\<not> low_unit (hd us)" if "us \<noteq> []"
    proof
      assume "low_unit (hd us)"
      moreover have "unit_ok (u # v # us) 2" using 3(3) that by (cases us) auto
      moreover have "us ! 0 = hd us" using that by (simp add: hd_conv_nth)
      ultimately show False
        using l low_not_high by (auto simp: unit_ok_def Let_def numeral_2_eq_2 split: if_splits)
    qed
    then have n: "us \<noteq> [] \<Longrightarrow> low_unit (hd us) \<Longrightarrow> False" by blast
    have "\<forall>i < length us. unit_ok us i"
    proof (intro allI impI)
      fix i assume i: "i < length us"
      then have o: "unit_ok (u # v # us) (Suc (Suc i))" using 3(3) by simp
      show "unit_ok us i"
      proof (cases i)
        case 0
        have "us \<noteq> []" using i by auto
        then have "\<not> low_unit (us ! 0)" using n by (auto simp: hd_conv_nth)
        then show ?thesis using o 0 by (auto simp: unit_ok_def Let_def split: if_splits)
      qed (use o in \<open>auto simp: unit_ok_def Let_def split: if_splits\<close>)
    qed
    then show ?thesis using 3(1) True l by simp
  next
    case False
    then have nu: "\<not> low_unit u" using u by (auto simp: unit_ok_def Let_def split: if_splits)
    have "\<not> low_unit v" using v False low_not_high by (auto simp: unit_ok_def Let_def split: if_splits)
    then have "\<forall>i < length (v # us). unit_ok (v # us) i" using unit_ok_tail [of u "v # us"] 3(3) by simp
    then show ?thesis using 3(2) False nu by simp
  qed
qed simp

lemma utf16_pair:
  assumes "high_unit u" "low_unit v"
  shows "scalar ((u - 0xD800) * 1024 + (v - 0xDC00) + 0x10000)"
    and "utf16_units ((u - 0xD800) * 1024 + (v - 0xDC00) + 0x10000) = [u, v]"
proof -
  define h where "h = u - 0xD800"
  define l where "l = v - 0xDC00"
  have u: "u = 0xD800 + h" "h < 1024" and v: "v = 0xDC00 + l" "l < 1024"
    using assms by (auto simp: high_unit_def low_unit_def h_def l_def)
  show "scalar ((u - 0xD800) * 1024 + (v - 0xDC00) + 0x10000)"
    using u v by (simp add: scalar_def)
  then show "utf16_units ((u - 0xD800) * 1024 + (v - 0xDC00) + 0x10000) = [u, v]"
    using u v by (simp add: utf16_units_def)
qed

lemma utf16_single:
  assumes "u < 65536" "\<not> high_unit u" "\<not> low_unit u"
  shows "scalar u" "utf16_units u = [u]"
  using assms by (auto simp: scalar_def utf16_units_def high_unit_def low_unit_def)

lemma utf16_encode_decode:
  "paired us \<Longrightarrow> list_all (\<lambda>u. u < 65536) us \<Longrightarrow>
     list_all scalar (utf16_decode us) \<and> utf16_encode (utf16_decode us) = us"
proof (induction us rule: utf16_decode.induct)
  case (2 u)
  then show ?case by (simp add: utf16_encode_def utf16_single)
next
  case (3 u v us)
  show ?case
  proof (cases "high_unit u")
    case True
    then have "low_unit v" "paired us" using 3(3) by simp_all
    then show ?thesis using 3 True utf16_pair [OF True \<open>low_unit v\<close>] by (simp add: utf16_encode_def)
  next
    case False
    then have "\<not> low_unit u" "paired (v # us)" using 3(3) by simp_all
    then show ?thesis using 3 False utf16_single [of u] by (simp add: utf16_encode_def)
  qed
qed (simp add: utf16_encode_def)

end
