(* ===== verification/Text_Roundtrip.thy ===== *)
theory Text_Roundtrip
  imports Text_Format
begin

text \<open>
  Reading a file as text and writing the text back gives the bytes of the file, whatever its charset, byte
  order mark and line endings; and a text that was written is read back as it was.
\<close>

section \<open>Uniform line endings\<close>

lemma line_endings_in: "e \<in> set (line_endings s) \<Longrightarrow> e = [lf] \<or> e = [cr] \<or> e = [cr, lf]"
proof (induction s rule: line_endings.induct)
  case (2 c s)
  then show ?case by (cases s) (auto split: if_splits)
qed simp

lemma observe_counts:
  "lf_count (observe_line_endings s n) = lf_count n + count_list (line_endings s) [lf]"
  "crlf_count (observe_line_endings s n) = crlf_count n + count_list (line_endings s) [cr, lf]"
  "cr_count (observe_line_endings s n) = cr_count n + count_list (line_endings s) [cr]"
proof (induction s n rule: observe_line_endings.induct)
  case (2 c s n)
  {
    case 1
    then show ?case using 2 by (cases s) auto
  next
    case 2
    then show ?case using "2.IH" by (cases s) auto
  next
    case 3
    then show ?case using "2.IH" by (cases s) auto
  }
qed simp_all

definition ending_name :: "bytes \<Rightarrow> bytes" where
  "ending_name text = line_ending_name (observe_line_endings text no_endings)"

lemma count_list_pos: "0 < count_list xs x \<longleftrightarrow> x \<in> set xs"
  by (induction xs) auto

text \<open>The separator a name stands for when all line endings are the same.\<close>

lemma ending_name_cases:
  obtains (mixed) "ending_name s = ''mixed''"
  | (CRLF) "ending_name s = ''CRLF''" "\<forall>e \<in> set (line_endings s). e = [cr, lf]"
  | (CR) "ending_name s = ''CR''" "\<forall>e \<in> set (line_endings s). e = [cr]"
  | (LF) "ending_name s = ''LF'' \<or> ending_name s = ''none''" "\<forall>e \<in> set (line_endings s). e = [lf]"
proof -
  have name: "ending_name s =
    (let kinds = (if [cr, lf] \<in> set (line_endings s) then 1 else 0) + (if [lf] \<in> set (line_endings s) then 1 else 0)
        + (if [cr] \<in> set (line_endings s) then (1::nat) else 0) in
      if kinds = 0 then ''none''
      else if 1 < kinds then ''mixed''
      else if [cr, lf] \<in> set (line_endings s) then ''CRLF''
      else if [lf] \<in> set (line_endings s) then ''LF''
      else ''CR'')"
    unfolding ending_name_def line_ending_name_def observe_counts
    by (simp add: no_endings_def count_list_pos)
  note one_of = line_endings_in [of _ s]
  consider "[cr, lf] \<in> set (line_endings s) \<and> ([lf] \<in> set (line_endings s) \<or> [cr] \<in> set (line_endings s))
      \<or> [lf] \<in> set (line_endings s) \<and> [cr] \<in> set (line_endings s)"
    | "[cr, lf] \<in> set (line_endings s)" "[lf] \<notin> set (line_endings s)" "[cr] \<notin> set (line_endings s)"
    | "[cr, lf] \<notin> set (line_endings s)" "[lf] \<notin> set (line_endings s)" "[cr] \<in> set (line_endings s)"
    | "[cr, lf] \<notin> set (line_endings s)" "[cr] \<notin> set (line_endings s)"
    by blast
  then show thesis
  proof cases
    case 1
    then have "ending_name s = ''mixed''" unfolding name Let_def by auto
    then show thesis by (rule mixed)
  next
    case 2
    then have "ending_name s = ''CRLF''" unfolding name Let_def by simp
    then show thesis using CRLF one_of 2 by blast
  next
    case 3
    then have "ending_name s = ''CR''" unfolding name Let_def by simp
    then show thesis using CR one_of 3 by blast
  next
    case 4
    then have "ending_name s = ''LF'' \<or> ending_name s = ''none''" unfolding name Let_def by simp
    then show thesis using LF one_of 4 by blast
  qed
qed

lemma uniform_join:
  assumes "\<forall>e \<in> set (line_endings s). e = sep"
  shows "join (split_on lf (logical s)) sep = s"
proof -
  have "line_endings s = replicate (length (line_endings s)) sep"
    using assms by (induction "line_endings s") (simp_all add: replicate_length_same)
  then show ?thesis
    using weave_logical [of s] weave_lf [of "split_on lf (logical s)" sep] length_line_endings [of s] by simp
qed

lemma replace_lf_join: "replace_all [lf] r s = join (split_on lf s) r"
proof (induction s)
  case (Cons d s)
  obtain l ls where "split_on lf s = l # ls" by (rule split_on_cases)
  then show ?case using Cons by (simp add: replace_lf join_Cons join_head)
qed simp

lemma weave_from_drop:
  "length ls \<le> Suc (length seps - i) \<Longrightarrow> weave_from seps i ls = weave ls (drop i seps)"
proof (induction seps i ls rule: weave_from.induct)
  case (3 seps i l l' ls)
  then have i: "i < length seps" by simp
  then have "drop i seps = seps ! i # drop (Suc i) seps" by (simp add: Cons_nth_drop_Suc)
  then show ?case using 3 i by (simp add: separator_at_def)
qed simp_all

lemma weave_from_logical: "weave_from (line_endings s) 0 (split_on lf (logical s)) = s"
  using weave_from_drop [of "split_on lf (logical s)" "line_endings s" 0] weave_logical [of s]
    length_line_endings [of s] by simp

section \<open>What a decoded file looks like\<close>

lemma valid_no_bom:
  assumes "utf8_valid s"
  shows "\<not> has_prefix s utf16le_bom" "\<not> has_prefix s utf16be_bom"
proof -
  have none: "lead_rune (CHR 0xFF # t) = None" "lead_rune (CHR 0xFE # t) = None" for t
    by (cases t; simp add: lead_rune_def byte_val_def split: option.split list.split)+
  then have "\<not> utf8_valid (CHR 0xFF # t)" "\<not> utf8_valid (CHR 0xFE # t)" for t
    by (simp_all add: utf8_valid.simps)
  then show "\<not> has_prefix s utf16le_bom" "\<not> has_prefix s utf16be_bom"
    using assms by (auto simp: has_prefix_iff utf16le_bom_def utf16be_bom_def)
qed

lemma raw_format_valid:
  assumes "utf8_valid s"
  shows "line_ending (detect_raw_format s) = ending_name s"
  using valid_no_bom [OF assms] assms
  by (simp add: detect_raw_format_def detect_charset_def Let_def ending_name_def)

lemma decoded_format [simp]:
  "charset (apply_decoded_format f text) = charset f" "bom (apply_decoded_format f text) = bom f"
  "line_ending (apply_decoded_format f text) = line_ending (detect_raw_format text)"
  by (simp_all add: apply_decoded_format_def Let_def)

lemma detect_raw_charset:
  "charset (detect_raw_format c) = fst (detect_charset c)" "bom (detect_raw_format c) = snd (detect_charset c)"
  by (cases "detect_charset c"; simp add: detect_raw_format_def Let_def)+

lemma detect_cases:
  obtains (marked) "charset (detect_raw_format c) = ''utf-8''" "bom (detect_raw_format c) = ''utf-8''" "has_prefix c utf8_bom"
  | (LE) "charset (detect_raw_format c) = ''utf-16le''" "bom (detect_raw_format c) = ''utf-16le''"
      "has_prefix c utf16le_bom"
  | (BE) "charset (detect_raw_format c) = ''utf-16be''" "bom (detect_raw_format c) = ''utf-16be''"
      "has_prefix c utf16be_bom"
  | (plain) "charset (detect_raw_format c) = ''utf-8''" "bom (detect_raw_format c) = ''none''"
      "utf8_valid c" "\<not> has_prefix c utf8_bom"
  | (unknown) "charset (detect_raw_format c) = ''unknown''"
  using that unfolding detect_raw_charset detect_charset_def
  by (cases "has_prefix c utf8_bom"; cases "has_prefix c utf16le_bom"; cases "has_prefix c utf16be_bom"; cases "utf8_valid c") simp_all

text \<open>The units of a checked UTF-16 text are recovered from its UTF-8 form.\<close>

definition units_ok :: "nat list \<Rightarrow> bool" where
  "units_ok us \<longleftrightarrow> list_all (unit_ok us) [0..<length us]"

lemma units_ok_paired: "units_ok us \<Longrightarrow> paired us"
  by (rule units_are_paired) (simp add: units_ok_def list_all_iff)

lemma utf16_text:
  assumes "units_ok (read_units order s)" "even (length s)"
  shows "utf8_valid (decode_utf16 order s)" "encode_utf16 order (decode_utf16 order s) = s"
proof -
  let ?us = "read_units order s"
  have e: "list_all scalar (utf16_decode ?us)" "utf16_encode (utf16_decode ?us) = ?us"
    using utf16_encode_decode [OF units_ok_paired [OF assms(1)] read_units_less] by simp_all
  then show "utf8_valid (decode_utf16 order s)" "encode_utf16 order (decode_utf16 order s) = s"
    using assms(2) by (simp_all add: decode_utf16_def encode_utf16_def text_is_valid runes_of_text put_read_units)
qed

lemma decode_text_cases:
  assumes "decode_text content = Inr (text, f)"
  obtains (marked) "charset f = ''utf-8''" "bom f = ''utf-8''" "content = utf8_bom @ text" "utf8_valid text"
    "line_ending f = ending_name text"
  | (plain) "charset f = ''utf-8''" "bom f = ''none''" "content = text" "utf8_valid text"
    "line_ending f = ending_name text" "\<not> has_prefix text utf8_bom"
  | (LE) s where "charset f = ''utf-16le''" "bom f = ''utf-16le''" "content = utf16le_bom @ s"
    "text = decode_utf16 LittleEndian s" "utf8_valid text" "encode_utf16 LittleEndian text = s"
    "line_ending f = ending_name text"
  | (BE) s where "charset f = ''utf-16be''" "bom f = ''utf-16be''" "content = utf16be_bom @ s"
    "text = decode_utf16 BigEndian s" "utf8_valid text" "encode_utf16 BigEndian text = s"
    "line_ending f = ending_name text"
proof (cases rule: detect_cases [of content])
  case m: marked
  then obtain r where r: "content = utf8_bom @ r" by (auto simp: has_prefix_iff)
  then have "drop 3 content = r" by (simp add: utf8_bom_def)
  then have "utf8_valid r" "text = r" "f = apply_decoded_format (detect_raw_format content) r"
    using m assms by (auto simp: decode_text_def Let_def split: if_splits)
  then show thesis using marked m r by (simp add: raw_format_valid)
next
  case l: LE
  then obtain r where r: "content = utf16le_bom @ r" by (auto simp: has_prefix_iff)
  then have d: "drop 2 content = r" by (simp add: utf16le_bom_def)
  then have u: "even (length r)" "units_ok (read_units LittleEndian r)" "text = decode_utf16 LittleEndian r"
    "f = apply_decoded_format (detect_raw_format content) text"
    using l assms by (auto simp: decode_text_def Let_def units_ok_def decode_utf16_def split: if_splits)
  show thesis using LE [OF _ _ r u(3)] l utf16_text [OF u(2,1)] u(3,4) by (simp add: raw_format_valid)
next
  case l: BE
  then obtain r where r: "content = utf16be_bom @ r" by (auto simp: has_prefix_iff)
  then have d: "drop 2 content = r" by (simp add: utf16be_bom_def)
  then have u: "even (length r)" "units_ok (read_units BigEndian r)" "text = decode_utf16 BigEndian r"
    "f = apply_decoded_format (detect_raw_format content) text"
    using l assms by (auto simp: decode_text_def Let_def units_ok_def decode_utf16_def split: if_splits)
  show thesis using BE [OF _ _ r u(3)] l utf16_text [OF u(2,1)] u(3,4) by (simp add: raw_format_valid)
next
  case p: plain
  then have "content = text" "f = apply_decoded_format (detect_raw_format content) content"
    using assms by (auto simp: decode_text_def Let_def split: if_splits)
  then show thesis using plain p by (simp add: raw_format_valid)
next
  case unknown
  then show thesis using assms by (simp add: decode_text_def Let_def)
qed

text \<open>Rewriting the line endings of the logical text as the format says restores the text.\<close>

lemma encode_restores:
  assumes "ending_name text = line_ending f" "line_ending f \<noteq> ''mixed''"
  shows "encode_with_format (logical text) f = encode_with_format text (f\<lparr>line_ending := ''LF''\<rparr>)"
proof -
  have "(if line_ending f = ''CRLF'' then replace_all [lf] [cr, lf] (logical text)
    else if line_ending f = ''CR'' then replace_all [lf] [cr] (logical text) else logical text) = text"
  proof (cases rule: ending_name_cases [of "text"])
    case LF
    then have "logical text = text" using uniform_join [of "text" "[lf]"] by (simp add: join_split)
    then show ?thesis using LF assms by auto
  qed (use assms in \<open>simp_all add: replace_lf_join uniform_join\<close>)
  then show ?thesis by (simp add: encode_with_format_def)
qed

lemma encode_mixed: "line_ending f = ''mixed'' \<Longrightarrow>
  encode_with_format text f = encode_with_format text (f\<lparr>line_ending := ''LF''\<rparr>)"
  by (simp add: encode_with_format_def)

lemma line_endings_bom: "line_endings (utf8_bom @ s) = line_endings s"
  by (simp add: utf8_bom_def)

lemma original_restores:
  assumes "decode_text content = Inr (text, f)"
  shows "encode_with_original_format (logical text) f content = encode_with_format text (f\<lparr>line_ending := ''LF''\<rparr>)"
proof (cases "line_ending f = ''mixed''")
  case False
  moreover have "ending_name text = line_ending f" using assms by (cases rule: decode_text_cases) simp_all
  ultimately show ?thesis using encode_restores by (simp add: encode_with_original_format_def)
next
  case True
  have "line_endings (if charset f = ''utf-16le'' then decode_utf16 LittleEndian (drop 2 content)
    else if charset f = ''utf-16be'' then decode_utf16 BigEndian (drop 2 content) else content) = line_endings text"
    using assms
    by (cases rule: decode_text_cases) (simp_all add: line_endings_bom utf16le_bom_def utf16be_bom_def)
  then show ?thesis using True
    by (simp add: encode_with_original_format_def Let_def weave_from_logical encode_mixed)
qed

text \<open>C22: a file that is read as text and written back unchanged has the same bytes as before: charset, byte
  order mark and line endings, mixed ones included, are kept.\<close>

theorem unchanged_text_keeps_the_bytes:
  assumes "normalize_to_logical content = Inr (text, f)"
  shows "encode_with_original_format text f content = content"
proof -
  obtain t where t: "decode_text content = Inr (t, f)" "text = logical t"
    using assms by (auto simp: normalize_to_logical_def normalize_logical)
  from t(1) have "encode_with_format t (f\<lparr>line_ending := ''LF''\<rparr>) = content"
    by (cases rule: decode_text_cases) (simp_all add: encode_with_format_def Let_def)
  then show ?thesis using original_restores [OF t(1)] t(2) by simp
qed

section \<open>What is written is read back\<close>

lemma tail_bits_Some: "tail_bits c = Some t \<longleftrightarrow> t < 64 \<and> c = octet (0x80 + t)"
proof
  assume "tail_bits c = Some t"
  then have b: "0x80 \<le> byte_val c" "byte_val c < 0xC0" "t = byte_val c - 0x80"
    by (simp_all add: tail_bits_def split: if_splits)
  then have "0x80 + t = byte_val c" by simp
  then have "octet (0x80 + t) = c" by (simp only: octet_val)
  then show "t < 64 \<and> c = octet (0x80 + t)" using b by simp
qed simp

lemma byte_val_offset: "n \<le> byte_val c \<Longrightarrow> c = octet (n + (byte_val c - n))"
  by simp

text \<open>The digits of a number to the base 64.\<close>

lemma digits64:
  assumes "t < (64 :: nat)"
  shows "(q * 64 + t) div 64 = q" "(q * 64 + t) mod 64 = t"
  using assms by auto

lemma div_64_64: "r div 4096 = r div 64 div (64 :: nat)" "r div 262144 = r div 64 div 64 div (64 :: nat)"
  by (simp_all add: div_mult2_eq [symmetric])

lemma lead_rune_Some:
  assumes "lead_rune s = Some (r, n)"
  shows "scalar r \<and> (\<exists>s'. s = utf8_encode r @ s') \<and> n = length (utf8_encode r)"
proof -
  obtain c0 s1 where s: "s = c0 # s1" using assms by (cases s) (auto simp: lead_rune_def)
  show ?thesis
  proof (cases "byte_val c0 < 0x80")
    case True
    then have "r = byte_val c0" "n = 1" using assms by (auto simp: s lead_rune_def)
    then show ?thesis using True by (simp add: s utf8_encode_def scalar_def)
  next
    case n0: False
    obtain c1 s2 where s1: "s1 = c1 # s2" using assms n0 by (cases s1) (auto simp: s lead_rune_def)
    obtain t1 where t1: "tail_bits c1 = Some t1"
      using assms n0 by (auto simp: s s1 lead_rune_def Let_def split: option.splits)
    then have c1: "t1 < 64" "c1 = octet (0x80 + t1)" by (simp_all add: tail_bits_Some)
    show ?thesis
    proof (cases "0xC2 \<le> byte_val c0 \<and> byte_val c0 < 0xE0")
      case True
      define h where "h = byte_val c0 - 0xC0"
      have h: "2 \<le> h" "h < 32" "c0 = octet (0xC0 + h)" using True byte_val_offset [of "0xC0" c0] by (auto simp: h_def)
      have r: "r = h * 64 + t1" "n = 2" using assms n0 True by (auto simp: s s1 t1 lead_rune_def Let_def h_def)
      then have "r div 64 = h" "r mod 64 = t1" "0x80 \<le> r" "r < 0x800" using c1 h by auto
      then show ?thesis using r(2) c1 h by (simp add: s s1 utf8_encode_def Let_def scalar_def)
    next
      case n1: False
      obtain c2 s3 where s2: "s2 = c2 # s3" using assms n0 n1 t1 by (cases s2) (auto simp: s s1 lead_rune_def Let_def)
      obtain t2 where t2: "tail_bits c2 = Some t2"
        using assms n0 n1 t1 by (auto simp: s s1 s2 lead_rune_def Let_def split: option.splits)
      then have c2: "t2 < 64" "c2 = octet (0x80 + t2)" by (simp_all add: tail_bits_Some)
      show ?thesis
      proof (cases "0xE0 \<le> byte_val c0 \<and> byte_val c0 < 0xF0")
        case True
        define h where "h = byte_val c0 - 0xE0"
        have h: "h < 16" "c0 = octet (0xE0 + h)" using True byte_val_offset [of "0xE0" c0] by (auto simp: h_def)
        have r: "r = h * 4096 + t1 * 64 + t2" "n = 3" "0x800 \<le> r" "scalar r"
          using assms n0 n1 True by (auto simp: s s1 s2 t1 t2 lead_rune_def Let_def h_def split: if_splits)
        have "r = (h * 64 + t1) * 64 + t2" using r(1) by simp
        then have "r div 4096 = h" "r div 64 mod 64 = t1" "r mod 64 = t2"
          unfolding div_64_64 by (simp_all only: digits64 [OF c1(1)] digits64 [OF c2(1)])
        moreover have "r < 0x10000" using r(1) c1 c2 h by simp
        ultimately show ?thesis using r(2-4) c1 c2 h by (simp add: s s1 s2 utf8_encode_def Let_def)
      next
        case n2: False
        obtain c3 s4 where s3: "s3 = c3 # s4"
          using assms n0 n1 n2 t1 t2 by (cases s3) (auto simp: s s1 s2 lead_rune_def Let_def)
        obtain t3 where t3: "tail_bits c3 = Some t3"
          using assms n0 n1 n2 t1 t2 by (auto simp: s s1 s2 s3 lead_rune_def Let_def split: option.splits if_splits)
        then have c3: "t3 < 64" "c3 = octet (0x80 + t3)" by (simp_all add: tail_bits_Some)
        define h where "h = byte_val c0 - 0xF0"
        have r: "r = h * 262144 + t1 * 4096 + t2 * 64 + t3" "n = 4" "0x10000 \<le> r" "scalar r"
          and b: "0xF0 \<le> byte_val c0" "byte_val c0 < 0xF5"
          using assms n0 n1 n2 by (auto simp: s s1 s2 s3 t1 t2 t3 lead_rune_def Let_def h_def split: if_splits)
        have h: "h < 5" "c0 = octet (0xF0 + h)" using b byte_val_offset [of "0xF0" c0] by (auto simp: h_def)
        have "r = ((h * 64 + t1) * 64 + t2) * 64 + t3" using r(1) by simp
        then have "r div 262144 = h" "r div 4096 mod 64 = t1" "r div 64 mod 64 = t2" "r mod 64 = t3"
          unfolding div_64_64 by (simp_all only: digits64 [OF c1(1)] digits64 [OF c2(1)] digits64 [OF c3(1)])
        then show ?thesis using r(2-4) c1 c2 c3 h by (simp add: s s1 s2 s3 utf8_encode_def Let_def)
      qed
    qed
  qed
qed

lemma runes_of_valid: "utf8_valid s \<Longrightarrow> list_all scalar (utf8_runes s) \<and> utf8_text (utf8_runes s) = s"
proof (induction s rule: utf8_valid.induct)
  case (2 c s)
  then obtain r n where r: "lead_rune (c # s) = Some (r, n)" by (auto simp: utf8_valid.simps split: option.splits)
  obtain s' where s': "c # s = utf8_encode r @ s'" "scalar r" "n = length (utf8_encode r)"
    using lead_rune_Some [OF r] by blast
  have d: "drop (n - 1) s = s'" using s'(1,3) by (cases "utf8_encode r") simp_all
  have "utf8_valid s'" using 2(2) r d by (simp add: utf8_valid.simps)
  then have "list_all scalar (utf8_runes s') \<and> utf8_text (utf8_runes s') = s'" using 2(1) [OF r refl] d by simp
  then show ?case using s' by (simp add: utf8_step(1) utf8_text_def del: append_Cons)
qed (simp add: utf8_runes.simps utf8_text_def)

lemma paired_units_ok: "paired us \<Longrightarrow> i < length us \<Longrightarrow> unit_ok us i"
proof (induction us arbitrary: i rule: paired.induct)
  case (2 u)
  then show ?case by (simp add: unit_ok_def)
next
  case (3 u v us)
  show ?case
  proof (cases "high_unit u")
    case True
    then have l: "low_unit v" "paired us" using 3(3) by simp_all
    consider "i = 0" | "i = 1" | j where "i = Suc (Suc j)" by (cases i; cases "i - 1") auto
    then show ?thesis
    proof cases
      case (3 j)
      then have "unit_ok us j" using "3.IH"(1) [OF True l(2)] "3.prems"(2) by simp
      then show ?thesis using 3 by (cases j) (auto simp: unit_ok_def Let_def split: if_splits)
    qed (use True l low_not_high in \<open>auto simp: unit_ok_def Let_def\<close>)
  next
    case False
    then have n: "\<not> low_unit u" "paired (v # us)" using 3(3) by simp_all
    show ?thesis
    proof (cases i)
      case (Suc j)
      then have "unit_ok (v # us) j" using "3.IH"(2) [OF False n(2)] "3.prems"(2) by simp
      then show ?thesis using Suc by (cases j) (auto simp: unit_ok_def Let_def split: if_splits)
    qed (use False n in \<open>simp add: unit_ok_def\<close>)
  qed
qed simp

lemma utf16_units_cases:
  assumes "scalar r"
  obtains "utf16_units r = [r]" "r < 65536" "\<not> high_unit r" "\<not> low_unit r"
  | u v where "utf16_units r = [u, v]" "u < 65536" "v < 65536" "high_unit u" "low_unit v"
      "(u - 0xD800) * 1024 + (v - 0xDC00) + 0x10000 = r"
proof (cases "r < 0x10000")
  case True
  then show thesis using assms that(1) by (auto simp: utf16_units_def scalar_def high_unit_def low_unit_def)
next
  case False
  define q where "q = r - 0x10000"
  have q: "q div 1024 < 1024" "q div 1024 * 1024 + q mod 1024 = q"
    using assms by (auto simp: q_def scalar_def div_less_iff_less_mult)
  then show thesis using assms False that(2) [of "0xD800 + q div 1024" "0xDC00 + q mod 1024"]
    by (auto simp: utf16_units_def high_unit_def low_unit_def q_def)
qed

lemma utf16_decode_encode:
  "list_all scalar rs \<Longrightarrow> paired (utf16_encode rs) \<and> list_all (\<lambda>u. u < 65536) (utf16_encode rs)
     \<and> utf16_decode (utf16_encode rs) = rs"
proof (induction rs)
  case (Cons r rs)
  then have ih: "paired (utf16_encode rs)" "list_all (\<lambda>u. u < 65536) (utf16_encode rs)"
    "utf16_decode (utf16_encode rs) = rs" and r: "scalar r" by simp_all
  have e: "utf16_encode (r # rs) = utf16_units r @ utf16_encode rs" by (simp add: utf16_encode_def)
  from r show ?case unfolding e
  proof (cases rule: utf16_units_cases)
    case 1
    then show "paired (utf16_units r @ utf16_encode rs) \<and> list_all (\<lambda>u. u < 65536) (utf16_units r @ utf16_encode rs)
      \<and> utf16_decode (utf16_units r @ utf16_encode rs) = r # rs"
      using ih by (cases "utf16_encode rs") simp_all
  qed (use ih in simp)
qed (simp add: utf16_encode_def)

lemma utf16_read_back:
  assumes "utf8_valid s"
  shows "units_ok (read_units order (encode_utf16 order s))" "even (length (encode_utf16 order s))"
    "decode_utf16 order (encode_utf16 order s) = s"
proof -
  note v = runes_of_valid [OF assms]
  then have e: "paired (utf16_encode (utf8_runes s))" "list_all (\<lambda>u. u < 65536) (utf16_encode (utf8_runes s))"
    "utf16_decode (utf16_encode (utf8_runes s)) = utf8_runes s" using utf16_decode_encode by blast+
  note u = read_put_units [OF e(2), of order]
  show "units_ok (read_units order (encode_utf16 order s))"
    using u paired_units_ok [OF e(1)] by (simp add: encode_utf16_def units_ok_def list_all_iff)
  show "even (length (encode_utf16 order s))" "decode_utf16 order (encode_utf16 order s) = s"
    using u e(3) v by (simp_all add: encode_utf16_def decode_utf16_def)
qed

text \<open>Rewriting line feeds keeps a text valid, and a byte order mark is neither made nor lost.\<close>

lemma octet_endings: "octet 10 = lf" "octet 13 = cr"
  by code_simp+

lemma encode_byte_lf:
  assumes "scalar r"
  shows "lf \<in> set (utf8_encode r) \<longleftrightarrow> r = 10"
proof -
  have n: "octet n = lf \<longleftrightarrow> n = 10" if "n < 256" for n
  proof -
    have "lf = octet 10" by (simp only: octet_endings)
    then show ?thesis using byte_val_octet [OF that] byte_val_octet [of 10] by auto
  qed
  have m: "x mod 64 < 128" for x :: nat by (rule less_trans [of _ 64]) simp_all
  have less: "r < 0x110000" using assms by (auto simp: scalar_def)
  consider "r < 0x80" | "0x80 \<le> r" "r < 0x800" | "0x800 \<le> r" "r < 0x10000" | "0x10000 \<le> r" by linarith
  then show ?thesis
  proof cases
    case 1
    then show ?thesis using assms n [of r] by (auto simp: utf8_encode_def m)
  next
    case 2
    then have "r div 64 < 32" by (simp add: div_less_iff_less_mult)
    then show ?thesis using 2 assms n [of "0xC0 + r div 64"] n [of "0x80 + r mod 64"] by (auto simp: utf8_encode_def m)
  next
    case 3
    then have "r div 4096 < 16" by (simp add: div_less_iff_less_mult)
    then show ?thesis
      using 3 assms n [of "0xE0 + r div 4096"] n [of "0x80 + r div 64 mod 64"] n [of "0x80 + r mod 64"]
      by (auto simp: utf8_encode_def m)
  next
    case 4
    then have "r div 262144 < 5" using less by (simp add: div_less_iff_less_mult)
    then show ?thesis
      using 4 assms n [of "0xF0 + r div 262144"] n [of "0x80 + r div 4096 mod 64"] n [of "0x80 + r div 64 mod 64"]
        n [of "0x80 + r mod 64"]
      by (auto simp: utf8_encode_def m)
  qed
qed

lemma replace_lf_append: "replace_all [lf] sep (s @ t) = replace_all [lf] sep s @ replace_all [lf] sep t"
  by (simp add: replace_lf)

lemma replace_lf_free: "lf \<notin> set s \<Longrightarrow> replace_all [lf] sep s = s"
  by (induction s) (auto simp: replace_lf)

lemma replace_lf_text:
  "list_all scalar rs \<Longrightarrow> replace_all [lf] (utf8_text es) (utf8_text rs) =
     utf8_text (concat (map (\<lambda>r. if r = 10 then es else [r]) rs))"
proof (induction rs)
  case (Cons r rs)
  have "replace_all [lf] (utf8_text es) (utf8_encode r) = (if r = 10 then utf8_text es else utf8_encode r)"
  proof (cases "r = 10")
    case True
    have "utf8_encode 10 = [lf]" by (simp add: utf8_encode_def scalar_def octet_endings)
    then show ?thesis using True by (simp add: replace_lf)
  next
    case False
    then show ?thesis using Cons.prems encode_byte_lf [of r] by (simp add: replace_lf_free)
  qed
  then show ?case using Cons by (simp add: utf8_text_def replace_lf_append)
qed (simp add: utf8_text_def)

lemma valid_replace_lf:
  assumes "utf8_valid s" "sep = [cr, lf] \<or> sep = [cr]"
  shows "utf8_valid (replace_all [lf] sep s)"
proof -
  define es where "es = (if sep = [cr] then [13] else [13, 10 :: nat])"
  have "utf8_encode 13 = [cr]" "utf8_encode 10 = [lf]"
    by (simp_all add: utf8_encode_def scalar_def octet_endings)
  then have es: "utf8_text es = sep" "list_all scalar es"
    using assms(2) by (auto simp: es_def utf8_text_def scalar_def)
  note v = runes_of_valid [OF assms(1)]
  have "list_all scalar (concat (map (\<lambda>r. if r = 10 then es else [r]) (utf8_runes s)))"
    using v es(2) by (auto simp: list_all_iff)
  then show ?thesis
    using text_is_valid replace_lf_text [of "utf8_runes s" es] v es(1) by simp
qed

lemma replace_lf_head:
  "replace_all [lf] (cr # sep) s = c # t \<Longrightarrow> c \<noteq> cr \<Longrightarrow> \<exists>s'. s = c # s' \<and> t = replace_all [lf] (cr # sep) s'"
  by (cases s) (auto simp: replace_lf split: if_splits)

lemma bom_replace_lf:
  assumes "has_prefix (replace_all [lf] (cr # sep) s) utf8_bom"
  shows "has_prefix s utf8_bom"
proof -
  obtain t where "replace_all [lf] (cr # sep) s = CHR 0xEF # CHR 0xBB # CHR 0xBF # t"
    using assms by (auto simp: has_prefix_iff utf8_bom_def)
  from replace_lf_head [OF this] obtain s1 where
    s1: "s = CHR 0xEF # s1" "replace_all [lf] (cr # sep) s1 = CHR 0xBB # CHR 0xBF # t" by auto
  from replace_lf_head [OF s1(2)] obtain s2 where
    s2: "s1 = CHR 0xBB # s2" "replace_all [lf] (cr # sep) s2 = CHR 0xBF # t" by auto
  from replace_lf_head [OF s2(2)] obtain s3 where "s2 = CHR 0xBF # s3" by auto
  then show ?thesis using s1(1) s2(1) by (simp add: has_prefix_def utf8_bom_def)
qed

lemma logical_crlf: "cr \<notin> set s \<Longrightarrow> logical (replace_all [lf] [cr, lf] s) = s"
  by (induction s) (auto simp: replace_lf)

lemma logical_cr: "cr \<notin> set s \<Longrightarrow> logical (replace_all [lf] [cr] s) = s"
proof (induction s)
  case (Cons c s)
  then show ?case
    by (cases s) (auto simp: replace_lf)
qed simp

definition ending_body :: "bytes \<Rightarrow> file_format \<Rightarrow> bytes" where
  "ending_body text f = (if line_ending f = ''CRLF'' then replace_all [lf] [cr, lf] text
                        else if line_ending f = ''CR'' then replace_all [lf] [cr] text else text)"

lemma ending_body_facts:
  assumes "cr \<notin> set s" "utf8_valid s"
  shows "logical (ending_body s f) = s" "utf8_valid (ending_body s f)"
    "has_prefix (ending_body s f) utf8_bom \<Longrightarrow> has_prefix s utf8_bom"
  using assms bom_replace_lf [of "[lf]" s] bom_replace_lf [of "[]" s]
  by (auto simp: ending_body_def logical_crlf logical_cr logical_same valid_replace_lf split: if_splits)

lemma encode_body: "encode_with_format s f =
  (let out = (if charset f = ''utf-16le'' then encode_utf16 LittleEndian (ending_body s f)
              else if charset f = ''utf-16be'' then encode_utf16 BigEndian (ending_body s f) else ending_body s f)
   in if bom f = ''utf-8'' then utf8_bom @ out else if bom f = ''utf-16le'' then utf16le_bom @ out
      else if bom f = ''utf-16be'' then utf16be_bom @ out else out)"
  by (simp add: encode_with_format_def ending_body_def)

lemma has_prefix_bom_other [simp]:
  "\<not> has_prefix (utf16le_bom @ s) utf8_bom" "\<not> has_prefix (utf16be_bom @ s) utf8_bom"
  "\<not> has_prefix (utf16be_bom @ s) utf16le_bom"
  by (simp_all add: has_prefix_def utf8_bom_def utf16le_bom_def utf16be_bom_def)

lemma decode_written:
  assumes "utf8_valid s"
  shows "\<exists>g. decode_text (utf8_bom @ s) = Inr (s, g) \<and> charset g = ''utf-8'' \<and> bom g = ''utf-8''"
    "\<not> has_prefix s utf8_bom \<Longrightarrow> \<exists>g. decode_text s = Inr (s, g) \<and> charset g = ''utf-8'' \<and> bom g = ''none''"
    "\<exists>g. decode_text (utf16le_bom @ encode_utf16 LittleEndian s) = Inr (s, g) \<and> charset g = ''utf-16le'' \<and> bom g = ''utf-16le''"
    "\<exists>g. decode_text (utf16be_bom @ encode_utf16 BigEndian s) = Inr (s, g) \<and> charset g = ''utf-16be'' \<and> bom g = ''utf-16be''"
proof -
  have d: "drop 3 (utf8_bom @ s) = s" "drop 2 (utf16le_bom @ t) = t" "drop 2 (utf16be_bom @ t) = t" for t
    by (simp_all add: utf8_bom_def utf16le_bom_def utf16be_bom_def)
  show "\<exists>g. decode_text (utf8_bom @ s) = Inr (s, g) \<and> charset g = ''utf-8'' \<and> bom g = ''utf-8''"
    using assms by (simp add: decode_text_def detect_raw_charset detect_charset_def d(1) Let_def del: drop_append)
  show "\<exists>g. decode_text s = Inr (s, g) \<and> charset g = ''utf-8'' \<and> bom g = ''none''" if "\<not> has_prefix s utf8_bom"
    using assms that valid_no_bom [OF assms] by (simp add: decode_text_def detect_raw_charset detect_charset_def)
  note u = utf16_read_back [OF assms, unfolded units_ok_def decode_utf16_def]
  show "\<exists>g. decode_text (utf16le_bom @ encode_utf16 LittleEndian s) = Inr (s, g) \<and> charset g = ''utf-16le'' \<and> bom g = ''utf-16le''"
    using u [of LittleEndian]
    by (simp add: decode_text_def detect_raw_charset detect_charset_def d Let_def del: drop_append length_drop) (simp add: utf16le_bom_def)
  show "\<exists>g. decode_text (utf16be_bom @ encode_utf16 BigEndian s) = Inr (s, g) \<and> charset g = ''utf-16be'' \<and> bom g = ''utf-16be''"
    using u [of BigEndian]
    by (simp add: decode_text_def detect_raw_charset detect_charset_def d Let_def del: drop_append length_drop) (simp add: utf16be_bom_def)
qed

text \<open>C35: a new text for a file whose line endings are not mixed is read back as that text, in the charset
  and with the byte order mark of the old file.\<close>

theorem written_text_is_read_back:
  assumes "normalize_to_logical content = Inr (old, f)" "line_ending f \<noteq> ''mixed''"
    and new: "utf8_valid new" "cr \<notin> set new" "\<not> has_prefix new utf8_bom"
  shows "\<exists>g. normalize_to_logical (encode_with_original_format new f content) = Inr (new, g)
    \<and> charset g = charset f \<and> bom g = bom f"
proof -
  obtain t where t: "decode_text content = Inr (t, f)" using assms(1) by (auto simp: normalize_to_logical_def)
  note b = ending_body_facts [OF new(2,1), of f]
  have "\<exists>g. decode_text (encode_with_format new f) = Inr (ending_body new f, g) \<and> charset g = charset f \<and> bom g = bom f"
    using t decode_written [OF b(2)] b(3) new(3)
    by (cases rule: decode_text_cases) (auto simp: encode_body)
  then show ?thesis
    using assms(2) b(1) by (auto simp: encode_with_original_format_def normalize_to_logical_def normalize_logical)
qed

section \<open>Samples\<close>

text \<open>A little-endian UTF-16 file with a surrogate pair and CRLF, CR and LF endings, and a UTF-8 file with a byte
  order mark and CRLF endings.\<close>

definition mixed_file :: bytes where
  "mixed_file = utf16le_bom @ put_units LittleEndian [97, 0xD83D, 0xDE00, 13, 10, 13, 233, 10]"

definition marked_file :: bytes where
  "marked_file = utf8_bom @ ''a'' @ [cr, lf] @ ''b'' @ [cr, lf]"

definition logical_of :: "bytes \<Rightarrow> bytes" where
  "logical_of content = (case normalize_to_logical content of Inr (s, f) \<Rightarrow> s | Inl _ \<Rightarrow> [])"

lemma logical_of_ok: "is_ok (normalize_to_logical content) \<Longrightarrow> \<exists>f. normalize_to_logical content = Inr (logical_of content, f)"
  by (auto simp: is_ok_iff logical_of_def)

lemma unchanged_text_keeps_the_bytes_witness:
  "\<exists>f. normalize_to_logical mixed_file = Inr (logical_of mixed_file, f) \<and> line_ending f = ''mixed''
     \<and> encode_with_original_format (logical_of mixed_file) f mixed_file = mixed_file"
proof -
  have "is_ok (normalize_to_logical mixed_file)" by code_simp
  then obtain f where f: "normalize_to_logical mixed_file = Inr (logical_of mixed_file, f)" using logical_of_ok by blast
  have "(case normalize_to_logical mixed_file of Inr (s, f) \<Rightarrow> line_ending f = ''mixed'' | Inl _ \<Rightarrow> False)" by code_simp
  then show ?thesis using f unchanged_text_keeps_the_bytes [OF f] by auto
qed

lemma written_text_is_read_back_witness:
  "\<exists>f g. normalize_to_logical marked_file = Inr (logical_of marked_file, f)
     \<and> normalize_to_logical (encode_with_original_format (''x'' @ [lf, lf] @ ''y'') f marked_file) = Inr (''x'' @ [lf, lf] @ ''y'', g)
     \<and> bom g = ''utf-8''"
proof -
  have "is_ok (normalize_to_logical marked_file)" by code_simp
  then obtain f where f: "normalize_to_logical marked_file = Inr (logical_of marked_file, f)" using logical_of_ok by blast
  have "(case normalize_to_logical marked_file of
      Inr (s, f) \<Rightarrow> line_ending f = ''CRLF'' \<and> bom f = ''utf-8'' | Inl _ \<Rightarrow> False)" by code_simp
  then have n: "line_ending f \<noteq> ''mixed''" "bom f = ''utf-8''" using f by simp_all
  have "utf8_valid (''x'' @ [lf, lf] @ ''y'')" "cr \<notin> set (''x'' @ [lf, lf] @ ''y'')"
    "\<not> has_prefix (''x'' @ [lf, lf] @ ''y'') utf8_bom" by code_simp+
  from written_text_is_read_back [OF f n(1) this] show ?thesis using f n(2) by auto
qed

end
