(* ===== verification/Edit_Text.thy ===== *)
theory Edit_Text
  imports Text_Roundtrip "HOL-Library.Multiset"
begin

text \<open>
  The requests of the edit engine (\<^verbatim>\<open>internal/edit/types.go\<close>) and what they do to a text (\<^verbatim>\<open>applyUpdate\<close>,
  \<^verbatim>\<open>applyLineRange\<close>, \<^verbatim>\<open>applyReplacements\<close>, \<^verbatim>\<open>checkBase\<close> of \<^verbatim>\<open>internal/edit/apply.go\<close>). \<open>sha\<close> is SHA-256 in
  hexadecimal. An index out of range is the error \<open>Crash\<close>; an error the code returns as it got it is \<open>Plain\<close>.
\<close>

section \<open>Requests and errors\<close>

datatype error_code =
  INVALID_INPUT | INVALID_PATH | TARGET_EXISTS | NOT_FOUND | STALE_REVISION | UNSUPPORTED_ENCODING
  | MATCH_NOT_FOUND | MATCH_AMBIGUOUS | RANGE_OUT_OF_BOUNDS | SYMLINK_NOT_ALLOWED | DELETE_FILE_ONLY
  | UNSUPPORTED | FORMAT_MISMATCH | TOO_MANY_CHANGES | READBACK_MISMATCH | MOVE_OUT_REQUIRED | Plain | Crash

record apply_error =
  er_code :: error_code
  er_path :: bytes
  er_index :: int
  er_current :: bytes
  er_changed :: nat

definition edit_error :: "error_code \<Rightarrow> bytes \<Rightarrow> int \<Rightarrow> apply_error" where
  "edit_error c path i = \<lparr>er_code = c, er_path = path, er_index = i, er_current = [], er_changed = 0\<rparr>"

record replacement =
  rp_match :: bytes
  rp_text :: bytes

record line_range =
  lr_start :: int
  lr_end :: int
  lr_text :: bytes

record expected_format =
  ef_charset :: bytes
  ef_bom :: bytes
  ef_ending :: bytes

record file_edit =
  fe_path :: bytes
  fe_operation :: bytes
  fe_base :: bytes
  fe_revision :: bytes
  fe_content :: bytes
  fe_new_path :: bytes
  fe_replacements :: "replacement list"
  fe_range :: "line_range option"
  fe_base64 :: "bytes option"
  fe_policy :: bytes
  fe_expected :: "expected_format option"

section \<open>Revisions\<close>

definition hash_bytes :: "(bytes \<Rightarrow> bytes) \<Rightarrow> bytes \<Rightarrow> bytes" where
  "hash_bytes sha content = ''sha256:'' @ sha content"

definition check_base :: "(bytes \<Rightarrow> bytes) \<Rightarrow> bytes \<Rightarrow> bytes \<Rightarrow> bytes \<Rightarrow> int \<Rightarrow> (apply_error, unit) result" where
  "check_base sha content base0 path i =
     (let base = trim_space base0 in
      if base = [] then Inr ()
      else let current = hash_bytes sha content in
           if trim_prefix (to_lower base) ''sha256:'' \<noteq> trim_prefix (to_lower current) ''sha256:''
           then Inl ((edit_error STALE_REVISION path i)\<lparr>er_current := current\<rparr>)
           else Inr ())"

section \<open>Replacements\<close>

record hit =
  hit_index :: nat
  hit_start :: nat
  hit_end :: nat
  hit_text :: bytes

fun find_hits :: "bytes \<Rightarrow> bytes \<Rightarrow> nat \<Rightarrow> replacement list \<Rightarrow> (apply_error, hit list) result" where
  "find_hits text path i [] = Inr []"
| "find_hits text path i (r # rs) =
     (if rp_match r = [] then Inl (edit_error INVALID_INPUT path (int i))
      else let count = count_sub (rp_match r) text in
        if count = 0 then Inl (edit_error MATCH_NOT_FOUND path (int i))
        else if count = 1 then
          (case index_sub (rp_match r) text of
             None \<Rightarrow> Inl (edit_error Crash path (int i))
           | Some s \<Rightarrow>
               and_then (find_hits text path (Suc i) rs) (\<lambda>hits.
                 Inr (\<lparr>hit_index = i, hit_start = s, hit_end = s + length (rp_match r), hit_text = rp_text r\<rparr> # hits)))
        else Inl (edit_error MATCH_AMBIGUOUS path (int i)))"

text \<open>The inner loop: the hit that starts last among those from \<open>i\<close> on comes to \<open>i\<close>.\<close>

definition select_hit :: "hit list \<Rightarrow> nat \<Rightarrow> hit list" where
  "select_hit hits i =
     foldl (\<lambda>hs j. if hit_start (hs ! i) < hit_start (hs ! j) then hs[i := hs ! j, j := hs ! i] else hs)
       hits [Suc i..<length hits]"

lemma length_swap_fold:
  "length (foldl (\<lambda>hs j. if P hs j then hs[i := hs ! j, j := hs ! i] else hs) hits js) = length hits"
  by (induction js arbitrary: hits) simp_all

lemma length_select_hit [simp]: "length (select_hit hits i) = length hits"
  by (simp add: select_hit_def length_swap_fold)

function sort_hits :: "bytes \<Rightarrow> hit list \<Rightarrow> nat \<Rightarrow> (apply_error, hit list) result" where
  "sort_hits path hits i =
     (if length hits \<le> i then Inr hits
      else let hs = select_hit hits i in
        if 0 < i \<and> hit_start (hs ! (i - 1)) < hit_end (hs ! i)
        then Inl (edit_error INVALID_INPUT path (int (hit_index (hs ! i))))
        else sort_hits path hs (Suc i))"
  by pat_completeness auto
termination
  by (relation "measure (\<lambda>(path, hits, i). length hits - i)") auto

declare sort_hits.simps [simp del]

definition apply_hit :: "bytes \<Rightarrow> hit \<Rightarrow> bytes" where
  "apply_hit out h = take (hit_start h) out @ hit_text h @ drop (hit_end h) out"

definition apply_replacements :: "bytes \<Rightarrow> replacement list \<Rightarrow> bytes \<Rightarrow> (apply_error, bytes) result" where
  "apply_replacements text reps path =
     and_then (find_hits text path 0 reps) (\<lambda>hits.
     and_then (sort_hits path hits 0) (\<lambda>hs. Inr (foldl apply_hit text hs)))"

section \<open>Line ranges\<close>

definition strip_bom :: "bytes \<Rightarrow> bytes" where
  "strip_bom s = trim_prefix s utf8_bom"

text \<open>The loop over the lines; \<^const>\<open>None\<close> is a slice out of range.\<close>

function range_loop :: "bytes \<Rightarrow> int \<Rightarrow> int \<Rightarrow> int \<Rightarrow> nat \<Rightarrow> nat \<Rightarrow> (nat \<times> nat \<times> bool) option" where
  "range_loop text start_line end_line line line_start start_offset =
     (if end_line < line then Some (start_offset, length text, False)
      else if length text < line_start then None
      else
        let rel = index_sub [lf] (drop line_start text);
            line_end = (case rel of None \<Rightarrow> length text | Some r \<Rightarrow> line_start + r);
            start' = (if line = start_line then line_start else start_offset)
        in if line = end_line
           then Some (start', (if rel = None then line_end else line_end + 1), rel \<noteq> None)
           else range_loop text start_line end_line (line + 1) (line_end + 1) start')"
  by pat_completeness auto
termination
  by (relation "measure (\<lambda>(text, s, e, line, ls, so). nat (e + 1 - line))") auto

declare range_loop.simps [simp del]

definition line_count :: "bytes \<Rightarrow> nat" where
  "line_count s = count_sub [lf] s + (if \<not> has_suffix s [lf] \<or> s = [] then 1 else 0)"

definition apply_line_range :: "bytes \<Rightarrow> line_range \<Rightarrow> bytes \<Rightarrow> int \<Rightarrow> (apply_error, bytes) result" where
  "apply_line_range text r path i =
     (if lr_start r < 1 \<or> lr_end r < lr_start r then Inl (edit_error INVALID_INPUT path i)
      else if int (line_count text) < lr_end r then Inl (edit_error RANGE_OUT_OF_BOUNDS path i)
      else case range_loop text (lr_start r) (lr_end r) 1 0 0 of
        None \<Rightarrow> Inl (edit_error Crash path i)
      | Some (start_offset, end_offset, had_newline) \<Rightarrow>
          let new = strip_bom (normalize_newlines (lr_text r));
              new' = (if had_newline \<and> new \<noteq> [] \<and> \<not> has_suffix new [lf] then new @ [lf] else new)
          in Inr (take start_offset text @ new' @ drop end_offset text))"

section \<open>Updates\<close>

definition update_text :: "bytes \<Rightarrow> file_edit \<Rightarrow> bytes \<Rightarrow> int \<Rightarrow> (apply_error, bytes) result" where
  "update_text text item path i =
     (case fe_range item of
        Some r \<Rightarrow>
          if fe_replacements item \<noteq> [] \<or> \<not> blank (fe_content item) then Inl (edit_error INVALID_INPUT path i)
          else if blank (fe_base item) then Inl (edit_error INVALID_INPUT path i)
          else apply_line_range text r path i
      | None \<Rightarrow>
          if fe_replacements item \<noteq> [] then
            (if \<not> blank (fe_content item) then Inl (edit_error INVALID_INPUT path i)
             else apply_replacements text (fe_replacements item) path)
          else Inr (strip_bom (normalize_newlines (fe_content item))))"

section \<open>What replacements do\<close>

text \<open>The gaps with the parts between them.\<close>

fun interleave :: "bytes list \<Rightarrow> bytes list \<Rightarrow> bytes" where
  "interleave (g # gs) (m # ms) = g @ m @ interleave gs ms"
| "interleave [g] [] = g"
| "interleave gs ms = []"

lemma interleave_snoc:
  "length gs = Suc (length ms) \<Longrightarrow> interleave (gs @ [g]) (ms @ [m]) = interleave gs ms @ m @ g"
  by (induction gs ms rule: interleave.induct) auto

definition hit_of :: "bytes \<Rightarrow> replacement \<Rightarrow> hit \<Rightarrow> bool" where
  "hit_of text r h \<longleftrightarrow> rp_match r \<noteq> [] \<and> count_sub (rp_match r) text = 1
     \<and> index_sub (rp_match r) text = Some (hit_start h)
     \<and> hit_end h = hit_start h + length (rp_match r) \<and> hit_text h = rp_text r"

lemma find_hits_ok: "find_hits text path i reps = Inr hits \<Longrightarrow> list_all2 (hit_of text) reps hits"
proof (induction reps arbitrary: i hits)
  case (Cons r rs)
  then show ?case
    by (auto simp: Let_def hit_of_def split: if_splits option.splits)
qed simp

lemma hit_of_slice:
  assumes "hit_of text r h"
  shows "hit_start h < hit_end h" "hit_end h \<le> length text" "slice (hit_start h) (hit_end h) text = rp_match r"
    "hit_text h = rp_text r"
proof -
  obtain a b where "text = a @ rp_match r @ b" "length a = hit_start h"
    using index_sub_Some assms unfolding hit_of_def by blast
  then show "hit_end h \<le> length text" "slice (hit_start h) (hit_end h) text = rp_match r"
    using assms by (auto simp: hit_of_def slice_def)
qed (use assms in \<open>auto simp: hit_of_def\<close>)

text \<open>Hits from the last one to the first, none beginning before the next one ends.\<close>

fun descending :: "hit list \<Rightarrow> bool" where
  "descending [] \<longleftrightarrow> True"
| "descending [h] \<longleftrightarrow> True"
| "descending (h # h' # hs) \<longleftrightarrow> hit_end h' \<le> hit_start h \<and> descending (h' # hs)"

lemma descending_nth:
  "descending hs \<longleftrightarrow> (\<forall>i. 0 < i \<longrightarrow> i < length hs \<longrightarrow> hit_end (hs ! i) \<le> hit_start (hs ! (i - 1)))"
proof (induction hs rule: descending.induct)
  case (3 h h' hs)
  show ?case
  proof
    assume d: "descending (h # h' # hs)"
    show "\<forall>i. 0 < i \<longrightarrow> i < length (h # h' # hs) \<longrightarrow> hit_end ((h # h' # hs) ! i) \<le> hit_start ((h # h' # hs) ! (i - 1))"
    proof (intro allI impI)
      fix i assume "0 < i" "i < length (h # h' # hs)"
      then obtain j where "i = Suc j" "j < length (h' # hs)" by (cases i) auto
      then show "hit_end ((h # h' # hs) ! i) \<le> hit_start ((h # h' # hs) ! (i - 1))"
        using d 3 by (cases j) auto
    qed
  next
    assume a: "\<forall>i. 0 < i \<longrightarrow> i < length (h # h' # hs) \<longrightarrow> hit_end ((h # h' # hs) ! i) \<le> hit_start ((h # h' # hs) ! (i - 1))"
    have "hit_end ((h' # hs) ! i) \<le> hit_start ((h' # hs) ! (i - 1))" if "0 < i" "i < length (h' # hs)" for i
      using a [rule_format, of "Suc i"] that by (cases i) auto
    then show "descending (h # h' # hs)" using 3 a [rule_format, of 1] by simp
  qed
qed auto

lemma swap_mset:
  "i < length hs \<Longrightarrow> j < length hs \<Longrightarrow> mset (hs[i := hs ! j, j := hs ! i]) = mset hs"
  by (rule mset_swap)

text \<open>What the inner loop keeps: the hits below \<open>i\<close> and the multiset of them all; the one at \<open>i\<close> starts last.\<close>

lemma select_hit_ok:
  assumes "i < length hits"
  shows "mset (select_hit hits i) = mset hits" "\<forall>k < i. select_hit hits i ! k = hits ! k"
    "\<forall>k. i \<le> k \<longrightarrow> k < length hits \<longrightarrow> hit_start (select_hit hits i ! k) \<le> hit_start (select_hit hits i ! i)"
proof -
  define f where "f = (\<lambda>(hs :: hit list) j.
    if hit_start (hs ! i) < hit_start (hs ! j) then hs[i := hs ! j, j := hs ! i] else hs)"
  have "mset (foldl f hits [Suc i..<m]) = mset hits \<and> (\<forall>k < i. foldl f hits [Suc i..<m] ! k = hits ! k)
      \<and> (\<forall>k. i \<le> k \<longrightarrow> k < m \<longrightarrow> hit_start (foldl f hits [Suc i..<m] ! k) \<le> hit_start (foldl f hits [Suc i..<m] ! i))
      \<and> length (foldl f hits [Suc i..<m]) = length hits"
    if "Suc i \<le> m" "m \<le> length hits" for m
    using that
  proof (induction m)
    case (Suc m)
    show ?case
    proof (cases "m = i")
      case False
      define hs where "hs = foldl f hits [Suc i..<m]"
      have ih: "mset hs = mset hits" "\<forall>k < i. hs ! k = hits ! k"
        "\<forall>k. i \<le> k \<longrightarrow> k < m \<longrightarrow> hit_start (hs ! k) \<le> hit_start (hs ! i)" "length hs = length hits"
        using Suc False by (simp_all add: hs_def)
      have e: "foldl f hits [Suc i..<Suc m] = f hs m" using Suc.prems False by (simp add: hs_def)
      have "mset (f hs m) = mset hits" using ih assms Suc.prems by (simp add: f_def swap_mset)
      moreover have "\<forall>k < i. f hs m ! k = hits ! k" using ih Suc.prems False by (simp add: f_def)
      moreover have "hit_start (f hs m ! k) \<le> hit_start (f hs m ! i)" if "i \<le> k" "k < Suc m" for k
        using ih assms Suc.prems that False by (cases "k = m"; cases "k = i") (fastforce simp: f_def nth_list_update)+
      ultimately show ?thesis using ih(4) by (simp only: e) (simp add: f_def)
    qed (use assms in \<open>auto simp: less_Suc_eq_le\<close>)
  qed simp
  from this [of "length hits"] assms
  have all: "mset (select_hit hits i) = mset hits \<and> (\<forall>k < i. select_hit hits i ! k = hits ! k)
    \<and> (\<forall>k. i \<le> k \<longrightarrow> k < length hits \<longrightarrow> hit_start (select_hit hits i ! k) \<le> hit_start (select_hit hits i ! i))"
    by (simp add: select_hit_def f_def)
  then show "mset (select_hit hits i) = mset hits" "\<forall>k < i. select_hit hits i ! k = hits ! k"
    "\<forall>k. i \<le> k \<longrightarrow> k < length hits \<longrightarrow> hit_start (select_hit hits i ! k) \<le> hit_start (select_hit hits i ! i)"
    by blast+
qed

lemma sort_hits_ok:
  "sort_hits path hits i = Inr hs \<Longrightarrow> i \<le> length hits
     \<Longrightarrow> \<forall>k. 0 < k \<longrightarrow> k < i \<longrightarrow> hit_end (hits ! k) \<le> hit_start (hits ! (k - 1))
     \<Longrightarrow> mset hs = mset hits \<and> descending hs"
proof (induction path hits i rule: sort_hits.induct)
  case (1 path hits i)
  show ?case
  proof (cases "length hits \<le> i")
    case True
    then show ?thesis using 1(2-4) by (simp add: sort_hits.simps [of path hits] descending_nth)
  next
    case False
    let ?s = "select_hit hits i"
    note s = select_hit_ok [of i hits]
    have i: "i < length hits" using False by simp
    have step: "sort_hits path ?s (Suc i) = Inr hs" and check: "\<not> (0 < i \<and> hit_start (?s ! (i - 1)) < hit_end (?s ! i))"
      using 1(2) False by (simp_all add: sort_hits.simps [of path hits i] Let_def split: if_splits)
    have "hit_end (?s ! k) \<le> hit_start (?s ! (k - 1))" if "0 < k" "k < Suc i" for k
    proof (cases "k = i")
      case True
      then show ?thesis using check that by simp
    next
      case k: False
      then have "?s ! k = hits ! k" "?s ! (k - 1) = hits ! (k - 1)" using s(2) [OF i] that by simp_all
      then show ?thesis using 1(4) that k by simp
    qed
    then have "mset hs = mset ?s \<and> descending hs"
      using 1(1) [OF False refl check step] i by simp
    then show ?thesis using s(1) [OF i] by simp
  qed
qed

lemma apply_hits:
  assumes "descending hs" "u \<le> length text" "hs \<noteq> [] \<Longrightarrow> hit_end (hd hs) \<le> u"
    and "\<forall>h \<in> set hs. hit_start h < hit_end h \<and> slice (hit_start h) (hit_end h) text = part h"
  shows "\<exists>gaps. length gaps = Suc (length hs) \<and> take u text = interleave gaps (map part (rev hs))
    \<and> foldl apply_hit (take u text @ rest) hs = interleave gaps (map hit_text (rev hs)) @ rest"
  using assms
proof (induction hs arbitrary: u rest)
  case Nil
  show ?case by (rule exI [of _ "[take u text]"]) simp
next
  case (Cons h hs)
  have h: "hit_start h < hit_end h" "slice (hit_start h) (hit_end h) text = part h" "hit_end h \<le> u"
    using Cons.prems by simp_all
  let ?rest = "hit_text h @ slice (hit_end h) u text @ rest"
  have "descending hs" using Cons.prems(1) by (cases hs) simp_all
  moreover have "hs \<noteq> [] \<Longrightarrow> hit_end (hd hs) \<le> hit_start h" using Cons.prems(1) by (cases hs) simp_all
  ultimately obtain gaps where g: "length gaps = Suc (length hs)"
    "take (hit_start h) text = interleave gaps (map part (rev hs))"
    "foldl apply_hit (take (hit_start h) text @ ?rest) hs = interleave gaps (map hit_text (rev hs)) @ ?rest"
    using Cons.IH [of "hit_start h" ?rest] Cons.prems h by auto
  have "take u text = take (hit_start h) text @ part h @ slice (hit_end h) u text"
    using take_slice [of "hit_start h" "hit_end h" "text"] take_slice [of "hit_end h" u "text"] h
    by (metis append.assoc less_imp_le)
  moreover have "apply_hit (take u text @ rest) h = take (hit_start h) text @ ?rest"
  proof -
    have "drop (hit_end h) (take u text @ rest) = slice (hit_end h) u text @ rest"
      using h Cons.prems(2) by (simp add: slice_def drop_take)
    then show ?thesis using h Cons.prems(2) by (simp add: apply_hit_def min_def)
  qed
  ultimately show ?case using g
    by (intro exI [of _ "gaps @ [slice (hit_end h) u text]"]) (simp add: interleave_snoc)
qed

text \<open>The replacement a hit belongs to.\<close>

lemma hits_mset:
  "list_all2 (hit_of text) reps hits \<Longrightarrow> mset hs = mset hits
     \<Longrightarrow> \<exists>order. mset order = mset reps \<and> list_all2 (hit_of text) order hs"
proof -
  assume a: "list_all2 (hit_of text) reps hits" "mset hs = mset hits"
  then have "list_all2 (\<lambda>h r. hit_of text r h) hits reps" by (simp add: list_all2_conv_all_nth)
  from list_all2_reorder_left_invariance [OF this a(2)] obtain order where
    "list_all2 (\<lambda>h r. hit_of text r h) hs order" "mset order = mset reps" by blast
  then show ?thesis by (auto simp: list_all2_conv_all_nth)
qed

text \<open>C25: when replacements are accepted, each match occurs in the text, they do not overlap, and the result is
  the text in which every match, and nothing else, is exchanged for its replacement.\<close>

theorem replacements_are_exact:
  assumes "apply_replacements text reps path = Inr out"
  shows "\<exists>order gaps. mset order = mset reps \<and> length gaps = Suc (length order)
    \<and> text = interleave gaps (map rp_match order) \<and> out = interleave gaps (map rp_text order)"
proof -
  obtain hits hs where h: "find_hits text path 0 reps = Inr hits" "sort_hits path hits 0 = Inr hs"
    "out = foldl apply_hit text hs"
    using assms by (auto simp: apply_replacements_def)
  have hs: "mset hs = mset hits" "descending hs" using sort_hits_ok [OF h(2)] by simp_all
  obtain order where o: "mset order = mset reps" "list_all2 (hit_of text) order hs"
    using hits_mset [OF find_hits_ok [OF h(1)] hs(1)] by blast
  let ?part = "\<lambda>h. slice (hit_start h) (hit_end h) text"
  have of: "\<forall>h \<in> set hs. \<exists>r. hit_of text r h" using o(2) by (fastforce simp: list_all2_conv_all_nth in_set_conv_nth)
  have maps: "map ?part hs = map rp_match order \<and> map hit_text hs = map rp_text order"
    using o(2) by (induction rule: list_all2_induct) (simp_all add: hit_of_slice)
  have first: "hs \<noteq> [] \<Longrightarrow> hit_end (hd hs) \<le> length text"
    using of hit_of_slice(2) hd_in_set [of hs] by blast
  have all: "\<forall>h \<in> set hs. hit_start h < hit_end h \<and> ?part h = ?part h"
    using of hit_of_slice(1) by blast
  from apply_hits [OF hs(2) order_refl first all, of "[]"]
  obtain gaps where "length gaps = Suc (length hs)" "text = interleave gaps (map ?part (rev hs))"
    "foldl apply_hit text hs = interleave gaps (map hit_text (rev hs))"
    by auto
  then show ?thesis
    using maps o h(3) list_all2_lengthD [OF o(2)]
    by (intro exI [of _ "rev order"] exI [of _ gaps]) (simp add: rev_map [symmetric])
qed

text \<open>Where a text occurs in another one, overlapping or not, and the places of the first occurrences: from
  where to where.\<close>

definition occurrences :: "bytes \<Rightarrow> bytes \<Rightarrow> nat list" where
  "occurrences p s = filter (\<lambda>i. has_prefix (drop i s) p) [0..<length s]"

definition span_of :: "bytes \<Rightarrow> replacement \<Rightarrow> nat \<times> nat" where
  "span_of text r = (case occurrences (rp_match r) text of
     [] \<Rightarrow> (0, 0) | s # _ \<Rightarrow> (s, s + length (rp_match r)))"

definition spans_apart :: "(nat \<times> nat) multiset \<Rightarrow> bool" where
  "spans_apart M \<longleftrightarrow> (\<forall>a \<in># M. \<forall>b \<in># M - {#a#}. snd a \<le> fst b \<or> snd b \<le> fst a)"

lemma occurrences_Nil [simp]: "occurrences p [] = []"
  by (simp add: occurrences_def)

lemma occurrences_Cons:
  "occurrences p (c # s) = (if has_prefix (c # s) p then [0] else []) @ map Suc (occurrences p s)"
proof -
  have "[0..<length (c # s)] = 0 # map Suc [0..<length s]"
    by (simp add: upt_conv_Cons map_Suc_upt del: upt_Suc)
  then show ?thesis by (simp add: occurrences_def filter_map comp_def)
qed

lemma in_occurrences: "i \<in> set (occurrences p s) \<longleftrightarrow> i < length s \<and> has_prefix (drop i s) p"
  by (auto simp: occurrences_def)

lemma occurrences_drop: "i \<in> set (occurrences p (drop k s)) \<longleftrightarrow> k + i \<in> set (occurrences p s)"
  by (auto simp: in_occurrences add.commute)

lemma index_sub_occurrences:
  "p \<noteq> [] \<Longrightarrow> index_sub p s = (case occurrences p s of [] \<Rightarrow> None | i # is \<Rightarrow> Some i)"
  by (induction s) (auto simp: occurrences_Cons split: list.splits)

lemma count_sub_0: "p \<noteq> [] \<Longrightarrow> count_sub p s = 0 \<longleftrightarrow> occurrences p s = []"
  using count_sub_none [of p s] index_sub_None [of p s] index_sub_occurrences [of p s] by (auto split: list.splits)

text \<open>\<^verbatim>\<open>strings.Count\<close> is one when the text occurs and no two occurrences are apart.\<close>

lemma count_sub_1:
  "p \<noteq> [] \<Longrightarrow> count_sub p s = 1 \<longleftrightarrow> occurrences p s \<noteq> []
     \<and> (\<forall>i \<in> set (occurrences p s). \<forall>j \<in> set (occurrences p s). j < i + length p)"
proof (induction p s rule: count_sub.induct)
  case (2 p c s)
  show ?case
  proof (cases "has_prefix (c # s) p")
    case True
    let ?rest = "drop (length p) (c # s)"
    have count: "count_sub p (c # s) = 1 \<longleftrightarrow> occurrences p ?rest = []"
      using True 2(3) count_sub_0 [OF 2(3), of ?rest] by (simp add: count_sub.simps)
    have first: "0 \<in> set (occurrences p (c # s))" using True by (simp add: occurrences_Cons)
    have "occurrences p ?rest = [] \<longleftrightarrow> (\<forall>j \<in> set (occurrences p (c # s)). j < length p)"
    proof
      assume none: "occurrences p ?rest = []"
      show "\<forall>j \<in> set (occurrences p (c # s)). j < length p"
      proof
        fix j assume "j \<in> set (occurrences p (c # s))"
        then show "j < length p"
          using none occurrences_drop [of "j - length p" p "length p" "c # s"] by (cases "j < length p") simp_all
      qed
    next
      assume near: "\<forall>j \<in> set (occurrences p (c # s)). j < length p"
      have "k \<notin> set (occurrences p ?rest)" for k
        using near unfolding occurrences_drop by (metis not_add_less1)
      then show "occurrences p ?rest = []" by (metis list.set_intros(1) neq_Nil_conv)
    qed
    then show ?thesis using count first by (metis add_0 empty_iff list.set(1) trans_less_add2)
  next
    case False
    then show ?thesis using 2(2,3) by (simp add: count_sub.simps occurrences_Cons)
  qed
qed (simp add: count_sub.simps)

lemmas count_sub_one = count_sub_1 [unfolded One_nat_def]

lemma single_occurrence:
  assumes "p \<noteq> []" "length (occurrences p s) = 1" shows "count_sub p s = 1"
proof -
  obtain i where "occurrences p s = [i]" using assms(2) by (auto simp: length_Suc_conv)
  then show ?thesis using assms(1) by (simp add: count_sub_one)
qed

definition hit_span :: "hit \<Rightarrow> nat \<times> nat" where
  "hit_span h = (hit_start h, hit_end h)"

lemma spans_apart_nth:
  assumes "spans_apart (mset xs)" "i < length xs" "j < length xs" "i \<noteq> j"
  shows "snd (xs ! i) \<le> fst (xs ! j) \<or> snd (xs ! j) \<le> fst (xs ! i)"
proof -
  have split: "xs = take i xs @ xs ! i # drop (Suc i) xs" using assms(2) by (simp add: id_take_nth_drop)
  then have "mset xs - {#xs ! i#} = mset (take i xs @ drop (Suc i) xs)"
    by (metis (no_types, lifting) add_diff_cancel_left' mset.simps(2) mset_append union_mset_add_mset_right add_mset_remove_trivial)
  moreover have "xs ! j \<in> set (take i xs @ drop (Suc i) xs)"
  proof (cases "j < i")
    case True
    then have "take i xs ! j = xs ! j" "j < length (take i xs)" using assms(2) by simp_all
    then show ?thesis by (metis Un_iff nth_mem set_append)
  next
    case False
    then have "drop (Suc i) xs ! (j - Suc i) = xs ! j" "j - Suc i < length (drop (Suc i) xs)" using assms by simp_all
    then show ?thesis by (metis Un_iff nth_mem set_append)
  qed
  ultimately have "xs ! j \<in># mset xs - {#xs ! i#}" by (simp only: set_mset_mset)
  then show ?thesis using assms(1,2) by (simp add: spans_apart_def)
qed

lemma spans_apartI:
  assumes "\<And>i j. i < j \<Longrightarrow> j < length xs \<Longrightarrow> snd (xs ! j) \<le> fst (xs ! i) \<or> snd (xs ! i) \<le> fst (xs ! j)"
  shows "spans_apart (mset xs)"
  unfolding spans_apart_def
proof (intro ballI)
  fix a b assume "a \<in># mset xs" "b \<in># mset xs - {#a#}"
  then obtain i where i: "i < length xs" "xs ! i = a" by (auto simp: in_set_conv_nth)
  have split: "xs = take i xs @ a # drop (Suc i) xs" using i by (metis id_take_nth_drop)
  then have "mset xs - {#a#} = mset (take i xs @ drop (Suc i) xs)"
    by (metis (no_types, lifting) add_mset_remove_trivial mset.simps(2) mset_append union_mset_add_mset_right)
  then have "b \<in> set (take i xs) \<or> b \<in> set (drop (Suc i) xs)" using \<open>b \<in># mset xs - {#a#}\<close> by simp
  then obtain j where "j < length xs" "j \<noteq> i" "xs ! j = b"
  proof
    assume "b \<in> set (take i xs)"
    then obtain j where "j < i" "take i xs ! j = b" using i by (auto simp: in_set_conv_nth)
    then show thesis using that [of j] i by simp
  next
    assume "b \<in> set (drop (Suc i) xs)"
    then obtain j where "j < length xs - Suc i" "drop (Suc i) xs ! j = b" by (auto simp: in_set_conv_nth)
    then show thesis using that [of "Suc i + j"] i by simp
  qed
  then show "snd a \<le> fst b \<or> snd b \<le> fst a" using assms [of i j] assms [of j i] i by (cases "i < j") auto
qed

lemma in_drop_nth: "x \<in> set (drop n xs) \<longleftrightarrow> (\<exists>j. n \<le> j \<and> j < length xs \<and> xs ! j = x)"
proof
  assume "x \<in> set (drop n xs)"
  then obtain j where "j < length xs - n" "drop n xs ! j = x" by (auto simp: in_set_conv_nth)
  then show "\<exists>j. n \<le> j \<and> j < length xs \<and> xs ! j = x" by (intro exI [of _ "n + j"]) simp
next
  assume "\<exists>j. n \<le> j \<and> j < length xs \<and> xs ! j = x"
  then obtain j where j: "n \<le> j" "j < length xs" "xs ! j = x" by blast
  then have "drop n xs ! (j - n) = x" "j - n < length (drop n xs)" by simp_all
  then show "x \<in> set (drop n xs)" by (metis nth_mem)
qed

lemma sort_hits_answers:
  assumes "spans_apart (mset (map hit_span hits))" "i \<le> length hits" "\<forall>h \<in> set hits. hit_start h < hit_end h"
    and "\<forall>k j. k < i \<longrightarrow> k < j \<longrightarrow> j < length hits \<longrightarrow> hit_start (hits ! j) \<le> hit_start (hits ! k)"
  shows "\<exists>hs. sort_hits path hits i = Inr hs"
  using assms
proof (induction path hits i rule: sort_hits.induct)
  case (1 path hits i)
  show ?case
  proof (cases "length hits \<le> i")
    case False
    let ?s = "select_hit hits i"
    have i: "i < length hits" using False by simp
    note s = select_hit_ok [OF i]
    have sp: "spans_apart (mset (map hit_span ?s))" using 1(2) s(1) by simp
    have pos: "\<forall>h \<in> set ?s. hit_start h < hit_end h" using 1(4) s(1) by (metis set_mset_mset)
    have desc: "\<forall>k j. k < Suc i \<longrightarrow> k < j \<longrightarrow> j < length ?s \<longrightarrow> hit_start (?s ! j) \<le> hit_start (?s ! k)"
    proof (intro allI impI)
      fix k j assume kj: "k < Suc i" "k < j" "j < length ?s"
      show "hit_start (?s ! j) \<le> hit_start (?s ! k)"
      proof (cases "k = i")
        case True
        then show ?thesis using s(3) kj by simp
      next
        case k: False
        then have "?s ! k = hits ! k" using s(2) kj by simp
        have "?s ! j \<in> set (drop (Suc k) ?s)"
          using kj unfolding in_drop_nth by (metis Suc_leI)
        moreover have "mset (drop (Suc k) ?s) = mset (drop (Suc k) hits)"
        proof -
          have "take (Suc k) ?s = take (Suc k) hits"
            using s(2) kj k by (intro nth_equalityI) auto
          then show ?thesis using s(1)
            by (metis add_left_imp_eq append_take_drop_id mset_append)
        qed
        ultimately have "?s ! j \<in> set (drop (Suc k) hits)" by (metis set_mset_mset)
        then obtain j' where "k < j'" "j' < length hits" "hits ! j' = ?s ! j"
          unfolding in_drop_nth by (auto simp: Suc_le_eq)
        then show ?thesis using 1(5) kj k \<open>?s ! k = hits ! k\<close> by (metis less_SucE)
      qed
    qed
    have check: "\<not> (0 < i \<and> hit_start (?s ! (i - 1)) < hit_end (?s ! i))"
    proof
      assume a: "0 < i \<and> hit_start (?s ! (i - 1)) < hit_end (?s ! i)"
      then have "hit_start (?s ! i) \<le> hit_start (?s ! (i - 1))" using desc i by simp
      moreover have "hit_start (?s ! (i - 1)) < hit_end (?s ! (i - 1))" using pos i a by simp
      moreover have "i - 1 < length hits" "i \<noteq> i - 1" using a i by linarith+
      ultimately show False
        using spans_apart_nth [OF sp, of i "i - 1"] a i by (simp add: hit_span_def)
    qed
    show ?thesis
      using 1(1) [OF False refl check sp _ pos desc] i check False
      by (subst sort_hits.simps) (simp add: Let_def)
  qed (simp add: sort_hits.simps [of path hits])
qed

lemma find_hits_answers:
  assumes "list_all (\<lambda>r. rp_match r \<noteq> [] \<and> count_sub (rp_match r) text = 1) reps"
  shows "\<exists>hits. find_hits text path i reps = Inr hits"
  using assms
proof (induction reps arbitrary: i)
  case (Cons r rs)
  then have r: "rp_match r \<noteq> []" "count_sub (rp_match r) text = 1" by simp_all
  then have "contains_sub text (rp_match r)" using count_sub_none [of "rp_match r" "text"] by simp
  then obtain s where "index_sub (rp_match r) text = Some s" using index_sub_None by (metis not_None_eq)
  moreover obtain hits where "find_hits text path (Suc i) rs = Inr hits" using Cons by fastforce
  ultimately show ?case using r by simp
qed simp

lemma hit_spans: "list_all2 (hit_of text) reps hits \<Longrightarrow> map hit_span hits = map (span_of text) reps"
  by (induction rule: list_all2_induct)
    (auto simp: hit_of_def hit_span_def span_of_def index_sub_occurrences split: list.splits)

lemma descending_apart:
  "descending hs \<Longrightarrow> \<forall>h \<in> set hs. hit_start h < hit_end h \<Longrightarrow> i < j \<Longrightarrow> j < length hs \<Longrightarrow> hit_end (hs ! j) \<le> hit_start (hs ! i)"
proof (induction j)
  case (Suc j)
  have d: "hit_end (hs ! Suc j) \<le> hit_start (hs ! j)" using Suc.prems descending_nth by fastforce
  show ?case
  proof (cases "i = j")
    case False
    then have "hit_end (hs ! j) \<le> hit_start (hs ! i)" using Suc by simp
    moreover have "hit_start (hs ! j) < hit_end (hs ! j)" using Suc.prems by simp
    ultimately show ?thesis using d by simp
  qed (use d in simp)
qed simp

lemma replacements_accepted_count:
  "is_ok (apply_replacements text reps path) \<longleftrightarrow>
     list_all (\<lambda>r. rp_match r \<noteq> [] \<and> count_sub (rp_match r) text = 1) reps
     \<and> spans_apart (mset (map (span_of text) reps))" (is "?ok \<longleftrightarrow> ?once \<and> ?apart")
proof
  assume ?ok
  then obtain hits hs where h: "find_hits text path 0 reps = Inr hits" "sort_hits path hits 0 = Inr hs"
    by (auto simp: apply_replacements_def is_ok_iff)
  note all2 = find_hits_ok [OF h(1)]
  have hs: "mset hs = mset hits" "descending hs" using sort_hits_ok [OF h(2)] by simp_all
  have "\<forall>h \<in> set hits. hit_start h < hit_end h"
    using all2 hit_of_slice(1) by (fastforce simp: list_all2_conv_all_nth in_set_conv_nth)
  then have pos: "\<forall>h \<in> set hs. hit_start h < hit_end h" using hs(1) by (metis set_mset_mset)
  have "spans_apart (mset (map hit_span hs))"
    by (rule spans_apartI) (use descending_apart [OF hs(2) pos] in \<open>simp add: hit_span_def\<close>)
  moreover have "mset (map hit_span hs) = mset (map (span_of text) reps)"
    using hs(1) hit_spans [OF all2] by (metis mset_map)
  ultimately show "?once \<and> ?apart"
    using all2 by (auto simp: list_all_length list_all2_conv_all_nth hit_of_def)
next
  assume a: "?once \<and> ?apart"
  obtain hits where h: "find_hits text path 0 reps = Inr hits" using find_hits_answers a by blast
  note all2 = find_hits_ok [OF h]
  have "\<forall>h \<in> set hits. hit_start h < hit_end h"
    using all2 hit_of_slice(1) by (fastforce simp: list_all2_conv_all_nth in_set_conv_nth)
  then obtain hs where "sort_hits path hits 0 = Inr hs"
    using sort_hits_answers [of hits 0 path] a hit_spans [OF all2] by auto
  then show ?ok using h by (simp add: apply_replacements_def is_ok_iff)
qed

text \<open>C36: replacements whose matches are not empty, occur exactly once in the text and do not overlap each other are
  accepted. Accepted replacements have matches that are not empty and occur in the text; no two of them overlap, and
  none occurs at two places that are apart.\<close>

theorem unique_replacements_accepted:
  "(list_all (\<lambda>r. rp_match r \<noteq> [] \<and> length (occurrences (rp_match r) text) = 1) reps
      \<and> spans_apart (mset (map (span_of text) reps)) \<longrightarrow> is_ok (apply_replacements text reps path))
   \<and> (is_ok (apply_replacements text reps path) \<longrightarrow>
      list_all (\<lambda>r. rp_match r \<noteq> [] \<and> occurrences (rp_match r) text \<noteq> []) reps
      \<and> spans_apart (mset (map (span_of text) reps))
      \<and> \<not> list_ex (\<lambda>r. \<exists>i \<in> set (occurrences (rp_match r) text). \<exists>j \<in> set (occurrences (rp_match r) text).
            i + length (rp_match r) \<le> j) reps)"
proof (intro conjI impI)
  assume "list_all (\<lambda>r. rp_match r \<noteq> [] \<and> length (occurrences (rp_match r) text) = 1) reps
      \<and> spans_apart (mset (map (span_of text) reps))"
  then show "is_ok (apply_replacements text reps path)"
    unfolding replacements_accepted_count using single_occurrence by (auto simp: list_all_iff)
next
  assume "is_ok (apply_replacements text reps path)"
  then have ok: "\<forall>r \<in> set reps. rp_match r \<noteq> [] \<and> count_sub (rp_match r) text = 1"
    and apart: "spans_apart (mset (map (span_of text) reps))"
    unfolding replacements_accepted_count by (simp_all add: list_all_iff)
  show "spans_apart (mset (map (span_of text) reps))" by (rule apart)
  show "list_all (\<lambda>r. rp_match r \<noteq> [] \<and> occurrences (rp_match r) text \<noteq> []) reps"
    using ok by (fastforce simp: list_all_iff count_sub_one)
  show "\<not> list_ex (\<lambda>r. \<exists>i \<in> set (occurrences (rp_match r) text). \<exists>j \<in> set (occurrences (rp_match r) text).
      i + length (rp_match r) \<le> j) reps"
    using ok by (fastforce simp: list_ex_iff not_le count_sub_one)
qed

lemma unique_replacements_accepted_witness:
  "is_ok (apply_replacements ''old is red!'' [\<lparr>rp_match = ''red'', rp_text = ''blue''\<rparr>] ''f'')
   \<and> \<not> is_ok (apply_replacements ''a b a'' [\<lparr>rp_match = ''a'', rp_text = ''c''\<rparr>] ''f'')"
proof
  have "list_all (\<lambda>r. rp_match r \<noteq> [] \<and> length (occurrences (rp_match r) ''old is red!'') = 1)
      [\<lparr>rp_match = ''red'', rp_text = ''blue''\<rparr>]" by code_simp
  moreover have "spans_apart (mset (map (span_of ''old is red!'') [\<lparr>rp_match = ''red'', rp_text = ''blue''\<rparr>]))"
    by (simp add: spans_apart_def)
  ultimately show "is_ok (apply_replacements ''old is red!'' [\<lparr>rp_match = ''red'', rp_text = ''blue''\<rparr>] ''f'')"
    using unique_replacements_accepted by blast
  have "list_ex (\<lambda>r. \<exists>i \<in> set (occurrences (rp_match r) ''a b a''). \<exists>j \<in> set (occurrences (rp_match r) ''a b a'').
      i + length (rp_match r) \<le> j) [\<lparr>rp_match = ''a'', rp_text = ''c''\<rparr>]" by code_simp
  then show "\<not> is_ok (apply_replacements ''a b a'' [\<lparr>rp_match = ''a'', rp_text = ''c''\<rparr>] ''f'')"
    using unique_replacements_accepted by blast
qed

lemma replacements_are_exact_witness:
  "let reps = [\<lparr>rp_match = ''red'', rp_text = ''blue''\<rparr>, \<lparr>rp_match = ''old'', rp_text = ''n''\<rparr>] in
   apply_replacements ''old is red!'' reps ''f'' = Inr ''n is blue!'' \<and>
   (\<exists>order gaps. mset order = mset reps \<and> length gaps = Suc (length order)
     \<and> ''old is red!'' = interleave gaps (map rp_match order) \<and> ''n is blue!'' = interleave gaps (map rp_text order))"
proof -
  have "apply_replacements ''old is red!''
    [\<lparr>rp_match = ''red'', rp_text = ''blue''\<rparr>, \<lparr>rp_match = ''old'', rp_text = ''n''\<rparr>] ''f'' = Inr ''n is blue!''"
    by code_simp
  from replacements_are_exact [OF this] this show ?thesis unfolding Let_def by blast
qed

end
