(* ===== verification/Edit_Files.thy ===== *)
theory Edit_Files
  imports Edit_Text
begin

text \<open>
  Paths of a workspace (\<^verbatim>\<open>Resolve\<close>, \<^verbatim>\<open>LexicalPath\<close>, \<^verbatim>\<open>withinRoot\<close> of \<^verbatim>\<open>internal/file/path.go\<close> on Unix) and the
  calls of \<^verbatim>\<open>os\<close> and \<^verbatim>\<open>filepath\<close> the edit engine makes (\<^verbatim>\<open>atomicWrite\<close>, \<^verbatim>\<open>readFile\<close>), on a file system with
  directories, files and symbolic links. A path is the list of its components from the root; a call that
  changes something may be refused by the operating system (\<open>ee_refuses\<close>).
\<close>

section \<open>File systems\<close>

type_synonym path = "bytes list"

datatype node = Dir_Node | File_Node bytes nat | Link_Node bytes | Device_Node

type_synonym file_system = "path \<Rightarrow> node option"

datatype sys_error = Not_Exist | Not_Dir | Is_Dir | Too_Many_Links | Escapes | Already_Exists | Refused

datatype sys_call =
  Read_Call path | Mkdir_Call path | Temp_Call path | Chmod_Call path | Write_Call path | Sync_Call path
  | Close_Call path | Rename_Call path path | Remove_Call path

text \<open>What an edit is given from outside: the working directory, SHA-256 in hexadecimal, strict base64, the names
  \<^verbatim>\<open>CreateTemp\<close> draws and the refusals.\<close>

record edit_env =
  ee_cwd :: path
  ee_sha :: "bytes \<Rightarrow> bytes"
  ee_base64 :: "bytes \<Rightarrow> bytes option"
  ee_temp :: "path \<Rightarrow> bytes"
  ee_refuses :: "sys_call \<Rightarrow> bool"

section \<open>Paths\<close>

definition slash :: char where "slash = CHR 0x2F"
definition dotdot :: bytes where "dotdot = ''..''"

text \<open>The components of a path; empty ones and \<^verbatim>\<open>.\<close> stand for nothing.\<close>

definition components :: "bytes \<Rightarrow> path" where
  "components s = filter (\<lambda>c. c \<noteq> [] \<and> c \<noteq> ''.'') (split_on slash s)"

definition is_abs :: "bytes \<Rightarrow> bool" where
  "is_abs s \<longleftrightarrow> has_prefix s [slash]"

text \<open>\<^verbatim>\<open>filepath.Clean\<close> of an absolute path.\<close>

definition clean_step :: "path \<Rightarrow> bytes \<Rightarrow> path" where
  "clean_step p c = (if c = dotdot then butlast p else p @ [c])"

definition clean_path :: "path \<Rightarrow> path" where
  "clean_path cs = foldl clean_step [] cs"

text \<open>\<^verbatim>\<open>filepath.Abs\<close>, and \<^verbatim>\<open>filepath.Join\<close> of an absolute path and a text.\<close>

definition abs_path :: "edit_env \<Rightarrow> bytes \<Rightarrow> path" where
  "abs_path env s = clean_path (if is_abs s then components s else ee_cwd env @ components s)"

definition join_path :: "path \<Rightarrow> bytes \<Rightarrow> path" where
  "join_path root rel = clean_path (root @ components rel)"

text \<open>\<^verbatim>\<open>filepath.Rel\<close> of two clean absolute paths leads out of the first one unless it is a prefix.\<close>

definition within_root :: "path \<Rightarrow> path \<Rightarrow> bool" where
  "within_root root p \<longleftrightarrow> take (length root) p = root"

section \<open>Following links\<close>

text \<open>From the directory \<open>d\<close> on, with at most \<open>n\<close> links.\<close>

function walk :: "file_system \<Rightarrow> nat \<Rightarrow> path \<Rightarrow> path \<Rightarrow> (sys_error, path) result" where
  "walk fs n d [] = Inr d"
| "walk fs n d (c # cs) =
     (if c = dotdot then walk fs n (butlast d) cs
      else case fs (d @ [c]) of
        None \<Rightarrow> Inl Not_Exist
      | Some Dir_Node \<Rightarrow> walk fs n (d @ [c]) cs
      | Some (Link_Node t) \<Rightarrow>
          (case n of
             0 \<Rightarrow> Inl Too_Many_Links
           | Suc m \<Rightarrow> walk fs m (if is_abs t then [] else d) (components t @ cs))
      | Some _ \<Rightarrow> if cs = [] then Inr (d @ [c]) else Inl Not_Dir)"
  by pat_completeness auto
termination
  by (relation "inv_image (less_than <*lex*> less_than) (\<lambda>(fs, n, d, cs). (n, length cs))") auto

declare walk.simps [simp del]

text \<open>\<^verbatim>\<open>filepath.EvalSymlinks\<close>, and the kernel's own resolution.\<close>

definition physical_path :: "file_system \<Rightarrow> path \<Rightarrow> (sys_error, path) result" where
  "physical_path fs p = walk fs 255 [] p"

definition kernel_path :: "file_system \<Rightarrow> path \<Rightarrow> (sys_error, path) result" where
  "kernel_path fs p = walk fs 40 [] p"

text \<open>The entry a path names when a link at its end is not followed.\<close>

definition kernel_entry :: "file_system \<Rightarrow> path \<Rightarrow> (sys_error, path) result" where
  "kernel_entry fs p =
     (if p = [] then Inr []
      else and_then (kernel_path fs (butlast p)) (\<lambda>d.
        if fs d = Some Dir_Node then Inr (d @ [last p]) else Inl Not_Dir))"

function nearest_ancestor :: "file_system \<Rightarrow> path \<Rightarrow> path \<Rightarrow> path \<Rightarrow> (sys_error, path) result" where
  "nearest_ancestor fs root joined ancestor =
     (case physical_path fs ancestor of
        Inr real \<Rightarrow>
          if within_root root real then Inr (real @ drop (length ancestor) joined) else Inl Escapes
      | Inl e \<Rightarrow> if ancestor = [] then Inl e else nearest_ancestor fs root joined (butlast ancestor))"
  by pat_completeness auto
termination
  by (relation "measure (\<lambda>(fs, root, joined, ancestor). length ancestor)") auto

declare nearest_ancestor.simps [simp del]

text \<open>\<^verbatim>\<open>Resolve\<close> and \<^verbatim>\<open>LexicalPath\<close>.\<close>

definition resolve :: "edit_env \<Rightarrow> file_system \<Rightarrow> bytes \<Rightarrow> bytes \<Rightarrow> (sys_error, path) result" where
  "resolve env fs workspace rel =
     (if rel = [] then Inl Not_Exist
      else let lexical = abs_path env workspace in
        and_then (physical_path fs lexical) (\<lambda>root.
          let joined = join_path lexical rel in
          if \<not> within_root lexical joined then Inl Escapes
          else case physical_path fs joined of
            Inr p \<Rightarrow> if within_root root p then Inr p else Inl Escapes
          | Inl e \<Rightarrow> if e = Not_Exist then nearest_ancestor fs root joined (butlast joined) else Inl e))"

definition lexical_path :: "edit_env \<Rightarrow> bytes \<Rightarrow> bytes \<Rightarrow> (sys_error, path) result" where
  "lexical_path env workspace rel =
     (if blank rel then Inl Not_Exist
      else let root = abs_path env workspace; joined = join_path root rel in
        if within_root root joined then Inr joined else Inl Escapes)"

section \<open>Calls\<close>

definition sys_stat :: "file_system \<Rightarrow> path \<Rightarrow> (sys_error, node) result" where
  "sys_stat fs p = and_then (kernel_path fs p) (\<lambda>q. case fs q of None \<Rightarrow> Inl Not_Exist | Some n \<Rightarrow> Inr n)"

definition sys_lstat :: "file_system \<Rightarrow> path \<Rightarrow> (sys_error, node) result" where
  "sys_lstat fs p = and_then (kernel_entry fs p) (\<lambda>q. case fs q of None \<Rightarrow> Inl Not_Exist | Some n \<Rightarrow> Inr n)"

definition os_read_file :: "edit_env \<Rightarrow> file_system \<Rightarrow> path \<Rightarrow> (sys_error, bytes) result" where
  "os_read_file env fs p = and_then (sys_stat fs p) (\<lambda>n.
     case n of File_Node content mode \<Rightarrow> if ee_refuses env (Read_Call p) then Inl Refused else Inr content
             | _ \<Rightarrow> Inl Is_Dir)"

text \<open>\<^verbatim>\<open>readFile\<close> of \<^verbatim>\<open>apply.go\<close>.\<close>

definition read_file :: "edit_env \<Rightarrow> file_system \<Rightarrow> path \<Rightarrow> (sys_error, bytes \<times> nat) result" where
  "read_file env fs p = and_then (sys_stat fs p) (\<lambda>n.
     case n of File_Node _ mode \<Rightarrow> and_then (os_read_file env fs p) (\<lambda>content. Inr (content, mode))
             | _ \<Rightarrow> Inl Is_Dir)"

text \<open>A call that changes the file system answers with the new one.\<close>

type_synonym 'a changed = "file_system \<times> (sys_error, 'a) result"

definition sys_mkdir :: "edit_env \<Rightarrow> file_system \<Rightarrow> path \<Rightarrow> unit changed" where
  "sys_mkdir env fs p =
     (case kernel_entry fs p of
        Inl e \<Rightarrow> (fs, Inl e)
      | Inr q \<Rightarrow>
          if fs q \<noteq> None then (fs, Inl Already_Exists)
          else if ee_refuses env (Mkdir_Call q) then (fs, Inl Refused)
          else (fs(q \<mapsto> Dir_Node), Inr ()))"

text \<open>\<^verbatim>\<open>os.MkdirAll\<close>.\<close>

function mkdir_all :: "edit_env \<Rightarrow> file_system \<Rightarrow> path \<Rightarrow> unit changed" where
  "mkdir_all env fs p =
     (case sys_stat fs p of
        Inr Dir_Node \<Rightarrow> (fs, Inr ())
      | Inr _ \<Rightarrow> (fs, Inl Not_Dir)
      | Inl e \<Rightarrow>
          if p = [] then (fs, Inl e)
          else case mkdir_all env fs (butlast p) of
            (fs', Inl e') \<Rightarrow> (fs', Inl e')
          | (fs', Inr _) \<Rightarrow>
              (case sys_mkdir env fs' p of
                 (fs'', Inr _) \<Rightarrow> (fs'', Inr ())
               | (fs'', Inl e'') \<Rightarrow>
                   if sys_lstat fs'' p = Inr Dir_Node then (fs'', Inr ()) else (fs'', Inl e'')))"
  by pat_completeness auto
termination
  by (relation "measure (\<lambda>(env, fs, p). length p)") auto

declare mkdir_all.simps [simp del]

text \<open>\<^verbatim>\<open>os.CreateTemp\<close> with the pattern \<^verbatim>\<open>.mcpx-edit-*\<close>: the entry is new.\<close>

definition temp_name :: "edit_env \<Rightarrow> path \<Rightarrow> bytes" where
  "temp_name env dir = ''.mcpx-edit-'' @ ee_temp env dir"

definition create_temp :: "edit_env \<Rightarrow> file_system \<Rightarrow> path \<Rightarrow> path changed" where
  "create_temp env fs dir =
     (let p = dir @ [temp_name env dir] in
      case kernel_entry fs p of
        Inl e \<Rightarrow> (fs, Inl e)
      | Inr q \<Rightarrow>
          if fs q \<noteq> None then (fs, Inl Already_Exists)
          else if ee_refuses env (Temp_Call q) then (fs, Inl Refused)
          else (fs(q \<mapsto> File_Node [] 0x180), Inr p))"

text \<open>\<^verbatim>\<open>os.Rename\<close> of a file; the code renames no directory.\<close>

definition sys_rename :: "edit_env \<Rightarrow> file_system \<Rightarrow> path \<Rightarrow> path \<Rightarrow> unit changed" where
  "sys_rename env fs from to =
     (case (kernel_entry fs from, kernel_entry fs to) of
        (Inr p, Inr q) \<Rightarrow>
          (case fs p of
             None \<Rightarrow> (fs, Inl Not_Exist)
           | Some n \<Rightarrow>
               if n = Dir_Node \<or> fs q = Some Dir_Node then (fs, Inl Is_Dir)
               else if ee_refuses env (Rename_Call p q) then (fs, Inl Refused)
               else (if p = q then fs else fs(p := None, q \<mapsto> n), Inr ()))
      | (Inl e, _) \<Rightarrow> (fs, Inl e)
      | (_, Inl e) \<Rightarrow> (fs, Inl e))"

text \<open>\<^verbatim>\<open>os.Remove\<close>; that a directory is not empty is a refusal.\<close>

definition sys_remove :: "edit_env \<Rightarrow> file_system \<Rightarrow> path \<Rightarrow> unit changed" where
  "sys_remove env fs p =
     (case kernel_entry fs p of
        Inl e \<Rightarrow> (fs, Inl e)
      | Inr q \<Rightarrow>
          if fs q = None then (fs, Inl Not_Exist)
          else if ee_refuses env (Remove_Call q) then (fs, Inl Refused)
          else (fs(q := None), Inr ()))"

text \<open>\<^verbatim>\<open>atomicWrite\<close>. The deferred removal of the temporary file runs on every way out.\<close>

definition set_file :: "file_system \<Rightarrow> path \<Rightarrow> bytes \<Rightarrow> nat \<Rightarrow> file_system" where
  "set_file fs p content mode =
     (case kernel_path fs p of Inr q \<Rightarrow> fs(q \<mapsto> File_Node content mode) | Inl _ \<Rightarrow> fs)"

definition file_mode :: "nat \<Rightarrow> nat" where
  "file_mode mode = (if mode = 0 then 0x1A4 else mode)"

definition write_temp :: "edit_env \<Rightarrow> file_system \<Rightarrow> path \<Rightarrow> path \<Rightarrow> bytes \<Rightarrow> nat \<Rightarrow> unit changed" where
  "write_temp env fs temp p content mode0 =
     (let mode = file_mode mode0 in
      if ee_refuses env (Chmod_Call temp) then (fs, Inl Refused)
      else let fs1 = set_file fs temp [] mode in
        if ee_refuses env (Write_Call temp) then (fs1, Inl Refused)
        else let fs2 = set_file fs1 temp content mode in
          if ee_refuses env (Sync_Call temp) \<or> ee_refuses env (Close_Call temp) then (fs2, Inl Refused)
          else sys_rename env fs2 temp p)"

definition atomic_write :: "edit_env \<Rightarrow> file_system \<Rightarrow> path \<Rightarrow> bytes \<Rightarrow> nat \<Rightarrow> unit changed" where
  "atomic_write env fs p content mode =
     (case mkdir_all env fs (butlast p) of
        (fs1, Inl e) \<Rightarrow> (fs1, Inl e)
      | (fs1, Inr _) \<Rightarrow>
          (case create_temp env fs1 (butlast p) of
             (fs2, Inl e) \<Rightarrow> (fs2, Inl e)
           | (fs2, Inr temp) \<Rightarrow>
               let (fs3, r) = write_temp env fs2 temp p content mode in (fst (sys_remove env fs3 temp), r)))"

text \<open>\<^verbatim>\<open>os.Root.Remove\<close>: parent directories and links are followed within the root only.\<close>

function root_walk :: "file_system \<Rightarrow> path \<Rightarrow> nat \<Rightarrow> path \<Rightarrow> path \<Rightarrow> (sys_error, path) result" where
  "root_walk fs root n d [] = Inr d"
| "root_walk fs root n d (c # cs) =
     (if c = dotdot then (if d = [] then Inl Escapes else root_walk fs root n (butlast d) cs)
      else case fs (root @ d @ [c]) of
        None \<Rightarrow> Inl Not_Exist
      | Some Dir_Node \<Rightarrow> root_walk fs root n (d @ [c]) cs
      | Some (Link_Node t) \<Rightarrow>
          if is_abs t then Inl Escapes
          else (case n of 0 \<Rightarrow> Inl Too_Many_Links | Suc m \<Rightarrow> root_walk fs root m d (components t @ cs))
      | Some _ \<Rightarrow> Inl Not_Dir)"
  by pat_completeness auto
termination
  by (relation "inv_image (less_than <*lex*> less_than) (\<lambda>(fs, root, n, d, cs). (n, length cs))") auto

declare root_walk.simps [simp del]

definition root_remove :: "edit_env \<Rightarrow> file_system \<Rightarrow> path \<Rightarrow> bytes \<Rightarrow> unit changed" where
  "root_remove env fs root rel =
     (let cs = components rel in
      if is_abs rel then (fs, Inl Escapes)
      else if cs = [] \<or> last cs = dotdot \<or> last (split_on slash rel) \<noteq> last cs then (fs, Inl Not_Dir)
      else case root_walk fs root 8 [] (butlast cs) of
        Inl e \<Rightarrow> (fs, Inl e)
      | Inr d \<Rightarrow>
          let q = root @ d @ [last cs] in
          if fs q = None then (fs, Inl Not_Exist)
          else if ee_refuses env (Remove_Call q) then (fs, Inl Refused)
          else (fs(q := None), Inr ()))"

end
