(* ===== verification/Line_Diff.thy ===== *)
theory Line_Diff
  imports Prelude
begin

text \<open>
  The line diff of the edit engine (\<^verbatim>\<open>lineDiff\<close>, \<^verbatim>\<open>backtrackDiff\<close> of \<^verbatim>\<open>internal/edit/diff.go\<close>): Myers' greedy
  search with its frontier maps, an index out of range being \<^const>\<open>None\<close>. The search always ends with a
  script that turns the old lines into the new ones, and no script changes fewer lines.
\<close>

named_theorems frontier_facts \<open>bounds and monotonicity of the frontier\<close>

section \<open>The code\<close>

text \<open>\<open>op_kind\<close> is the byte \<^verbatim>\<open>' '\<close>, \<^verbatim>\<open>'+'\<close> or \<^verbatim>\<open>'-'\<close>.\<close>

datatype diff_op = Diff_Op (op_kind: char) (op_line: bytes)

text \<open>A Go \<^verbatim>\<open>map[int]int\<close>: a missing key reads as 0.\<close>

type_synonym frontier = "(int \<times> int) list"

definition go_get :: "frontier \<Rightarrow> int \<Rightarrow> int" where
  "go_get v k = (case map_of v k of None \<Rightarrow> 0 | Some x \<Rightarrow> x)"

text \<open>Reading a line; \<^const>\<open>None\<close> is the run-time error of an index out of range.\<close>

definition line_at :: "bytes list \<Rightarrow> int \<Rightarrow> bytes option" where
  "line_at a i = (if 0 \<le> i \<and> i < int (length a) then Some (a ! nat i) else None)"

function snake :: "bytes list \<Rightarrow> bytes list \<Rightarrow> int \<Rightarrow> int \<Rightarrow> (int \<times> int) option" where
  "snake a b x y =
     (if x < int (length a) \<and> y < int (length b) then
        (case (line_at a x, line_at b y) of
           (Some s, Some t) \<Rightarrow> if s = t then snake a b (x + 1) (y + 1) else Some (x, y)
         | _ \<Rightarrow> None)
      else Some (x, y))"
  by pat_completeness auto
termination
  by (relation "measure (\<lambda>(a, b, x, y). nat (int (length a) - x))") auto

definition edge_down :: "frontier \<Rightarrow> int \<Rightarrow> int \<Rightarrow> bool" where
  "edge_down v d k \<longleftrightarrow> k = - d \<or> (k \<noteq> d \<and> go_get v (k - 1) < go_get v (k + 1))"

definition edge_start :: "frontier \<Rightarrow> int \<Rightarrow> int \<Rightarrow> int" where
  "edge_start v d k = (if edge_down v d k then go_get v (k + 1) else go_get v (k - 1) + 1)"

text \<open>The inner loop over the diagonals of one distance; the flag says that the end was reached.\<close>

function diff_row :: "bytes list \<Rightarrow> bytes list \<Rightarrow> frontier \<Rightarrow> int \<Rightarrow> int \<Rightarrow> frontier \<Rightarrow> (frontier \<times> bool) option" where
  "diff_row a b v d k cur =
     (if d < k then Some (cur, False)
      else case snake a b (edge_start v d k) (edge_start v d k - k) of
        None \<Rightarrow> None
      | Some (x, y) \<Rightarrow>
          if int (length a) \<le> x \<and> int (length b) \<le> y then Some ((k, x) # cur, True)
          else diff_row a b v d (k + 2) ((k, x) # cur))"
  by pat_completeness auto
termination
  by (relation "measure (\<lambda>(a, b, v, d, k, cur). nat (d + 2 - k))") auto

text \<open>The loop of \<^verbatim>\<open>backtrackDiff\<close> that undoes the snake.\<close>

function undo_snake :: "bytes list \<Rightarrow> int \<Rightarrow> int \<Rightarrow> int \<Rightarrow> int \<Rightarrow> diff_op list \<Rightarrow> (int \<times> int \<times> diff_op list) option" where
  "undo_snake a px py x y backward =
     (if px < x \<and> py < y then
        (case line_at a (x - 1) of
           None \<Rightarrow> None
         | Some l \<Rightarrow> undo_snake a px py (x - 1) (y - 1) (backward @ [Diff_Op CHR '' '' l]))
      else Some (x, y, backward))"
  by pat_completeness auto
termination
  by (relation "measure (\<lambda>(a, px, py, x, y, backward). nat (x - px))") auto

text \<open>The loops that take the rest of one side.\<close>

function undo_rest :: "char \<Rightarrow> bytes list \<Rightarrow> int \<Rightarrow> diff_op list \<Rightarrow> diff_op list option" where
  "undo_rest c a x backward =
     (if 0 < x then
        (case line_at a (x - 1) of
           None \<Rightarrow> None
         | Some l \<Rightarrow> undo_rest c a (x - 1) (backward @ [Diff_Op c l]))
      else Some backward)"
  by pat_completeness auto
termination
  by (relation "measure (\<lambda>(c, a, x, backward). nat x)") auto

declare snake.simps [simp del] diff_row.simps [simp del] undo_snake.simps [simp del] undo_rest.simps [simp del]

fun undo_edits :: "bytes list \<Rightarrow> bytes list \<Rightarrow> frontier list \<Rightarrow> nat \<Rightarrow> int \<Rightarrow> int \<Rightarrow> diff_op list \<Rightarrow> diff_op list option" where
  "undo_edits a b trace 0 x y backward =
     (case undo_snake a 0 0 x y backward of
        None \<Rightarrow> None
      | Some (x', y', backward') \<Rightarrow>
          (case undo_rest CHR ''-'' a x' backward' of
             None \<Rightarrow> None
           | Some backward'' \<Rightarrow> map_option rev (undo_rest CHR ''+'' b y' backward'')))"
| "undo_edits a b trace (Suc d) x y backward =
     (let k = x - y; previous = trace ! d;
          previousK = (if edge_down previous (int (Suc d)) k then k + 1 else k - 1);
          previousX = go_get previous previousK; previousY = previousX - previousK
      in case undo_snake a previousX previousY x y backward of
           None \<Rightarrow> None
         | Some (x', y', backward') \<Rightarrow>
             if x' = previousX then
               (case line_at b (y' - 1) of
                  None \<Rightarrow> None
                | Some l \<Rightarrow> undo_edits a b trace d x' (y' - 1) (backward' @ [Diff_Op CHR ''+'' l]))
             else
               (case line_at a (x' - 1) of
                  None \<Rightarrow> None
                | Some l \<Rightarrow> undo_edits a b trace d (x' - 1) y' (backward' @ [Diff_Op CHR ''-'' l])))"

definition backtrack_diff :: "bytes list \<Rightarrow> bytes list \<Rightarrow> frontier list \<Rightarrow> diff_op list option" where
  "backtrack_diff a b trace = undo_edits a b trace (length trace - 1) (int (length a)) (int (length b)) []"

function diff_search :: "bytes list \<Rightarrow> bytes list \<Rightarrow> int \<Rightarrow> frontier \<Rightarrow> frontier list \<Rightarrow> diff_op list option" where
  "diff_search a b d v trace =
     (if int (length a) + int (length b) < d then Some []
      else case diff_row a b v d (- d) [] of
        None \<Rightarrow> None
      | Some (current, True) \<Rightarrow> backtrack_diff a b (trace @ [current])
      | Some (current, False) \<Rightarrow> diff_search a b (d + 1) current (trace @ [current]))"
  by pat_completeness auto
termination
  by (relation "measure (\<lambda>(a, b, d, v, trace). nat (int (length a) + int (length b) + 1 - d))") auto

declare diff_search.simps [simp del]

definition line_diff :: "bytes list \<Rightarrow> bytes list \<Rightarrow> diff_op list option" where
  "line_diff a b = diff_search a b 0 [(1, 0)] []"

section \<open>Edit scripts\<close>

text \<open>The lines a script has read and written, and how many of its lines are changes.\<close>

definition old_lines :: "diff_op list \<Rightarrow> bytes list" where
  "old_lines ops = map op_line (filter (\<lambda>p. op_kind p \<noteq> CHR ''+'') ops)"

definition new_lines :: "diff_op list \<Rightarrow> bytes list" where
  "new_lines ops = map op_line (filter (\<lambda>p. op_kind p \<noteq> CHR ''-'') ops)"

definition change_count :: "diff_op list \<Rightarrow> nat" where
  "change_count ops = length (filter (\<lambda>p. op_kind p = CHR ''+'' \<or> op_kind p = CHR ''-'') ops)"

text \<open>A script: every line is kept, removed or added.\<close>

definition is_script :: "diff_op list \<Rightarrow> bytes list \<Rightarrow> bytes list \<Rightarrow> bool" where
  "is_script ops a b \<longleftrightarrow> list_all (\<lambda>p. op_kind p \<in> {CHR '' '', CHR ''+'', CHR ''-''}) ops
     \<and> old_lines ops = a \<and> new_lines ops = b"

lemma script_simps [simp]:
  "old_lines [] = []" "new_lines [] = []" "change_count [] = 0"
  "old_lines (p # ops) = (if op_kind p = CHR ''+'' then old_lines ops else op_line p # old_lines ops)"
  "new_lines (p # ops) = (if op_kind p = CHR ''-'' then new_lines ops else op_line p # new_lines ops)"
  "change_count (p # ops) = (if op_kind p = CHR ''+'' \<or> op_kind p = CHR ''-'' then Suc (change_count ops) else change_count ops)"
  "old_lines (ops @ ops') = old_lines ops @ old_lines ops'"
  "new_lines (ops @ ops') = new_lines ops @ new_lines ops'"
  "change_count (ops @ ops') = change_count ops + change_count ops'"
  by (simp_all add: old_lines_def new_lines_def change_count_def)

lemma script_Nil [simp]: "is_script [] a b \<longleftrightarrow> a = [] \<and> b = []"
  by (auto simp: is_script_def)

lemma script_Cons:
  "is_script (Diff_Op c l # ops) a b \<longleftrightarrow>
     (c = CHR '' '' \<and> (\<exists>a' b'. a = l # a' \<and> b = l # b' \<and> is_script ops a' b')) \<or>
     (c = CHR ''-'' \<and> (\<exists>a'. a = l # a' \<and> is_script ops a' b)) \<or>
     (c = CHR ''+'' \<and> (\<exists>b'. b = l # b' \<and> is_script ops a b'))"
  by (auto simp: is_script_def)

lemma script_snoc:
  "is_script (ops @ [Diff_Op c l]) a b \<longleftrightarrow>
     (c = CHR '' '' \<and> (\<exists>a' b'. a = a' @ [l] \<and> b = b' @ [l] \<and> is_script ops a' b')) \<or>
     (c = CHR ''-'' \<and> (\<exists>a'. a = a' @ [l] \<and> is_script ops a' b)) \<or>
     (c = CHR ''+'' \<and> (\<exists>b'. b = b' @ [l] \<and> is_script ops a b'))"
  by (auto simp: is_script_def)

section \<open>The frontier\<close>

text \<open>The end of the snake on the diagonal \<open>k\<close>, without the run-time errors.\<close>

definition line_match :: "bytes list \<Rightarrow> bytes list \<Rightarrow> int \<Rightarrow> int \<Rightarrow> bool" where
  "line_match a b k x \<longleftrightarrow> x < int (length a) \<and> x - k < int (length b) \<and> a ! nat x = b ! nat (x - k)"

function slide :: "bytes list \<Rightarrow> bytes list \<Rightarrow> int \<Rightarrow> int \<Rightarrow> int" where
  "slide a b k x = (if line_match a b k x then slide a b k (x + 1) else x)"
  by pat_completeness auto
termination
  by (relation "measure (\<lambda>(a, b, k, x). nat (int (length a) - x))") (auto simp: line_match_def)

declare slide.simps [simp del]

lemma slide_step: "line_match a b k x \<Longrightarrow> slide a b k x = slide a b k (x + 1)"
  by (simp add: slide.simps [of a b k x])

lemma slide_stay: "\<not> line_match a b k x \<Longrightarrow> slide a b k x = x"
  by (simp add: slide.simps [of a b k x])

lemma snake_slide: "0 \<le> x \<Longrightarrow> k \<le> x \<Longrightarrow> snake a b x (x - k) = Some (slide a b k x, slide a b k x - k)"
proof (induction a b k x rule: slide.induct)
  case (1 a b k x)
  show ?case
  proof (cases "line_match a b k x")
    case True
    have e: "x + 1 - k = x - k + 1" by simp
    have "snake a b (x + 1) (x + 1 - k) = Some (slide a b k (x + 1), slide a b k (x + 1) - k)"
      by (rule 1(1) [OF True]) (use 1(2,3) in simp_all)
    then show ?thesis unfolding e
      using True 1(2,3) by (simp add: snake.simps [of a b x] slide_step line_match_def line_at_def)
  next
    case False
    then show ?thesis
      using 1(2,3) by (auto simp: snake.simps [of a b x] slide_stay line_match_def line_at_def)
  qed
qed

lemma slide_ge: "x \<le> slide a b k x"
proof (induction a b k x rule: slide.induct)
  case (1 a b k x)
  then show ?case by (cases "line_match a b k x") (simp_all add: slide_step slide_stay)
qed

lemma slide_inside: "x < slide a b k x \<Longrightarrow> slide a b k x \<le> int (length a) \<and> slide a b k x - k \<le> int (length b)"
proof (induction a b k x rule: slide.induct)
  case (1 a b k x)
  show ?case
  proof (cases "line_match a b k x")
    case True
    then have "slide a b k (x + 1) = x + 1 \<or> x + 1 < slide a b k (x + 1)"
      using slide_ge [of "x + 1" a b k] by auto
    then show ?thesis using True 1(1) [OF True] by (auto simp: slide_step line_match_def)
  qed (use 1(2) in \<open>simp add: slide_stay\<close>)
qed

lemma slide_matches: "x \<le> i \<Longrightarrow> i < slide a b k x \<Longrightarrow> line_match a b k i"
proof (induction a b k x rule: slide.induct)
  case (1 a b k x)
  show ?case
  proof (cases "line_match a b k x")
    case True
    then show ?thesis using 1 by (cases "i = x") (simp_all add: slide_step)
  qed (use 1(2,3) in \<open>simp add: slide_stay\<close>)
qed

lemma slide_stops: "\<not> line_match a b k (slide a b k x)"
proof (induction a b k x rule: slide.induct)
  case (1 a b k x)
  then show ?case by (cases "line_match a b k x") (simp_all add: slide_step slide_stay)
qed

text \<open>
  The frontier as a recursion: \<open>reach a b d k\<close> is the old line the search stands at on the diagonal \<open>k\<close>
  after \<open>d\<close> changes; the new line is \<open>reach a b d k - k\<close>.
\<close>

definition on_diag :: "nat \<Rightarrow> int \<Rightarrow> bool" where
  "on_diag d k \<longleftrightarrow> - int d \<le> k \<and> k \<le> int d \<and> even (int d - k)"

fun reach :: "bytes list \<Rightarrow> bytes list \<Rightarrow> nat \<Rightarrow> int \<Rightarrow> int" where
  "reach a b 0 k = slide a b k 0"
| "reach a b (Suc d) k =
     slide a b k (if k = - int (Suc d) \<or> (k \<noteq> int (Suc d) \<and> reach a b d (k - 1) < reach a b d (k + 1))
                  then reach a b d (k + 1) else reach a b d (k - 1) + 1)"

lemma on_diag_0 [simp]: "on_diag 0 k \<longleftrightarrow> k = 0"
  by (auto simp: on_diag_def)

lemma on_diag_down: "on_diag (Suc d) k \<Longrightarrow> k \<noteq> int (Suc d) \<Longrightarrow> on_diag d (k + 1)"
  unfolding on_diag_def by (auto; presburger)

lemma on_diag_right: "on_diag (Suc d) k \<Longrightarrow> k \<noteq> - int (Suc d) \<Longrightarrow> on_diag d (k - 1)"
  unfolding on_diag_def by (auto; presburger)

lemma on_diag_next: "on_diag d k \<Longrightarrow> on_diag (Suc d) (k - 1) \<and> on_diag (Suc d) (k + 1)"
  unfolding on_diag_def by (auto; presburger)

text \<open>Where the \<open>Suc d\<close>-th change starts: one line down or one line right of the previous frontier.\<close>

lemma reach_step:
  assumes "on_diag (Suc d) k"
  obtains (down) "k \<noteq> int (Suc d)" "on_diag d (k + 1)" "reach a b (Suc d) k = slide a b k (reach a b d (k + 1))"
  | (right) "k \<noteq> - int (Suc d)" "on_diag d (k - 1)" "reach a b (Suc d) k = slide a b k (reach a b d (k - 1) + 1)"
proof (cases "k = - int (Suc d) \<or> (k \<noteq> int (Suc d) \<and> reach a b d (k - 1) < reach a b d (k + 1))")
  case True
  moreover from True have "k \<noteq> int (Suc d)" by auto
  ultimately show thesis using down on_diag_down [OF assms] by simp
next
  case False
  then have k: "k \<noteq> - int (Suc d)" by simp
  moreover have "reach a b (Suc d) k = slide a b k (reach a b d (k - 1) + 1)"
    using False by (simp only: reach.simps if_False)
  ultimately show thesis by (rule right [OF _ on_diag_right [OF assms k]])
qed

lemma reach_bounds:
  "on_diag d k \<Longrightarrow> 0 \<le> reach a b d k \<and> k \<le> reach a b d k \<and> int d \<le> 2 * reach a b d k - k"
proof (induction d arbitrary: k)
  case 0
  then show ?case using slide_ge [of 0 a b 0] by simp
next
  case (Suc d)
  from Suc.prems show ?case
  proof (cases rule: reach_step [of d k a b])
    case down
    then show ?thesis using Suc.IH [OF down(2)] slide_ge [of "reach a b d (k + 1)" a b k] by simp
  next
    case right
    then show ?thesis using Suc.IH [OF right(2)] slide_ge [of "reach a b d (k - 1) + 1" a b k] by simp
  qed
qed

lemma reach_grows:
  assumes "on_diag d k"
  shows "reach a b d k \<le> reach a b (Suc d) (k - 1)" "reach a b d k + 1 \<le> reach a b (Suc d) (k + 1)"
proof -
  have "k \<le> int d" "- int d \<le> k" using assms by (simp_all add: on_diag_def)
  then show "reach a b d k \<le> reach a b (Suc d) (k - 1)" "reach a b d k + 1 \<le> reach a b (Suc d) (k + 1)"
    using slide_ge [of "reach a b d k" a b "k - 1"] slide_ge [of "reach a b d (k - 2) + 1" a b "k - 1"]
      slide_ge [of "reach a b d k + 1" a b "k + 1"] slide_ge [of "reach a b d (2 + k)" a b "k + 1"]
    by (auto split: if_splits)
qed

text \<open>A frontier point beyond the last old (new) line has a neighbour one change earlier beyond it, too.\<close>

lemma reach_beyond_old:
  "on_diag d k \<Longrightarrow> int (length a) < reach a b d k
     \<Longrightarrow> \<exists>d'. d = Suc d' \<and> on_diag d' (k - 1) \<and> reach a b d k - 1 \<le> reach a b d' (k - 1)"
proof (induction d arbitrary: k)
  case 0
  then show ?case using slide_inside [of 0 a b 0] slide_ge [of 0 a b 0] by fastforce
next
  case (Suc d)
  from Suc.prems(1) show ?case
  proof (cases rule: reach_step [of d k a b])
    case down
    have x: "reach a b (Suc d) k = reach a b d (k + 1)"
      using down(3) Suc.prems(2) slide_inside slide_ge by (metis leD order_le_less)
    obtain d' where d': "d = Suc d'" "on_diag d' k" "reach a b d (k + 1) - 1 \<le> reach a b d' k"
      using Suc.IH [OF down(2)] Suc.prems(2) x by auto
    then show ?thesis using x reach_grows(1) [OF d'(2), of a b] on_diag_next [OF d'(2)] by auto
  next
    case right
    have "reach a b (Suc d) k = reach a b d (k - 1) + 1"
      using right(3) Suc.prems(2) slide_inside slide_ge by (metis leD order_le_less)
    then show ?thesis using right(2) by simp
  qed
qed

lemma reach_beyond_new:
  "on_diag d k \<Longrightarrow> int (length b) < reach a b d k - k
     \<Longrightarrow> \<exists>d'. d = Suc d' \<and> on_diag d' (k + 1) \<and> reach a b d k \<le> reach a b d' (k + 1)"
proof (induction d arbitrary: k)
  case 0
  then show ?case using slide_inside [of 0 a b 0] slide_ge [of 0 a b 0] by fastforce
next
  case (Suc d)
  from Suc.prems(1) show ?case
  proof (cases rule: reach_step [of d k a b])
    case down
    have "reach a b (Suc d) k = reach a b d (k + 1)"
      using down(3) Suc.prems(2) slide_inside slide_ge by (metis leD order_le_less)
    then show ?thesis using down(2) by simp
  next
    case right
    have x: "reach a b (Suc d) k = reach a b d (k - 1) + 1"
      using right(3) Suc.prems(2) slide_inside slide_ge by (metis leD order_le_less)
    obtain d' where d': "d = Suc d'" "on_diag d' k" "reach a b d (k - 1) \<le> reach a b d' k"
      using Suc.IH [OF right(2)] Suc.prems(2) x by auto
    then show ?thesis using x reach_grows(2) [OF d'(2), of a b] on_diag_next [OF d'(2)] by auto
  qed
qed

text \<open>So the first point at or beyond both ends is the end itself.\<close>

definition at_end :: "bytes list \<Rightarrow> bytes list \<Rightarrow> nat \<Rightarrow> int \<Rightarrow> bool" where
  "at_end a b d k \<longleftrightarrow> int (length a) \<le> reach a b d k \<and> int (length b) \<le> reach a b d k - k"

lemma first_end:
  assumes k: "on_diag d k" "at_end a b d k"
    and earlier: "\<And>d' k'. d' < d \<Longrightarrow> on_diag d' k' \<Longrightarrow> \<not> at_end a b d' k'"
  shows "reach a b d k = int (length a)" "k = int (length a) - int (length b)"
proof -
  have "\<not> int (length a) < reach a b d k"
  proof
    assume "int (length a) < reach a b d k"
    from reach_beyond_old [OF k(1) this] obtain d' where
      d': "d = Suc d'" "on_diag d' (k - 1)" "reach a b d k - 1 \<le> reach a b d' (k - 1)" by blast
    moreover from d'(3) k(2) \<open>int (length a) < reach a b d k\<close> have "at_end a b d' (k - 1)"
      by (simp add: at_end_def)
    ultimately show False using earlier by blast
  qed
  moreover have "\<not> int (length b) < reach a b d k - k"
  proof
    assume "int (length b) < reach a b d k - k"
    from reach_beyond_new [OF k(1) this] obtain d' where
      d': "d = Suc d'" "on_diag d' (k + 1)" "reach a b d k \<le> reach a b d' (k + 1)" by blast
    moreover from d'(3) k(2) \<open>int (length b) < reach a b d k - k\<close> have "at_end a b d' (k + 1)"
      by (simp add: at_end_def)
    ultimately show False using earlier by blast
  qed
  ultimately show "reach a b d k = int (length a)" "k = int (length a) - int (length b)"
    using k(2) by (simp_all add: at_end_def)
qed

section \<open>The search\<close>

definition frontier_ok :: "bytes list \<Rightarrow> bytes list \<Rightarrow> nat \<Rightarrow> frontier \<Rightarrow> bool" where
  "frontier_ok a b d v \<longleftrightarrow> (\<forall>k. on_diag d k \<longrightarrow> go_get v k = reach a b d k)"

definition before_ok :: "bytes list \<Rightarrow> bytes list \<Rightarrow> nat \<Rightarrow> frontier \<Rightarrow> bool" where
  "before_ok a b d v \<longleftrightarrow> (case d of 0 \<Rightarrow> go_get v 1 = 0 | Suc d' \<Rightarrow> frontier_ok a b d' v)"

lemma edge_down_step:
  assumes "frontier_ok a b d v" "on_diag (Suc d) k"
  shows "edge_down v (int (Suc d)) k \<longleftrightarrow>
    k = - int (Suc d) \<or> (k \<noteq> int (Suc d) \<and> reach a b d (k - 1) < reach a b d (k + 1))"
proof (cases "k = - int (Suc d) \<or> k = int (Suc d)")
  case False
  then show ?thesis
    using assms on_diag_down [of d k] on_diag_right [of d k] by (simp add: edge_down_def frontier_ok_def)
qed (auto simp: edge_down_def)

lemma edge_start_step:
  assumes v: "before_ok a b d v" and k: "on_diag d k"
  shows "slide a b k (edge_start v (int d) k) = reach a b d k" "0 \<le> edge_start v (int d) k" "k \<le> edge_start v (int d) k"
proof -
  have "slide a b k (edge_start v (int d) k) = reach a b d k \<and> 0 \<le> edge_start v (int d) k \<and> k \<le> edge_start v (int d) k"
  proof (cases d)
    case 0
    then show ?thesis using assms by (simp add: before_ok_def edge_start_def edge_down_def)
  next
    case (Suc d')
    then have v': "frontier_ok a b d' v" and k': "on_diag (Suc d') k" using assms by (simp_all add: before_ok_def)
    show ?thesis
    proof (cases "edge_down v (int (Suc d')) k")
      case True
      then have "k \<noteq> int (Suc d')" by (auto simp: edge_down_def)
      from on_diag_down [OF k' this] show ?thesis
        using True edge_down_step [OF v' k'] v' reach_bounds [of d' "k + 1" a b]
        by (simp add: Suc edge_start_def frontier_ok_def)
    next
      case False
      then have "k \<noteq> - int (Suc d')" by (auto simp: edge_down_def)
      from on_diag_right [OF k' this] show ?thesis
        using False edge_down_step [OF v' k'] v' reach_bounds [of d' "k - 1" a b]
        by (auto simp add: Suc edge_start_def frontier_ok_def)
    qed
  qed
  then show "slide a b k (edge_start v (int d) k) = reach a b d k" "0 \<le> edge_start v (int d) k" "k \<le> edge_start v (int d) k"
    by simp_all
qed

definition row_ok :: "bytes list \<Rightarrow> bytes list \<Rightarrow> nat \<Rightarrow> int \<Rightarrow> frontier \<Rightarrow> bool" where
  "row_ok a b d k cur \<longleftrightarrow>
     (\<forall>k'. on_diag d k' \<longrightarrow> k' < k \<longrightarrow> go_get cur k' = reach a b d k' \<and> \<not> at_end a b d k')"

lemma on_diag_skip: "on_diag d k \<Longrightarrow> on_diag d k' \<Longrightarrow> k' < k + 2 \<Longrightarrow> k' < k \<or> k' = k"
  unfolding on_diag_def by (elim conjE; presburger)

lemma row_ok_next:
  assumes "row_ok a b d k cur" "on_diag d k" "\<not> at_end a b d k"
  shows "row_ok a b d (k + 2) ((k, reach a b d k) # cur)"
  unfolding row_ok_def
proof (intro allI impI)
  fix k' assume k': "on_diag d k'" "k' < k + 2"
  from on_diag_skip [OF assms(2) this]
  show "go_get ((k, reach a b d k) # cur) k' = reach a b d k' \<and> \<not> at_end a b d k'"
  proof
    assume "k' < k"
    then show ?thesis using assms(1) k' by (simp add: row_ok_def go_get_def)
  next
    assume "k' = k"
    then show ?thesis using assms(3) by (simp add: go_get_def)
  qed
qed

lemma diff_row_step:
  assumes "before_ok a b d v" "on_diag d k"
  shows "diff_row a b v (int d) k cur =
    (if at_end a b d k then Some ((k, reach a b d k) # cur, True)
     else diff_row a b v (int d) (k + 2) ((k, reach a b d k) # cur))"
proof -
  note e = edge_start_step [OF assms]
  have "\<not> int d < k" using assms(2) by (simp add: on_diag_def)
  then show ?thesis
    by (subst diff_row.simps) (simp add: snake_slide [OF e(2,3)] e(1) at_end_def)
qed

lemma diff_row_answer:
  assumes v: "before_ok a b d v"
  shows "on_diag d k \<or> k = int d + 2 \<Longrightarrow> row_ok a b d k cur \<Longrightarrow>
    \<exists>cur' fin. diff_row a b v (int d) k cur = Some (cur', fin) \<and>
      (if fin then \<exists>k'. on_diag d k' \<and> at_end a b d k'
       else frontier_ok a b d cur' \<and> (\<forall>k'. on_diag d k' \<longrightarrow> \<not> at_end a b d k'))"
proof (induction "nat (int d + 2 - k)" arbitrary: k cur rule: less_induct)
  case less
  show ?case
  proof (cases "k = int d + 2")
    case True
    then have "frontier_ok a b d cur \<and> (\<forall>k'. on_diag d k' \<longrightarrow> \<not> at_end a b d k')"
      using less.prems(2) by (auto simp: row_ok_def frontier_ok_def on_diag_def)
    then show ?thesis using True by (subst diff_row.simps) auto
  next
    case False
    then have k: "on_diag d k" using less.prems(1) by simp
    show ?thesis
    proof (cases "at_end a b d k")
      case True
      then show ?thesis using k by (auto simp: diff_row_step [OF v k])
    next
      case e: False
      have d: "k \<le> int d" "even (int d - k)" using k by (simp_all add: on_diag_def)
      then have k2: "on_diag d (k + 2) \<or> k + 2 = int d + 2" using k unfolding on_diag_def by (auto; presburger)
      from d(1) have "nat (int d + 2 - (k + 2)) < nat (int d + 2 - k)" by simp
      from less.hyps [OF this k2 row_ok_next [OF less.prems(2) k e]] show ?thesis
        by (simp add: diff_row_step [OF v k] e)
    qed
  qed
qed

lemma diff_row_all:
  assumes "before_ok a b d v"
  obtains (found) cur k where "diff_row a b v (int d) (- int d) [] = Some (cur, True)" "on_diag d k" "at_end a b d k"
  | (go_on) cur where "diff_row a b v (int d) (- int d) [] = Some (cur, False)" "frontier_ok a b d cur"
      "\<forall>k. on_diag d k \<longrightarrow> \<not> at_end a b d k"
proof -
  have "on_diag d (- int d)" "row_ok a b d (- int d) []" by (auto simp: row_ok_def on_diag_def)
  from diff_row_answer [OF assms disjI1 [OF this(1)] this(2)] show thesis
    using found go_on by (metis (full_types))
qed

text \<open>The search ends within as many changes as there are lines.\<close>

lemma last_row_ends:
  "on_diag (length a + length b) (int (length a) - int (length b))
     \<and> at_end a b (length a + length b) (int (length a) - int (length b))"
proof -
  have k: "on_diag (length a + length b) (int (length a) - int (length b))"
    by (simp add: on_diag_def)
  then show ?thesis using reach_bounds [OF k, of a b] by (simp add: at_end_def)
qed

section \<open>Walking back\<close>

text \<open>What \<^verbatim>\<open>backward\<close> holds once the walk has come back to the point \<open>(x, y)\<close>.\<close>

definition walked :: "bytes list \<Rightarrow> bytes list \<Rightarrow> int \<Rightarrow> int \<Rightarrow> diff_op list \<Rightarrow> bool" where
  "walked a b x y backward \<longleftrightarrow> 0 \<le> x \<and> x \<le> int (length a) \<and> 0 \<le> y \<and> y \<le> int (length b)
     \<and> is_script (rev backward) (drop (nat x) a) (drop (nat y) b)"

lemma drop_pred: "0 < x \<Longrightarrow> x \<le> int (length a) \<Longrightarrow> drop (nat (x - 1)) a = a ! nat (x - 1) # drop (nat x) a"
proof -
  assume "0 < x" "x \<le> int (length a)"
  then have "nat (x - 1) < length a" "Suc (nat (x - 1)) = nat x" by simp_all
  then show ?thesis by (metis Cons_nth_drop_Suc)
qed

lemma line_at_pred: "0 < x \<Longrightarrow> x \<le> int (length a) \<Longrightarrow> line_at a (x - 1) = Some (a ! nat (x - 1))"
  by (simp add: line_at_def)

lemma walked_keep:
  "walked a b x y backward \<Longrightarrow> 0 < x \<Longrightarrow> 0 < y \<Longrightarrow> a ! nat (x - 1) = b ! nat (y - 1)
     \<Longrightarrow> walked a b (x - 1) (y - 1) (backward @ [Diff_Op CHR '' '' (a ! nat (x - 1))])"
  by (simp add: walked_def script_Cons drop_pred)

lemma walked_delete:
  "walked a b x y backward \<Longrightarrow> 0 < x \<Longrightarrow> walked a b (x - 1) y (backward @ [Diff_Op CHR ''-'' (a ! nat (x - 1))])"
  by (simp add: walked_def script_Cons drop_pred)

lemma walked_insert:
  "walked a b x y backward \<Longrightarrow> 0 < y \<Longrightarrow> walked a b x (y - 1) (backward @ [Diff_Op CHR ''+'' (b ! nat (y - 1))])"
  by (simp add: walked_def script_Cons drop_pred)

lemma undo_snake_walks:
  assumes "walked a b x (x - k) backward" "s \<le> x" "\<And>i. s \<le> i \<Longrightarrow> i < x \<Longrightarrow> line_match a b k i"
    and "0 \<le> s" "k \<le> s" "px \<le> s" "py \<le> s - k" "px = s \<or> py = s - k"
  shows "\<exists>backward'. undo_snake a px py x (x - k) backward = Some (s, s - k, backward')
    \<and> walked a b s (s - k) backward' \<and> change_count backward' = change_count backward"
  using assms(1-3)
proof (induction "nat (x - s)" arbitrary: x backward)
  case 0
  then have "x = s" by simp
  then show ?case using 0(2) assms(8) by (subst undo_snake.simps) auto
next
  case (Suc n)
  then have less: "s < x" by simp
  then have m: "line_match a b k (x - 1)" using Suc.prems(3) [of "x - 1"] by simp
  have e: "x - k - 1 = x - 1 - k" by simp
  let ?backward = "backward @ [Diff_Op CHR '' '' (a ! nat (x - 1))]"
  have "walked a b (x - 1) (x - k - 1) ?backward"
    by (rule walked_keep) (use Suc.prems(1) less assms(4,5) m in \<open>auto simp: line_match_def e\<close>)
  then have w: "walked a b (x - 1) (x - 1 - k) ?backward" unfolding e .
  have "undo_snake a px py x (x - k) backward = undo_snake a px py (x - 1) (x - 1 - k) ?backward"
    using less assms(4-7) Suc.prems(1)
    by (subst undo_snake.simps) (simp add: line_at_pred walked_def e)
  moreover have "\<exists>backward'. undo_snake a px py (x - 1) (x - 1 - k) ?backward = Some (s, s - k, backward')
    \<and> walked a b s (s - k) backward' \<and> change_count backward' = change_count ?backward"
    by (rule Suc.hyps(1)) (use Suc.hyps(2) Suc.prems(3) less w in auto)
  ultimately show ?case by simp
qed

lemma undo_rest_0 [simp]: "undo_rest c a 0 backward = Some backward"
  by (simp add: undo_rest.simps)

text \<open>The point the walk stands on before it undoes the \<open>d\<close>-th change lies on the frontier.\<close>

lemma undo_edits_walks:
  assumes "\<forall>i < d. frontier_ok a b i (trace ! i)" "on_diag d k" "x = reach a b d k" "walked a b x (x - k) backward"
  shows "\<exists>ops. undo_edits a b trace d x (x - k) backward = Some ops \<and> is_script ops a b
    \<and> change_count ops = d + change_count backward"
  using assms
proof (induction d arbitrary: k x backward)
  case 0
  then have k: "k = 0" and x: "x = slide a b 0 0" by simp_all
  obtain backward' where w: "undo_snake a 0 0 x (x - k) backward = Some (0, 0, backward')"
    "walked a b 0 0 backward'" "change_count backward' = change_count backward"
    using undo_snake_walks [of a b x k backward 0 0 0] 0(4) slide_matches [of 0 _ a b 0] slide_ge [of 0 a b 0] k x
    by auto
  have "change_count (rev backward') = change_count backward'"
    by (simp add: change_count_def rev_filter [symmetric])
  then show ?case using w by (simp add: walked_def)
next
  case (Suc d)
  let ?prev = "trace ! d"
  have f: "frontier_ok a b d ?prev" using Suc.prems(1) by simp
  have fs: "\<forall>i < d. frontier_ok a b i (trace ! i)" using Suc.prems(1) by simp
  note k = Suc.prems(2) and x = Suc.prems(3) and w = Suc.prems(4)
  show ?case
  proof (cases "edge_down ?prev (int (Suc d)) k")
    case True
    have kd: "k \<noteq> int (Suc d)" using True by (auto simp: edge_down_def)
    note diag = on_diag_down [OF k kd]
    define px where "px = reach a b d (k + 1)"
    have get: "go_get ?prev (k + 1) = px" using f diag by (simp add: frontier_ok_def px_def)
    have sx: "x = slide a b k px"
      using True x edge_down_step [OF f k] by (simp add: px_def)
    have bounds: "0 \<le> px" "k + 1 \<le> px" using reach_bounds [OF diag, of a b] by (simp_all add: px_def)
    obtain backward' where u: "undo_snake a px (px - (k + 1)) x (x - k) backward = Some (px, px - k, backward')"
      "walked a b px (px - k) backward'" "change_count backward' = change_count backward"
      using undo_snake_walks [OF w, of px px "px - (k + 1)"] slide_matches [of px _ a b k] slide_ge [of px a b k] bounds sx
      by auto
    let ?backward = "backward' @ [Diff_Op CHR ''+'' (b ! nat (px - k - 1))]"
    have at: "line_at b (px - k - 1) = Some (b ! nat (px - k - 1))"
      using line_at_pred [of "px - k" b] u(2) bounds by (simp add: walked_def)
    have e: "px - k - 1 = px - (k + 1)" by simp
    have "walked a b px (px - k - 1) ?backward" using walked_insert [OF u(2)] bounds by simp
    from Suc.IH [OF fs diag px_def, of ?backward] this
    obtain ops where "undo_edits a b trace d px (px - k - 1) ?backward = Some ops" "is_script ops a b"
      "change_count ops = d + change_count ?backward" unfolding e by blast
    then show ?thesis using True u at by (simp add: Let_def get)
  next
    case False
    have kd: "k \<noteq> - int (Suc d)" using False by (auto simp: edge_down_def)
    note diag = on_diag_right [OF k kd]
    define px where "px = reach a b d (k - 1)"
    have get: "go_get ?prev (k - 1) = px" using f diag by (simp add: frontier_ok_def px_def)
    have sx: "x = slide a b k (px + 1)"
      using False x edge_down_step [OF f k] by (auto simp add: px_def)
    have bounds: "0 \<le> px" "k - 1 \<le> px" using reach_bounds [OF diag, of a b] by (simp_all add: px_def)
    obtain backward' where u: "undo_snake a px (px - (k - 1)) x (x - k) backward = Some (px + 1, px + 1 - k, backward')"
      "walked a b (px + 1) (px + 1 - k) backward'" "change_count backward' = change_count backward"
      using undo_snake_walks [OF w, of "px + 1" px "px - (k - 1)"] slide_matches [of "px + 1" _ a b k]
        slide_ge [of "px + 1" a b k] bounds sx
      by auto
    let ?backward = "backward' @ [Diff_Op CHR ''-'' (a ! nat px)]"
    have at: "line_at a px = Some (a ! nat px)"
      using line_at_pred [of "px + 1" a] u(2) bounds by (simp add: walked_def)
    have e: "px + 1 - k = px - (k - 1)" by simp
    have "walked a b px (px + 1 - k) ?backward" using walked_delete [OF u(2)] bounds by simp
    from Suc.IH [OF fs diag px_def, of ?backward] this
    obtain ops where "undo_edits a b trace d px (px + 1 - k) ?backward = Some ops" "is_script ops a b"
      "change_count ops = d + change_count ?backward" unfolding e by blast
    then show ?thesis using False u at by (simp add: Let_def get)
  qed
qed

text \<open>The search from a row on: the trace holds the frontiers of the rows before it.\<close>

lemma diff_search_answers:
  assumes "before_ok a b d v" "length trace = d" "\<forall>i < d. frontier_ok a b i (trace ! i)"
    and "\<And>d' k. d' < d \<Longrightarrow> on_diag d' k \<Longrightarrow> \<not> at_end a b d' k"
  shows "\<exists>ops D. diff_search a b (int d) v trace = Some ops \<and> is_script ops a b \<and> change_count ops = D
    \<and> (\<forall>d' < D. \<forall>k. on_diag d' k \<longrightarrow> \<not> at_end a b d' k)"
  using assms
proof (induction "length a + length b + 1 - d" arbitrary: d v trace rule: less_induct)
  case less
  note last = last_row_ends [of a b]
  have in_time: "d \<le> length a + length b"
    using less.prems(4) last by (meson not_le_imp_less)
  from less.prems(1) show ?case
  proof (cases rule: diff_row_all)
    case (found cur k)
    note e = first_end [OF found(2,3) less.prems(4)]
    have l: "int (length a) - k = int (length b)" using e(2) by simp
    have "\<exists>ops. undo_edits a b (trace @ [cur]) d (int (length a)) (int (length a) - k) [] = Some ops
      \<and> is_script ops a b \<and> change_count ops = d + change_count []"
      by (rule undo_edits_walks [OF _ found(2)])
        (use less.prems(2,3) e(1) l in \<open>simp_all add: nth_append walked_def\<close>)
    then show ?thesis
      using found(1) in_time less.prems(2,4) l by (subst diff_search.simps) (auto simp: backtrack_diff_def)
  next
    case (go_on cur)
    have s: "diff_search a b (int d) v trace = diff_search a b (int (Suc d)) cur (trace @ [cur])"
      using go_on(1) in_time by (subst diff_search.simps) (simp add: add.commute)
    show ?thesis unfolding s
    proof (rule less.hyps)
      show "length a + length b + 1 - Suc d < length a + length b + 1 - d" using in_time by simp
    qed (use less.prems go_on in \<open>auto simp: before_ok_def nth_append less_Suc_eq\<close>)
  qed
qed

lemma line_diff_answers:
  "\<exists>ops D. line_diff a b = Some ops \<and> is_script ops a b \<and> change_count ops = D
     \<and> (\<forall>d' < D. \<forall>k. on_diag d' k \<longrightarrow> \<not> at_end a b d' k)"
  using diff_search_answers [of a b 0 "[(1, 0)]" "[]"] by (simp add: line_diff_def before_ok_def go_get_def)

text \<open>No script is ahead of the frontier.\<close>

lemma script_behind_frontier:
  "is_script ops (take x a) (take y b) \<Longrightarrow> x \<le> length a \<Longrightarrow> y \<le> length b \<Longrightarrow>
     on_diag (change_count ops) (int x - int y) \<and> int x \<le> reach a b (change_count ops) (int x - int y)"
proof (induction ops arbitrary: x y rule: rev_induct)
  case Nil
  then have "x = 0" "y = 0" by auto
  then show ?case using slide_ge [of 0 a b 0] by simp
next
  case (snoc p ops)
  obtain c l where p: "p = Diff_Op c l" by (cases p)
  have take_snoc: "\<exists>x'. x = Suc x' \<and> x' < length a' \<and> a' ! x' = l \<and> r = take x' a'"
    if t: "take x a' = r @ [l]" "x \<le> length a'" for x r and a' :: "bytes list"
  proof -
    have "length (take x a') = Suc (length r)" using t by simp
    then obtain x' where "x = Suc x'" "x' < length a'" using t(2) by (cases x) auto
    then show ?thesis using t(1) by (simp add: take_Suc_conv_app_nth)
  qed
  from snoc.prems(1) consider
    (keep) r t where "c = CHR '' ''" "take x a = r @ [l]" "take y b = t @ [l]" "is_script ops r t"
    | (delete) r where "c = CHR ''-''" "take x a = r @ [l]" "is_script ops r (take y b)"
    | (insert) t where "c = CHR ''+''" "take y b = t @ [l]" "is_script ops (take x a) t"
    unfolding p script_snoc by auto
  then show ?case
  proof cases
    case keep
    obtain x' where x': "x = Suc x'" "x' < length a" "a ! x' = l" "r = take x' a"
      using take_snoc [OF keep(2) snoc.prems(2)] by blast
    obtain y' where y': "y = Suc y'" "y' < length b" "b ! y' = l" "t = take y' b"
      using take_snoc [OF keep(3) snoc.prems(3)] by blast
    define k where "k = int x' - int y'"
    have ih: "on_diag (change_count ops) k" "int x' \<le> reach a b (change_count ops) k"
      using snoc.IH [of x' y'] keep(4) x' y' by (simp_all add: k_def)
    have "line_match a b k (int x')" using x' y' by (simp add: line_match_def k_def)
    moreover have "\<not> line_match a b k (reach a b (change_count ops) k)"
      by (cases "change_count ops") (simp_all only: reach.simps slide_stops not_False_eq_True)
    ultimately have "reach a b (change_count ops) k \<noteq> int x'" by metis
    then show ?thesis using ih keep(1) x'(1) y'(1) by (simp add: p k_def)
  next
    case delete
    obtain x' where x': "x = Suc x'" "x' < length a" "r = take x' a"
      using take_snoc [OF delete(2) snoc.prems(2)] by blast
    have ih: "on_diag (change_count ops) (int x' - int y)" "int x' \<le> reach a b (change_count ops) (int x' - int y)"
      using snoc.IH [of x' y] delete(3) x' snoc.prems(3) by simp_all
    have e: "int x - int y = int x' - int y + 1" using x'(1) by simp
    show ?thesis unfolding e
      using reach_grows(2) [OF ih(1), of a b] on_diag_next [OF ih(1)] ih(2) delete(1) x'(1) by (simp add: p)
  next
    case insert
    obtain y' where y': "y = Suc y'" "y' < length b" "t = take y' b"
      using take_snoc [OF insert(2) snoc.prems(3)] by blast
    have ih: "on_diag (change_count ops) (int x - int y')" "int x \<le> reach a b (change_count ops) (int x - int y')"
      using snoc.IH [of x y'] insert(3) y' snoc.prems(2) by simp_all
    have e: "int x - int y = int x - int y' - 1" using y'(1) by simp
    show ?thesis unfolding e
      using reach_grows(1) [OF ih(1), of a b] on_diag_next [OF ih(1)] ih(2) insert(1) by (simp add: p)
  qed
qed

lemma script_reaches_end:
  assumes "is_script ops a b"
  shows "on_diag (change_count ops) (int (length a) - int (length b)) \<and> at_end a b (change_count ops) (int (length a) - int (length b))"
  using script_behind_frontier [of ops "length a" a "length b" b] assms by (simp add: at_end_def)

definition fewest_changes :: "bytes list \<Rightarrow> bytes list \<Rightarrow> nat \<Rightarrow> bool" where
  "fewest_changes a b n \<longleftrightarrow> (\<exists>ops. is_script ops a b \<and> change_count ops = n)
     \<and> (\<forall>ops. is_script ops a b \<longrightarrow> n \<le> change_count ops)"

lemma line_diff_fewest:
  obtains ops where "line_diff a b = Some ops" "is_script ops a b" "fewest_changes a b (change_count ops)"
proof -
  obtain ops D where ops: "line_diff a b = Some ops" "is_script ops a b" "change_count ops = D"
    and first: "\<forall>d' < D. \<forall>k. on_diag d' k \<longrightarrow> \<not> at_end a b d' k"
    using line_diff_answers [of a b] by blast
  have "D \<le> change_count ops'" if "is_script ops' a b" for ops'
    using script_reaches_end [OF that] first by (meson not_le_imp_less)
  then show thesis using that [OF ops(1)] ops(2,3) by (auto simp: fewest_changes_def)
qed

text \<open>C21: the line diff always ends, without an index out of range, with a script from the old lines to the
  new ones, and every other script from the old lines to the new ones changes at least as many lines.\<close>

theorem line_diff_is_shortest:
  "\<exists>ops. line_diff a b = Some ops \<and> is_script ops a b \<and> fewest_changes a b (change_count ops)"
  by (rule line_diff_fewest [of a b]) blast

lemma line_diff_example:
  "line_diff [''a'', ''b'', ''c''] [''a'', ''c'', ''d''] =
     Some [Diff_Op CHR '' '' ''a'', Diff_Op CHR ''-'' ''b'', Diff_Op CHR '' '' ''c'', Diff_Op CHR ''+'' ''d'']"
  by code_simp

end
