(* ===== verification/Unified_Diff.thy ===== *)
theory Unified_Diff
  imports Line_Diff Text_Lines
begin

text \<open>
  The unified diff of two texts (\<^verbatim>\<open>UnifiedDiff\<close>, \<^verbatim>\<open>renderDiff\<close>, \<^verbatim>\<open>contextualDiffHunks\<close>, \<^verbatim>\<open>splitLines\<close>,
  \<^verbatim>\<open>CountChangedLines\<close> of \<^verbatim>\<open>internal/edit/diff.go\<close>). \<^const>\<open>None\<close> is the run-time error of the line diff,
  which never occurs. The hunks hold every change with its context, in order and apart from each other.
\<close>

section \<open>Hunks\<close>

record diff_hunk =
  hunk_start :: nat
  hunk_end :: nat

definition is_change :: "diff_op \<Rightarrow> bool" where
  "is_change p \<longleftrightarrow> op_kind p = CHR ''+'' \<or> op_kind p = CHR ''-''"

text \<open>One turn of the loop: the index is that of a change among \<open>n\<close> operations.\<close>

definition add_hunk :: "nat \<Rightarrow> nat \<Rightarrow> nat \<Rightarrow> diff_hunk list \<Rightarrow> diff_hunk list" where
  "add_hunk n ctx i hunks =
     (let s = (if i < ctx then 0 else i - ctx); e = (if n \<le> i + ctx then n - 1 else i + ctx) in
      if hunks \<noteq> [] \<and> s \<le> hunk_end (last hunks) + 1
      then (if hunk_end (last hunks) < e then butlast hunks @ [(last hunks)\<lparr>hunk_end := e\<rparr>] else hunks)
      else hunks @ [\<lparr>hunk_start = s, hunk_end = e\<rparr>])"

definition contextual_diff_hunks :: "diff_op list \<Rightarrow> nat \<Rightarrow> diff_hunk list" where
  "contextual_diff_hunks ops ctx =
     foldl (\<lambda>hunks i. if is_change (ops ! i) then add_hunk (length ops) ctx i hunks else hunks) [] [0..<length ops]"

definition context_lines :: nat where "context_lines = 3"

section \<open>Rendering\<close>

text \<open>The numbers of the old and the new line before each operation.\<close>

fun lines_before :: "diff_op list \<Rightarrow> int \<Rightarrow> int \<Rightarrow> (int \<times> int) list" where
  "lines_before [] old new = []"
| "lines_before (p # ops) old new =
     (old, new) #
     (if op_kind p = CHR '' '' then lines_before ops (old + 1) (new + 1)
      else if op_kind p = CHR ''-'' then lines_before ops (old + 1) new
      else if op_kind p = CHR ''+'' then lines_before ops old (new + 1)
      else lines_before ops old new)"

definition hunk_start_line :: "int \<Rightarrow> nat \<Rightarrow> int" where
  "hunk_start_line n count = (if count = 0 then (if n - 1 < 0 then 0 else n - 1) else n)"

definition render_hunk :: "diff_op list \<Rightarrow> diff_hunk \<Rightarrow> bytes" where
  "render_hunk ops h =
     (let (old, new) = lines_before ops 1 1 ! hunk_start h;
          body = slice (hunk_start h) (hunk_end h + 1) ops;
          old_count = length (filter (\<lambda>p. op_kind p = CHR '' '' \<or> op_kind p = CHR ''-'') body);
          new_count = length (filter (\<lambda>p. op_kind p = CHR '' '' \<or> op_kind p = CHR ''+'') body)
      in ''@@ -'' @ show_int (hunk_start_line old old_count) @ '','' @ show_nat old_count
         @ '' +'' @ show_int (hunk_start_line new new_count) @ '','' @ show_nat new_count @ '' @@'' @ [lf]
         @ concat (map (\<lambda>p. op_kind p # op_line p @ [lf]) body))"

definition render_diff :: "bytes \<Rightarrow> diff_op list \<Rightarrow> bytes \<times> nat" where
  "render_diff path ops =
     (if change_count ops = 0 then ([], 0)
      else (''--- a/'' @ path @ [lf] @ ''+++ b/'' @ path @ [lf]
            @ concat (map (render_hunk ops) (contextual_diff_hunks ops context_lines)), change_count ops))"

definition no_final_newline :: bytes where
  "no_final_newline = CHR 0x5C # '' No newline at end of file'' @ [lf]"

definition split_lines :: "bytes \<Rightarrow> bytes list" where
  "split_lines s =
     (if s = [] then []
      else let parts = split_on lf (normalize_newlines s) in
           if last parts = [] then butlast parts else parts)"

definition has_final_newline :: "bytes \<Rightarrow> bool" where
  "has_final_newline s \<longleftrightarrow> has_suffix s [lf]"

definition unified_diff :: "bytes \<Rightarrow> bytes \<Rightarrow> bytes \<Rightarrow> (bytes \<times> nat) option" where
  "unified_diff path old_text new_text =
     (let old = normalize_newlines old_text; new = normalize_newlines new_text;
          a = split_lines old; b = split_lines new in
      if a = b then
        (if has_final_newline old = has_final_newline new then Some ([], 0)
         else if a = [] then Some ([], 0)
         else let ops = map (Diff_Op CHR '' '') (butlast a) @ [Diff_Op CHR ''-'' (last a), Diff_Op CHR ''+'' (last b)];
                  (diff, changed) = render_diff path ops
              in Some (diff @ no_final_newline, changed))
      else
        (case line_diff a b of
           None \<Rightarrow> None
         | Some ops \<Rightarrow>
             let (diff, changed) = render_diff path ops in
             Some (if has_final_newline old = has_final_newline new then diff else diff @ no_final_newline, changed)))"

definition count_changed_lines :: "bytes \<Rightarrow> nat" where
  "count_changed_lines diff =
     length (filter (\<lambda>l. l \<noteq> [] \<and> \<not> has_prefix l ''+++ '' \<and> \<not> has_prefix l ''--- '' \<and> \<not> has_prefix l ''@@''
       \<and> (has_prefix l ''+'' \<or> has_prefix l ''-'')) (split_on lf diff))"

section \<open>What the hunks hold\<close>

text \<open>Hunks in order, not adjacent, below \<open>n\<close>.\<close>

fun hunks_apart :: "nat \<Rightarrow> diff_hunk list \<Rightarrow> bool" where
  "hunks_apart n [] \<longleftrightarrow> True"
| "hunks_apart n [h] \<longleftrightarrow> hunk_start h \<le> hunk_end h \<and> hunk_end h < n"
| "hunks_apart n (h # h' # hs) \<longleftrightarrow>
     hunk_start h \<le> hunk_end h \<and> hunk_end h + 1 < hunk_start h' \<and> hunks_apart n (h' # hs)"

definition in_hunks :: "nat \<Rightarrow> diff_hunk list \<Rightarrow> bool" where
  "in_hunks i hunks \<longleftrightarrow> list_ex (\<lambda>h. hunk_start h \<le> i \<and> i \<le> hunk_end h) hunks"

lemma in_hunks_append [simp]: "in_hunks i (hs @ hs') \<longleftrightarrow> in_hunks i hs \<or> in_hunks i hs'"
  by (simp add: in_hunks_def)

lemma hunks_apart_snoc:
  "hunks_apart n (hs @ [h]) \<longleftrightarrow> hunks_apart n hs \<and> hunk_start h \<le> hunk_end h \<and> hunk_end h < n
     \<and> (hs \<noteq> [] \<longrightarrow> hunk_end (last hs) + 1 < hunk_start h)"
proof (induction n hs rule: hunks_apart.induct)
  case (2 n h0)
  then show ?case by auto
qed auto

text \<open>What holds after the loop has looked at the operations below \<open>i\<close>: the hunks are apart, hold exactly the
  lines at most \<open>ctx\<close> away from a change, and the last one ends no further than \<open>ctx\<close> after the last change.\<close>

definition near_change :: "diff_op list \<Rightarrow> nat \<Rightarrow> nat \<Rightarrow> nat \<Rightarrow> bool" where
  "near_change ops ctx i k \<longleftrightarrow> k < length ops \<and> (\<exists>j < i. is_change (ops ! j) \<and> j \<le> k + ctx \<and> k \<le> j + ctx)"

definition hunks_ok :: "diff_op list \<Rightarrow> nat \<Rightarrow> nat \<Rightarrow> diff_hunk list \<Rightarrow> bool" where
  "hunks_ok ops ctx i hunks \<longleftrightarrow> hunks_apart (length ops) hunks
     \<and> (\<forall>k. in_hunks k hunks \<longleftrightarrow> near_change ops ctx i k)
     \<and> (hunks \<noteq> [] \<longrightarrow> (\<exists>j < i. hunk_start (last hunks) \<le> j \<and> hunk_end (last hunks) = min (j + ctx) (length ops - 1)))"

lemma near_change_Suc:
  "near_change ops ctx (Suc i) k \<longleftrightarrow> near_change ops ctx i k
     \<or> (k < length ops \<and> is_change (ops ! i) \<and> i \<le> k + ctx \<and> k \<le> i + ctx)"
  by (auto simp: near_change_def less_Suc_eq)

lemma hunks_ok_skip: "hunks_ok ops ctx i hunks \<Longrightarrow> \<not> is_change (ops ! i) \<Longrightarrow> hunks_ok ops ctx (Suc i) hunks"
  by (auto simp: hunks_ok_def near_change_Suc less_Suc_eq)

lemma hunks_ok_add:
  assumes ok: "hunks_ok ops ctx i hunks" and i: "i < length ops" "is_change (ops ! i)"
  shows "hunks_ok ops ctx (Suc i) (add_hunk (length ops) ctx i hunks)"
proof -
  define s where "s = i - ctx"
  define e where "e = min (i + ctx) (length ops - 1)"
  have se: "s \<le> i" "i \<le> e" "e < length ops" using i by (auto simp: s_def e_def)
  have add: "add_hunk (length ops) ctx i hunks =
    (if hunks \<noteq> [] \<and> s \<le> hunk_end (last hunks) + 1
     then (if hunk_end (last hunks) < e then butlast hunks @ [(last hunks)\<lparr>hunk_end := e\<rparr>] else hunks)
     else hunks @ [\<lparr>hunk_start = s, hunk_end = e\<rparr>])"
    using i by (auto simp: add_hunk_def Let_def s_def e_def min_def)
  have near: "near_change ops ctx (Suc i) k \<longleftrightarrow> near_change ops ctx i k \<or> (s \<le> k \<and> k \<le> e)" for k
    using i by (auto simp: near_change_Suc s_def e_def)
  show ?thesis
  proof (cases "hunks = []")
    case True
    then have "hunks_ok ops ctx (Suc i) [\<lparr>hunk_start = s, hunk_end = e\<rparr>]"
      using ok se by (auto simp: hunks_ok_def near in_hunks_def e_def)
    then show ?thesis unfolding add using True by simp
  next
    case False
    then obtain hs h where h: "hunks = hs @ [h]" by (cases hunks rule: rev_cases) auto
    obtain j where j: "j < i" "hunk_start h \<le> j" "hunk_end h = min (j + ctx) (length ops - 1)"
      using ok h by (auto simp: hunks_ok_def)
    have apart: "hunks_apart (length ops) (hs @ [h])" and
      members: "\<And>k. in_hunks k (hs @ [h]) \<longleftrightarrow> near_change ops ctx i k"
      using ok by (simp_all add: hunks_ok_def h)
    have he: "hunk_end h \<le> e" using j by (simp add: e_def)
    show ?thesis
    proof (cases "s \<le> hunk_end h + 1")
      case True
      have "hunks_apart (length ops) (hs @ [h\<lparr>hunk_end := e\<rparr>])"
        using apart se he by (auto simp: hunks_apart_snoc)
      moreover have "in_hunks k (hs @ [h\<lparr>hunk_end := e\<rparr>]) \<longleftrightarrow> near_change ops ctx (Suc i) k" for k
      proof -
        have "hunk_start h \<le> k" if "s \<le> k" "k \<le> e" "\<not> in_hunks k (hs @ [h])"
        proof (rule ccontr)
          assume k: "\<not> hunk_start h \<le> k"
          then have "i \<le> k + ctx" using that(1) by (simp add: s_def)
          have "near_change ops ctx i (hunk_start h)"
            using members [of "hunk_start h"] apart by (simp add: in_hunks_def hunks_apart_snoc)
          then obtain j' where j': "j' < i" "is_change (ops ! j')" "j' \<le> hunk_start h + ctx" "hunk_start h \<le> j' + ctx"
            by (auto simp: near_change_def)
          then have "j' \<le> k + ctx" using \<open>i \<le> k + ctx\<close> by simp
          moreover have "k \<le> j' + ctx" using k j'(4) by simp
          moreover have "k < length ops" using \<open>k \<le> e\<close> se by simp
          ultimately have "near_change ops ctx i k" using j' by (auto simp: near_change_def)
          then show False using members [of k] that(3) by simp
        qed
        then show ?thesis using members [of k] True he unfolding near
          by (auto simp: in_hunks_def)
      qed
      moreover have "\<exists>j < Suc i. hunk_start h \<le> j \<and> e = min (j + ctx) (length ops - 1)"
        using j by (intro exI [of _ i]) (simp add: e_def)
      ultimately have ok': "hunks_ok ops ctx (Suc i) (hs @ [h\<lparr>hunk_end := e\<rparr>])"
        by (simp add: hunks_ok_def)
      show ?thesis
      proof (cases "hunk_end h < e")
        case False
        then have "h\<lparr>hunk_end := e\<rparr> = h" using he by simp
        then show ?thesis unfolding add using ok' h False True by simp
      next
        case less: True
        then show ?thesis unfolding add using ok' h True by simp
      qed
    next
      case far: False
      have "hunks_apart (length ops) (hunks @ [\<lparr>hunk_start = s, hunk_end = e\<rparr>])"
        using apart se far unfolding h by (simp only: hunks_apart_snoc [of _ "hs @ [h]"]) simp
      then have "hunks_ok ops ctx (Suc i) (hunks @ [\<lparr>hunk_start = s, hunk_end = e\<rparr>])"
        using members se by (auto simp: hunks_ok_def near h in_hunks_def e_def)
      then show ?thesis unfolding add using far False h by simp
    qed
  qed
qed

lemma hunks_ok_fold:
  "i \<le> length ops \<Longrightarrow> hunks_ok ops ctx i
     (foldl (\<lambda>hunks i. if is_change (ops ! i) then add_hunk (length ops) ctx i hunks else hunks) [] [0..<i])"
proof (induction i)
  case 0
  then show ?case by (simp add: hunks_ok_def in_hunks_def near_change_def)
next
  case (Suc i)
  then show ?case by (simp add: hunks_ok_add hunks_ok_skip)
qed

text \<open>The hunks of a diff are in order, do not touch each other, and hold exactly the lines that are at
  most the context away from a change.\<close>

theorem hunks_hold_the_changes:
  "hunks_apart (length ops) (contextual_diff_hunks ops ctx)
     \<and> (\<forall>k. in_hunks k (contextual_diff_hunks ops ctx) \<longleftrightarrow>
          k < length ops \<and> (\<exists>j < length ops. is_change (ops ! j) \<and> j \<le> k + ctx \<and> k \<le> j + ctx))"
  using hunks_ok_fold [of "length ops" ops ctx]
  by (simp add: contextual_diff_hunks_def hunks_ok_def near_change_def)

section \<open>What the diff counts\<close>

lemma has_suffix_lf: "has_suffix s [lf] \<longleftrightarrow> s \<noteq> [] \<and> last s = lf"
proof
  assume "has_suffix s [lf]"
  then show "s \<noteq> [] \<and> last s = lf" by (auto simp: has_suffix_iff)
next
  assume "s \<noteq> [] \<and> last s = lf"
  then show "has_suffix s [lf]" unfolding has_suffix_iff by (metis append_butlast_last_id)
qed

lemma split_on_last: "s \<noteq> [] \<Longrightarrow> last (split_on c s) = [] \<longleftrightarrow> last s = c"
proof (induction s)
  case (Cons d s)
  obtain l ls where sp: "split_on c s = l # ls" by (rule split_on_cases)
  show ?case
  proof (cases "s = []")
    case False
    then have "\<not> (l = [] \<and> ls = [])" using sp join_split [of c s] by auto
    then show ?thesis using False Cons.IH sp by auto
  qed auto
qed simp

lemma join_snoc: "ls \<noteq> [] \<Longrightarrow> join (ls @ [l]) sep = join ls sep @ sep @ l"
proof (induction ls)
  case (Cons k ls)
  then show ?case by (cases ls) (simp_all add: join_Cons)
qed simp

lemma logical_Nil [simp]: "logical s = [] \<longleftrightarrow> s = []"
  by (cases s) (auto split: list.splits)

text \<open>The lines and the final line feed make up the text.\<close>

lemma lines_make_text:
  "logical s = join (split_lines s) [lf] @ (if has_final_newline (logical s) then [lf] else [])"
proof (cases "s = []")
  case True
  then show ?thesis by (simp add: split_lines_def has_final_newline_def has_suffix_lf)
next
  case False
  let ?l = "logical s" and ?p = "split_on lf (logical s)"
  have ne: "?l \<noteq> []" using False by simp
  have f: "has_final_newline ?l \<longleftrightarrow> last ?p = []"
    using split_on_last [OF ne] ne by (simp add: has_final_newline_def has_suffix_lf)
  show ?thesis
  proof (cases "last ?p = []")
    case True
    have p: "?p = butlast ?p @ [[]]" using append_butlast_last_id [of ?p] True by simp
    have "butlast ?p \<noteq> []"
    proof
      assume "butlast ?p = []"
      then have "join ?p [lf] = []" using p by (metis append_Nil join.simps(2))
      then show False using ne by (simp add: join_split)
    qed
    then have "join ?p [lf] = join (butlast ?p) [lf] @ [lf]" using join_snoc [of "butlast ?p" "[]" "[lf]"] p by simp
    then show ?thesis using False True f by (simp add: split_lines_def Let_def normalize_logical join_split)
  next
    case l: False
    then show ?thesis using False f by (simp add: split_lines_def Let_def normalize_logical join_split)
  qed
qed

lemma split_lines_logical: "split_lines (logical s) = split_lines s"
  by (simp add: split_lines_def normalize_logical logical_same logical_no_cr)

lemma all_changed_script: "is_script (map (Diff_Op CHR ''-'') a @ map (Diff_Op CHR ''+'') b) a b"
proof (induction a)
  case Nil
  show ?case by (induction b) (auto simp: script_Cons)
qed (simp add: script_Cons)

lemma all_changed_count: "change_count (map (Diff_Op CHR ''-'') a @ map (Diff_Op CHR ''+'') b) = length a + length b"
proof (induction a)
  case Nil
  show ?case by (induction b) simp_all
qed simp

lemma unchanged_script: "is_script ops a b \<Longrightarrow> change_count ops = 0 \<Longrightarrow> a = b"
proof (induction ops arbitrary: a b)
  case (Cons p ops)
  then show ?case by (cases p) (auto simp: script_Cons split: if_splits)
qed simp

lemma fewest_bound: "fewest_changes a b n \<Longrightarrow> n \<le> length a + length b"
  using all_changed_script [of a b] all_changed_count [of a b] by (auto simp: fewest_changes_def)

lemma snd_render_diff: "snd (render_diff path ops) = change_count ops"
  by (simp add: render_diff_def)

lemma change_count_kept: "change_count (map (Diff_Op CHR '' '') ls) = 0"
  by (induction ls) simp_all

lemma unified_diff_answers:
  obtains (same) "logical old = logical new" "unified_diff path old new = Some ([], 0)"
  | (ending) diff where "logical old \<noteq> logical new" "split_lines old = split_lines new"
      "unified_diff path old new = Some (diff, 2)"
  | (lines) diff n where "split_lines old \<noteq> split_lines new" "fewest_changes (split_lines old) (split_lines new) n"
      "0 < n" "unified_diff path old new = Some (diff, n)"
proof (cases "split_lines old = split_lines new")
  case eq: True
  show thesis
  proof (cases "has_final_newline (logical old) = has_final_newline (logical new)")
    case True
    then have "logical old = logical new" using lines_make_text [of old] lines_make_text [of new] eq by simp
    then show thesis using same by (simp add: unified_diff_def normalize_logical)
  next
    case False
    then have d: "logical old \<noteq> logical new" by auto
    have "split_lines old \<noteq> []"
    proof
      assume "split_lines old = []"
      moreover have "logical s = [] \<or> logical s = [lf]" if "split_lines s = []" for s
        using lines_make_text [of s] that by (cases "has_final_newline (logical s)") simp_all
      ultimately have "logical old = [] \<or> logical old = [lf]" "logical new = [] \<or> logical new = [lf]"
        using eq by metis+
      then have "split_lines (logical old) \<noteq> [] \<or> split_lines (logical new) \<noteq> []"
        using d by (auto simp: split_lines_def Let_def normalize_logical)
      then show False using \<open>split_lines old = []\<close> eq by (simp add: split_lines_logical)
    qed
    define ops where "ops = map (Diff_Op CHR '' '') (butlast (split_lines new))
      @ [Diff_Op CHR ''-'' (last (split_lines new)), Diff_Op CHR ''+'' (last (split_lines new))]"
    obtain diff changed where r: "render_diff path ops = (diff, changed)" by fastforce
    then have "changed = 2"
      using snd_render_diff [of path ops] by (simp add: ops_def change_count_kept)
    then show thesis using ending [OF d eq] False eq r \<open>split_lines old \<noteq> []\<close>
      by (simp add: unified_diff_def Let_def normalize_logical split_lines_logical ops_def)
  qed
next
  case False
  obtain ops where ops: "line_diff (split_lines old) (split_lines new) = Some ops"
    "fewest_changes (split_lines old) (split_lines new) (change_count ops)" using line_diff_fewest by blast
  have "0 < change_count ops"
    using ops(2) unchanged_script False unfolding fewest_changes_def by (metis gr0I)
  then show thesis using lines [OF False ops(2)] ops(1) False
    by (cases "render_diff path ops")
      (use snd_render_diff [of path ops] in \<open>auto simp: unified_diff_def Let_def normalize_logical split_lines_logical\<close>)
qed

text \<open>C37: a unified diff is always made; it counts no change exactly when the texts are the same but for the
  kind of their line endings, and counts the fewest lines that have to be added and removed when the lines
  differ, never more than there are lines.\<close>

theorem unified_diff_counts:
  "\<exists>diff changed. unified_diff path old new = Some (diff, changed)
     \<and> (changed = 0 \<longleftrightarrow> normalize_newlines old = normalize_newlines new)
     \<and> changed \<le> length (split_lines old) + length (split_lines new) + 2
     \<and> (split_lines old = split_lines new \<or> fewest_changes (split_lines old) (split_lines new) changed)"
proof (cases rule: unified_diff_answers [of old new path])
  case lines
  then have "logical old \<noteq> logical new" using split_lines_logical by metis
  then show ?thesis using lines fewest_bound [OF lines(2)] by (simp add: normalize_logical)
next
  case same
  then have "split_lines old = split_lines new" using split_lines_logical by metis
  then show ?thesis using same by (simp add: normalize_logical)
qed (simp add: normalize_logical)

end
