(* ===== verification/Edit_Lines.thy ===== *)
theory Edit_Lines
  imports Edit_Text
begin

text \<open>
  Replacing a range of lines: the loop over byte offsets of \<^verbatim>\<open>applyLineRange\<close> does what a list of lines, each
  with its line feed, does. At the end what the text functions of the edit engine do to
  inputs at the border.
\<close>

section \<open>Lines with their line feed\<close>

fun line_chunks :: "bytes \<Rightarrow> bytes list" where
  "line_chunks [] = [[]]"
| "line_chunks (c # s) =
     (if c = lf then (if s = [] then [[c]] else [c] # line_chunks s)
      else (case line_chunks s of [] \<Rightarrow> [[c]] | k # ks \<Rightarrow> (c # k) # ks))"

text \<open>The text after the lines from the first to the last are exchanged, lines counted from 1. The new text
  gets a line feed when the last line had one, unless it is empty.\<close>

definition splice_lines :: "bytes \<Rightarrow> nat \<Rightarrow> nat \<Rightarrow> bytes \<Rightarrow> bytes" where
  "splice_lines text first last_line new =
     (let chunks = line_chunks text;
          new' = (if has_suffix (chunks ! (last_line - 1)) [lf] \<and> new \<noteq> [] \<and> \<not> has_suffix new [lf]
                  then new @ [lf] else new)
      in concat (take (first - 1) chunks) @ new' @ concat (drop last_line chunks))"

lemma line_chunks_nonempty [simp]: "line_chunks s \<noteq> []"
  by (cases s) (auto split: list.splits)

lemma concat_chunks: "concat (line_chunks s) = s"
proof (induction s)
  case (Cons c s)
  obtain k ks where "line_chunks s = k # ks" by (cases "line_chunks s") simp_all
  then show ?case using Cons by auto
qed simp

text \<open>The first line: up to its line feed, or the whole text.\<close>

lemma chunks_step:
  obtains (feed) l rest where "s = l @ lf # rest" "lf \<notin> set l" "index_sub [lf] s = Some (length l)"
      "line_chunks s = (l @ [lf]) # (if rest = [] then [] else line_chunks rest)"
  | (last_line) "lf \<notin> set s" "index_sub [lf] s = None" "line_chunks s = [s]"
proof (cases "lf \<in> set s")
  case True
  then obtain l rest where s: "s = l @ lf # rest" "lf \<notin> set l" by (meson split_list_first)
  have "index_sub [lf] (l @ lf # rest) = Some (length l)" using s(2)
    by (induction l) (auto simp: has_prefix_def)
  moreover have "line_chunks (l @ lf # rest) = (l @ [lf]) # (if rest = [] then [] else line_chunks rest)" using s(2)
    by (induction l) auto
  ultimately show thesis using feed s by simp
next
  case False
  have "index_sub [lf] s = None" using False by (induction s) (auto simp: has_prefix_def)
  moreover have "line_chunks s = [s]" using False by (induction s) auto
  ultimately show thesis using last_line False by simp
qed

lemma length_chunks: "length (line_chunks s) = line_count s"
proof (induction "length s" arbitrary: s rule: less_induct)
  case less
  show ?case
  proof (cases rule: chunks_step [of s])
    case (feed l rest)
    have "has_suffix s [lf] \<longleftrightarrow> rest = [] \<or> has_suffix rest [lf]"
      unfolding feed(1) by (cases rest rule: rev_cases) (auto simp: has_suffix_iff)
    moreover have "length (filter (\<lambda>d. d = lf) l) = 0" using feed(2) by (simp add: filter_empty_conv) fastforce
    ultimately show ?thesis
      using less [of rest] feed by (auto simp: line_count_def count_sub_char)
  next
    case last_line
    have "filter (\<lambda>d. d = lf) s = []" using last_line(1) by (simp add: filter_empty_conv) fastforce
    moreover have "\<not> has_suffix s [lf]" using last_line(1) by (auto simp: has_suffix_iff)
    ultimately show ?thesis using last_line by (simp add: line_count_def count_sub_char)
  qed
qed

section \<open>The loop\<close>

text \<open>Where the loop stands: before the line \<open>line\<close>, at the offset of its first byte.\<close>

lemma range_loop_answers:
  assumes "chunks = line_chunks (drop line_start text)" "line_start \<le> length text"
    and "line \<le> e" "e < line + int (length chunks)"
  shows "range_loop text s e line line_start so =
     Some (if line \<le> s \<and> s \<le> e then line_start + length (concat (take (nat (s - line)) chunks)) else so,
           line_start + length (concat (take (nat (e - line + 1)) chunks)),
           has_suffix (chunks ! nat (e - line)) [lf])"
  using assms
proof (induction "nat (e - line)" arbitrary: line line_start so chunks)
  case 0
  then have e: "e = line" by simp
  have step: "range_loop text s e line line_start so =
    (let rel = index_sub [lf] (drop line_start text);
         line_end = (case rel of None \<Rightarrow> length text | Some r \<Rightarrow> line_start + r)
     in Some (if line = s then line_start else so, if rel = None then line_end else line_end + 1, rel \<noteq> None))"
    using e 0(3) by (subst range_loop.simps) (simp add: Let_def)
  show ?case
  proof (cases rule: chunks_step [of "drop line_start text"])
    case (feed l rest)
    then show ?thesis using step e 0(2) by (auto simp: Let_def has_suffix_iff)
  next
    case last_line
    have "\<not> has_suffix (drop line_start text) [lf]" using last_line(1) by (auto simp: has_suffix_iff)
    then show ?thesis using step e 0(2,3) last_line by (auto simp: Let_def)
  qed
next
  case (Suc n)
  then have less: "line < e" by simp
  show ?case
  proof (cases rule: chunks_step [of "drop line_start text"])
    case (feed l rest)
    let ?next = "line_start + length l + 1"
    have rest: "drop ?next text = rest" "?next \<le> length text"
    proof -
      have "drop (length l + 1) (drop line_start text) = rest" by (simp add: feed(1))
      then show "drop ?next text = rest" by (simp add: add.commute add.left_commute)
      show "?next \<le> length text"
        using arg_cong [OF feed(1), of length] Suc.prems(2) by simp
    qed
    have ne: "rest \<noteq> []" using Suc.prems(1,4) feed(4) less by (cases "rest = []") simp_all
    have step: "range_loop text s e line line_start so =
      range_loop text s e (line + 1) ?next (if line = s then line_start else so)"
      using less Suc.prems(2) feed(3) by (subst range_loop.simps) (simp add: Let_def)
    let ?chunks = "line_chunks (drop ?next text)"
    have chunks: "chunks = (l @ [lf]) # ?chunks" using feed(4) ne rest Suc.prems(1) by simp
    have "n = nat (e - (line + 1))" "line + 1 \<le> e" "e < line + 1 + int (length ?chunks)"
      using Suc(2) less Suc.prems(4) chunks by simp_all
    from Suc.hyps(1) [OF this(1) refl rest(2) this(2,3), of "if line = s then line_start else so"]
    have ih: "range_loop text s e line line_start so =
       Some (if line + 1 \<le> s \<and> s \<le> e then ?next + length (concat (take (nat (s - (line + 1))) ?chunks))
             else if line = s then line_start else so,
             ?next + length (concat (take (nat (e - (line + 1) + 1)) ?chunks)),
             has_suffix (?chunks ! nat (e - (line + 1))) [lf])"
      by (simp only: step)
    have e1: "nat (e - line + 1) = Suc (nat (e - (line + 1) + 1))" "nat (e - line) = Suc (nat (e - (line + 1)))"
      using less by simp_all
    have s1: "nat (s - line) = Suc (nat (s - (line + 1)))" if "line + 1 \<le> s" using that by simp
    show ?thesis unfolding ih chunks e1 using less s1 by auto
  next
    case last_line
    then show ?thesis using Suc.prems(1,4) less by simp
  qed
qed

lemma take_concat_chunks: "take (length (concat (take n (line_chunks s)))) s = concat (take n (line_chunks s))"
  and drop_concat_chunks: "drop (length (concat (take n (line_chunks s)))) s = concat (drop n (line_chunks s))"
proof -
  have "s = concat (take n (line_chunks s)) @ concat (drop n (line_chunks s))"
    using concat_chunks [of s] by (metis append_take_drop_id concat_append)
  then show "take (length (concat (take n (line_chunks s)))) s = concat (take n (line_chunks s))"
    "drop (length (concat (take n (line_chunks s)))) s = concat (drop n (line_chunks s))"
    by (metis append_eq_conv_conj)+
qed

text \<open>C26: a range edit is refused when its bounds are not 1-based and in order or end after the last line;
  otherwise it exchanges exactly the lines of the range, and no slice is out of range.\<close>

theorem range_edit_is_splice:
  "apply_line_range text r path i =
     (if lr_start r < 1 \<or> lr_end r < lr_start r then Inl (edit_error INVALID_INPUT path i)
      else if int (length (line_chunks text)) < lr_end r then Inl (edit_error RANGE_OUT_OF_BOUNDS path i)
      else Inr (splice_lines text (nat (lr_start r)) (nat (lr_end r)) (strip_bom (normalize_newlines (lr_text r)))))"
proof (cases "lr_start r < 1 \<or> lr_end r < lr_start r \<or> int (length (line_chunks text)) < lr_end r")
  case False
  have e: "nat (lr_end r - 1) = nat (lr_end r) - 1" "nat (lr_start r - 1) = nat (lr_start r) - 1"
    by simp_all
  have "range_loop text (lr_start r) (lr_end r) 1 0 0 =
     Some (length (concat (take (nat (lr_start r) - 1) (line_chunks text))),
           length (concat (take (nat (lr_end r)) (line_chunks text))),
           has_suffix (line_chunks text ! (nat (lr_end r) - 1)) [lf])"
    using range_loop_answers [of "line_chunks text" 0 "text" 1 "lr_end r" "lr_start r" 0] False by (simp add: e)
  then show ?thesis
    using False by (simp add: apply_line_range_def length_chunks splice_lines_def Let_def
        take_concat_chunks drop_concat_chunks)
qed (auto simp: apply_line_range_def length_chunks)

section \<open>At the border\<close>

text \<open>A match that occurs at two overlapping places is counted once and accepted.\<close>

lemma overlapping_match_is_accepted:
  "apply_replacements ''aaa'' [\<lparr>rp_match = ''aa'', rp_text = ''b''\<rparr>] ''f'' = Inr ''ba''
     \<and> has_prefix (drop 1 ''aaa'') ''aa''"
  by code_simp

text \<open>Content and ranges are normalised, replacements are not: in a file with CRLF endings a replacement with a
  CRLF becomes CR CR LF, which is read as two lines.\<close>

lemma replacement_doubles_carriage_return:
  "let content = ''a'' @ [cr, lf] @ ''b'' @ [cr, lf]; new = ''x'' @ [cr, lf] @ ''y'' in
   (case normalize_to_logical content of
      Inr (text, f) \<Rightarrow>
        (case apply_replacements text [\<lparr>rp_match = ''b'', rp_text = new\<rparr>] ''f'' of
           Inr out \<Rightarrow> encode_with_original_format out f content
             = ''a'' @ [cr, lf] @ ''x'' @ [cr, cr, lf] @ ''y'' @ [cr, lf]
         | Inl _ \<Rightarrow> False)
    | Inl _ \<Rightarrow> False)"
  by code_simp

text \<open>In a file with mixed line endings a line emptied between a CR and an LF is lost: the two separators are
  read as one.\<close>

lemma emptied_line_is_lost:
  "let content = ''a'' @ [cr] @ ''x'' @ [lf] @ ''b''; new = ''a'' @ [lf, lf] @ ''b'' in
   (case normalize_to_logical content of
      Inr (text, f) \<Rightarrow> normalize_newlines (encode_with_original_format new f content) = ''a'' @ [lf] @ ''b''
    | Inl _ \<Rightarrow> False)"
  by code_simp

end
