(* ===== verification/Edit_Batch.thy ===== *)
theory Edit_Batch
  imports Edit_Files Unified_Diff Edit_Lines
begin

text \<open>
  \<^verbatim>\<open>ApplyBatchWithHook\<close> (\<^verbatim>\<open>internal/edit/apply.go\<close>): every edit is prepared on the files as they are, the hook
  is called once, everything is checked again, and only then written, in order, and read back. The hook may
  change the file system, as another process may while it runs; between the second check and the last write
  no one else changes it.
\<close>

section \<open>Data\<close>

record batch_request =
  rq_root :: bytes
  rq_edits :: "file_edit list"
  rq_dry :: bool
  rq_validate :: "path \<Rightarrow> apply_error option"

record byte_readback =
  bk_length :: nat
  bk_sha :: bytes
  bk_format :: file_format
  bk_tail :: bytes

record file_result =
  fr_path :: bytes
  fr_new_path :: bytes
  fr_operation :: bytes
  fr_original_sha :: bytes
  fr_new_sha :: bytes
  fr_changed :: nat
  fr_diff :: bytes
  fr_deleted :: bool
  fr_readback :: "byte_readback option"

record batch_result =
  br_results :: "file_result list"
  br_total :: nat
  br_summary :: bytes

record prepared =
  pr_edit :: file_edit
  pr_abs :: path
  pr_new :: path
  pr_original :: bytes
  pr_proposed :: bytes
  pr_mode :: nat
  pr_diff :: bytes
  pr_changed :: nat
  pr_hash :: bytes
  pr_deleted :: bool

definition op_create :: bytes where "op_create = ''create''"
definition op_update :: bytes where "op_update = ''update''"
definition op_delete :: bytes where "op_delete = ''delete''"
definition op_rename :: bytes where "op_rename = ''rename''"

lemma op_distinct [simp]:
  "op_create \<noteq> op_update" "op_create \<noteq> op_delete" "op_create \<noteq> op_rename" "op_update \<noteq> op_create"
  "op_update \<noteq> op_delete" "op_update \<noteq> op_rename" "op_delete \<noteq> op_create" "op_delete \<noteq> op_update"
  "op_delete \<noteq> op_rename" "op_rename \<noteq> op_create" "op_rename \<noteq> op_update" "op_rename \<noteq> op_delete"
  by (simp_all add: op_create_def op_update_def op_delete_def op_rename_def)

definition max_changed_lines :: nat where "max_changed_lines = 1000"

definition edit_operation :: "file_edit \<Rightarrow> bytes" where
  "edit_operation item = (if blank (fe_operation item) then op_update else trim_space (fe_operation item))"

section \<open>Preparation\<close>

definition map_error :: "('e \<Rightarrow> 'f) \<Rightarrow> ('e, 'a) result \<Rightarrow> ('f, 'a) result" where
  "map_error g r = (case r of Inl e \<Rightarrow> Inl (g e) | Inr x \<Rightarrow> Inr x)"

lemma map_error_ok [simp]: "map_error g r = Inr x \<longleftrightarrow> r = Inr x"
  by (cases r) (simp_all add: map_error_def)

definition plain :: "'e \<Rightarrow> apply_error" where
  "plain e = edit_error Plain [] 0"

definition diff_of :: "bytes \<Rightarrow> bytes \<Rightarrow> bytes \<Rightarrow> (apply_error, bytes \<times> nat) result" where
  "diff_of path old new =
     (case unified_diff path old new of None \<Rightarrow> Inl (edit_error Crash path 0) | Some d \<Rightarrow> Inr d)"

text \<open>The bytes of an edit with \<^verbatim>\<open>content_base64\<close>.\<close>

definition exact_bytes :: "edit_env \<Rightarrow> file_edit \<Rightarrow> bytes \<Rightarrow> int \<Rightarrow> (apply_error, bytes option) result" where
  "exact_bytes env item path i =
     (let op = edit_operation item in
      case fe_base64 item of
        Some b64 \<Rightarrow>
          if op = op_update \<and> blank (fe_base item) then Inl (edit_error INVALID_INPUT path i)
          else if fe_policy item \<noteq> ''exact'' \<or> fe_expected item = None \<or> (op \<noteq> op_create \<and> op \<noteq> op_update)
            \<or> fe_content item \<noteq> [] \<or> fe_replacements item \<noteq> [] \<or> fe_range item \<noteq> None
          then Inl (edit_error INVALID_INPUT path i)
          else (case ee_base64 env b64 of
                  None \<Rightarrow> Inl (edit_error INVALID_INPUT path i)
                | Some content \<Rightarrow> Inr (Some content))
      | None \<Rightarrow>
          if fe_policy item \<noteq> [] \<and> fe_policy item \<noteq> ''preserve'' then Inl (edit_error INVALID_INPUT path i)
          else Inr None)"

text \<open>What is written, and the text it is shown as: the exact bytes when there are any.\<close>

definition proposal :: "bytes option \<Rightarrow> bytes \<Rightarrow> bytes \<Rightarrow> (apply_error, bytes \<times> bytes) result" where
  "proposal exact encoded text =
     (case exact of
        None \<Rightarrow> Inr (encoded, text)
      | Some content \<Rightarrow>
          and_then (map_error plain (normalize_to_logical content)) (\<lambda>(text', f). Inr (content, text')))"

definition base_prepared :: "file_edit \<Rightarrow> path \<Rightarrow> prepared" where
  "base_prepared item p =
     \<lparr>pr_edit = item\<lparr>fe_operation := edit_operation item\<rparr>, pr_abs = p, pr_new = [], pr_original = [], pr_proposed = [],
      pr_mode = 0, pr_diff = [], pr_changed = 0, pr_hash = [], pr_deleted = False\<rparr>"

definition create_format :: "bytes \<Rightarrow> file_format" where
  "create_format content =
     (let f = detect_format content in
      if line_ending f = [] \<or> line_ending f = ''mixed'' then f\<lparr>line_ending := ''LF''\<rparr> else f)"

definition prepare_create :: "edit_env \<Rightarrow> file_system \<Rightarrow> file_edit \<Rightarrow> bytes \<Rightarrow> int \<Rightarrow> path \<Rightarrow> bytes option
    \<Rightarrow> (apply_error, prepared) result" where
  "prepare_create env fs item path i p exact =
     (case sys_stat fs p of
        Inr _ \<Rightarrow> Inl (edit_error TARGET_EXISTS path i)
      | Inl e \<Rightarrow>
          if e \<noteq> Not_Exist then Inl (plain e)
          else if fe_replacements item \<noteq> [] \<or> fe_range item \<noteq> None then Inl (edit_error INVALID_INPUT path i)
          else let text = strip_bom (normalize_newlines (fe_content item)) in
            and_then (proposal exact (encode_with_format text (create_format (fe_content item))) text) (\<lambda>(proposed, text').
            and_then (diff_of path [] text') (\<lambda>(diff, changed).
              Inr ((base_prepared item p)\<lparr>pr_mode := 0x1A4, pr_proposed := proposed, pr_diff := diff,
                pr_changed := changed, pr_hash := hash_bytes (ee_sha env) proposed\<rparr>))))"

text \<open>Reading a file whose revision is checked.\<close>

definition read_checked :: "edit_env \<Rightarrow> file_system \<Rightarrow> file_edit \<Rightarrow> bytes \<Rightarrow> int \<Rightarrow> path
    \<Rightarrow> (apply_error, bytes \<times> nat) result" where
  "read_checked env fs item path i p =
     and_then (map_error (\<lambda>e. edit_error NOT_FOUND path i) (read_file env fs p)) (\<lambda>(original, mode).
     and_then (check_base (ee_sha env) original (fe_base item) path i) (\<lambda>_. Inr (original, mode)))"

definition read_logical :: "bytes \<Rightarrow> bytes \<Rightarrow> int \<Rightarrow> (apply_error, bytes \<times> file_format) result" where
  "read_logical original path i =
     map_error (\<lambda>e. edit_error UNSUPPORTED_ENCODING path i) (normalize_to_logical original)"

definition prepare_update :: "edit_env \<Rightarrow> file_system \<Rightarrow> file_edit \<Rightarrow> bytes \<Rightarrow> int \<Rightarrow> path \<Rightarrow> bytes option
    \<Rightarrow> (apply_error, prepared) result" where
  "prepare_update env fs item path i p exact =
     and_then (read_checked env fs item path i p) (\<lambda>(original, mode).
     and_then (read_logical original path i) (\<lambda>(text, f).
     and_then (update_text text item path i) (\<lambda>text'.
     and_then (proposal exact (encode_with_original_format text' f original) text') (\<lambda>(proposed, text'').
     and_then (diff_of path text text'') (\<lambda>(diff, changed).
       Inr ((base_prepared item p)\<lparr>pr_original := original, pr_mode := mode, pr_proposed := proposed, pr_diff := diff,
         pr_changed := changed, pr_hash := hash_bytes (ee_sha env) proposed\<rparr>))))))"

definition prepare_delete :: "edit_env \<Rightarrow> file_system \<Rightarrow> file_edit \<Rightarrow> bytes \<Rightarrow> int \<Rightarrow> path \<Rightarrow> path
    \<Rightarrow> (apply_error, prepared) result" where
  "prepare_delete env fs item path i lexical p =
     (case sys_lstat fs lexical of
        Inl e \<Rightarrow> Inl (edit_error NOT_FOUND path i)
      | Inr (Link_Node _) \<Rightarrow> Inl (edit_error SYMLINK_NOT_ALLOWED path i)
      | Inr (File_Node _ _) \<Rightarrow>
          and_then (read_checked env fs item path i p) (\<lambda>(original, mode).
          and_then (read_logical original path i) (\<lambda>(text, f).
          and_then (diff_of path text []) (\<lambda>(diff, changed).
            Inr ((base_prepared item p)\<lparr>pr_original := original, pr_mode := mode, pr_diff := diff,
              pr_changed := changed, pr_deleted := True\<rparr>))))
      | Inr _ \<Rightarrow> Inl (edit_error DELETE_FILE_ONLY path i))"

text \<open>\<^verbatim>\<open>seenPaths\<close>: the paths of the edits so far.\<close>

type_synonym seen_paths = "(path \<times> nat) list"

definition seen_at :: "seen_paths \<Rightarrow> path \<Rightarrow> bool" where
  "seen_at seen p \<longleftrightarrow> map_of seen p \<noteq> None"

definition allowed :: "batch_request \<Rightarrow> path \<Rightarrow> (apply_error, unit) result" where
  "allowed rq p = (case rq_validate rq p of None \<Rightarrow> Inr () | Some e \<Rightarrow> Inl e)"

definition prepare_rename :: "edit_env \<Rightarrow> file_system \<Rightarrow> batch_request \<Rightarrow> file_edit \<Rightarrow> bytes \<Rightarrow> nat \<Rightarrow> path
    \<Rightarrow> seen_paths \<Rightarrow> (apply_error, prepared \<times> seen_paths) result" where
  "prepare_rename env fs rq item path i p seen =
     (let new_path = trim_space (fe_new_path item) in
      if new_path = [] then Inl (edit_error INVALID_INPUT path (int i))
      else
        and_then (map_error (\<lambda>e. edit_error INVALID_PATH new_path (int i)) (resolve env fs (rq_root rq) new_path)) (\<lambda>new.
        if seen_at seen new then Inl (edit_error INVALID_INPUT new_path (int i))
        else
          and_then (allowed rq new) (\<lambda>_.
          if is_ok (sys_stat fs new) then Inl (edit_error TARGET_EXISTS new_path (int i))
          else
            and_then (read_checked env fs item path (int i) p) (\<lambda>(original, mode).
              Inr ((base_prepared item p)\<lparr>pr_original := original, pr_mode := mode, pr_new := new, pr_proposed := original,
                pr_hash := hash_bytes (ee_sha env) original,
                pr_diff := ''rename from '' @ path @ [lf] @ ''rename to '' @ new_path @ [lf]\<rparr>,
                (new, i) # seen)))))"

text \<open>\<^verbatim>\<open>expected_format\<close>.\<close>

definition format_matches :: "prepared \<Rightarrow> bytes \<Rightarrow> int \<Rightarrow> (apply_error, unit) result" where
  "format_matches p path i =
     (case fe_expected (pr_edit p) of
        None \<Rightarrow> Inr ()
      | Some x \<Rightarrow>
          let actual = detect_format (pr_proposed p) in
          if fe_operation (pr_edit p) = op_delete \<or> ef_charset x = [] \<or> ef_bom x = [] \<or> ef_ending x = []
            \<or> charset actual \<noteq> ef_charset x \<or> bom actual \<noteq> ef_bom x \<or> line_ending actual \<noteq> ef_ending x
          then Inl (edit_error FORMAT_MISMATCH path i) else Inr ())"

definition prepare_edit :: "edit_env \<Rightarrow> file_system \<Rightarrow> batch_request \<Rightarrow> nat \<Rightarrow> seen_paths \<Rightarrow> file_edit
    \<Rightarrow> (apply_error, prepared \<times> seen_paths) result" where
  "prepare_edit env fs rq i seen item =
     (let op = edit_operation item; path = trim_space (fe_path item) in
      if path = [] then Inl (edit_error INVALID_INPUT [] (int i))
      else
        and_then (map_error (\<lambda>e. edit_error INVALID_PATH path (int i)) (lexical_path env (rq_root rq) path)) (\<lambda>lexical.
        and_then (map_error (\<lambda>e. edit_error INVALID_PATH path (int i)) (resolve env fs (rq_root rq) path)) (\<lambda>p.
        if seen_at seen p then Inl (edit_error INVALID_INPUT path (int i))
        else
          and_then (allowed rq p) (\<lambda>_.
          let seen' = (p, i) # seen in
          and_then (exact_bytes env item path (int i)) (\<lambda>exact.
          and_then
            (if op = op_create then and_then (prepare_create env fs item path (int i) p exact) (\<lambda>r. Inr (r, seen'))
             else if op = op_update then and_then (prepare_update env fs item path (int i) p exact) (\<lambda>r. Inr (r, seen'))
             else if op = op_delete then and_then (prepare_delete env fs item path (int i) lexical p) (\<lambda>r. Inr (r, seen'))
             else if op = op_rename then prepare_rename env fs rq item path i p seen'
             else Inl (edit_error UNSUPPORTED path (int i)))
            (\<lambda>(r, seen''). and_then (format_matches r path (int i)) (\<lambda>_. Inr (r, seen''))))))))"

fun prepare_all :: "edit_env \<Rightarrow> file_system \<Rightarrow> batch_request \<Rightarrow> nat \<Rightarrow> nat \<Rightarrow> seen_paths \<Rightarrow> file_edit list
    \<Rightarrow> (apply_error, prepared list) result" where
  "prepare_all env fs rq i changed seen [] = Inr []"
| "prepare_all env fs rq i changed seen (item # items) =
     and_then (prepare_edit env fs rq i seen item) (\<lambda>(p, seen').
     let changed' = changed + pr_changed p in
     if max_changed_lines < changed'
     then Inl ((edit_error TOO_MANY_CHANGES (trim_space (fe_path item)) (int i))\<lparr>er_changed := changed'\<rparr>)
     else and_then (prepare_all env fs rq (Suc i) changed' seen' items) (\<lambda>ps. Inr (p # ps)))"

section \<open>The planned result\<close>

definition plan_result :: "edit_env \<Rightarrow> prepared \<Rightarrow> file_result" where
  "plan_result env p =
     (let op = fe_operation (pr_edit p) in
      \<lparr>fr_path = fe_path (pr_edit p), fr_new_path = (if op = op_rename then fe_new_path (pr_edit p) else []),
       fr_operation = op,
       fr_original_sha = (if op \<noteq> op_create then hash_bytes (ee_sha env) (pr_original p) else []),
       fr_new_sha = (if op = op_delete then [] else pr_hash p), fr_changed = pr_changed p, fr_diff = pr_diff p,
       fr_deleted = (op = op_delete), fr_readback = None\<rparr>)"

definition plan_batch :: "edit_env \<Rightarrow> prepared list \<Rightarrow> batch_result" where
  "plan_batch env ps =
     \<lparr>br_results = map (plan_result env) ps, br_total = sum_list (map pr_changed ps),
      br_summary = join (filter (\<lambda>d. d \<noteq> []) (map pr_diff ps)) [lf]\<rparr>"

section \<open>The second check\<close>

definition absent :: "file_system \<Rightarrow> path \<Rightarrow> bool" where
  "absent fs p \<longleftrightarrow> sys_lstat fs p = Inl Not_Exist"

definition recheck_edit :: "edit_env \<Rightarrow> file_system \<Rightarrow> batch_request \<Rightarrow> int \<Rightarrow> prepared \<Rightarrow> (apply_error, unit) result" where
  "recheck_edit env fs rq i p =
     (let path = fe_path (pr_edit p); op = fe_operation (pr_edit p) in
      if resolve env fs (rq_root rq) path \<noteq> Inr (pr_abs p) then Inl (edit_error STALE_REVISION path i)
      else
        and_then
          (if op = op_create
           then guard (absent fs (pr_abs p)) (edit_error TARGET_EXISTS path i)
           else and_then (map_error (\<lambda>e. edit_error STALE_REVISION path i) (os_read_file env fs (pr_abs p))) (\<lambda>current.
                check_base (ee_sha env) current (hash_bytes (ee_sha env) (pr_original p)) path i)) (\<lambda>_.
        and_then (allowed rq (pr_abs p)) (\<lambda>_.
        if op \<noteq> op_rename then Inr ()
        else
          let new_path = fe_new_path (pr_edit p) in
          if resolve env fs (rq_root rq) new_path \<noteq> Inr (pr_new p) then Inl (edit_error STALE_REVISION new_path i)
          else and_then (guard (absent fs (pr_new p)) (edit_error TARGET_EXISTS new_path i)) (\<lambda>_. allowed rq (pr_new p)))))"

fun recheck_all :: "edit_env \<Rightarrow> file_system \<Rightarrow> batch_request \<Rightarrow> nat \<Rightarrow> prepared list \<Rightarrow> (apply_error, unit) result" where
  "recheck_all env fs rq i [] = Inr ()"
| "recheck_all env fs rq i (p # ps) =
     and_then (recheck_edit env fs rq (int i) p) (\<lambda>_. recheck_all env fs rq (Suc i) ps)"

section \<open>Writing\<close>

definition open_root :: "edit_env \<Rightarrow> file_system \<Rightarrow> bytes \<Rightarrow> (sys_error, path) result" where
  "open_root env fs workspace =
     and_then (kernel_path fs (if is_abs workspace then components workspace else ee_cwd env @ components workspace))
       (\<lambda>d. if fs d = Some Dir_Node then Inr d else Inl Not_Dir)"

definition commit_edit :: "edit_env \<Rightarrow> path \<Rightarrow> file_system \<Rightarrow> prepared \<Rightarrow> unit changed" where
  "commit_edit env root fs p =
     (let op = fe_operation (pr_edit p) in
      if op = op_create \<or> op = op_update then atomic_write env fs (pr_abs p) (pr_proposed p) (pr_mode p)
      else if op = op_delete then root_remove env fs root (fe_path (pr_edit p))
      else if op = op_rename then
        (case mkdir_all env fs (butlast (pr_new p)) of
           (fs', Inl e) \<Rightarrow> (fs', Inl e)
         | (fs', Inr _) \<Rightarrow> sys_rename env fs' (pr_abs p) (pr_new p))
      else (fs, Inr ()))"

fun commit_all :: "edit_env \<Rightarrow> path \<Rightarrow> file_system \<Rightarrow> prepared list \<Rightarrow> unit changed" where
  "commit_all env root fs [] = (fs, Inr ())"
| "commit_all env root fs (p # ps) =
     (case commit_edit env root fs p of
        (fs', Inl e) \<Rightarrow> (fs', Inl e)
      | (fs', Inr _) \<Rightarrow> commit_all env root fs' ps)"

definition target_of :: "prepared \<Rightarrow> path" where
  "target_of p = (if fe_operation (pr_edit p) = op_rename then pr_new p else pr_abs p)"

definition tail_hex :: "bytes \<Rightarrow> bytes" where
  "tail_hex content =
     concat (map (\<lambda>c. [''0123456789abcdef'' ! (byte_val c div 16), ''0123456789abcdef'' ! (byte_val c mod 16)])
       (drop (length content - 16) content))"

definition read_back :: "edit_env \<Rightarrow> file_system \<Rightarrow> int \<Rightarrow> prepared \<Rightarrow> file_result \<Rightarrow> (apply_error, file_result) result" where
  "read_back env fs i p r =
     (if pr_deleted p then Inr r
      else and_then (map_error plain (os_read_file env fs (target_of p))) (\<lambda>content.
        let sha = hash_bytes (ee_sha env) content in
        if sha \<noteq> pr_hash p
        then Inl ((edit_error READBACK_MISMATCH (fe_path (pr_edit p)) i)\<lparr>er_current := sha\<rparr>)
        else Inr (r\<lparr>fr_readback := Some \<lparr>bk_length = length content, bk_sha = sha,
          bk_format = detect_format content, bk_tail = tail_hex content\<rparr>\<rparr>)))"

fun read_back_all :: "edit_env \<Rightarrow> file_system \<Rightarrow> nat \<Rightarrow> prepared list \<Rightarrow> file_result list
    \<Rightarrow> (apply_error, file_result list) result" where
  "read_back_all env fs i (p # ps) (r # rs) =
     and_then (read_back env fs (int i) p r) (\<lambda>r'.
     and_then (read_back_all env fs (Suc i) ps rs) (\<lambda>rs'. Inr (r' # rs')))"
| "read_back_all env fs i _ rs = Inr rs"

section \<open>The batch\<close>

type_synonym batch_hook = "batch_result \<Rightarrow> file_system \<Rightarrow> file_system \<times> apply_error option"

definition no_hook :: batch_hook where
  "no_hook r fs = (fs, None)"

definition write_batch :: "edit_env \<Rightarrow> file_system \<Rightarrow> batch_request \<Rightarrow> prepared list
    \<Rightarrow> file_system \<times> (apply_error, batch_result) result" where
  "write_batch env fs rq ps =
     (case recheck_all env fs rq 0 ps of
        Inl e \<Rightarrow> (fs, Inl e)
      | Inr _ \<Rightarrow>
          (case (if list_ex (\<lambda>p. fe_operation (pr_edit p) = op_delete) ps then open_root env fs (rq_root rq) else Inr []) of
             Inl e \<Rightarrow> (fs, Inl (plain e))
           | Inr root \<Rightarrow>
               (case commit_all env root fs ps of
                  (fs', Inl e) \<Rightarrow> (fs', Inl (plain e))
                | (fs', Inr _) \<Rightarrow>
                    (fs', and_then (read_back_all env fs' 0 ps (br_results (plan_batch env ps))) (\<lambda>rs.
                       Inr ((plan_batch env ps)\<lparr>br_results := rs\<rparr>))))))"

definition apply_batch_with_hook :: "edit_env \<Rightarrow> batch_request \<Rightarrow> batch_hook \<Rightarrow> file_system
    \<Rightarrow> file_system \<times> (apply_error, batch_result) result" where
  "apply_batch_with_hook env rq hook fs =
     (if blank (rq_root rq) then (fs, Inl (edit_error INVALID_INPUT [] (-1)))
      else if rq_edits rq = [] then (fs, Inl (edit_error INVALID_INPUT [] (-1)))
      else case prepare_all env fs rq 0 0 [] (rq_edits rq) of
        Inl e \<Rightarrow> (fs, Inl e)
      | Inr ps \<Rightarrow>
          if rq_dry rq then (fs, Inr (plan_batch env ps))
          else (case hook (plan_batch env ps) fs of
                  (fs', Some e) \<Rightarrow> (fs', Inl e)
                | (fs', None) \<Rightarrow> write_batch env fs' rq ps))"

definition apply_batch :: "edit_env \<Rightarrow> batch_request \<Rightarrow> file_system \<Rightarrow> file_system \<times> (apply_error, batch_result) result" where
  "apply_batch env rq fs = apply_batch_with_hook env rq no_hook fs"

end
