(* ===== verification/Edit_Walk.thy ===== *)
theory Edit_Walk
  imports Edit_Files "HOL-Library.Sublist"
begin

text \<open>
  What following links, resolving a path and writing a file amount to: a resolved path is physical, and
  a write changes the entry it names and creates the directories above it, nothing else.
\<close>

section \<open>Physical paths\<close>

text \<open>A file system is a tree of directories.\<close>

definition tree :: "file_system \<Rightarrow> bool" where
  "tree fs \<longleftrightarrow> fs [] = Some Dir_Node \<and> (\<forall>q c. fs (q @ [c]) \<noteq> None \<longrightarrow> fs q = Some Dir_Node)"

definition is_link :: "node option \<Rightarrow> bool" where
  "is_link n \<longleftrightarrow> (case n of Some (Link_Node t) \<Rightarrow> True | _ \<Rightarrow> False)"

definition dirs :: "file_system \<Rightarrow> path \<Rightarrow> bool" where
  "dirs fs d \<longleftrightarrow> (\<forall>q. prefix q d \<longrightarrow> fs q = Some Dir_Node)"

definition link_free :: "file_system \<Rightarrow> path \<Rightarrow> bool" where
  "link_free fs p \<longleftrightarrow> dotdot \<notin> set p \<and> (\<forall>q. prefix q p \<longrightarrow> \<not> is_link (fs q))"

text \<open>Above the path there are only directories, as far as anything is there, and it is no link itself.\<close>

definition clear_path :: "file_system \<Rightarrow> path \<Rightarrow> bool" where
  "clear_path fs p \<longleftrightarrow> dotdot \<notin> set p \<and> \<not> is_link (fs p)
     \<and> (\<forall>q. strict_prefix q p \<longrightarrow> fs q = None \<or> fs q = Some Dir_Node)"

lemma clear_link_free: "clear_path fs p \<Longrightarrow> link_free fs p"
  unfolding clear_path_def link_free_def is_link_def by (auto simp: strict_prefix_def split: option.splits node.splits)

lemma is_link_simps [simp]: "\<not> is_link None" "\<not> is_link (Some Dir_Node)" "\<not> is_link (Some (File_Node c m))"
  "is_link (Some (Link_Node t))" "\<not> is_link (Some Device_Node)"
  by (simp_all add: is_link_def)

lemma dirs_root: "dirs fs d \<Longrightarrow> dirs fs []"
  by (simp add: dirs_def)

lemma dirs_snoc: "dirs fs (d @ [c]) \<longleftrightarrow> dirs fs d \<and> fs (d @ [c]) = Some Dir_Node"
  by (auto simp: dirs_def)

lemma dirs_butlast: "dirs fs d \<Longrightarrow> dirs fs (butlast d)"
  unfolding dirs_def using prefix_order.trans prefixeq_butlast by blast

lemma dirs_self: "dirs fs d \<Longrightarrow> fs d = Some Dir_Node"
  by (simp add: dirs_def)

lemma link_free_prefix: "link_free fs p \<Longrightarrow> prefix q p \<Longrightarrow> link_free fs q"
  unfolding link_free_def by (meson prefix_order.trans set_mono_prefix subsetD)

lemma strict_prefix_snoc: "strict_prefix q (p @ [c]) \<longleftrightarrow> prefix q p"
  by (auto simp: strict_prefix_def)

lemma strict_prefix_butlast: "p \<noteq> [] \<Longrightarrow> strict_prefix q p \<longleftrightarrow> prefix q (butlast p)"
  by (metis append_butlast_last_id strict_prefix_snoc)

section \<open>The walk\<close>

lemma walk_cases:
  assumes "walk fs n d (c # cs) = r"
  obtains (up) "c = dotdot" "walk fs n (butlast d) cs = r"
  | (none) "c \<noteq> dotdot" "fs (d @ [c]) = None" "r = Inl Not_Exist"
  | (dir) "c \<noteq> dotdot" "fs (d @ [c]) = Some Dir_Node" "walk fs n (d @ [c]) cs = r"
  | (stuck) t where "c \<noteq> dotdot" "fs (d @ [c]) = Some (Link_Node t)" "n = 0" "r = Inl Too_Many_Links"
  | (link) t m where "c \<noteq> dotdot" "fs (d @ [c]) = Some (Link_Node t)" "n = Suc m"
      "walk fs m (if is_abs t then [] else d) (components t @ cs) = r"
  | (leaf) x where "c \<noteq> dotdot" "fs (d @ [c]) = Some x" "x \<noteq> Dir_Node" "\<not> is_link (Some x)"
      "r = (if cs = [] then Inr (d @ [c]) else Inl Not_Dir)"
proof (cases "c = dotdot")
  case True
  then show thesis using up assms by (simp add: walk.simps(2))
next
  case c: False
  show thesis
  proof (cases "fs (d @ [c])")
    case None
    then show thesis using none c assms by (simp add: walk.simps(2))
  next
    case (Some x)
    show thesis
    proof (cases x)
      case Dir_Node
      then show thesis using dir c Some assms by (simp add: walk.simps(2))
    next
      case (File_Node y m)
      then show thesis using leaf [of x] c Some assms by (simp add: walk.simps(2))
    next
      case (Link_Node t)
      then show thesis using stuck [of t] link [of t] c Some assms by (cases n) (simp_all add: walk.simps(2))
    next
      case Device_Node
      then show thesis using leaf [of x] c Some assms by (simp add: walk.simps(2))
    qed
  qed
qed

lemma walk_Nil [simp]: "walk fs n d [] = Inr d"
  by (simp add: walk.simps(1))

lemma walk_dir: "c \<noteq> dotdot \<Longrightarrow> fs (d @ [c]) = Some Dir_Node \<Longrightarrow> walk fs n d (c # cs) = walk fs n (d @ [c]) cs"
  by (simp add: walk.simps(2))

text \<open>A walk ends at a physical path.\<close>

definition landed :: "file_system \<Rightarrow> path \<Rightarrow> bool" where
  "landed fs p \<longleftrightarrow> dotdot \<notin> set p \<and> (\<forall>q. strict_prefix q p \<longrightarrow> fs q = Some Dir_Node) \<and> fs p \<noteq> None \<and> \<not> is_link (fs p)"

lemma landed_dirs: "dirs fs d \<Longrightarrow> dotdot \<notin> set d \<Longrightarrow> landed fs d"
  by (auto simp: landed_def dirs_def)

lemma landed_clear: "landed fs p \<Longrightarrow> clear_path fs p"
  by (simp add: landed_def clear_path_def)

lemma landed_is_dirs: "landed fs p \<Longrightarrow> fs p = Some Dir_Node \<Longrightarrow> dirs fs p"
  unfolding landed_def dirs_def by (metis strict_prefixI)

lemma walk_lands: "dirs fs d \<Longrightarrow> dotdot \<notin> set d \<Longrightarrow> walk fs n d cs = Inr p \<Longrightarrow> landed fs p"
proof (induction fs n d cs rule: walk.induct)
  case (2 fs n d c cs)
  from 2(6) show ?case
  proof (cases rule: walk_cases)
    case up
    moreover have "dotdot \<notin> set (butlast d)" using 2(5) by (meson in_set_butlastD)
    ultimately show ?thesis using 2(1) dirs_butlast [OF 2(4)] by simp
  next
    case dir
    then show ?thesis using 2(2) 2(4,5) by (simp add: dirs_snoc)
  next
    case (link t m)
    moreover have "dirs fs (if is_abs t then [] else d)" "dotdot \<notin> set (if is_abs t then [] else d)"
      using 2(4,5) dirs_root by auto
    ultimately show ?thesis using 2(3) by blast
  next
    case (leaf x)
    then have "p = d @ [c]" by (simp split: if_splits)
    then show ?thesis using leaf 2(4,5) by (auto simp: landed_def strict_prefix_snoc dirs_def)
  qed simp_all
qed (simp add: landed_dirs)

text \<open>Without links the walk stays on the path.\<close>

lemma walk_straight:
  "link_free fs (d @ cs) \<Longrightarrow> walk fs n d cs = Inr p
     \<Longrightarrow> p = d @ cs \<and> (cs = [] \<or> fs (d @ cs) \<noteq> None) \<and> (\<forall>q. strict_prefix d q \<longrightarrow> strict_prefix q (d @ cs) \<longrightarrow> fs q = Some Dir_Node)"
proof (induction cs arbitrary: d)
  case Nil
  then show ?case by (auto dest: prefix_order.less_trans)
next
  case (Cons c cs)
  have c: "c \<noteq> dotdot" using Cons.prems(1) by (auto simp: link_free_def)
  have nl: "\<not> is_link (fs (d @ [c]))" using Cons.prems(1) by (simp add: link_free_def)
  from Cons.prems(2) show ?case
  proof (cases rule: walk_cases)
    case dir
    have ih: "p = (d @ [c]) @ cs \<and> (cs = [] \<or> fs ((d @ [c]) @ cs) \<noteq> None)
      \<and> (\<forall>q. strict_prefix (d @ [c]) q \<longrightarrow> strict_prefix q ((d @ [c]) @ cs) \<longrightarrow> fs q = Some Dir_Node)"
      using Cons.IH [of "d @ [c]"] Cons.prems(1) dir(3) by simp
    have "fs q = Some Dir_Node" if q: "strict_prefix d q" "strict_prefix q (d @ c # cs)" for q
    proof (cases "q = d @ [c]")
      case False
      obtain r where r: "q = d @ r" "r \<noteq> []" using q(1) by (auto simp: strict_prefix_def prefix_def)
      have "strict_prefix r (c # cs)" using q(2) r(1) by (auto simp: strict_prefix_def)
      then obtain r' where "r = c # r'" using r(2) by (cases r) (auto simp: strict_prefix_def)
      then have "q = (d @ [c]) @ r'" using r(1) by simp
      then have "strict_prefix (d @ [c]) q" using False by (auto simp: strict_prefix_def)
      then show ?thesis using ih q(2) by simp
    qed (use dir in simp)
    then show ?thesis using ih dir by auto
  next
    case (leaf x)
    then have "p = d @ [c]" "cs = []" by (simp_all split: if_splits)
    then show ?thesis using leaf by (auto simp: strict_prefix_snoc dest: prefix_order.antisym strict_prefixI')
  qed (use c nl in auto)
qed

lemma walk_along:
  "dotdot \<notin> set cs \<Longrightarrow> (\<And>q. strict_prefix d q \<Longrightarrow> strict_prefix q (d @ cs) \<Longrightarrow> fs q = Some Dir_Node)
     \<Longrightarrow> cs = [] \<or> (fs (d @ cs) \<noteq> None \<and> \<not> is_link (fs (d @ cs))) \<Longrightarrow> walk fs n d cs = Inr (d @ cs)"
proof (induction cs arbitrary: d)
  case (Cons c cs)
  have c: "c \<noteq> dotdot" using Cons.prems(1) by auto
  show ?case
  proof (cases "cs = []")
    case True
    then obtain x where x: "fs (d @ [c]) = Some x" "\<not> is_link (Some x)" using Cons.prems(3) by auto
    then show ?thesis using c True by (cases x) (simp_all add: walk.simps(2))
  next
    case False
    have "fs (d @ [c]) = Some Dir_Node" by (rule Cons.prems(2)) (use False in \<open>auto simp: strict_prefix_def\<close>)
    moreover have "walk fs n (d @ [c]) cs = Inr ((d @ [c]) @ cs)"
    proof (rule Cons.IH)
      fix q assume "strict_prefix (d @ [c]) q" "strict_prefix q ((d @ [c]) @ cs)"
      moreover from this(1) have "strict_prefix d q" by (auto simp: strict_prefix_def prefix_def)
      ultimately show "fs q = Some Dir_Node" using Cons.prems(2) [of q] by simp
    qed (use Cons.prems False in auto)
    ultimately show ?thesis using c by (simp add: walk_dir)
  qed
qed simp

text \<open>A longer walk goes on where a shorter one ends.\<close>

lemma walk_append:
  "walk fs n d cs = Inl e \<Longrightarrow> walk fs n d (cs @ cs') = Inl e"
  "walk fs n d cs = Inr p \<Longrightarrow> dirs fs d \<Longrightarrow> dotdot \<notin> set d \<Longrightarrow> cs' \<noteq> [] \<Longrightarrow>
     (if fs p = Some Dir_Node then \<exists>m \<le> n. walk fs n d (cs @ cs') = walk fs m p cs' else walk fs n d (cs @ cs') = Inl Not_Dir)"
proof -
  show "walk fs n d cs = Inl e \<Longrightarrow> walk fs n d (cs @ cs') = Inl e"
  proof (induction fs n d cs rule: walk.induct)
    case (2 fs n d c cs)
    from 2(4) show ?case
    proof (cases rule: walk_cases)
      case up
      then show ?thesis using 2(1) by (simp add: walk.simps(2))
    next
      case dir
      then show ?thesis using 2(2) by (simp add: walk.simps(2))
    next
      case (link t m)
      then have "walk fs m (if is_abs t then [] else d) ((components t @ cs) @ cs') = Inl e"
        using 2(3) by blast
      then show ?thesis using link by (simp add: walk.simps(2))
    next
      case (leaf x)
      then have "cs \<noteq> []" "e = Not_Dir" by (simp_all split: if_splits)
      then show ?thesis using leaf by (cases x) (simp_all add: walk.simps(2))
    qed (simp_all add: walk.simps(2))
  qed simp
  show "walk fs n d cs = Inr p \<Longrightarrow> dirs fs d \<Longrightarrow> dotdot \<notin> set d \<Longrightarrow> cs' \<noteq> [] \<Longrightarrow>
     (if fs p = Some Dir_Node then \<exists>m \<le> n. walk fs n d (cs @ cs') = walk fs m p cs' else walk fs n d (cs @ cs') = Inl Not_Dir)"
  proof (induction fs n d cs rule: walk.induct)
    case (1 fs n d)
    then show ?case using dirs_self by auto
  next
    case (2 fs n d c cs)
    from 2(4) show ?case
    proof (cases rule: walk_cases)
      case up
      have "dotdot \<notin> set (butlast d)" using 2(6) by (meson in_set_butlastD)
      then show ?thesis using 2(1) [OF up] dirs_butlast [OF 2(5)] 2(7) up(1) by (simp add: walk.simps(2))
    next
      case dir
      then show ?thesis using 2(2) [OF dir(1,2) refl dir(3)] 2(5-7) by (simp add: walk.simps(2) dirs_snoc)
    next
      case (link t m)
      have "dirs fs (if is_abs t then [] else d)" "dotdot \<notin> set (if is_abs t then [] else d)"
        using 2(5,6) dirs_root by auto
      then have ih: "if fs p = Some Dir_Node
        then \<exists>k \<le> m. walk fs m (if is_abs t then [] else d) ((components t @ cs) @ cs') = walk fs k p cs'
        else walk fs m (if is_abs t then [] else d) ((components t @ cs) @ cs') = Inl Not_Dir"
        using 2(3) link 2(7) by blast
      have step: "walk fs n d ((c # cs) @ cs') = walk fs m (if is_abs t then [] else d) ((components t @ cs) @ cs')"
        using link by (simp add: walk.simps(2))
      show ?thesis
      proof (cases "fs p = Some Dir_Node")
        case True
        then obtain k where "k \<le> m" "walk fs m (if is_abs t then [] else d) ((components t @ cs) @ cs') = walk fs k p cs'"
          using ih by auto
        then show ?thesis unfolding step using True link(3) by (auto intro!: exI [of _ k])
      next
        case False
        then show ?thesis unfolding step using ih by simp
      qed
    next
      case (leaf x)
      then have "p = d @ [c]" "cs = []" by (simp_all split: if_splits)
      then show ?thesis using leaf 2(7) by (cases x) (simp_all add: walk.simps(2))
    qed simp_all
  qed
qed

text \<open>More links allowed, same answer.\<close>

lemma walk_more: "walk fs n d cs = Inr p \<Longrightarrow> n \<le> n' \<Longrightarrow> walk fs n' d cs = Inr p"
proof (induction fs n d cs arbitrary: n' rule: walk.induct)
  case (2 fs n d c cs)
  from 2(4) show ?case
  proof (cases rule: walk_cases)
    case up
    then show ?thesis using 2(1) 2(5) by (simp add: walk.simps(2))
  next
    case dir
    then show ?thesis using 2(2) 2(5) by (simp add: walk.simps(2))
  next
    case (link t m)
    then obtain m' where "n' = Suc m'" "m \<le> m'" using 2(5) by (cases n') auto
    moreover have "walk fs m' (if is_abs t then [] else d) (components t @ cs) = Inr p"
      using 2(3) link \<open>m \<le> m'\<close> by blast
    ultimately show ?thesis using link by (simp add: walk.simps(2))
  next
    case (leaf x)
    then show ?thesis by (cases x) (simp_all add: walk.simps(2))
  qed simp_all
qed simp

end
