(* ===== verification/Edit_Safety.thy ===== *)
theory Edit_Safety
  imports Edit_Batch Edit_Walk Token_Secret
begin

text \<open>
  What a batch of edits may change. Below the physical workspace root nothing leads out: a resolved path
  has no link in it (\<open>resolve_link_free\<close>), and every call of the writing phase changes entries below the
  root only and makes no links (\<open>confined\<close>).
\<close>

section \<open>Resolved paths\<close>

text \<open>No link leads to something missing.\<close>

definition links_lead_somewhere :: "file_system \<Rightarrow> bool" where
  "links_lead_somewhere fs \<longleftrightarrow>
     (\<forall>q t n. fs q = Some (Link_Node t) \<longrightarrow> walk fs n (butlast q) [last q] \<noteq> Inl Not_Exist)"

lemma clean_step_plain: "dotdot \<notin> set p \<Longrightarrow> dotdot \<notin> set (clean_step p c)"
  by (auto simp: clean_step_def dest: in_set_butlastD)

lemma clean_path_plain: "dotdot \<notin> set (clean_path cs)"
proof -
  have "dotdot \<notin> set p \<Longrightarrow> dotdot \<notin> set (foldl clean_step p cs)" for p
    by (induction cs arbitrary: p) (simp_all add: clean_step_plain)
  then show ?thesis by (simp add: clean_path_def)
qed

lemma clean_path_same: "dotdot \<notin> set cs \<Longrightarrow> clean_path cs = cs"
proof -
  have "dotdot \<notin> set cs \<Longrightarrow> foldl clean_step p cs = p @ cs" for p
    by (induction cs arbitrary: p) (auto simp: clean_step_def)
  then show "dotdot \<notin> set cs \<Longrightarrow> clean_path cs = cs" by (simp add: clean_path_def)
qed

lemma tree_dirs: "tree fs \<Longrightarrow> dirs fs []"
  by (simp add: tree_def dirs_def)

lemma tree_below: "tree fs \<Longrightarrow> fs p = None \<Longrightarrow> fs (p @ r) = None"
proof (induction r rule: rev_induct)
  case (snoc c r)
  have "fs (p @ r) = None" using snoc by blast
  then show ?case using snoc.prems(1) unfolding tree_def by (metis append.assoc option.distinct(1))
qed simp

lemma within_root_prefix [simp]: "within_root root p \<longleftrightarrow> prefix root p"
  by (auto simp: within_root_def prefix_def) (metis append_take_drop_id)

lemma landed_link_free: "landed fs p \<Longrightarrow> link_free fs p"
  by (simp add: landed_clear clear_link_free)

lemma physical_lands: "tree fs \<Longrightarrow> physical_path fs p = Inr q \<Longrightarrow> landed fs q"
  unfolding physical_path_def by (rule walk_lands [of fs "[]" 255 p]) (simp_all add: tree_dirs)

text \<open>The nearest ancestor that is there is a directory, and behind it there is nothing.\<close>

lemma missing_link_free:
  assumes tree: "tree fs" and links: "links_lead_somewhere fs"
    and real: "physical_path fs anc = Inr real"
    and next_missing: "\<exists>e. physical_path fs (anc @ [c]) = Inl e"
    and missing: "physical_path fs (anc @ c # cs) = Inl Not_Exist" and plain: "dotdot \<notin> set (c # cs)"
  shows "link_free fs (real @ c # cs)"
proof -
  have landed: "landed fs real" using physical_lands [OF tree real] .
  have walk: "walk fs 255 [] anc = Inr real" using real by (simp add: physical_path_def)
  note go = walk_append(2) [OF walk tree_dirs [OF tree]]
  have dir: "fs real = Some Dir_Node"
    using go [of "c # cs"] missing by (auto simp: physical_path_def split: if_splits)
  obtain m where m: "walk fs 255 [] (anc @ [c]) = walk fs m real [c]" using go [of "[c]"] dir by auto
  obtain e where e: "walk fs m real [c] = Inl e" using next_missing m by (auto simp: physical_path_def)
  have "walk fs 255 [] ((anc @ [c]) @ cs) = Inl e" by (rule walk_append(1)) (simp add: m e)
  then have "e = Not_Exist" using missing by (simp add: physical_path_def)
  with e have "walk fs m real [c] = Inl Not_Exist" by simp
  then have none: "fs (real @ [c]) = None"
  proof (cases rule: walk_cases)
    case (link t k)
    then show ?thesis using links \<open>walk fs m real [c] = Inl Not_Exist\<close> unfolding links_lead_somewhere_def
      by (metis butlast_snoc last_snoc)
  qed (use plain in auto)
  have "\<not> is_link (fs q)" if q: "prefix q (real @ c # cs)" for q
  proof (cases "prefix q real")
    case True
    then show ?thesis using landed_link_free [OF landed] by (simp add: link_free_def)
  next
    case False
    then obtain us where "q = real @ us" "prefix us (c # cs)" using q by (auto simp: prefix_append)
    then obtain r where "q = (real @ [c]) @ r" using False by (cases us) auto
    then show ?thesis using tree_below [OF tree none] by simp
  qed
  then show ?thesis using landed plain by (auto simp: link_free_def landed_def)
qed

lemma nearest_ancestor_link_free:
  "tree fs \<Longrightarrow> links_lead_somewhere fs \<Longrightarrow> dotdot \<notin> set joined \<Longrightarrow> physical_path fs joined = Inl Not_Exist
     \<Longrightarrow> joined = anc @ c # cs \<Longrightarrow> \<exists>e. physical_path fs (anc @ [c]) = Inl e
     \<Longrightarrow> nearest_ancestor fs root joined anc = Inr p \<Longrightarrow> link_free fs p \<and> prefix root p"
proof (induction anc arbitrary: c cs rule: rev_induct)
  case Nil
  have top: "physical_path fs [] = Inr []" by (simp add: physical_path_def)
  then have "p = joined" "root = []"
    using Nil.prems by (auto simp: nearest_ancestor.simps [of fs root "c # cs" "[]"] split: if_splits)
  then show ?case using missing_link_free [OF Nil.prems(1,2) top, of c cs] Nil.prems by simp
next
  case (snoc x anc)
  show ?case
  proof (cases "physical_path fs (anc @ [x])")
    case (Inl e)
    then have "nearest_ancestor fs root joined anc = Inr p"
      using snoc.prems(7) by (simp add: nearest_ancestor.simps [of fs root joined "anc @ [x]"])
    then show ?thesis using snoc.IH [of x "c # cs"] snoc.prems(1-5) Inl by simp
  next
    case (Inr real)
    then have "p = real @ drop (Suc (length anc)) joined" "prefix root real"
      using snoc.prems(7) by (auto simp: nearest_ancestor.simps [of fs root joined "anc @ [x]"] split: if_splits)
    then have "p = real @ c # cs" "prefix root real" using snoc.prems(5) by simp_all
    then show ?thesis using missing_link_free [OF snoc.prems(1,2) Inr, of c cs] snoc.prems by simp
  qed
qed

lemma resolve_link_free:
  assumes "tree fs" "links_lead_somewhere fs" "resolve env fs workspace rel = Inr p"
    and "physical_path fs (abs_path env workspace) = Inr root"
  shows "link_free fs p" "prefix root p"
proof -
  let ?joined = "join_path (abs_path env workspace) rel"
  have plain: "dotdot \<notin> set ?joined" by (simp add: join_path_def clean_path_plain)
  have "link_free fs p \<and> prefix root p"
  proof (cases "physical_path fs ?joined")
    case (Inr q)
    then show ?thesis using assms physical_lands [OF assms(1) Inr] landed_link_free
      by (auto simp: resolve_def Let_def split: if_splits)
  next
    case (Inl e)
    then have e: "e = Not_Exist" "nearest_ancestor fs root ?joined (butlast ?joined) = Inr p"
      using assms by (auto simp: resolve_def Let_def split: if_splits)
    have "?joined \<noteq> []" using Inl by (auto simp: physical_path_def)
    then have split: "?joined = butlast ?joined @ last ?joined # []" by simp
    show ?thesis by (rule nearest_ancestor_link_free [OF assms(1,2) plain _ split _ e(2)]) (use Inl e split in auto)
  qed
  then show "link_free fs p" "prefix root p" by simp_all
qed

section \<open>What a call changes\<close>

text \<open>Entries outside the set are as they were, and no link is new.\<close>

definition changes :: "path set \<Rightarrow> file_system \<Rightarrow> file_system \<Rightarrow> bool" where
  "changes S fs fs' \<longleftrightarrow> (\<forall>q. q \<notin> S \<longrightarrow> fs' q = fs q) \<and> (\<forall>q. is_link (fs' q) \<longrightarrow> is_link (fs q))"

lemma changes_refl [simp]: "changes S fs fs"
  by (simp add: changes_def)

lemma changes_trans [trans]: "changes S fs fs' \<Longrightarrow> changes S fs' fs'' \<Longrightarrow> changes S fs fs''"
  by (simp add: changes_def)

lemma changes_mono: "changes S fs fs' \<Longrightarrow> S \<subseteq> S' \<Longrightarrow> changes S' fs fs'"
  by (auto simp: changes_def)

lemma changes_upd: "q \<in> S \<Longrightarrow> \<not> is_link n \<Longrightarrow> changes S fs (fs(q := n))"
  by (auto simp: changes_def)

lemma changes_link_free: "changes S fs fs' \<Longrightarrow> link_free fs p \<Longrightarrow> link_free fs' p"
  unfolding changes_def link_free_def by blast

lemma link_free_butlast: "link_free fs p \<Longrightarrow> link_free fs (butlast p)"
  by (rule link_free_prefix [OF _ prefixeq_butlast])

lemma kernel_path_same: "link_free fs p \<Longrightarrow> kernel_path fs p = Inr q \<Longrightarrow> q = p"
  unfolding kernel_path_def using walk_straight [of fs "[]" p 40 q] by simp

lemma kernel_entry_same: "link_free fs (butlast p) \<Longrightarrow> kernel_entry fs p = Inr q \<Longrightarrow> q = p"
  by (cases p rule: rev_cases) (auto simp: kernel_entry_def dest: kernel_path_same split: if_splits)

text \<open>Directories that were missing on the way to the path.\<close>

definition dirs_added :: "path \<Rightarrow> file_system \<Rightarrow> file_system \<Rightarrow> bool" where
  "dirs_added p fs fs' \<longleftrightarrow> (\<forall>q. fs' q = fs q \<or> prefix q p \<and> fs q = None \<and> fs' q = Some Dir_Node)"

lemma dirs_added_refl [simp]: "dirs_added p fs fs"
  by (simp add: dirs_added_def)

lemma dirs_added_at: "dirs_added p fs fs' \<Longrightarrow> fs' q = fs q \<or> prefix q p \<and> fs q = None \<and> fs' q = Some Dir_Node"
  by (simp add: dirs_added_def)

lemma dirs_added_changes:
  assumes "dirs_added p fs fs'" shows "changes {q. prefix q p \<and> fs q = None} fs fs'"
proof -
  have "(q \<notin> {q. prefix q p \<and> fs q = None} \<longrightarrow> fs' q = fs q) \<and> (is_link (fs' q) \<longrightarrow> is_link (fs q))" for q
    using dirs_added_at [OF assms, of q] by auto
  then show ?thesis by (simp add: changes_def)
qed

lemma dirs_added_snoc:
  assumes "dirs_added (butlast p) fs fs'" "fs' p = None" shows "dirs_added p fs (fs'(p \<mapsto> Dir_Node))"
proof -
  have "(fs'(p \<mapsto> Dir_Node)) q = fs q \<or> prefix q p \<and> fs q = None \<and> (fs'(p \<mapsto> Dir_Node)) q = Some Dir_Node" for q
    using dirs_added_at [OF assms(1), of q] assms(2) prefix_order.trans [OF _ prefixeq_butlast, of q p] by auto
  then show ?thesis by (simp add: dirs_added_def)
qed

lemma dirs_added_butlast: "dirs_added (butlast p) fs fs' \<Longrightarrow> dirs_added p fs fs'"
  unfolding dirs_added_def using prefix_order.trans prefixeq_butlast by blast

lemma sys_mkdir_cases:
  assumes "link_free fs (butlast p)"
  obtains (kept) e where "sys_mkdir env fs p = (fs, Inl e)"
  | (made) "fs p = None" "sys_mkdir env fs p = (fs(p \<mapsto> Dir_Node), Inr ())"
proof (cases "kernel_entry fs p")
  case (Inl e)
  then show thesis using kept by (simp add: sys_mkdir_def)
next
  case (Inr q)
  then have "q = p" using kernel_entry_same [OF assms] by simp
  then show thesis using kept made Inr
    by (cases "fs p = None"; cases "ee_refuses env (Mkdir_Call p)") (auto simp: sys_mkdir_def)
qed

lemma mkdir_all_adds: "link_free fs p \<Longrightarrow> dirs_added p fs (fst (mkdir_all env fs p))"
proof (induction env fs p rule: mkdir_all.induct)
  case (1 env fs p)
  show ?case
  proof (cases "sys_stat fs p")
    case (Inr x)
    then show ?thesis by (cases x) (simp_all add: mkdir_all.simps [of env fs p])
  next
    case (Inl e)
    show ?thesis
    proof (cases "p = []")
      case True
      then show ?thesis using Inl by (simp add: mkdir_all.simps [of env fs "[]"])
    next
      case False
      obtain fs' r where sub: "mkdir_all env fs (butlast p) = (fs', r)" by fastforce
      have added: "dirs_added (butlast p) fs fs'"
        using 1(1) [OF Inl False] link_free_butlast [OF 1(2)] sub by simp
      have lf: "link_free fs' (butlast p)"
        by (rule changes_link_free [OF dirs_added_changes [OF added] link_free_butlast [OF 1(2)]])
      show ?thesis
      proof (cases r)
        case (Inl e')
        then show ?thesis using sub \<open>sys_stat fs p = Inl e\<close> False dirs_added_butlast [OF added]
          by (simp add: mkdir_all.simps [of env fs p])
      next
        case (Inr u)
        from lf show ?thesis
        proof (cases rule: sys_mkdir_cases [where env = env])
          case (kept e'')
          then show ?thesis using sub Inr \<open>sys_stat fs p = Inl e\<close> False dirs_added_butlast [OF added]
            by (simp add: mkdir_all.simps [of env fs p])
        next
          case made
          then show ?thesis using sub Inr \<open>sys_stat fs p = Inl e\<close> False dirs_added_snoc [OF added]
            by (simp add: mkdir_all.simps [of env fs p] fun_upd_def)
        qed
      qed
    qed
  qed
qed

lemma create_temp_cases:
  assumes "link_free fs d"
  obtains (kept) e where "create_temp env fs d = (fs, Inl e)"
  | (made) "fs (d @ [temp_name env d]) = None"
      "create_temp env fs d = (fs(d @ [temp_name env d] \<mapsto> File_Node [] 0x180), Inr (d @ [temp_name env d]))"
proof (cases "kernel_entry fs (d @ [temp_name env d])")
  case (Inl e)
  then show thesis using kept by (simp add: create_temp_def Let_def)
next
  case (Inr q)
  then have "q = d @ [temp_name env d]" using kernel_entry_same [of fs "d @ [temp_name env d]"] assms by simp
  then show thesis using kept made Inr
    by (cases "fs q = None"; cases "ee_refuses env (Temp_Call q)") (auto simp: create_temp_def Let_def)
qed

lemma set_file_cases: "link_free fs p \<Longrightarrow> set_file fs p c m = fs \<or> set_file fs p c m = fs(p \<mapsto> File_Node c m)"
  by (auto simp: set_file_def split: sum.splits dest: kernel_path_same)

lemma set_file_changes: "link_free fs p \<Longrightarrow> changes {p} fs (set_file fs p c m)"
  using set_file_cases [of fs p c m] changes_upd [of p "{p}" "Some (File_Node c m)" fs] by auto

lemma rename_changes:
  assumes from_free: "link_free fs from" and to_free: "link_free fs (butlast to)"
  shows "changes {from, to} fs (fst (sys_rename env fs from to))"
proof (cases "kernel_entry fs from")
  case (Inl e)
  then show ?thesis by (simp add: sys_rename_def)
next
  case (Inr p)
  then have p: "p = from" using kernel_entry_same link_free_butlast [OF from_free] by blast
  show ?thesis
  proof (cases "kernel_entry fs to")
    case (Inl e)
    then show ?thesis using Inr by (simp add: sys_rename_def)
  next
    case to: (Inr q)
    then have q: "q = to" using kernel_entry_same to_free by blast
    have "\<not> is_link (fs from)" using from_free by (simp add: link_free_def)
    then have "changes {from, to} fs (fs(from := None, to := fs from))"
      by (auto simp: changes_def)
    then show ?thesis using Inr to p q by (auto simp: sys_rename_def split: option.splits)
  qed
qed

lemma remove_changes: "link_free fs (butlast p) \<Longrightarrow> changes {p} fs (fst (sys_remove env fs p))"
  by (auto simp: sys_remove_def split: sum.splits dest: kernel_entry_same intro: changes_upd)

lemma write_temp_changes:
  assumes "link_free fs temp" "link_free fs (butlast p)"
  shows "changes {temp, p} fs (fst (write_temp env fs temp p content mode))"
proof -
  let ?m = "file_mode mode"
  let ?fs1 = "set_file fs temp [] ?m" and ?fs2 = "set_file (set_file fs temp [] ?m) temp content ?m"
  have c1: "changes {temp, p} fs ?fs1" by (rule changes_mono [OF set_file_changes [OF assms(1)]]) simp
  have f1: "link_free ?fs1 temp" using changes_link_free [OF c1 assms(1)] .
  have "changes {temp, p} ?fs1 ?fs2" by (rule changes_mono [OF set_file_changes [OF f1]]) simp
  with c1 have c2: "changes {temp, p} fs ?fs2" by (rule changes_trans)
  have "changes {temp, p} ?fs2 (fst (sys_rename env ?fs2 temp p))"
    by (rule rename_changes [OF changes_link_free [OF c2 assms(1)] changes_link_free [OF c2 assms(2)]])
  with c2 have "changes {temp, p} fs (fst (sys_rename env ?fs2 temp p))" by (rule changes_trans)
  then show ?thesis using c1 c2 by (simp add: write_temp_def Let_def)
qed

lemma temp_name_plain: "temp_name env d \<noteq> dotdot"
  by (simp add: temp_name_def dotdot_def)

text \<open>What \<^verbatim>\<open>atomicWrite\<close> may change, whether it fails or not.\<close>

definition write_footprint :: "edit_env \<Rightarrow> file_system \<Rightarrow> path \<Rightarrow> path set" where
  "write_footprint env fs p =
     {q. prefix q (butlast p) \<and> fs q = None} \<union> {butlast p @ [temp_name env (butlast p)], p}"

lemma atomic_write_changes:
  assumes "link_free fs p"
  shows "changes (write_footprint env fs p) fs (fst (atomic_write env fs p content mode))"
proof -
  let ?d = "butlast p" and ?S = "write_footprint env fs p"
  let ?t = "?d @ [temp_name env ?d]"
  obtain fs1 r1 where mk: "mkdir_all env fs ?d = (fs1, r1)" by fastforce
  have c1: "changes ?S fs fs1"
    using dirs_added_changes [OF mkdir_all_adds [OF link_free_butlast [OF assms], of env]] mk
    by (auto intro: changes_mono simp: write_footprint_def)
  note free1 = changes_link_free [OF c1 link_free_butlast [OF assms]]
  show ?thesis
  proof (cases r1)
    case (Inl e)
    then show ?thesis using mk c1 by (simp add: atomic_write_def)
  next
    case (Inr u)
    from free1 show ?thesis
    proof (cases rule: create_temp_cases [where env = env])
      case (kept e)
      then show ?thesis using mk c1 Inr by (simp add: atomic_write_def)
    next
      case made
      let ?fs2 = "fs1(?t \<mapsto> File_Node [] 0x180)"
      have c2: "changes ?S fs ?fs2"
        by (rule changes_trans [OF c1 changes_upd]) (simp_all add: write_footprint_def)
      note free2 = changes_link_free [OF c2 link_free_butlast [OF assms]]
      have temp_free: "link_free ?fs2 ?t"
        using free2 temp_name_plain [of env ?d] by (auto simp: link_free_def prefix_snoc)
      have c3: "changes ?S ?fs2 (fst (write_temp env ?fs2 ?t p content mode))"
        by (rule changes_mono [OF write_temp_changes [OF temp_free free2]]) (simp add: write_footprint_def)
      obtain fs3 r3 where w: "write_temp env ?fs2 ?t p content mode = (fs3, r3)" by fastforce
      with c2 c3 have c3: "changes ?S fs fs3" by (auto intro: changes_trans)
      have "changes ?S fs3 (fst (sys_remove env fs3 ?t))"
        by (rule changes_mono [OF remove_changes])
          (use changes_link_free [OF c3 link_free_butlast [OF assms]] in \<open>simp_all add: write_footprint_def\<close>)
      with c3 have "changes ?S fs (fst (sys_remove env fs3 ?t))" by (rule changes_trans)
      then show ?thesis using mk Inr made w by (simp add: atomic_write_def)
    qed
  qed
qed

section \<open>A batch\<close>

abbreviation below :: "path \<Rightarrow> path set" where
  "below root \<equiv> {q. strict_prefix root q}"

text \<open>A target of the batch: below the root, and no link on the way.\<close>

definition good_target :: "file_system \<Rightarrow> path \<Rightarrow> path \<Rightarrow> bool" where
  "good_target fs root p \<longleftrightarrow> link_free fs p \<and> strict_prefix root p"

definition good_edit :: "file_system \<Rightarrow> path \<Rightarrow> prepared \<Rightarrow> bool" where
  "good_edit fs root p \<longleftrightarrow> good_target fs root (pr_abs p)
     \<and> (fe_operation (pr_edit p) = op_rename \<longrightarrow> good_target fs root (pr_new p))"

lemma good_target_keeps: "changes S fs fs' \<Longrightarrow> good_target fs root p \<Longrightarrow> good_target fs' root p"
  by (auto simp: good_target_def intro: changes_link_free)

lemma dirs_below: "changes (below root) fs fs' \<Longrightarrow> dirs fs root \<Longrightarrow> dirs fs' root"
  unfolding dirs_def changes_def by (metis mem_Collect_eq prefix_order.antisym strict_prefix_def)

lemma footprint_below:
  assumes "dirs fs root" "strict_prefix root p"
  shows "write_footprint env fs p \<subseteq> below root" "{q. prefix q (butlast p) \<and> fs q = None} \<subseteq> below root"
proof -
  have p: "prefix root (butlast p)" using assms(2) strict_prefix_butlast [of p root] by (cases "p = []") auto
  show new: "{q. prefix q (butlast p) \<and> fs q = None} \<subseteq> below root"
  proof
    fix q assume "q \<in> {q. prefix q (butlast p) \<and> fs q = None}"
    then have q: "prefix q (butlast p)" "fs q = None" by simp_all
    then have "\<not> prefix q root" using assms(1) by (auto simp: dirs_def)
    then show "q \<in> below root" using prefix_same_cases [OF q(1) p] by (auto simp: strict_prefix_def)
  qed
  have "strict_prefix root (butlast p @ [temp_name env (butlast p)])" using p by (simp add: strict_prefix_snoc)
  then show "write_footprint env fs p \<subseteq> below root" using new assms(2) by (auto simp: write_footprint_def)
qed

lemma root_remove_changes: "changes (below root) fs (fst (root_remove env fs root rel))"
  by (auto simp: root_remove_def Let_def strict_prefix_def split: sum.splits intro!: changes_upd)

lemma commit_edit_changes:
  assumes "dirs fs root" "good_edit fs root p"
  shows "changes (below root) fs (fst (commit_edit env root fs p))"
proof -
  let ?op = "fe_operation (pr_edit p)" and ?d = "butlast (pr_new p)"
  have abs: "link_free fs (pr_abs p)" "strict_prefix root (pr_abs p)"
    using assms(2) by (simp_all add: good_edit_def good_target_def)
  consider "?op = op_create \<or> ?op = op_update" | "?op = op_delete" | "?op = op_rename"
    | "?op \<notin> {op_create, op_update, op_delete, op_rename}" by blast
  then show ?thesis
  proof cases
    case 1
    then show ?thesis
      using changes_mono [OF atomic_write_changes [OF abs(1)] footprint_below(1) [OF assms(1) abs(2)]]
      by (auto simp: commit_edit_def)
  next
    case 2
    then show ?thesis by (simp add: commit_edit_def root_remove_changes)
  next
    case 3
    then have new: "link_free fs (pr_new p)" "strict_prefix root (pr_new p)"
      using assms(2) by (simp_all add: good_edit_def good_target_def)
    obtain fs' r where mk: "mkdir_all env fs ?d = (fs', r)" by fastforce
    have c: "changes (below root) fs fs'"
      using changes_mono [OF dirs_added_changes [OF mkdir_all_adds [OF link_free_butlast [OF new(1)], of env]]
        footprint_below(2) [OF assms(1) new(2)]] mk by simp
    have "changes (below root) fs' (fst (sys_rename env fs' (pr_abs p) (pr_new p)))"
      by (rule changes_mono [OF rename_changes [OF changes_link_free [OF c abs(1)]
        changes_link_free [OF c link_free_butlast [OF new(1)]]]]) (simp add: abs new)
    with c have "changes (below root) fs (fst (sys_rename env fs' (pr_abs p) (pr_new p)))" by (rule changes_trans)
    then show ?thesis using 3 mk c by (cases r) (simp_all add: commit_edit_def)
  next
    case 4
    then show ?thesis by (simp add: commit_edit_def)
  qed
qed

lemma commit_all_changes:
  "dirs fs root \<Longrightarrow> \<forall>p \<in> set ps. good_edit fs root p \<Longrightarrow> changes (below root) fs (fst (commit_all env root fs ps))"
proof (induction ps arbitrary: fs)
  case (Cons p ps)
  obtain fs' r where step: "commit_edit env root fs p = (fs', r)" by fastforce
  have c: "changes (below root) fs fs'" using commit_edit_changes [of fs root p env] Cons.prems step by simp
  have "\<forall>p \<in> set ps. good_edit fs' root p"
    using Cons.prems(2) good_target_keeps [OF c] by (auto simp: good_edit_def)
  then have "changes (below root) fs (fst (commit_all env root fs' ps))"
    using Cons.IH [of fs'] dirs_below [OF c Cons.prems(1)] c by (auto intro: changes_trans)
  then show ?case using step c by (cases r) simp_all
qed simp

text \<open>The second check finds good targets.\<close>

lemma root_is_no_target:
  assumes "dirs fs root" "link_free fs root"
  shows "\<not> is_ok (os_read_file env fs root)" "\<not> absent fs root"
proof -
  have dir: "fs root = Some Dir_Node" using dirs_self [OF assms(1)] .
  have path: "kernel_path fs p = Inr p" if "prefix p root" for p
  proof -
    have "walk fs 40 [] p = Inr ([] @ p)"
    proof (rule walk_along)
      show "dotdot \<notin> set p" using link_free_prefix [OF assms(2) that] by (simp add: link_free_def)
      show "fs q = Some Dir_Node" if "strict_prefix q ([] @ p)" for q
        using that \<open>prefix p root\<close> assms(1) by (auto simp: dirs_def strict_prefix_def)
      show "p = [] \<or> fs ([] @ p) \<noteq> None \<and> \<not> is_link (fs ([] @ p))"
        using that assms(1) by (simp add: dirs_def)
    qed
    then show ?thesis by (simp add: kernel_path_def)
  qed
  have stat: "sys_stat fs root = Inr Dir_Node" using path [of root] dir by (simp add: sys_stat_def)
  then show "\<not> is_ok (os_read_file env fs root)" by (simp add: os_read_file_def is_ok_iff)
  have "kernel_entry fs root = Inr root"
    using path [OF prefixeq_butlast] assms(1) prefixeq_butlast [of root] by (auto simp: kernel_entry_def dirs_def)
  then show "\<not> absent fs root" using dir by (simp add: absent_def sys_lstat_def)
qed

lemma no_root_target: "dirs fs root \<Longrightarrow> link_free fs p \<Longrightarrow> prefix root p \<Longrightarrow>
    is_ok (os_read_file env fs p) \<or> absent fs p \<Longrightarrow> good_target fs root p"
  using root_is_no_target(1) [of fs root env] root_is_no_target(2) [of fs root] by (auto simp: good_target_def strict_prefix_def)

lemma recheck_edit_good:
  assumes fs: "tree fs" "links_lead_somewhere fs"
    and root: "physical_path fs (abs_path env (rq_root rq)) = Inr root" "dirs fs root"
    and ok: "recheck_edit env fs rq i p = Inr ()"
  shows "good_edit fs root p"
proof -
  have abs: "resolve env fs (rq_root rq) (fe_path (pr_edit p)) = Inr (pr_abs p)"
    and there: "is_ok (os_read_file env fs (pr_abs p)) \<or> absent fs (pr_abs p)"
    and new: "fe_operation (pr_edit p) = op_rename \<Longrightarrow>
      resolve env fs (rq_root rq) (fe_new_path (pr_edit p)) = Inr (pr_new p) \<and> absent fs (pr_new p)"
    using ok by (auto simp: recheck_edit_def Let_def is_ok_iff split: if_splits)
  note free = resolve_link_free [OF fs _ root(1)]
  show ?thesis unfolding good_edit_def
    using no_root_target [OF root(2) free(1,2) [OF abs] there] no_root_target [OF root(2) free(1,2)] new by blast
qed

lemma recheck_all_edits: "recheck_all env fs rq i ps = Inr () \<Longrightarrow> p \<in> set ps \<Longrightarrow> \<exists>j. recheck_edit env fs rq j p = Inr ()"
  by (induction ps arbitrary: i) auto

lemma commit_all_no_delete:
  "\<not> list_ex (\<lambda>p. fe_operation (pr_edit p) = op_delete) ps \<Longrightarrow> commit_all env d fs ps = commit_all env root fs ps"
proof (induction ps arbitrary: fs)
  case (Cons p ps)
  then have "commit_edit env d fs p = commit_edit env root fs p" by (simp add: commit_edit_def Let_def)
  moreover have "commit_all env d fs' ps = commit_all env root fs' ps" for fs' using Cons by simp
  ultimately show ?case by simp
qed simp

text \<open>A workspace that is named without going up.\<close>

definition plain_workspace :: "edit_env \<Rightarrow> batch_request \<Rightarrow> bool" where
  "plain_workspace env rq \<longleftrightarrow> dotdot \<notin> set (ee_cwd env) \<and> dotdot \<notin> set (components (rq_root rq))"

lemma open_root_physical:
  assumes "plain_workspace env rq" "open_root env fs (rq_root rq) = Inr d"
  shows "physical_path fs (abs_path env (rq_root rq)) = Inr d"
proof -
  have "abs_path env (rq_root rq) = (if is_abs (rq_root rq) then components (rq_root rq) else ee_cwd env @ components (rq_root rq))"
    using assms(1) by (auto simp: abs_path_def plain_workspace_def intro: clean_path_same)
  then have "walk fs 40 [] (abs_path env (rq_root rq)) = Inr d"
    using assms(2) by (auto simp: open_root_def kernel_path_def split: if_splits)
  from walk_more [OF this, of 255] show ?thesis by (simp add: physical_path_def)
qed

text \<open>The file system when the second check begins: the hook has run.\<close>

definition at_writing :: "edit_env \<Rightarrow> batch_request \<Rightarrow> batch_hook \<Rightarrow> file_system \<Rightarrow> file_system" where
  "at_writing env rq hook fs =
     (if blank (rq_root rq) \<or> rq_edits rq = [] then fs
      else case prepare_all env fs rq 0 0 [] (rq_edits rq) of
        Inl e \<Rightarrow> fs
      | Inr ps \<Rightarrow> if rq_dry rq then fs else fst (hook (plan_batch env ps) fs))"

text \<open>Either the batch ends before the second check, or it is the writing of what was prepared.\<close>

lemma batch_cases:
  obtains (early) r where "apply_batch_with_hook env rq hook fs = (at_writing env rq hook fs, r)"
      "is_ok r \<longrightarrow> rq_dry rq"
  | (writing) ps where "prepare_all env fs rq 0 0 [] (rq_edits rq) = Inr ps"
      "apply_batch_with_hook env rq hook fs = write_batch env (at_writing env rq hook fs) rq ps" "\<not> rq_dry rq"
proof (cases "blank (rq_root rq) \<or> rq_edits rq = [] \<or> rq_dry rq \<or> \<not> is_ok (prepare_all env fs rq 0 0 [] (rq_edits rq))")
  case True
  let ?run = "apply_batch_with_hook env rq hook fs"
  have "fst ?run = at_writing env rq hook fs" "is_ok (snd ?run) \<longrightarrow> rq_dry rq"
    using True by (auto simp: apply_batch_with_hook_def at_writing_def is_ok_iff split: sum.splits)
  then show thesis using early [of "snd ?run"] by (simp add: prod_eq_iff)
next
  case False
  then obtain ps where ps: "prepare_all env fs rq 0 0 [] (rq_edits rq) = Inr ps" by (auto simp: is_ok_iff)
  obtain fs' e where h: "hook (plan_batch env ps) fs = (fs', e)" by fastforce
  show thesis
  proof (cases e)
    case None
    then show thesis using False ps h writing [of ps] by (simp add: apply_batch_with_hook_def at_writing_def)
  next
    case (Some x)
    then show thesis using False ps h early [of "Inl x"] by (simp add: apply_batch_with_hook_def at_writing_def)
  qed
qed

lemma write_batch_changes:
  assumes fs: "tree fs" "links_lead_somewhere fs" and plain: "plain_workspace env rq"
    and root: "physical_path fs (abs_path env (rq_root rq)) = Inr root" "fs root = Some Dir_Node"
  shows "changes (below root) fs (fst (write_batch env fs rq ps))"
proof (cases "recheck_all env fs rq 0 ps")
  case (Inl e)
  then show ?thesis by (simp add: write_batch_def)
next
  case (Inr u)
  have dirs: "dirs fs root" using landed_is_dirs [OF physical_lands [OF fs(1) root(1)] root(2)] .
  have "good_edit fs root p" if "p \<in> set ps" for p
    using recheck_all_edits [of env fs rq 0 ps p] that Inr recheck_edit_good [OF fs root(1) dirs] by auto
  then have good: "\<forall>p \<in> set ps. good_edit fs root p" by blast
  have same: "commit_all env d fs ps = commit_all env root fs ps"
    if d: "(if list_ex (\<lambda>p. fe_operation (pr_edit p) = op_delete) ps then open_root env fs (rq_root rq) else Inr []) = Inr d" for d
  proof (cases "list_ex (\<lambda>p. fe_operation (pr_edit p) = op_delete) ps")
    case True
    then show ?thesis using d open_root_physical [OF plain, of fs d] root(1) by simp
  next
    case False
    then show ?thesis by (intro commit_all_no_delete) simp
  qed
  show ?thesis using Inr commit_all_changes [OF dirs good, of env] same
    by (auto simp: write_batch_def split: sum.splits prod.splits)
qed

text \<open>C16: whatever a batch does and however it ends, every entry of the file system that is not below the
  physical workspace root is as it was when the writing began, unless the name of the workspace has \<^verbatim>\<open>..\<close> in it or
  some link leads to something that is missing.\<close>

theorem batch_stays_below_the_root:
  assumes "W = at_writing env rq hook fs" and fs: "tree W" "links_lead_somewhere W"
    and plain: "plain_workspace env rq"
    and root: "physical_path W (abs_path env (rq_root rq)) = Inr root" "W root = Some Dir_Node"
  shows "fst (apply_batch_with_hook env rq hook fs) q = W q \<or> strict_prefix root q"
proof (cases rule: batch_cases [of env rq hook fs])
  case (early r)
  then show ?thesis using assms(1) by simp
next
  case (writing ps)
  then show ?thesis using write_batch_changes [OF fs plain root, of ps] assms(1) by (auto simp: changes_def)
qed

section \<open>What a successful batch has done\<close>

text \<open>The bytes an edit that is no deletion asks for, and where.\<close>

definition asked_update :: "edit_env \<Rightarrow> file_system \<Rightarrow> file_edit \<Rightarrow> path \<Rightarrow> bytes \<Rightarrow> bool" where
  "asked_update env fs item p content \<longleftrightarrow>
     (\<exists>original mode text f text' path i. read_file env fs p = Inr (original, mode)
        \<and> normalize_to_logical original = Inr (text, f) \<and> update_text text item path i = Inr text'
        \<and> content = encode_with_original_format text' f original)"

definition asked :: "edit_env \<Rightarrow> file_system \<Rightarrow> batch_request \<Rightarrow> file_edit \<Rightarrow> path \<Rightarrow> bytes \<Rightarrow> bool" where
  "asked env fs rq item p content \<longleftrightarrow>
     (let op = edit_operation item; here = (\<lambda>name q. resolve env fs (rq_root rq) (trim_space name) = Inr q) in
      (op = op_rename \<and> here (fe_new_path item) p
         \<and> (\<exists>q mode. here (fe_path item) q \<and> read_file env fs q = Inr (content, mode)))
      \<or> (op = op_create \<or> op = op_update) \<and> here (fe_path item) p
         \<and> (case fe_base64 item of
               Some b64 \<Rightarrow> ee_base64 env b64 = Some content
             | None \<Rightarrow>
                 if op = op_update then asked_update env fs item p content
                 else content = encode_with_format (strip_bom (normalize_newlines (fe_content item)))
                        (create_format (fe_content item))))"

lemma base_prepared_fields [simp]:
  "pr_edit (base_prepared item p) = item\<lparr>fe_operation := edit_operation item\<rparr>" "pr_abs (base_prepared item p) = p"
  "\<not> pr_deleted (base_prepared item p)"
  by (simp_all add: base_prepared_def)

lemma exact_bytes_ok:
  "exact_bytes env item path i = Inr exact \<Longrightarrow>
     (case fe_base64 item of None \<Rightarrow> exact = None | Some b64 \<Rightarrow> \<exists>c. exact = Some c \<and> ee_base64 env b64 = Some c)"
  by (auto simp: exact_bytes_def Let_def split: option.splits if_splits)

lemma proposal_ok:
  "proposal exact encoded text = Inr (proposed, shown) \<Longrightarrow> proposed = (case exact of None \<Rightarrow> encoded | Some content \<Rightarrow> content)"
  by (auto simp: proposal_def split: option.splits)

lemma read_checked_ok:
  "read_checked env fs item path i p = Inr (original, mode) \<longleftrightarrow>
     read_file env fs p = Inr (original, mode) \<and> check_base (ee_sha env) original (fe_base item) path i = Inr ()"
  by (auto simp: read_checked_def)

text \<open>What preparation has found out about an edit.\<close>

definition base_seen :: "edit_env \<Rightarrow> file_system \<Rightarrow> file_edit \<Rightarrow> path \<Rightarrow> bytes \<Rightarrow> bool" where
  "base_seen env fs item p content \<longleftrightarrow>
     (\<exists>mode path i. read_file env fs p = Inr (content, mode) \<and> check_base (ee_sha env) content (fe_base item) path i = Inr ())"

lemma prepare_create_ok:
  assumes "prepare_create env fs item path i p exact = Inr r"
  shows "pr_edit r = item\<lparr>fe_operation := edit_operation item\<rparr>" "pr_abs r = p" "\<not> pr_deleted r"
    "pr_hash r = hash_bytes (ee_sha env) (pr_proposed r)"
    "pr_proposed r = (case exact of
        None \<Rightarrow> encode_with_format (strip_bom (normalize_newlines (fe_content item))) (create_format (fe_content item))
      | Some content \<Rightarrow> content)"
  using assms by (auto simp: prepare_create_def Let_def split: sum.splits if_splits dest!: proposal_ok)

lemma base_seenI: "read_checked env fs item path i p = Inr (original, mode) \<Longrightarrow> base_seen env fs item p original"
  unfolding read_checked_ok base_seen_def by blast

lemma prepare_update_ok:
  assumes "prepare_update env fs item path i p exact = Inr r"
  shows "pr_edit r = item\<lparr>fe_operation := edit_operation item\<rparr>" "pr_abs r = p" "\<not> pr_deleted r"
    "pr_hash r = hash_bytes (ee_sha env) (pr_proposed r)"
    "case exact of None \<Rightarrow> asked_update env fs item p (pr_proposed r) | Some content \<Rightarrow> pr_proposed r = content"
    "base_seen env fs item p (pr_original r)"
proof -
  obtain original mode old f new proposed shown d where
    steps: "read_checked env fs item path i p = Inr (original, mode)" "read_logical original path i = Inr (old, f)"
      "update_text old item path i = Inr new"
      "proposal exact (encode_with_original_format new f original) new = Inr (proposed, shown)"
    and r: "r = (base_prepared item p)\<lparr>pr_original := original, pr_mode := mode, pr_proposed := proposed, pr_diff := fst d,
      pr_changed := snd d, pr_hash := hash_bytes (ee_sha env) proposed\<rparr>"
    using assms unfolding prepare_update_def by auto
  show "pr_edit r = item\<lparr>fe_operation := edit_operation item\<rparr>" "pr_abs r = p" "\<not> pr_deleted r"
    "pr_hash r = hash_bytes (ee_sha env) (pr_proposed r)" by (simp_all add: r)
  show "base_seen env fs item p (pr_original r)" using base_seenI [OF steps(1)] by (simp add: r)
  show "case exact of None \<Rightarrow> asked_update env fs item p (pr_proposed r) | Some content \<Rightarrow> pr_proposed r = content"
    using steps proposal_ok [OF steps(4)]
    by (cases exact) (auto simp: r asked_update_def read_checked_ok read_logical_def)
qed

lemma prepare_delete_ok:
  assumes "prepare_delete env fs item path i lexical p = Inr r"
  shows "pr_edit r = item\<lparr>fe_operation := edit_operation item\<rparr>" "pr_abs r = p" "base_seen env fs item p (pr_original r)"
  using assms by (auto simp: prepare_delete_def intro: base_seenI split: sum.splits node.splits)

lemma prepare_rename_ok:
  assumes "prepare_rename env fs rq item path i p seen = Inr (r, seen')"
  shows "pr_edit r = item\<lparr>fe_operation := edit_operation item\<rparr>" "pr_abs r = p" "\<not> pr_deleted r"
    "pr_hash r = hash_bytes (ee_sha env) (pr_proposed r)" "pr_proposed r = pr_original r"
    "resolve env fs (rq_root rq) (trim_space (fe_new_path item)) = Inr (pr_new r)"
    "base_seen env fs item p (pr_original r)"
  using assms by (auto simp: prepare_rename_def Let_def intro: base_seenI split: if_splits)

text \<open>One edit, whatever its operation.\<close>

definition prepared_well :: "edit_env \<Rightarrow> file_system \<Rightarrow> batch_request \<Rightarrow> file_edit \<Rightarrow> prepared \<Rightarrow> bool" where
  "prepared_well env fs rq item r \<longleftrightarrow>
     pr_edit r = item\<lparr>fe_operation := edit_operation item\<rparr>
     \<and> resolve env fs (rq_root rq) (trim_space (fe_path item)) = Inr (pr_abs r)
     \<and> (edit_operation item \<noteq> op_delete \<longrightarrow> \<not> pr_deleted r \<and> pr_hash r = hash_bytes (ee_sha env) (pr_proposed r)
          \<and> asked env fs rq item (target_of r) (pr_proposed r))
     \<and> (edit_operation item \<noteq> op_create \<longrightarrow> base_seen env fs item (pr_abs r) (pr_original r))"

lemma prepare_edit_ok:
  assumes "prepare_edit env fs rq i seen item = Inr (r, seen')"
  shows "prepared_well env fs rq item r"
proof -
  let ?op = "edit_operation item" and ?path = "trim_space (fe_path item)"
  obtain lexical p exact seen1 where here: "resolve env fs (rq_root rq) ?path = Inr p"
    and exact: "exact_bytes env item ?path (int i) = Inr exact"
    and made: "(if ?op = op_create then and_then (prepare_create env fs item ?path (int i) p exact) (\<lambda>r. Inr (r, seen1))
             else if ?op = op_update then and_then (prepare_update env fs item ?path (int i) p exact) (\<lambda>r. Inr (r, seen1))
             else if ?op = op_delete then and_then (prepare_delete env fs item ?path (int i) lexical p) (\<lambda>r. Inr (r, seen1))
             else if ?op = op_rename then prepare_rename env fs rq item ?path i p seen1
             else Inl (edit_error UNSUPPORTED ?path (int i))) = Inr (r, seen')"
    using assms by (auto simp: prepare_edit_def Let_def split: if_splits)
  note exact = exact_bytes_ok [OF exact]
  consider "?op = op_create" | "?op = op_update" | "?op = op_delete" | "?op = op_rename"
    using made by (auto split: if_splits)
  then show ?thesis
  proof cases
    case 1
    then have "prepare_create env fs item ?path (int i) p exact = Inr r" using made by simp
    note ok = prepare_create_ok [OF this]
    show ?thesis using ok here exact 1
      by (auto simp: prepared_well_def asked_def target_of_def split: option.splits)
  next
    case 2
    then have "prepare_update env fs item ?path (int i) p exact = Inr r" using made by simp
    note ok = prepare_update_ok [OF this]
    show ?thesis using ok here exact 2
      by (auto simp: prepared_well_def asked_def target_of_def split: option.splits)
  next
    case 3
    then have "prepare_delete env fs item ?path (int i) lexical p = Inr r" using made by simp
    note ok = prepare_delete_ok [OF this]
    show ?thesis using ok here 3 by (simp add: prepared_well_def)
  next
    case 4
    then have "prepare_rename env fs rq item ?path i p seen1 = Inr (r, seen')" using made by simp
    note ok = prepare_rename_ok [OF this]
    have "asked env fs rq item (pr_new r) (pr_original r)"
      using ok(6,7) here 4 by (auto simp: asked_def Let_def base_seen_def)
    then show ?thesis using ok here 4 by (simp add: prepared_well_def target_of_def)
  qed
qed

lemma prepare_all_ok:
  "prepare_all env fs rq i changed seen items = Inr ps \<Longrightarrow> list_all2 (prepared_well env fs rq) items ps"
proof (induction items arbitrary: i changed seen ps)
  case (Cons item items)
  then show ?case by (auto simp: Let_def intro: prepare_edit_ok split: if_splits)
qed simp

lemma read_back_all_ok:
  "read_back_all env fs i ps rs = Inr rs' \<Longrightarrow> length rs = length ps \<Longrightarrow>
     (\<forall>p \<in> set ps. pr_deleted p \<or> (\<exists>content. os_read_file env fs (target_of p) = Inr content
        \<and> hash_bytes (ee_sha env) content = pr_hash p))
     \<and> map fr_changed rs' = map fr_changed rs"
proof (induction env fs i ps rs arbitrary: rs' rule: read_back_all.induct)
  case (1 env fs i p ps r rs)
  then show ?case by (auto simp: read_back_def Let_def split: if_splits)
qed simp_all

lemma write_batch_ok:
  assumes "write_batch env fs rq ps = (fs', Inr res)"
  shows "\<forall>p \<in> set ps. pr_deleted p \<or> (\<exists>content. os_read_file env fs' (target_of p) = Inr content
        \<and> hash_bytes (ee_sha env) content = pr_hash p)"
    "map fr_changed (br_results res) = map pr_changed ps" "br_total res = sum_list (map pr_changed ps)"
proof -
  obtain rs where rs: "read_back_all env fs' 0 ps (map (plan_result env) ps) = Inr rs"
    and res: "res = (plan_batch env ps)\<lparr>br_results := rs\<rparr>"
    using assms by (auto simp: write_batch_def plan_batch_def split: sum.splits prod.splits)
  note ok = read_back_all_ok [OF rs, simplified]
  from ok show "\<forall>p \<in> set ps. pr_deleted p \<or> (\<exists>content. os_read_file env fs' (target_of p) = Inr content
        \<and> hash_bytes (ee_sha env) content = pr_hash p)" by blast
  have "map fr_changed (map (plan_result env) ps) = map pr_changed ps" by (simp add: plan_result_def Let_def)
  then show "map fr_changed (br_results res) = map pr_changed ps" using ok by (simp add: res)
  show "br_total res = sum_list (map pr_changed ps)" by (simp add: res plan_batch_def)
qed

lemma hash_bytes_same [simp]: "hash_bytes sha a = hash_bytes sha b \<longleftrightarrow> sha a = sha b"
  by (simp add: hash_bytes_def)

lemma list_all2_member: "list_all2 P xs ys \<Longrightarrow> x \<in> set xs \<Longrightarrow> \<exists>y \<in> set ys. P x y"
  by (metis in_set_conv_nth list_all2_conv_all_nth)

text \<open>C20: after a batch that has succeeded, each edit that is no deletion finds at the place its path led to a
  file with the digest of the bytes it asked for: the new text in the encoding of the file, the given bytes, or
  the content of the renamed file.\<close>

theorem successful_batch_is_on_disk:
  assumes "apply_batch_with_hook env rq hook fs = (fs', Inr res)" "\<not> rq_dry rq"
    and "item \<in> set (rq_edits rq)" "edit_operation item \<noteq> op_delete"
  shows "\<exists>p wanted content. asked env fs rq item p wanted \<and> os_read_file env fs' p = Inr content
    \<and> ee_sha env content = ee_sha env wanted"
proof (cases rule: batch_cases [of env rq hook fs])
  case (early r)
  then show ?thesis using assms(1,2) by auto
next
  case (writing ps)
  then obtain r where r: "r \<in> set ps" "prepared_well env fs rq item r"
    using list_all2_member [OF prepare_all_ok assms(3)] by blast
  then show ?thesis
    using write_batch_ok(1) [of env _ rq ps fs' res] writing(2) assms(1,4) unfolding prepared_well_def by fastforce
qed

section \<open>Revisions\<close>

text \<open>SHA-256 in hexadecimal.\<close>

definition hex_digests :: "edit_env \<Rightarrow> bool" where
  "hex_digests env \<longleftrightarrow> (\<forall>c. set (ee_sha env c) \<subseteq> set ''0123456789abcdef'')"

lemma to_lower_plain:
  "list_all (\<lambda>c. c \<noteq> CHR 0xC4 \<and> c \<noteq> CHR 0xE2 \<and> lower_char c = c) s \<Longrightarrow> to_lower s = s"
  by (induction s) (simp_all add: has_prefix_def)

definition hash_chars :: bytes where
  "hash_chars = ''0123456789abcdefsh:''"

lemma hash_chars_plain:
  "c \<in> set hash_chars \<Longrightarrow> c \<noteq> CHR 0xC4 \<and> c \<noteq> CHR 0xE2 \<and> lower_char c = c"
  "c \<in> set hash_chars \<Longrightarrow> c \<notin> set (concat space_encodings)"
proof -
  have "list_all (\<lambda>c. (c \<noteq> CHR 0xC4 \<and> c \<noteq> CHR 0xE2 \<and> lower_char c = c) \<and> c \<notin> set (concat space_encodings)) hash_chars"
    by code_simp
  then show "c \<in> set hash_chars \<Longrightarrow> c \<noteq> CHR 0xC4 \<and> c \<noteq> CHR 0xE2 \<and> lower_char c = c"
    "c \<in> set hash_chars \<Longrightarrow> c \<notin> set (concat space_encodings)"
    unfolding list_all_iff by blast+
qed

lemma check_own_hash:
  assumes "hex_digests env"
  shows "check_base (ee_sha env) current (hash_bytes (ee_sha env) seen) path i = Inr () \<longleftrightarrow> ee_sha env current = ee_sha env seen"
proof -
  have hex: "set (hash_bytes (ee_sha env) c) \<subseteq> set hash_chars" for c
  proof -
    have "set ''0123456789abcdef'' \<subseteq> set hash_chars" "set ''sha256:'' \<subseteq> set hash_chars"
      unfolding hash_chars_def by (simp_all only: list.set insert_subset insert_iff) simp_all
    then show ?thesis using assms unfolding hex_digests_def hash_bytes_def set_append by blast
  qed
  have low: "to_lower (hash_bytes (ee_sha env) c) = hash_bytes (ee_sha env) c" for c
    by (rule to_lower_plain) (use hex hash_chars_plain(1) in \<open>auto simp: list_all_iff\<close>)
  have "trim_space (hash_bytes (ee_sha env) seen) = hash_bytes (ee_sha env) seen"
    by (rule trim_space_plain) (use hex hash_chars_plain(2) in blast)
  moreover have "hash_bytes (ee_sha env) seen \<noteq> []" by (simp add: hash_bytes_def)
  moreover have "trim_prefix (hash_bytes (ee_sha env) c) ''sha256:'' = ee_sha env c" for c
    by (simp add: hash_bytes_def trim_prefix_def has_prefix_def)
  ultimately show ?thesis by (simp add: check_base_def Let_def low)
qed

text \<open>C18: when a batch has written anything or has succeeded, then as the writing began every edit had its
  revision: the file of an update, a rename or a deletion had the digest of the content that was read when the
  edit was prepared and that its base was compared with, and the place of a creation was free.\<close>

theorem edits_keep_their_revision:
  assumes "hex_digests env" "apply_batch_with_hook env rq hook fs = (fs', r)" "\<not> rq_dry rq"
    and "is_ok r \<or> fs' \<noteq> at_writing env rq hook fs" "item \<in> set (rq_edits rq)"
  shows "\<exists>p. resolve env fs (rq_root rq) (trim_space (fe_path item)) = Inr p \<and>
    (if edit_operation item = op_create then absent (at_writing env rq hook fs) p
     else \<exists>seen current. base_seen env fs item p seen \<and> os_read_file env (at_writing env rq hook fs) p = Inr current
       \<and> ee_sha env current = ee_sha env seen)"
proof (cases rule: batch_cases [of env rq hook fs])
  case (early r)
  then show ?thesis using assms(2-4) by simp
next
  case (writing ps)
  let ?W = "at_writing env rq hook fs"
  have "recheck_all env ?W rq 0 ps = Inr ()"
    using writing(2) assms(2,4) by (cases "recheck_all env ?W rq 0 ps") (auto simp: write_batch_def)
  moreover obtain x where x: "x \<in> set ps" "prepared_well env fs rq item x"
    using list_all2_member [OF prepare_all_ok [OF writing(1)] assms(5)] by blast
  ultimately obtain j where "recheck_edit env ?W rq j x = Inr ()" using recheck_all_edits by blast
  then have there: "edit_operation item = op_create \<Longrightarrow> absent ?W (pr_abs x)"
    "edit_operation item \<noteq> op_create \<Longrightarrow> \<exists>current. os_read_file env ?W (pr_abs x) = Inr current
       \<and> ee_sha env current = ee_sha env (pr_original x)"
    using x(2) by (auto simp: recheck_edit_def Let_def prepared_well_def check_own_hash [OF assms(1)] split: if_splits)
  then show ?thesis using x(2) unfolding prepared_well_def by auto
qed

section \<open>The size of a batch\<close>

lemma prepare_all_bound:
  "prepare_all env fs rq i changed seen items = Inr ps \<Longrightarrow> items \<noteq> [] \<or> changed \<le> max_changed_lines
     \<Longrightarrow> changed + sum_list (map pr_changed ps) \<le> max_changed_lines"
proof (induction items arbitrary: i changed seen ps)
  case (Cons item items)
  then show ?case by (fastforce simp: Let_def add.assoc not_less split: if_splits)
qed simp

text \<open>A batch that succeeds, dry or not, changes at most a thousand lines, and the number it reports is the sum
  over its edits.\<close>

theorem batch_changes_at_most:
  assumes "apply_batch_with_hook env rq hook fs = (fs', Inr res)"
  shows "br_total res \<le> 1000 \<and> br_total res = sum_list (map fr_changed (br_results res))
    \<and> length (br_results res) = length (rq_edits rq)"
proof -
  obtain ps where ps: "prepare_all env fs rq 0 0 [] (rq_edits rq) = Inr ps"
    and res: "res = plan_batch env ps \<or> (\<exists>W. write_batch env W rq ps = (fs', Inr res))"
    using assms by (auto simp: apply_batch_with_hook_def split: if_splits sum.splits prod.splits option.splits)
  have "map fr_changed (br_results res) = map pr_changed ps" "br_total res = sum_list (map pr_changed ps)"
    using res write_batch_ok(2,3) by (auto simp: plan_batch_def plan_result_def Let_def)
  moreover have "sum_list (map pr_changed ps) \<le> 1000"
    using prepare_all_bound [OF ps] by (simp add: max_changed_lines_def)
  moreover have "length ps = length (rq_edits rq)" using list_all2_lengthD [OF prepare_all_ok [OF ps]] by simp
  ultimately show ?thesis by (metis length_map)
qed

section \<open>A run\<close>

definition edit_sample_env :: edit_env where
  "edit_sample_env = \<lparr>ee_cwd = [], ee_sha = hex_encode, ee_base64 = (\<lambda>b. None), ee_temp = (\<lambda>d. ''1''),
     ee_refuses = (\<lambda>c. False)\<rparr>"

definition simple_edit :: "bytes \<Rightarrow> bytes \<Rightarrow> bytes \<Rightarrow> file_edit" where
  "simple_edit op p content =
     \<lparr>fe_path = p, fe_operation = op, fe_base = [], fe_revision = [], fe_content = content, fe_new_path = [],
      fe_replacements = [], fe_range = None, fe_base64 = None, fe_policy = [], fe_expected = None\<rparr>"

definition simple_request :: "file_edit list \<Rightarrow> batch_request" where
  "simple_request edits = \<lparr>rq_root = ''/ws'', rq_edits = edits, rq_dry = False, rq_validate = (\<lambda>p. None)\<rparr>"

definition sample_files :: file_system where
  "sample_files = map_of [([], Dir_Node), ([''ws''], Dir_Node), ([''ws'', ''a''], File_Node ''one'' 0x1A4), ([''out''], Dir_Node)]"

definition sample_edits :: "file_edit list" where
  "sample_edits = [simple_edit ''create'' ''new/f'' ''x'', simple_edit ''update'' ''a'' ''two'']"

lemma sample_at_writing: "at_writing env rq no_hook fs = fs"
  by (simp add: at_writing_def no_hook_def split: sum.splits)

lemma tree_map_of:
  assumes "map_of xs [] = Some Dir_Node" "list_all (\<lambda>(q, n). q = [] \<or> map_of xs (butlast q) = Some Dir_Node) xs"
  shows "tree (map_of xs)"
proof -
  have "map_of xs q = Some Dir_Node" if "map_of xs (q @ [c]) = Some n" for q c n
    using assms(2) map_of_SomeD [OF that] unfolding list_all_iff by fastforce
  then show ?thesis using assms(1) by (auto simp: tree_def)
qed

lemma no_links_map_of: "list_all (\<lambda>(q, n). \<not> is_link (Some n)) xs \<Longrightarrow> links_lead_somewhere (map_of xs)"
  unfolding links_lead_somewhere_def list_all_iff using map_of_SomeD is_link_simps(4) by fastforce

lemma sample_tree: "tree sample_files" "links_lead_somewhere sample_files"
  unfolding sample_files_def by (rule tree_map_of; code_simp) (rule no_links_map_of; code_simp)

lemma sample_batch_run:
  "let (fs', r) = apply_batch_with_hook edit_sample_env (simple_request sample_edits) no_hook sample_files in
   is_ok r \<and> fs' [''ws'', ''new'', ''f''] = Some (File_Node ''x'' 0x1A4)"
  by code_simp

lemma sample_result:
  obtains fs' res where
    "apply_batch_with_hook edit_sample_env (simple_request sample_edits) no_hook sample_files = (fs', Inr res)"
    "fs' [''ws'', ''new'', ''f''] = Some (File_Node ''x'' 0x1A4)"
  using sample_batch_run by (auto simp: is_ok_iff)

lemma batch_stays_below_the_root_witness:
  "let fs' = fst (apply_batch_with_hook edit_sample_env (simple_request sample_edits) no_hook sample_files) in
   (\<forall>q. fs' q = sample_files q \<or> strict_prefix [''ws''] q) \<and> fs' [''ws'', ''new'', ''f''] = Some (File_Node ''x'' 0x1A4)"
proof -
  have plain: "plain_workspace edit_sample_env (simple_request sample_edits)"
    and root: "physical_path sample_files (abs_path edit_sample_env (rq_root (simple_request sample_edits))) = Inr [''ws'']"
    and dir: "sample_files [''ws''] = Some Dir_Node"
    by code_simp+
  show ?thesis
    using batch_stays_below_the_root [OF sample_at_writing [symmetric] sample_tree plain root dir] sample_batch_run
    by (auto simp: Let_def)
qed

lemma hex_encode_set: "(\<And>c. set (hex_pair c) \<subseteq> K) \<Longrightarrow> set (hex_encode s) \<subseteq> K"
  unfolding hex_encode_def set_concat set_map by blast

lemma sample_hex: "hex_digests edit_sample_env"
proof -
  have "list_all (\<lambda>d. hex_lower d \<in> set ''0123456789abcdef'') [0..<16]" by code_simp
  then have lower: "d < 16 \<Longrightarrow> hex_lower d \<in> set ''0123456789abcdef''" for d
    unfolding list_all_iff by (metis atLeastLessThan_upt atLeastLessThan_iff zero_le)
  have two: "set [x, y] \<subseteq> S" if "x \<in> S" "y \<in> S" for x y and S :: "char set"
    using that by simp
  have "set (hex_pair c) \<subseteq> set ''0123456789abcdef''" for c
    unfolding hex_pair_def by (rule two) (rule lower, rule of_char_less_16, rule lower, simp)
  note hex_encode_set [OF this]
  then show ?thesis unfolding hex_digests_def edit_sample_env_def edit_env.select_convs by blast
qed

lemma successful_batch_is_on_disk_witness:
  "\<exists>fs' p wanted content.
     fs' = fst (apply_batch_with_hook edit_sample_env (simple_request sample_edits) no_hook sample_files)
     \<and> asked edit_sample_env sample_files (simple_request sample_edits) (simple_edit ''update'' ''a'' ''two'') p wanted
     \<and> os_read_file edit_sample_env fs' p = Inr content \<and> ee_sha edit_sample_env content = ee_sha edit_sample_env wanted"
proof -
  obtain fs' res where run: "apply_batch_with_hook edit_sample_env (simple_request sample_edits) no_hook sample_files = (fs', Inr res)"
    by (rule sample_result)
  have "\<not> rq_dry (simple_request sample_edits)"
    "simple_edit ''update'' ''a'' ''two'' \<in> set (rq_edits (simple_request sample_edits))"
    "edit_operation (simple_edit ''update'' ''a'' ''two'') \<noteq> op_delete"
    by (simp add: simple_request_def, simp add: simple_request_def sample_edits_def, code_simp)
  from successful_batch_is_on_disk [OF run this] run show ?thesis by auto
qed

lemma edits_keep_their_revision_witness:
  "\<exists>p. resolve edit_sample_env sample_files ''/ws'' ''a'' = Inr p \<and>
     (\<exists>seen current. base_seen edit_sample_env sample_files (simple_edit ''update'' ''a'' ''two'') p seen
        \<and> os_read_file edit_sample_env sample_files p = Inr current
        \<and> ee_sha edit_sample_env current = ee_sha edit_sample_env seen)"
proof -
  obtain fs' res where run: "apply_batch_with_hook edit_sample_env (simple_request sample_edits) no_hook sample_files = (fs', Inr res)"
    by (rule sample_result)
  have dry: "\<not> rq_dry (simple_request sample_edits)"
    and wrote: "is_ok (Inr res :: (apply_error, batch_result) result) \<or> fs' \<noteq> at_writing edit_sample_env (simple_request sample_edits) no_hook sample_files"
    and member: "simple_edit ''update'' ''a'' ''two'' \<in> set (rq_edits (simple_request sample_edits))"
    by (simp_all add: simple_request_def sample_edits_def)
  have item: "edit_operation (simple_edit ''update'' ''a'' ''two'') \<noteq> op_create"
    "trim_space (fe_path (simple_edit ''update'' ''a'' ''two'')) = ''a''" "rq_root (simple_request sample_edits) = ''/ws''"
    by code_simp+
  show ?thesis
    using edits_keep_their_revision [OF sample_hex run dry wrote member] item(1)
    unfolding sample_at_writing item(2,3) by auto
qed

lemma batch_changes_at_most_witness:
  "\<exists>fs' res. apply_batch_with_hook edit_sample_env (simple_request sample_edits) no_hook sample_files = (fs', Inr res)
     \<and> br_total res \<le> 1000 \<and> length (br_results res) = 2"
proof -
  obtain fs' res where run: "apply_batch_with_hook edit_sample_env (simple_request sample_edits) no_hook sample_files = (fs', Inr res)"
    by (rule sample_result)
  have "length (rq_edits (simple_request sample_edits)) = 2" by (simp add: simple_request_def sample_edits_def)
  then show ?thesis using batch_changes_at_most [OF run] run by auto
qed

end
