(* ===== verification/Edit_Departures.thy ===== *)
theory Edit_Departures
  imports Edit_Safety
begin

text \<open>
  Runs of \<^verbatim>\<open>ApplyBatch\<close> (\<^verbatim>\<open>internal/edit/apply.go\<close>) in which the code does something else than it means to. Each
  is evaluated on a small file system.
\<close>

text \<open>A link whose target is missing is taken for a directory to come. When an earlier edit of the batch makes the
  link lead out of the workspace, the next one writes there: \<^verbatim>\<open>dl\<close> leads to \<^verbatim>\<open>new/../../out\<close>, and \<^verbatim>\<open>new\<close> is made
  by the first edit.\<close>

definition dangling_files :: file_system where
  "dangling_files = map_of [([], Dir_Node), ([''out''], Dir_Node), ([''ws''], Dir_Node),
     ([''ws'', ''dl''], Link_Node ''new/../../out'')]"

lemma dangling_link_leads_out:
  "let (fs, r) = apply_batch edit_sample_env
       (simple_request [simple_edit ''create'' ''new/f'' ''x'', simple_edit ''create'' ''dl/y'' ''z'']) dangling_files in
   is_ok r \<and> fs [''out'', ''y''] = Some (File_Node ''z'' 0x1A4)"
  by code_simp

text \<open>The first check trims the path of an edit, the second one does not: a path with a space around it passes a dry
  run and is stale in the run itself.\<close>

definition dry_request :: "file_edit list \<Rightarrow> batch_request" where
  "dry_request edits = (simple_request edits)\<lparr>rq_dry := True\<rparr>"

lemma spaced_path_is_stale:
  "is_ok (snd (apply_batch edit_sample_env (dry_request [simple_edit ''update'' ''a '' ''x'']) sample_files))"
  "case snd (apply_batch edit_sample_env (simple_request [simple_edit ''update'' ''a '' ''x'']) sample_files) of
     Inl e \<Rightarrow> er_code e = STALE_REVISION | Inr _ \<Rightarrow> False"
  by code_simp+

text \<open>The checks look at the cleaned path, the removal follows it component by component: behind a link to a
  directory, \<^verbatim>\<open>l/../a\<close> is checked as \<^verbatim>\<open>a\<close> and removes \<^verbatim>\<open>sub/a\<close>.\<close>

definition linked_files :: file_system where
  "linked_files = map_of [([], Dir_Node), ([''ws''], Dir_Node), ([''ws'', ''a''], File_Node ''one'' 0x1A4),
     ([''ws'', ''l''], Link_Node ''sub/deep''), ([''ws'', ''sub''], Dir_Node), ([''ws'', ''sub'', ''deep''], Dir_Node),
     ([''ws'', ''sub'', ''a''], File_Node ''two'' 0x1A4)]"

definition delete_edit :: "bytes \<Rightarrow> bytes \<Rightarrow> file_edit" where
  "delete_edit p base = (simple_edit ''delete'' p [])\<lparr>fe_base := base\<rparr>"

lemma another_file_is_deleted:
  "let (fs, r) = apply_batch edit_sample_env (simple_request [delete_edit ''l/../a'' (hex_encode ''one'')]) linked_files in
   is_ok r \<and> fs [''ws'', ''a''] = Some (File_Node ''one'' 0x1A4) \<and> fs [''ws'', ''sub'', ''a''] = None"
  by code_simp

text \<open>A file and a file below it can be created in one batch as far as the checks go: the first is written, then the
  batch fails.\<close>

lemma failed_batch_has_written:
  "let (fs, r) = apply_batch edit_sample_env
       (simple_request [simple_edit ''create'' ''d'' ''x'', simple_edit ''create'' ''d/e'' ''y'']) sample_files in
   \<not> is_ok r \<and> fs [''ws'', ''d''] = Some (File_Node ''x'' 0x1A4)"
  by code_simp

text \<open>The handler of the tool refuses deletions, which have to be confirmed (\<^verbatim>\<open>toolEdit\<close> of
  \<^verbatim>\<open>internal/server/tools_edit.go\<close>), but compares the operation as it is given; the batch trims it.\<close>

definition delete_gate :: "file_edit list \<Rightarrow> (apply_error, unit) result" where
  "delete_gate edits =
     (case find (\<lambda>(i, item). fe_operation item = op_delete) (enumerate 0 edits) of
        Some (i, item) \<Rightarrow> Inl (edit_error MOVE_OUT_REQUIRED (fe_path item) (int i))
      | None \<Rightarrow> Inr ())"

lemma spaced_deletion_passes_the_gate:
  "delete_gate [simple_edit ''delete'' ''a'' []] = Inl (edit_error MOVE_OUT_REQUIRED ''a'' 0)"
  "delete_gate [simple_edit ''delete '' ''a'' []] = Inr ()"
  "let (fs, r) = apply_batch edit_sample_env (simple_request [simple_edit ''delete '' ''a'' []]) sample_files in
   is_ok r \<and> fs [''ws'', ''a''] = None"
  by code_simp+

end
