(* ===== verification/Spec2Isabelle.thy ===== *)
theory Spec2Isabelle
  imports Operation_Safety Command_Policy Idempotency_Race Secret_Store Plan_Delivery Grant_Safety Oauth_Grants Oauth_Tokens Remote_Pages
    Edit_Departures
begin

text \<open>
  A verification of the core of \<^verbatim>\<open>mcpx\<close>, a Go server that lets an assistant run commands, edit files and
  follow plans in a workspace, each call within a remote session (\<^verbatim>\<open>internal/remotesession\<close>). This is the root theory; it imports every other one.

  The program. A tool call reaches a handler under \<^verbatim>\<open>internal/server\<close>. The handler asks the policy
  (\<^verbatim>\<open>internal/security\<close>) whether a command or a file access is allowed, forbidden or has to be
  confirmed; a confirmation waits in \<^verbatim>\<open>internal/approval\<close>, a password in \<^verbatim>\<open>internal/secrets\<close>. Calls that
  may be repeated go through \<^verbatim>\<open>internal/idempotency\<close>. Several steps form an operation
  (\<^verbatim>\<open>internal/operation\<close>) that workers carry out in the order of its dependencies. What a user wants
  done over many calls is a plan (\<^verbatim>\<open>internal/plan\<close>): tasks with dependencies, finished by evidence from the
  other components and delivered when nothing is left, where a run grant lets tasks be handed to
  external issues without a question each time. All of these keep their state in SQLite tables
  (\<^verbatim>\<open>internal/state/migrations.go\<close>). In front of everything stands the gateway, which admits a request with a
  static token or with an access token of the server's own OAuth endpoints (\<^verbatim>\<open>internal/oauth\<close>,
  \<^verbatim>\<open>internal/auth\<close>), whose clients, refresh grants and signing key are files.

  The model. Strings are lists of bytes (\<open>bytes\<close> of \<open>Prelude\<close>), times are integers in nanoseconds as the
  clock reads them and milliseconds in the tables, Go's \<^verbatim>\<open>int\<close> is an unbounded integer except where the
  code can overflow (\<open>atoi\<close>, \<open>minutes\<close>). A function that returns an error is a function into \<open>result\<close>; an
  error is the sentinel it wraps, without its text. A table is a list of rows, a statement a function on
  it that returns an error where a constraint, a trigger or a foreign key of the schema refuses; a transaction
  is \<open>run_tx\<close>. Clock readings, random identifiers (\<open>ids k\<close> is the \<open>k\<close>-th one a call draws), the iteration
  order of Go maps, SHA-256, Unicode case mapping and the failing of statements are arguments; nothing is
  assumed of them except where a statement says so. Every operation is executable, and the
  closed lemmas named \<open>..._witness\<close> run it.

  Theories, in the order of their imports.

    \<^item> \<open>Prelude\<close>: bytes, trimming, UTF-8 lengths, numbers in decimal, errors, lemmas on lists and options.
    \<^item> \<open>Shell_Scanner\<close>, \<open>Shell_Reading\<close>, \<open>Command_Policy\<close> (\<^verbatim>\<open>security/commands.go\<close>): the scanner that splits a
      compound command into simple ones and the policy that takes the strictest verdict of them; between them
      the reading of Bash itself (quotes, comments, parameters, here-documents, words), which is not translated from
      the code. Where scanner and shell read alike (\<open>scanner_follows\<close>), an accepted command runs no command
      substitution; the segments cover it, only reading commands pass without a question as long as no white space
      is split by Go alone (\<open>blanks_only\<close>), and deny rules can only make the verdict stricter.
    \<^item> \<open>Dep_Graph\<close>: the depth-first cycle check that \<^verbatim>\<open>validateSpec\<close> and \<^verbatim>\<open>validateTaskGraph\<close> share, with the
      locale \<open>dfs_contract\<close>: it answers, and accepts exactly the closed acyclic graphs. Its fuel is the
      nesting depth; one more than the number of nodes is enough (\<open>dfs_answers\<close>) and is what the callers give.
    \<^item> \<open>Operation_Spec\<close>, \<open>Operation_Db\<close>, \<open>Operation_Service\<close>, \<open>Operation_System\<close>, \<open>Operation_Invariant\<close>,
      \<open>Operation_Safety\<close> (\<^verbatim>\<open>operation/types.go\<close>, \<^verbatim>\<open>operation/service.go\<close>): specifications and result pages;
      the tables with their triggers; the operations of \<^verbatim>\<open>Service\<close> cut into atomic pieces; the transition system
      whose pieces interleave with workers and a crash; its invariants; and what they give: steps start
      after their dependencies, one worker has a step, ended operations are frozen.
    \<^item> \<open>Idempotency\<close>, \<open>Idempotency_Race\<close> (\<^verbatim>\<open>idempotency/store.go\<close>): the operations, settled requests are
      replayed, doubtful ones never repeated; \<^verbatim>\<open>Claim\<close> cut into its accesses, shown to be the same function, and
      the world in which the accesses of many claims and processes interleave: owners of a request are a
      lease apart. \<^verbatim>\<open>Claim\<close> makes at most seven accesses, which is the fuel of \<open>claim_steps\<close>.
    \<^item> \<open>Pending_Contract\<close>, \<open>Approval_Store\<close>, \<open>Secret_Store\<close> (\<^verbatim>\<open>approval/store.go\<close>, \<^verbatim>\<open>secrets/store.go\<close>): the
      contract that an item is taken once, and the two stores that fulfil it, with their expiry.
    \<^item> \<open>Plan_Tasks\<close>, \<open>Plan_Db\<close>, \<open>Plan_Evidence\<close>, \<open>Plan_Service\<close>, \<open>Run_Grant\<close> (\<^verbatim>\<open>plan/types.go\<close>,
      \<^verbatim>\<open>service.go\<close>, \<^verbatim>\<open>delivery.go\<close>, \<^verbatim>\<open>multica_dispatch.go\<close>, \<^verbatim>\<open>run_grant.go\<close>): the functions on the tasks of a plan;
      the tables and the loading of a plan; what counts as evidence, read from the tables of the other
      components (\<open>evidence_world\<close>: the operations and approvals are those of the theories above); the
      operations of \<^verbatim>\<open>Service\<close>.
    \<^item> \<open>Plan_System\<close>, \<open>Plan_Invariant\<close>, \<open>Plan_Lifecycle\<close>: the calls as one type with \<open>perform\<close>, the reachable
      states, the invariant \<open>plan_ok\<close>, and the abstract life cycle of a task that every call refines.
    \<^item> \<open>Plan_Safety\<close>, \<open>Plan_Delivery\<close>, \<open>Grant_Safety\<close>: the properties of plans, deliveries, claims and grants.
    \<^item> \<open>Oauth_Registry\<close>, \<open>Oauth_Server\<close>, \<open>Oauth_Handlers\<close>, \<open>Token_Secret\<close>, \<open>Oauth_System\<close> (\<^verbatim>\<open>internal/oauth\<close>,
      \<^verbatim>\<open>internal/auth\<close>, \<^verbatim>\<open>wrapMCP\<close> of \<^verbatim>\<open>server/http_gateway.go\<close>, \<^verbatim>\<open>buildOAuthServer\<close> of \<^verbatim>\<open>server/runtime.go\<close>):
      clients, codes and tokens with their files, the endpoints, the signing key and several servers that start
      at once, and the runs of starts and requests. URL, JSON, JWT, base64, digest and the web are the
      fields of \<open>oauth_env\<close>; \<open>digest_law\<close>, \<open>text_law\<close>, \<open>jwt_law\<close> and \<open>query_law\<close> say what is relied on.
    \<^item> \<open>Oauth_Invariant\<close>, \<open>Oauth_Safety\<close>, \<open>Oauth_Grants\<close>, \<open>Oauth_Tokens\<close>: the invariant of the server and its files;
      no token without the operator's password; codes and refresh tokens as one-shot items (the contract of
      \<open>Pending_Contract\<close> again); what a restart keeps, where a code is sent, what an access token opens.

    \<^item> \<open>Remote_Session\<close>, \<open>Remote_System\<close>, \<open>Remote_Safety\<close>, \<open>Remote_Pages\<close> (\<^verbatim>\<open>remotesession/service.go\<close>): the tables and the
      operations of remote sessions; the system of their pieces and the locale \<open>versioned\<close> of rows guarded by a
      version number, with its interpretation \<open>sessions\<close>; updates, privacy, replayed creations; the pages of a
      listing. A listing that follows the cursors needs at most one page for each session and one more, which is
      the fuel of \<open>session_pages\<close>.

    \<^item> \<open>Text_Lines\<close>, \<open>Text_Format\<close>, \<open>Text_Roundtrip\<close> (\<^verbatim>\<open>edit/write.go\<close>, the decoding of \<^verbatim>\<open>file/read.go\<close>): lines and
      line endings; charsets, byte order marks and the locale \<open>unit_codec\<close> of a byte order with its
      interpretations \<open>little\<close> and \<open>big\<close>; a text written back has the bytes that were read.
    \<^item> \<open>Line_Diff\<close>, \<open>Unified_Diff\<close> (\<^verbatim>\<open>edit/diff.go\<close>): the search for a shortest edit script, its hunks and the
      count of changed lines. The search runs over as many rounds as the code's loop, the sum of the
      two lengths, and is shown to end before.
    \<^item> \<open>Edit_Text\<close>, \<open>Edit_Lines\<close> (\<^verbatim>\<open>edit/apply.go\<close>): replacements by exact match and by a range of lines, and what
      they do to the text.
    \<^item> \<open>Edit_Files\<close>, \<open>Edit_Batch\<close> (\<^verbatim>\<open>edit/apply.go\<close>, \<^verbatim>\<open>edit/write.go\<close>, \<^verbatim>\<open>file/path.go\<close>): a file system of
      directories, files and symbolic links as Unix has them, path resolution within a root, \<^verbatim>\<open>ApplyBatch\<close> in
      its phases (preparation, hook, second check, writes, readback). Any system call that changes the file
      system may be refused (\<open>ee_refuses\<close>); the hook may change the file system, and nobody else does between
      the second check and the last write. A walk follows at most 255 links (40 in the kernel, 8 below an opened
      root), as the code and the kernel do.
    \<^item> \<open>Edit_Walk\<close>, \<open>Edit_Safety\<close>, \<open>Edit_Departures\<close>: where a walk over the links ends; what each call may change
      (\<open>changes\<close>), so that nothing above or beside the workspace root is touched; that a successful batch has
      left what was asked for, and that every edit was made on the revision it was prepared on; runs in which
      the code does something else than it means to.

  Where the code departs from its intention a lemma shows it: \<open>comment_hides_substitution\<close>,
  \<open>ansi_string_hides_substitution\<close>, \<open>arithmetic_quotes_nothing\<close>,
  \<open>arithmetic_hides_substitution\<close>, \<open>delimiter_hides_substitution\<close>,
  \<open>odd_space_is_read_only\<close>, \<open>pages_cut_runes\<close>, \<open>failed_chain_never_finishes\<close>,
  \<open>untrimmed_identifier_blocks_dependents\<close>, \<open>delivery_reopens_a_completed_plan\<close>,
  \<open>lifetime_wraps_around\<close>, \<open>proxied_tokens_do_not_fit\<close>,
  \<open>refresh_grant_forgets_the_resource\<close>, \<open>requested_resource_wins\<close>,
  \<open>any_client_may_use_the_chatgpt_callback\<close>, \<open>unsaved_client_is_served\<close>,
  \<open>refresh_may_leave_out_the_issuer\<close>, \<open>early_reader_gives_up\<close>,
  \<open>expired_request_blocks_create\<close>, \<open>replay_forgets_the_path\<close>,
  \<open>future_version_overwrites\<close>, \<open>reopened_session_keeps_closing_time\<close>,
  \<open>overlapping_match_is_accepted\<close>, \<open>replacement_doubles_carriage_return\<close>,
  \<open>emptied_line_is_lost\<close>, \<open>dangling_link_leads_out\<close>, \<open>spaced_path_is_stale\<close>,
  \<open>another_file_is_deleted\<close>, \<open>failed_batch_has_written\<close>,
  \<open>spaced_deletion_passes_the_gate\<close>.

  Not modelled. The texts of errors and messages; input/output failures of the database inside a transaction,
  which only roll it back; the transport, the JSON glue of \<^verbatim>\<open>internal/server\<close> and the terminal presentation
  (\<^verbatim>\<open>internal/arc\<close>, the rendering in \<^verbatim>\<open>internal/observation\<close>); processes, the browser, the desktop
  application, screenshots and self update, which are calls to the operating system; the YAML configuration,
  read by a library. Searching files, the windows in which long files are read, and the retention of old
  rows are not modelled, but for the expired requests of remote sessions and the deletion of operations.
\<close>

end
